(* ===== verification/Prelude.thy ===== *)
theory Prelude
  imports Main "HOL-Library.Word"
begin

text \<open>
  Shared vocabulary of the development: the machine types of the C++ code, the little-endian
  object representation that a byte-wise copy of an integer produces, a sequence type for
  results that may fail, and the automation collections the component theories extend.
\<close>

section \<open>Machine types\<close>

type_synonym u8 = "8 word"
type_synonym u16 = "16 word"
type_synonym u32 = "32 word"
type_synonym u64 = "64 word"
type_synonym bytes = "u8 list"

text \<open>Collections: \<open>conn_defs\<close> unfolds the handlers of a connection, \<open>queue_defs\<close> the
  operations of the thread-safe queue, \<open>server_defs\<close> the operations of the server and
  \<open>iocp_defs\<close> the operations of the completion-port event loop.\<close>

named_theorems queue_defs
named_theorems conn_defs
named_theorems server_defs
named_theorems iocp_defs

section \<open>Faults\<close>

text \<open>
  Undefined behaviour the code can run into is a value: an access to the front or back of an empty
  deque, a dereference of a null pointer, a copy from outside a vector, a cast to a class the object is not of. An exception nobody catches
  ends the program, and is a value too.
\<close>

datatype fault = EmptyDeque | NullDereference | ReadPastEnd | BadDowncast | ProgramTerminated

definition bind_res :: "fault + 'a \<Rightarrow> ('a \<Rightarrow> fault + 'b) \<Rightarrow> fault + 'b" where
  "bind_res r f = (case r of Inl e \<Rightarrow> Inl e | Inr x \<Rightarrow> f x)"

lemma bind_res_simps [simp]:
  "bind_res (Inl e) f = Inl e"
  "bind_res (Inr x) f = f x"
  by (simp_all add: bind_res_def)

lemma bind_res_cong [fundef_cong]:
  "r = r' \<Longrightarrow> (\<And>x. r' = Inr x \<Longrightarrow> f x = f' x) \<Longrightarrow> bind_res r f = bind_res r' f'"
  by (cases r') simp_all

lemma bind_res_Inr_iff: "bind_res r f = Inr y \<longleftrightarrow> (\<exists>x. r = Inr x \<and> f x = Inr y)"
  by (cases r) simp_all

text \<open>A change of the successful value only.\<close>

definition map_res :: "('a \<Rightarrow> 'b) \<Rightarrow> fault + 'a \<Rightarrow> fault + 'b" where
  "map_res f r = bind_res r (\<lambda>x. Inr (f x))"

lemma map_res_simps [simp]:
  "map_res f (Inl e) = Inl e"
  "map_res f (Inr x) = Inr (f x)"
  by (simp_all add: map_res_def)

lemma bind_map_res: "bind_res (map_res f r) g = bind_res r (\<lambda>x. g (f x))"
  by (cases r) simp_all

lemma map_res_bind: "map_res f (bind_res r g) = bind_res r (\<lambda>x. map_res f (g x))"
  by (cases r) simp_all

section \<open>Vector and memory primitives\<close>

text \<open>\<open>std::vector<uint8_t>::resize\<close> (new bytes are value-initialised) and \<open>std::memcpy\<close> into a
  vector's storage at an offset.\<close>

definition vec_resize :: "bytes \<Rightarrow> nat \<Rightarrow> bytes" where
  "vec_resize v n = take n v @ replicate (n - length v) 0"

definition memcpy_into :: "bytes \<Rightarrow> nat \<Rightarrow> bytes \<Rightarrow> bytes" where
  "memcpy_into v i d = take i v @ d @ drop (i + length d) v"

lemma length_vec_resize [simp]: "length (vec_resize v n) = n"
  by (simp add: vec_resize_def)

lemma vec_resize_shrink: "n \<le> length v \<Longrightarrow> vec_resize v n = take n v"
  by (simp add: vec_resize_def)

lemma memcpy_after_resize:
  "memcpy_into (vec_resize v (length v + length d)) (length v) d = v @ d"
  by (simp add: memcpy_into_def vec_resize_def)

section \<open>Byte representation of integers\<close>

text \<open>
  \<open>le_enc k n\<close> is the \<open>k\<close>-byte little-endian representation of \<open>n\<close> (what
  \<open>std::memcpy\<close> or a socket write reads from an integer object on the x86 targets of the
  project), \<open>le_dec\<close> the integer a byte sequence represents.
\<close>

fun le_enc :: "nat \<Rightarrow> nat \<Rightarrow> bytes" where
  "le_enc 0 n = []"
| "le_enc (Suc k) n = word_of_nat n # le_enc k (n div 256)"

fun le_dec :: "bytes \<Rightarrow> nat" where
  "le_dec [] = 0"
| "le_dec (b # bs) = unat b + 256 * le_dec bs"

lemma length_le_enc [simp]: "length (le_enc k n) = k"
  by (induction k arbitrary: n) auto

lemma unat_u8_of_nat: "unat (word_of_nat n :: u8) = n mod 256"
  by (simp add: unat_of_nat)

lemma le_dec_le_enc: "le_dec (le_enc k n) = n mod 256 ^ k"
proof (induction k arbitrary: n)
  case 0
  then show ?case by simp
next
  case (Suc k)
  have "n mod (256 * 256 ^ k) = 256 * (n div 256 mod 256 ^ k) + n mod 256"
    by (rule mod_mult2_eq)
  then show ?case by (simp add: Suc.IH unat_u8_of_nat)
qed

lemma le_dec_bound: "le_dec bs < 256 ^ length bs"
proof (induction bs)
  case Nil
  then show ?case by simp
next
  case (Cons b bs)
  have "unat b < 256" using unsigned_less [of b] by simp
  with Cons.IH show ?case by simp
qed

lemma le_enc_le_dec: "le_enc (length bs) (le_dec bs) = bs"
proof (induction bs)
  case Nil
  then show ?case by simp
next
  case (Cons b bs)
  have b: "unat b < 256" using unsigned_less [of b] by simp
  then have "unat (word_of_nat (unat b + 256 * le_dec bs) :: u8) = unat b"
    unfolding unat_u8_of_nat by simp
  then have "word_of_nat (unat b + 256 * le_dec bs) = b"
    by (simp only: word_unat_eq_iff)
  moreover from b have "(unat b + 256 * le_dec bs) div 256 = le_dec bs" by simp
  ultimately show ?case using Cons.IH by simp
qed

definition enc_u32 :: "u32 \<Rightarrow> bytes" where
  "enc_u32 w = le_enc 4 (unat w)"

definition dec_u32 :: "bytes \<Rightarrow> u32" where
  "dec_u32 bs = word_of_nat (le_dec bs)"

definition enc_u64 :: "u64 \<Rightarrow> bytes" where
  "enc_u64 w = le_enc 8 (unat w)"

definition dec_u64 :: "bytes \<Rightarrow> u64" where
  "dec_u64 bs = word_of_nat (le_dec bs)"

lemma length_enc_u32 [simp]: "length (enc_u32 w) = 4"
  by (simp add: enc_u32_def)

lemma length_enc_u64 [simp]: "length (enc_u64 w) = 8"
  by (simp add: enc_u64_def)

lemma dec_enc_u32 [simp]: "dec_u32 (enc_u32 w) = w"
proof -
  have "unat w < 256 ^ 4" using unsigned_less [of w] by simp
  then show ?thesis by (simp add: dec_u32_def enc_u32_def le_dec_le_enc)
qed

lemma dec_enc_u64 [simp]: "dec_u64 (enc_u64 w) = w"
proof -
  have "unat w < 256 ^ 8" using unsigned_less [of w] by simp
  then show ?thesis by (simp add: dec_u64_def enc_u64_def le_dec_le_enc)
qed

lemma unat_dec_u32: "length bs = 4 \<Longrightarrow> unat (dec_u32 bs) = le_dec bs"
  using le_dec_bound [of bs] by (simp add: dec_u32_def unat_of_nat)

lemma enc_dec_u32: "length bs = 4 \<Longrightarrow> enc_u32 (dec_u32 bs) = bs"
  using le_enc_le_dec [of bs] by (simp add: enc_u32_def unat_dec_u32)

section \<open>List lemmas\<close>

lemma take_drop_split: "length xs = a + b \<Longrightarrow> take a xs @ drop a xs = xs"
  by simp

lemma butlast_snoc_drop: "drop (length xs) (xs @ ys) = ys"
  by simp

end
