(* ===== verification/Message.thy ===== *)
theory Message
  imports Prelude
begin

text \<open>
  The message buffer of \<^verbatim>\<open>Common/message.h\<close>: the fixed-size header, the growable body, the
  stack-like stream operators that push and pull plain data at its end, and the object
  representation of the header that travels on the wire.
\<close>

section \<open>Data\<close>

text \<open>
  The template parameter \<open>T\<close> of the header is an \<^verbatim>\<open>enum class : uint32_t\<close> in both programs; any
  32-bit value is a value of such a type, so the field is a 32-bit word. \<open>T id{}\<close> and
  \<open>size = 0\<close> give the initial values.
\<close>

record messageHeader =
  hdr_id :: u32
  hdr_size :: u32

record messageBody =
  header :: messageHeader
  body :: bytes

definition messageHeader_init :: messageHeader where
  "messageHeader_init = \<lparr>hdr_id = 0, hdr_size = 0\<rparr>"

definition messageBody_init :: messageBody where
  "messageBody_init = \<lparr>header = messageHeader_init, body = []\<rparr>"

text \<open>\<open>sizeof(messageHeader<T>)\<close>: two 32-bit members, no padding.\<close>

definition sizeof_messageHeader :: nat where
  "sizeof_messageHeader = 8"

text \<open>The member function \<open>size()\<close>: header and body together, a \<open>size_t\<close>.\<close>

definition msg_size :: "messageBody \<Rightarrow> nat" where
  "msg_size m = sizeof_messageHeader + length (body m)"

section \<open>The stream operators\<close>

text \<open>
  \<open>msg << data\<close>. \<open>data\<close> is the object representation of the pushed value. The assignment
  \<open>msg.header.size = msg.size()\<close> narrows a \<open>size_t\<close> to \<open>uint32_t\<close>, hence the wrap-around.
\<close>

definition msg_push :: "messageBody \<Rightarrow> bytes \<Rightarrow> messageBody" where
  "msg_push m d =
     (let i = length (body m);
          b1 = vec_resize (body m) (length (body m) + length d);
          b2 = memcpy_into b1 i d;
          m1 = m\<lparr>body := b2\<rparr>
      in m1\<lparr>header := (header m1)\<lparr>hdr_size := word_of_nat (msg_size m1)\<rparr>\<rparr>)"

text \<open>
  \<open>msg >> data\<close> for a type of \<open>k\<close> bytes. The subtraction is on \<open>size_t\<close> and wraps when the body
  is shorter than \<open>k\<close>; the copy then reads outside the vector, which is an error value here.
\<close>

definition msg_pull :: "messageBody \<Rightarrow> nat \<Rightarrow> fault + (bytes \<times> messageBody)" where
  "msg_pull m k =
     (let i = (word_of_nat (length (body m)) :: u64) - word_of_nat k
      in if length (body m) < unat i + k then Inl ReadPastEnd
         else
           let d = take k (drop (unat i) (body m));
               m1 = m\<lparr>body := vec_resize (body m) (unat i)\<rparr>
           in Inr (d, m1\<lparr>header := (header m1)\<lparr>hdr_size := word_of_nat (msg_size m1)\<rparr>\<rparr>))"

text \<open>A vector's size and the size of a type are \<open>size_t\<close> values.\<close>

definition fits_size_t :: "nat \<Rightarrow> bool" where
  "fits_size_t n \<longleftrightarrow> n < 2 ^ 64"

lemma body_msg_push [simp]: "body (msg_push m d) = body m @ d"
  by (simp add: msg_push_def Let_def memcpy_after_resize)

lemma hdr_id_msg_push [simp]: "hdr_id (header (msg_push m d)) = hdr_id (header m)"
  by (simp add: msg_push_def Let_def)

lemma hdr_size_msg_push:
  "hdr_size (header (msg_push m d)) = word_of_nat (sizeof_messageHeader + length (body m) + length d)"
  by (simp add: msg_push_def Let_def memcpy_after_resize msg_size_def add.assoc)

lemma msg_pull_index:
  assumes "fits_size_t (length (body m))" and "k \<le> length (body m)"
  shows "unat ((word_of_nat (length (body m)) :: u64) - word_of_nat k) = length (body m) - k"
proof -
  let ?n = "length (body m)"
  have n: "unat (word_of_nat ?n :: u64) = ?n" and k: "unat (word_of_nat k :: u64) = k"
    using assms by (simp_all add: fits_size_t_def unat_of_nat)
  then have "(word_of_nat k :: u64) \<le> word_of_nat ?n"
    using assms(2) by (simp add: word_le_nat_alt)
  then show ?thesis using n k by (simp add: unat_sub)
qed

lemma msg_pull_ok:
  assumes "fits_size_t (length (body m))" and "k \<le> length (body m)"
  shows "msg_pull m k =
    (let n = length (body m) - k; m1 = m\<lparr>body := take n (body m)\<rparr>
     in Inr (drop n (body m), m1\<lparr>header := (header m1)\<lparr>hdr_size := word_of_nat (msg_size m1)\<rparr>\<rparr>))"
  using assms
  by (simp add: msg_pull_def Let_def msg_pull_index vec_resize_shrink)

lemma msg_pull_short:
  assumes "fits_size_t k" and "length (body m) < k"
  shows "msg_pull m k = Inl ReadPastEnd"
proof -
  let ?n = "length (body m)"
  have n: "?n < 2 ^ 64" using assms by (simp add: fits_size_t_def)
  have "unat ((word_of_nat ?n :: u64) - word_of_nat k) = ?n + 2 ^ 64 - k"
    using assms n
    by (simp add: unat_sub_if' unat_of_nat fits_size_t_def word_le_nat_alt)
  then show ?thesis using assms by (simp add: msg_pull_def Let_def fits_size_t_def)
qed

section \<open>Header on the wire\<close>

text \<open>
  \<open>asio::buffer(&h, sizeof(messageHeader<T>))\<close> exposes the header's object representation: the
  bytes of \<open>id\<close> and then those of \<open>size\<close>.
\<close>

definition header_bytes :: "messageHeader \<Rightarrow> bytes" where
  "header_bytes h = enc_u32 (hdr_id h) @ enc_u32 (hdr_size h)"

definition header_of_bytes :: "bytes \<Rightarrow> messageHeader" where
  "header_of_bytes bs = \<lparr>hdr_id = dec_u32 (take 4 bs), hdr_size = dec_u32 (take 4 (drop 4 bs))\<rparr>"

lemma length_header_bytes [simp]: "length (header_bytes h) = sizeof_messageHeader"
  by (simp add: header_bytes_def sizeof_messageHeader_def)

lemma header_of_header_bytes [simp]: "header_of_bytes (header_bytes h) = h"
  by (simp add: header_of_bytes_def header_bytes_def)

lemma header_bytes_of_bytes:
  assumes "length bs = sizeof_messageHeader"
  shows "header_bytes (header_of_bytes bs) = bs"
proof -
  have "length (take 4 bs) = 4" and "length (take 4 (drop 4 bs)) = 4"
    using assms by (simp_all add: sizeof_messageHeader_def)
  then have "header_bytes (header_of_bytes bs) = take 4 bs @ take 4 (drop 4 bs)"
    by (simp add: header_bytes_def header_of_bytes_def enc_dec_u32)
  also have "\<dots> = bs" using assms
    by (simp add: sizeof_messageHeader_def flip: take_add)
  finally show ?thesis .
qed

section \<open>Printing\<close>

text \<open>\<open>os << msg\<close> prints \<open>int(msg.header.id)\<close>, a signed 32-bit reading, and the unsigned size in
  decimal.\<close>

fun show_nat :: "nat \<Rightarrow> string" where
  "show_nat n = (if n < 10 then [char_of (48 + n)] else show_nat (n div 10) @ [char_of (48 + n mod 10)])"

declare show_nat.simps [simp del]

definition show_int :: "int \<Rightarrow> string" where
  "show_int i = (if i < 0 then ''-'' @ show_nat (nat (- i)) else show_nat (nat i))"

definition show_messageBody :: "messageBody \<Rightarrow> string" where
  "show_messageBody m =
     ''ID: '' @ show_int (sint (hdr_id (header m))) @ '' Size: '' @ show_nat (unat (hdr_size (header m)))"

section \<open>Sequences of pushes and pulls\<close>

definition push_all :: "messageBody \<Rightarrow> bytes list \<Rightarrow> messageBody" where
  "push_all m ds = foldl msg_push m ds"

fun pull_all :: "messageBody \<Rightarrow> nat list \<Rightarrow> fault + (bytes list \<times> messageBody)" where
  "pull_all m [] = Inr ([], m)"
| "pull_all m (k # ks) =
     (case msg_pull m k of
        Inl e \<Rightarrow> Inl e
      | Inr (d, m1) \<Rightarrow>
          (case pull_all m1 ks of Inl e \<Rightarrow> Inl e | Inr (ds, m2) \<Rightarrow> Inr (d # ds, m2)))"

text \<open>The size field agrees with \<open>size()\<close>; every operator establishes this.\<close>

definition size_in_step :: "messageBody \<Rightarrow> bool" where
  "size_in_step m \<longleftrightarrow> hdr_size (header m) = word_of_nat (msg_size m)"

lemma size_in_step_push [simp]: "size_in_step (msg_push m d)"
  by (simp add: size_in_step_def hdr_size_msg_push msg_size_def add.assoc)

lemma size_in_step_pull: "msg_pull m k = Inr (d, m') \<Longrightarrow> size_in_step m'"
  by (auto simp: msg_pull_def Let_def size_in_step_def msg_size_def split: if_splits)

lemma push_all_Nil [simp]: "push_all m [] = m"
  by (simp add: push_all_def)

lemma push_all_snoc [simp]: "push_all m (ds @ [d]) = msg_push (push_all m ds) d"
  by (simp add: push_all_def)

lemma body_push_all: "body (push_all m ds) = body m @ concat ds"
  by (induction ds rule: rev_induct) simp_all

lemma hdr_id_push_all: "hdr_id (header (push_all m ds)) = hdr_id (header m)"
  by (induction ds rule: rev_induct) simp_all

lemma msg_eqI:
  "body m = body m' \<Longrightarrow> hdr_id (header m) = hdr_id (header m') \<Longrightarrow>
   hdr_size (header m) = hdr_size (header m') \<Longrightarrow> m = (m' :: messageBody)"
  by (cases m; cases m'; cases "header m"; cases "header m'") simp

text \<open>A pull right after a push of the same size returns the pushed bytes and restores the body; the
  size field is brought in step with it.\<close>

lemma msg_pull_push:
  assumes "fits_size_t (length (body m) + length d)"
  shows "msg_pull (msg_push m d) (length d) =
    Inr (d, m\<lparr>header := (header m)\<lparr>hdr_size := word_of_nat (msg_size m)\<rparr>\<rparr>)"
proof -
  have "fits_size_t (length (body (msg_push m d)))" using assms by simp
  then have "msg_pull (msg_push m d) (length d) =
    (let m1 = (msg_push m d)\<lparr>body := body m\<rparr>
     in Inr (d, m1\<lparr>header := (header m1)\<lparr>hdr_size := word_of_nat (msg_size m1)\<rparr>\<rparr>))"
    by (simp add: msg_pull_ok)
  also have "\<dots> = Inr (d, m\<lparr>header := (header m)\<lparr>hdr_size := word_of_nat (msg_size m)\<rparr>\<rparr>)"
    by (simp add: Let_def msg_size_def msg_push_def)
  finally show ?thesis .
qed

lemma pull_all_push_all:
  assumes "size_in_step m" and "fits_size_t (length (body m) + length (concat ds))"
  shows "pull_all (push_all m ds) (rev (map length ds)) = Inr (rev ds, m)"
  using assms
proof (induction ds rule: rev_induct)
  case Nil
  then show ?case by simp
next
  case (snoc d ds)
  let ?m = "push_all m ds"
  have fit: "fits_size_t (length (body ?m) + length d)"
    using snoc.prems(2) by (simp add: body_push_all add.assoc)
  have step: "size_in_step ?m"
    using snoc.prems(1) by (cases ds rule: rev_cases) simp_all
  then have same: "?m\<lparr>header := (header ?m)\<lparr>hdr_size := word_of_nat (msg_size ?m)\<rparr>\<rparr> = ?m"
    by (intro msg_eqI) (simp_all add: size_in_step_def)
  have "fits_size_t (length (body m) + length (concat ds))"
    using snoc.prems(2) by (simp add: fits_size_t_def)
  with snoc.IH snoc.prems(1)
  have "pull_all ?m (rev (map length ds)) = Inr (rev ds, m)" by simp
  then show ?case by (simp add: msg_pull_push [OF fit] same)
qed

section \<open>Plain data types\<close>

text \<open>
  The stream operators are templates over any standard-layout type. The interface they rely on is
  an object representation of fixed size that a byte copy preserves.
\<close>

locale pod_type =
  fixes enc :: "'a \<Rightarrow> bytes"
    and dec :: "bytes \<Rightarrow> 'a"
    and width :: nat
  assumes enc_width: "length (enc x) = width"
    and dec_enc: "dec (enc x) = x"
begin

lemma pull_value:
  assumes "fits_size_t (length (body m) + width)"
  shows "map_sum id (\<lambda>(d, m'). (dec d, body m')) (msg_pull (msg_push m (enc x)) width) = Inr (x, body m)"
proof -
  have "fits_size_t (length (body m) + length (enc x))" using assms by (simp add: enc_width)
  from msg_pull_push [OF this] show ?thesis by (simp add: enc_width dec_enc)
qed

lemma pull_last_bytes:
  assumes "fits_size_t (length (body m))" and "body m = bs @ enc x"
  shows "\<exists>m'. msg_pull m width = Inr (enc x, m') \<and> body m' = bs"
proof -
  have "width \<le> length (body m)" using assms(2) by (simp add: enc_width)
  with assms show ?thesis by (simp add: msg_pull_ok Let_def enc_width)
qed

end

text \<open>The two types the programs push: the 32-bit client id, and a \<open>system_clock::time_point\<close>, a
  64-bit tick count.\<close>

interpretation u32_pod: pod_type enc_u32 dec_u32 4
  by unfold_locales simp_all

interpretation time_pod: pod_type enc_u64 dec_u64 8
  by unfold_locales simp_all

section \<open>Properties\<close>

lemma pull_all_append:
  "pull_all m (ks @ ls) =
     (case pull_all m ks of
        Inl e \<Rightarrow> Inl e
      | Inr (ds, m1) \<Rightarrow>
          (case pull_all m1 ls of Inl e \<Rightarrow> Inl e | Inr (es, m2) \<Rightarrow> Inr (ds @ es, m2)))"
  by (induction ks arbitrary: m) (auto split: sum.splits)

text \<open>
  C29: Pulling with \<open>>>\<close> reverses pushing with \<open><<\<close>: after any non-empty sequence of pushes, pulls of the
  same sizes in the opposite order return the pushed values last in, first out, never read out of
  bounds, and leave the message as it was, with its size field brought in step with \<open>size()\<close>.
\<close>

theorem pull_reverses_push:
  assumes "ds \<noteq> []" and "fits_size_t (length (body m) + length (concat ds))"
  shows "pull_all (push_all m ds) (rev (map length ds)) =
    Inr (rev ds, m\<lparr>header := (header m)\<lparr>hdr_size := word_of_nat (msg_size m)\<rparr>\<rparr>)"
proof -
  obtain d es where ds: "ds = d # es" using assms(1) by (cases ds) auto
  have "pull_all (push_all (msg_push m d) es) (rev (map length es)) = Inr (rev es, msg_push m d)"
    by (rule pull_all_push_all) (use assms(2) ds in \<open>simp_all add: add.assoc\<close>)
  moreover have "msg_pull (msg_push m d) (length d) =
    Inr (d, m\<lparr>header := (header m)\<lparr>hdr_size := word_of_nat (msg_size m)\<rparr>\<rparr>)"
    by (rule msg_pull_push) (use assms(2) ds in \<open>simp add: fits_size_t_def\<close>)
  ultimately show ?thesis by (simp add: ds push_all_def pull_all_append)
qed

theorem pull_reverses_push_witness:
  "pull_all (push_all messageBody_init [[1, 2], [3]]) [1, 2] =
    Inr ([[3], [1, 2]], messageBody_init\<lparr>header := (header messageBody_init)\<lparr>hdr_size := 8\<rparr>\<rparr>)"
proof -
  let ?ds = "[[1, 2], [3]] :: bytes list"
  have "pull_all (push_all messageBody_init ?ds) (rev (map length ?ds)) =
    Inr (rev ?ds, messageBody_init\<lparr>header := (header messageBody_init)\<lparr>hdr_size := word_of_nat (msg_size messageBody_init)\<rparr>\<rparr>)"
    by (rule pull_reverses_push) (simp_all add: fits_size_t_def messageBody_init_def)
  moreover have "rev (map length ?ds) = [1, 2]" and "rev ?ds = [[3], [1, 2]]" by simp_all
  moreover have "word_of_nat (msg_size messageBody_init) = (8 :: u32)"
    by (simp add: msg_size_def messageBody_init_def sizeof_messageHeader_def)
  ultimately show ?thesis by (simp only:)
qed

text \<open>
  \<open>>>\<close> goes wrong exactly when the body is shorter than the requested type: the subtraction of the
  sizes wraps around and the copy reads outside the vector. In every other case it succeeds.
\<close>

theorem pull_fails_iff_short:
  assumes "fits_size_t (length (body m))" and "fits_size_t k"
  shows "(msg_pull m k = Inl ReadPastEnd \<longleftrightarrow> length (body m) < k) \<and>
    (k \<le> length (body m) \<longrightarrow> (\<exists>m'. msg_pull m k = Inr (drop (length (body m) - k) (body m), m') \<and>
       body m' = take (length (body m) - k) (body m)))"
proof (cases "length (body m) < k")
  case True
  with msg_pull_short [OF assms(2)] show ?thesis by simp
next
  case False
  with msg_pull_ok [OF assms(1), of k] show ?thesis by (simp add: Let_def)
qed

theorem pull_fails_iff_short_witness: "msg_pull messageBody_init 4 = Inl ReadPastEnd"
  using pull_fails_iff_short [of messageBody_init 4]
  by (simp add: fits_size_t_def messageBody_init_def)

text \<open>
  The header survives the wire: every eight bytes are the representation of one header, and
  reading the bytes that were written for a header gives the header back.
\<close>

theorem header_wire_roundtrip:
  assumes "length bs = sizeof_messageHeader"
  shows "header_bytes (header_of_bytes bs) = bs \<and> header_of_bytes (header_bytes h) = h"
  using header_bytes_of_bytes [OF assms] by simp

theorem header_wire_roundtrip_witness:
  "header_bytes (header_of_bytes [2, 0, 0, 0, 16, 0, 0, 0]) = [2, 0, 0, 0, 16, 0, 0, 0] \<and>
   header_of_bytes (header_bytes messageHeader_init) = messageHeader_init"
  by (rule header_wire_roundtrip) (simp add: sizeof_messageHeader_def)

end
