(* ===== verification/TsQueue.thy ===== *)
theory TsQueue
  imports Prelude
begin

text \<open>
  The thread-safe queue of \<^verbatim>\<open>Common/tsqueue.h\<close>. Every operation runs under \<open>muxQueue\<close>, so it is one
  atomic transformation of the deque; the blocking \<open>wait\<close>, which spans several lock regions, is the
  subject of the theory \<^verbatim>\<open>TsQueue_Wait\<close>.
\<close>

section \<open>State and operations\<close>

record 'a tsqueue =
  deqQueue :: "'a list"

text \<open>\<open>front\<close>, \<open>back\<close>, \<open>pop_front\<close> and \<open>pop_back\<close> of an empty \<open>std::deque\<close> are undefined
  behaviour; they are an error value here.\<close>

definition tsq_init :: "'a tsqueue" where
  "tsq_init = \<lparr>deqQueue = []\<rparr>"

definition tsq_front :: "'a tsqueue \<Rightarrow> fault + 'a" where
  "tsq_front q = (case deqQueue q of [] \<Rightarrow> Inl EmptyDeque | x # _ \<Rightarrow> Inr x)"

definition tsq_back :: "'a tsqueue \<Rightarrow> fault + 'a" where
  "tsq_back q = (if deqQueue q = [] then Inl EmptyDeque else Inr (last (deqQueue q)))"

definition tsq_pop_front :: "'a tsqueue \<Rightarrow> fault + ('a \<times> 'a tsqueue)" where
  "tsq_pop_front q =
     (case deqQueue q of [] \<Rightarrow> Inl EmptyDeque | x # xs \<Rightarrow> Inr (x, q\<lparr>deqQueue := xs\<rparr>))"

definition tsq_pop_back :: "'a tsqueue \<Rightarrow> fault + ('a \<times> 'a tsqueue)" where
  "tsq_pop_back q =
     (if deqQueue q = [] then Inl EmptyDeque
      else Inr (last (deqQueue q), q\<lparr>deqQueue := butlast (deqQueue q)\<rparr>))"

definition tsq_push_back :: "'a tsqueue \<Rightarrow> 'a \<Rightarrow> 'a tsqueue" where
  "tsq_push_back q x = q\<lparr>deqQueue := deqQueue q @ [x]\<rparr>"

definition tsq_push_front :: "'a tsqueue \<Rightarrow> 'a \<Rightarrow> 'a tsqueue" where
  "tsq_push_front q x = q\<lparr>deqQueue := x # deqQueue q\<rparr>"

definition tsq_empty :: "'a tsqueue \<Rightarrow> bool" where
  "tsq_empty q \<longleftrightarrow> deqQueue q = []"

definition tsq_count :: "'a tsqueue \<Rightarrow> nat" where
  "tsq_count q = length (deqQueue q)"

definition tsq_clear :: "'a tsqueue \<Rightarrow> 'a tsqueue" where
  "tsq_clear q = q\<lparr>deqQueue := []\<rparr>"

lemmas [queue_defs] =
  tsq_init_def tsq_front_def tsq_back_def tsq_pop_front_def tsq_pop_back_def tsq_push_back_def
  tsq_push_front_def tsq_empty_def tsq_count_def tsq_clear_def

section \<open>The queue interface\<close>

text \<open>
  What the connections, the server and the client rely on: a sequence of elements with insertion
  at the back and removal at the front, where removal is defined exactly when the queue is not
  empty.
\<close>

locale fifo_queue =
  fixes contents :: "'q \<Rightarrow> 'a list"
    and init_q :: 'q
    and push :: "'q \<Rightarrow> 'a \<Rightarrow> 'q"
    and pop :: "'q \<Rightarrow> 'e + ('a \<times> 'q)"
    and peek :: "'q \<Rightarrow> 'e + 'a"
    and is_empty :: "'q \<Rightarrow> bool"
    and size_q :: "'q \<Rightarrow> nat"
  assumes contents_init: "contents init_q = []"
    and contents_push: "contents (push q x) = contents q @ [x]"
    and pop_some: "contents q = x # xs \<Longrightarrow> \<exists>q'. pop q = Inr (x, q') \<and> contents q' = xs"
    and pop_none: "contents q = [] \<Longrightarrow> \<exists>e. pop q = Inl e"
    and peek_some: "contents q = x # xs \<Longrightarrow> peek q = Inr x"
    and empty_iff: "is_empty q \<longleftrightarrow> contents q = []"
    and size_contents: "size_q q = length (contents q)"
begin

lemma contents_push_all: "contents (foldl push q xs) = contents q @ xs"
  by (induction xs arbitrary: q) (simp_all add: contents_push)

lemma pop_defined_iff: "(\<exists>r. pop q = Inr r) \<longleftrightarrow> \<not> is_empty q"
proof (cases "contents q")
  case Nil
  then show ?thesis using pop_none by (force simp: empty_iff)
next
  case (Cons x xs)
  then show ?thesis using pop_some by (force simp: empty_iff)
qed

lemma pop_Inr_D: "pop q = Inr (x, q') \<Longrightarrow> contents q = x # contents q'"
proof (cases "contents q")
  case Nil
  moreover assume "pop q = Inr (x, q')"
  ultimately show ?thesis using pop_none by force
next
  case (Cons y ys)
  moreover assume "pop q = Inr (x, q')"
  ultimately show ?thesis using pop_some by force
qed

text \<open>Elements leave in the order they came, whatever was queued before.\<close>

primrec pop_n :: "nat \<Rightarrow> 'q \<Rightarrow> 'a list" where
  "pop_n 0 q = []"
| "pop_n (Suc n) q = (case pop q of Inl _ \<Rightarrow> [] | Inr (x, q') \<Rightarrow> x # pop_n n q')"

lemma pop_n_eq_take: "pop_n n q = take n (contents q)"
proof (induction n arbitrary: q)
  case 0
  then show ?case by simp
next
  case (Suc n)
  show ?case
  proof (cases "contents q")
    case Nil
    then show ?thesis using pop_none by fastforce
  next
    case (Cons x xs)
    with pop_some obtain q' where "pop q = Inr (x, q')" and "contents q' = xs" by blast
    with Suc.IH Cons show ?thesis by simp
  qed
qed

lemma fifo_order: "pop_n (length xs) (foldl push init_q xs) = xs"
  by (simp add: pop_n_eq_take contents_push_all contents_init)

end

interpretation tsq: fifo_queue deqQueue tsq_init tsq_push_back tsq_pop_front tsq_front tsq_empty tsq_count
  by unfold_locales (auto simp: queue_defs split: list.splits)

section \<open>Derived facts used by the components\<close>

lemma deqQueue_push_back [simp]: "deqQueue (tsq_push_back q x) = deqQueue q @ [x]"
  by (simp add: queue_defs)

lemma deqQueue_init [simp]: "deqQueue tsq_init = []"
  by (simp add: queue_defs)

lemma tsq_empty_iff [simp]: "tsq_empty q \<longleftrightarrow> deqQueue q = []"
  by (rule tsq.empty_iff)

lemma tsq_pop_front_Cons: "deqQueue q = x # xs \<Longrightarrow> tsq_pop_front q = Inr (x, q\<lparr>deqQueue := xs\<rparr>)"
  by (simp add: queue_defs)

lemma tsq_front_Cons: "deqQueue q = x # xs \<Longrightarrow> tsq_front q = Inr x"
  by (rule tsq.peek_some)

text \<open>The other end mirrors this one.\<close>

definition tsq_rev :: "'a tsqueue \<Rightarrow> 'a tsqueue" where
  "tsq_rev q = q\<lparr>deqQueue := rev (deqQueue q)\<rparr>"

lemma tsq_rev_push_front: "tsq_rev (tsq_push_front q x) = tsq_push_back (tsq_rev q) x"
  by (simp add: tsq_rev_def queue_defs)

lemma tsq_pop_back_mirror:
  "tsq_pop_back q = map_sum id (\<lambda>(x, q'). (x, tsq_rev q')) (tsq_pop_front (tsq_rev q))"
  by (cases "deqQueue q" rule: rev_cases) (simp_all add: tsq_rev_def queue_defs)

lemma tsq_back_mirror: "tsq_back q = tsq_front (tsq_rev q)"
  by (cases "deqQueue q" rule: rev_cases) (simp_all add: tsq_rev_def queue_defs)

section \<open>Properties\<close>

datatype 'a queue_op = Push 'a | Pop

fun run_queue :: "'a queue_op list \<Rightarrow> 'a tsqueue \<Rightarrow> fault + ('a list \<times> 'a tsqueue)" where
  "run_queue [] q = Inr ([], q)"
| "run_queue (Push x # ops) q = run_queue ops (tsq_push_back q x)"
| "run_queue (Pop # ops) q =
     bind_res (tsq_pop_front q) (\<lambda>(x, q1). bind_res (run_queue ops q1) (\<lambda>(xs, q2). Inr (x # xs, q2)))"

definition pushed :: "'a queue_op list \<Rightarrow> 'a list" where
  "pushed ops = concat (map (\<lambda>c. case c of Push x \<Rightarrow> [x] | Pop \<Rightarrow> []) ops)"

fun pops_covered :: "nat \<Rightarrow> 'a queue_op list \<Rightarrow> bool" where
  "pops_covered n [] \<longleftrightarrow> True"
| "pops_covered n (Push x # ops) \<longleftrightarrow> pops_covered (Suc n) ops"
| "pops_covered n (Pop # ops) \<longleftrightarrow> n > 0 \<and> pops_covered (n - 1) ops"

lemma pushed_simps [simp]:
  "pushed [] = []" "pushed (Push x # ops) = x # pushed ops" "pushed (Pop # ops) = pushed ops"
  by (simp_all add: pushed_def)

lemma run_queue_order:
  "run_queue ops q = Inr (xs, q') \<Longrightarrow> xs @ deqQueue q' = deqQueue q @ pushed ops"
proof (induction ops q arbitrary: xs q' rule: run_queue.induct)
  case (3 ops q)
  then obtain x q1 ys where pop: "tsq_pop_front q = Inr (x, q1)"
    and rest: "run_queue ops q1 = Inr (ys, q')" "xs = x # ys"
    by (auto simp: bind_res_Inr_iff)
  from 3(1) [OF pop refl rest(1)] tsq.pop_Inr_D [OF pop] rest(2) show ?case by simp
qed auto

lemma run_queue_covered:
  "(\<exists>r. run_queue ops q = Inr r) \<longleftrightarrow> pops_covered (length (deqQueue q)) ops"
proof (induction ops arbitrary: q)
  case Nil
  then show ?case by simp
next
  case (Cons c ops)
  show ?case
  proof (cases c)
    case (Push x)
    with Cons.IH show ?thesis by simp
  next
    case Pop
    show ?thesis
    proof (cases "deqQueue q")
      case Nil
      with Pop show ?thesis by (simp add: queue_defs)
    next
      case (Cons x xs)
      have "(\<exists>r. run_queue ops (q\<lparr>deqQueue := xs\<rparr>) = Inr r) \<longleftrightarrow> pops_covered (length xs) ops"
        using Cons.IH [of "q\<lparr>deqQueue := xs\<rparr>"] by simp
      with Pop Cons tsq_pop_front_Cons [OF Cons] show ?thesis
        by (cases "run_queue ops (q\<lparr>deqQueue := xs\<rparr>)") auto
    qed
  qed
qed

text \<open>
  C30: The thread-safe queue is first in, first out: whatever sequence of \<open>push_back\<close> and \<open>pop_front\<close>
  calls runs, the elements taken out followed by those left are the elements put in, in order; and
  the sequence is free of undefined behaviour exactly when no pop meets an empty queue.
\<close>

theorem queue_fifo:
  "(case run_queue ops tsq_init of
      Inr (xs, q) \<Rightarrow> xs @ deqQueue q = pushed ops \<and> tsq_count q = length (deqQueue q)
    | Inl e \<Rightarrow> \<not> pops_covered 0 ops) \<and>
   ((\<exists>r. run_queue ops tsq_init = Inr r) \<longleftrightarrow> pops_covered 0 ops)"
  using run_queue_order [of ops tsq_init] run_queue_covered [of ops tsq_init]
  by (auto simp: tsq.size_contents split: sum.split)

end
