(* ===== verification/TsQueue_Wait.thy ===== *)
theory TsQueue_Wait
  imports TsQueue "HOL-Library.Multiset"
begin

text \<open>
  Interleavings of \<open>tsqueue::wait\<close> with concurrent \<open>push_back\<close> and \<open>push_front\<close> calls, at the
  granularity of lock operations (\<^verbatim>\<open>Common/tsqueue.h\<close>). One consumer runs \<open>wait\<close>, any number of
  producers run one push each. A step is one lock, unlock, queue access or condition-variable
  action of one thread. Nobody removes elements while the consumer waits: it is the only thread
  that pops.
\<close>

section \<open>Program counters and state\<close>

datatype 'a push_op = PushBack 'a | PushFront 'a

primrec push_item :: "'a push_op \<Rightarrow> 'a" where
  "push_item (PushBack x) = x"
| "push_item (PushFront x) = x"

primrec emplace :: "'a push_op \<Rightarrow> 'a tsqueue \<Rightarrow> 'a tsqueue" where
  "emplace (PushBack x) q = tsq_push_back q x"
| "emplace (PushFront x) q = tsq_push_front q x"

text \<open>A producer: before \<open>scoped_lock lock(muxQueue)\<close>, after it, after the \<open>emplace\<close>, after
  \<open>unique_lock ul(muxBlocking)\<close>, after \<open>notify_one\<close>, after \<open>ul\<close> is released, and finished.\<close>

datatype 'a producer_pc =
  P_start "'a push_op" | P_locked "'a push_op" | P_pushed | P_both | P_notified | P_unblocked | P_done

text \<open>The consumer in \<open>while (empty()) { unique_lock ul(muxBlocking); cvBlocking.wait(ul); }\<close>: before
  the call of \<open>empty\<close>, inside it with \<open>muxQueue\<close> held, inside it with the result computed, in the
  loop body, with \<open>muxBlocking\<close> held, asleep on the condition variable, woken but without the
  mutex, woken with the mutex, and returned.\<close>

datatype consumer_pc =
  C_check | C_locked | C_saw bool | C_body | C_holds | C_asleep | C_woken | C_relocked | C_done

datatype thread = Consumer | Producer nat

record 'a wait_state =
  ws_queue :: "'a tsqueue"
  muxQueue :: "thread option"
  muxBlocking :: "thread option"
  producer :: "nat \<Rightarrow> 'a producer_pc"
  consumer :: consumer_pc

definition wait_init :: "'a tsqueue \<Rightarrow> 'a push_op list \<Rightarrow> 'a wait_state" where
  "wait_init q ops =
     \<lparr>ws_queue = q, muxQueue = None, muxBlocking = None,
      producer = (\<lambda>p. if p < length ops then P_start (ops ! p) else P_done),
      consumer = C_check\<rparr>"

section \<open>Steps\<close>

text \<open>\<open>notify_one\<close> wakes the consumer if it is asleep on the condition variable and is lost
  otherwise.\<close>

definition notify_one :: "consumer_pc \<Rightarrow> consumer_pc" where
  "notify_one c = (if c = C_asleep then C_woken else c)"

inductive push_step :: "nat \<Rightarrow> 'a wait_state \<Rightarrow> 'a wait_state \<Rightarrow> bool" for p where
  push_lock: "producer s p = P_start x \<Longrightarrow> muxQueue s = None \<Longrightarrow>
     push_step p s (s\<lparr>producer := (producer s)(p := P_locked x), muxQueue := Some (Producer p)\<rparr>)"
| push_emplace: "producer s p = P_locked x \<Longrightarrow>
     push_step p s (s\<lparr>producer := (producer s)(p := P_pushed), ws_queue := emplace x (ws_queue s)\<rparr>)"
| push_lock_blocking: "producer s p = P_pushed \<Longrightarrow> muxBlocking s = None \<Longrightarrow>
     push_step p s (s\<lparr>producer := (producer s)(p := P_both), muxBlocking := Some (Producer p)\<rparr>)"
| push_notify: "producer s p = P_both \<Longrightarrow>
     push_step p s (s\<lparr>producer := (producer s)(p := P_notified), consumer := notify_one (consumer s)\<rparr>)"
| push_unlock_blocking: "producer s p = P_notified \<Longrightarrow>
     push_step p s (s\<lparr>producer := (producer s)(p := P_unblocked), muxBlocking := None\<rparr>)"
| push_unlock: "producer s p = P_unblocked \<Longrightarrow>
     push_step p s (s\<lparr>producer := (producer s)(p := P_done), muxQueue := None\<rparr>)"

inductive wait_step :: "'a wait_state \<Rightarrow> 'a wait_state \<Rightarrow> bool" where
  wait_lock: "consumer s = C_check \<Longrightarrow> muxQueue s = None \<Longrightarrow>
     wait_step s (s\<lparr>consumer := C_locked, muxQueue := Some Consumer\<rparr>)"
| wait_read: "consumer s = C_locked \<Longrightarrow>
     wait_step s (s\<lparr>consumer := C_saw (tsq_empty (ws_queue s))\<rparr>)"
| wait_unlock: "consumer s = C_saw b \<Longrightarrow>
     wait_step s (s\<lparr>consumer := (if b then C_body else C_done), muxQueue := None\<rparr>)"
| wait_lock_blocking: "consumer s = C_body \<Longrightarrow> muxBlocking s = None \<Longrightarrow>
     wait_step s (s\<lparr>consumer := C_holds, muxBlocking := Some Consumer\<rparr>)"
| wait_sleep: "consumer s = C_holds \<Longrightarrow>
     wait_step s (s\<lparr>consumer := C_asleep, muxBlocking := None\<rparr>)"
| wait_relock: "consumer s = C_woken \<Longrightarrow> muxBlocking s = None \<Longrightarrow>
     wait_step s (s\<lparr>consumer := C_relocked, muxBlocking := Some Consumer\<rparr>)"
| wait_unlock_blocking: "consumer s = C_relocked \<Longrightarrow>
     wait_step s (s\<lparr>consumer := C_check, muxBlocking := None\<rparr>)"

text \<open>The program's own steps, and with the wake-ups that the standard allows a condition variable to
  deliver without a notification.\<close>

inductive prog_step :: "'a wait_state \<Rightarrow> 'a wait_state \<Rightarrow> bool" where
  by_producer: "push_step p s t \<Longrightarrow> prog_step s t"
| by_consumer: "wait_step s t \<Longrightarrow> prog_step s t"

inductive any_step :: "'a wait_state \<Rightarrow> 'a wait_state \<Rightarrow> bool" where
  program: "prog_step s t \<Longrightarrow> any_step s t"
| spurious: "consumer s = C_asleep \<Longrightarrow> any_step s (s\<lparr>consumer := C_woken\<rparr>)"

inductive wait_reachable :: "'a tsqueue \<Rightarrow> 'a push_op list \<Rightarrow> 'a wait_state \<Rightarrow> bool" for q ops where
  start: "wait_reachable q ops (wait_init q ops)"
| step: "wait_reachable q ops s \<Longrightarrow> any_step s t \<Longrightarrow> wait_reachable q ops t"

inductive_cases prog_stepE: "prog_step s t"
inductive_cases any_stepE: "any_step s t"

section \<open>Invariant\<close>

definition holds_queue :: "'a producer_pc \<Rightarrow> bool" where
  "holds_queue c \<longleftrightarrow> (case c of P_start _ \<Rightarrow> False | P_done \<Rightarrow> False | _ \<Rightarrow> True)"

definition holds_blocking :: "'a producer_pc \<Rightarrow> bool" where
  "holds_blocking c \<longleftrightarrow> c = P_both \<or> c = P_notified"

lemma holds_queue_simps [simp]:
  "\<not> holds_queue (P_start x)" "holds_queue (P_locked x)" "holds_queue P_pushed" "holds_queue P_both"
  "holds_queue P_notified" "holds_queue P_unblocked" "\<not> holds_queue P_done"
  by (simp_all add: holds_queue_def)

lemma holds_blocking_simps [simp]:
  "\<not> holds_blocking (P_start x)" "\<not> holds_blocking (P_locked x)" "\<not> holds_blocking P_pushed"
  "holds_blocking P_both" "holds_blocking P_notified" "\<not> holds_blocking P_unblocked"
  "\<not> holds_blocking P_done"
  by (simp_all add: holds_blocking_def)

definition locks_agree :: "'a wait_state \<Rightarrow> bool" where
  "locks_agree s \<longleftrightarrow>
     (\<forall>p. holds_queue (producer s p) \<longleftrightarrow> muxQueue s = Some (Producer p)) \<and>
     (\<forall>p. holds_blocking (producer s p) \<longleftrightarrow> muxBlocking s = Some (Producer p)) \<and>
     (muxQueue s = Some Consumer \<longleftrightarrow> consumer s = C_locked \<or> (\<exists>b. consumer s = C_saw b)) \<and>
     (muxBlocking s = Some Consumer \<longleftrightarrow> consumer s = C_holds \<or> consumer s = C_relocked)"

definition saw_truth :: "'a wait_state \<Rightarrow> bool" where
  "saw_truth s \<longleftrightarrow>
     (consumer s = C_saw False \<or> consumer s = C_done \<longrightarrow> \<not> tsq_empty (ws_queue s))"

lemma locks_agree_init: "locks_agree (wait_init q ops)"
  by (auto simp: locks_agree_def wait_init_def holds_queue_def holds_blocking_def)

lemma locks_agreeD:
  assumes "locks_agree s"
  shows "holds_queue (producer s p) \<longleftrightarrow> muxQueue s = Some (Producer p)"
    and "holds_blocking (producer s p) \<longleftrightarrow> muxBlocking s = Some (Producer p)"
  using assms by (simp_all add: locks_agree_def)

lemma push_step_locks:
  assumes "push_step p s t" and inv: "locks_agree s"
  shows "locks_agree t"
  using assms(1)
  by (cases rule: push_step.cases; insert inv locks_agreeD [OF inv, of p])
    (auto simp: locks_agree_def notify_one_def)

lemma wait_step_locks: "wait_step s t \<Longrightarrow> locks_agree s \<Longrightarrow> locks_agree t"
  by (induction rule: wait_step.induct) (auto simp: locks_agree_def)

lemma any_step_locks: "any_step s t \<Longrightarrow> locks_agree s \<Longrightarrow> locks_agree t"
  by (erule any_stepE)
    (auto elim!: prog_stepE dest: push_step_locks wait_step_locks simp: locks_agree_def)

lemma emplace_nonempty [simp]: "deqQueue (emplace x q) \<noteq> []"
  by (cases x) (simp_all add: queue_defs)

lemma push_step_saw: "push_step p s t \<Longrightarrow> saw_truth s \<Longrightarrow> saw_truth t"
  by (induction rule: push_step.induct) (auto simp: saw_truth_def notify_one_def)

lemma wait_step_saw: "wait_step s t \<Longrightarrow> saw_truth s \<Longrightarrow> saw_truth t"
  by (induction rule: wait_step.induct) (auto simp: saw_truth_def)

lemma any_step_saw: "any_step s t \<Longrightarrow> saw_truth s \<Longrightarrow> saw_truth t"
  by (erule any_stepE) (auto elim!: prog_stepE dest: push_step_saw wait_step_saw simp: saw_truth_def)

lemma reachable_locks: "wait_reachable q ops s \<Longrightarrow> locks_agree s"
  by (induction rule: wait_reachable.induct) (auto intro: locks_agree_init any_step_locks)

lemma reachable_saw: "wait_reachable q ops s \<Longrightarrow> saw_truth s"
proof (induction rule: wait_reachable.induct)
  case start
  then show ?case by (simp add: saw_truth_def wait_init_def)
next
  case (step s t)
  then show ?case by (blast intro: any_step_saw)
qed

section \<open>Progress of the mutexes\<close>

text \<open>A producer that has not finished can move, or the thread it waits for can.\<close>

lemma push_unblocked:
  "holds_queue (producer s p) \<Longrightarrow> producer s p \<noteq> P_pushed \<Longrightarrow> \<exists>t. push_step p s t"
  by (cases "producer s p") (auto intro: push_step.intros)

lemma consumer_unblocked:
  "consumer s = C_locked \<or> (\<exists>b. consumer s = C_saw b) \<Longrightarrow> \<exists>t. prog_step s t"
  by (blast intro: by_consumer wait_step.intros)

lemma holder_can_move:
  assumes "locks_agree s" and "muxQueue s = Some (Producer p)"
  shows "\<exists>t. prog_step s t"
proof (cases "producer s p = P_pushed")
  case False
  from assms have "holds_queue (producer s p)" by (simp add: locks_agree_def)
  with False show ?thesis by (blast dest: push_unblocked intro: by_producer)
next
  case True
  show ?thesis
  proof (cases "muxBlocking s")
    case None
    with True show ?thesis by (blast intro: by_producer push_step.intros)
  next
    case (Some th)
    show ?thesis
    proof (cases th)
      case Consumer
      with Some assms(1) have "consumer s = C_holds \<or> consumer s = C_relocked"
        by (simp add: locks_agree_def)
      then show ?thesis by (blast intro: by_consumer wait_step.intros)
    next
      case (Producer p')
      with Some assms(1) have "holds_blocking (producer s p')" by (simp add: locks_agree_def)
      then have "producer s p' = P_both \<or> producer s p' = P_notified"
        by (simp add: holds_blocking_def)
      then show ?thesis by (blast intro: by_producer push_step.intros)
    qed
  qed
qed

lemma unfinished_can_move:
  assumes "locks_agree s" and "producer s p \<noteq> P_done"
  shows "\<exists>t. prog_step s t"
proof (cases "muxQueue s")
  case None
  with assms have "\<not> holds_queue (producer s p)" by (simp add: locks_agree_def)
  with assms(2) obtain x where "producer s p = P_start x"
    by (cases "producer s p") auto
  with None show ?thesis by (blast intro: by_producer push_step.intros)
next
  case (Some th)
  show ?thesis
  proof (cases th)
    case Consumer
    with Some assms(1) have "consumer s = C_locked \<or> (\<exists>b. consumer s = C_saw b)"
      by (simp add: locks_agree_def)
    then show ?thesis by (rule consumer_unblocked)
  next
    case (Producer p')
    with Some assms(1) show ?thesis by (blast intro: holder_can_move)
  qed
qed

section \<open>No element is lost or duplicated\<close>

definition unpushed :: "'a producer_pc \<Rightarrow> 'a multiset" where
  "unpushed c = (case c of P_start x \<Rightarrow> {#push_item x#} | P_locked x \<Rightarrow> {#push_item x#} | _ \<Rightarrow> {#})"

definition in_flight :: "nat \<Rightarrow> 'a wait_state \<Rightarrow> 'a multiset" where
  "in_flight n s = (\<Sum>p<n. unpushed (producer s p))"

lemma unpushed_simps [simp]:
  "unpushed (P_start x) = {#push_item x#}" "unpushed (P_locked x) = {#push_item x#}"
  "unpushed P_pushed = {#}" "unpushed P_both = {#}" "unpushed P_notified = {#}"
  "unpushed P_unblocked = {#}" "unpushed P_done = {#}"
  by (simp_all add: unpushed_def)

lemma in_flight_upd:
  assumes "producer t = (producer s)(p := c)" and "p < n"
  shows "in_flight n t + unpushed (producer s p) = in_flight n s + unpushed c"
proof -
  have fin: "finite {..<n}" and p: "p \<in> {..<n}" using assms by simp_all
  have "(\<Sum>i\<in>{..<n} - {p}. unpushed (producer t i)) =
    (\<Sum>i\<in>{..<n} - {p}. unpushed (producer s i))"
    by (rule sum.cong) (simp_all add: assms(1))
  with sum.remove [OF fin p, of "\<lambda>i. unpushed (producer t i)"]
    sum.remove [OF fin p, of "\<lambda>i. unpushed (producer s i)"]
  show ?thesis by (simp add: in_flight_def assms(1) ac_simps)
qed

lemma mset_emplace: "mset (deqQueue (emplace x q)) = mset (deqQueue q) + {#push_item x#}"
  by (cases x) (simp_all add: queue_defs)

definition total :: "nat \<Rightarrow> 'a wait_state \<Rightarrow> 'a multiset" where
  "total n s = mset (deqQueue (ws_queue s)) + in_flight n s"

lemma push_step_producer: "push_step p s t \<Longrightarrow> producer t = (producer s)(p := producer t p)"
  by (induction rule: push_step.induct) auto

lemma total_push_step:
  assumes "push_step p s t" and "p < n"
  shows "total n t = total n s"
proof -
  have "in_flight n t + unpushed (producer s p) = in_flight n s + unpushed (producer t p)"
    by (rule in_flight_upd [OF push_step_producer [OF assms(1)] assms(2)])
  with assms(1) show ?thesis
    by (cases rule: push_step.cases) (simp_all add: total_def mset_emplace)
qed

lemma total_wait_step: "wait_step s t \<Longrightarrow> total n t = total n s"
  by (induction rule: wait_step.induct) (simp_all add: total_def in_flight_def)

definition idle_above :: "nat \<Rightarrow> 'a wait_state \<Rightarrow> bool" where
  "idle_above n s \<longleftrightarrow> (\<forall>p\<ge>n. producer s p = P_done)"

lemma push_step_index: "push_step p s t \<Longrightarrow> idle_above n s \<Longrightarrow> p < n"
  by (erule push_step.cases; rule ccontr) (auto simp: idle_above_def)

lemma push_step_idle: "push_step p s t \<Longrightarrow> idle_above n s \<Longrightarrow> idle_above n t"
  by (frule (1) push_step_index, erule push_step.cases) (auto simp: idle_above_def)

lemma wait_step_idle: "wait_step s t \<Longrightarrow> idle_above n s \<Longrightarrow> idle_above n t"
  by (induction rule: wait_step.induct) (auto simp: idle_above_def)

lemma in_flight_init: "in_flight (length ops) (wait_init q ops) = mset (map push_item ops)"
proof -
  have "in_flight (length ops) (wait_init q ops) = (\<Sum>p<length ops. {#push_item (ops ! p)#})"
    by (auto simp: in_flight_def wait_init_def unpushed_def intro: sum.cong)
  also have "\<dots> = mset (map push_item ops)"
    by (induction ops rule: rev_induct) (simp_all add: nth_append)
  finally show ?thesis .
qed

lemma any_step_total:
  assumes "any_step s t" and "idle_above n s"
  shows "total n t = total n s \<and> idle_above n t"
  using assms(1)
proof (cases rule: any_step.cases)
  case program
  then show ?thesis
  proof (cases rule: prog_step.cases)
    case (by_producer p)
    with assms(2) show ?thesis
      using push_step_index push_step_idle total_push_step by blast
  next
    case by_consumer
    with assms(2) show ?thesis using wait_step_idle total_wait_step by blast
  qed
next
  case spurious
  with assms(2) show ?thesis by (simp add: total_def idle_above_def in_flight_def)
qed

lemma reachable_total:
  "wait_reachable q ops s \<Longrightarrow>
     total (length ops) s = mset (deqQueue q) + mset (map push_item ops) \<and> idle_above (length ops) s"
proof (induction rule: wait_reachable.induct)
  case start
  show ?case by (simp add: total_def in_flight_init) (simp add: wait_init_def idle_above_def)
next
  case (step s t)
  then show ?case using any_step_total by metis
qed

lemma in_flight_done: "\<forall>p. producer s p = P_done \<Longrightarrow> in_flight n s = {#}"
  by (simp add: in_flight_def unpushed_def)

section \<open>Properties\<close>

text \<open>
  \<open>wait\<close> returns only when the queue is not empty, under every interleaving with concurrent
  pushes and with spurious wake-ups, so that the \<open>pop_front\<close> that follows it is safe.
\<close>

theorem wait_returns_nonempty:
  assumes "wait_reachable q ops s" and "consumer s = C_done"
  shows "\<exists>x q'. tsq_pop_front (ws_queue s) = Inr (x, q')"
proof -
  have "deqQueue (ws_queue s) \<noteq> []"
    using reachable_saw [OF assms(1)] assms(2) by (simp add: saw_truth_def)
  then obtain x xs where "deqQueue (ws_queue s) = x # xs" by (cases "deqQueue (ws_queue s)") auto
  with tsq_pop_front_Cons show ?thesis by fastforce
qed

lemma wait_immediate:
  assumes "deqQueue q = x # xs"
  shows "wait_reachable q [] ((wait_init q [])\<lparr>consumer := C_done\<rparr>)"
proof -
  let ?s = "wait_init q []"
  let ?s1 = "?s\<lparr>consumer := C_locked, muxQueue := Some Consumer\<rparr>"
  let ?s2 = "?s1\<lparr>consumer := C_saw (tsq_empty (ws_queue ?s1))\<rparr>"
  let ?s3 = "?s2\<lparr>consumer := (if False then C_body else C_done), muxQueue := None\<rparr>"
  have "any_step ?s ?s1" by (intro program by_consumer wait_lock) (simp_all add: wait_init_def)
  moreover have "any_step ?s1 ?s2" by (intro program by_consumer wait_read) simp
  moreover have "any_step ?s2 ?s3"
    by (intro program by_consumer wait_unlock) (use assms in \<open>simp add: wait_init_def\<close>)
  ultimately have "wait_reachable q [] ?s3" by (meson wait_reachable.start wait_reachable.step)
  then show ?thesis by (simp add: wait_init_def)
qed

theorem wait_returns_nonempty_witness:
  "\<exists>x q'. tsq_pop_front (ws_queue ((wait_init \<lparr>deqQueue = [7 :: nat]\<rparr> [])\<lparr>consumer := C_done\<rparr>)) = Inr (x, q')"
  by (rule wait_returns_nonempty [OF wait_immediate [of "\<lparr>deqQueue = [7]\<rparr>" 7 "[]"]]) simp_all

lemma asleep_stuck:
  assumes "producer s = (\<lambda>p. P_done)" and "consumer s = C_asleep"
  shows "\<not> prog_step s t"
proof
  assume "prog_step s t"
  then show False
  proof (cases rule: prog_step.cases)
    case (by_producer p)
    then show ?thesis by (cases rule: push_step.cases) (simp_all add: assms(1))
  next
    case by_consumer
    then show ?thesis by (cases rule: wait_step.cases) (simp_all add: assms(2))
  qed
qed

text \<open>
  C31: The wake-up can be lost: \<open>wait\<close> tests \<open>empty()\<close> and locks \<open>muxBlocking\<close> in two steps, and a
  complete \<open>push_back\<close> fits between them. The consumer then sleeps on a queue that holds an element,
  every push has returned, and no step of the program is left that could wake it.
\<close>

theorem wakeup_can_be_lost:
  "\<exists>s. wait_reachable tsq_init [PushBack x] s \<and> consumer s = C_asleep \<and> deqQueue (ws_queue s) = [x] \<and>
     producer s = (\<lambda>p. P_done) \<and> (\<nexists>t. prog_step s t)"
proof -
  let ?s0 = "wait_init tsq_init [PushBack x]"
  let ?s1 = "?s0\<lparr>consumer := C_locked, muxQueue := Some Consumer\<rparr>"
  let ?s2 = "?s1\<lparr>consumer := C_saw (tsq_empty (ws_queue ?s1))\<rparr>"
  let ?s3 = "?s2\<lparr>consumer := (if True then C_body else C_done), muxQueue := None\<rparr>"
  let ?p1 = "?s3\<lparr>producer := (producer ?s3)(0 := P_locked (PushBack x)), muxQueue := Some (Producer 0)\<rparr>"
  let ?p2 = "?p1\<lparr>producer := (producer ?p1)(0 := P_pushed), ws_queue := emplace (PushBack x) (ws_queue ?p1)\<rparr>"
  let ?p3 = "?p2\<lparr>producer := (producer ?p2)(0 := P_both), muxBlocking := Some (Producer 0)\<rparr>"
  let ?p4 = "?p3\<lparr>producer := (producer ?p3)(0 := P_notified), consumer := notify_one (consumer ?p3)\<rparr>"
  let ?p5 = "?p4\<lparr>producer := (producer ?p4)(0 := P_unblocked), muxBlocking := None\<rparr>"
  let ?p6 = "?p5\<lparr>producer := (producer ?p5)(0 := P_done), muxQueue := None\<rparr>"
  let ?c1 = "?p6\<lparr>consumer := C_holds, muxBlocking := Some Consumer\<rparr>"
  let ?c2 = "?c1\<lparr>consumer := C_asleep, muxBlocking := None\<rparr>"
  have "any_step ?s0 ?s1" by (intro program by_consumer wait_lock) (simp_all add: wait_init_def)
  moreover have "any_step ?s1 ?s2" by (intro program by_consumer wait_read) simp
  moreover have "any_step ?s2 ?s3" by (intro program by_consumer wait_unlock) (simp add: wait_init_def)
  ultimately have s3: "wait_reachable tsq_init [PushBack x] ?s3"
    by (meson wait_reachable.start wait_reachable.step)
  have "any_step ?s3 ?p1" by (intro program by_producer [where p = 0] push_lock) (simp_all add: wait_init_def)
  moreover have "any_step ?p1 ?p2" by (intro program by_producer [where p = 0] push_emplace) simp
  moreover have "any_step ?p2 ?p3" by (intro program by_producer [where p = 0] push_lock_blocking) (simp_all add: wait_init_def)
  moreover have "any_step ?p3 ?p4" by (intro program by_producer [where p = 0] push_notify) simp
  moreover have "any_step ?p4 ?p5" by (intro program by_producer [where p = 0] push_unlock_blocking) simp
  moreover have "any_step ?p5 ?p6" by (intro program by_producer [where p = 0] push_unlock) simp
  ultimately have "wait_reachable tsq_init [PushBack x] ?p6"
    using s3 by (meson wait_reachable.step)
  moreover have "any_step ?p6 ?c1"
    by (intro program by_consumer wait_lock_blocking) (simp_all add: notify_one_def)
  moreover have "any_step ?c1 ?c2" by (intro program by_consumer wait_sleep) simp
  ultimately have reach: "wait_reachable tsq_init [PushBack x] ?c2" by (meson wait_reachable.step)
  have prod: "producer ?c2 = (\<lambda>p. P_done)" by (auto simp: wait_init_def)
  have "consumer ?c2 = C_asleep" by simp
  from asleep_stuck [OF prod this] have "\<nexists>t. prog_step ?c2 t" by blast
  with reach prod show ?thesis by (intro exI [of _ ?c2]) (simp add: wait_init_def queue_defs)
qed

text \<open>
  The two mutexes cannot deadlock: in every reachable state in which some push has not returned,
  a step of the program is possible, although pushes take \<open>muxBlocking\<close> while they hold \<open>muxQueue\<close>.
\<close>

theorem pushes_never_deadlock:
  assumes "wait_reachable q ops s" and "producer s p \<noteq> P_done"
  shows "\<exists>t. prog_step s t"
  by (rule unfinished_can_move [OF reachable_locks [OF assms(1)] assms(2)])

theorem pushes_never_deadlock_witness: "\<exists>t. prog_step (wait_init tsq_init [PushBack (1 :: nat)]) t"
  by (rule pushes_never_deadlock [OF wait_reachable.start, of _ _ 0]) (simp add: wait_init_def)

text \<open>
  No element is lost or duplicated by concurrent pushes: when all of them have returned, the queue
  holds what it held before together with exactly the pushed elements.
\<close>

theorem pushes_all_arrive:
  assumes "wait_reachable q ops s" and "\<forall>p. producer s p = P_done"
  shows "mset (deqQueue (ws_queue s)) = mset (deqQueue q) + mset (map push_item ops)"
  using reachable_total [OF assms(1)] in_flight_done [OF assms(2), of "length ops"]
  by (simp add: total_def)

theorem pushes_all_arrive_witness:
  "mset (deqQueue (ws_queue (wait_init \<lparr>deqQueue = [7 :: nat]\<rparr> []))) = {#7#}"
  using pushes_all_arrive [OF wait_reachable.start, of "\<lparr>deqQueue = [7 :: nat]\<rparr>" "[]"]
  by (simp add: wait_init_def)

end
