(* ===== verification/Asio_Error.thy ===== *)
theory Asio_Error
  imports Prelude
begin

text \<open>
  Error codes of the bundled asio library (\<^verbatim>\<open>asio/error.hpp\<close>) with the values they have on
  Windows, the platform of the Visual Studio projects.
\<close>

section \<open>Enumerations\<close>

datatype basic_errors =
    access_denied | address_family_not_supported | address_in_use | already_connected
  | already_started | broken_pipe | connection_aborted | connection_refused | connection_reset
  | bad_descriptor | fault | host_unreachable | in_progress | interrupted | invalid_argument
  | message_size | name_too_long | network_down | network_reset | network_unreachable
  | no_descriptors | no_buffer_space | no_memory | no_permission | no_protocol_option
  | no_such_device | not_connected | not_socket | operation_aborted | operation_not_supported
  | shut_down | timed_out | try_again | would_block

datatype netdb_errors = host_not_found | host_not_found_try_again | no_data | no_recovery

datatype addrinfo_errors = service_not_found | socket_type_not_supported

datatype misc_errors = already_open | eof | not_found | fd_set_failure

text \<open>The Winsock and Win32 constants behind \<open>ASIO_SOCKET_ERROR\<close> and \<open>ASIO_NATIVE_ERROR\<close>.\<close>

fun basic_error_value :: "basic_errors \<Rightarrow> int" where
  "basic_error_value access_denied = 10013"
| "basic_error_value address_family_not_supported = 10047"
| "basic_error_value address_in_use = 10048"
| "basic_error_value already_connected = 10056"
| "basic_error_value already_started = 10037"
| "basic_error_value broken_pipe = 109"
| "basic_error_value connection_aborted = 10053"
| "basic_error_value connection_refused = 10061"
| "basic_error_value connection_reset = 10054"
| "basic_error_value bad_descriptor = 10009"
| "basic_error_value fault = 10014"
| "basic_error_value host_unreachable = 10065"
| "basic_error_value in_progress = 10036"
| "basic_error_value interrupted = 10004"
| "basic_error_value invalid_argument = 10022"
| "basic_error_value message_size = 10040"
| "basic_error_value name_too_long = 10063"
| "basic_error_value network_down = 10050"
| "basic_error_value network_reset = 10052"
| "basic_error_value network_unreachable = 10051"
| "basic_error_value no_descriptors = 10024"
| "basic_error_value no_buffer_space = 10055"
| "basic_error_value no_memory = 14"
| "basic_error_value no_permission = 20"
| "basic_error_value no_protocol_option = 10042"
| "basic_error_value no_such_device = 20"
| "basic_error_value not_connected = 10057"
| "basic_error_value not_socket = 10038"
| "basic_error_value operation_aborted = 995"
| "basic_error_value operation_not_supported = 10045"
| "basic_error_value shut_down = 10058"
| "basic_error_value timed_out = 10060"
| "basic_error_value try_again = 1237"
| "basic_error_value would_block = 10035"

fun netdb_error_value :: "netdb_errors \<Rightarrow> int" where
  "netdb_error_value host_not_found = 11001"
| "netdb_error_value host_not_found_try_again = 11002"
| "netdb_error_value no_data = 11004"
| "netdb_error_value no_recovery = 11003"

fun addrinfo_error_value :: "addrinfo_errors \<Rightarrow> int" where
  "addrinfo_error_value service_not_found = 10109"
| "addrinfo_error_value socket_type_not_supported = 10044"

fun misc_error_value :: "misc_errors \<Rightarrow> int" where
  "misc_error_value already_open = 1"
| "misc_error_value eof = 2"
| "misc_error_value not_found = 3"
| "misc_error_value fd_set_failure = 4"

section \<open>Error codes\<close>

text \<open>On Windows the netdb and addrinfo categories are the system category.\<close>

datatype error_category = system_category | misc_category

record error_code =
  ec_value :: int
  ec_category :: error_category

definition no_error :: error_code where
  "no_error = \<lparr>ec_value = 0, ec_category = system_category\<rparr>"

definition failed :: "error_code \<Rightarrow> bool" where
  "failed ec \<longleftrightarrow> ec_value ec \<noteq> 0"

definition clear_ec :: "error_code \<Rightarrow> error_code" where
  "clear_ec ec = ec\<lparr>ec_value := 0\<rparr>"

definition make_basic :: "basic_errors \<Rightarrow> error_code" where
  "make_basic e = \<lparr>ec_value = basic_error_value e, ec_category = system_category\<rparr>"

definition make_misc :: "misc_errors \<Rightarrow> error_code" where
  "make_misc e = \<lparr>ec_value = misc_error_value e, ec_category = misc_category\<rparr>"

definition system_ec :: "int \<Rightarrow> error_code" where
  "system_ec v = \<lparr>ec_value = v, ec_category = system_category\<rparr>"

lemma not_failed_no_error [simp]: "\<not> failed no_error"
  by (simp add: failed_def no_error_def)

lemma not_failed_clear [simp]: "\<not> failed (clear_ec ec)"
  by (simp add: failed_def clear_ec_def)

lemma failed_make_basic [simp]: "failed (make_basic e)"
  by (cases e) (simp_all add: failed_def make_basic_def)

lemma failed_make_misc [simp]: "failed (make_misc e)"
  by (cases e) (simp_all add: failed_def make_misc_def)

end
