(* ===== verification/Asio_Buffer.thy ===== *)
theory Asio_Buffer
  imports Asio_Error
begin

text \<open>
  Buffers of the bundled asio library: a memory range (\<^verbatim>\<open>asio/buffer.hpp\<close>), the completion
  conditions (\<^verbatim>\<open>asio/completion_condition.hpp\<close>) and the bookkeeping of a composed transfer
  (\<^verbatim>\<open>asio/detail/consuming_buffers.hpp\<close>). A range is an address and a size; \<open>addrs\<close>, the list of
  its addresses, is the abstraction every lemma is about.
\<close>

section \<open>Memory ranges\<close>

text \<open>\<open>mutable_buffer\<close> and \<open>const_buffer\<close> have the same members and operations.\<close>

record buffer =
  buf_data :: nat
  buf_size :: nat

definition addrs :: "buffer \<Rightarrow> nat list" where
  "addrs b = [buf_data b ..< buf_data b + buf_size b]"

text \<open>\<open>b + n\<close>: skip at most the whole range.\<close>

definition buffer_plus :: "buffer \<Rightarrow> nat \<Rightarrow> buffer" where
  "buffer_plus b n =
     (let off = if n < buf_size b then n else buf_size b
      in \<lparr>buf_data = buf_data b + off, buf_size = buf_size b - off\<rparr>)"

text \<open>\<open>buffer(b, max_size_in_bytes)\<close>.\<close>

definition buffer_limit :: "buffer \<Rightarrow> nat \<Rightarrow> buffer" where
  "buffer_limit b n = \<lparr>buf_data = buf_data b, buf_size = (if buf_size b < n then buf_size b else n)\<rparr>"

definition buffers_size :: "buffer list \<Rightarrow> nat" where
  "buffers_size bs = sum_list (map buf_size bs)"

lemma length_addrs [simp]: "length (addrs b) = buf_size b"
  by (simp add: addrs_def)

lemma addrs_plus: "addrs (buffer_plus b n) = drop n (addrs b)"
  by (simp add: buffer_plus_def addrs_def Let_def drop_upt)

lemma addrs_limit: "addrs (buffer_limit b n) = take n (addrs b)"
  by (auto simp: buffer_limit_def addrs_def take_upt min_def)

lemma size_plus [simp]: "buf_size (buffer_plus b n) = buf_size b - n"
  by (simp add: buffer_plus_def Let_def)

lemma size_limit [simp]: "buf_size (buffer_limit b n) = min (buf_size b) n"
  by (simp add: buffer_limit_def min_def)

section \<open>Completion conditions\<close>

definition default_max_transfer_size :: nat where
  "default_max_transfer_size = 65536"

type_synonym completion_condition = "error_code \<Rightarrow> nat \<Rightarrow> nat"

definition transfer_all :: completion_condition where
  "transfer_all ec n = (if failed ec then 0 else default_max_transfer_size)"

definition transfer_at_least :: "nat \<Rightarrow> completion_condition" where
  "transfer_at_least minimum ec n =
     (if failed ec \<or> minimum \<le> n then 0 else default_max_transfer_size)"

definition transfer_exactly :: "nat \<Rightarrow> completion_condition" where
  "transfer_exactly sz ec n =
     (if failed ec \<or> sz \<le> n then 0
      else if sz - n < default_max_transfer_size then sz - n else default_max_transfer_size)"

definition adapt_completion_condition_result :: "bool \<Rightarrow> nat" where
  "adapt_completion_condition_result r = (if r then 0 else default_max_transfer_size)"

lemma transfer_all_zero [simp]: "transfer_all ec n = 0 \<longleftrightarrow> failed ec"
  by (simp add: transfer_all_def default_max_transfer_size_def)

section \<open>A single buffer being consumed\<close>

record single_buffer =
  sb_buffer :: buffer
  sb_total_consumed :: nat

definition sb_init :: "buffer \<Rightarrow> single_buffer" where
  "sb_init b = \<lparr>sb_buffer = b, sb_total_consumed = 0\<rparr>"

definition sb_empty :: "single_buffer \<Rightarrow> bool" where
  "sb_empty s \<longleftrightarrow> buf_size (sb_buffer s) \<le> sb_total_consumed s"

definition sb_prepare :: "single_buffer \<Rightarrow> nat \<Rightarrow> buffer" where
  "sb_prepare s max_size = buffer_limit (buffer_plus (sb_buffer s) (sb_total_consumed s)) max_size"

definition sb_consume :: "single_buffer \<Rightarrow> nat \<Rightarrow> single_buffer" where
  "sb_consume s n = s\<lparr>sb_total_consumed := sb_total_consumed s + n\<rparr>"

text \<open>What is left to transfer.\<close>

definition sb_remaining :: "single_buffer \<Rightarrow> nat list" where
  "sb_remaining s = drop (sb_total_consumed s) (addrs (sb_buffer s))"

lemma sb_prepare_addrs: "addrs (sb_prepare s n) = take n (sb_remaining s)"
  by (simp add: sb_prepare_def sb_remaining_def addrs_limit addrs_plus)

lemma sb_remaining_consume: "sb_remaining (sb_consume s n) = drop n (sb_remaining s)"
  by (simp add: sb_remaining_def sb_consume_def add.commute)

lemma sb_empty_iff: "sb_empty s \<longleftrightarrow> sb_remaining s = []"
  by (simp add: sb_empty_def sb_remaining_def)

lemma sb_remaining_init [simp]: "sb_remaining (sb_init b) = addrs b"
  by (simp add: sb_remaining_def sb_init_def)

section \<open>A sequence of buffers being consumed\<close>

text \<open>
  \<open>next_elem\<close> and \<open>next_elem_offset\<close> locate the next byte. \<open>prepare\<close> skips empty buffers and hands
  out at most \<open>max_buffers\<close> non-empty ones.
\<close>

record consuming_buffers =
  cb_buffers :: "buffer list"
  cb_total_size :: nat
  cb_total_consumed :: nat
  cb_next_elem :: nat
  cb_next_elem_offset :: nat

definition cb_init :: "buffer list \<Rightarrow> consuming_buffers" where
  "cb_init bs = \<lparr>cb_buffers = bs, cb_total_size = buffers_size bs, cb_total_consumed = 0,
     cb_next_elem = 0, cb_next_elem_offset = 0\<rparr>"

definition cb_empty :: "consuming_buffers \<Rightarrow> bool" where
  "cb_empty c \<longleftrightarrow> cb_total_size c \<le> cb_total_consumed c"

fun prepare_loop :: "nat \<Rightarrow> buffer list \<Rightarrow> nat \<Rightarrow> nat \<Rightarrow> nat \<Rightarrow> buffer list" where
  "prepare_loop max_buffers [] elem_offset max_size count = []"
| "prepare_loop max_buffers (b # bs) elem_offset max_size count =
     (if max_size > 0 \<and> count < max_buffers then
        let r = buffer_limit (buffer_plus b elem_offset) max_size;
            rest = prepare_loop max_buffers bs 0 (max_size - buf_size r)
                     (if buf_size r > 0 then Suc count else count)
        in if buf_size r > 0 then r # rest else rest
      else [])"

definition cb_prepare :: "nat \<Rightarrow> consuming_buffers \<Rightarrow> nat \<Rightarrow> buffer list" where
  "cb_prepare max_buffers c max_size =
     prepare_loop max_buffers (drop (cb_next_elem c) (cb_buffers c)) (cb_next_elem_offset c) max_size 0"

text \<open>The loop of \<open>consume\<close>, over the buffers from \<open>next_elem\<close> on: the number of buffers passed and
  the new offset.\<close>

fun consume_loop :: "buffer list \<Rightarrow> nat \<Rightarrow> nat \<Rightarrow> nat \<times> nat" where
  "consume_loop [] off sz = (0, off)"
| "consume_loop (b # bs) off sz =
     (if sz > 0 then
        (let n = buf_size (buffer_plus b off)
         in if sz < n then (0, off + sz)
            else let (k, off') = consume_loop bs 0 (sz - n) in (Suc k, off'))
      else (0, off))"

definition cb_consume :: "consuming_buffers \<Rightarrow> nat \<Rightarrow> consuming_buffers" where
  "cb_consume c sz =
     (let (k, off) = consume_loop (drop (cb_next_elem c) (cb_buffers c)) (cb_next_elem_offset c) sz
      in c\<lparr>cb_total_consumed := cb_total_consumed c + sz, cb_next_elem := cb_next_elem c + k,
           cb_next_elem_offset := off\<rparr>)"

text \<open>Abstraction: the addresses not yet consumed, in transfer order.\<close>

definition cb_remaining :: "consuming_buffers \<Rightarrow> nat list" where
  "cb_remaining c =
     drop (cb_next_elem_offset c) (concat (map addrs (take 1 (drop (cb_next_elem c) (cb_buffers c))))) @
     concat (map addrs (drop (Suc (cb_next_elem c)) (cb_buffers c)))"

fun loop_remaining :: "buffer list \<Rightarrow> nat \<Rightarrow> nat list" where
  "loop_remaining [] off = []"
| "loop_remaining (b # bs) off = drop off (addrs b) @ concat (map addrs bs)"

lemma cb_remaining_loop:
  "cb_remaining c = loop_remaining (drop (cb_next_elem c) (cb_buffers c)) (cb_next_elem_offset c)"
proof (cases "drop (cb_next_elem c) (cb_buffers c)")
  case Nil
  then show ?thesis by (simp add: cb_remaining_def)
next
  case (Cons b bs)
  then have "drop (Suc (cb_next_elem c)) (cb_buffers c) = bs"
    by (metis drop_Suc drop_tl list.sel(3))
  with Cons show ?thesis by (simp add: cb_remaining_def)
qed

lemma loop_remaining_zero [simp]: "loop_remaining bs 0 = concat (map addrs bs)"
  by (cases bs) simp_all

text \<open>What \<open>prepare\<close> hands out is a prefix of what remains, within \<open>max_size\<close>, and it is all of it
  when there are at most \<open>max_buffers\<close> buffers.\<close>

lemma prepare_loop_prefix:
  "\<exists>rest. loop_remaining bs off = concat (map addrs (prepare_loop mb bs off n c)) @ rest"
proof (induction mb bs off n c rule: prepare_loop.induct)
  case (1 mb off n c)
  then show ?case by simp
next
  case (2 mb b bs off n c)
  show ?case
  proof (cases "n > 0 \<and> c < mb")
    case False
    then show ?thesis by auto
  next
    case True
    let ?r = "buffer_limit (buffer_plus b off) n"
    let ?c' = "if buf_size ?r > 0 then Suc c else c"
    have r: "addrs ?r = take n (drop off (addrs b))" by (simp add: addrs_limit addrs_plus)
    show ?thesis
    proof (cases "n < buf_size b - off")
      case True
      then have "prepare_loop mb bs 0 (n - buf_size ?r) ?c' = []"
        by (cases bs) simp_all
      moreover have "loop_remaining (b # bs) off = addrs ?r @ drop n (drop off (addrs b)) @ concat (map addrs bs)"
        unfolding r loop_remaining.simps append_assoc [symmetric] append_take_drop_id ..
      ultimately show ?thesis using \<open>n > 0 \<and> c < mb\<close> True by (auto simp: Let_def)
    next
      case False
      then have whole: "addrs ?r = drop off (addrs b)" by (simp add: r)
      let ?tail = "prepare_loop mb bs 0 (n - buf_size ?r) ?c'"
      obtain rest where "concat (map addrs bs) = concat (map addrs ?tail) @ rest"
        using "2.IH" [OF True refl] by auto
      moreover have "buf_size ?r = 0 \<Longrightarrow> addrs ?r = []" by (metis length_addrs length_0_conv)
      ultimately have "loop_remaining (b # bs) off =
        concat (map addrs (if buf_size ?r > 0 then ?r # ?tail else ?tail)) @ rest"
        by (simp add: whole del: size_limit)
      moreover have "prepare_loop mb (b # bs) off n c = (if buf_size ?r > 0 then ?r # ?tail else ?tail)"
        using True by (simp only: prepare_loop.simps Let_def if_True simp_thms)
      ultimately show ?thesis by (intro exI [of _ rest]) (simp only:)
    qed
  qed
qed

lemma prepare_loop_size: "buffers_size (prepare_loop mb bs off n c) \<le> n"
proof (induction mb bs off n c rule: prepare_loop.induct)
  case (1 mb off n c)
  then show ?case by (simp add: buffers_size_def)
next
  case (2 mb b bs off n c)
  show ?case
  proof (cases "n > 0 \<and> c < mb")
    case False
    then show ?thesis by (auto simp: buffers_size_def)
  next
    case True
    let ?r = "buffer_limit (buffer_plus b off) n"
    have "buf_size ?r \<le> n" by simp
    with "2.IH" [OF True refl] True show ?thesis
      by (auto simp: buffers_size_def Let_def simp del: size_limit)
  qed
qed

lemma consume_loop_remaining:
  "sz \<le> length (loop_remaining bs off) \<Longrightarrow> consume_loop bs off sz = (k, off') \<Longrightarrow>
     loop_remaining (drop k bs) off' = drop sz (loop_remaining bs off)"
proof (induction bs off sz arbitrary: k off' rule: consume_loop.induct)
  case (1 off sz)
  then show ?case by simp
next
  case (2 b bs off sz)
  let ?n = "buf_size (buffer_plus b off)"
  show ?case
  proof (cases "sz > 0 \<and> \<not> sz < ?n")
    case False
    with "2.prems" show ?thesis by (auto simp: Let_def add.commute split: if_splits)
  next
    case True
    obtain k' o' where rec: "consume_loop bs 0 (sz - ?n) = (k', o')" by fastforce
    have "sz - ?n \<le> length (loop_remaining bs 0)" using "2.prems"(1) True by simp
    with "2.IH" rec True have "loop_remaining (drop k' bs) o' = drop (sz - ?n) (loop_remaining bs 0)"
      by auto
    with "2.prems"(2) rec True show ?thesis by (auto simp: Let_def)
  qed
qed

text \<open>\<open>consume\<close> drops exactly the consumed bytes.\<close>

lemma cb_remaining_consume:
  assumes "sz \<le> length (cb_remaining c)"
  shows "cb_remaining (cb_consume c sz) = drop sz (cb_remaining c)"
proof -
  obtain k off where
    "consume_loop (drop (cb_next_elem c) (cb_buffers c)) (cb_next_elem_offset c) sz = (k, off)"
    by fastforce
  with assms consume_loop_remaining [OF _ this] show ?thesis
    by (simp add: cb_remaining_loop cb_consume_def add.commute)
qed

lemma cb_remaining_init [simp]: "cb_remaining (cb_init bs) = concat (map addrs bs)"
  by (simp add: cb_remaining_loop cb_init_def)

lemma length_concat_addrs: "length (concat (map addrs bs)) = buffers_size bs"
  by (induction bs) (simp_all add: buffers_size_def)

text \<open>The counters agree with the abstraction, so \<open>empty()\<close> means that nothing remains.\<close>

definition cb_ok :: "consuming_buffers \<Rightarrow> bool" where
  "cb_ok c \<longleftrightarrow> cb_total_consumed c + length (cb_remaining c) = cb_total_size c"

lemma cb_ok_init: "cb_ok (cb_init bs)"
  by (simp add: cb_ok_def length_concat_addrs) (simp add: cb_init_def)

lemma cb_ok_consume: "cb_ok c \<Longrightarrow> sz \<le> length (cb_remaining c) \<Longrightarrow> cb_ok (cb_consume c sz)"
  by (simp add: cb_ok_def cb_remaining_consume)
    (simp add: cb_consume_def split: prod.splits)

lemma cb_empty_iff: "cb_ok c \<Longrightarrow> cb_empty c \<longleftrightarrow> cb_remaining c = []"
  by (auto simp: cb_ok_def cb_empty_def simp flip: length_0_conv)

section \<open>Properties\<close>

lemma prepare_loop_progress:
  "prepare_loop mb bs off n c = [] \<Longrightarrow> 0 < n \<Longrightarrow> c < mb \<Longrightarrow> loop_remaining bs off = []"
proof (induction mb bs off n c rule: prepare_loop.induct)
  case (1 mb off n c)
  then show ?case by simp
next
  case (2 mb b bs off n c)
  have short: "buf_size b \<le> off"
    using 2(2-4) by (auto simp: Let_def split: if_splits)
  then have zero: "buf_size (buffer_limit (buffer_plus b off) n) = 0" by simp
  have "prepare_loop mb bs 0 n c = []" using 2(2-4) short by (simp add: Let_def)
  with 2(1) [OF _ refl] 2(3,4) zero short have "loop_remaining bs 0 = []" by simp
  with short show ?case by simp
qed

lemma consumed_remaining:
  "sum_list ns \<le> buffers_size bs \<Longrightarrow>
     cb_ok (foldl cb_consume (cb_init bs) ns) \<and>
     cb_remaining (foldl cb_consume (cb_init bs) ns) = drop (sum_list ns) (concat (map addrs bs))"
proof (induction ns rule: rev_induct)
  case Nil
  then show ?case by (simp add: cb_ok_init)
next
  case (snoc n ns)
  then have ih: "cb_ok (foldl cb_consume (cb_init bs) ns)"
    "cb_remaining (foldl cb_consume (cb_init bs) ns) = drop (sum_list ns) (concat (map addrs bs))" by simp_all
  have "n \<le> length (cb_remaining (foldl cb_consume (cb_init bs) ns))"
    using snoc.prems by (simp add: ih(2) length_concat_addrs)
  with ih cb_ok_consume cb_remaining_consume show ?case by (simp add: add.commute)
qed

text \<open>
  A sequence of buffers being consumed behaves like one contiguous range: after any consumption
  that stays within it, exactly the addresses not yet consumed remain, in order; \<open>prepare\<close> hands out
  a prefix of them, never more than asked for, and something as long as anything remains; \<open>empty\<close>
  tells precisely when everything has been consumed.
\<close>

theorem consuming_buffers_refine_range:
  assumes "sum_list ns \<le> buffers_size bs"
  defines "c \<equiv> foldl cb_consume (cb_init bs) ns"
  shows "cb_remaining c = drop (sum_list ns) (concat (map addrs bs)) \<and>
    (\<exists>rest. cb_remaining c = concat (map addrs (cb_prepare mb c n)) @ rest) \<and>
    buffers_size (cb_prepare mb c n) \<le> n \<and>
    (cb_prepare mb c n = [] \<longrightarrow> n = 0 \<or> mb = 0 \<or> sum_list ns = buffers_size bs) \<and>
    (cb_empty c \<longleftrightarrow> sum_list ns = buffers_size bs)"
proof -
  have ok: "cb_ok c" and rem: "cb_remaining c = drop (sum_list ns) (concat (map addrs bs))"
    using consumed_remaining [OF assms(1)] by (simp_all add: c_def)
  have none: "cb_remaining c = [] \<longleftrightarrow> sum_list ns = buffers_size bs"
    using assms(1) by (auto simp: rem length_concat_addrs)
  show ?thesis
    using rem none cb_empty_iff [OF ok]
      prepare_loop_prefix [of "drop (cb_next_elem c) (cb_buffers c)" "cb_next_elem_offset c" mb n 0]
      prepare_loop_size [of mb "drop (cb_next_elem c) (cb_buffers c)" "cb_next_elem_offset c" n 0]
      prepare_loop_progress [of mb "drop (cb_next_elem c) (cb_buffers c)" "cb_next_elem_offset c" n 0]
    by (auto simp: cb_prepare_def cb_remaining_loop [symmetric])
qed

theorem consuming_buffers_refine_range_witness:
  "cb_remaining (foldl cb_consume (cb_init [\<lparr>buf_data = 10, buf_size = 2\<rparr>, \<lparr>buf_data = 20, buf_size = 3\<rparr>]) [1, 2]) =
     [21, 22]"
proof -
  let ?bs = "[\<lparr>buf_data = 10, buf_size = 2\<rparr>, \<lparr>buf_data = 20, buf_size = 3\<rparr>]"
  have "sum_list [1, 2] \<le> buffers_size ?bs" by (simp add: buffers_size_def)
  from consuming_buffers_refine_range [OF this]
  have "cb_remaining (foldl cb_consume (cb_init ?bs) [1, 2]) = drop 3 (concat (map addrs ?bs))" by simp
  also have "\<dots> = [21, 22]" by (simp add: addrs_def upt_rec)
  finally show ?thesis .
qed

end
