(* ===== verification/Asio_Transfer.thy ===== *)
theory Asio_Transfer
  imports Asio_Buffer
begin

unbundle bit_operations_syntax

text \<open>
  The composed transfers of the bundled asio library: the error mapping at the completion of one
  overlapped operation (\<^verbatim>\<open>asio/detail/impl/socket_ops.ipp\<close>) and the state machines behind
  \<open>async_read\<close> and \<open>async_write\<close> (\<^verbatim>\<open>asio/impl/read.hpp\<close>, \<^verbatim>\<open>asio/impl/write.hpp\<close>), for the single buffers
  the connections pass. A run is driven by a script: the completions of the successive
  \<open>async_read_some\<close> or \<open>async_write_some\<close> calls, which the operating system chooses.
\<close>

section \<open>Completion of one overlapped operation\<close>

definition ERROR_MORE_DATA :: int where "ERROR_MORE_DATA = 234"
definition ERROR_NETNAME_DELETED :: int where "ERROR_NETNAME_DELETED = 64"
definition ERROR_PORT_UNREACHABLE :: int where "ERROR_PORT_UNREACHABLE = 1234"
definition WSAEMSGSIZE :: int where "WSAEMSGSIZE = 10040"

text \<open>The socket's state flags.\<close>

definition stream_oriented :: u8 where "stream_oriented = 16"
definition datagram_oriented :: u8 where "datagram_oriented = 32"

definition complete_iocp_recv :: "u8 \<Rightarrow> bool \<Rightarrow> bool \<Rightarrow> error_code \<Rightarrow> nat \<Rightarrow> error_code" where
  "complete_iocp_recv state cancel_token_expired all_empty ec bytes_transferred =
     (if ec_value ec = ERROR_NETNAME_DELETED then
        (if cancel_token_expired then make_basic operation_aborted else make_basic connection_reset)
      else if ec_value ec = ERROR_PORT_UNREACHABLE then make_basic connection_refused
      else if ec_value ec = WSAEMSGSIZE \<or> ec_value ec = ERROR_MORE_DATA then clear_ec ec
      else if \<not> failed ec \<and> bytes_transferred = 0 \<and> state AND stream_oriented \<noteq> 0 \<and> \<not> all_empty
        then make_misc eof
      else ec)"

definition complete_iocp_send :: "bool \<Rightarrow> error_code \<Rightarrow> error_code" where
  "complete_iocp_send cancel_token_expired ec =
     (if ec_value ec = ERROR_NETNAME_DELETED then
        (if cancel_token_expired then make_basic operation_aborted else make_basic connection_reset)
      else if ec_value ec = ERROR_PORT_UNREACHABLE then make_basic connection_refused
      else ec)"

text \<open>Success of a receive on a stream socket means that bytes arrived: the end of the stream is an
  error. The datagram codes are not produced for stream sockets.\<close>

definition stream_error_code :: "error_code \<Rightarrow> bool" where
  "stream_error_code ec \<longleftrightarrow> ec_value ec \<noteq> WSAEMSGSIZE \<and> ec_value ec \<noteq> ERROR_MORE_DATA"

lemma complete_iocp_recv_success:
  assumes "\<not> failed (complete_iocp_recv stream_oriented expired False ec n)"
    and "stream_error_code ec"
  shows "0 < n \<and> \<not> failed ec"
proof -
  have flag: "stream_oriented AND stream_oriented \<noteq> 0" by (simp add: stream_oriented_def)
  show ?thesis
    using assms flag
    by (auto simp: complete_iocp_recv_def stream_error_code_def split: if_splits)
qed

section \<open>The composed operations\<close>

text \<open>
  What a call of the operation object does: start the next transfer on a prepared buffer, keeping
  the operation's state, or call the handler with an error code and the total.
\<close>

datatype op_action =
    Async_some buffer single_buffer
  | Call_handler error_code nat

text \<open>\<open>read_op::operator()(ec, bytes_transferred, start)\<close> with \<open>start = 1\<close> and with \<open>start = 0\<close>.
  \<open>cancelled\<close> tells whether a cancellation was requested.\<close>

definition read_op_start :: "completion_condition \<Rightarrow> single_buffer \<Rightarrow> op_action" where
  "read_op_start cond s =
     (let max_size = cond no_error (sb_total_consumed s)
      in Async_some (sb_prepare s max_size) s)"

definition read_op_resume ::
  "completion_condition \<Rightarrow> bool \<Rightarrow> error_code \<Rightarrow> nat \<Rightarrow> single_buffer \<Rightarrow> op_action" where
  "read_op_resume cond cancelled ec bytes_transferred s =
     (let s1 = sb_consume s bytes_transferred
      in if (\<not> failed ec \<and> bytes_transferred = 0) \<or> sb_empty s1
         then Call_handler ec (sb_total_consumed s1)
         else
           let max_size = cond ec (sb_total_consumed s1)
           in if max_size = 0 then Call_handler ec (sb_total_consumed s1)
              else if cancelled
                then Call_handler (make_basic operation_aborted) (sb_total_consumed s1)
              else Async_some (sb_prepare s1 max_size) s1)"

definition write_op_start :: "completion_condition \<Rightarrow> single_buffer \<Rightarrow> op_action" where
  "write_op_start cond s =
     (let max_size = cond no_error (sb_total_consumed s)
      in Async_some (sb_prepare s max_size) s)"

definition write_op_resume ::
  "completion_condition \<Rightarrow> bool \<Rightarrow> error_code \<Rightarrow> nat \<Rightarrow> single_buffer \<Rightarrow> op_action" where
  "write_op_resume cond cancelled ec bytes_transferred s =
     (let s1 = sb_consume s bytes_transferred
      in if (\<not> failed ec \<and> bytes_transferred = 0) \<or> sb_empty s1
         then Call_handler ec (sb_total_consumed s1)
         else
           let max_size = cond ec (sb_total_consumed s1)
           in if max_size = 0 then Call_handler ec (sb_total_consumed s1)
              else if cancelled
                then Call_handler (make_basic operation_aborted) (sb_total_consumed s1)
              else Async_some (sb_prepare s1 max_size) s1)"

lemma write_op_is_read_op:
  "write_op_start = read_op_start" "write_op_resume = read_op_resume"
  by (simp_all add: fun_eq_iff write_op_start_def read_op_start_def write_op_resume_def
      read_op_resume_def)

text \<open>\<open>async_read(socket, buffer, handler)\<close> and \<open>async_write\<close>: the condition is \<open>transfer_all()\<close>.\<close>

definition async_read :: "buffer \<Rightarrow> op_action" where
  "async_read b = read_op_start transfer_all (sb_init b)"

definition async_write :: "buffer \<Rightarrow> op_action" where
  "async_write b = write_op_start transfer_all (sb_init b)"

text \<open>Nobody requests cancellation through a slot in the programs, so \<open>cancelled\<close> is false in a run.\<close>

fun run_op :: "(error_code \<times> nat) list \<Rightarrow> op_action \<Rightarrow> (error_code \<times> nat) option" where
  "run_op script (Call_handler ec n) = Some (ec, n)"
| "run_op [] (Async_some b s) = None"
| "run_op ((ec, n) # script) (Async_some b s) =
     run_op script (read_op_resume transfer_all False ec n s)"

section \<open>Runs over a stream socket\<close>

text \<open>One completion of a stream transfer into \<open>b\<close>: no more than the buffer holds, and success moves
  at least one byte unless the buffer is empty.\<close>

definition stream_completion :: "buffer \<Rightarrow> error_code \<Rightarrow> nat \<Rightarrow> bool" where
  "stream_completion b ec n \<longleftrightarrow> n \<le> buf_size b \<and> (\<not> failed ec \<longrightarrow> buf_size b = 0 \<or> 0 < n)"

fun stream_script :: "(error_code \<times> nat) list \<Rightarrow> op_action \<Rightarrow> bool" where
  "stream_script script (Call_handler ec n) \<longleftrightarrow> script = []"
| "stream_script [] (Async_some b s) \<longleftrightarrow> True"
| "stream_script ((ec, n) # script) (Async_some b s) \<longleftrightarrow>
     stream_completion b ec n \<and> stream_script script (read_op_resume transfer_all False ec n s)"

text \<open>The memory written or read by a run, in transfer order.\<close>

fun moved :: "(error_code \<times> nat) list \<Rightarrow> op_action \<Rightarrow> nat list" where
  "moved script (Call_handler ec n) = []"
| "moved [] (Async_some b s) = []"
| "moved ((ec, n) # script) (Async_some b s) =
     take n (addrs b) @ moved script (read_op_resume transfer_all False ec n s)"

text \<open>The operation is always suspended on the buffer it prepared, with bytes left, except at the
  start of a transfer of nothing.\<close>

definition suspended :: "buffer \<Rightarrow> single_buffer \<Rightarrow> bool" where
  "suspended b s \<longleftrightarrow> b = sb_prepare s default_max_transfer_size"

lemma async_read_suspended: "async_read b = Async_some (sb_prepare (sb_init b) default_max_transfer_size) (sb_init b)"
  by (simp add: async_read_def read_op_start_def transfer_all_def)

lemma suspended_size:
  "suspended b s \<Longrightarrow> buf_size b = min (length (sb_remaining s)) default_max_transfer_size"
  by (metis length_addrs length_take min.commute sb_prepare_addrs suspended_def)

lemma resume_cases:
  "read_op_resume transfer_all False ec n s =
     (if (\<not> failed ec \<and> n = 0) \<or> sb_empty (sb_consume s n) \<or> failed ec
      then Call_handler ec (sb_total_consumed s + n)
      else Async_some (sb_prepare (sb_consume s n) default_max_transfer_size) (sb_consume s n))"
  by (simp add: read_op_resume_def transfer_all_def Let_def default_max_transfer_size_def sb_consume_def)

lemma run_op_result:
  assumes "stream_script script (Async_some b s)" and "suspended b s"
    and "run_op script (Async_some b s) = Some (ec, n)"
  shows "\<exists>k. n = sb_total_consumed s + k \<and> k \<le> length (sb_remaining s) \<and>
    (\<not> failed ec \<longrightarrow> k = length (sb_remaining s)) \<and>
    moved script (Async_some b s) = take k (sb_remaining s)"
  using assms
proof (induction script arbitrary: b s)
  case Nil
  then show ?case by simp
next
  case (Cons r script)
  obtain e m where r: "r = (e, m)" by fastforce
  let ?s = "sb_consume s m"
  let ?b = "sb_prepare ?s default_max_transfer_size"
  have m: "m \<le> length (sb_remaining s)" and sz: "stream_completion b e m"
    using Cons.prems suspended_size [of b s] by (auto simp: r stream_completion_def)
  have "m \<le> default_max_transfer_size"
    using sz suspended_size [OF Cons.prems(2)] by (simp add: stream_completion_def)
  then have here: "take m (addrs b) = take m (sb_remaining s)"
    using Cons.prems(2) by (simp add: suspended_def sb_prepare_addrs min_def)
  show ?case
  proof (cases "(\<not> failed e \<and> m = 0) \<or> sb_empty ?s \<or> failed e")
    case True
    then have stop: "read_op_resume transfer_all False e m s = Call_handler e (sb_total_consumed s + m)"
      by (auto simp: resume_cases)
    have "\<not> failed e \<Longrightarrow> m = length (sb_remaining s)"
    proof -
      assume ok: "\<not> failed e"
      show ?thesis
      proof (cases "m = 0")
        case True
        with ok sz have "buf_size b = 0" by (auto simp: stream_completion_def)
        with suspended_size [OF Cons.prems(2)] True show ?thesis
          by (simp add: default_max_transfer_size_def min_def split: if_splits)
      next
        case False
        with \<open>_ \<or> sb_empty ?s \<or> failed e\<close> ok have "drop m (sb_remaining s) = []"
          by (simp add: sb_empty_iff sb_remaining_consume)
        with m show ?thesis by simp
      qed
    qed
    moreover have "moved (r # script) (Async_some b s) = take m (sb_remaining s)"
      by (simp add: r stop here)
    moreover have "e = ec" and "n = sb_total_consumed s + m"
      using Cons.prems(3) by (simp_all add: r stop)
    ultimately show ?thesis using m by blast
  next
    case False
    then have go: "read_op_resume transfer_all False e m s = Async_some ?b ?s"
      by (auto simp: resume_cases)
    have susp: "suspended ?b ?s" by (simp add: suspended_def)
    obtain k where k: "n = sb_total_consumed ?s + k" "k \<le> length (sb_remaining ?s)"
      "\<not> failed ec \<longrightarrow> k = length (sb_remaining ?s)"
      "moved script (Async_some ?b ?s) = take k (sb_remaining ?s)"
      using Cons.IH [of ?b ?s] Cons.prems susp by (auto simp: r go)
    have "take m (sb_remaining s) @ take k (drop m (sb_remaining s)) = take (m + k) (sb_remaining s)"
      by (simp add: take_add)
    with k m show ?thesis
      by (intro exI [of _ "m + k"])
        (auto simp: r go here sb_remaining_consume, simp_all add: sb_consume_def)
  qed
qed

text \<open>A run ends after at most as many completions as there are bytes.\<close>

lemma run_op_ends:
  assumes "stream_script script (Async_some b s)" and "suspended b s"
    and "max 1 (length (sb_remaining s)) \<le> length script"
  shows "\<exists>r. run_op script (Async_some b s) = Some r"
  using assms
proof (induction script arbitrary: b s)
  case Nil
  then show ?case by simp
next
  case (Cons r script)
  obtain e m where r: "r = (e, m)" by fastforce
  let ?s = "sb_consume s m"
  let ?b = "sb_prepare ?s default_max_transfer_size"
  show ?case
  proof (cases "(\<not> failed e \<and> m = 0) \<or> sb_empty ?s \<or> failed e")
    case True
    then show ?thesis by (auto simp: r resume_cases)
  next
    case False
    then have go: "read_op_resume transfer_all False e m s = Async_some ?b ?s"
      by (auto simp: resume_cases)
    have "0 < m" using False by (cases m) simp_all
    moreover have "0 < length (sb_remaining ?s)" using False by (simp add: sb_empty_iff)
    moreover have "length (sb_remaining ?s) = length (sb_remaining s) - m"
      by (simp add: sb_remaining_consume)
    ultimately have "max 1 (length (sb_remaining ?s)) \<le> length script"
      using Cons.prems(3) by simp
    then show ?thesis
      using Cons.IH [of ?b ?s] Cons.prems(1) by (auto simp: r go suspended_def)
  qed
qed

section \<open>The interface of a composed transfer\<close>

text \<open>
  What a caller of \<open>async_read\<close> or \<open>async_write\<close> for \<open>k\<close> bytes may rely on when its handler runs:
  never more than \<open>k\<close> bytes, and exactly \<open>k\<close> when the error code is clear.
\<close>

definition transfer_outcome :: "nat \<Rightarrow> error_code \<Rightarrow> nat \<Rightarrow> bool" where
  "transfer_outcome k ec n \<longleftrightarrow> n \<le> k \<and> (\<not> failed ec \<longrightarrow> n = k)"

locale exact_transfer =
  fixes outcome :: "nat \<Rightarrow> error_code \<Rightarrow> nat \<Rightarrow> bool"
  assumes outcome_bound: "outcome k ec n \<Longrightarrow> n \<le> k"
    and outcome_exact: "outcome k ec n \<Longrightarrow> \<not> failed ec \<Longrightarrow> n = k"
begin

lemma short_is_failure: "outcome k ec n \<Longrightarrow> n < k \<Longrightarrow> failed ec"
  using outcome_exact by fastforce

lemma outcome_refines: "outcome k ec n \<Longrightarrow> transfer_outcome k ec n"
  using outcome_bound outcome_exact by (simp add: transfer_outcome_def)

lemma written_prefix: "outcome (length bs) ec n \<Longrightarrow> take n bs @ drop n bs = bs \<and> length (take n bs) = n"
  using outcome_bound by fastforce

end

definition composed_read_outcome :: "nat \<Rightarrow> error_code \<Rightarrow> nat \<Rightarrow> bool" where
  "composed_read_outcome k ec n \<longleftrightarrow>
     (\<exists>a script. let act = async_read \<lparr>buf_data = a, buf_size = k\<rparr>
       in stream_script script act \<and> run_op script act = Some (ec, n))"

definition composed_write_outcome :: "nat \<Rightarrow> error_code \<Rightarrow> nat \<Rightarrow> bool" where
  "composed_write_outcome k ec n \<longleftrightarrow>
     (\<exists>a script. let act = async_write \<lparr>buf_data = a, buf_size = k\<rparr>
       in stream_script script act \<and> run_op script act = Some (ec, n))"

lemma async_write_eq: "async_write = async_read"
  by (simp add: fun_eq_iff async_write_def async_read_def write_op_is_read_op)

lemma composed_read_transfer:
  assumes "composed_read_outcome k ec n"
  shows "n \<le> k \<and> (\<not> failed ec \<longrightarrow> n = k)"
proof -
  obtain a script where s: "stream_script script (async_read \<lparr>buf_data = a, buf_size = k\<rparr>)"
    and r: "run_op script (async_read \<lparr>buf_data = a, buf_size = k\<rparr>) = Some (ec, n)"
    using assms by (auto simp: composed_read_outcome_def Let_def)
  let ?s = "sb_init \<lparr>buf_data = a, buf_size = k\<rparr>"
  have len: "length (sb_remaining ?s) = k" by simp
  have tot: "sb_total_consumed ?s = 0" by (simp add: sb_init_def)
  show ?thesis
    using run_op_result [OF s [unfolded async_read_suspended] _ r [unfolded async_read_suspended]]
      len tot by (auto simp: suspended_def)
qed

interpretation composed_read: exact_transfer composed_read_outcome
  by unfold_locales (use composed_read_transfer in blast)+

interpretation composed_write: exact_transfer composed_write_outcome
  by unfold_locales
    (use composed_read_transfer in \<open>force simp: composed_write_outcome_def composed_read_outcome_def
      async_write_eq\<close>)+

interpretation model_transfer: exact_transfer transfer_outcome
  by unfold_locales (simp_all add: transfer_outcome_def)

text \<open>Every outcome the interface allows does occur.\<close>

lemma run_op_single_bytes:
  assumes "m < length (sb_remaining s)"
  shows "\<exists>b' s'. suspended b' s' \<and> sb_total_consumed s' = sb_total_consumed s + m \<and>
    sb_remaining s' = drop m (sb_remaining s) \<and>
    (\<forall>rest. run_op (replicate m (no_error, 1) @ rest) (Async_some (sb_prepare s default_max_transfer_size) s) =
            run_op rest (Async_some b' s') \<and>
       (stream_script (replicate m (no_error, 1) @ rest)
          (Async_some (sb_prepare s default_max_transfer_size) s) \<longleftrightarrow>
        stream_script rest (Async_some b' s')))"
  using assms
proof (induction m arbitrary: s)
  case 0
  show ?case
    by (intro exI [of _ "sb_prepare s default_max_transfer_size"] exI [of _ s]) (simp add: suspended_def)
next
  case (Suc m)
  let ?s = "sb_consume s 1"
  have left: "m < length (sb_remaining ?s)" using Suc.prems by (simp add: sb_remaining_consume)
  then have "\<not> sb_empty ?s" by (auto simp: sb_empty_iff)
  then have go: "read_op_resume transfer_all False no_error 1 s =
    Async_some (sb_prepare ?s default_max_transfer_size) ?s"
    by (simp add: resume_cases)
  have "buf_size (sb_prepare s default_max_transfer_size) =
    min (length (sb_remaining s)) default_max_transfer_size"
    by (rule suspended_size) (simp add: suspended_def)
  then have "stream_completion (sb_prepare s default_max_transfer_size) no_error 1"
    using Suc.prems by (simp add: stream_completion_def default_max_transfer_size_def)
  moreover from Suc.IH [OF left] obtain b' s' where "suspended b' s'"
    "sb_total_consumed s' = sb_total_consumed ?s + m" "sb_remaining s' = drop m (sb_remaining ?s)"
    "\<forall>rest. run_op (replicate m (no_error, 1) @ rest) (Async_some (sb_prepare ?s default_max_transfer_size) ?s) =
            run_op rest (Async_some b' s') \<and>
       (stream_script (replicate m (no_error, 1) @ rest)
          (Async_some (sb_prepare ?s default_max_transfer_size) ?s) \<longleftrightarrow>
        stream_script rest (Async_some b' s'))"
    by blast
  moreover have "sb_total_consumed ?s = Suc (sb_total_consumed s)" by (simp add: sb_consume_def)
  moreover have "sb_remaining ?s = drop 1 (sb_remaining s)" by (rule sb_remaining_consume)
  ultimately show ?case
    by (intro exI [of _ b'] exI [of _ s']) (simp add: go del: One_nat_def, simp)
qed

lemma transfer_outcome_occurs:
  assumes "transfer_outcome k ec n"
  shows "composed_read_outcome k ec n"
proof -
  let ?b = "\<lparr>buf_data = 0, buf_size = k\<rparr>"
  let ?s = "sb_init ?b"
  let ?act = "Async_some (sb_prepare ?s default_max_transfer_size) ?s"
  have len: "length (sb_remaining ?s) = k" and tot: "sb_total_consumed ?s = 0"
    by simp (simp add: sb_init_def)
  have "\<exists>script. stream_script script ?act \<and> run_op script ?act = Some (ec, n)"
  proof (cases "n < k \<or> k = 0")
    case True
    show ?thesis
    proof (cases "k = 0")
      case True
      with assms have "n = 0" by (simp add: transfer_outcome_def)
      with True show ?thesis
        by (intro exI [of _ "[(ec, 0)]"])
          (simp add: resume_cases stream_completion_def sb_prepare_def sb_init_def sb_empty_def sb_consume_def)
    next
      case False
      with \<open>n < k \<or> k = 0\<close> have "n < k" by simp
      with assms have bad: "failed ec" by (auto simp: transfer_outcome_def)
      from \<open>n < k\<close> len have "n < length (sb_remaining ?s)" by simp
      from run_op_single_bytes [OF this] obtain b' s' where *: "suspended b' s'"
        "sb_total_consumed s' = n"
        "\<forall>rest. run_op (replicate n (no_error, 1) @ rest) ?act = run_op rest (Async_some b' s') \<and>
           (stream_script (replicate n (no_error, 1) @ rest) ?act \<longleftrightarrow> stream_script rest (Async_some b' s'))"
        by (auto simp: tot)
      then show ?thesis using bad
        by (intro exI [of _ "replicate n (no_error, 1) @ [(ec, 0)]"])
          (simp add: resume_cases stream_completion_def)
    qed
  next
    case False
    with assms have n: "n = k" and "0 < k" by (auto simp: transfer_outcome_def)
    then have "k - 1 < length (sb_remaining ?s)" using len by simp
    from run_op_single_bytes [OF this] obtain b' s' where *: "suspended b' s'"
      "sb_total_consumed s' = k - 1" "sb_remaining s' = drop (k - 1) (sb_remaining ?s)"
      "\<forall>rest. run_op (replicate (k - 1) (no_error, 1) @ rest) ?act = run_op rest (Async_some b' s') \<and>
         (stream_script (replicate (k - 1) (no_error, 1) @ rest) ?act \<longleftrightarrow> stream_script rest (Async_some b' s'))"
      by (auto simp: tot)
    have "length (sb_remaining s') = 1" using *(3) len \<open>0 < k\<close> by simp
    moreover from this have "buf_size b' = 1"
      using suspended_size [OF *(1)] by (simp add: default_max_transfer_size_def)
    ultimately show ?thesis using * n \<open>0 < k\<close>
      by (intro exI [of _ "replicate (k - 1) (no_error, 1) @ [(ec, 1)]"])
        (simp add: resume_cases stream_completion_def sb_empty_iff sb_remaining_consume)
  qed
  then show ?thesis
    by (auto simp: composed_read_outcome_def Let_def async_read_suspended)
qed

section \<open>Properties\<close>

text \<open>
  A composed read or write that completes has moved a prefix of its buffer, in address order,
  whose length is the byte count its handler is given; and with a clear error code that is the whole
  buffer. This is for every way the system may split the transfer.
\<close>

theorem transfer_moves_exactly:
  assumes "stream_script script (async_read b)" and "run_op script (async_read b) = Some (ec, n)"
  shows "async_write b = async_read b \<and> n \<le> buf_size b \<and> (\<not> failed ec \<longrightarrow> n = buf_size b) \<and>
    moved script (async_read b) = take n (addrs b)"
proof -
  have susp: "suspended (sb_prepare (sb_init b) default_max_transfer_size) (sb_init b)"
    by (simp add: suspended_def)
  have "sb_total_consumed (sb_init b) = 0" and "length (sb_remaining (sb_init b)) = buf_size b"
    by (simp_all add: sb_init_def sb_remaining_def)
  with run_op_result [OF assms(1) [unfolded async_read_suspended] susp assms(2) [unfolded async_read_suspended]]
  show ?thesis by (auto simp: async_read_suspended async_write_eq)
qed

theorem transfer_moves_exactly_witness:
  "moved [(no_error, 2), (no_error, 1)] (async_read \<lparr>buf_data = 5, buf_size = 3\<rparr>) = [5, 6, 7]"
proof -
  let ?b = "\<lparr>buf_data = 5, buf_size = 3\<rparr>" and ?script = "[(no_error, 2), (no_error, 1)]"
  have "stream_script ?script (async_read ?b)" and "run_op ?script (async_read ?b) = Some (no_error, 3)"
    by (simp_all add: async_read_suspended resume_cases stream_completion_def sb_init_def sb_prepare_def
        sb_consume_def sb_empty_def buffer_plus_def buffer_limit_def default_max_transfer_size_def)
  from transfer_moves_exactly [OF this] show ?thesis by (simp add: addrs_def upt_rec)
qed

text \<open>
  C40: A composed read or write terminates: after as many completions of the socket as the buffer has
  bytes (one for an empty buffer) its handler has been called.
\<close>

theorem transfer_terminates:
  assumes "stream_script script (async_read b)" and "max 1 (buf_size b) \<le> length script"
  shows "\<exists>ec n. run_op script (async_read b) = Some (ec, n)"
  using run_op_ends [of script "sb_prepare (sb_init b) default_max_transfer_size" "sb_init b"] assms
  by (auto simp: async_read_suspended suspended_def)

theorem transfer_terminates_witness:
  "\<exists>ec n. run_op [(no_error, 1), (no_error, 1)] (async_read \<lparr>buf_data = 5, buf_size = 2\<rparr>) = Some (ec, n)"
  by (rule transfer_terminates)
    (simp_all add: async_read_suspended resume_cases stream_completion_def sb_init_def sb_prepare_def
      sb_consume_def sb_empty_def buffer_plus_def buffer_limit_def default_max_transfer_size_def)

text \<open>
  C14: The outcomes of a composed transfer are exactly those of its abstract specification: at most as
  many bytes as asked for, and all of them unless it failed. The model of the connections uses the
  specification, and every outcome it allows does occur.
\<close>

theorem transfer_refines_specification:
  "composed_read_outcome k ec n = transfer_outcome k ec n \<and> composed_write_outcome k ec n = transfer_outcome k ec n"
proof -
  have "composed_read_outcome k ec n = transfer_outcome k ec n"
    using composed_read.outcome_refines transfer_outcome_occurs by blast
  moreover have "composed_write_outcome k ec n = composed_read_outcome k ec n"
    by (simp add: composed_write_outcome_def composed_read_outcome_def async_write_eq)
  ultimately show ?thesis by simp
qed

end
