(* ===== verification/Connection.thy ===== *)
theory Connection
  imports Message TsQueue Asio_Transfer "HOL-Library.Sublist"
begin

text \<open>
  The connection of \<^verbatim>\<open>Common/connection.h\<close>: its members, every member function and every completion
  handler, as transformations of the state that one \<open>io_context\<close> owner (the server or the client
  object) shares with its connections. Connections are shared objects, so they live in a heap and
  \<open>this\<close> is an address. An operation handed to asio is appended to \<open>started\<close>, a posted function
  object to \<open>tasks\<close>; an event of the event loop removes one and runs its handler.
\<close>

section \<open>State\<close>

datatype owner = owner_server | owner_client

text \<open>
  The socket is described by \<open>is_open\<close> and by the bytes it has sent and received so far, which the
  program cannot see. Further members are those of the class.
\<close>

record connection =
  sock_open :: bool
  sock_tx :: bytes
  sock_rx :: bytes
  qMessagesOut :: "messageBody tsqueue"
  msgTemporaryIn :: messageBody
  nOwnerType :: owner
  conn_id :: u32

text \<open>\<open>ownedMessage\<close> of \<^verbatim>\<open>Common/message.h\<close>: \<open>remote\<close> is a shared pointer, possibly null.\<close>

record ownedMessage =
  remote :: "nat option"
  own_msg :: messageBody

text \<open>
  The asynchronous operations a connection starts, with the size or the bytes of the buffer it hands
  over. The flag next to an operation in \<open>started\<close> tells whether the socket was open when it was
  started: asio completes an operation on a closed socket with \<open>bad_descriptor\<close>.
\<close>

datatype io_op =
    ReadHeaderOp
  | ReadBodyOp nat
  | WriteHeaderOp bytes
  | WriteBodyOp bytes
  | ConnectOp

datatype task = SendTask nat messageBody | CloseTask nat

record process =
  heap :: "nat \<Rightarrow> connection"
  qMessagesIn :: "ownedMessage tsqueue"
  tasks :: "task list"
  started :: "(nat \<times> io_op \<times> bool) list"
  console :: "string list"

text \<open>The constructor, for a socket that is open or not.\<close>

definition connection_new :: "owner \<Rightarrow> bool \<Rightarrow> connection" where
  "connection_new parent is_open =
     \<lparr>sock_open = is_open, sock_tx = [], sock_rx = [], qMessagesOut = tsq_init,
      msgTemporaryIn = messageBody_init, nOwnerType = parent, conn_id = 0\<rparr>"

section \<open>Primitive effects\<close>

definition on_conn :: "nat \<Rightarrow> (connection \<Rightarrow> connection) \<Rightarrow> 'a process_scheme \<Rightarrow> 'a process_scheme" where
  "on_conn p f s = s\<lparr>heap := (heap s)(p := f (heap s p))\<rparr>"

definition start_op :: "nat \<Rightarrow> io_op \<Rightarrow> 'a process_scheme \<Rightarrow> 'a process_scheme" where
  "start_op p op s = s\<lparr>started := started s @ [(p, op, sock_open (heap s p))]\<rparr>"

definition post :: "task \<Rightarrow> 'a process_scheme \<Rightarrow> 'a process_scheme" where
  "post t s = s\<lparr>tasks := tasks s @ [t]\<rparr>"

definition print :: "string \<Rightarrow> 'a process_scheme \<Rightarrow> 'a process_scheme" where
  "print line s = s\<lparr>console := console s @ [line]\<rparr>"

definition socket_close :: "nat \<Rightarrow> 'a process_scheme \<Rightarrow> 'a process_scheme" where
  "socket_close p = on_conn p (\<lambda>c. c\<lparr>sock_open := False\<rparr>)"

definition tagged :: "connection \<Rightarrow> string \<Rightarrow> string" where
  "tagged c line = ''['' @ show_nat (unat (conn_id c)) @ ''] '' @ line"

section \<open>Member functions\<close>

definition GetID :: "nat \<Rightarrow> 'a process_scheme \<Rightarrow> u32" where
  "GetID this s = conn_id (heap s this)"

definition IsConnected :: "nat \<Rightarrow> 'a process_scheme \<Rightarrow> bool" where
  "IsConnected this s \<longleftrightarrow> sock_open (heap s this)"

definition ReadHeader :: "nat \<Rightarrow> 'a process_scheme \<Rightarrow> 'a process_scheme" where
  "ReadHeader this s = start_op this ReadHeaderOp s"

definition ReadBody :: "nat \<Rightarrow> 'a process_scheme \<Rightarrow> 'a process_scheme" where
  "ReadBody this s = start_op this (ReadBodyOp (length (body (msgTemporaryIn (heap s this))))) s"

definition AddToIncomingMessageQueue :: "nat \<Rightarrow> 'a process_scheme \<Rightarrow> 'a process_scheme" where
  "AddToIncomingMessageQueue this s =
     (let c = heap s this;
          om = (case nOwnerType c of
                  owner_server \<Rightarrow> \<lparr>remote = Some this, own_msg = msgTemporaryIn c\<rparr>
                | owner_client \<Rightarrow> \<lparr>remote = None, own_msg = msgTemporaryIn c\<rparr>)
      in ReadHeader this (s\<lparr>qMessagesIn := tsq_push_back (qMessagesIn s) om\<rparr>))"

text \<open>The completion handler that \<open>ReadHeader\<close> passes to \<open>async_read\<close>.\<close>

definition ReadHeader_handler :: "nat \<Rightarrow> error_code \<Rightarrow> 'a process_scheme \<Rightarrow> 'a process_scheme" where
  "ReadHeader_handler this ec s =
     (if \<not> failed ec then
        let sz = hdr_size (header (msgTemporaryIn (heap s this)))
        in if sz > 0 then
             ReadBody this (on_conn this (\<lambda>c. c\<lparr>msgTemporaryIn :=
               (msgTemporaryIn c)\<lparr>body := vec_resize (body (msgTemporaryIn c)) (unat sz)\<rparr>\<rparr>) s)
           else AddToIncomingMessageQueue this s
      else socket_close this (print (tagged (heap s this) ''Read Header Fail.'') s))"

definition ReadBody_handler :: "nat \<Rightarrow> error_code \<Rightarrow> 'a process_scheme \<Rightarrow> 'a process_scheme" where
  "ReadBody_handler this ec s =
     (if \<not> failed ec then AddToIncomingMessageQueue this s
      else socket_close this (print (tagged (heap s this) ''Read Body Fail.'') s))"

text \<open>\<open>WriteHeader\<close> and \<open>WriteBody\<close> take the front of the outgoing queue, which must not be empty.\<close>

definition WriteHeader :: "nat \<Rightarrow> 'a process_scheme \<Rightarrow> fault + 'a process_scheme" where
  "WriteHeader this s =
     bind_res (tsq_front (qMessagesOut (heap s this)))
       (\<lambda>m. Inr (start_op this (WriteHeaderOp (header_bytes (header m))) s))"

definition WriteBody :: "nat \<Rightarrow> 'a process_scheme \<Rightarrow> fault + 'a process_scheme" where
  "WriteBody this s =
     bind_res (tsq_front (qMessagesOut (heap s this)))
       (\<lambda>m. Inr (start_op this (WriteBodyOp (body m)) s))"

text \<open>The common end of the two write handlers: drop the message that was sent and go on with the
  next one.\<close>

definition pop_and_continue :: "nat \<Rightarrow> 'a process_scheme \<Rightarrow> fault + 'a process_scheme" where
  "pop_and_continue this s =
     bind_res (tsq_pop_front (qMessagesOut (heap s this)))
       (\<lambda>(m, q). let s1 = on_conn this (\<lambda>c. c\<lparr>qMessagesOut := q\<rparr>) s
                 in if \<not> tsq_empty q then WriteHeader this s1 else Inr s1)"

definition WriteHeader_handler :: "nat \<Rightarrow> error_code \<Rightarrow> 'a process_scheme \<Rightarrow> fault + 'a process_scheme" where
  "WriteHeader_handler this ec s =
     (if \<not> failed ec then
        bind_res (tsq_front (qMessagesOut (heap s this)))
          (\<lambda>m. if length (body m) > 0 then WriteBody this s else pop_and_continue this s)
      else Inr (socket_close this (print (tagged (heap s this) ''Write Header Fail.'') s)))"

definition WriteBody_handler :: "nat \<Rightarrow> error_code \<Rightarrow> 'a process_scheme \<Rightarrow> fault + 'a process_scheme" where
  "WriteBody_handler this ec s =
     (if \<not> failed ec then pop_and_continue this s
      else Inr (socket_close this (print (tagged (heap s this) ''Write Body Fail.'') s)))"

text \<open>\<open>Send\<close> posts a function object; \<open>Send_task\<close> is its body, run later by the event loop.\<close>

definition Send :: "nat \<Rightarrow> messageBody \<Rightarrow> 'a process_scheme \<Rightarrow> 'a process_scheme" where
  "Send this m s = post (SendTask this m) s"

definition Send_task :: "nat \<Rightarrow> messageBody \<Rightarrow> 'a process_scheme \<Rightarrow> fault + 'a process_scheme" where
  "Send_task this m s =
     (let bWritingMessage = \<not> tsq_empty (qMessagesOut (heap s this));
          s1 = on_conn this (\<lambda>c. c\<lparr>qMessagesOut := tsq_push_back (qMessagesOut c) m\<rparr>) s
      in if \<not> bWritingMessage then WriteHeader this s1 else Inr s1)"

definition Disconnect :: "nat \<Rightarrow> 'a process_scheme \<Rightarrow> 'a process_scheme" where
  "Disconnect this s = (if IsConnected this s then post (CloseTask this) s else s)"

definition ConnectToClient :: "nat \<Rightarrow> u32 \<Rightarrow> 'a process_scheme \<Rightarrow> 'a process_scheme" where
  "ConnectToClient this uid s =
     (if nOwnerType (heap s this) = owner_server then
        (if sock_open (heap s this) then ReadHeader this (on_conn this (\<lambda>c. c\<lparr>conn_id := uid\<rparr>) s)
         else s)
      else s)"

text \<open>
  \<open>async_connect\<close> opens the socket for the first endpoint before it returns; \<open>opens\<close> tells whether
  the system gave it a socket.
\<close>

definition ConnectionToServer :: "nat \<Rightarrow> bool \<Rightarrow> 'a process_scheme \<Rightarrow> 'a process_scheme" where
  "ConnectionToServer this opens s =
     (if nOwnerType (heap s this) = owner_client
      then start_op this ConnectOp (on_conn this (\<lambda>c. c\<lparr>sock_open := opens\<rparr>) s)
      else s)"

definition Connect_handler :: "nat \<Rightarrow> error_code \<Rightarrow> 'a process_scheme \<Rightarrow> 'a process_scheme" where
  "Connect_handler this ec s = (if \<not> failed ec then ReadHeader this s else s)"

lemmas [conn_defs] =
  GetID_def IsConnected_def ReadHeader_def ReadBody_def AddToIncomingMessageQueue_def
  ReadHeader_handler_def ReadBody_handler_def WriteHeader_def WriteBody_def pop_and_continue_def
  WriteHeader_handler_def WriteBody_handler_def Send_def Send_task_def Disconnect_def
  ConnectToClient_def ConnectionToServer_def Connect_handler_def socket_close_def

lemmas prim_defs = on_conn_def start_op_def post_def print_def

section \<open>The event loop\<close>

text \<open>
  A completed read has stored its bytes in the buffer it was given: the header of \<open>msgTemporaryIn\<close>
  or its body. Both keep their old bytes where nothing arrived.
\<close>

definition overwrite :: "bytes \<Rightarrow> bytes \<Rightarrow> bytes" where
  "overwrite d mem = d @ drop (length d) mem"

definition store_header :: "nat \<Rightarrow> bytes \<Rightarrow> 'a process_scheme \<Rightarrow> 'a process_scheme" where
  "store_header this d = on_conn this (\<lambda>c. c\<lparr>sock_rx := sock_rx c @ d,
     msgTemporaryIn := (msgTemporaryIn c)\<lparr>header :=
       header_of_bytes (overwrite d (header_bytes (header (msgTemporaryIn c))))\<rparr>\<rparr>)"

definition store_body :: "nat \<Rightarrow> bytes \<Rightarrow> 'a process_scheme \<Rightarrow> 'a process_scheme" where
  "store_body this d = on_conn this (\<lambda>c. c\<lparr>sock_rx := sock_rx c @ d,
     msgTemporaryIn := (msgTemporaryIn c)\<lparr>body := overwrite d (body (msgTemporaryIn c))\<rparr>\<rparr>)"

definition transmit :: "nat \<Rightarrow> bytes \<Rightarrow> 'a process_scheme \<Rightarrow> 'a process_scheme" where
  "transmit this d = on_conn this (\<lambda>c. c\<lparr>sock_tx := sock_tx c @ d\<rparr>)"

text \<open>\<open>d\<close> is what the transfer moved.\<close>

fun complete_op :: "nat \<Rightarrow> io_op \<Rightarrow> error_code \<Rightarrow> bytes \<Rightarrow> 'a process_scheme \<Rightarrow> fault + 'a process_scheme" where
  "complete_op this ReadHeaderOp ec d s = Inr (ReadHeader_handler this ec (store_header this d s))"
| "complete_op this (ReadBodyOp n) ec d s = Inr (ReadBody_handler this ec (store_body this d s))"
| "complete_op this (WriteHeaderOp bs) ec d s = WriteHeader_handler this ec (transmit this d s)"
| "complete_op this (WriteBodyOp bs) ec d s = WriteBody_handler this ec (transmit this d s)"
| "complete_op this ConnectOp ec d s = Inr (Connect_handler this ec s)"

fun run_task :: "task \<Rightarrow> 'a process_scheme \<Rightarrow> fault + 'a process_scheme" where
  "run_task (SendTask p m) s = Send_task p m s"
| "run_task (CloseTask p) s = Inr (socket_close p s)"

text \<open>The completions a started operation can have: those of a composed transfer of its size.\<close>

fun op_outcome :: "io_op \<Rightarrow> error_code \<Rightarrow> bytes \<Rightarrow> bool" where
  "op_outcome ReadHeaderOp ec d \<longleftrightarrow> transfer_outcome sizeof_messageHeader ec (length d)"
| "op_outcome (ReadBodyOp n) ec d \<longleftrightarrow> transfer_outcome n ec (length d)"
| "op_outcome (WriteHeaderOp bs) ec d \<longleftrightarrow> transfer_outcome (length bs) ec (length d) \<and> d = take (length d) bs"
| "op_outcome (WriteBodyOp bs) ec d \<longleftrightarrow> transfer_outcome (length bs) ec (length d) \<and> d = take (length d) bs"
| "op_outcome ConnectOp ec d \<longleftrightarrow> d = []"

datatype event =
    Call_Send nat messageBody
  | Call_Disconnect nat
  | Run_task
  | Complete nat error_code bytes

definition remove_nth :: "nat \<Rightarrow> 'b list \<Rightarrow> 'b list" where
  "remove_nth i xs = take i xs @ drop (Suc i) xs"

fun enabled :: "event \<Rightarrow> 'a process_scheme \<Rightarrow> bool" where
  "enabled (Call_Send p m) s \<longleftrightarrow> True"
| "enabled (Call_Disconnect p) s \<longleftrightarrow> True"
| "enabled Run_task s \<longleftrightarrow> tasks s \<noteq> []"
| "enabled (Complete i ec d) s \<longleftrightarrow> i < length (started s) \<and>
     (case started s ! i of (p, op, live) \<Rightarrow>
        op_outcome op ec d \<and> (\<not> live \<longrightarrow> failed ec \<and> d = []))"

fun exec_event :: "event \<Rightarrow> 'a process_scheme \<Rightarrow> fault + 'a process_scheme" where
  "exec_event (Call_Send p m) s = Inr (Send p m s)"
| "exec_event (Call_Disconnect p) s = Inr (Disconnect p s)"
| "exec_event Run_task s =
     (case tasks s of [] \<Rightarrow> Inr s | t # ts \<Rightarrow> run_task t (s\<lparr>tasks := ts\<rparr>))"
| "exec_event (Complete i ec d) s =
     (case started s ! i of (p, op, live) \<Rightarrow>
        complete_op p op ec d (s\<lparr>started := remove_nth i (started s)\<rparr>))"

text \<open>A run that takes only enabled events.\<close>

fun run_events :: "event list \<Rightarrow> 'a process_scheme \<Rightarrow> fault + 'a process_scheme" where
  "run_events [] s = Inr s"
| "run_events (e # es) s = bind_res (exec_event e s) (run_events es)"

fun possible :: "event list \<Rightarrow> 'a process_scheme \<Rightarrow> bool" where
  "possible [] s \<longleftrightarrow> True"
| "possible (e # es) s \<longleftrightarrow> enabled e s \<and>
     (case exec_event e s of Inl f \<Rightarrow> True | Inr t \<Rightarrow> possible es t)"

section \<open>Effects of the primitives\<close>

lemma prim_heap [simp]:
  "heap (on_conn p f s) q = (if q = p then f (heap s p) else heap s q)"
  "heap (start_op p op s) = heap s"
  "heap (post t s) = heap s"
  "heap (print l s) = heap s"
  by (simp_all add: prim_defs)

lemma prim_inbox [simp]:
  "qMessagesIn (on_conn p f s) = qMessagesIn s"
  "qMessagesIn (start_op p op s) = qMessagesIn s"
  "qMessagesIn (post t s) = qMessagesIn s"
  "qMessagesIn (print l s) = qMessagesIn s"
  by (simp_all add: prim_defs)

lemma prim_tasks [simp]:
  "tasks (on_conn p f s) = tasks s"
  "tasks (start_op p op s) = tasks s"
  "tasks (post t s) = tasks s @ [t]"
  "tasks (print l s) = tasks s"
  by (simp_all add: prim_defs)

lemma prim_started [simp]:
  "started (on_conn p f s) = started s"
  "started (start_op p op s) = started s @ [(p, op, sock_open (heap s p))]"
  "started (post t s) = started s"
  "started (print l s) = started s"
  by (simp_all add: prim_defs)

text \<open>The operations of one kind that a connection has in flight, oldest first.\<close>

definition ops_of :: "(io_op \<Rightarrow> bool) \<Rightarrow> nat \<Rightarrow> (nat \<times> io_op \<times> bool) list \<Rightarrow> io_op list" where
  "ops_of P p xs = map (\<lambda>(q, op, live). op) (filter (\<lambda>(q, op, live). q = p \<and> P op) xs)"

lemma ops_of_append [simp]: "ops_of P p (xs @ ys) = ops_of P p xs @ ops_of P p ys"
  by (simp add: ops_of_def)

lemma ops_of_simps [simp]:
  "ops_of P p [] = []"
  "ops_of P p ((q, op, live) # xs) = (if q = p \<and> P op then op # ops_of P p xs else ops_of P p xs)"
  by (simp_all add: ops_of_def)

lemma ops_of_remove:
  assumes "i < length xs" and "xs ! i = (q, op, live)"
  shows "\<not> (q = p \<and> P op) \<Longrightarrow> ops_of P p (remove_nth i xs) = ops_of P p xs"
    and "q = p \<Longrightarrow> P op \<Longrightarrow> ops_of P p xs = [op'] \<Longrightarrow> op' = op \<and> ops_of P p (remove_nth i xs) = []"
proof -
  have split: "ops_of P p xs = ops_of P p (take i xs) @ ops_of P p [(q, op, live)] @ ops_of P p (drop (Suc i) xs)"
    using id_take_nth_drop [OF assms(1)] assms(2)
    by (metis append_Cons append_Nil ops_of_append)
  show "\<not> (q = p \<and> P op) \<Longrightarrow> ops_of P p (remove_nth i xs) = ops_of P p xs"
    by (simp add: split remove_nth_def)
  show "q = p \<Longrightarrow> P op \<Longrightarrow> ops_of P p xs = [op'] \<Longrightarrow> op' = op \<and> ops_of P p (remove_nth i xs) = []"
    by (auto simp: split remove_nth_def append_eq_Cons_conv)
qed

lemma ops_of_present:
  assumes "i < length xs" and "xs ! i = (p, op, live)" and "P op"
  shows "ops_of P p xs \<noteq> []"
proof -
  have "(p, op, live) \<in> set xs" using assms(1,2) nth_mem by metis
  with assms(3) show ?thesis by (force simp: ops_of_def filter_empty_conv)
qed

text \<open>A handler of one connection leaves every other one alone.\<close>

lemma complete_op_other:
  assumes "complete_op q op ec d s = Inr t" and "p \<noteq> q"
  shows "heap t p = heap s p \<and> ops_of P p (started t) = ops_of P p (started s)"
  using assms
  by (cases op)
    (auto simp: conn_defs store_header_def store_body_def transmit_def bind_res_Inr_iff Let_def
      split: if_splits owner.splits)

lemma run_task_other:
  assumes "run_task tk s = Inr t" and "case tk of SendTask q m \<Rightarrow> p \<noteq> q | CloseTask q \<Rightarrow> p \<noteq> q"
  shows "heap t p = heap s p \<and> ops_of P p (started t) = ops_of P p (started s)"
  using assms
  by (cases tk) (auto simp: conn_defs bind_res_Inr_iff Let_def split: if_splits)

end
