(* ===== verification/Framing.thy ===== *)
theory Framing
  imports Message
begin

text \<open>
  The byte stream between two connections, as an abstract specification: \<open>frame\<close> is what a writer
  puts on the wire for one message, \<open>decode\<close> what a reader makes of a stream. The reader keeps one
  message object, \<open>t\<close>, and a message without body leaves the previous body in it, as the code does.
  The theories \<^verbatim>\<open>Connection_Writer\<close> and \<^verbatim>\<open>Connection_Reader\<close> show that the handlers implement them.
\<close>

section \<open>Frames\<close>

definition frame :: "messageBody \<Rightarrow> bytes" where
  "frame m = header_bytes (header m) @ body m"

definition frames :: "messageBody list \<Rightarrow> bytes" where
  "frames ms = concat (map frame ms)"

lemma frames_simps [simp]:
  "frames [] = []" "frames (m # ms) = frame m @ frames ms" "frames (ms @ ns) = frames ms @ frames ns"
  by (simp_all add: frames_def)

lemma length_frame: "length (frame m) = sizeof_messageHeader + length (body m)"
  by (simp add: frame_def)

text \<open>The wire size of a message is what \<open>size()\<close> returns.\<close>

lemma length_frame_msg_size: "length (frame m) = msg_size m"
  by (simp add: length_frame msg_size_def)

section \<open>Decoding\<close>

function decode :: "messageBody \<Rightarrow> bytes \<Rightarrow> messageBody list \<times> messageBody \<times> bytes" where
  "decode t bs =
     (if length bs < sizeof_messageHeader then ([], t, bs)
      else
        let h = header_of_bytes (take sizeof_messageHeader bs);
            rest = drop sizeof_messageHeader bs;
            n = unat (hdr_size h)
        in if length rest < n then ([], t, bs)
           else
             let t1 = \<lparr>header = h, body = (if n = 0 then body t else take n rest)\<rparr>;
                 (ms, t2, r) = decode t1 (drop n rest)
             in (t1 # ms, t2, r))"
  by pat_completeness auto
termination
  by (relation "measure (\<lambda>(t, bs). length bs)") (auto simp: sizeof_messageHeader_def)

declare decode.simps [simp del]

definition decoded :: "messageBody \<Rightarrow> bytes \<Rightarrow> messageBody list" where
  "decoded t bs = fst (decode t bs)"

lemma decode_short: "length bs < sizeof_messageHeader \<Longrightarrow> decode t bs = ([], t, bs)"
  by (subst decode.simps) simp

lemma decode_waiting:
  assumes "length hb = sizeof_messageHeader" and "length rest < unat (hdr_size (header_of_bytes hb))"
  shows "decode t (hb @ rest) = ([], t, hb @ rest)"
  using assms by (subst decode.simps) (simp add: Let_def)

lemma decode_message:
  assumes "length hb = sizeof_messageHeader" and "length b = unat (hdr_size (header_of_bytes hb))"
  shows "decode t (hb @ b @ rest) =
    (let t1 = \<lparr>header = header_of_bytes hb, body = (if b = [] then body t else b)\<rparr>;
         (ms, t2, r) = decode t1 rest
     in (t1 # ms, t2, r))"
proof (cases "b = []")
  case True
  with assms show ?thesis by (subst decode.simps) (simp add: Let_def)
next
  case False
  with assms(2) have "unat (hdr_size (header_of_bytes hb)) \<noteq> 0" by (cases b) auto
  with assms False show ?thesis by (subst decode.simps) (simp add: Let_def del: unat_eq_zero)
qed

text \<open>Decoding is incremental: what was left over is decoded together with what comes next.\<close>

lemma decode_cases:
  obtains (short) "length bs < sizeof_messageHeader"
  | (waiting) hb rest where "bs = hb @ rest" "length hb = sizeof_messageHeader"
      "length rest < unat (hdr_size (header_of_bytes hb))"
  | (message) hb b rest where "bs = hb @ b @ rest" "length hb = sizeof_messageHeader"
      "length b = unat (hdr_size (header_of_bytes hb))"
proof (cases "length bs < sizeof_messageHeader")
  case True
  then show ?thesis by (rule short)
next
  case False
  let ?hb = "take sizeof_messageHeader bs" and ?rest = "drop sizeof_messageHeader bs"
  let ?n = "unat (hdr_size (header_of_bytes ?hb))"
  have hb: "length ?hb = sizeof_messageHeader" using False by simp
  show ?thesis
  proof (cases "length ?rest < ?n")
    case True
    then show ?thesis using waiting [of ?hb ?rest] hb by simp
  next
    case False
    have "?hb @ take ?n ?rest @ drop ?n ?rest = bs" by (simp only: append_take_drop_id)
    with False message [of ?hb "take ?n ?rest" "drop ?n ?rest"] hb show ?thesis by simp
  qed
qed

lemma decode_append:
  "decode t bs = (ms, t1, r) \<Longrightarrow> decode t1 (r @ xs) = (ms', t2, r') \<Longrightarrow>
     decode t (bs @ xs) = (ms @ ms', t2, r')"
proof (induction "length bs" arbitrary: t bs ms rule: less_induct)
  case less
  show ?case
  proof (cases bs rule: decode_cases)
    case short
    with less.prems show ?thesis by (simp add: decode_short)
  next
    case (waiting hb rest)
    with less.prems decode_waiting [of hb rest t] show ?thesis by simp
  next
    case (message hb b rest)
    let ?t1 = "\<lparr>header = header_of_bytes hb, body = (if b = [] then body t else b)\<rparr>"
    obtain ns u s where rec: "decode ?t1 rest = (ns, u, s)" by (cases "decode ?t1 rest") auto
    have "ms = ?t1 # ns" and "t1 = u" and "r = s"
      using less.prems(1) decode_message [OF message(2,3), of t rest] message(1) rec by auto
    moreover have "length rest < length bs"
      using message by (simp add: sizeof_messageHeader_def)
    ultimately have "decode ?t1 (rest @ xs) = (ns @ ms', t2, r')"
      using less.hyps rec less.prems(2) by blast
    then show ?thesis
      using decode_message [OF message(2,3), of t "rest @ xs"] message(1) \<open>ms = ?t1 # ns\<close> by simp
  qed
qed

lemma decoded_prefix_append: "\<exists>more. decoded t (bs @ xs) = decoded t bs @ more"
proof -
  obtain ms t1 r where d: "decode t bs = (ms, t1, r)" by (cases "decode t bs") auto
  obtain ms' t2 r' where d': "decode t1 (r @ xs) = (ms', t2, r')" by (cases "decode t1 (r @ xs)") auto
  show ?thesis using decode_append [OF d d'] d by (simp add: decoded_def)
qed

section \<open>Well-framed messages\<close>

text \<open>A message survives the trip when its size field counts the body alone.\<close>

definition well_framed :: "messageBody \<Rightarrow> bool" where
  "well_framed m \<longleftrightarrow> unat (hdr_size (header m)) = length (body m)"

text \<open>What the receiver makes of a well-framed message, given the last one it completed.\<close>

definition received_as :: "messageBody \<Rightarrow> messageBody \<Rightarrow> messageBody" where
  "received_as t m = m\<lparr>body := (if body m = [] then body t else body m)\<rparr>"

lemma decode_frame:
  assumes "well_framed m"
  shows "decode t (frame m @ rest) =
    (let (ms, t2, r) = decode (received_as t m) rest in (received_as t m # ms, t2, r))"
proof -
  have "\<lparr>header = header m, body = (if body m = [] then body t else body m)\<rparr> = received_as t m"
    by (cases m) (simp add: received_as_def)
  with decode_message [of "header_bytes (header m)" "body m" t rest] assms show ?thesis
    by (simp add: frame_def well_framed_def Let_def)
qed

text \<open>Every message carries a body: the stream decodes to the messages sent.\<close>

lemma decode_frames:
  "\<forall>m \<in> set ms. well_framed m \<and> body m \<noteq> [] \<Longrightarrow>
     decode t (frames ms) = (ms, if ms = [] then t else last ms, [])"
proof (induction ms arbitrary: t)
  case Nil
  then show ?case by (simp add: decode_short sizeof_messageHeader_def)
next
  case (Cons m ms)
  then have "received_as t m = m" by (simp add: received_as_def)
  with Cons show ?case by (simp add: decode_frame)
qed

text \<open>A run of messages without body on a fresh connection.\<close>

lemma decode_frames_empty:
  "body t = [] \<Longrightarrow> \<forall>m \<in> set ms. well_framed m \<and> body m = [] \<Longrightarrow> decoded t (frames ms) = ms"
proof (induction ms arbitrary: t)
  case Nil
  then show ?case by (simp add: decoded_def decode_short sizeof_messageHeader_def)
next
  case (Cons m ms)
  then have "received_as t m = m" by (simp add: received_as_def)
  with Cons.IH [of m] Cons.prems show ?case
    by (simp add: decode_frame decoded_def split_beta Let_def)
qed

section \<open>What the stream operators produce\<close>

text \<open>
  Pushing data with \<open><<\<close> sets the size field to header plus body, so the receiver waits for eight
  bytes that belong to the next message, or never come.
\<close>

definition pushed_size_fits :: "messageBody \<Rightarrow> bool" where
  "pushed_size_fits m \<longleftrightarrow> msg_size m < 2 ^ 32"

lemma size_field_of_pushed:
  assumes "size_in_step m" and "pushed_size_fits m"
  shows "unat (hdr_size (header m)) = sizeof_messageHeader + length (body m)"
proof -
  have "unat (word_of_nat (msg_size m) :: u32) = msg_size m"
    using assms(2) by (simp add: pushed_size_fits_def unat_of_nat)
  with assms(1) show ?thesis by (simp add: size_in_step_def msg_size_def)
qed

lemma pushed_not_well_framed:
  assumes "size_in_step m" and "pushed_size_fits m"
  shows "\<not> well_framed m"
  using size_field_of_pushed [OF assms] by (simp add: well_framed_def sizeof_messageHeader_def)

lemma decode_pushed_alone:
  assumes "size_in_step m" and "pushed_size_fits m"
  shows "decode t (frame m) = ([], t, frame m)"
  using decode_waiting [of "header_bytes (header m)" "body m" t] size_field_of_pushed [OF assms]
  by (simp add: frame_def sizeof_messageHeader_def)

lemma decode_pushed_steals:
  assumes "size_in_step m" and "pushed_size_fits m" and "length stolen = sizeof_messageHeader"
  shows "decode t (frame m @ stolen @ rest) =
    (let t1 = m\<lparr>body := body m @ stolen\<rparr>; (ms, t2, r) = decode t1 rest in (t1 # ms, t2, r))"
proof -
  have nonempty: "body m @ stolen \<noteq> []" using assms(3) by (auto simp: sizeof_messageHeader_def)
  have "\<lparr>header = header m, body = body m @ stolen\<rparr> = m\<lparr>body := body m @ stolen\<rparr>"
    by (cases m) simp
  then have obj: "\<lparr>header = header m, body = (if body m @ stolen = [] then body t else body m @ stolen)\<rparr> =
      m\<lparr>body := body m @ stolen\<rparr>"
    by (simp only: nonempty if_False)
  have "decode t (header_bytes (header m) @ (body m @ stolen) @ rest) =
    (let t1 = m\<lparr>body := body m @ stolen\<rparr>; (ms, t2, r) = decode t1 rest in (t1 # ms, t2, r))"
    using size_field_of_pushed [OF assms(1,2)] assms(3)
    by (subst decode_message) (simp_all only: header_of_header_bytes length_header_bytes
        length_append obj add.commute)
  then show ?thesis by (simp only: frame_def append_assoc)
qed

section \<open>Properties\<close>

text \<open>
  The eight bytes that follow a pushed message, which are the header of the next one, are
  delivered as the end of its body, and the stream goes on being read from behind them.
\<close>

theorem pushed_message_steals_header:
  assumes "msg_size (msg_push m d) < 2 ^ 32"
  shows "decode t (frame (msg_push m d) @ frame m' @ rest) =
    (let t1 = (msg_push m d)\<lparr>body := body m @ d @ header_bytes (header m')\<rparr>;
         (ms, t2, r) = decode t1 (body m' @ rest)
     in (t1 # ms, t2, r))"
  using decode_pushed_steals [of "msg_push m d" "header_bytes (header m')" t "body m' @ rest"] assms
  by (simp add: pushed_size_fits_def frame_def Let_def)

theorem pushed_message_steals_header_witness:
  "decoded messageBody_init (frame (msg_push messageBody_init [9]) @ frame messageBody_init @ []) =
     [(msg_push messageBody_init [9])\<lparr>body := 9 # header_bytes messageHeader_init\<rparr>]"
  using pushed_message_steals_header [of messageBody_init "[9]" messageBody_init messageBody_init "[]"]
  by (simp add: decoded_def msg_size_def sizeof_messageHeader_def messageBody_init_def Let_def decode_short)

end
