(* ===== verification/Connection_Writer.thy ===== *)
theory Connection_Writer
  imports Connection Framing
begin

text \<open>
  The sending half of a connection. The invariant \<open>writer_ok p st\<close> relates the socket, the outgoing
  queue and the write operation in flight to \<open>st\<close>, the frames of all messages the connection was
  given so far: at most one write is in flight, and what the socket has sent is a prefix of \<open>st\<close>
  with the rest accounted for by the operation and the queue.
\<close>

section \<open>Invariant\<close>

fun is_write :: "io_op \<Rightarrow> bool" where
  "is_write (WriteHeaderOp bs) = True"
| "is_write (WriteBodyOp bs) = True"
| "is_write op = False"

fun writer_phase :: "io_op list \<Rightarrow> connection \<Rightarrow> bytes \<Rightarrow> bool" where
  "writer_phase [] c st \<longleftrightarrow>
     (if deqQueue (qMessagesOut c) = [] then sock_tx c = st
      else \<not> sock_open c \<and> prefix (sock_tx c) st)"
| "writer_phase [WriteHeaderOp hb] c st \<longleftrightarrow>
     (\<exists>m q. deqQueue (qMessagesOut c) = m # q \<and> hb = header_bytes (header m) \<and>
        sock_tx c @ frames (m # q) = st)"
| "writer_phase [WriteBodyOp b] c st \<longleftrightarrow>
     (\<exists>m q. deqQueue (qMessagesOut c) = m # q \<and> b = body m \<and> b \<noteq> [] \<and>
        sock_tx c @ b @ frames q = st)"
| "writer_phase ops c st \<longleftrightarrow> False"

definition writer_ok :: "nat \<Rightarrow> bytes \<Rightarrow> 'a process_scheme \<Rightarrow> bool" where
  "writer_ok p st s \<longleftrightarrow> writer_phase (ops_of is_write p (started s)) (heap s p) st"

lemma writer_phase_cong:
  assumes "qMessagesOut c' = qMessagesOut c" and "sock_tx c' = sock_tx c"
    and "sock_open c' \<longrightarrow> sock_open c"
  shows "writer_phase ops c st \<Longrightarrow> writer_phase ops c' st"
  using assms by (cases "(ops, c, st)" rule: writer_phase.cases) (auto split: if_splits)

lemma writer_phase_one:
  assumes "writer_phase ops c st"
  obtains "ops = []" | hb where "ops = [WriteHeaderOp hb]" | b where "ops = [WriteBodyOp b]"
  using assms by (cases "(ops, c, st)" rule: writer_phase.cases) auto

lemma writer_ok_at_most_one: "writer_ok p st s \<Longrightarrow> length (ops_of is_write p (started s)) \<le> 1"
  unfolding writer_ok_def by (erule writer_phase_one) simp_all

lemma writer_ok_prefix:
  assumes "writer_ok p st s"
  shows "prefix (sock_tx (heap s p)) st"
  using assms unfolding writer_ok_def
  by (cases "(ops_of is_write p (started s), heap s p, st)" rule: writer_phase.cases)
    (auto split: if_splits intro: prefixI)

section \<open>Steps\<close>

text \<open>The bytes a step adds to the stream: the frame of the message whose send task runs.\<close>

fun sent_now :: "nat \<Rightarrow> event \<Rightarrow> 'a process_scheme \<Rightarrow> messageBody list" where
  "sent_now p Run_task s = (case tasks s of SendTask q m # ts \<Rightarrow> if q = p then [m] else [] | _ \<Rightarrow> [])"
| "sent_now p e s = []"

lemma WriteHeader_ok:
  assumes "deqQueue (qMessagesOut (heap s p)) = m # q" and "ops_of is_write p (started s) = []"
    and "sock_tx (heap s p) @ frames (m # q) = st"
  shows "\<exists>t. WriteHeader p s = Inr t \<and> writer_ok p st t"
  using assms by (simp add: WriteHeader_def tsq_front_Cons writer_ok_def)

lemma Send_task_writer:
  assumes "writer_ok p st s"
  shows "\<exists>t. Send_task p m s = Inr t \<and> writer_ok p (st @ frame m) t"
proof (cases "deqQueue (qMessagesOut (heap s p)) = []")
  case True
  with assms have none: "ops_of is_write p (started s) = []" and tx: "sock_tx (heap s p) = st"
    unfolding writer_ok_def
    by (cases "(ops_of is_write p (started s), heap s p, st)" rule: writer_phase.cases; simp)+
  let ?s = "on_conn p (\<lambda>c. c\<lparr>qMessagesOut := tsq_push_back (qMessagesOut c) m\<rparr>) s"
  have "\<exists>t. WriteHeader p ?s = Inr t \<and> writer_ok p (st @ frame m) t"
    by (rule WriteHeader_ok [of _ _ m "[]"]) (simp_all add: True none tx)
  with True show ?thesis by (simp add: Send_task_def Let_def)
next
  case False
  let ?s = "on_conn p (\<lambda>c. c\<lparr>qMessagesOut := tsq_push_back (qMessagesOut c) m\<rparr>) s"
  have "writer_ok p (st @ frame m) ?s"
    using assms False unfolding writer_ok_def
    by (cases "(ops_of is_write p (started s), heap s p, st)" rule: writer_phase.cases) auto
  with False show ?thesis by (simp add: Send_task_def Let_def)
qed

lemma pop_and_continue_writer:
  assumes "deqQueue (qMessagesOut (heap s p)) = m # q" and "ops_of is_write p (started s) = []"
    and "sock_tx (heap s p) @ frames q = st"
  shows "\<exists>t. pop_and_continue p s = Inr t \<and> writer_ok p st t"
proof -
  let ?q = "(qMessagesOut (heap s p))\<lparr>deqQueue := q\<rparr>"
  let ?s = "on_conn p (\<lambda>c. c\<lparr>qMessagesOut := ?q\<rparr>) s"
  show ?thesis
  proof (cases q)
    case Nil
    with assms show ?thesis
      by (simp add: pop_and_continue_def tsq_pop_front_Cons writer_ok_def)
  next
    case (Cons m' q')
    have "\<exists>t. WriteHeader p ?s = Inr t \<and> writer_ok p st t"
      by (rule WriteHeader_ok [of _ _ m' q']) (use assms Cons in simp_all)
    with assms Cons show ?thesis by (simp add: pop_and_continue_def tsq_pop_front_Cons)
  qed
qed

lemma failed_write_writer:
  assumes "deqQueue (qMessagesOut (heap s p)) \<noteq> []" and "ops_of is_write p (started s) = []"
    and "prefix (sock_tx (heap s p)) st"
  shows "writer_ok p st (socket_close p (print l s))"
  using assms by (simp add: writer_ok_def socket_close_def)

lemma WriteHeader_handler_writer:
  assumes q: "deqQueue (qMessagesOut (heap s p)) = m # q" and "ops_of is_write p (started s) = []"
    and st: "sock_tx (heap s p) @ frames (m # q) = st"
    and out: "transfer_outcome (length (header_bytes (header m))) ec (length d)"
    and d: "d = take (length d) (header_bytes (header m))"
  shows "\<exists>t. WriteHeader_handler p ec (transmit p d s) = Inr t \<and> writer_ok p st t"
proof (cases "failed ec")
  case True
  have "header_bytes (header m) = d @ drop (length d) (header_bytes (header m))"
    using d by (metis append_take_drop_id)
  then have "st = (sock_tx (heap s p) @ d) @ drop (length d) (header_bytes (header m)) @ body m @ frames q"
    using st by (metis append.assoc frame_def frames_simps(2))
  then have "prefix (sock_tx (heap (transmit p d s) p)) st"
    by (auto simp: transmit_def)
  with True failed_write_writer [of "transmit p d s" p st] assms(1,2) show ?thesis
    by (simp add: WriteHeader_handler_def transmit_def)
next
  case False
  then have whole: "d = header_bytes (header m)" using out d by (simp add: transfer_outcome_def)
  show ?thesis
  proof (cases "body m = []")
    case True
    then have fr: "frame m = d" by (simp add: frame_def whole)
    have "\<exists>t. pop_and_continue p (transmit p d s) = Inr t \<and> writer_ok p st t"
      by (rule pop_and_continue_writer) (use assms(1,2) st fr in \<open>simp_all add: transmit_def\<close>)
    with False True q show ?thesis
      by (simp add: WriteHeader_handler_def transmit_def tsq_front_Cons)
  next
    case nonempty: False
    with False assms(1,2) st show ?thesis
      by (simp add: WriteHeader_handler_def WriteBody_def transmit_def tsq_front_Cons writer_ok_def
          frame_def whole)
  qed
qed

lemma WriteBody_handler_writer:
  assumes q: "deqQueue (qMessagesOut (heap s p)) = m # q" and "ops_of is_write p (started s) = []"
    and st: "sock_tx (heap s p) @ body m @ frames q = st"
    and out: "transfer_outcome (length (body m)) ec (length d)"
    and d: "d = take (length d) (body m)"
  shows "\<exists>t. WriteBody_handler p ec (transmit p d s) = Inr t \<and> writer_ok p st t"
proof (cases "failed ec")
  case True
  have "body m = d @ drop (length d) (body m)"
    using d by (metis append_take_drop_id)
  then have "st = (sock_tx (heap s p) @ d) @ drop (length d) (body m) @ frames q"
    using st by (metis append.assoc)
  then have "prefix (sock_tx (heap (transmit p d s) p)) st"
    by (auto simp: transmit_def)
  with True failed_write_writer [of "transmit p d s" p st] assms(1,2) show ?thesis
    by (simp add: WriteBody_handler_def transmit_def)
next
  case False
  then have whole: "d = body m" using out d by (simp add: transfer_outcome_def)
  have "\<exists>t. pop_and_continue p (transmit p d s) = Inr t \<and> writer_ok p st t"
    by (rule pop_and_continue_writer) (use assms(1,2) st whole in \<open>simp_all add: transmit_def\<close>)
  with False show ?thesis by (simp add: WriteBody_handler_def)
qed

text \<open>The reading half and the connect handler do not touch what the invariant is about.\<close>

lemma other_ops_writer:
  assumes "writer_ok p st s" and "\<not> is_write op" and "complete_op p op ec d s = Inr t"
  shows "writer_ok p st t"
proof -
  have "ops_of is_write p (started t) = ops_of is_write p (started s)"
    and "qMessagesOut (heap t p) = qMessagesOut (heap s p)"
    and "sock_tx (heap t p) = sock_tx (heap s p)"
    and "sock_open (heap t p) \<longrightarrow> sock_open (heap s p)"
    using assms(2,3)
    by (cases op; auto simp: conn_defs store_header_def store_body_def Let_def split: if_splits owner.splits)+
  with assms(1) show ?thesis by (simp add: writer_ok_def writer_phase_cong)
qed

lemma write_completion_writer:
  assumes ok: "writer_ok p st s" and i: "i < length (started s)" "started s ! i = (p, op, live)"
    and w: "is_write op" and out: "op_outcome op ec d"
  shows "\<exists>t. complete_op p op ec d (s\<lparr>started := remove_nth i (started s)\<rparr>) = Inr t \<and> writer_ok p st t"
proof -
  let ?s = "s\<lparr>started := remove_nth i (started s)\<rparr>"
  have phase: "writer_phase (ops_of is_write p (started s)) (heap s p) st"
    using ok by (simp add: writer_ok_def)
  then obtain op' where one: "ops_of is_write p (started s) = [op']"
    using ops_of_present [where P = is_write, OF i w] by (elim writer_phase_one) auto
  with ops_of_remove(2) [where P = is_write, OF i refl w] have same: "op' = op"
    and none: "ops_of is_write p (started ?s) = []" by auto
  show ?thesis
  proof (cases op)
    case (WriteHeaderOp hb)
    with phase one same obtain m q where "deqQueue (qMessagesOut (heap s p)) = m # q"
      "hb = header_bytes (header m)" "sock_tx (heap s p) @ frames (m # q) = st" by auto
    with none out WriteHeaderOp WriteHeader_handler_writer [of ?s p m q st ec d] show ?thesis
      by simp
  next
    case (WriteBodyOp b)
    with phase one same obtain m q where "deqQueue (qMessagesOut (heap s p)) = m # q"
      "b = body m" "sock_tx (heap s p) @ body m @ frames q = st" by auto
    with none out WriteBodyOp WriteBody_handler_writer [of ?s p m q st ec d] show ?thesis
      by simp
  qed (use w in simp_all)
qed

lemma writer_ok_started_remove:
  assumes "i < length (started s)" and "started s ! i = (q, op, live)" and "\<not> (q = p \<and> is_write op)"
  shows "writer_ok p st (s\<lparr>started := remove_nth i (started s)\<rparr>) \<longleftrightarrow> writer_ok p st s"
  using ops_of_remove(1) [where P = is_write, OF assms] by (simp add: writer_ok_def)

text \<open>Nothing a send or a disconnect call of the application does matters before its task runs.\<close>

lemma frames_sent_now_other [simp]: "sent_now p (Call_Send q m) s = []" "sent_now p (Call_Disconnect q) s = []"
  "sent_now p (Complete i ec d) s = []"
  by simp_all

lemma writer_step:
  assumes ok: "writer_ok p st s" and en: "enabled e s" and ex: "exec_event e s = Inr t"
  shows "writer_ok p (st @ frames (sent_now p e s)) t"
proof (cases e)
  case (Call_Send q m)
  with ok ex show ?thesis by (auto simp: writer_ok_def Send_def)
next
  case (Call_Disconnect q)
  with ok ex show ?thesis by (auto simp: writer_ok_def Disconnect_def)
next
  case Run_task
  with en obtain tk ts where tk: "tasks s = tk # ts" by (cases "tasks s") auto
  let ?s = "s\<lparr>tasks := ts\<rparr>"
  have run: "run_task tk ?s = Inr t" using ex Run_task tk by simp
  have ok': "writer_ok p st ?s" using ok by (simp add: writer_ok_def)
  show ?thesis
  proof (cases tk)
    case (SendTask q m)
    show ?thesis
    proof (cases "q = p")
      case True
      with Send_task_writer [OF ok', of m] run SendTask tk Run_task show ?thesis by auto
    next
      case False
      with run_task_other [OF run, of p is_write] SendTask ok' tk Run_task show ?thesis
        by (auto simp: writer_ok_def)
    qed
  next
    case (CloseTask q)
    with run have "t = socket_close q ?s" by simp
    moreover have "writer_ok p st (socket_close q ?s)"
      using ok' unfolding writer_ok_def
      by (auto simp: socket_close_def elim!: writer_phase_cong [rotated 3])
    ultimately show ?thesis using CloseTask tk Run_task by simp
  qed
next
  case (Complete i ec d)
  with en obtain q op live where i: "i < length (started s)" "started s ! i = (q, op, live)"
    and out: "op_outcome op ec d" by (auto split: prod.splits)
  let ?s = "s\<lparr>started := remove_nth i (started s)\<rparr>"
  have run: "complete_op q op ec d ?s = Inr t" using ex Complete i by simp
  show ?thesis
  proof (cases "q = p \<and> is_write op")
    case True
    with write_completion_writer [OF ok i(1), of op live ec d] i out run Complete show ?thesis by auto
  next
    case False
    then have ok': "writer_ok p st ?s" using ok writer_ok_started_remove [OF i] by simp
    show ?thesis
    proof (cases "q = p")
      case True
      with other_ops_writer [OF ok'] False run Complete show ?thesis by simp
    next
      case False
      with complete_op_other [OF run, of p is_write] ok' Complete show ?thesis
        by (simp add: writer_ok_def)
    qed
  qed
qed

section \<open>Faults\<close>

text \<open>No handler ever looks at the front of an empty outgoing queue.\<close>

lemma no_fault_step:
  assumes ok: "\<forall>p. \<exists>st. writer_ok p st s" and en: "enabled e s"
  shows "\<exists>t. exec_event e s = Inr t"
proof (cases e)
  case Run_task
  with en obtain tk ts where tk: "tasks s = tk # ts" by (cases "tasks s") auto
  have ok': "\<exists>st. writer_ok p st (s\<lparr>tasks := ts\<rparr>)" for p using ok by (simp add: writer_ok_def)
  show ?thesis
  proof (cases tk)
    case (SendTask q m)
    with ok' [of q] Send_task_writer [of q _ "s\<lparr>tasks := ts\<rparr>" m] tk Run_task show ?thesis by fastforce
  qed (use tk Run_task in simp)
next
  case (Complete i ec d)
  with en obtain q op live where i: "i < length (started s)" "started s ! i = (q, op, live)"
    and out: "op_outcome op ec d" by (auto split: prod.splits)
  show ?thesis
  proof (cases "is_write op")
    case True
    from ok obtain st where "writer_ok q st s" by blast
    from write_completion_writer [OF this i True out] Complete i show ?thesis by auto
  next
    case False
    with Complete i show ?thesis by (cases op) auto
  qed
qed simp_all

section \<open>Runs\<close>

fun sent_in :: "nat \<Rightarrow> event list \<Rightarrow> 'a process_scheme \<Rightarrow> messageBody list" where
  "sent_in p [] s = []"
| "sent_in p (e # es) s =
     sent_now p e s @ (case exec_event e s of Inl f \<Rightarrow> [] | Inr t \<Rightarrow> sent_in p es t)"

lemma writer_run:
  "writer_ok p st s \<Longrightarrow> possible es s \<Longrightarrow> run_events es s = Inr t \<Longrightarrow>
     writer_ok p (st @ frames (sent_in p es s)) t"
proof (induction es arbitrary: st s)
  case Nil
  then show ?case by simp
next
  case (Cons e es)
  then obtain u where u: "exec_event e s = Inr u" "run_events es u = Inr t"
    by (auto simp: bind_res_Inr_iff)
  from Cons.prems u have "writer_ok p (st @ frames (sent_now p e s)) u"
    by (auto intro: writer_step)
  from Cons.IH [OF this] Cons.prems u show ?case by simp
qed

lemma writer_ok_exists_step:
  assumes "\<forall>p. \<exists>st. writer_ok p st s" and "enabled e s" and "exec_event e s = Inr t"
  shows "\<forall>p. \<exists>st. writer_ok p st t"
  using assms writer_step by blast

lemma no_fault_run:
  "\<forall>p. \<exists>st. writer_ok p st s \<Longrightarrow> possible es s \<Longrightarrow> \<exists>t. run_events es s = Inr t"
proof (induction es arbitrary: s)
  case Nil
  then show ?case by simp
next
  case (Cons e es)
  from Cons.prems no_fault_step obtain u where u: "exec_event e s = Inr u" by fastforce
  with Cons.prems writer_ok_exists_step have "\<forall>p. \<exists>st. writer_ok p st u" by fastforce
  with Cons.IH Cons.prems u show ?case by simp
qed

text \<open>A process none of whose connections has sent or queued anything.\<close>

definition fresh_process :: "'a process_scheme \<Rightarrow> bool" where
  "fresh_process s \<longleftrightarrow> started s = [] \<and> tasks s = [] \<and>
     (\<forall>p. deqQueue (qMessagesOut (heap s p)) = [] \<and> sock_tx (heap s p) = [] \<and>
       sock_rx (heap s p) = [] \<and> msgTemporaryIn (heap s p) = messageBody_init)"

lemma fresh_writer: "fresh_process s \<Longrightarrow> writer_ok p [] s"
  by (simp add: fresh_process_def writer_ok_def)

section \<open>Properties\<close>

lemma writer_idle:
  assumes "writer_ok p st s" and "ops_of is_write p (started s) = []" and "sock_open (heap s p)"
  shows "sock_tx (heap s p) = st \<and> deqQueue (qMessagesOut (heap s p)) = []"
  using assms by (simp add: writer_ok_def split: if_splits)

text \<open>The messages of the calls of \<open>Send\<close> on a connection, and of those whose task has not run yet.\<close>

definition calls_of :: "nat \<Rightarrow> event list \<Rightarrow> messageBody list" where
  "calls_of p es = concat (map (\<lambda>e. case e of Call_Send q m \<Rightarrow> if q = p then [m] else [] | _ \<Rightarrow> []) es)"

definition waiting_sends :: "nat \<Rightarrow> 'a process_scheme \<Rightarrow> messageBody list" where
  "waiting_sends p s =
     concat (map (\<lambda>tk. case tk of SendTask q m \<Rightarrow> if q = p then [m] else [] | _ \<Rightarrow> []) (tasks s))"

lemma calls_of_Cons: "calls_of p (e # es) = calls_of p [e] @ calls_of p es"
  by (simp add: calls_of_def)

lemma run_task_tasks: "run_task tk s = Inr t \<Longrightarrow> tasks t = tasks s"
  by (cases tk) (auto simp: conn_defs bind_res_Inr_iff Let_def split: if_splits)

lemma complete_op_tasks: "complete_op q op ec d s = Inr t \<Longrightarrow> tasks t = tasks s"
  by (cases op)
    (auto simp: conn_defs store_header_def store_body_def transmit_def bind_res_Inr_iff Let_def
      split: if_splits owner.splits)

lemma sends_step:
  assumes "enabled e s" and "exec_event e s = Inr t"
  shows "sent_now p e s @ waiting_sends p t = waiting_sends p s @ calls_of p [e]"
proof (cases e)
  case Run_task
  with assms(1) obtain tk ts where tk: "tasks s = tk # ts" by (cases "tasks s") auto
  with assms(2) Run_task run_task_tasks [of tk "s\<lparr>tasks := ts\<rparr>" t] have "tasks t = ts" by simp
  with tk Run_task show ?thesis by (cases tk) (simp_all add: waiting_sends_def calls_of_def)
next
  case (Complete i ec d)
  obtain q op live where i: "started s ! i = (q, op, live)" by (cases "started s ! i") auto
  with assms(2) Complete complete_op_tasks [of q op ec d "s\<lparr>started := remove_nth i (started s)\<rparr>" t]
  have "tasks t = tasks s" by simp
  with Complete show ?thesis by (simp add: waiting_sends_def calls_of_def)
qed (use assms(2) in \<open>auto simp: waiting_sends_def calls_of_def Send_def Disconnect_def split: if_splits\<close>)

lemma sends_in_order:
  "possible es s \<Longrightarrow> run_events es s = Inr t \<Longrightarrow>
     sent_in p es s @ waiting_sends p t = waiting_sends p s @ calls_of p es"
proof (induction es arbitrary: s)
  case Nil
  then show ?case by (simp add: calls_of_def)
next
  case (Cons e es)
  then obtain u where u: "exec_event e s = Inr u" "run_events es u = Inr t"
    by (auto simp: bind_res_Inr_iff)
  from sends_step [of e s u p] Cons.prems u have "sent_now p e s @ waiting_sends p u = waiting_sends p s @ calls_of p [e]"
    by simp
  moreover have "sent_in p es u @ waiting_sends p t = waiting_sends p u @ calls_of p es"
    using Cons.IH [of u] Cons.prems u by simp
  moreover have "sent_in p (e # es) s = sent_now p e s @ sent_in p es u" using u by simp
  ultimately show ?case by (metis append.assoc calls_of_Cons)
qed

lemma frames_append: "frames (ms @ ns) = frames ms @ frames ns"
  by simp

text \<open>A process with one open connection at every address, as a start for concrete runs.\<close>

definition idle_process :: "owner \<Rightarrow> process" where
  "idle_process own =
     \<lparr>heap = (\<lambda>p. connection_new own True), qMessagesIn = tsq_init, tasks = [], started = [], console = []\<rparr>"

lemma idle_process_fresh: "fresh_process (idle_process own)"
  by (simp add: fresh_process_def idle_process_def connection_new_def)

definition send_run :: "messageBody \<Rightarrow> event list" where
  "send_run m = [Call_Send 0 m, Run_task, Complete 0 no_error (header_bytes (header m))]"

lemma send_run_possible:
  assumes "body m = []"
  shows "possible (send_run m) (idle_process own) \<and>
    (\<exists>t. run_events (send_run m) (idle_process own) = Inr t \<and> started t = [] \<and> sock_open (heap t 0) \<and>
       sock_tx (heap t 0) = header_bytes (header m) \<and> waiting_sends 0 t = [])"
  using assms
  by (simp add: send_run_def waiting_sends_def idle_process_def conn_defs connection_new_def post_def transfer_outcome_def
      tsq_front_def tsq_pop_front_def remove_nth_def transmit_def on_conn_def start_op_def Let_def
      tsq_push_back_def tsq_init_def)

text \<open>
  C2: The bytes a connection has put on its socket are always a prefix of the frames (header, then
  body) of the messages given to \<open>Send\<close>, in the order of the calls, whatever the interleaving of calls,
  posted tasks, completions, failures and disconnects; there is never more than one write in flight;
  and whenever none is in flight and the socket is open, every message whose task has run has been
  sent completely and the queue is empty.
\<close>

theorem sent_bytes_are_frames_in_order:
  assumes "fresh_process s" and "possible es s" and "run_events es s = Inr t"
  shows "prefix (sock_tx (heap t p)) (frames (calls_of p es)) \<and>
    length (ops_of is_write p (started t)) \<le> 1 \<and>
    (ops_of is_write p (started t) = [] \<and> sock_open (heap t p) \<longrightarrow>
       deqQueue (qMessagesOut (heap t p)) = [] \<and>
       sock_tx (heap t p) @ frames (waiting_sends p t) = frames (calls_of p es))"
proof -
  have ok: "writer_ok p (frames (sent_in p es s)) t"
    using writer_run [OF fresh_writer [OF assms(1)] assms(2,3)] by simp
  have "waiting_sends p s = []" using assms(1) by (simp add: fresh_process_def waiting_sends_def)
  with sends_in_order [OF assms(2,3), of p]
  have calls: "frames (calls_of p es) = frames (sent_in p es s) @ frames (waiting_sends p t)"
    by (simp flip: frames_append)
  have "prefix (sock_tx (heap t p)) (frames (calls_of p es))"
    unfolding calls using writer_ok_prefix [OF ok] by (rule prefix_prefix)
  moreover have "ops_of is_write p (started t) = [] \<and> sock_open (heap t p) \<longrightarrow>
      deqQueue (qMessagesOut (heap t p)) = [] \<and> sock_tx (heap t p) = frames (sent_in p es s)"
    using writer_idle [OF ok] by simp
  ultimately show ?thesis using writer_ok_at_most_one [OF ok] calls by auto
qed

theorem sent_bytes_are_frames_in_order_witness:
  "\<exists>t. run_events (send_run messageBody_init) (idle_process owner_client) = Inr t \<and>
     sock_tx (heap t 0) @ frames (waiting_sends 0 t) = frames (calls_of 0 (send_run messageBody_init))"
proof -
  have "body messageBody_init = []" by (simp add: messageBody_init_def)
  from send_run_possible [OF this, of owner_client] obtain t where
    t: "possible (send_run messageBody_init) (idle_process owner_client)"
      "run_events (send_run messageBody_init) (idle_process owner_client) = Inr t"
      "started t = []" "sock_open (heap t 0)" by blast
  from sent_bytes_are_frames_in_order [OF idle_process_fresh t(1,2), of 0] t show ?thesis by simp
qed

text \<open>
  C5: No handler of a connection ever takes the front of an empty outgoing queue: every run of
  possible events from a fresh process goes through without a fault.
\<close>

theorem connections_never_fault:
  assumes "fresh_process s" and "possible es s"
  shows "\<exists>t. run_events es s = Inr t"
  using no_fault_run [OF _ assms(2)] fresh_writer [OF assms(1)] by blast

theorem connections_never_fault_witness:
  "\<exists>t. run_events (send_run messageBody_init) (idle_process owner_server) = Inr t"
  by (rule connections_never_fault [OF idle_process_fresh])
    (use send_run_possible [of messageBody_init owner_server] in \<open>simp add: messageBody_init_def\<close>)

end
