(* ===== verification/Connection_Reader.thy ===== *)
theory Connection_Reader
  imports Connection_Writer
begin

text \<open>
  The receiving half of a connection. The invariant \<open>reader_ok p ms\<close> says that at most one read is in
  flight and that \<open>ms\<close>, the messages the connection has put into the incoming queue so far, is what
  \<open>decode\<close> makes of the bytes the socket has received.
\<close>

section \<open>Invariant\<close>

fun is_read :: "io_op \<Rightarrow> bool" where
  "is_read ReadHeaderOp = True"
| "is_read (ReadBodyOp n) = True"
| "is_read op = False"

fun reader_phase :: "io_op list \<Rightarrow> connection \<Rightarrow> messageBody list \<Rightarrow> bool" where
  "reader_phase [] c ms \<longleftrightarrow> prefix ms (decoded messageBody_init (sock_rx c))"
| "reader_phase [ReadHeaderOp] c ms \<longleftrightarrow>
     decode messageBody_init (sock_rx c) = (ms, msgTemporaryIn c, [])"
| "reader_phase [ReadBodyOp n] c ms \<longleftrightarrow>
     (\<exists>t hb. decode messageBody_init (sock_rx c) = (ms, t, hb) \<and> length hb = sizeof_messageHeader \<and>
        header (msgTemporaryIn c) = header_of_bytes hb \<and> n = unat (hdr_size (header_of_bytes hb)) \<and>
        0 < n \<and> length (body (msgTemporaryIn c)) = n)"
| "reader_phase ops c ms \<longleftrightarrow> False"

definition reader_ok :: "nat \<Rightarrow> messageBody list \<Rightarrow> 'a process_scheme \<Rightarrow> bool" where
  "reader_ok p ms s \<longleftrightarrow> reader_phase (ops_of is_read p (started s)) (heap s p) ms"

text \<open>A connection is waiting for bytes when a read is in flight.\<close>

definition reading :: "nat \<Rightarrow> 'a process_scheme \<Rightarrow> bool" where
  "reading p s \<longleftrightarrow> ops_of is_read p (started s) \<noteq> []"

lemma reader_phase_one:
  assumes "reader_phase ops c ms"
  obtains "ops = []" | "ops = [ReadHeaderOp]" | n where "ops = [ReadBodyOp n]"
  using assms by (cases "(ops, c, ms)" rule: reader_phase.cases) auto

lemma reader_phase_cong:
  assumes "msgTemporaryIn c' = msgTemporaryIn c" and "sock_rx c' = sock_rx c"
  shows "reader_phase ops c' ms \<longleftrightarrow> reader_phase ops c ms"
  using assms by (cases "(ops, c, ms)" rule: reader_phase.cases) auto

lemma reader_ok_at_most_one: "reader_ok p ms s \<Longrightarrow> length (ops_of is_read p (started s)) \<le> 1"
  unfolding reader_ok_def by (erule reader_phase_one) simp_all

lemma reader_ok_prefix:
  assumes "reader_ok p ms s"
  shows "prefix ms (decoded messageBody_init (sock_rx (heap s p)))"
  using assms unfolding reader_ok_def
  by (cases "(ops_of is_read p (started s), heap s p, ms)" rule: reader_phase.cases)
    (auto simp: decoded_def)

lemma reader_ok_exact:
  assumes "reader_ok p ms s" and "reading p s"
  shows "ms = decoded messageBody_init (sock_rx (heap s p))"
  using assms unfolding reader_ok_def reading_def
  by (cases "(ops_of is_read p (started s), heap s p, ms)" rule: reader_phase.cases)
    (auto simp: decoded_def)

section \<open>Steps\<close>

text \<open>The messages of a connection in the incoming queue: a server connection signs them with its own
  address, a client connection with the null pointer.\<close>

definition tag_of :: "nat \<Rightarrow> 'a process_scheme \<Rightarrow> nat option" where
  "tag_of p s = (case nOwnerType (heap s p) of owner_server \<Rightarrow> Some p | owner_client \<Rightarrow> None)"

text \<open>What a completed read appends to the incoming queue.\<close>

definition arrived :: "nat \<Rightarrow> io_op \<Rightarrow> error_code \<Rightarrow> bytes \<Rightarrow> 'a process_scheme \<Rightarrow> messageBody list" where
  "arrived p op ec d s =
     (let tmp = msgTemporaryIn (heap s p)
      in if failed ec then []
         else case op of
           ReadHeaderOp \<Rightarrow>
             (let m = tmp\<lparr>header := header_of_bytes (overwrite d (header_bytes (header tmp)))\<rparr>
              in if hdr_size (header m) > 0 then [] else [m])
         | ReadBodyOp n \<Rightarrow> [tmp\<lparr>body := overwrite d (body tmp)\<rparr>]
         | _ \<Rightarrow> [])"

fun arrived_now :: "nat \<Rightarrow> event \<Rightarrow> 'a process_scheme \<Rightarrow> messageBody list" where
  "arrived_now p (Complete i ec d) s =
     (case started s ! i of (q, op, live) \<Rightarrow> if q = p then arrived p op ec d s else [])"
| "arrived_now p e s = []"

text \<open>\<open>arrived\<close> is exactly what the handlers push into the queue.\<close>

lemma complete_op_inbox:
  assumes "complete_op q op ec d s = Inr t"
  shows "deqQueue (qMessagesIn t) = deqQueue (qMessagesIn s) @
    map (\<lambda>m. \<lparr>remote = tag_of q s, own_msg = m\<rparr>) (arrived q op ec d s)"
  using assms
  by (cases op)
    (auto simp: conn_defs store_header_def store_body_def transmit_def arrived_def tag_of_def
      bind_res_Inr_iff Let_def split: if_splits owner.splits)

lemma full_overwrite: "length d = length mem \<Longrightarrow> overwrite d mem = d"
  by (simp add: overwrite_def)

lemma header_fail_prefix:
  assumes "prefix ms (decoded t rx)"
  shows "prefix ms (decoded t (rx @ d))"
  using assms decoded_prefix_append [of t rx d] by (auto simp: prefix_def)

lemma msg_header_update: "m\<lparr>header := h\<rparr> = \<lparr>header = h, body = body m\<rparr>" for m :: messageBody
  by (cases m) simp

lemma msg_body_update: "m\<lparr>body := b\<rparr> = \<lparr>header = header m, body = b\<rparr>" for m :: messageBody
  by (cases m) simp

text \<open>A complete header: either it is a whole message, or the body comes next.\<close>

lemma ReadHeader_completion:
  assumes phase: "decode messageBody_init (sock_rx (heap s p)) = (ms, msgTemporaryIn (heap s p), [])"
    and none: "ops_of is_read p (started s) = []"
    and out: "transfer_outcome sizeof_messageHeader ec (length d)"
  shows "reader_ok p (ms @ arrived p ReadHeaderOp ec d s) (ReadHeader_handler p ec (store_header p d s))"
proof (cases "failed ec")
  case True
  have "prefix ms (decoded messageBody_init (sock_rx (heap s p) @ d))"
    by (rule header_fail_prefix) (simp add: decoded_def phase)
  with True none show ?thesis
    by (simp add: reader_ok_def arrived_def ReadHeader_handler_def socket_close_def store_header_def Let_def)
next
  case False
  let ?tmp = "msgTemporaryIn (heap s p)"
  let ?rx = "sock_rx (heap s p)"
  have len: "length d = sizeof_messageHeader" using out False by (simp add: transfer_outcome_def)
  then have whole: "overwrite d (header_bytes (header ?tmp)) = d" by (simp add: full_overwrite)
  show ?thesis
  proof (cases "hdr_size (header_of_bytes d) = 0")
    case True
    let ?m = "\<lparr>header = header_of_bytes d, body = body ?tmp\<rparr>"
    have "decode ?tmp d = ([?m], ?m, [])"
      using decode_message [OF len, of "[]" ?tmp "[]"] True
      by (simp add: decode_short sizeof_messageHeader_def Let_def)
    then have "decode messageBody_init (?rx @ d) = (ms @ [?m], ?m, [])"
      using decode_append [OF phase, of d] by simp
    with True False none show ?thesis
      by (simp add: reader_ok_def arrived_def ReadHeader_handler_def store_header_def whole Let_def
          AddToIncomingMessageQueue_def ReadHeader_def msg_header_update)
  next
    case nonzero: False
    then have pos: "0 < unat (hdr_size (header_of_bytes d))" by (simp add: unat_gt_0)
    then have "decode ?tmp d = ([], ?tmp, d)"
      using decode_waiting [OF len, of "[]" ?tmp] by simp
    then have "decode messageBody_init (?rx @ d) = (ms, ?tmp, d)"
      using decode_append [OF phase, of d] by simp
    with nonzero pos len False none show ?thesis
      by (simp add: reader_ok_def arrived_def ReadHeader_handler_def store_header_def whole Let_def
          ReadBody_def word_neq_0_conv)
  qed
qed

lemma ReadBody_completion:
  assumes phase: "decode messageBody_init (sock_rx (heap s p)) = (ms, t, hb)"
      "length hb = sizeof_messageHeader" "header (msgTemporaryIn (heap s p)) = header_of_bytes hb"
      "n = unat (hdr_size (header_of_bytes hb))" "0 < n" "length (body (msgTemporaryIn (heap s p))) = n"
    and none: "ops_of is_read p (started s) = []"
    and out: "transfer_outcome n ec (length d)"
  shows "reader_ok p (ms @ arrived p (ReadBodyOp n) ec d s) (ReadBody_handler p ec (store_body p d s))"
proof (cases "failed ec")
  case True
  have "prefix ms (decoded messageBody_init (sock_rx (heap s p) @ d))"
    by (rule header_fail_prefix) (simp add: decoded_def phase)
  with True none show ?thesis
    by (simp add: reader_ok_def arrived_def ReadBody_handler_def socket_close_def store_body_def Let_def)
next
  case False
  let ?tmp = "msgTemporaryIn (heap s p)"
  let ?m = "\<lparr>header = header_of_bytes hb, body = d\<rparr>"
  have len: "length d = n" using out False by (simp add: transfer_outcome_def)
  then have whole: "overwrite d (body ?tmp) = d" using phase(6) by (simp add: full_overwrite)
  have "d \<noteq> []" using len phase(5) by auto
  then have "decode t (hb @ d) = ([?m], ?m, [])"
    using decode_message [OF phase(2), of d t "[]"] len phase(4)
    by (simp add: decode_short sizeof_messageHeader_def Let_def)
  then have "decode messageBody_init (sock_rx (heap s p) @ d) = (ms @ [?m], ?m, [])"
    using decode_append [OF phase(1), of d] by simp
  with False none phase(3) show ?thesis
    by (simp add: reader_ok_def arrived_def ReadBody_handler_def store_body_def whole Let_def
        AddToIncomingMessageQueue_def ReadHeader_def msg_body_update)
qed

lemma read_completion_reader:
  assumes ok: "reader_ok p ms s" and i: "i < length (started s)" "started s ! i = (p, op, live)"
    and r: "is_read op" and out: "op_outcome op ec d"
    and run: "complete_op p op ec d (s\<lparr>started := remove_nth i (started s)\<rparr>) = Inr t"
  shows "reader_ok p (ms @ arrived p op ec d s) t"
proof -
  let ?s = "s\<lparr>started := remove_nth i (started s)\<rparr>"
  have phase: "reader_phase (ops_of is_read p (started s)) (heap s p) ms"
    using ok by (simp add: reader_ok_def)
  then obtain op' where one: "ops_of is_read p (started s) = [op']"
    using ops_of_present [where P = is_read, OF i r] by (elim reader_phase_one) auto
  with ops_of_remove(2) [where P = is_read, OF i refl r] have same: "op' = op"
    and none: "ops_of is_read p (started ?s) = []" by auto
  have arr: "arrived p op ec d ?s = arrived p op ec d s" by (simp add: arrived_def)
  show ?thesis
  proof (cases op)
    case ReadHeaderOp
    with phase one same have "decode messageBody_init (sock_rx (heap s p)) = (ms, msgTemporaryIn (heap s p), [])"
      by simp
    with none out ReadHeaderOp run arr ReadHeader_completion [of ?s p ms ec d] show ?thesis by simp
  next
    case (ReadBodyOp n)
    with phase one same obtain t' hb where "decode messageBody_init (sock_rx (heap s p)) = (ms, t', hb)"
      "length hb = sizeof_messageHeader" "header (msgTemporaryIn (heap s p)) = header_of_bytes hb"
      "n = unat (hdr_size (header_of_bytes hb))" "0 < n" "length (body (msgTemporaryIn (heap s p))) = n"
      by auto
    with none out ReadBodyOp run arr ReadBody_completion [of ?s p ms t' hb n ec d] show ?thesis by simp
  qed (use r in simp_all)
qed

text \<open>The writing half leaves the reading half alone.\<close>

lemma write_ops_reader:
  assumes "reader_ok p ms s" and "is_write op" and "complete_op p op ec d s = Inr t"
  shows "reader_ok p ms t"
proof -
  have "ops_of is_read p (started t) = ops_of is_read p (started s)"
    and "msgTemporaryIn (heap t p) = msgTemporaryIn (heap s p)"
    and "sock_rx (heap t p) = sock_rx (heap s p)"
    using assms(2,3)
    by (cases op; auto simp: conn_defs transmit_def bind_res_Inr_iff Let_def split: if_splits)+
  with assms(1) show ?thesis by (simp add: reader_ok_def reader_phase_cong [of "heap t p" "heap s p"])
qed

lemma tasks_reader:
  assumes "reader_ok p ms s" and "run_task tk s = Inr t"
  shows "reader_ok p ms t"
proof -
  have "ops_of is_read p (started t) = ops_of is_read p (started s)"
    and "msgTemporaryIn (heap t p) = msgTemporaryIn (heap s p)"
    and "sock_rx (heap t p) = sock_rx (heap s p)"
    using assms(2)
    by (cases tk; auto simp: conn_defs bind_res_Inr_iff Let_def split: if_splits)+
  with assms(1) show ?thesis by (simp add: reader_ok_def reader_phase_cong [of "heap t p" "heap s p"])
qed

text \<open>A connection whose connect operation is still in flight has not read anything.\<close>

definition no_connect :: "nat \<Rightarrow> 'a process_scheme \<Rightarrow> bool" where
  "no_connect p s \<longleftrightarrow> (\<forall>live. (p, ConnectOp, live) \<notin> set (started s))"

lemma set_remove_nth: "set (remove_nth i xs) \<subseteq> set xs"
  by (auto simp: remove_nth_def dest: in_set_takeD in_set_dropD)

lemma run_task_no_connect: "run_task tk s = Inr t \<Longrightarrow> no_connect p s \<Longrightarrow> no_connect p t"
  by (cases tk) (auto simp: no_connect_def conn_defs bind_res_Inr_iff Let_def split: if_splits)

lemma complete_op_no_connect:
  "complete_op q op ec d s = Inr t \<Longrightarrow> no_connect p s \<Longrightarrow> no_connect p t"
  by (cases op)
    (auto simp: no_connect_def conn_defs store_header_def store_body_def transmit_def
      bind_res_Inr_iff Let_def split: if_splits owner.splits)

lemma no_connect_step:
  assumes "no_connect p s" and "enabled e s" and "exec_event e s = Inr t"
  shows "no_connect p t"
proof (cases e)
  case Run_task
  with assms obtain tk ts where "tasks s = tk # ts" by (cases "tasks s") auto
  with Run_task assms run_task_no_connect [of tk "s\<lparr>tasks := ts\<rparr>" t p] show ?thesis
    by (simp add: no_connect_def)
next
  case (Complete i ec d)
  let ?s = "s\<lparr>started := remove_nth i (started s)\<rparr>"
  have "no_connect p ?s" using assms(1) set_remove_nth by (fastforce simp: no_connect_def)
  with Complete assms(3) complete_op_no_connect show ?thesis by (auto split: prod.splits)
qed (use assms in \<open>auto simp: no_connect_def Send_def Disconnect_def split: if_splits\<close>)

lemma reader_step:
  assumes ok: "reader_ok p ms s" and nc: "no_connect p s"
    and en: "enabled e s" and ex: "exec_event e s = Inr t"
  shows "reader_ok p (ms @ arrived_now p e s) t"
proof (cases e)
  case (Call_Send q m)
  with ok ex show ?thesis by (auto simp: reader_ok_def Send_def)
next
  case (Call_Disconnect q)
  with ok ex show ?thesis by (auto simp: reader_ok_def Disconnect_def)
next
  case Run_task
  with en obtain tk ts where "tasks s = tk # ts" by (cases "tasks s") auto
  with Run_task ex ok tasks_reader [of p ms "s\<lparr>tasks := ts\<rparr>" tk t] show ?thesis
    by (simp add: reader_ok_def)
next
  case (Complete i ec d)
  with en obtain q op live where i: "i < length (started s)" "started s ! i = (q, op, live)"
    and out: "op_outcome op ec d" by (auto split: prod.splits)
  let ?s = "s\<lparr>started := remove_nth i (started s)\<rparr>"
  have run: "complete_op q op ec d ?s = Inr t" using ex Complete i by simp
  have kind: "q = p \<Longrightarrow> is_read op \<or> is_write op"
  proof -
    assume "q = p"
    with i nc have "op \<noteq> ConnectOp" by (metis no_connect_def nth_mem)
    then show ?thesis by (cases op) simp_all
  qed
  show ?thesis
  proof (cases "q = p \<and> is_read op")
    case True
    with read_completion_reader [OF ok i(1), of op live ec d t] i out run Complete show ?thesis by auto
  next
    case False
    then have ok': "reader_ok p ms ?s"
      using ok ops_of_remove(1) [where P = is_read, OF i] by (simp add: reader_ok_def)
    show ?thesis
    proof (cases "q = p")
      case True
      with kind False have "is_write op" by simp
      moreover from this have "arrived p op ec d s = []" by (cases op) (simp_all add: arrived_def Let_def)
      ultimately show ?thesis
        using write_ops_reader [OF ok'] True run Complete i by simp
    next
      case False
      with complete_op_other [OF run, of p is_read] ok' Complete i show ?thesis
        by (simp add: reader_ok_def)
    qed
  qed
qed

section \<open>Runs\<close>

fun arrived_in :: "nat \<Rightarrow> event list \<Rightarrow> 'a process_scheme \<Rightarrow> messageBody list" where
  "arrived_in p [] s = []"
| "arrived_in p (e # es) s =
     arrived_now p e s @ (case exec_event e s of Inl f \<Rightarrow> [] | Inr t \<Rightarrow> arrived_in p es t)"

lemma reader_run:
  "reader_ok p ms s \<Longrightarrow> no_connect p s \<Longrightarrow> possible es s \<Longrightarrow> run_events es s = Inr t \<Longrightarrow>
     reader_ok p (ms @ arrived_in p es s) t"
proof (induction es arbitrary: ms s)
  case Nil
  then show ?case by simp
next
  case (Cons e es)
  then obtain u where u: "exec_event e s = Inr u" "run_events es u = Inr t"
    by (auto simp: bind_res_Inr_iff)
  from Cons.prems u have "reader_ok p (ms @ arrived_now p e s) u"
    by (auto intro: reader_step)
  moreover from Cons.prems u have "no_connect p u" by (auto intro: no_connect_step)
  ultimately show ?case using Cons.IH [of "ms @ arrived_now p e s" u] Cons.prems u by simp
qed

text \<open>The owner of a connection never changes, so neither does the tag of its messages.\<close>

lemma owner_step: "exec_event e s = Inr t \<Longrightarrow> enabled e s \<Longrightarrow> nOwnerType (heap t p) = nOwnerType (heap s p)"
proof (cases e)
  case Run_task
  assume "exec_event e s = Inr t" "enabled e s"
  with Run_task obtain tk ts where "run_task tk (s\<lparr>tasks := ts\<rparr>) = Inr t" by (cases "tasks s") auto
  then show ?thesis
    by (cases tk) (auto simp: conn_defs bind_res_Inr_iff Let_def split: if_splits)
next
  case (Complete i ec d)
  assume "exec_event e s = Inr t"
  with Complete obtain q op live where
    "complete_op q op ec d (s\<lparr>started := remove_nth i (started s)\<rparr>) = Inr t"
    by (auto split: prod.splits)
  then show ?thesis
    by (cases op)
      (auto simp: conn_defs store_header_def store_body_def transmit_def bind_res_Inr_iff Let_def
        split: if_splits owner.splits)
qed (auto simp: Send_def Disconnect_def)

definition inbox_of :: "nat \<Rightarrow> 'a process_scheme \<Rightarrow> messageBody list" where
  "inbox_of p s = map own_msg (filter (\<lambda>om. remote om = Some p) (deqQueue (qMessagesIn s)))"

lemma inbox_step:
  assumes srv: "nOwnerType (heap s p) = owner_server" and en: "enabled e s" and ex: "exec_event e s = Inr t"
  shows "inbox_of p t = inbox_of p s @ arrived_now p e s"
proof (cases e)
  case Run_task
  with en obtain tk ts where "tasks s = tk # ts" by (cases "tasks s") auto
  with Run_task ex have "run_task tk (s\<lparr>tasks := ts\<rparr>) = Inr t" by simp
  then have "qMessagesIn t = qMessagesIn s"
    by (cases tk) (auto simp: conn_defs bind_res_Inr_iff Let_def split: if_splits)
  with Run_task show ?thesis by (simp add: inbox_of_def)
next
  case (Complete i ec d)
  obtain q op live where i: "started s ! i = (q, op, live)" by (cases "started s ! i") auto
  let ?s = "s\<lparr>started := remove_nth i (started s)\<rparr>"
  have run: "complete_op q op ec d ?s = Inr t" using ex Complete i by simp
  have box: "deqQueue (qMessagesIn t) = deqQueue (qMessagesIn s) @
    map (\<lambda>m. \<lparr>remote = tag_of q s, own_msg = m\<rparr>) (arrived q op ec d s)"
    using complete_op_inbox [OF run] by (simp add: tag_of_def arrived_def)
  show ?thesis
  proof (cases "q = p")
    case True
    then have "tag_of q s = Some p" using srv by (simp add: tag_of_def)
    with box True i Complete show ?thesis by (simp add: inbox_of_def comp_def)
  next
    case False
    then have "tag_of q s \<noteq> Some p" by (simp add: tag_of_def split: owner.splits)
    with box False i Complete show ?thesis by (simp add: inbox_of_def comp_def)
  qed
qed (use ex in \<open>auto simp: inbox_of_def Send_def Disconnect_def\<close>)

lemma inbox_run:
  "nOwnerType (heap s p) = owner_server \<Longrightarrow> possible es s \<Longrightarrow> run_events es s = Inr t \<Longrightarrow>
     inbox_of p t = inbox_of p s @ arrived_in p es s"
proof (induction es arbitrary: s)
  case Nil
  then show ?case by simp
next
  case (Cons e es)
  then obtain u where u: "exec_event e s = Inr u" "run_events es u = Inr t"
    by (auto simp: bind_res_Inr_iff)
  with Cons.prems have "inbox_of p u = inbox_of p s @ arrived_now p e s" by (simp add: inbox_step)
  moreover have "nOwnerType (heap u p) = owner_server" using owner_step u(1) Cons.prems by fastforce
  ultimately show ?case using Cons u by simp
qed

text \<open>The accepted connection of a fresh process starts reading.\<close>

lemma accepted_reader:
  assumes "fresh_process s" and "nOwnerType (heap s p) = owner_server" and "sock_open (heap s p)"
  shows "reader_ok p [] (ConnectToClient p uid s)" and "reading p (ConnectToClient p uid s)"
    and "no_connect p (ConnectToClient p uid s)" and "writer_ok q [] (ConnectToClient p uid s)"
  using assms
  by (simp_all add: fresh_process_def reader_ok_def reading_def no_connect_def writer_ok_def
      ConnectToClient_def ReadHeader_def decode_short sizeof_messageHeader_def)

section \<open>Properties\<close>

lemma accepted_process:
  "fresh_process (idle_process owner_server)" "nOwnerType (heap (idle_process owner_server) p) = owner_server"
  "sock_open (heap (idle_process owner_server) p)" "deqQueue (qMessagesIn (idle_process owner_server)) = []"
  by (simp_all add: idle_process_fresh) (simp_all add: idle_process_def connection_new_def)

definition receive_run :: "messageBody \<Rightarrow> event list" where
  "receive_run m = [Complete 0 no_error (header_bytes (header m))]"

lemma receive_run_possible:
  assumes "hdr_size (header m) = 0"
  shows "possible (receive_run m) (ConnectToClient 0 7 (idle_process owner_server)) \<and>
    (\<exists>t. run_events (receive_run m) (ConnectToClient 0 7 (idle_process owner_server)) = Inr t \<and>
       sock_rx (heap t 0) = header_bytes (header m) \<and> reading 0 t)"
  using assms
  by (simp add: receive_run_def idle_process_def conn_defs connection_new_def transfer_outcome_def
      remove_nth_def store_header_def on_conn_def start_op_def overwrite_def reading_def Let_def)

text \<open>
  C3: What an accepted connection has put into the server's queue is always a prefix of the messages
  that \<open>decode\<close> finds in the bytes its socket has received, and all of them while it is reading; there
  is never more than one read in flight. This holds for every split of the stream into transfers and
  every interleaving with sends, tasks, failures and disconnects.
\<close>

theorem delivered_messages_are_decoded_stream:
  assumes "fresh_process s" and "nOwnerType (heap s p) = owner_server" and "sock_open (heap s p)"
    and "deqQueue (qMessagesIn s) = []"
    and "possible es (ConnectToClient p uid s)" and "run_events es (ConnectToClient p uid s) = Inr t"
  shows "prefix (inbox_of p t) (decoded messageBody_init (sock_rx (heap t p))) \<and>
    (reading p t \<longrightarrow> inbox_of p t = decoded messageBody_init (sock_rx (heap t p))) \<and>
    length (ops_of is_read p (started t)) \<le> 1"
proof -
  let ?s = "ConnectToClient p uid s"
  have "nOwnerType (heap ?s p) = owner_server" and "inbox_of p ?s = []"
    using assms(2,4) by (simp_all add: ConnectToClient_def ReadHeader_def inbox_of_def)
  then have box: "inbox_of p t = arrived_in p es ?s" using inbox_run [OF _ assms(5,6)] by simp
  have ok: "reader_ok p (arrived_in p es ?s) t"
    using reader_run [OF accepted_reader(1,3) [OF assms(1-3)] assms(5,6)] by simp
  from reader_ok_prefix [OF ok] reader_ok_exact [OF ok] reader_ok_at_most_one [OF ok] box show ?thesis
    by simp
qed

theorem delivered_messages_are_decoded_stream_witness:
  "\<exists>t. run_events (receive_run messageBody_init) (ConnectToClient 0 7 (idle_process owner_server)) = Inr t \<and>
     inbox_of 0 t = decoded messageBody_init (header_bytes messageHeader_init)"
proof -
  have h: "header messageBody_init = messageHeader_init" "hdr_size (header messageBody_init) = 0"
    by (simp_all add: messageBody_init_def messageHeader_init_def)
  from receive_run_possible [OF h(2)] obtain t where
    t: "possible (receive_run messageBody_init) (ConnectToClient 0 7 (idle_process owner_server))"
      "run_events (receive_run messageBody_init) (ConnectToClient 0 7 (idle_process owner_server)) = Inr t"
      "sock_rx (heap t 0) = header_bytes (header messageBody_init)" "reading 0 t" by blast
  from delivered_messages_are_decoded_stream [OF accepted_process t(1,2)] t h show ?thesis by simp
qed

end
