(* ===== verification/Custom_Types.thy ===== *)
theory Custom_Types
  imports Message
begin

text \<open>
  The message types the two programs share (\<^verbatim>\<open>Server/Server.cpp\<close> and \<^verbatim>\<open>Client/CLient.cpp\<close> declare the same
  \<^verbatim>\<open>enum class CustomMsgTypes : uint32_t\<close>), with the values the language gives the enumerators.
\<close>

datatype CustomMsgTypes = ServerAccept | ServerDeny | ServerPing | MessageAll | ServerMessage

primrec msg_code :: "CustomMsgTypes \<Rightarrow> u32" where
  "msg_code ServerAccept = 0"
| "msg_code ServerDeny = 1"
| "msg_code ServerPing = 2"
| "msg_code MessageAll = 3"
| "msg_code ServerMessage = 4"

text \<open>A local \<open>messageBody\<close> whose \<open>header.id\<close> is assigned.\<close>

definition msg_of :: "CustomMsgTypes \<Rightarrow> messageBody" where
  "msg_of c = messageBody_init\<lparr>header := (header messageBody_init)\<lparr>hdr_id := msg_code c\<rparr>\<rparr>"

lemma msg_code_inj [simp]: "msg_code a = msg_code b \<longleftrightarrow> a = b"
  by (cases a; cases b; simp)

lemma msg_of_simps [simp]:
  "hdr_id (header (msg_of c)) = msg_code c" "hdr_size (header (msg_of c)) = 0" "body (msg_of c) = []"
  by (simp_all add: msg_of_def messageBody_init_def messageHeader_init_def)

end
