(* ===== verification/Server.thy ===== *)
theory Server
  imports Connection_Reader Custom_Types
begin

text \<open>
  The server of \<^verbatim>\<open>Common/server.h\<close>: the members and member functions of \<open>ServerInterface\<close> with its
  three virtual functions as a record of hooks, and the class \<open>CustomServer\<close> of
  \<^verbatim>\<open>Server/Server.cpp\<close> that overrides them. A shared pointer to a connection is the address of the
  connection in the heap, or \<open>None\<close> for the null pointer.
\<close>

section \<open>State\<close>

text \<open>
  The process state of \<^verbatim>\<open>Connection\<close> is the context with its connections; \<open>accepting\<close> counts the
  accept operations in flight, \<open>next_conn\<close> is the address of the next connection object,
  \<open>ctx_stopped\<close> and \<open>thread_running\<close> describe the context and its thread.
\<close>

record server = process +
  deqConnections :: "nat option list"
  nIDCounter :: u32
  accepting :: nat
  next_conn :: nat
  ctx_stopped :: bool
  thread_running :: bool

definition ServerInterface_init :: server where
  "ServerInterface_init =
     \<lparr>heap = (\<lambda>p. connection_new owner_server False), qMessagesIn = tsq_init, tasks = [], started = [],
      console = [], deqConnections = [], nIDCounter = 10000, accepting = 0, next_conn = 0,
      ctx_stopped = False, thread_running = False\<rparr>"

record server_hooks =
  on_connect :: "nat \<Rightarrow> server \<Rightarrow> fault + (bool \<times> server)"
  on_disconnect :: "nat option \<Rightarrow> server \<Rightarrow> fault + server"
  on_message :: "nat option \<Rightarrow> messageBody \<Rightarrow> server \<Rightarrow> fault + server"

text \<open>The bodies in the base class.\<close>

definition ServerInterface_hooks :: server_hooks where
  "ServerInterface_hooks =
     \<lparr>on_connect = (\<lambda>client s. Inr (False, s)),
      on_disconnect = (\<lambda>client s. Inr s),
      on_message = (\<lambda>client m s. Inr s)\<rparr>"

section \<open>Accepting connections\<close>

definition WaitForClientConnection :: "server \<Rightarrow> server" where
  "WaitForClientConnection s = s\<lparr>accepting := Suc (accepting s)\<rparr>"

text \<open>\<open>std::make_shared<connection<T>>\<close> with the socket the accept operation returned.\<close>

definition make_connection :: "server \<Rightarrow> nat \<times> server" where
  "make_connection s =
     (next_conn s,
      s\<lparr>heap := (heap s)(next_conn s := connection_new owner_server True),
        next_conn := Suc (next_conn s)\<rparr>)"

text \<open>
  The accept handler. \<open>peer\<close> is the result of \<open>socket.remote_endpoint()\<close>, which throws when the
  peer is already gone, and \<open>text\<close> the result of \<open>ec.message()\<close>.
\<close>

definition approve :: "nat \<Rightarrow> server \<Rightarrow> server" where
  "approve newconn s =
     (let s1 = s\<lparr>deqConnections := deqConnections s @ [Some newconn]\<rparr>;
          uid = nIDCounter s1;
          s2 = ConnectToClient newconn uid (s1\<lparr>nIDCounter := uid + 1\<rparr>)
      in print (''['' @ show_nat (unat (GetID newconn s2)) @ ''] Connection Approved'') s2)"

definition accept_handler :: "server_hooks \<Rightarrow> error_code \<Rightarrow> string option \<Rightarrow> string \<Rightarrow> server \<Rightarrow> fault + server" where
  "accept_handler H ec peer txt s =
     bind_res
       (if \<not> failed ec then
          (case peer of
             None \<Rightarrow> Inl ProgramTerminated
           | Some ep \<Rightarrow>
               (let (newconn, s1) = make_connection (print (''[SERVER] New Connection: '' @ ep) s)
                in bind_res (on_connect H newconn s1)
                     (\<lambda>(allow, s2). if allow then Inr (approve newconn s2)
                                    else Inr (print ''[-----] Connection Denied'' s2))))
        else Inr (print (''[SERVER] New Connection Error: '' @ txt) s))
       (\<lambda>t. Inr (WaitForClientConnection t))"

text \<open>
  \<open>Start\<close>: whether an exception is thrown while the accept operation or the thread is started is a
  parameter, with its text.
\<close>

definition Start :: "string option \<Rightarrow> server \<Rightarrow> bool \<times> server" where
  "Start exception s =
     (case exception of
        None \<Rightarrow> (True, print ''[SERVER] Started!'' ((WaitForClientConnection s)\<lparr>thread_running := True\<rparr>))
      | Some what \<Rightarrow> (False, print (''[SERVER] Exception: '' @ what) s))"

section \<open>Sending\<close>

text \<open>The test \<open>client && client->IsConnected()\<close>.\<close>

definition legitimate :: "nat option \<Rightarrow> 'a process_scheme \<Rightarrow> bool" where
  "legitimate client s = (case client of None \<Rightarrow> False | Some p \<Rightarrow> IsConnected p s)"

text \<open>
  \<open>MessageClient\<close> resets its own pointer before it removes the connections that are equal to it,
  so what it removes are the null pointers.
\<close>

definition MessageClient :: "server_hooks \<Rightarrow> nat option \<Rightarrow> messageBody \<Rightarrow> server \<Rightarrow> fault + server" where
  "MessageClient H client msg s =
     (if legitimate client s then Inr (Send (the client) msg s)
      else bind_res (on_disconnect H client s)
             (\<lambda>s1. let client' = None
                   in Inr (s1\<lparr>deqConnections := filter (\<lambda>c. c \<noteq> client') (deqConnections s1)\<rparr>)))"

text \<open>The loop of \<open>MessageAllClients\<close> over the container, which returns its new contents and
  \<open>bInvalidClientExists\<close>.\<close>

fun message_all_loop ::
  "server_hooks \<Rightarrow> messageBody \<Rightarrow> nat option \<Rightarrow> nat option list \<Rightarrow> server \<Rightarrow> fault + (nat option list \<times> bool \<times> server)" where
  "message_all_loop H msg ignore [] s = Inr ([], False, s)"
| "message_all_loop H msg ignore (client # cs) s =
     (if legitimate client s then
        (let s1 = (if client \<noteq> ignore then Send (the client) msg s else s)
         in bind_res (message_all_loop H msg ignore cs s1)
              (\<lambda>(cs', found, t). Inr (client # cs', found, t)))
      else bind_res (on_disconnect H client s)
             (\<lambda>s1. bind_res (message_all_loop H msg ignore cs s1)
                (\<lambda>(cs', found, t). Inr (None # cs', True, t))))"

definition MessageAllClients :: "server_hooks \<Rightarrow> messageBody \<Rightarrow> nat option \<Rightarrow> server \<Rightarrow> fault + server" where
  "MessageAllClients H msg pIgnoreClient s =
     bind_res (message_all_loop H msg pIgnoreClient (deqConnections s) s)
       (\<lambda>(cs, bInvalidClientExists, t).
          Inr (t\<lparr>deqConnections := (if bInvalidClientExists then filter (\<lambda>c. c \<noteq> None) cs else cs)\<rparr>))"

section \<open>Processing messages\<close>

lemma count_up:
  fixes c n :: u64
  assumes "c < n"
  shows "unat (c + 1) = Suc (unat c)"
proof -
  have "unat c < unat n" using assms by (simp add: word_less_nat_alt)
  moreover have "unat n < 2 ^ 64" by (rule order_less_le_trans [OF unsigned_less]) simp
  ultimately have "unat c + 1 < 2 ^ 64" by simp
  then show ?thesis by (simp add: unat_word_ariths)
qed

text \<open>\<open>nMaxMessages\<close> and the counter are \<open>size_t\<close>; the default \<open>-1\<close> is the largest value.\<close>

function Update_loop :: "server_hooks \<Rightarrow> u64 \<Rightarrow> u64 \<Rightarrow> server \<Rightarrow> fault + server" where
  "Update_loop H nMaxMessages nMessageCount s =
     (if nMessageCount < nMaxMessages \<and> \<not> tsq_empty (qMessagesIn s) then
        bind_res (tsq_pop_front (qMessagesIn s))
          (\<lambda>(msg, q). bind_res (on_message H (remote msg) (own_msg msg) (s\<lparr>qMessagesIn := q\<rparr>))
             (\<lambda>t. Update_loop H nMaxMessages (nMessageCount + 1) t))
      else Inr s)"
  by pat_completeness auto

termination
proof (relation "measure (\<lambda>(H, n, c, s). unat n - unat c)", goal_cases)
  case 1
  show ?case by simp
next
  case (2 H n c s p a b t)
  then have "c < n" by simp
  moreover from this have "unat c < unat n" by (simp add: word_less_nat_alt)
  ultimately show ?case by (simp add: count_up)
qed

declare Update_loop.simps [simp del]

text \<open>\<open>Update\<close>; \<open>None\<close> when the caller is blocked in \<open>wait\<close>, which returns only when the queue is not
  empty.\<close>

definition Update :: "server_hooks \<Rightarrow> u64 \<Rightarrow> bool \<Rightarrow> server \<Rightarrow> (fault + server) option" where
  "Update H nMaxMessages bWait s =
     (if bWait \<and> tsq_empty (qMessagesIn s) then None else Some (Update_loop H nMaxMessages 0 s))"

section \<open>The custom server\<close>

definition Custom_OnClientConnect :: "nat \<Rightarrow> server \<Rightarrow> fault + (bool \<times> server)" where
  "Custom_OnClientConnect client s = Inr (True, Send client (msg_of ServerAccept) s)"

definition Custom_OnClientDisconnect :: "nat option \<Rightarrow> server \<Rightarrow> fault + server" where
  "Custom_OnClientDisconnect client s =
     (case client of
        None \<Rightarrow> Inl NullDereference
      | Some p \<Rightarrow> Inr (print (''Removing client ['' @ show_nat (unat (GetID p s)) @ '']'') s))"

text \<open>The virtual calls inside \<open>MessageAllClients\<close> reach the class's own \<open>OnClientDisconnect\<close>; the
  other two hooks are not called there.\<close>

definition Custom_MessageAllClients :: "messageBody \<Rightarrow> nat option \<Rightarrow> server \<Rightarrow> fault + server" where
  "Custom_MessageAllClients =
     MessageAllClients (ServerInterface_hooks\<lparr>on_disconnect := Custom_OnClientDisconnect\<rparr>)"

definition hello_message :: "u32 \<Rightarrow> messageBody" where
  "hello_message uid = msg_push (msg_of ServerMessage) (enc_u32 uid)"

definition Custom_OnMessage :: "nat option \<Rightarrow> messageBody \<Rightarrow> server \<Rightarrow> fault + server" where
  "Custom_OnMessage client msg s =
     (let c = hdr_id (header msg) in
      if c = msg_code ServerPing then
        (case client of
           None \<Rightarrow> Inl NullDereference
         | Some p \<Rightarrow> Inr (Send p msg (print (''['' @ show_nat (unat (GetID p s)) @ '']: Server Ping'') s)))
      else if c = msg_code MessageAll then
        (case client of
           None \<Rightarrow> Inl NullDereference
         | Some p \<Rightarrow> Custom_MessageAllClients (hello_message (GetID p s)) client
             (print (''['' @ show_nat (unat (GetID p s)) @ '']: Message All'') s))
      else Inr s)"

definition CustomServer_hooks :: server_hooks where
  "CustomServer_hooks =
     \<lparr>on_connect = Custom_OnClientConnect, on_disconnect = Custom_OnClientDisconnect,
      on_message = Custom_OnMessage\<rparr>"

section \<open>The running server\<close>

text \<open>The application only has pointers to connections that exist.\<close>

fun names_existing :: "event \<Rightarrow> server \<Rightarrow> bool" where
  "names_existing (Call_Send p m) s \<longleftrightarrow> p < next_conn s"
| "names_existing (Call_Disconnect p) s \<longleftrightarrow> p < next_conn s"
| "names_existing e s \<longleftrightarrow> True"

text \<open>
  What can happen: an event of the context (a task, a completion, a call of \<open>Send\<close> or
  \<open>Disconnect\<close>), a completed accept, a call of \<open>Update\<close>, \<open>MessageClient\<close> or
  \<open>MessageAllClients\<close> by the application.
\<close>

datatype server_event =
    Io event
  | Accepted error_code "string option" string
  | Call_Update u64 bool
  | Call_MessageClient "nat option" messageBody
  | Call_MessageAll messageBody "nat option"

fun server_enabled :: "server_event \<Rightarrow> server \<Rightarrow> bool" where
  "server_enabled (Io e) s = (enabled e s \<and> names_existing e s)"
| "server_enabled (Accepted ec peer txt) s = (0 < accepting s)"
| "server_enabled (Call_Update n w) s = (w \<longrightarrow> \<not> tsq_empty (qMessagesIn s))"
| "server_enabled (Call_MessageClient c m) s = (case c of None \<Rightarrow> True | Some p \<Rightarrow> p < next_conn s)"
| "server_enabled (Call_MessageAll m c) s = True"

fun exec_server :: "server_hooks \<Rightarrow> server_event \<Rightarrow> server \<Rightarrow> fault + server" where
  "exec_server H (Io e) s = exec_event e s"
| "exec_server H (Accepted ec peer txt) s =
     accept_handler H ec peer txt (s\<lparr>accepting := accepting s - 1\<rparr>)"
| "exec_server H (Call_Update n w) s = (case Update H n w s of None \<Rightarrow> Inr s | Some r \<Rightarrow> r)"
| "exec_server H (Call_MessageClient c m) s = MessageClient H c m s"
| "exec_server H (Call_MessageAll m c) s = MessageAllClients H m c s"

fun run_server :: "server_hooks \<Rightarrow> server_event list \<Rightarrow> server \<Rightarrow> fault + server" where
  "run_server H [] s = Inr s"
| "run_server H (e # es) s = bind_res (exec_server H e s) (run_server H es)"

fun server_possible :: "server_hooks \<Rightarrow> server_event list \<Rightarrow> server \<Rightarrow> bool" where
  "server_possible H [] s \<longleftrightarrow> True"
| "server_possible H (e # es) s \<longleftrightarrow> server_enabled e s \<and>
     (case exec_server H e s of Inl f \<Rightarrow> True | Inr t \<Rightarrow> server_possible H es t)"

text \<open>\<open>Stop\<close>: \<open>es\<close> is what the context's thread still does before it sees the request and
  returns.\<close>

definition Stop :: "server_hooks \<Rightarrow> server_event list \<Rightarrow> server \<Rightarrow> fault + server" where
  "Stop H es s =
     bind_res (if thread_running s then run_server H es (s\<lparr>ctx_stopped := True\<rparr>)
               else Inr (s\<lparr>ctx_stopped := True\<rparr>))
       (\<lambda>t. Inr (print ''[SERVER] Stopped!'' (t\<lparr>thread_running := False\<rparr>)))"

lemmas [server_defs] =
  WaitForClientConnection_def make_connection_def approve_def accept_handler_def legitimate_def
  MessageClient_def MessageAllClients_def Custom_OnClientConnect_def Custom_OnClientDisconnect_def
  Custom_MessageAllClients_def Custom_OnMessage_def CustomServer_hooks_def ServerInterface_hooks_def

end
