(* ===== verification/Connection_Scope.thy ===== *)
theory Connection_Scope
  imports Connection_Reader
begin

text \<open>
  The connections a process is busy with: an event of the context only concerns the connection whose
  task or operation it completes. If all pending work belongs to addresses in a set, so does the
  work that follows from it, and the objects outside the set stay as they are.
\<close>

primrec target :: "task \<Rightarrow> nat" where
  "target (SendTask p m) = p"
| "target (CloseTask p) = p"

definition confined :: "(nat \<Rightarrow> bool) \<Rightarrow> 'a process_scheme \<Rightarrow> bool" where
  "confined P s \<longleftrightarrow> (\<forall>x \<in> set (started s). P (fst x)) \<and> (\<forall>tk \<in> set (tasks s). P (target tk))"

primrec event_within :: "(nat \<Rightarrow> bool) \<Rightarrow> event \<Rightarrow> bool" where
  "event_within P (Call_Send p m) = P p"
| "event_within P (Call_Disconnect p) = P p"
| "event_within P Run_task = True"
| "event_within P (Complete i ec d) = True"

lemma run_task_confined:
  assumes "run_task tk s = Inr t" and "P (target tk)" and "confined P s"
  shows "confined P t \<and> (\<forall>p. \<not> P p \<longrightarrow> heap t p = heap s p)"
  using assms
  by (cases tk) (auto simp: confined_def conn_defs bind_res_Inr_iff Let_def split: if_splits)

lemma complete_op_confined:
  assumes "complete_op q op ec d s = Inr t" and "P q" and "confined P s"
  shows "confined P t \<and> (\<forall>p. \<not> P p \<longrightarrow> heap t p = heap s p)"
  using assms
  by (cases op)
    (auto simp: confined_def conn_defs store_header_def store_body_def transmit_def
      bind_res_Inr_iff Let_def split: if_splits owner.splits)

lemma confined_started: "confined P s \<Longrightarrow> i < length (started s) \<Longrightarrow> started s ! i = (q, op, live) \<Longrightarrow> P q"
  by (auto simp: confined_def dest!: nth_mem)

lemma confined_step:
  assumes "confined P s" and "enabled e s" and "event_within P e" and "exec_event e s = Inr t"
  shows "confined P t \<and> (\<forall>p. \<not> P p \<longrightarrow> heap t p = heap s p)"
proof (cases e)
  case Run_task
  with assms(2) obtain tk ts where tk: "tasks s = tk # ts" by (cases "tasks s") auto
  have "confined P (s\<lparr>tasks := ts\<rparr>)" and "P (target tk)"
    using assms(1) tk by (auto simp: confined_def)
  with run_task_confined [of tk "s\<lparr>tasks := ts\<rparr>" t] assms(4) Run_task tk show ?thesis by simp
next
  case (Complete i ec d)
  with assms(2) obtain q op live where i: "i < length (started s)" "started s ! i = (q, op, live)"
    by (auto split: prod.splits)
  have "confined P (s\<lparr>started := remove_nth i (started s)\<rparr>)"
    using assms(1) set_remove_nth [of i "started s"] by (auto simp: confined_def)
  with complete_op_confined [of q op ec d "s\<lparr>started := remove_nth i (started s)\<rparr>" t] assms(4) Complete i
    confined_started [OF assms(1) i]
  show ?thesis by simp
qed (use assms in \<open>auto simp: confined_def Send_def Disconnect_def split: if_splits\<close>)

section \<open>A process with one connection\<close>

text \<open>
  A client puts the null pointer next to every message. When all its work belongs to one
  connection, everything in the queue comes from that connection.
\<close>

definition client_inbox :: "'a process_scheme \<Rightarrow> messageBody list" where
  "client_inbox s = map own_msg (deqQueue (qMessagesIn s))"

lemma client_inbox_step:
  assumes con: "confined (\<lambda>q. q = p) s" and en: "enabled e s" and ex: "exec_event e s = Inr t"
  shows "client_inbox t = client_inbox s @ arrived_now p e s"
proof (cases e)
  case Run_task
  with en obtain tk ts where "tasks s = tk # ts" by (cases "tasks s") auto
  with Run_task ex have "run_task tk (s\<lparr>tasks := ts\<rparr>) = Inr t" by simp
  then have "qMessagesIn t = qMessagesIn s"
    by (cases tk) (auto simp: conn_defs bind_res_Inr_iff Let_def split: if_splits)
  with Run_task show ?thesis by (simp add: client_inbox_def)
next
  case (Complete i ec d)
  with en obtain q op live where i: "i < length (started s)" "started s ! i = (q, op, live)"
    by (auto split: prod.splits)
  have "q = p" using confined_started [OF con i] .
  with complete_op_inbox [of q op ec d "s\<lparr>started := remove_nth i (started s)\<rparr>" t] ex Complete i
  show ?thesis by (simp add: client_inbox_def arrived_def comp_def)
qed (use ex in \<open>auto simp: client_inbox_def Send_def Disconnect_def\<close>)

lemma client_inbox_run:
  "confined (\<lambda>q. q = p) s \<Longrightarrow> \<forall>e \<in> set es. event_within (\<lambda>q. q = p) e \<Longrightarrow> possible es s \<Longrightarrow>
     run_events es s = Inr t \<Longrightarrow> client_inbox t = client_inbox s @ arrived_in p es s"
proof (induction es arbitrary: s)
  case Nil
  then show ?case by simp
next
  case (Cons e es)
  then obtain u where u: "exec_event e s = Inr u" "run_events es u = Inr t"
    by (auto simp: bind_res_Inr_iff)
  with Cons.prems have "client_inbox u = client_inbox s @ arrived_now p e s" by (simp add: client_inbox_step)
  moreover have "confined (\<lambda>q. q = p) u" using confined_step [of "\<lambda>q. q = p" s e u] u(1) Cons.prems by simp
  ultimately show ?case using Cons u by simp
qed

end
