(* ===== verification/Server_Invariant.thy ===== *)
theory Server_Invariant
  imports Server Connection_Scope
begin

text \<open>
  The invariant of the running server and its consequences: every pointer it follows names a
  connection that exists, so \<open>CustomServer\<close> never runs into a fault as long as accepted peers are
  still there when they are named and \<open>MessageClient\<close> is not handed a null pointer.
\<close>

section \<open>What the primitives leave alone\<close>

lemma prim_server [simp]:
  "deqConnections (on_conn p f s) = deqConnections s" "deqConnections (start_op p op s) = deqConnections s"
  "deqConnections (post t s) = deqConnections s" "deqConnections (print l s) = deqConnections s"
  "nIDCounter (on_conn p f s) = nIDCounter s" "nIDCounter (start_op p op s) = nIDCounter s"
  "nIDCounter (post t s) = nIDCounter s" "nIDCounter (print l s) = nIDCounter s"
  "next_conn (on_conn p f s) = next_conn s" "next_conn (start_op p op s) = next_conn s"
  "next_conn (post t s) = next_conn s" "next_conn (print l s) = next_conn s"
  by (simp_all add: prim_defs)

definition server_fields :: "server \<Rightarrow> nat option list \<times> u32 \<times> nat" where
  "server_fields s = (deqConnections s, nIDCounter s, next_conn s)"

lemma run_task_fields: "run_task tk s = Inr t \<Longrightarrow> server_fields t = server_fields s"
  by (cases tk) (auto simp: server_fields_def conn_defs bind_res_Inr_iff Let_def split: if_splits)

lemma complete_op_fields: "complete_op p op ec d s = Inr t \<Longrightarrow> server_fields t = server_fields s"
  by (cases op)
    (auto simp: server_fields_def conn_defs store_header_def store_body_def transmit_def
      bind_res_Inr_iff Let_def split: if_splits owner.splits)

lemma exec_event_fields:
  assumes "exec_event e s = Inr t"
  shows "server_fields t = server_fields s"
proof (cases e)
  case Run_task
  show ?thesis
  proof (cases "tasks s")
    case (Cons tk ts)
    with assms Run_task run_task_fields [of tk "s\<lparr>tasks := ts\<rparr>" t] show ?thesis
      by (simp add: server_fields_def)
  qed (use assms Run_task in simp)
next
  case (Complete i ec d)
  obtain q op live where i: "started s ! i = (q, op, live)" by (cases "started s ! i") auto
  with assms Complete complete_op_fields [of q op ec d "s\<lparr>started := remove_nth i (started s)\<rparr>" t]
  show ?thesis by (simp add: server_fields_def)
qed (use assms in \<open>auto simp: server_fields_def Send_def Disconnect_def\<close>)

section \<open>Only existing connections\<close>

abbreviation bounded :: "nat \<Rightarrow> 'a process_scheme \<Rightarrow> bool" where
  "bounded n \<equiv> confined (\<lambda>p. p < n)"

lemmas bounded_def = confined_def

lemma bounded_step:
  assumes "bounded (next_conn s) s" and "enabled e s" and "names_existing e s" and "exec_event e s = Inr t"
  shows "bounded (next_conn s) t \<and> (\<forall>p\<ge>next_conn s. heap t p = heap s p)"
  using confined_step [OF assms(1,2) _ assms(4)] assms(3) by (cases e) auto

section \<open>The invariant\<close>

definition server_ok :: "server \<Rightarrow> bool" where
  "server_ok s \<longleftrightarrow>
     None \<notin> set (deqConnections s) \<and> distinct (deqConnections s) \<and>
     (\<forall>p. Some p \<in> set (deqConnections s) \<longrightarrow> p < next_conn s) \<and>
     (\<forall>om \<in> set (deqQueue (qMessagesIn s)). \<exists>p<next_conn s. remote om = Some p) \<and>
     (\<forall>p. nOwnerType (heap s p) = owner_server) \<and>
     bounded (next_conn s) s \<and>
     (\<forall>p\<ge>next_conn s. heap s p = connection_new owner_server False) \<and>
     (\<forall>p. \<exists>st. writer_ok p st s)"

lemma server_okD:
  assumes "server_ok s"
  shows "None \<notin> set (deqConnections s)" and "distinct (deqConnections s)"
    and "Some p \<in> set (deqConnections s) \<Longrightarrow> p < next_conn s"
    and "om \<in> set (deqQueue (qMessagesIn s)) \<Longrightarrow> \<exists>p<next_conn s. remote om = Some p"
    and "nOwnerType (heap s p) = owner_server" and "bounded (next_conn s) s"
    and "next_conn s \<le> p \<Longrightarrow> heap s p = connection_new owner_server False"
    and "\<exists>st. writer_ok p st s"
  using assms by (simp_all add: server_ok_def)

lemma init_ok: "server_ok ServerInterface_init"
  by (simp add: server_ok_def ServerInterface_init_def bounded_def connection_new_def writer_ok_def)

text \<open>The invariant reads only these members.\<close>

lemma server_ok_cong:
  assumes "server_ok s" and "heap t = heap s" and "started t = started s" and "tasks t = tasks s"
    and "qMessagesIn t = qMessagesIn s" and "deqConnections t = deqConnections s" and "next_conn t = next_conn s"
  shows "server_ok t"
  using assms by (simp add: server_ok_def bounded_def writer_ok_def)

text \<open>An application step sends and prints, and may drop connections and messages.\<close>

definition app_step :: "server \<Rightarrow> server \<Rightarrow> bool" where
  "app_step s t \<longleftrightarrow> heap t = heap s \<and> started t = started s \<and> next_conn t = next_conn s \<and>
     nIDCounter t = nIDCounter s \<and> accepting t = accepting s \<and>
     set (deqQueue (qMessagesIn t)) \<subseteq> set (deqQueue (qMessagesIn s)) \<and>
     subseq (deqConnections t) (deqConnections s) \<and>
     (\<exists>ts. tasks t = tasks s @ ts \<and> (\<forall>tk \<in> set ts. target tk < next_conn s))"

lemma subseq_set: "subseq xs ys \<Longrightarrow> set xs \<subseteq> set ys"
  by (induction rule: list_emb.induct) auto

lemma subseq_distinct: "subseq xs ys \<Longrightarrow> distinct ys \<Longrightarrow> distinct xs"
  by (induction rule: list_emb.induct) (use subseq_set in fastforce)+

lemma app_step_refl: "app_step s s"
  by (simp add: app_step_def)

lemma app_step_trans: "app_step s t \<Longrightarrow> app_step t u \<Longrightarrow> app_step s u"
  unfolding app_step_def by (auto intro: subseq_order.trans)

lemma app_step_print: "app_step s (print l s)"
  by (simp add: app_step_def) (simp add: prim_defs)

lemma app_step_Send: "p < next_conn s \<Longrightarrow> app_step s (Send p m s)"
  by (simp add: app_step_def Send_def) (simp add: prim_defs)

lemma app_step_ok:
  assumes "server_ok s" and "app_step s t"
  shows "server_ok t"
proof -
  have same: "heap t = heap s" "started t = started s" "next_conn t = next_conn s"
    using assms(2) by (simp_all add: app_step_def)
  have conns: "set (deqConnections t) \<subseteq> set (deqConnections s)" "distinct (deqConnections t)"
    using assms by (auto simp: app_step_def server_ok_def intro: subseq_distinct dest: subseq_set)
  have box: "set (deqQueue (qMessagesIn t)) \<subseteq> set (deqQueue (qMessagesIn s))"
    using assms(2) by (simp add: app_step_def)
  have "bounded (next_conn t) t" using assms by (auto simp: app_step_def server_ok_def bounded_def)
  moreover have "\<exists>st. writer_ok p st t" for p
    using server_okD(8) [OF assms(1), of p] same by (simp add: writer_ok_def)
  ultimately show ?thesis
    using assms(1) same conns box by (auto simp: server_ok_def)
qed

section \<open>Custom server steps\<close>

abbreviation all_clients_hooks :: server_hooks where
  "all_clients_hooks \<equiv> ServerInterface_hooks\<lparr>on_disconnect := Custom_OnClientDisconnect\<rparr>"

lemma legitimate_cong: "heap t = heap s \<Longrightarrow> legitimate c t = legitimate c s"
  by (auto simp: legitimate_def IsConnected_def split: option.splits)

text \<open>What the broadcast loop does, for the two hook records that carry the custom disconnect
  function.\<close>

lemma Send_fields:
  "heap (Send p m s) = heap s" "started (Send p m s) = started s" "qMessagesIn (Send p m s) = qMessagesIn s"
  "deqConnections (Send p m s) = deqConnections s" "next_conn (Send p m s) = next_conn s"
  "tasks (Send p m s) = tasks s @ [SendTask p m]" "console (Send p m s) = console s"
  by (simp_all add: Send_def) (simp add: prim_defs)

definition recipients :: "nat option \<Rightarrow> nat option list \<Rightarrow> server \<Rightarrow> nat list" where
  "recipients ignore cs s = map the (filter (\<lambda>c. legitimate c s \<and> c \<noteq> ignore) cs)"

definition goodbye :: "server \<Rightarrow> nat option \<Rightarrow> string" where
  "goodbye s c = ''Removing client ['' @ show_nat (unat (GetID (the c) s)) @ '']''"

lemma goodbye_cong: "heap t = heap s \<Longrightarrow> goodbye t = goodbye s"
  by (rule ext) (simp add: goodbye_def GetID_def)

lemma Custom_OnClientDisconnect_Some:
  "Custom_OnClientDisconnect (Some p) s = Inr (print (goodbye s (Some p)) s)"
  by (simp add: Custom_OnClientDisconnect_def goodbye_def)

lemma message_all_loop_custom:
  assumes "on_disconnect H = Custom_OnClientDisconnect" and "None \<notin> set cs"
  shows "\<exists>t. message_all_loop H msg ignore cs s =
      Inr (map (\<lambda>c. if legitimate c s then c else None) cs, \<exists>c \<in> set cs. \<not> legitimate c s, t) \<and>
    t = s\<lparr>tasks := tasks s @ map (\<lambda>p. SendTask p msg) (recipients ignore cs s),
          console := console s @ map (goodbye s) (filter (\<lambda>c. \<not> legitimate c s) cs)\<rparr>"
  using assms(2)
proof (induction cs arbitrary: s)
  case Nil
  then show ?case by (simp add: recipients_def)
next
  case (Cons c cs)
  then obtain p where c: "c = Some p" by (cases c) auto
  let ?u = "if legitimate c s then (if c \<noteq> ignore then Send p msg s else s) else print (goodbye s c) s"
  have h: "heap ?u = heap s" by (simp add: Send_fields)
  have leg: "legitimate d ?u = legitimate d s" for d by (rule legitimate_cong [OF h])
  have bye: "goodbye ?u = goodbye s" by (rule goodbye_cong [OF h])
  have rec: "recipients ignore cs ?u = recipients ignore cs s" by (simp only: recipients_def leg)
  have IH: "message_all_loop H msg ignore cs ?u =
      Inr (map (\<lambda>c. if legitimate c s then c else None) cs, \<exists>c \<in> set cs. \<not> legitimate c s,
        ?u\<lparr>tasks := tasks ?u @ map (\<lambda>p. SendTask p msg) (recipients ignore cs s),
          console := console ?u @ map (goodbye s) (filter (\<lambda>c. \<not> legitimate c s) cs)\<rparr>)"
    using Cons.IH [of ?u] Cons.prems by (simp only: leg bye rec) simp
  show ?case
  proof (cases "legitimate c s")
    case True
    with IH c show ?thesis
      by (cases "c = ignore") (simp_all add: recipients_def Send_def post_def Let_def)
  next
    case False
    then have "on_disconnect H c s = Inr ?u"
      using assms(1) c by (simp add: Custom_OnClientDisconnect_Some)
    with IH c False show ?thesis by (simp add: recipients_def print_def)
  qed
qed

text \<open>The whole broadcast.\<close>

lemma filter_marked:
  "None \<notin> set cs \<Longrightarrow>
   filter (\<lambda>c. c \<noteq> None) (map (\<lambda>c. if P c then c else None) cs) = filter P cs"
  by (induction cs) auto

lemma unmarked: "\<forall>c \<in> set cs. P c \<Longrightarrow> map (\<lambda>c. if P c then c else None) cs = cs"
  by (induction cs) auto

definition broadcast_result :: "messageBody \<Rightarrow> nat option \<Rightarrow> server \<Rightarrow> server" where
  "broadcast_result msg ignore s =
     s\<lparr>tasks := tasks s @ map (\<lambda>p. SendTask p msg) (recipients ignore (deqConnections s) s),
       console := console s @ map (goodbye s) (filter (\<lambda>c. \<not> legitimate c s) (deqConnections s)),
       deqConnections := filter (\<lambda>c. legitimate c s) (deqConnections s)\<rparr>"

lemma MessageAllClients_custom:
  assumes "on_disconnect H = Custom_OnClientDisconnect" and "None \<notin> set (deqConnections s)"
  shows "MessageAllClients H msg ignore s = Inr (broadcast_result msg ignore s)"
proof -
  let ?cs = "deqConnections s"
  have all: "\<not> (\<exists>c \<in> set ?cs. \<not> legitimate c s) \<Longrightarrow> filter (\<lambda>c. legitimate c s) ?cs = ?cs"
    by (auto simp: filter_id_conv)
  show ?thesis
    using message_all_loop_custom [OF assms, of msg ignore s] filter_marked [OF assms(2), of "\<lambda>c. legitimate c s"]
      unmarked [of ?cs "\<lambda>c. legitimate c s"] all
    by (auto simp: MessageAllClients_def broadcast_result_def)
qed

lemma recipients_bounded:
  assumes "server_ok s"
  shows "p \<in> set (recipients ignore (deqConnections s) s) \<Longrightarrow> p < next_conn s"
  using assms by (auto simp: recipients_def server_ok_def legitimate_def split: option.splits)

lemma app_step_broadcast: "server_ok s \<Longrightarrow> app_step s (broadcast_result msg ignore s)"
  using recipients_bounded by (auto simp: app_step_def broadcast_result_def)

lemma Custom_MessageAllClients_eq:
  "None \<notin> set (deqConnections s) \<Longrightarrow> Custom_MessageAllClients msg ignore s = Inr (broadcast_result msg ignore s)"
  unfolding Custom_MessageAllClients_def by (rule MessageAllClients_custom) simp_all

text \<open>Handling one message.\<close>

lemma Custom_OnMessage_step:
  assumes "server_ok s" and "p < next_conn s"
  shows "\<exists>t. Custom_OnMessage (Some p) msg s = Inr t \<and> app_step s t"
proof -
  have pr: "server_ok (print l s)" "app_step s (print l s)" "next_conn (print l s) = next_conn s" for l
    using app_step_ok [OF assms(1) app_step_print] app_step_print by simp_all
  have "None \<notin> set (deqConnections (print l s))" for l by (rule server_okD(1) [OF pr(1)])
  moreover have "app_step s (Send p msg (print l s))" for l
    using app_step_trans [OF pr(2) app_step_Send [of p "print l s"]] assms(2) by simp
  moreover have "app_step s (broadcast_result m c (print l s))" for m c l
    using app_step_trans [OF pr(2) app_step_broadcast [OF pr(1)]] .
  ultimately show ?thesis
    by (simp add: Custom_OnMessage_def Custom_MessageAllClients_eq Let_def app_step_refl)
qed

section \<open>The update loop\<close>

text \<open>
  A message handler that neither reads nor writes the incoming queue. The loop then hands the
  first messages of the queue to it, in their order, and leaves the others in the queue.
\<close>

fun handle_all :: "(nat option \<Rightarrow> messageBody \<Rightarrow> server \<Rightarrow> fault + server) \<Rightarrow> ownedMessage list \<Rightarrow> server \<Rightarrow> fault + server" where
  "handle_all h [] s = Inr s"
| "handle_all h (om # oms) s = bind_res (h (remote om) (own_msg om) s) (handle_all h oms)"

definition with_inbox :: "ownedMessage list \<Rightarrow> server \<Rightarrow> server" where
  "with_inbox oms s = s\<lparr>qMessagesIn := (qMessagesIn s)\<lparr>deqQueue := oms\<rparr>\<rparr>"

lemma with_inbox_simps [simp]:
  "deqQueue (qMessagesIn (with_inbox oms s)) = oms"
  "with_inbox oms (with_inbox oms' s) = with_inbox oms s"
  "with_inbox (deqQueue (qMessagesIn s)) s = s"
  by (simp_all add: with_inbox_def)

locale message_handler =
  fixes on_msg :: "nat option \<Rightarrow> messageBody \<Rightarrow> server \<Rightarrow> fault + server"
  assumes inbox_free: "on_msg c m (with_inbox oms s) = map_res (with_inbox oms) (on_msg c m s)"
begin

lemma update_handles:
  assumes "on_message H = on_msg"
  shows "Update_loop H n c (with_inbox oms s) =
    map_res (with_inbox (drop (unat n - unat c) oms)) (handle_all on_msg (take (unat n - unat c) oms) s)"
proof (induction oms arbitrary: c s)
  case Nil
  then show ?case by (subst Update_loop.simps) simp
next
  case (Cons om oms)
  show ?case
  proof (cases "c < n")
    case True
    then have k: "unat n - unat c = Suc (unat n - unat (c + 1))"
      using count_up [OF True] by (simp add: word_less_nat_alt)
    have pop: "tsq_pop_front (qMessagesIn (with_inbox (om # oms) s)) =
      Inr (om, (qMessagesIn (with_inbox (om # oms) s))\<lparr>deqQueue := oms\<rparr>)"
      by (rule tsq_pop_front_Cons) simp
    have rest: "(with_inbox (om # oms) s)\<lparr>qMessagesIn := (qMessagesIn (with_inbox (om # oms) s))\<lparr>deqQueue := oms\<rparr>\<rparr> =
      with_inbox oms s" by (simp add: with_inbox_def)
    have "Update_loop H n c (with_inbox (om # oms) s) =
      bind_res (on_msg (remote om) (own_msg om) s) (\<lambda>t. Update_loop H n (c + 1) (with_inbox oms t))"
      by (subst Update_loop.simps) (simp add: True pop rest assms inbox_free bind_map_res)
    also have "\<dots> = map_res (with_inbox (drop (unat n - unat c) (om # oms)))
        (handle_all on_msg (take (unat n - unat c) (om # oms)) s)"
      by (simp add: Cons.IH k map_res_bind)
    finally show ?thesis .
  next
    case False
    then have "unat n - unat c = 0" by (simp add: word_less_nat_alt)
    with False show ?thesis by (subst Update_loop.simps) simp
  qed
qed

lemma update_takes:
  assumes "on_message H = on_msg"
  shows "Update_loop H n 0 s =
    map_res (with_inbox (drop (unat n) (deqQueue (qMessagesIn s))))
      (handle_all on_msg (take (unat n) (deqQueue (qMessagesIn s))) s)"
  using update_handles [OF assms, of n 0 "deqQueue (qMessagesIn s)" s] by simp

end

lemma with_inbox_Send: "Send p m (with_inbox oms s) = with_inbox oms (Send p m s)"
  by (simp add: Send_def prim_defs with_inbox_def)

lemma with_inbox_print: "print l (with_inbox oms s) = with_inbox oms (print l s)"
  by (simp add: prim_defs with_inbox_def)

lemma with_inbox_fields [simp]:
  "heap (with_inbox oms s) = heap s" "deqConnections (with_inbox oms s) = deqConnections s"
  by (simp_all add: with_inbox_def)

lemma with_inbox_legitimate [simp]: "legitimate c (with_inbox oms s) = legitimate c s"
  by (rule legitimate_cong) simp

lemma message_all_loop_inbox:
  "message_all_loop all_clients_hooks msg ignore cs (with_inbox oms s) =
     map_res (\<lambda>(cs', found, t). (cs', found, with_inbox oms t)) (message_all_loop all_clients_hooks msg ignore cs s)"
proof (induction cs arbitrary: s)
  case Nil
  then show ?case by simp
next
  case (Cons c cs)
  show ?case
  proof (cases "legitimate c s")
    case True
    with Cons.IH show ?thesis
      by (cases "c = ignore")
        (simp_all add: with_inbox_Send bind_map_res map_res_bind split_def Let_def)
  next
    case False
    with Cons.IH show ?thesis
      by (cases c)
        (simp_all add: Custom_OnClientDisconnect_def GetID_def with_inbox_print bind_map_res map_res_bind split_def)
  qed
qed

lemma with_inbox_deq:
  "(with_inbox oms s)\<lparr>deqConnections := cs\<rparr> = with_inbox oms (s\<lparr>deqConnections := cs\<rparr>)"
  by (simp add: with_inbox_def)

lemma Custom_MessageAllClients_inbox:
  "Custom_MessageAllClients msg ignore (with_inbox oms s) = map_res (with_inbox oms) (Custom_MessageAllClients msg ignore s)"
  by (cases "message_all_loop all_clients_hooks msg ignore (deqConnections s) s")
    (auto simp: Custom_MessageAllClients_def MessageAllClients_def message_all_loop_inbox with_inbox_deq)

interpretation custom_handler: message_handler Custom_OnMessage
  by unfold_locales
    (simp add: Custom_OnMessage_def GetID_def with_inbox_Send with_inbox_print Custom_MessageAllClients_inbox
      Let_def split: option.split)

lemma handle_all_custom:
  assumes "server_ok s" and "\<forall>om \<in> set oms. \<exists>p<next_conn s. remote om = Some p"
  shows "\<exists>t. handle_all Custom_OnMessage oms s = Inr t \<and> app_step s t"
  using assms
proof (induction oms arbitrary: s)
  case Nil
  then show ?case by (simp add: app_step_refl)
next
  case (Cons om oms)
  then obtain p where "p < next_conn s" "remote om = Some p" by auto
  with Cons.prems obtain u where u: "Custom_OnMessage (remote om) (own_msg om) s = Inr u" "app_step s u"
    using Custom_OnMessage_step by metis
  then have "server_ok u" and "next_conn u = next_conn s"
    using app_step_ok Cons.prems by (auto simp: app_step_def)
  with Cons.IH [of u] Cons.prems(2) obtain t where "handle_all Custom_OnMessage oms u = Inr t" "app_step u t"
    by auto
  with u app_step_trans show ?case by auto
qed

section \<open>Every event keeps the invariant\<close>

lemma io_event_ok:
  assumes ok: "server_ok s" and en: "enabled e s" "names_existing e s" and ex: "exec_event e s = Inr t"
  shows "server_ok t"
proof -
  have f: "deqConnections t = deqConnections s" "next_conn t = next_conn s"
    using exec_event_fields [OF ex] by (simp_all add: server_fields_def)
  have b: "bounded (next_conn s) t" "next_conn s \<le> p \<Longrightarrow> heap t p = heap s p" for p
    using bounded_step [OF server_okD(6) [OF ok] en ex] by simp_all
  have own: "nOwnerType (heap t p) = owner_server" for p
    using owner_step [OF ex en(1), of p] server_okD(5) [OF ok] by simp
  have w: "\<exists>st. writer_ok p st t" for p
    using writer_step [OF _ en(1) ex] server_okD(8) [OF ok, of p] by blast
  have box: "\<exists>p<next_conn s. remote om = Some p" if om: "om \<in> set (deqQueue (qMessagesIn t))" for om
  proof (cases e)
    case Run_task
    with en obtain tk ts where "tasks s = tk # ts" by (cases "tasks s") auto
    with Run_task ex have "run_task tk (s\<lparr>tasks := ts\<rparr>) = Inr t" by simp
    then have "qMessagesIn t = qMessagesIn s"
      by (cases tk) (auto simp: conn_defs bind_res_Inr_iff Let_def split: if_splits)
    with om server_okD(4) [OF ok] show ?thesis by simp
  next
    case (Complete i ec d)
    with en obtain q op live where i: "i < length (started s)" "started s ! i = (q, op, live)"
      by (auto split: prod.splits)
    then have "(q, op, live) \<in> set (started s)" using nth_mem by metis
    then have "q < next_conn s" using server_okD(6) [OF ok] by (auto simp: bounded_def)
    with complete_op_inbox [of q op ec d "s\<lparr>started := remove_nth i (started s)\<rparr>" t] ex Complete i om
      server_okD(4,5) [OF ok]
    show ?thesis by (auto simp: tag_of_def)
  qed (use om ex server_okD(4) [OF ok] in \<open>auto simp: Send_def Disconnect_def split: if_splits\<close>)
  show ?thesis
    using ok b f own w box by (simp add: server_ok_def)
qed

text \<open>A new connection.\<close>

lemma make_connection_ok:
  assumes "server_ok s" and "make_connection s = (p, t)"
  shows "server_ok t" and "p < next_conn t" and "Some p \<notin> set (deqConnections t)"
    and "sock_open (heap t p)" and "ops_of P p (started t) = []" and "msgTemporaryIn (heap t p) = messageBody_init"
proof -
  have pt: "p = next_conn s" "t = s\<lparr>heap := (heap s)(next_conn s := connection_new owner_server True),
      next_conn := Suc (next_conn s)\<rparr>"
    using assms(2) by (auto simp: make_connection_def)
  have none: "ops_of P p (started s) = []" for P
    using server_okD(6) [OF assms(1)] pt(1) by (fastforce simp: ops_of_def bounded_def filter_empty_conv)
  show "Some p \<notin> set (deqConnections t)" using server_okD(3) [OF assms(1)] pt by auto
  show "p < next_conn t" "sock_open (heap t p)" "msgTemporaryIn (heap t p) = messageBody_init"
    "ops_of P p (started t) = []"
    using pt none by (simp_all add: connection_new_def)
  have "bounded (next_conn t) t"
    using server_okD(6) [OF assms(1)] pt by (fastforce simp: bounded_def)
  moreover have "\<exists>st. writer_ok q st t" for q
  proof (cases "q = p")
    case True
    have "writer_ok p [] t" using none pt by (simp add: writer_ok_def connection_new_def)
    with True show ?thesis by blast
  next
    case False
    with server_okD(8) [OF assms(1), of q] pt show ?thesis by (simp add: writer_ok_def)
  qed
  moreover have "\<forall>om \<in> set (deqQueue (qMessagesIn t)). \<exists>p<next_conn t. remote om = Some p"
    using server_okD(4) [OF assms(1)] pt less_SucI by fastforce
  moreover have "\<forall>p. Some p \<in> set (deqConnections t) \<longrightarrow> p < next_conn t"
    using server_okD(3) [OF assms(1)] pt less_SucI by fastforce
  ultimately show "server_ok t"
    using assms(1) pt by (auto simp: server_ok_def connection_new_def)
qed

lemma approve_ok:
  assumes ok: "server_ok s" and p: "p < next_conn s" "Some p \<notin> set (deqConnections s)"
  shows "server_ok (approve p s)"
proof -
  let ?a = "s\<lparr>deqConnections := deqConnections s @ [Some p], nIDCounter := nIDCounter s + 1\<rparr>"
  have a: "server_ok ?a"
    using ok p by (auto simp: server_ok_def bounded_def writer_ok_def)
  have w: "\<exists>st. writer_ok q st (ConnectToClient p u ?a)" for q u
  proof -
    obtain st where "writer_phase (ops_of is_write q (started ?a)) (heap ?a q) st"
      using server_okD(8) [OF a, of q] by (auto simp: writer_ok_def)
    then have "writer_phase (ops_of is_write q (started ?a)) (heap (ConnectToClient p u ?a) q) st"
      by (rule writer_phase_cong [rotated 3]) (simp_all add: ConnectToClient_def ReadHeader_def)
    moreover have "ops_of is_write q (started (ConnectToClient p u ?a)) = ops_of is_write q (started ?a)"
      by (simp add: ConnectToClient_def ReadHeader_def)
    ultimately show ?thesis by (auto simp: writer_ok_def)
  qed
  have "server_ok (ConnectToClient p u ?a)" for u
  proof -
    have "bounded (next_conn s) (ConnectToClient p u ?a)"
      using server_okD(6) [OF a] p(1) by (auto simp: bounded_def ConnectToClient_def ReadHeader_def)
    moreover have "\<forall>q\<ge>next_conn s. heap (ConnectToClient p u ?a) q = heap s q"
      using p(1) by (simp add: ConnectToClient_def ReadHeader_def)
    ultimately show ?thesis
      using a w [of _ u] by (auto simp: server_ok_def ConnectToClient_def ReadHeader_def)
  qed
  then show ?thesis
    using app_step_ok [OF _ app_step_print] by (simp add: approve_def Let_def)
qed

text \<open>
  The two ways to a fault: a peer that is gone before it is named, and a null pointer handed to
  \<open>MessageClient\<close>. Every other event of the custom server succeeds.
\<close>

primrec harmless :: "server_event \<Rightarrow> bool" where
  "harmless (Io e) = True"
| "harmless (Accepted ec peer txt) = (failed ec \<or> peer \<noteq> None)"
| "harmless (Call_Update n w) = True"
| "harmless (Call_MessageClient c m) = (c \<noteq> None)"
| "harmless (Call_MessageAll m c) = True"

lemma WaitForClientConnection_ok: "server_ok (WaitForClientConnection s) = server_ok s"
  by (auto simp: server_ok_def WaitForClientConnection_def bounded_def writer_ok_def)

lemma accept_count_ok: "server_ok (s\<lparr>accepting := n\<rparr>) = server_ok s"
  by (auto simp: server_ok_def bounded_def writer_ok_def)

text \<open>What the custom server does with an accepted connection.\<close>

lemma custom_accept_eq:
  assumes "\<not> failed ec" and "make_connection (print (''[SERVER] New Connection: '' @ ep) s) = (p, s1)"
  shows "accept_handler CustomServer_hooks ec (Some ep) txt s =
    Inr (WaitForClientConnection (approve p (Send p (msg_of ServerAccept) s1)))"
  using assms by (simp add: accept_handler_def CustomServer_hooks_def Custom_OnClientConnect_def)

lemma custom_accept_ok:
  assumes ok: "server_ok s" and h: "failed ec \<or> peer \<noteq> None"
  shows "\<exists>t. accept_handler CustomServer_hooks ec peer txt s = Inr t \<and> server_ok t"
proof (cases "failed ec")
  case True
  with app_step_ok [OF ok app_step_print] show ?thesis
    by (simp add: accept_handler_def WaitForClientConnection_ok)
next
  case False
  with h obtain ep where ep: "peer = Some ep" by auto
  obtain p s1 where mk: "make_connection (print (''[SERVER] New Connection: '' @ ep) s) = (p, s1)"
    by (cases "make_connection (print (''[SERVER] New Connection: '' @ ep) s)") auto
  note new = make_connection_ok [OF app_step_ok [OF ok app_step_print] mk]
  have "server_ok (approve p (Send p (msg_of ServerAccept) s1))"
    by (rule approve_ok)
      (use app_step_ok [OF new(1) app_step_Send [OF new(2)]] new in \<open>simp_all add: Send_fields\<close>)
  with custom_accept_eq [OF False mk] ep show ?thesis by (simp add: WaitForClientConnection_ok)
qed

lemma with_inbox_app_step:
  assumes "app_step s t" and "set oms \<subseteq> set (deqQueue (qMessagesIn s))"
  shows "app_step s (with_inbox oms t)"
  using assms by (simp add: app_step_def with_inbox_def)

lemma custom_update_ok:
  assumes "server_ok s"
  shows "\<exists>t. Update_loop CustomServer_hooks n 0 s = Inr t \<and> app_step s t"
proof -
  let ?in = "deqQueue (qMessagesIn s)"
  have "\<forall>om \<in> set (take (unat n) ?in). \<exists>p<next_conn s. remote om = Some p"
    using server_okD(4) [OF assms] in_set_takeD by metis
  from handle_all_custom [OF assms this] obtain t where
    t: "handle_all Custom_OnMessage (take (unat n) ?in) s = Inr t" "app_step s t" by blast
  have "Update_loop CustomServer_hooks n 0 s = Inr (with_inbox (drop (unat n) ?in) t)"
    using custom_handler.update_takes [of CustomServer_hooks n s] t(1)
    by (simp add: CustomServer_hooks_def)
  moreover have "app_step s (with_inbox (drop (unat n) ?in) t)"
    by (rule with_inbox_app_step [OF t(2)]) (rule set_drop_subset)
  ultimately show ?thesis by blast
qed

lemma MessageClient_custom:
  assumes "None \<notin> set (deqConnections s)"
  shows "MessageClient CustomServer_hooks (Some p) m s =
    Inr (if IsConnected p s then Send p m s else print (goodbye s (Some p)) s)"
proof -
  have "filter (\<lambda>c. c \<noteq> None) (deqConnections s) = deqConnections s"
    using assms by (metis (mono_tags, lifting) filter_True)
  then show ?thesis
    by (simp add: MessageClient_def legitimate_def CustomServer_hooks_def Custom_OnClientDisconnect_Some print_def)
qed

lemma custom_server_step:
  assumes ok: "server_ok s" and en: "server_enabled e s" and h: "harmless e"
  shows "\<exists>t. exec_server CustomServer_hooks e s = Inr t \<and> server_ok t"
proof (cases e)
  case (Io ev)
  with no_fault_step [of s ev] server_okD(8) [OF ok] en obtain t where "exec_event ev s = Inr t" by auto
  with io_event_ok [OF ok] en Io show ?thesis by auto
next
  case (Accepted ec peer reason)
  with custom_accept_ok [of "s\<lparr>accepting := accepting s - 1\<rparr>" ec peer reason] ok h show ?thesis
    by (simp add: accept_count_ok)
next
  case (Call_Update n w)
  from custom_update_ok [OF ok, of n] app_step_ok [OF ok] Call_Update ok show ?thesis
    by (auto simp: Update_def)
next
  case (Call_MessageClient c m)
  with h obtain p where c: "c = Some p" by auto
  have "server_ok (if IsConnected p s then Send p m s else print (goodbye s (Some p)) s)"
    using app_step_ok [OF ok app_step_Send [of p s m]] app_step_ok [OF ok app_step_print] en c Call_MessageClient
    by simp
  with MessageClient_custom [OF server_okD(1) [OF ok]] c Call_MessageClient show ?thesis by simp
next
  case (Call_MessageAll m c)
  have "MessageAllClients CustomServer_hooks m c s = Inr (broadcast_result m c s)"
    by (rule MessageAllClients_custom) (simp_all add: CustomServer_hooks_def server_okD(1) [OF ok])
  with app_step_ok [OF ok app_step_broadcast [OF ok]] Call_MessageAll show ?thesis by simp
qed

lemma custom_server_run:
  "server_ok s \<Longrightarrow> server_possible CustomServer_hooks es s \<Longrightarrow> \<forall>e \<in> set es. harmless e \<Longrightarrow>
     \<exists>t. run_server CustomServer_hooks es s = Inr t \<and> server_ok t"
proof (induction es arbitrary: s)
  case Nil
  then show ?case by simp
next
  case (Cons e es)
  from Cons.prems custom_server_step [of s e] obtain u where
    "exec_server CustomServer_hooks e s = Inr u" "server_ok u" by auto
  with Cons.IH [of u] Cons.prems show ?case by auto
qed

section \<open>Properties\<close>

definition started_server :: server where
  "started_server = snd (Start None ServerInterface_init)"

lemma started_server_ok: "server_ok started_server"
  using init_ok
  by (simp add: started_server_def Start_def WaitForClientConnection_def server_ok_def bounded_def
      writer_ok_def print_def)



text \<open>
  The two events that the fault-free runs exclude do end in a fault, in every state: an accepted
  peer that is gone when its endpoint is asked for makes the accept handler throw and so ends the
  program, and \<open>MessageClient\<close> with a null pointer makes \<open>OnClientDisconnect\<close> dereference it.
\<close>

theorem custom_server_fault_points:
  "exec_server CustomServer_hooks (Accepted no_error None txt) s = Inl ProgramTerminated \<and>
   exec_server CustomServer_hooks (Call_MessageClient None m) s = Inl NullDereference"
  by (simp add: accept_handler_def MessageClient_def legitimate_def CustomServer_hooks_def
      Custom_OnClientDisconnect_def)

text \<open>
  C8: A broadcast posts the message once to every connected client except the ignored one, in the
  order of the container, tells about each client that is no longer connected, and leaves exactly the
  connected clients in the container; nothing else changes.
\<close>

theorem broadcast_reaches_connected_clients:
  assumes "None \<notin> set (deqConnections s)"
  shows "\<exists>t. MessageAllClients CustomServer_hooks msg ignore s = Inr t \<and>
    deqConnections t = filter (\<lambda>c. IsConnected (the c) s) (deqConnections s) \<and>
    tasks t = tasks s @ map (\<lambda>c. SendTask (the c) msg)
      (filter (\<lambda>c. IsConnected (the c) s \<and> c \<noteq> ignore) (deqConnections s)) \<and>
    console t = console s @ map (goodbye s) (filter (\<lambda>c. \<not> IsConnected (the c) s) (deqConnections s)) \<and>
    heap t = heap s \<and> started t = started s \<and> qMessagesIn t = qMessagesIn s \<and> nIDCounter t = nIDCounter s"
proof -
  have leg: "c \<in> set (deqConnections s) \<Longrightarrow> legitimate c s = IsConnected (the c) s" for c
    using assms by (cases c) (auto simp: legitimate_def)
  have "filter (\<lambda>c. legitimate c s) (deqConnections s) = filter (\<lambda>c. IsConnected (the c) s) (deqConnections s)"
    and "filter (\<lambda>c. \<not> legitimate c s) (deqConnections s) = filter (\<lambda>c. \<not> IsConnected (the c) s) (deqConnections s)"
    and "filter (\<lambda>c. legitimate c s \<and> c \<noteq> ignore) (deqConnections s) =
      filter (\<lambda>c. IsConnected (the c) s \<and> c \<noteq> ignore) (deqConnections s)"
    by (auto intro: filter_cong simp: leg)
  moreover have "on_disconnect CustomServer_hooks = Custom_OnClientDisconnect" by (simp add: CustomServer_hooks_def)
  ultimately show ?thesis
    using MessageAllClients_custom [OF _ assms, of CustomServer_hooks msg ignore]
    by (simp add: broadcast_result_def recipients_def comp_def)
qed

definition two_clients :: server where
  "two_clients = ServerInterface_init\<lparr>deqConnections := [Some 0, Some 1], next_conn := 2,
     heap := (\<lambda>p. connection_new owner_server (p = 1))\<rparr>"

theorem broadcast_reaches_connected_clients_witness:
  "\<exists>t. MessageAllClients CustomServer_hooks messageBody_init None two_clients = Inr t \<and>
     deqConnections t = [Some 1] \<and> tasks t = [SendTask 1 messageBody_init]"
proof -
  have "None \<notin> set (deqConnections two_clients)" by (simp add: two_clients_def)
  from broadcast_reaches_connected_clients [OF this, of messageBody_init None] show ?thesis
    by (auto simp: two_clients_def ServerInterface_init_def IsConnected_def connection_new_def)
qed

text \<open>
  \<open>MessageClient\<close> to a connection that is closed reports the client as disconnected but does not
  remove it, since it resets the pointer before it compares; the client stays in the container and
  is reported again at every later call.
\<close>

theorem dead_client_stays_in_container:
  assumes "Some p \<in> set (deqConnections s)" and "None \<notin> set (deqConnections s)" and "\<not> IsConnected p s"
  shows "\<exists>t. MessageClient CustomServer_hooks (Some p) msg s = Inr t \<and>
    deqConnections t = deqConnections s \<and> Some p \<in> set (deqConnections t) \<and>
    console t = console s @ [goodbye s (Some p)] \<and> tasks t = tasks s"
  using MessageClient_custom [OF assms(2), of p msg] assms(1,3) by (simp add: print_def)

theorem dead_client_stays_in_container_witness:
  "\<exists>t. MessageClient CustomServer_hooks (Some 0) messageBody_init two_clients = Inr t \<and>
     Some 0 \<in> set (deqConnections t)"
proof -
  have "Some 0 \<in> set (deqConnections two_clients)" "None \<notin> set (deqConnections two_clients)" "\<not> IsConnected 0 two_clients"
    by (simp_all add: two_clients_def IsConnected_def connection_new_def)
  from dead_client_stays_in_container [OF this] show ?thesis by blast
qed


text \<open>
  The accept handler of the custom server: a new client gets its own connection object at the end of
  the container, the current value of the counter as its identifier, a greeting posted before its
  first read is started, and the server goes on accepting; after a failed accept only the next accept
  is started.
\<close>

theorem accept_handler_registers_client:
  "\<not> failed ec \<Longrightarrow> \<exists>t. accept_handler CustomServer_hooks ec (Some ep) txt s = Inr t \<and>
     deqConnections t = deqConnections s @ [Some (next_conn s)] \<and> next_conn t = Suc (next_conn s) \<and>
     conn_id (heap t (next_conn s)) = nIDCounter s \<and> nIDCounter t = nIDCounter s + 1 \<and>
     tasks t = tasks s @ [SendTask (next_conn s) (msg_of ServerAccept)] \<and>
     started t = started s @ [(next_conn s, ReadHeaderOp, True)] \<and> accepting t = Suc (accepting s) \<and>
     (\<forall>ec'. failed ec' \<longrightarrow> (\<exists>u. accept_handler CustomServer_hooks ec' (Some ep) txt s = Inr u \<and>
        deqConnections u = deqConnections s \<and> tasks u = tasks s \<and> started u = started s \<and>
        next_conn u = next_conn s \<and> accepting u = Suc (accepting s)))"
  by (simp add: server_defs approve_def prim_defs conn_defs connection_new_def Let_def)

theorem accept_handler_registers_client_witness:
  "\<exists>t. accept_handler CustomServer_hooks no_error (Some ''peer'') '''' ServerInterface_init = Inr t \<and>
     deqConnections t = [Some 0] \<and> conn_id (heap t 0) = 10000"
  using accept_handler_registers_client [of no_error "''peer''" "''''" ServerInterface_init]
  by (auto simp: ServerInterface_init_def)

end
