(* ===== verification/Server_Ids.thy ===== *)
theory Server_Ids
  imports Server_Invariant
begin

text \<open>
  The identifiers the server gives to its connections: \<open>nIDCounter\<close> starts at 10000 and counts the
  approved connections, so the connection created as number \<open>p\<close> (from 0) has identifier
  \<open>10000 + p\<close>, computed in 32 bits.
\<close>

definition ids_ok :: "server \<Rightarrow> bool" where
  "ids_ok s \<longleftrightarrow> nIDCounter s = 10000 + word_of_nat (next_conn s) \<and>
     (\<forall>p<next_conn s. conn_id (heap s p) = 10000 + word_of_nat p)"

lemma init_ids: "ids_ok ServerInterface_init"
  by (simp add: ids_ok_def ServerInterface_init_def)

lemma conn_id_step:
  assumes "exec_event e s = Inr t"
  shows "conn_id (heap t p) = conn_id (heap s p)"
proof (cases e)
  case Run_task
  show ?thesis
  proof (cases "tasks s")
    case (Cons tk ts)
    with Run_task assms have "run_task tk (s\<lparr>tasks := ts\<rparr>) = Inr t" by simp
    then show ?thesis
      by (cases tk) (auto simp: conn_defs bind_res_Inr_iff Let_def split: if_splits)
  qed (use assms Run_task in simp)
next
  case (Complete i ec d)
  with assms obtain q op live where
    "complete_op q op ec d (s\<lparr>started := remove_nth i (started s)\<rparr>) = Inr t"
    by (auto split: prod.splits)
  then show ?thesis
    by (cases op)
      (auto simp: conn_defs store_header_def store_body_def transmit_def bind_res_Inr_iff Let_def
        split: if_splits owner.splits)
qed (use assms in \<open>auto simp: Send_def Disconnect_def split: if_splits\<close>)

lemma io_event_ids:
  assumes "ids_ok s" and "exec_event e s = Inr t"
  shows "ids_ok t"
  using assms exec_event_fields [OF assms(2)] conn_id_step [OF assms(2)]
  by (simp add: ids_ok_def server_fields_def)

lemma app_step_ids: "ids_ok s \<Longrightarrow> app_step s t \<Longrightarrow> ids_ok t"
  by (simp add: ids_ok_def app_step_def)

lemma custom_accept_ids:
  assumes "ids_ok s" and "failed ec \<or> peer \<noteq> None"
    and "accept_handler CustomServer_hooks ec peer reason s = Inr t"
  shows "ids_ok t"
proof (cases "failed ec")
  case True
  with assms show ?thesis by (auto simp: accept_handler_def ids_ok_def WaitForClientConnection_def)
next
  case False
  with assms(2) obtain ep where ep: "peer = Some ep" by auto
  let ?s = "print (''[SERVER] New Connection: '' @ ep) s"
  have "make_connection ?s = (next_conn s, snd (make_connection ?s))" by (simp add: make_connection_def)
  from custom_accept_eq [OF False this] assms(3) ep
  have "t = WaitForClientConnection (approve (next_conn s) (Send (next_conn s) (msg_of ServerAccept) (snd (make_connection ?s))))"
    by simp
  with assms(1) show ?thesis
    by (auto simp: ids_ok_def WaitForClientConnection_def approve_def make_connection_def Send_def
        ConnectToClient_def ReadHeader_def connection_new_def less_Suc_eq Let_def)
qed

lemma custom_server_step_ids:
  assumes ok: "server_ok s" and ids: "ids_ok s" and en: "server_enabled e s" and h: "harmless e"
    and ex: "exec_server CustomServer_hooks e s = Inr t"
  shows "ids_ok t"
proof (cases e)
  case (Io ev)
  with io_event_ids [OF ids] ex show ?thesis by simp
next
  case (Accepted ec peer reason)
  have "ids_ok (s\<lparr>accepting := accepting s - 1\<rparr>)" using ids by (simp add: ids_ok_def)
  from custom_accept_ids [OF this] Accepted h ex show ?thesis by simp
next
  case (Call_Update n w)
  from custom_update_ok [OF ok, of n] app_step_ids [OF ids] Call_Update ids ex show ?thesis
    by (auto simp: Update_def split: if_splits)
next
  case (Call_MessageClient c m)
  with h obtain p where c: "c = Some p" by auto
  have "t = (if IsConnected p s then Send p m s else print (goodbye s (Some p)) s)"
    using MessageClient_custom [OF server_okD(1) [OF ok], of p m] ex Call_MessageClient c by simp
  with app_step_ids [OF ids app_step_Send [of p s m]] app_step_ids [OF ids app_step_print] en c Call_MessageClient
  show ?thesis by simp
next
  case (Call_MessageAll m c)
  have "MessageAllClients CustomServer_hooks m c s = Inr (broadcast_result m c s)"
    by (rule MessageAllClients_custom) (simp_all add: CustomServer_hooks_def server_okD(1) [OF ok])
  with app_step_ids [OF ids app_step_broadcast [OF ok]] Call_MessageAll ex show ?thesis by auto
qed

lemma custom_server_run_ids:
  "server_ok s \<Longrightarrow> ids_ok s \<Longrightarrow> server_possible CustomServer_hooks es s \<Longrightarrow> \<forall>e \<in> set es. harmless e \<Longrightarrow>
     run_server CustomServer_hooks es s = Inr t \<Longrightarrow> ids_ok t"
proof (induction es arbitrary: s)
  case Nil
  then show ?case by simp
next
  case (Cons e es)
  from Cons.prems custom_server_step [of s e] obtain u where
    u: "exec_server CustomServer_hooks e s = Inr u" "server_ok u" by auto
  moreover from u Cons.prems have "ids_ok u" by (auto intro: custom_server_step_ids)
  ultimately show ?case using Cons.IH [of u] Cons.prems by auto
qed

lemma same_id_iff:
  assumes "ids_ok s" and "p < next_conn s" and "q < next_conn s"
  shows "conn_id (heap s p) = conn_id (heap s q) \<longleftrightarrow> p mod 2 ^ 32 = q mod 2 ^ 32"
proof -
  have "(word_of_nat p :: u32) = word_of_nat q \<longleftrightarrow> p mod 2 ^ 32 = q mod 2 ^ 32"
    by (simp add: word_unat_eq_iff unat_of_nat)
  with assms show ?thesis by (simp add: ids_ok_def)
qed

section \<open>Properties\<close>

text \<open>
  C35: Client identifiers: in every run of the custom server from its start, two connections have the
  same identifier exactly when their numbers agree modulo \<open>2 ^ 32\<close>; so identifiers are unique until
  the counter wraps around, and repeat from then on.
\<close>

theorem client_ids_unique_until_wrap:
  assumes "server_possible CustomServer_hooks es started_server" and "\<forall>e \<in> set es. harmless e"
    and "run_server CustomServer_hooks es started_server = Inr t" and "p < next_conn t" and "q < next_conn t"
  shows "conn_id (heap t p) = 10000 + word_of_nat p \<and>
    (conn_id (heap t p) = conn_id (heap t q) \<longleftrightarrow> p mod 2 ^ 32 = q mod 2 ^ 32)"
proof -
  have "ids_ok started_server"
    using init_ids by (simp add: started_server_def Start_def WaitForClientConnection_def print_def ids_ok_def)
  from custom_server_run_ids [OF started_server_ok this assms(1-3)] have "ids_ok t" .
  with same_id_iff [OF this assms(4,5)] assms(4) show ?thesis by (simp add: ids_ok_def)
qed

lemma one_accept_run:
  "\<exists>t. server_possible CustomServer_hooks [Accepted no_error (Some ''peer'') ''''] started_server \<and>
     run_server CustomServer_hooks [Accepted no_error (Some ''peer'') ''''] started_server = Inr t \<and> next_conn t = 1"
  by (simp add: started_server_def Start_def ServerInterface_init_def server_defs approve_def prim_defs
      conn_defs connection_new_def Let_def)

theorem client_ids_unique_until_wrap_witness:
  "\<exists>t. run_server CustomServer_hooks [Accepted no_error (Some ''peer'') ''''] started_server = Inr t \<and>
     conn_id (heap t 0) = 10000"
proof -
  from one_accept_run obtain t where
    t: "server_possible CustomServer_hooks [Accepted no_error (Some ''peer'') ''''] started_server"
      "run_server CustomServer_hooks [Accepted no_error (Some ''peer'') ''''] started_server = Inr t"
      "next_conn t = 1" by blast
  from client_ids_unique_until_wrap [OF t(1) _ t(2), of 0 0] t show ?thesis by simp
qed

end
