(* ===== verification/Client.thy ===== *)
theory Client
  imports Connection_Reader Custom_Types
begin

text \<open>
  The client of \<^verbatim>\<open>Common/client.h\<close> (\<open>ClientInterface\<close>) and the program \<^verbatim>\<open>Client/CLient.cpp\<close>: the class
  \<open>CustomClien\<close> and one pass through the loop of \<open>main\<close>.
\<close>

section \<open>State\<close>

text \<open>\<open>m_connection\<close> is the address of the connection object or \<open>None\<close>; \<open>cl_stopped\<close> and
  \<open>cl_thread\<close> (is the thread joinable) describe the context and its thread; \<open>next_obj\<close> is the
  address of the next connection object.\<close>

record client = process +
  m_connection :: "nat option"
  cl_stopped :: bool
  cl_thread :: bool
  next_obj :: nat

definition ClientInterface_init :: client where
  "ClientInterface_init =
     \<lparr>heap = (\<lambda>p. connection_new owner_client False), qMessagesIn = tsq_init, tasks = [], started = [],
      console = [], m_connection = None, cl_stopped = False, cl_thread = False, next_obj = 0\<rparr>"

section \<open>ClientInterface\<close>

definition cl_IsConnected :: "'a client_scheme \<Rightarrow> bool" where
  "cl_IsConnected s = (case m_connection s of Some p \<Rightarrow> IsConnected p s | None \<Rightarrow> False)"

text \<open>
  \<open>Connect\<close>. \<open>resolved\<close> is the outcome of the resolver: the text of its exception, or whether the
  system then has a socket for the first endpoint. The assignment of a new thread to one that is
  still joinable ends the program.
\<close>

definition Connect :: "string + bool \<Rightarrow> 'a client_scheme \<Rightarrow> fault + (bool \<times> 'a client_scheme)" where
  "Connect resolved s =
     (case resolved of
        Inl what \<Rightarrow> Inr (False, print (''Client Exception: '' @ what) s)
      | Inr opens \<Rightarrow>
          (let p = next_obj s;
               s1 = s\<lparr>heap := (heap s)(p := connection_new owner_client False),
                      next_obj := Suc p, m_connection := Some p\<rparr>;
               s2 = ConnectionToServer p opens s1
           in if cl_thread s2 then Inl ProgramTerminated
              else Inr (False, s2\<lparr>cl_thread := True\<rparr>)))"

text \<open>
  \<open>Disconnect\<close>. \<open>es\<close> is what the context's thread still does before it returns and is joined.
  \<open>release\<close> gives the pointer up without destroying the connection.
\<close>

definition cl_Disconnect :: "event list \<Rightarrow> 'a client_scheme \<Rightarrow> fault + 'a client_scheme" where
  "cl_Disconnect es s =
     (let s1 = (if cl_IsConnected s then Disconnect (the (m_connection s)) s else s);
          s2 = s1\<lparr>cl_stopped := True\<rparr>
      in bind_res (if cl_thread s2 then run_events es s2 else Inr s2)
           (\<lambda>t. Inr (t\<lparr>cl_thread := False, m_connection := None\<rparr>)))"

definition Incoming :: "'a client_scheme \<Rightarrow> ownedMessage tsqueue" where
  "Incoming s = qMessagesIn s"

definition cl_Send :: "messageBody \<Rightarrow> 'a client_scheme \<Rightarrow> 'a client_scheme" where
  "cl_Send m s = (if cl_IsConnected s then Send (the (m_connection s)) m s else s)"

section \<open>CustomClien\<close>

text \<open>A time point is a 64-bit tick count.\<close>

definition PingServer :: "u64 \<Rightarrow> 'a client_scheme \<Rightarrow> 'a client_scheme" where
  "PingServer timeNow s = cl_Send (msg_push (msg_of ServerPing) (enc_u64 timeNow)) s"

definition cl_MessageAll :: "'a client_scheme \<Rightarrow> 'a client_scheme" where
  "cl_MessageAll s = cl_Send (msg_of MessageAll) s"

section \<open>The main loop\<close>

record client_main = client +
  key :: "bool list"
  oldKey :: "bool list"
  bQuit :: bool

text \<open>
  What one pass reads from outside: the state of the three keys if the console is in the foreground,
  and the clock at each of its two calls. \<open>show_seconds\<close> prints a tick difference as seconds.
\<close>

record main_input =
  keys_down :: "(bool \<times> bool \<times> bool) option"
  clock_ping :: u64
  clock_reply :: u64

definition read_keys :: "main_input \<Rightarrow> client_main \<Rightarrow> client_main" where
  "read_keys inp s =
     (case keys_down inp of
        Some (k0, k1, k2) \<Rightarrow> s\<lparr>key := [k0, k1, k2]\<rparr>
      | None \<Rightarrow> s)"

definition react_keys :: "main_input \<Rightarrow> client_main \<Rightarrow> client_main" where
  "react_keys inp s =
     (let s1 = (if key s ! 0 \<and> \<not> oldKey s ! 0 then PingServer (clock_ping inp) s else s);
          s2 = (if key s1 ! 1 \<and> \<not> oldKey s1 ! 1 then cl_MessageAll s1 else s1)
      in if key s2 ! 2 \<and> \<not> oldKey s2 ! 2 then s2\<lparr>bQuit := True\<rparr> else s2)"

text \<open>The loop \<open>for (int i = 0; i < 3; i++) oldKey[1] = key[i];\<close>.\<close>

definition save_keys :: "client_main \<Rightarrow> client_main" where
  "save_keys s = foldl (\<lambda>t i. t\<lparr>oldKey := (oldKey t)[1 := key t ! i]\<rparr>) s [0, 1, 2]"

definition handle_reply :: "(int \<Rightarrow> string) \<Rightarrow> u64 \<Rightarrow> messageBody \<Rightarrow> client_main \<Rightarrow> fault + client_main" where
  "handle_reply show_seconds now msg s =
     (let c = hdr_id (header msg) in
      if c = msg_code ServerAccept then Inr (print ''Server Accepted Connection'' s)
      else if c = msg_code ServerPing then
        bind_res (msg_pull msg 8)
          (\<lambda>(d, m). Inr (print (''Ping: '' @ show_seconds (sint (now - dec_u64 d))) s))
      else if c = msg_code ServerMessage then
        bind_res (msg_pull msg 4)
          (\<lambda>(d, m). Inr (print (''Hello from ['' @ show_nat (unat (dec_u32 d)) @ '']'') s))
      else Inr s)"

definition poll_messages :: "(int \<Rightarrow> string) \<Rightarrow> u64 \<Rightarrow> client_main \<Rightarrow> fault + client_main" where
  "poll_messages show_seconds now s =
     (if cl_IsConnected s then
        if \<not> tsq_empty (Incoming s) then
          bind_res (tsq_pop_front (Incoming s))
            (\<lambda>(om, q). handle_reply show_seconds now (own_msg om) (s\<lparr>qMessagesIn := q\<rparr>))
        else Inr s
      else Inr ((print ''Server Down'' s)\<lparr>bQuit := True\<rparr>))"

definition main_pass :: "(int \<Rightarrow> string) \<Rightarrow> main_input \<Rightarrow> client_main \<Rightarrow> fault + client_main" where
  "main_pass show_seconds inp s =
     poll_messages show_seconds (clock_reply inp) (save_keys (react_keys inp (read_keys inp s)))"

text \<open>The loop: passes until \<open>bQuit\<close>, with what the context's thread does before each pass.\<close>

fun main_loop :: "(int \<Rightarrow> string) \<Rightarrow> (event list \<times> main_input) list \<Rightarrow> client_main \<Rightarrow> fault + client_main" where
  "main_loop sh [] s = Inr s"
| "main_loop sh ((es, inp) # rest) s =
     (if bQuit s then Inr s
      else bind_res (run_events es s) (\<lambda>t. bind_res (main_pass sh inp t) (main_loop sh rest)))"

definition client_main_init :: client_main where
  "client_main_init = client.extend ClientInterface_init
     \<lparr>key = [False, False, False], oldKey = [False, False, False], bQuit = False\<rparr>"

end
