(* ===== verification/Client_Facts.thy ===== *)
theory Client_Facts
  imports Client Connection_Scope
begin

text \<open>
  What the client does: the result of \<open>Connect\<close>, the effect of the keys over many passes of the
  main loop, the state the client is left in when the connect operation fails.
\<close>

section \<open>Sending through the only connection\<close>

definition connected_on :: "nat \<Rightarrow> 'a client_scheme \<Rightarrow> bool" where
  "connected_on p s \<longleftrightarrow> m_connection s = Some p \<and> sock_open (heap s p)"

lemma connected_on_IsConnected: "connected_on p s \<Longrightarrow> cl_IsConnected s"
  by (simp add: connected_on_def cl_IsConnected_def IsConnected_def)

lemma cl_Send_connected: "connected_on p s \<Longrightarrow> cl_Send m s = post (SendTask p m) s"
  by (simp add: connected_on_IsConnected cl_Send_def Send_def) (simp add: connected_on_def)

lemma cl_Send_disconnected: "\<not> cl_IsConnected s \<Longrightarrow> cl_Send m s = s"
  by (simp add: cl_Send_def)

lemma Connect_returns_False: "Connect r s = Inr (b, t) \<Longrightarrow> \<not> b"
  by (auto simp: Connect_def Let_def split: sum.splits if_splits)

section \<open>Keys\<close>

lemma save_keys_eq: "save_keys s = s\<lparr>oldKey := (oldKey s)[1 := key s ! 2]\<rparr>"
  by (simp add: save_keys_def)

definition ping_message :: "u64 \<Rightarrow> messageBody" where
  "ping_message now = msg_push (msg_of ServerPing) (enc_u64 now)"

lemma PingServer_connected: "connected_on p s \<Longrightarrow> PingServer now s = post (SendTask p (ping_message now)) s"
  by (simp add: PingServer_def cl_Send_connected ping_message_def)

text \<open>One pass with only the first key down, nothing to receive and the first entry of \<open>oldKey\<close>
  false, which no pass ever changes.\<close>

definition idle_main :: "nat \<Rightarrow> client_main \<Rightarrow> bool" where
  "idle_main p s \<longleftrightarrow> connected_on p s \<and> deqQueue (qMessagesIn s) = [] \<and> \<not> bQuit s \<and>
     length (oldKey s) = 3 \<and> \<not> oldKey s ! 0"

lemma main_pass_holding:
  assumes "idle_main p s" and "keys_down inp = Some (True, False, False)"
  shows "main_pass sh inp s =
    Inr (s\<lparr>tasks := tasks s @ [SendTask p (ping_message (clock_ping inp))],
           key := [True, False, False], oldKey := (oldKey s)[1 := False]\<rparr>)"
proof -
  let ?s = "s\<lparr>key := [True, False, False]\<rparr>"
  have "connected_on p ?s" using assms(1) by (simp add: idle_main_def connected_on_def)
  from PingServer_connected [OF this, of "clock_ping inp"] assms
  have "save_keys (react_keys inp (read_keys inp s)) =
    s\<lparr>tasks := tasks s @ [SendTask p (ping_message (clock_ping inp))],
      key := [True, False, False], oldKey := (oldKey s)[1 := False]\<rparr>"
    by (simp add: read_keys_def react_keys_def save_keys_eq idle_main_def post_def Let_def)
  with assms(1) show ?thesis
    by (simp add: main_pass_def poll_messages_def Incoming_def idle_main_def cl_IsConnected_def
        IsConnected_def connected_on_def)
qed

lemma idle_main_next:
  "idle_main p s \<Longrightarrow> idle_main p (s\<lparr>tasks := ts, key := ks, oldKey := (oldKey s)[1 := b]\<rparr>)"
  by (simp add: idle_main_def connected_on_def)

lemma main_loop_holding:
  assumes "idle_main p s" and "\<forall>inp \<in> set ins. keys_down inp = Some (True, False, False)"
  shows "\<exists>t. main_loop sh (map (\<lambda>i. ([], i)) ins) s = Inr t \<and> idle_main p t \<and>
    tasks t = tasks s @ map (\<lambda>i. SendTask p (ping_message (clock_ping i))) ins"
  using assms
proof (induction ins arbitrary: s)
  case Nil
  then show ?case by simp
next
  case (Cons i ins)
  then have pass: "main_pass sh i s =
    Inr (s\<lparr>tasks := tasks s @ [SendTask p (ping_message (clock_ping i))],
           key := [True, False, False], oldKey := (oldKey s)[1 := False]\<rparr>)" (is "_ = Inr ?t")
    by (simp add: main_pass_holding)
  have "idle_main p ?t" using Cons.prems idle_main_next by simp
  from Cons.IH [OF this] Cons.prems pass show ?case by (simp add: idle_main_def)
qed

section \<open>A failed connect\<close>

text \<open>
  After a connect operation that failed with the last endpoint's socket still open nothing is in
  flight and nothing is posted, and the loop polls an empty queue for ever: with no key down it
  never quits and never reports the server as down.
\<close>

definition abandoned :: "nat \<Rightarrow> client_main \<Rightarrow> bool" where
  "abandoned p s \<longleftrightarrow> connected_on p s \<and> started s = [] \<and> tasks s = [] \<and>
     deqQueue (qMessagesIn s) = [] \<and> \<not> bQuit s \<and> \<not> oldKey s ! 0 \<and> \<not> oldKey s ! 2"

lemma failed_connect_abandoned:
  assumes "idle_main p s" and "\<not> oldKey s ! 2" and "started s = [(p, ConnectOp, live)]" and "tasks s = []"
    and "failed ec"
  shows "\<exists>t. exec_event (Complete 0 ec []) s = Inr t \<and> abandoned p t"
  using assms
  by (simp add: abandoned_def idle_main_def connected_on_def Connect_handler_def remove_nth_def)

lemma abandoned_pass:
  assumes "abandoned p s" and "keys_down inp = Some (False, False, False)" and "length (oldKey s) = 3"
  shows "\<exists>t. main_pass sh inp s = Inr t \<and> abandoned p t \<and> console t = console s \<and> length (oldKey t) = 3"
  using assms
  by (auto simp: main_pass_def read_keys_def react_keys_def save_keys_eq poll_messages_def Incoming_def
      abandoned_def cl_IsConnected_def IsConnected_def connected_on_def Let_def)

lemma abandoned_loop:
  assumes "abandoned p s" and "\<forall>inp \<in> set ins. keys_down inp = Some (False, False, False)"
    and "length (oldKey s) = 3"
  shows "\<exists>t. main_loop sh (map (\<lambda>i. ([], i)) ins) s = Inr t \<and> abandoned p t \<and> console t = console s"
  using assms
proof (induction ins arbitrary: s)
  case Nil
  then show ?case by simp
next
  case (Cons i ins)
  then obtain u where "main_pass sh i s = Inr u" "abandoned p u" "console u = console s" "length (oldKey u) = 3"
    using abandoned_pass [of p s i sh] by auto
  with Cons.IH [of u] Cons.prems show ?case by (auto simp: abandoned_def)
qed

section \<open>Replies\<close>

text \<open>A reply whose body is too short for what is pulled from it is read out of bounds.\<close>

lemma handle_reply_ping:
  assumes "hdr_id (header m) = msg_code ServerPing" and "fits_size_t (length (body m))" and "8 \<le> length (body m)"
  shows "handle_reply sh now m s =
    Inr (print (''Ping: '' @ sh (sint (now - dec_u64 (drop (length (body m) - 8) (body m))))) s)"
  using assms by (simp add: handle_reply_def msg_pull_ok Let_def)

lemma handle_reply_short:
  assumes "hdr_id (header m) = msg_code ServerPing" and "length (body m) < 8"
  shows "handle_reply sh now m s = Inl ReadPastEnd"
  using assms msg_pull_short [of 8 m] by (simp add: handle_reply_def fits_size_t_def)

section \<open>Disconnecting\<close>

lemma cl_Disconnect_released:
  assumes "cl_Disconnect es s = Inr t"
  shows "m_connection t = None \<and> \<not> cl_thread t \<and> \<not> cl_IsConnected t"
  using assms
  by (auto simp: cl_Disconnect_def Let_def cl_IsConnected_def bind_res_Inr_iff split: if_splits)

text \<open>A second \<open>Disconnect\<close>, as the destructor does after an explicit one, changes nothing more.\<close>

lemma cl_Disconnect_twice:
  assumes "cl_Disconnect es s = Inr t"
  shows "cl_Disconnect es' t = Inr (t\<lparr>cl_stopped := True\<rparr>)"
  using cl_Disconnect_released [OF assms] by (simp add: cl_Disconnect_def Let_def)

text \<open>A client whose connect operation succeeded: it reads, and all its work is its connection's.\<close>

lemma connected_reader:
  assumes "fresh_process s" and "sock_open (heap s p)"
  shows "reader_ok p [] (Connect_handler p no_error s)" and "reading p (Connect_handler p no_error s)"
    and "no_connect p (Connect_handler p no_error s)" and "confined (\<lambda>q. q = p) (Connect_handler p no_error s)"
    and "writer_ok p [] (Connect_handler p no_error s)"
  using assms
  by (simp_all add: fresh_process_def reader_ok_def reading_def no_connect_def confined_def writer_ok_def
      Connect_handler_def ReadHeader_def decode_short sizeof_messageHeader_def)

section \<open>Properties\<close>

text \<open>
  Holding the first key sends a ping in every pass of the main loop: the loop that should remember
  all three keys stores them in \<open>oldKey[1]\<close>, so \<open>oldKey[0]\<close> never becomes true and the edge detection
  does not work. This is for any number of passes.
\<close>

theorem held_key_pings_every_pass:
  assumes "idle_main p s" and "\<forall>inp \<in> set ins. keys_down inp = Some (True, False, False)"
  shows "\<exists>t. main_loop sh (map (\<lambda>i. ([], i)) ins) s = Inr t \<and> \<not> bQuit t \<and>
    tasks t = tasks s @ map (\<lambda>i. SendTask p (ping_message (clock_ping i))) ins"
  using main_loop_holding [OF assms, of sh] by (auto simp: idle_main_def)

definition connected_main :: client_main where
  "connected_main = client_main_init\<lparr>m_connection := Some 0, heap := (\<lambda>p. connection_new owner_client True)\<rparr>"

lemma connected_main_idle: "idle_main 0 connected_main" "\<not> oldKey connected_main ! 2" "tasks connected_main = []"
  "console connected_main = []"
  by (simp_all add: connected_main_def idle_main_def connected_on_def client_main_init_def client.defs
      ClientInterface_init_def connection_new_def)

theorem held_key_pings_every_pass_witness:
  "\<exists>t. main_loop (\<lambda>i. []) (map (\<lambda>i. ([], i)) (replicate 3 \<lparr>keys_down = Some (True, False, False), clock_ping = 5, clock_reply = 6\<rparr>))
       connected_main = Inr t \<and>
     tasks t = replicate 3 (SendTask 0 (ping_message 5))"
  using held_key_pings_every_pass [OF connected_main_idle(1),
      of "replicate 3 \<lparr>keys_down = Some (True, False, False), clock_ping = 5, clock_reply = 6\<rparr>" "\<lambda>i. []"]
  by (auto simp: connected_main_idle)

text \<open>
  C36: A client whose connect operation failed never finds out: the handler ignores the error and the
  socket stays open, so with no key pressed the main loop goes on for ever without quitting and
  without a word on the console, although nothing is in flight any more.
\<close>

theorem failed_connect_goes_unnoticed:
  assumes "idle_main p s" and "\<not> oldKey s ! 2" and "started s = [(p, ConnectOp, live)]" and "tasks s = []"
    and "failed ec" and "\<forall>inp \<in> set ins. keys_down inp = Some (False, False, False)"
  shows "\<exists>u t. exec_event (Complete 0 ec []) s = Inr u \<and> started u = [] \<and>
    main_loop sh (map (\<lambda>i. ([], i)) ins) u = Inr t \<and> \<not> bQuit t \<and> console t = console s \<and> cl_IsConnected t"
proof -
  from failed_connect_abandoned [OF assms(1-5)] obtain u where
    u: "exec_event (Complete 0 ec []) s = Inr u" "abandoned p u" by blast
  then have "console u = console s" and "oldKey u = oldKey s"
    using assms(3,5) by (auto simp: Connect_handler_def remove_nth_def)
  moreover from this assms(1) have "length (oldKey u) = 3" by (simp add: idle_main_def)
  ultimately show ?thesis
    using abandoned_loop [OF u(2) assms(6), of sh] u connected_on_IsConnected by (auto simp: abandoned_def)
qed

theorem failed_connect_goes_unnoticed_witness:
  "\<exists>u t. exec_event (Complete 0 (make_basic connection_refused) []) (connected_main\<lparr>started := [(0, ConnectOp, True)]\<rparr>) = Inr u \<and>
     main_loop (\<lambda>i. []) (map (\<lambda>i. ([], i)) [\<lparr>keys_down = Some (False, False, False), clock_ping = 0, clock_reply = 0\<rparr>]) u = Inr t \<and>
     console t = []"
proof -
  let ?s = "connected_main\<lparr>started := [(0, ConnectOp, True)]\<rparr>"
  have "idle_main 0 ?s" "\<not> oldKey ?s ! 2" "started ?s = [(0, ConnectOp, True)]" "tasks ?s = []" "console ?s = []"
    using connected_main_idle by (simp_all add: idle_main_def connected_on_def)
  from failed_connect_goes_unnoticed [OF this(1-4), of "make_basic connection_refused"
      "[\<lparr>keys_down = Some (False, False, False), clock_ping = 0, clock_reply = 0\<rparr>]" "\<lambda>i. []"] this(5)
  show ?thesis by auto
qed

text \<open>
  \<open>Connect\<close> reports failure in every case: it returns false after an exception of the resolver, and
  also when it has created the connection, started the connect operation and the thread.
\<close>

theorem connect_always_returns_false:
  assumes "Connect r s = Inr (b, t)"
  shows "\<not> b \<and> (\<forall>opens. r = Inr opens \<longrightarrow>
    m_connection t = Some (next_obj s) \<and> started t = started s @ [(next_obj s, ConnectOp, opens)] \<and>
    sock_open (heap t (next_obj s)) = opens \<and> cl_thread t)"
  using assms
  by (auto simp: Connect_def Let_def ConnectionToServer_def connection_new_def start_op_def on_conn_def
      split: sum.splits if_splits)

theorem connect_always_returns_false_witness:
  "\<exists>t. Connect (Inr True) ClientInterface_init = Inr (False, t) \<and> started t = [(0, ConnectOp, True)]"
proof -
  have "\<exists>b t. Connect (Inr True) ClientInterface_init = Inr (b, t)"
    by (auto simp: Connect_def Let_def ConnectionToServer_def ClientInterface_init_def connection_new_def
        start_op_def on_conn_def)
  then obtain b t where t: "Connect (Inr True) ClientInterface_init = Inr (b, t)" by blast
  from connect_always_returns_false [OF t] t show ?thesis by (auto simp: ClientInterface_init_def)
qed

text \<open>
  \<open>Disconnect\<close> of the client: whatever its thread still did, afterwards there is no connection, the
  client is not connected, the thread is joined, the connection object is given up without being
  destroyed, and the second \<open>Disconnect\<close> of the destructor does nothing but stop the context again.
\<close>

theorem client_disconnect_is_final:
  assumes "cl_Disconnect es s = Inr t"
  shows "m_connection t = None \<and> \<not> cl_IsConnected t \<and> \<not> cl_thread t \<and>
    cl_Disconnect es' t = Inr (t\<lparr>cl_stopped := True\<rparr>) \<and> cl_Send m t = t"
  using cl_Disconnect_released [OF assms] cl_Disconnect_twice [OF assms] cl_Send_disconnected by blast

theorem client_disconnect_is_final_witness:
  "\<exists>t. cl_Disconnect [Run_task] connected_main = Inr t \<and> m_connection t = None \<and> cl_Send messageBody_init t = t"
proof -
  have "\<exists>t. cl_Disconnect [Run_task] connected_main = Inr t" by (simp add: cl_Disconnect_def Let_def)
      (simp add: connected_main_def client_main_init_def client.defs ClientInterface_init_def
        cl_IsConnected_def Disconnect_def IsConnected_def post_def connection_new_def)
  then obtain t where t: "cl_Disconnect [Run_task] connected_main = Inr t" by blast
  from client_disconnect_is_final [OF t] t show ?thesis by blast
qed

end
