(* ===== verification/Asio_OpQueue.thy ===== *)
theory Asio_OpQueue
  imports Prelude
begin

text \<open>
  The intrusive operation queue of \<^verbatim>\<open>asio/detail/op_queue.hpp\<close>. Operations are objects with a
  \<open>next\<close> pointer, the queue holds two pointers into the chain; the memory is a function from
  addresses to the \<open>next\<close> member. The abstract value of a queue is the list of its operations.
\<close>

section \<open>State and operations\<close>

type_synonym links = "nat \<Rightarrow> nat option"

record op_queue =
  q_front :: "nat option"
  q_back :: "nat option"

definition oq_init :: op_queue where
  "oq_init = \<lparr>q_front = None, q_back = None\<rparr>"

definition oq_front :: "op_queue \<Rightarrow> nat option" where
  "oq_front q = q_front q"

definition oq_empty :: "op_queue \<Rightarrow> bool" where
  "oq_empty q \<longleftrightarrow> q_front q = None"

definition oq_pop :: "links \<Rightarrow> op_queue \<Rightarrow> links \<times> op_queue" where
  "oq_pop nx q =
     (case q_front q of
        None \<Rightarrow> (nx, q)
      | Some tmp \<Rightarrow>
          (let f = nx tmp
           in (nx(tmp := None), \<lparr>q_front = f, q_back = (if f = None then None else q_back q)\<rparr>)))"

definition oq_push :: "nat \<Rightarrow> links \<Rightarrow> op_queue \<Rightarrow> links \<times> op_queue" where
  "oq_push h nx q =
     (let nx1 = nx(h := None)
      in case q_back q of
           Some b \<Rightarrow> (nx1(b := Some h), q\<lparr>q_back := Some h\<rparr>)
         | None \<Rightarrow> (nx1, \<lparr>q_front = Some h, q_back = Some h\<rparr>))"

text \<open>\<open>push(op_queue&)\<close>: the result is the memory, this queue and the emptied other queue.\<close>

definition oq_push_queue :: "op_queue \<Rightarrow> links \<Rightarrow> op_queue \<Rightarrow> links \<times> op_queue \<times> op_queue" where
  "oq_push_queue other nx q =
     (case q_front other of
        None \<Rightarrow> (nx, q, other)
      | Some other_front \<Rightarrow>
          (let (nx1, q1) =
             (case q_back q of
                Some b \<Rightarrow> (nx(b := Some other_front), q)
              | None \<Rightarrow> (nx, q\<lparr>q_front := Some other_front\<rparr>))
           in (nx1, q1\<lparr>q_back := q_back other\<rparr>, \<lparr>q_front = None, q_back = None\<rparr>)))"

definition oq_is_enqueued :: "nat \<Rightarrow> links \<Rightarrow> op_queue \<Rightarrow> bool" where
  "oq_is_enqueued op nx q \<longleftrightarrow> nx op \<noteq> None \<or> q_back q = Some op"

text \<open>The loop of the destructor: the operations it destroys, in order. \<open>fuel\<close> bounds its rounds;
  \<open>None\<close> means it did not end within them.\<close>

fun oq_destroy :: "nat \<Rightarrow> links \<Rightarrow> op_queue \<Rightarrow> nat list option" where
  "oq_destroy 0 nx q = (if q_front q = None then Some [] else None)"
| "oq_destroy (Suc fuel) nx q =
     (case q_front q of
        None \<Rightarrow> Some []
      | Some op \<Rightarrow>
          (let (nx1, q1) = oq_pop nx q
           in case oq_destroy fuel nx1 q1 of None \<Rightarrow> None | Some ops \<Rightarrow> Some (op # ops)))"

section \<open>Representation\<close>

fun chain :: "links \<Rightarrow> nat option \<Rightarrow> nat list \<Rightarrow> bool" where
  "chain nx p [] \<longleftrightarrow> p = None"
| "chain nx p (x # xs) \<longleftrightarrow> p = Some x \<and> chain nx (nx x) xs"

definition represents :: "links \<Rightarrow> op_queue \<Rightarrow> nat list \<Rightarrow> bool" where
  "represents nx q xs \<longleftrightarrow> chain nx (q_front q) xs \<and> distinct xs \<and>
     q_back q = (if xs = [] then None else Some (last xs))"

lemma chain_other: "x \<notin> set xs \<Longrightarrow> chain (nx(x := v)) p xs = chain nx p xs"
  by (induction xs arbitrary: p) auto

lemma chain_extend:
  "chain nx p xs \<Longrightarrow> xs \<noteq> [] \<Longrightarrow> distinct xs \<Longrightarrow> set xs \<inter> set ys = {} \<Longrightarrow> chain nx r ys \<Longrightarrow>
     chain (nx(last xs := r)) p (xs @ ys)"
proof (induction xs arbitrary: p)
  case Nil
  then show ?case by simp
next
  case (Cons x xs)
  show ?case
  proof (cases xs)
    case Nil
    with Cons.prems show ?thesis by (simp add: chain_other del: fun_upd_apply) simp
  next
    case (Cons y ys')
    have "chain nx (nx x) xs" and "distinct xs" and "set xs \<inter> set ys = {}" using Cons.prems by auto
    with Cons.IH Cons.prems(5) Cons have "chain (nx(last xs := r)) (nx x) (xs @ ys)" by blast
    moreover have "x \<noteq> last xs" using Cons Cons.prems(3) by (metis distinct.simps(2) last_in_set list.discI)
    moreover have "last (x # xs) = last xs" and "p = Some x" using Cons Cons.prems(1) by simp_all
    ultimately show ?thesis by (simp add: fun_upd_def)
  qed
qed

lemma chain_unique: "chain nx p xs \<Longrightarrow> chain nx p ys \<Longrightarrow> xs = ys"
proof (induction xs arbitrary: p ys)
  case Nil
  then show ?case by (cases ys) simp_all
next
  case (Cons x xs)
  then show ?case by (cases ys) auto
qed

text \<open>A queue has one value.\<close>

lemma represents_unique: "represents nx q xs \<Longrightarrow> represents nx q ys \<Longrightarrow> xs = ys"
  by (auto simp: represents_def dest: chain_unique)

section \<open>Refinement\<close>

lemma init_represents: "represents nx oq_init []"
  by (simp add: represents_def oq_init_def)

lemma front_represents: "represents nx q xs \<Longrightarrow> oq_front q = (case xs of [] \<Rightarrow> None | x # _ \<Rightarrow> Some x)"
  by (cases xs) (simp_all add: represents_def oq_front_def)

lemma empty_represents: "represents nx q xs \<Longrightarrow> oq_empty q \<longleftrightarrow> xs = []"
  by (cases xs) (simp_all add: represents_def oq_empty_def)

lemma pop_represents:
  assumes "represents nx q xs" and "oq_pop nx q = (nx', q')"
  shows "represents nx' q' (tl xs)"
proof (cases xs)
  case Nil
  with assms show ?thesis by (simp add: represents_def oq_pop_def)
next
  case (Cons x ys)
  with assms(1) have c: "q_front q = Some x" "chain nx (nx x) ys" "x \<notin> set ys" "distinct ys"
    "q_back q = Some (last xs)" by (auto simp: represents_def)
  have "nx x = None \<longleftrightarrow> ys = []" using c(2) by (cases ys) simp_all
  with assms(2) c Cons show ?thesis
    by (auto simp: represents_def oq_pop_def Let_def chain_other)
qed

lemma push_represents:
  assumes "represents nx q xs" and "h \<notin> set xs" and "oq_push h nx q = (nx', q')"
  shows "represents nx' q' (xs @ [h])"
proof (cases "xs = []")
  case True
  with assms show ?thesis by (auto simp: represents_def oq_push_def)
next
  case False
  have "chain (nx(h := None)) (q_front q) xs"
    using assms(1,2) by (simp add: represents_def chain_other)
  from chain_extend [OF this False, of "[h]" "Some h"]
  have "chain (nx(h := None, last xs := Some h)) (q_front q) (xs @ [h])"
    using assms(1,2) by (simp add: represents_def)
  with False assms show ?thesis by (auto simp: represents_def oq_push_def Let_def)
qed

lemma push_queue_represents:
  assumes "represents nx q xs" and "represents nx r ys" and "set xs \<inter> set ys = {}"
    and "oq_push_queue r nx q = (nx', q', r')"
  shows "represents nx' q' (xs @ ys)" and "represents nx' r' []"
proof -
  show "represents nx' r' []"
    using assms(2,4) by (cases ys) (auto simp: represents_def oq_push_queue_def split: option.splits)
  show "represents nx' q' (xs @ ys)"
  proof (cases ys)
    case Nil
    with assms show ?thesis by (simp add: represents_def oq_push_queue_def)
  next
    case (Cons y ys')
    show ?thesis
    proof (cases "xs = []")
      case True
      with Cons assms show ?thesis by (auto simp: represents_def oq_push_queue_def)
    next
      case False
      have "chain (nx(last xs := Some y)) (q_front q) (xs @ ys)"
        by (rule chain_extend) (use assms False Cons in \<open>auto simp: represents_def\<close>)
      with False Cons assms show ?thesis by (auto simp: represents_def oq_push_queue_def)
    qed
  qed
qed

lemma destroy_represents: "represents nx q xs \<Longrightarrow> length xs \<le> fuel \<Longrightarrow> oq_destroy fuel nx q = Some xs"
proof (induction fuel arbitrary: nx q xs)
  case 0
  then show ?case by (simp add: represents_def)
next
  case (Suc fuel)
  show ?case
  proof (cases xs)
    case Nil
    with Suc.prems show ?thesis by (simp add: represents_def)
  next
    case (Cons x ys)
    obtain nx' q' where pop: "oq_pop nx q = (nx', q')" by (cases "oq_pop nx q") auto
    from pop_represents [OF Suc.prems(1) pop] Suc.IH [of nx' q' ys] Cons Suc.prems
    have "oq_destroy fuel nx' q' = Some ys" by simp
    with Suc.prems(1) Cons pop show ?thesis by (simp add: represents_def)
  qed
qed

lemma last_next_None: "chain nx p xs \<Longrightarrow> xs \<noteq> [] \<Longrightarrow> nx (last xs) = None"
proof (induction xs arbitrary: p)
  case (Cons x xs)
  then show ?case by (cases xs) auto
qed simp

text \<open>An operation of the queue is enqueued; one that is in no queue has a null \<open>next\<close> and is not.\<close>

lemma is_enqueued_member:
  assumes "represents nx q xs" and "x \<in> set xs"
  shows "oq_is_enqueued x nx q"
proof -
  have aux: "x = last ys \<or> nx x \<noteq> None" if "chain nx p ys" "x \<in> set ys" for p ys
    using that
  proof (induction ys arbitrary: p)
    case (Cons y ys)
    then show ?case by (cases ys) auto
  qed simp
  have "xs \<noteq> []" using assms(2) by auto
  with aux [of "q_front q" xs] assms show ?thesis by (auto simp: represents_def oq_is_enqueued_def)
qed

lemma is_enqueued_outside:
  assumes "represents nx q xs" and "x \<notin> set xs" and "nx x = None"
  shows "\<not> oq_is_enqueued x nx q"
  using assms by (auto simp: represents_def oq_is_enqueued_def split: if_splits)

section \<open>Properties\<close>

text \<open>
  The intrusive operation queue implements a list: \<open>front\<close>, \<open>empty\<close>, \<open>pop\<close>, \<open>push\<close> of an operation that
  is in no queue, \<open>push\<close> of a whole disjoint queue (which empties it) and the destructor act on the
  linked operations as head, emptiness, tail, append and left-to-right destruction on the list.
\<close>

theorem op_queue_implements_list:
  assumes "represents nx q xs" and "represents nx r ys" and "set xs \<inter> set ys = {}" and "h \<notin> set xs"
  shows "oq_front q = (case xs of [] \<Rightarrow> None | x # _ \<Rightarrow> Some x) \<and> (oq_empty q \<longleftrightarrow> xs = []) \<and>
    (case oq_pop nx q of (nx', q') \<Rightarrow> represents nx' q' (tl xs)) \<and>
    (case oq_push h nx q of (nx', q') \<Rightarrow> represents nx' q' (xs @ [h])) \<and>
    (case oq_push_queue r nx q of (nx', q', r') \<Rightarrow> represents nx' q' (xs @ ys) \<and> represents nx' r' []) \<and>
    oq_destroy (length xs) nx q = Some xs"
proof -
  obtain n1 q1 where pop: "oq_pop nx q = (n1, q1)" by (cases "oq_pop nx q") auto
  obtain n2 q2 where push: "oq_push h nx q = (n2, q2)" by (cases "oq_push h nx q") auto
  obtain n3 q3 r3 where all: "oq_push_queue r nx q = (n3, q3, r3)" by (cases "oq_push_queue r nx q") auto
  show ?thesis
    using front_represents [OF assms(1)] empty_represents [OF assms(1)] pop_represents [OF assms(1) pop]
      push_represents [OF assms(1,4) push] push_queue_represents [OF assms(1-3) all]
      destroy_represents [OF assms(1), of "length xs"] pop push all
    by simp
qed

theorem op_queue_implements_list_witness:
  "oq_destroy 1 (\<lambda>_. None) \<lparr>q_front = Some 4, q_back = Some 4\<rparr> = Some [4]"
proof -
  have "represents (\<lambda>_. None) \<lparr>q_front = Some 4, q_back = Some 4\<rparr> [4]" and "represents (\<lambda>_. None) oq_init []"
    by (simp_all add: represents_def oq_init_def)
  from op_queue_implements_list [OF this, of 5] show ?thesis by simp
qed

end
