(* ===== verification/Asio_Iocp.thy ===== *)
theory Asio_Iocp
  imports Asio_Error "HOL-Library.Multiset"
begin

text \<open>
  The event loop of asio on Windows, \<^verbatim>\<open>asio/detail/impl/win_iocp_io_context.ipp\<close> and
  \<^verbatim>\<open>asio/detail/win_iocp_io_context.hpp\<close>: posting completions, the handshake between an initiating
  function and the loop, dispatching one operation, running until stopped. The completion port of
  the system is the queue of its packets; what \<open>PostQueuedCompletionStatus\<close> answers is part of the
  state. The program has no timers, so no timer queue is ever registered.
\<close>

section \<open>State\<close>

datatype completion_key = key_zero | wake_for_dispatch | overlapped_contains_result

text \<open>A packet: the error and byte count \<open>GetQueuedCompletionStatus\<close> will report, the key, and the
  operation, or no operation.\<close>

record packet =
  pk_error :: int
  pk_bytes :: u32
  pk_key :: completion_key
  pk_overlapped :: "nat option"

text \<open>The part of an operation the context uses: the result stored in its \<open>OVERLAPPED\<close> base and the
  flag \<open>ready_\<close>.\<close>

record overlapped =
  ov_ec :: error_code
  ov_bytes :: u32
  ov_ready :: bool

text \<open>
  \<open>post_errors\<close> lists the system's answers to the next calls of \<open>PostQueuedCompletionStatus\<close>: 0 is
  success, another value the last error; when the list is exhausted calls succeed. \<open>ran\<close> records the
  completed operations with the results their handlers were given, \<open>destroyed\<close> those that were
  destroyed without being run.
\<close>

record io_context =
  port :: "packet list"
  post_errors :: "int list"
  outstanding_work :: int
  stopped :: bool
  stop_event_posted :: bool
  shutdown_flag :: bool
  dispatch_required :: bool
  completed_ops :: "nat list"
  ovl :: "nat \<Rightarrow> overlapped"
  ran :: "(nat \<times> error_code \<times> u32) list"
  destroyed :: "nat list"

definition overlapped_reset :: overlapped where
  "overlapped_reset = \<lparr>ov_ec = no_error, ov_bytes = 0, ov_ready = False\<rparr>"

definition io_context_init :: io_context where
  "io_context_init =
     \<lparr>port = [], post_errors = [], outstanding_work = 0, stopped = False, stop_event_posted = False,
      shutdown_flag = False, dispatch_required = False, completed_ops = [],
      ovl = (\<lambda>op. overlapped_reset), ran = [], destroyed = []\<rparr>"

section \<open>Posting\<close>

definition on_ovl :: "nat \<Rightarrow> (overlapped \<Rightarrow> overlapped) \<Rightarrow> io_context \<Rightarrow> io_context" where
  "on_ovl op f s = s\<lparr>ovl := (ovl s)(op := f (ovl s op))\<rparr>"

text \<open>\<open>PostQueuedCompletionStatus\<close>: its error, 0 for success.\<close>

definition pqcs :: "packet \<Rightarrow> io_context \<Rightarrow> int \<times> io_context" where
  "pqcs pk s =
     (case post_errors s of
        [] \<Rightarrow> (0, s\<lparr>port := port s @ [pk]\<rparr>)
      | e # es \<Rightarrow> (e, if e = 0 then s\<lparr>post_errors := es, port := port s @ [pk]\<rparr> else s\<lparr>post_errors := es\<rparr>))"

definition op_packet :: "completion_key \<Rightarrow> nat \<Rightarrow> packet" where
  "op_packet k op = \<lparr>pk_error = 0, pk_bytes = 0, pk_key = k, pk_overlapped = Some op\<rparr>"

definition stop_packet :: packet where
  "stop_packet = \<lparr>pk_error = 0, pk_bytes = 0, pk_key = key_zero, pk_overlapped = None\<rparr>"

text \<open>Post, or put the operation on the completed queue when the system is out of resources.\<close>

definition enqueue_or_complete :: "completion_key \<Rightarrow> nat \<Rightarrow> io_context \<Rightarrow> io_context" where
  "enqueue_or_complete k op s =
     (let (e, s1) = pqcs (op_packet k op) s
      in if e \<noteq> 0 then s1\<lparr>completed_ops := completed_ops s1 @ [op], dispatch_required := True\<rparr> else s1)"

definition work_started :: "io_context \<Rightarrow> io_context" where
  "work_started s = s\<lparr>outstanding_work := outstanding_work s + 1\<rparr>"

definition post_deferred_completion :: "nat \<Rightarrow> io_context \<Rightarrow> io_context" where
  "post_deferred_completion op s = enqueue_or_complete key_zero op (on_ovl op (\<lambda>v. v\<lparr>ov_ready := True\<rparr>) s)"

definition post_immediate_completion :: "nat \<Rightarrow> io_context \<Rightarrow> io_context" where
  "post_immediate_completion op s = post_deferred_completion op (work_started s)"

text \<open>A whole queue of operations. When one cannot be posted it goes to the completed queue together
  with all that are left, which ends the loop.\<close>

fun post_deferred_completions :: "nat list \<Rightarrow> io_context \<Rightarrow> io_context" where
  "post_deferred_completions [] s = s"
| "post_deferred_completions (op # ops) s =
     (let (e, s1) = pqcs (op_packet key_zero op) (on_ovl op (\<lambda>v. v\<lparr>ov_ready := True\<rparr>) s)
      in if e \<noteq> 0
         then s1\<lparr>completed_ops := (completed_ops s1 @ [op]) @ ops, dispatch_required := True\<rparr>
         else post_deferred_completions ops s1)"

definition on_pending :: "nat \<Rightarrow> io_context \<Rightarrow> io_context" where
  "on_pending op s =
     (if ov_ready (ovl s op) then enqueue_or_complete overlapped_contains_result op s
      else on_ovl op (\<lambda>v. v\<lparr>ov_ready := True\<rparr>) s)"

text \<open>Both overloads of \<open>on_completion\<close>; the first is given a system error number.\<close>

definition on_completion :: "nat \<Rightarrow> error_code \<Rightarrow> u32 \<Rightarrow> io_context \<Rightarrow> io_context" where
  "on_completion op ec n s =
     enqueue_or_complete overlapped_contains_result op
       (on_ovl op (\<lambda>v. v\<lparr>ov_ready := True, ov_ec := ec, ov_bytes := n\<rparr>) s)"

definition on_completion_error :: "nat \<Rightarrow> int \<Rightarrow> u32 \<Rightarrow> io_context \<Rightarrow> io_context" where
  "on_completion_error op last_error n s = on_completion op (system_ec last_error) n s"

fun abandon_operations :: "nat list \<Rightarrow> io_context \<Rightarrow> io_context" where
  "abandon_operations [] s = s"
| "abandon_operations (op # ops) s =
     abandon_operations ops (s\<lparr>outstanding_work := outstanding_work s - 1, destroyed := destroyed s @ [op]\<rparr>)"

section \<open>Stopping\<close>

text \<open>\<open>Inl\<close> is the exception \<open>throw_error\<close> raises.\<close>

definition stop :: "io_context \<Rightarrow> error_code + io_context" where
  "stop s =
     (if \<not> stopped s then
        if \<not> stop_event_posted s then
          (let (e, s1) = pqcs stop_packet (s\<lparr>stopped := True, stop_event_posted := True\<rparr>)
           in if e \<noteq> 0 then Inl (system_ec e) else Inr s1)
        else Inr (s\<lparr>stopped := True\<rparr>)
      else Inr s)"

definition restart :: "io_context \<Rightarrow> io_context" where
  "restart s = s\<lparr>stopped := False\<rparr>"

definition work_finished :: "io_context \<Rightarrow> error_code + io_context" where
  "work_finished s =
     (let s1 = s\<lparr>outstanding_work := outstanding_work s - 1\<rparr>
      in if outstanding_work s1 = 0 then stop s1 else Inr s1)"

section \<open>Dispatching one operation\<close>

definition dispatch_phase :: "io_context \<Rightarrow> io_context" where
  "dispatch_phase s =
     (if dispatch_required s
      then post_deferred_completions (completed_ops s) (s\<lparr>dispatch_required := False, completed_ops := []\<rparr>)
      else s)"

text \<open>
  One round of the loop in \<open>do_one\<close>: nothing in the port, an operation to complete with its result,
  another round, or the return value 0 with an error code.
\<close>

datatype round =
    Nothing io_context
  | Dispatch nat error_code u32 io_context
  | Again io_context
  | Return_zero error_code io_context

definition take_operation :: "packet \<Rightarrow> nat \<Rightarrow> io_context \<Rightarrow> round" where
  "take_operation pk op s =
     (let (ec, n, s1) =
        (if pk_key pk = overlapped_contains_result then (ov_ec (ovl s op), ov_bytes (ovl s op), s)
         else (system_ec (pk_error pk), pk_bytes pk,
               on_ovl op (\<lambda>v. v\<lparr>ov_ec := system_ec (pk_error pk), ov_bytes := pk_bytes pk\<rparr>) s))
      in if ov_ready (ovl s1 op) then Dispatch op ec n s1
         else Again (on_ovl op (\<lambda>v. v\<lparr>ov_ready := True\<rparr>) s1))"

definition take_stop :: "io_context \<Rightarrow> round" where
  "take_stop s =
     (let s1 = s\<lparr>stop_event_posted := False\<rparr>
      in if stopped s1 then
           if \<not> stop_event_posted s1 then
             (let (e, s2) = pqcs stop_packet (s1\<lparr>stop_event_posted := True\<rparr>)
              in if e \<noteq> 0 then Return_zero (system_ec e) s2 else Return_zero no_error s2)
           else Return_zero no_error s1
         else Again s1)"

definition do_one_round :: "io_context \<Rightarrow> round" where
  "do_one_round s =
     (let s1 = dispatch_phase s
      in case port s1 of
           [] \<Rightarrow> Nothing s1
         | pk # pks \<Rightarrow>
             (let s2 = s1\<lparr>port := pks\<rparr>
              in case pk_overlapped pk of
                   Some op \<Rightarrow> take_operation pk op s2
                 | None \<Rightarrow> if pk_key pk = wake_for_dispatch then Again s2 else take_stop s2))"

text \<open>The packets and completed operations a context holds; every round but the last uses one up.\<close>

definition backlog :: "io_context \<Rightarrow> nat" where
  "backlog s = length (port s) + length (completed_ops s)"

lemma pqcs_backlog:
  "length (port (snd (pqcs pk s))) \<le> Suc (length (port s))" "completed_ops (snd (pqcs pk s)) = completed_ops s"
  "fst (pqcs pk s) \<noteq> 0 \<Longrightarrow> port (snd (pqcs pk s)) = port s"
  by (auto simp: pqcs_def split: list.splits)

lemma post_deferred_completions_backlog: "backlog (post_deferred_completions ops s) \<le> backlog s + length ops"
proof (induction ops arbitrary: s)
  case Nil
  then show ?case by simp
next
  case (Cons op ops)
  let ?s = "on_ovl op (\<lambda>v. v\<lparr>ov_ready := True\<rparr>) s"
  obtain e s1 where p: "pqcs (op_packet key_zero op) ?s = (e, s1)" by (cases "pqcs (op_packet key_zero op) ?s") auto
  have "length (port s1) \<le> Suc (length (port s))" "completed_ops s1 = completed_ops s"
    "e \<noteq> 0 \<Longrightarrow> port s1 = port s"
    using pqcs_backlog [of "op_packet key_zero op" ?s] p by (simp_all add: on_ovl_def)
  with p Cons.IH [of s1] show ?case by (auto simp: backlog_def)
qed

lemma dispatch_phase_backlog: "backlog (dispatch_phase s) \<le> backlog s"
  using post_deferred_completions_backlog [of "completed_ops s" "s\<lparr>dispatch_required := False, completed_ops := []\<rparr>"]
  by (simp add: dispatch_phase_def) (simp add: backlog_def)

lemma take_backlog:
  "take_operation pk op s = Again t \<Longrightarrow> backlog t = backlog s"
  "take_stop s = Again t \<Longrightarrow> backlog t = backlog s"
  by (auto simp: take_operation_def take_stop_def backlog_def on_ovl_def Let_def split: if_splits prod.splits)

lemma do_one_round_Again:
  assumes "do_one_round s = Again t"
  shows "backlog t < backlog s"
proof -
  obtain pk pks where pk: "port (dispatch_phase s) = pk # pks"
    using assms by (cases "port (dispatch_phase s)") (auto simp: do_one_round_def Let_def)
  let ?s = "(dispatch_phase s)\<lparr>port := pks\<rparr>"
  have "backlog ?s < backlog (dispatch_phase s)" using pk by (simp add: backlog_def)
  moreover have "backlog t = backlog ?s"
    using assms pk take_backlog
    by (auto simp: do_one_round_def Let_def split: option.splits if_splits)
  ultimately show ?thesis using dispatch_phase_backlog [of s] by simp
qed

text \<open>
  \<open>do_one\<close>: \<open>handler\<close> is what completing an operation does to the context. With no time limit an empty
  port blocks the thread; with one the call returns 0.
\<close>

datatype do_one_result =
    Blocked io_context
  | Returned nat error_code io_context
  | Threw error_code

definition complete_with :: "(nat \<Rightarrow> error_code \<Rightarrow> u32 \<Rightarrow> io_context \<Rightarrow> io_context) \<Rightarrow>
    nat \<Rightarrow> error_code \<Rightarrow> u32 \<Rightarrow> io_context \<Rightarrow> do_one_result" where
  "complete_with handler op ec n s =
     (case work_finished (handler op ec n (s\<lparr>ran := ran s @ [(op, ec, n)]\<rparr>)) of
        Inl e \<Rightarrow> Threw e
      | Inr t \<Rightarrow> Returned 1 no_error t)"

function do_one :: "(nat \<Rightarrow> error_code \<Rightarrow> u32 \<Rightarrow> io_context \<Rightarrow> io_context) \<Rightarrow> bool \<Rightarrow> io_context \<Rightarrow> do_one_result" where
  "do_one handler no_limit s =
     (case do_one_round s of
        Nothing t \<Rightarrow> if no_limit then Blocked t else Returned 0 no_error t
      | Dispatch op ec n t \<Rightarrow> complete_with handler op ec n t
      | Again t \<Rightarrow> do_one handler no_limit t
      | Return_zero ec t \<Rightarrow> Returned 0 ec t)"
  by pat_completeness auto
termination
  by (relation "measure (\<lambda>(h, b, s). backlog s)") (auto dest: do_one_round_Again)

declare do_one.simps [simp del]

section \<open>Running\<close>

text \<open>The loop of \<open>run\<close> and \<open>poll\<close>: \<open>fuel\<close> bounds the calls of \<open>do_one\<close>, and \<open>None\<close> means the loop goes on
  after them. The counter stays at its maximum once it is reached.\<close>

fun run_loop :: "(nat \<Rightarrow> error_code \<Rightarrow> u32 \<Rightarrow> io_context \<Rightarrow> io_context) \<Rightarrow> bool \<Rightarrow> nat \<Rightarrow> u64 \<Rightarrow> io_context \<Rightarrow>
    (u64 \<times> do_one_result) option" where
  "run_loop handler no_limit 0 n s = None"
| "run_loop handler no_limit (Suc fuel) n s =
     (case do_one handler no_limit s of
        Returned k ec t \<Rightarrow>
          if k \<noteq> 0 then run_loop handler no_limit fuel (if n \<noteq> - 1 then n + 1 else n) t
          else Some (n, Returned 0 ec t)
      | r \<Rightarrow> Some (n, r))"

definition run_with :: "(nat \<Rightarrow> error_code \<Rightarrow> u32 \<Rightarrow> io_context \<Rightarrow> io_context) \<Rightarrow> bool \<Rightarrow> nat \<Rightarrow> io_context \<Rightarrow> (u64 \<times> do_one_result) option" where
  "run_with handler no_limit fuel s =
     (if outstanding_work s = 0 then
        (case stop s of Inl e \<Rightarrow> Some (0, Threw e) | Inr t \<Rightarrow> Some (0, Returned 0 no_error t))
      else run_loop handler no_limit fuel 0 s)"

definition run :: "(nat \<Rightarrow> error_code \<Rightarrow> u32 \<Rightarrow> io_context \<Rightarrow> io_context) \<Rightarrow> nat \<Rightarrow> io_context \<Rightarrow> (u64 \<times> do_one_result) option" where
  "run handler fuel s = run_with handler True fuel s"

definition poll :: "(nat \<Rightarrow> error_code \<Rightarrow> u32 \<Rightarrow> io_context \<Rightarrow> io_context) \<Rightarrow> nat \<Rightarrow> io_context \<Rightarrow> (u64 \<times> do_one_result) option" where
  "poll handler fuel s = run_with handler False fuel s"

text \<open>\<open>run_one\<close>, \<open>poll_one\<close> and \<open>wait_one\<close>, whose limit matters only when the port is empty.\<close>

definition one_with :: "(nat \<Rightarrow> error_code \<Rightarrow> u32 \<Rightarrow> io_context \<Rightarrow> io_context) \<Rightarrow> bool \<Rightarrow> io_context \<Rightarrow> do_one_result" where
  "one_with handler no_limit s =
     (if outstanding_work s = 0 then
        (case stop s of Inl e \<Rightarrow> Threw e | Inr t \<Rightarrow> Returned 0 no_error t)
      else do_one handler no_limit s)"

definition run_one :: "(nat \<Rightarrow> error_code \<Rightarrow> u32 \<Rightarrow> io_context \<Rightarrow> io_context) \<Rightarrow> io_context \<Rightarrow> do_one_result" where
  "run_one handler s = one_with handler True s"

definition poll_one :: "(nat \<Rightarrow> error_code \<Rightarrow> u32 \<Rightarrow> io_context \<Rightarrow> io_context) \<Rightarrow> io_context \<Rightarrow> do_one_result" where
  "poll_one handler s = one_with handler False s"

definition wait_one :: "int \<Rightarrow> (nat \<Rightarrow> error_code \<Rightarrow> u32 \<Rightarrow> io_context \<Rightarrow> io_context) \<Rightarrow> io_context \<Rightarrow> do_one_result" where
  "wait_one usec handler s = one_with handler (usec < 0) s"

section \<open>Shutting down\<close>

lemma abandon_port_completed:
  "port (abandon_operations ops s) = port s" "completed_ops (abandon_operations ops s) = completed_ops s"
  by (induction ops arbitrary: s) simp_all

text \<open>The loop of \<open>shutdown\<close> for a context without a thread of its own and without timers: operations are
  destroyed until no work is outstanding. \<open>None\<close>: the port is empty and the call waits for the system.\<close>

function shutdown_loop :: "io_context \<Rightarrow> io_context option" where
  "shutdown_loop s =
     (if outstanding_work s > 0 then
        if completed_ops s \<noteq> []
        then shutdown_loop (abandon_operations (completed_ops s) (s\<lparr>completed_ops := []\<rparr>))
        else
          (case port s of
             [] \<Rightarrow> None
           | pk # pks \<Rightarrow>
               (case pk_overlapped pk of
                  Some op \<Rightarrow> shutdown_loop (abandon_operations [op] (s\<lparr>port := pks\<rparr>))
                | None \<Rightarrow> shutdown_loop (s\<lparr>port := pks\<rparr>)))
      else Some s)"
  by pat_completeness auto
termination
  by (relation "measure backlog") (simp_all add: abandon_port_completed backlog_def)

declare shutdown_loop.simps [simp del]

definition shutdown :: "io_context \<Rightarrow> io_context option" where
  "shutdown s = shutdown_loop (s\<lparr>shutdown_flag := True\<rparr>)"

lemmas [iocp_defs] =
  on_ovl_def pqcs_def op_packet_def stop_packet_def enqueue_or_complete_def work_started_def
  post_deferred_completion_def post_immediate_completion_def on_pending_def on_completion_def
  on_completion_error_def stop_def restart_def work_finished_def dispatch_phase_def take_operation_def
  take_stop_def do_one_round_def complete_with_def

end
