(* ===== verification/Asio_Iocp_Facts.thy ===== *)
theory Asio_Iocp_Facts
  imports Asio_Iocp
begin

text \<open>
  What the event loop guarantees: posted operations are never lost, whatever the system answers; an
  overlapped operation runs exactly once whichever of its two halves comes first; there is never
  more than one stop event in the port; a stop request lets everything posted before it run first.
\<close>

section \<open>No operation is lost\<close>

definition pending :: "io_context \<Rightarrow> nat multiset" where
  "pending s = mset (List.map_filter pk_overlapped (port s)) + mset (completed_ops s)"

lemma map_filter_append: "List.map_filter f (xs @ ys) = List.map_filter f xs @ List.map_filter f ys"
  by (simp add: List.map_filter_def)

lemma map_filter_simps' [simp]:
  "List.map_filter f [] = []"
  "List.map_filter f (x # xs) = (case f x of None \<Rightarrow> List.map_filter f xs | Some y \<Rightarrow> y # List.map_filter f xs)"
  by (simp_all add: List.map_filter_def split: option.split)

lemma pending_ovl [simp]: "pending (on_ovl op f s) = pending s"
  by (simp add: pending_def on_ovl_def)

lemma pending_enqueue [simp]: "pending (enqueue_or_complete k op s) = add_mset op (pending s)"
  by (auto simp: pending_def enqueue_or_complete_def pqcs_def op_packet_def map_filter_append split: list.splits)

lemma pending_post_deferred: "pending (post_deferred_completion op s) = add_mset op (pending s)"
  by (simp add: post_deferred_completion_def)

lemma pending_post_deferred_completions: "pending (post_deferred_completions ops s) = mset ops + pending s"
proof (induction ops arbitrary: s)
  case Nil
  then show ?case by simp
next
  case (Cons op ops)
  let ?s = "on_ovl op (\<lambda>v. v\<lparr>ov_ready := True\<rparr>) s"
  obtain e s1 where p: "pqcs (op_packet key_zero op) ?s = (e, s1)" by (cases "pqcs (op_packet key_zero op) ?s") auto
  show ?case
  proof (cases "e = 0")
    case True
    then have "pending s1 = add_mset op (pending s)"
      using p by (auto simp: pending_def pqcs_def op_packet_def map_filter_append on_ovl_def split: list.splits if_splits)
    with True p Cons.IH [of s1] show ?thesis by simp
  next
    case False
    then have "port s1 = port s" "completed_ops s1 = completed_ops s"
      using p by (auto simp: pqcs_def on_ovl_def split: list.splits if_splits)
    with False p show ?thesis by (simp add: pending_def)
  qed
qed

lemma pending_dispatch_phase [simp]: "pending (dispatch_phase s) = pending s"
  by (simp add: dispatch_phase_def pending_post_deferred_completions) (simp add: pending_def)

text \<open>What one round does with the packet it takes.\<close>

lemma pqcs_stop_pending [simp]: "pqcs stop_packet s = (e, t) \<Longrightarrow> pending t = pending s"
  by (auto simp: pqcs_def pending_def stop_packet_def map_filter_append split: list.splits if_splits)

lemma pending_flags [simp]:
  "pending (s\<lparr>stopped := b\<rparr>) = pending s" "pending (s\<lparr>stop_event_posted := b\<rparr>) = pending s"
  "pending (s\<lparr>outstanding_work := n\<rparr>) = pending s" "pending (s\<lparr>ran := xs\<rparr>) = pending s"
  "pending (s\<lparr>shutdown_flag := b\<rparr>) = pending s"
  by (simp_all add: pending_def)

lemma pending_take_stop: "take_stop s = Again t \<or> take_stop s = Return_zero ec t \<Longrightarrow> pending t = pending s"
  by (auto simp: take_stop_def Let_def split: if_splits prod.splits)

definition round_result :: "round \<Rightarrow> io_context" where
  "round_result r = (case r of Nothing t \<Rightarrow> t | Dispatch op ec n t \<Rightarrow> t | Again t \<Rightarrow> t | Return_zero ec t \<Rightarrow> t)"

lemma take_stop_not_Dispatch: "take_stop s \<noteq> Dispatch op ec n t" "take_stop s \<noteq> Nothing t"
  by (auto simp: take_stop_def Let_def split: prod.splits)

lemma round_pending:
  "do_one_round s = Nothing t \<Longrightarrow> pending t = pending s"
  "do_one_round s = Dispatch op ec n t \<Longrightarrow> pending s = add_mset op (pending t) \<and> ov_ready (ovl t op)"
  "do_one_round s = Return_zero ec t \<Longrightarrow> pending t = pending s"
proof -
  let ?d = "dispatch_phase s"
  have taken: "pending ?d = (case pk_overlapped pk of None \<Rightarrow> {#} | Some op \<Rightarrow> {#op#}) + pending (?d\<lparr>port := pks\<rparr>)"
    if "port ?d = pk # pks" for pk pks using that by (simp add: pending_def split: option.split)
  show "do_one_round s = Nothing t \<Longrightarrow> pending t = pending s"
    by (auto simp: do_one_round_def take_operation_def take_stop_not_Dispatch Let_def
        split: list.splits option.splits if_splits prod.splits)
  show "do_one_round s = Return_zero ec t \<Longrightarrow> pending t = pending s"
    using taken pending_take_stop
    by (fastforce simp: do_one_round_def take_operation_def Let_def
        split: list.splits option.splits if_splits prod.splits)
  show "pending s = add_mset op (pending t) \<and> ov_ready (ovl t op)" if r: "do_one_round s = Dispatch op ec n t"
  proof -
    obtain pk pks where pk: "port ?d = pk # pks" using r by (cases "port ?d") (auto simp: do_one_round_def Let_def)
    with r obtain op' where op': "pk_overlapped pk = Some op'"
      and t: "take_operation pk op' (?d\<lparr>port := pks\<rparr>) = Dispatch op ec n t"
      by (auto simp: do_one_round_def Let_def take_stop_not_Dispatch split: option.splits if_splits)
    from t have "op' = op" "pending t = pending (?d\<lparr>port := pks\<rparr>)" "ov_ready (ovl t op)"
      by (auto simp: take_operation_def Let_def split: if_splits)
    with taken [OF pk] op' show ?thesis by simp
  qed
qed

text \<open>Shutting down destroys exactly what was pending, and runs nothing.\<close>

lemma abandon_effect:
  "destroyed (abandon_operations ops s) = destroyed s @ ops"
  "outstanding_work (abandon_operations ops s) = outstanding_work s - int (length ops)"
  "ran (abandon_operations ops s) = ran s"
  by (induction ops arbitrary: s) simp_all

lemma pending_abandon [simp]: "pending (abandon_operations ops s) = pending s"
  by (simp add: pending_def abandon_port_completed)

lemma shutdown_loop_effect:
  "shutdown_loop s = Some t \<Longrightarrow>
     outstanding_work t \<le> 0 \<and> ran t = ran s \<and>
     mset (destroyed t) + pending t = mset (destroyed s) + pending s \<and>
     outstanding_work t = outstanding_work s - (int (length (destroyed t)) - int (length (destroyed s)))"
proof (induction s rule: shutdown_loop.induct)
  case (1 s)
  show ?case
  proof (cases "outstanding_work s > 0")
    case False
    then have "shutdown_loop s = Some s" by (subst shutdown_loop.simps) simp
    with 1(4) False show ?thesis by simp
  next
    case work: True
    show ?thesis
    proof (cases "completed_ops s = []")
      case False
      have rest: "shutdown_loop s = shutdown_loop (abandon_operations (completed_ops s) (s\<lparr>completed_ops := []\<rparr>))"
        using work False by (subst shutdown_loop.simps) simp
      let ?s = "abandon_operations (completed_ops s) (s\<lparr>completed_ops := []\<rparr>)"
      have "shutdown_loop ?s = Some t" using 1(4) rest by simp
      from 1(1) [OF work False this] show ?thesis by (simp add: abandon_effect) (simp add: pending_def)
    next
      case none: True
      have rest: "shutdown_loop s = (case port s of [] \<Rightarrow> None
          | pk # pks \<Rightarrow> (case pk_overlapped pk of
              Some op \<Rightarrow> shutdown_loop (abandon_operations [op] (s\<lparr>port := pks\<rparr>))
            | None \<Rightarrow> shutdown_loop (s\<lparr>port := pks\<rparr>)))"
        using work none by (subst shutdown_loop.simps) simp
      with 1(4) obtain pk pks where pk: "port s = pk # pks" by (cases "port s") auto
      show ?thesis
      proof (cases "pk_overlapped pk")
        case None
        have "shutdown_loop (s\<lparr>port := pks\<rparr>) = Some t"
          using 1(4) rest pk None by simp
        with 1(2) [OF work _ pk None] none pk None show ?thesis by (simp add: pending_def)
      next
        case (Some op)
        have "shutdown_loop (abandon_operations [op] (s\<lparr>port := pks\<rparr>)) = Some t"
          using 1(4) rest pk Some by simp
        with 1(3) [OF work _ pk Some] none pk Some show ?thesis by (simp add: pending_def)
      qed
    qed
  qed
qed

section \<open>The handshake\<close>

text \<open>
  An overlapped operation that did not complete at once has two halves: the packet of the system,
  which the loop takes from the port, and the call of \<open>on_pending\<close> by the initiating function.
\<close>

definition io_packet :: "int \<Rightarrow> u32 \<Rightarrow> nat \<Rightarrow> packet" where
  "io_packet e n op = \<lparr>pk_error = e, pk_bytes = n, pk_key = key_zero, pk_overlapped = Some op\<rparr>"

lemma pending_first:
  assumes "\<not> ov_ready (ovl s op)" and "\<not> dispatch_required s" and "port s = []"
  shows "\<exists>t. do_one_round ((on_pending op s)\<lparr>port := [io_packet e n op]\<rparr>) = Dispatch op (system_ec e) n t"
  using assms
  by (simp add: on_pending_def do_one_round_def dispatch_phase_def io_packet_def take_operation_def on_ovl_def Let_def)

lemma packet_first:
  assumes "\<not> ov_ready (ovl s op)" and "\<not> dispatch_required s" and "port s = []" and "post_errors s = []"
  shows "\<exists>u. do_one_round (s\<lparr>port := [io_packet e n op]\<rparr>) = Again u \<and>
    (\<exists>t. do_one_round (on_pending op u) = Dispatch op (system_ec e) n t)"
  using assms
  by (simp add: on_pending_def do_one_round_def dispatch_phase_def io_packet_def take_operation_def on_ovl_def
      enqueue_or_complete_def pqcs_def op_packet_def Let_def)

section \<open>Stop events\<close>

definition stop_events :: "io_context \<Rightarrow> nat" where
  "stop_events s = length (filter (\<lambda>pk. pk_overlapped pk = None \<and> pk_key pk \<noteq> wake_for_dispatch) (port s))"

definition stop_ok :: "io_context \<Rightarrow> bool" where
  "stop_ok s \<longleftrightarrow> stop_events s \<le> (if stop_event_posted s then 1 else 0)"

lemma pqcs_op_stop_events: "pqcs (op_packet k op) s = (e, t) \<Longrightarrow> stop_events t = stop_events s \<and> stop_event_posted t = stop_event_posted s \<and> stopped t = stopped s"
  by (auto simp: pqcs_def stop_events_def op_packet_def split: list.splits if_splits)

lemma stop_ok_cong:
  "stop_events t = stop_events s \<Longrightarrow> stop_event_posted t = stop_event_posted s \<Longrightarrow> stop_ok t = stop_ok s"
  by (simp add: stop_ok_def)

lemma on_ovl_fields [simp]:
  "port (on_ovl op f s) = port s" "stop_event_posted (on_ovl op f s) = stop_event_posted s"
  "stopped (on_ovl op f s) = stopped s" "completed_ops (on_ovl op f s) = completed_ops s"
  "post_errors (on_ovl op f s) = post_errors s" "stop_events (on_ovl op f s) = stop_events s"
  "ran (on_ovl op f s) = ran s" "outstanding_work (on_ovl op f s) = outstanding_work s"
  "dispatch_required (on_ovl op f s) = dispatch_required s"
  by (simp_all add: on_ovl_def stop_events_def)

lemma enqueue_stop_ok: "stop_ok (enqueue_or_complete k op s) = stop_ok s"
  by (cases "pqcs (op_packet k op) s")
    (auto simp: enqueue_or_complete_def stop_ok_def stop_events_def dest!: pqcs_op_stop_events)

lemma post_deferred_completions_stop:
  "stop_events (post_deferred_completions ops s) = stop_events s \<and>
   stop_event_posted (post_deferred_completions ops s) = stop_event_posted s \<and>
   stopped (post_deferred_completions ops s) = stopped s"
proof (induction ops arbitrary: s)
  case Nil
  then show ?case by simp
next
  case (Cons op ops)
  let ?s = "on_ovl op (\<lambda>v. v\<lparr>ov_ready := True\<rparr>) s"
  obtain e s1 where p: "pqcs (op_packet key_zero op) ?s = (e, s1)" by (cases "pqcs (op_packet key_zero op) ?s") auto
  from pqcs_op_stop_events [OF p] p Cons.IH [of s1] show ?case by (simp add: stop_events_def)
qed

lemma dispatch_phase_stop:
  "stop_events (dispatch_phase s) = stop_events s \<and> stop_event_posted (dispatch_phase s) = stop_event_posted s \<and>
   stopped (dispatch_phase s) = stopped s"
  using post_deferred_completions_stop [of "completed_ops s" "s\<lparr>dispatch_required := False, completed_ops := []\<rparr>"]
  by (simp add: dispatch_phase_def) (simp add: stop_events_def)

lemma stop_stop_ok:
  assumes "stop_ok s" and "stop s = Inr t"
  shows "stop_ok t \<and> stopped t"
  using assms
  by (auto simp: stop_def stop_ok_def stop_events_def pqcs_def stop_packet_def Let_def split: if_splits list.splits prod.splits)

section \<open>A stop request\<close>

text \<open>
  A handler that may post work and start operations, but that leaves what is already in the port,
  does not restart the context and does not reset operations that are ready.
\<close>

definition extends :: "io_context \<Rightarrow> io_context \<Rightarrow> bool" where
  "extends s t \<longleftrightarrow> (\<exists>ps. port t = port s @ ps) \<and> (stopped s \<longrightarrow> stopped t) \<and> ran t = ran s \<and>
     (\<forall>x. ov_ready (ovl s x) \<longrightarrow> ov_ready (ovl t x))"

lemma extends_refl: "extends s s"
  by (simp add: extends_def)

lemma extends_trans: "extends s t \<Longrightarrow> extends t u \<Longrightarrow> extends s u"
  by (auto simp: extends_def)

lemma extends_pqcs: "pqcs pk s = (e, t) \<Longrightarrow> extends s t"
  by (auto simp: extends_def pqcs_def split: list.splits if_splits)

lemma extends_ready: "extends s (on_ovl op (\<lambda>v. v\<lparr>ov_ready := True\<rparr>) s)"
  by (simp add: extends_def on_ovl_def)

lemma extends_completed: "extends s t \<Longrightarrow> extends s (t\<lparr>completed_ops := xs, dispatch_required := b\<rparr>)"
  by (simp add: extends_def)

lemma extends_post_deferred: "extends s (post_deferred_completion op s)"
proof -
  let ?s = "on_ovl op (\<lambda>v. v\<lparr>ov_ready := True\<rparr>) s"
  obtain e t where p: "pqcs (op_packet key_zero op) ?s = (e, t)" by (cases "pqcs (op_packet key_zero op) ?s") auto
  have "extends s t" by (rule extends_trans [OF extends_ready extends_pqcs [OF p]])
  with p extends_completed [of s t] show ?thesis
    by (simp add: post_deferred_completion_def enqueue_or_complete_def)
qed

lemma extends_work_started: "extends s (work_started s)"
  by (simp add: extends_def work_started_def)

lemma extends_post_immediate: "extends s (post_immediate_completion op s)"
  unfolding post_immediate_completion_def
  by (rule extends_trans [OF extends_work_started extends_post_deferred])

lemma extends_post_deferred_completions: "extends s (post_deferred_completions ops s)"
proof (induction ops arbitrary: s)
  case Nil
  then show ?case by (simp add: extends_refl)
next
  case (Cons op ops)
  let ?s = "on_ovl op (\<lambda>v. v\<lparr>ov_ready := True\<rparr>) s"
  obtain e t where p: "pqcs (op_packet key_zero op) ?s = (e, t)" by (cases "pqcs (op_packet key_zero op) ?s") auto
  have st: "extends s t" by (rule extends_trans [OF extends_ready extends_pqcs [OF p]])
  show ?case
    using p extends_completed [OF st] extends_trans [OF st Cons.IH] by simp
qed

lemma extends_dispatch_phase: "extends s (dispatch_phase s)"
proof -
  have "extends s (s\<lparr>dispatch_required := False, completed_ops := []\<rparr>)" by (simp add: extends_def)
  from extends_trans [OF this extends_post_deferred_completions]
  show ?thesis by (simp add: dispatch_phase_def extends_refl)
qed

lemma take_operation_ready:
  assumes "ov_ready (ovl s op)"
  shows "\<exists>ec n u. take_operation pk op s = Dispatch op ec n u \<and> stopped u = stopped s \<and> port u = port s \<and>
    ran u = ran s \<and> (\<forall>x. ov_ready (ovl u x) = ov_ready (ovl s x))"
  using assms
  by (cases "pk_key pk = overlapped_contains_result") (auto simp: take_operation_def on_ovl_def Let_def)

lemma take_stop_stopped:
  assumes "stopped s"
  shows "\<exists>ec t. take_stop s = Return_zero ec t \<and> ran t = ran s"
proof -
  let ?s = "s\<lparr>stop_event_posted := True\<rparr>"
  obtain e t where p: "pqcs stop_packet ?s = (e, t)" by (cases "pqcs stop_packet ?s") auto
  from extends_pqcs [OF p] have "ran t = ran s" by (simp add: extends_def)
  with p assms show ?thesis by (auto simp: take_stop_def Let_def)
qed

locale polite_handler =
  fixes h :: "nat \<Rightarrow> error_code \<Rightarrow> u32 \<Rightarrow> io_context \<Rightarrow> io_context"
  assumes polite: "extends s (h op ec n s)"
begin

lemma complete_step:
  assumes "stopped s"
  shows "\<exists>t. complete_with h op ec n s = Returned 1 no_error t \<and> stopped t \<and>
    (\<exists>ps. port t = port s @ ps) \<and> (\<forall>x. ov_ready (ovl s x) \<longrightarrow> ov_ready (ovl t x)) \<and>
    ran t = ran s @ [(op, ec, n)]"
  using assms polite [of "s\<lparr>ran := ran s @ [(op, ec, n)]\<rparr>" op ec n]
  by (auto simp: complete_with_def work_finished_def stop_def extends_def Let_def)

lemma do_one_ready:
  assumes "port s = pk # pks" and "pk_overlapped pk = Some op" and "ov_ready (ovl s op)" and "stopped s"
  shows "\<exists>t ec n. do_one h no_limit s = Returned 1 no_error t \<and> stopped t \<and> (\<exists>ps. port t = pks @ ps) \<and>
    (\<forall>x. ov_ready (ovl s x) \<longrightarrow> ov_ready (ovl t x)) \<and> ran t = ran s @ [(op, ec, n)]"
proof -
  let ?d = "dispatch_phase s"
  from extends_dispatch_phase [of s] assms obtain ps where
    d: "port ?d = pk # pks @ ps" "stopped ?d" "ran ?d = ran s" and mono: "\<forall>x. ov_ready (ovl s x) \<longrightarrow> ov_ready (ovl ?d x)"
    by (auto simp: extends_def)
  let ?p = "?d\<lparr>port := pks @ ps\<rparr>"
  obtain ec n u where take: "take_operation pk op ?p = Dispatch op ec n u" and u: "stopped u" "port u = pks @ ps"
    "ran u = ran s" "\<forall>x. ov_ready (ovl ?d x) \<longrightarrow> ov_ready (ovl u x)"
    using take_operation_ready [of ?p op pk] d mono assms(3) by auto
  have "do_one_round s = Dispatch op ec n u" using d(1) assms(2) take by (simp add: do_one_round_def)
  then have "do_one h no_limit s = complete_with h op ec n u" by (subst do_one.simps) simp
  with complete_step [OF u(1), of op ec n] u mono show ?thesis by auto
qed

lemma do_one_stop:
  assumes "port s = stop_packet # pks" and "stopped s"
  shows "\<exists>ec t. do_one h no_limit s = Returned 0 ec t \<and> ran t = ran s"
proof -
  let ?d = "dispatch_phase s"
  from extends_dispatch_phase [of s] assms obtain ps where d: "port ?d = stop_packet # pks @ ps" "stopped ?d" "ran ?d = ran s"
    by (auto simp: extends_def)
  obtain ec t where "take_stop (?d\<lparr>port := pks @ ps\<rparr>) = Return_zero ec t" "ran t = ran s"
    using take_stop_stopped [of "?d\<lparr>port := pks @ ps\<rparr>"] d by auto
  then have "do_one_round s = Return_zero ec t \<and> ran t = ran s"
    using d(1) by (simp add: do_one_round_def stop_packet_def)
  then show ?thesis by (subst do_one.simps) auto
qed

lemma run_until_stop:
  assumes "port s = pks @ stop_packet # rest" and "stopped s" and "length pks < fuel"
    and "\<forall>pk \<in> set pks. \<exists>op. pk_overlapped pk = Some op \<and> ov_ready (ovl s op)"
  shows "\<exists>k ec t. run_loop h True fuel n s = Some (k, Returned 0 ec t) \<and>
    map fst (ran t) = map fst (ran s) @ map (\<lambda>pk. the (pk_overlapped pk)) pks"
  using assms
proof (induction pks arbitrary: s n fuel rest)
  case Nil
  then obtain fuel' where "fuel = Suc fuel'" by (cases fuel) auto
  with Nil do_one_stop [of s rest True] show ?case by auto
next
  case (Cons pk pks)
  then obtain fuel' where f: "fuel = Suc fuel'" "length pks < fuel'" by (cases fuel) auto
  from Cons.prems obtain op where op: "pk_overlapped pk = Some op" "ov_ready (ovl s op)" by auto
  with do_one_ready [of s pk "pks @ stop_packet # rest" op True] Cons.prems obtain t ec m ps where
    t: "do_one h True s = Returned 1 no_error t" "stopped t" "port t = (pks @ stop_packet # rest) @ ps"
      "\<forall>x. ov_ready (ovl s x) \<longrightarrow> ov_ready (ovl t x)" "ran t = ran s @ [(op, ec, m)]" by auto
  have "\<forall>pk \<in> set pks. \<exists>op. pk_overlapped pk = Some op \<and> ov_ready (ovl t op)"
    using Cons.prems(4) t(4) by fastforce
  from Cons.IH [of t "rest @ ps" fuel' "if n \<noteq> - 1 then n + 1 else n"] this t f(2)
  obtain k ec' u where "run_loop h True fuel' (if n \<noteq> - 1 then n + 1 else n) t = Some (k, Returned 0 ec' u)"
    "map fst (ran u) = map fst (ran t) @ map (\<lambda>pk. the (pk_overlapped pk)) pks" by auto
  with t f(1) op show ?case by auto
qed

end

text \<open>A posted function object that posts further ones, as the program's handlers do: \<open>f\<close> tells which.\<close>

definition posting_handler :: "(nat \<Rightarrow> nat list) \<Rightarrow> nat \<Rightarrow> error_code \<Rightarrow> u32 \<Rightarrow> io_context \<Rightarrow> io_context" where
  "posting_handler f op ec n s = foldl (\<lambda>t p. post_immediate_completion p t) s (f op)"

lemma extends_posts: "extends s (foldl (\<lambda>t p. post_immediate_completion p t) s ops)"
proof (induction ops arbitrary: s)
  case Nil
  then show ?case by (simp add: extends_refl)
next
  case (Cons p ops)
  from extends_trans [OF extends_post_immediate Cons.IH] show ?case by simp
qed

interpretation poster: polite_handler "posting_handler f" for f
  by unfold_locales (simp add: posting_handler_def extends_posts)

section \<open>Properties\<close>

text \<open>
  A function object posted right before \<open>stop\<close> still runs: the thread inside \<open>run\<close> executes, in the
  order of the port, everything that was posted before the stop request and then returns, whatever
  the handlers themselves post. This is what \<open>Disconnect\<close> of the client relies on when it posts the
  close of the socket and then stops the context; the fuel needed is one round per packet.
\<close>

theorem work_posted_before_stop_is_run:
  assumes "\<not> stopped s" and "\<not> stop_event_posted s" and "post_errors s = []"
    and "\<forall>pk \<in> set (port s). \<exists>x. pk_overlapped pk = Some x \<and> ov_ready (ovl s x)"
    and "length (port s) + 1 < fuel"
  shows "\<exists>u k ec t. stop (post_immediate_completion op s) = Inr u \<and>
    run_loop (posting_handler f) True fuel 0 u = Some (k, Returned 0 ec t) \<and>
    map fst (ran t) = map fst (ran s) @ map (\<lambda>pk. the (pk_overlapped pk)) (port s) @ [op]"
proof -
  let ?p = "post_immediate_completion op s"
  have p: "port ?p = port s @ [op_packet key_zero op]" "\<not> stopped ?p" "\<not> stop_event_posted ?p"
    "post_errors ?p = []" "ran ?p = ran s" "ov_ready (ovl ?p op)" "\<forall>x. ov_ready (ovl s x) \<longrightarrow> ov_ready (ovl ?p x)"
    using assms(1-3) by (simp_all add: iocp_defs)
  then obtain u where u: "stop ?p = Inr u" "port u = (port s @ [op_packet key_zero op]) @ stop_packet # []"
    "stopped u" "ran u = ran s" "ovl u = ovl ?p"
    by (simp add: stop_def pqcs_def)
  have "\<forall>pk \<in> set (port s @ [op_packet key_zero op]). \<exists>x. pk_overlapped pk = Some x \<and> ov_ready (ovl u x)"
    using assms(4) p(6,7) u(5) by (auto simp: op_packet_def)
  moreover have "length (port s @ [op_packet key_zero op]) < fuel" using assms(5) by simp
  ultimately obtain k ec t where "run_loop (posting_handler f) True fuel 0 u = Some (k, Returned 0 ec t)"
    "map fst (ran t) = map fst (ran u) @ map (\<lambda>pk. the (pk_overlapped pk)) (port s @ [op_packet key_zero op])"
    using poster.run_until_stop [OF u(2,3)] by blast
  with u show ?thesis by (simp add: op_packet_def)
qed

theorem work_posted_before_stop_is_run_witness:
  "\<exists>u k ec t. stop (post_immediate_completion 3 (post_immediate_completion 2 io_context_init)) = Inr u \<and>
     run_loop (posting_handler (\<lambda>op. [7])) True 5 0 u = Some (k, Returned 0 ec t) \<and> map fst (ran t) = [2, 3]"
proof -
  let ?s = "post_immediate_completion 2 io_context_init"
  have "\<not> stopped ?s" "\<not> stop_event_posted ?s" "post_errors ?s = []"
    "\<forall>pk \<in> set (port ?s). \<exists>x. pk_overlapped pk = Some x \<and> ov_ready (ovl ?s x)" "length (port ?s) + 1 < 5"
    and "ran ?s = []" "map (\<lambda>pk. the (pk_overlapped pk)) (port ?s) = [2]"
    by (simp_all add: iocp_defs io_context_init_def)
  with work_posted_before_stop_is_run [of ?s 5 3 "\<lambda>op. [7]"] show ?thesis by simp
qed

text \<open>
  No posted operation is lost or duplicated, even when the system refuses to queue it: each way of
  posting adds exactly its operations to those pending in the port and on the completed queue,
  re-posting the completed queue keeps them, and a round that dispatches takes out exactly one,
  which is ready.
\<close>

theorem posted_operations_are_conserved:
  "pending (post_immediate_completion op s) = add_mset op (pending s) \<and>
   pending (on_completion op ec n s) = add_mset op (pending s) \<and>
   pending (post_deferred_completions ops s) = mset ops + pending s \<and>
   pending (dispatch_phase s) = pending s \<and>
   (\<forall>t. do_one_round s = Dispatch op ec n t \<longrightarrow> pending s = add_mset op (pending t) \<and> ov_ready (ovl t op)) \<and>
   (\<forall>t. do_one_round s = Nothing t \<or> do_one_round s = Return_zero ec t \<longrightarrow> pending t = pending s)"
  using round_pending [of s] pending_post_deferred_completions [of ops s] pending_post_deferred [of op "work_started s"]
  by (auto simp: post_immediate_completion_def on_completion_def work_started_def)

theorem posted_operations_are_conserved_witness:
  "pending (post_immediate_completion 4 (io_context_init\<lparr>post_errors := [8]\<rparr>)) = {#4#}"
  using posted_operations_are_conserved [of 4 "io_context_init\<lparr>post_errors := [8]\<rparr>"]
  by (simp add: pending_def io_context_init_def)

text \<open>
  An overlapped operation is completed exactly once and with the system's result in both orders:
  when the initiating function returns first, the loop dispatches the packet; when the packet comes
  first, the loop only stores the result and the late \<open>on_pending\<close> posts it again.
\<close>

theorem overlapped_result_same_in_both_orders:
  assumes "\<not> ov_ready (ovl s op)" and "\<not> dispatch_required s" and "port s = []" and "post_errors s = []"
  shows "(\<exists>t. do_one_round ((on_pending op s)\<lparr>port := [io_packet e n op]\<rparr>) = Dispatch op (system_ec e) n t) \<and>
    (\<exists>u. do_one_round (s\<lparr>port := [io_packet e n op]\<rparr>) = Again u \<and>
      (\<exists>t. do_one_round (on_pending op u) = Dispatch op (system_ec e) n t))"
  using pending_first [OF assms(1-3)] packet_first [OF assms] by blast

theorem overlapped_result_same_in_both_orders_witness:
  "\<exists>u. do_one_round (io_context_init\<lparr>port := [io_packet 64 0 1]\<rparr>) = Again u \<and>
     (\<exists>t. do_one_round (on_pending 1 u) = Dispatch 1 (system_ec 64) 0 t)"
  using overlapped_result_same_in_both_orders [of io_context_init 1 64 0]
  by (simp add: io_context_init_def overlapped_reset_def)

text \<open>
  Shutting a context down destroys the pending operations and runs none: when \<open>shutdown\<close> returns, no
  work is outstanding, no handler has been called, and the operations destroyed and those left are
  exactly the ones that were pending.
\<close>

theorem shutdown_destroys_pending_operations:
  assumes "shutdown s = Some t"
  shows "outstanding_work t \<le> 0 \<and> ran t = ran s \<and>
    mset (destroyed t) + pending t = mset (destroyed s) + pending s \<and>
    outstanding_work s - outstanding_work t = int (length (destroyed t)) - int (length (destroyed s))"
  using shutdown_loop_effect [OF assms [unfolded shutdown_def]] by simp

theorem shutdown_destroys_pending_operations_witness:
  "\<exists>t. shutdown (post_immediate_completion 2 io_context_init) = Some t \<and> mset (destroyed t) + pending t = {#2#} \<and> ran t = []"
proof -
  obtain t where t: "shutdown (post_immediate_completion 2 io_context_init) = Some t"
    by (simp add: shutdown_def iocp_defs io_context_init_def shutdown_loop.simps)
  from shutdown_destroys_pending_operations [OF t] t show ?thesis
    by (simp add: iocp_defs io_context_init_def pending_def)
qed

end
