(* ===== verification/Asio_Connect.thy ===== *)
theory Asio_Connect
  imports Asio_Error
begin

text \<open>
  Connecting to the first endpoint of a sequence that answers, \<^verbatim>\<open>asio/impl/connect.hpp\<close>: the blocking
  \<open>connect\<close> and the composed operation \<open>range_connect_op\<close> behind \<open>async_connect\<close>, and the proof that
  they try the same endpoints with the same result. What an attempt at an endpoint returns is a
  function \<open>attempt\<close>.
\<close>

section \<open>The connect condition\<close>

definition default_connect_condition :: "error_code \<Rightarrow> 'e \<Rightarrow> bool" where
  "default_connect_condition ec ep = True"

text \<open>The next endpoint, from index \<open>i\<close> on, that the condition accepts, or the end.\<close>

function call_connect_condition :: "(error_code \<Rightarrow> 'e \<Rightarrow> bool) \<Rightarrow> error_code \<Rightarrow> 'e list \<Rightarrow> nat \<Rightarrow> nat" where
  "call_connect_condition cond ec eps i =
     (if i < length eps then if cond ec (eps ! i) then i else call_connect_condition cond ec eps (i + 1)
      else length eps)"
  by pat_completeness auto
termination
  by (relation "measure (\<lambda>(c, e, eps, i). length eps - i)") auto

declare call_connect_condition.simps [simp del]

lemma call_condition_bounds:
  "i \<le> length eps \<Longrightarrow> i \<le> call_connect_condition cond ec eps i \<and> call_connect_condition cond ec eps i \<le> length eps"
  by (induction cond ec eps i rule: call_connect_condition.induct)
    (subst (1 2) call_connect_condition.simps, auto)

lemma call_condition_default:
  "i \<le> length eps \<Longrightarrow> call_connect_condition default_connect_condition ec eps i = i"
  by (subst call_connect_condition.simps) (simp add: default_connect_condition_def)

section \<open>The blocking loop\<close>

function connect_loop :: "(error_code \<Rightarrow> 'e \<Rightarrow> bool) \<Rightarrow> 'e list \<Rightarrow> (nat \<Rightarrow> error_code) \<Rightarrow> error_code \<Rightarrow> nat \<Rightarrow> nat \<times> error_code" where
  "connect_loop cond eps attempt ec i =
     (if i < length eps then
        (let j = call_connect_condition cond ec eps i
         in if j < length eps then
              if \<not> failed (attempt j) then (j, attempt j)
              else connect_loop cond eps attempt (attempt j) (j + 1)
            else (length eps, if \<not> failed ec then make_misc not_found else ec))
      else (length eps, if \<not> failed ec then make_misc not_found else ec))"
  by pat_completeness auto
termination
proof (relation "measure (\<lambda>(c, eps, a, ec, i). length eps - i)", goal_cases)
  case (2 cond eps attempt ec i j)
  then show ?case using call_condition_bounds [of i eps cond ec] by simp
qed simp

declare connect_loop.simps [simp del]

definition sync_connect :: "(error_code \<Rightarrow> 'e \<Rightarrow> bool) \<Rightarrow> 'e list \<Rightarrow> (nat \<Rightarrow> error_code) \<Rightarrow> nat \<times> error_code" where
  "sync_connect cond eps attempt = connect_loop cond eps attempt no_error 0"

section \<open>The composed operation\<close>

text \<open>
  One activation of \<open>process\<close> ends by starting a connect operation at an index, by posting itself with
  an error, or by calling the handler. \<open>start\<close> tells the first activation from a resumption, \<open>open\<close>
  and \<open>cancelled\<close> are what it sees of the socket and the cancellation slot.
\<close>

datatype 'e connect_action =
    Connect_to nat
  | Post_self error_code nat
  | Finish error_code "'e option"

definition finish_at :: "'e list \<Rightarrow> error_code \<Rightarrow> nat \<Rightarrow> 'e connect_action" where
  "finish_at eps ec i = Finish ec (if failed ec \<or> i = length eps then None else Some (eps ! i))"

definition process_top :: "(error_code \<Rightarrow> 'e \<Rightarrow> bool) \<Rightarrow> 'e list \<Rightarrow> bool \<Rightarrow> error_code \<Rightarrow> nat \<Rightarrow> 'e connect_action" where
  "process_top cond eps start ec index =
     (let i = call_connect_condition cond ec eps index
      in if i \<noteq> length eps then Connect_to i
         else if start then Post_self (make_misc not_found) i
         else finish_at eps ec i)"

definition process_resume :: "(error_code \<Rightarrow> 'e \<Rightarrow> bool) \<Rightarrow> 'e list \<Rightarrow> bool \<Rightarrow> bool \<Rightarrow> error_code \<Rightarrow> nat \<Rightarrow> 'e connect_action" where
  "process_resume cond eps is_open cancelled ec index =
     (if index = length eps then finish_at eps ec index
      else if \<not> is_open then finish_at eps (make_basic operation_aborted) index
      else if \<not> failed ec then finish_at eps ec index
      else if cancelled then finish_at eps (make_basic operation_aborted) index
      else process_top cond eps False ec (index + 1))"

definition range_connect_op :: "(error_code \<Rightarrow> 'e \<Rightarrow> bool) \<Rightarrow> 'e list \<Rightarrow> bool \<Rightarrow> bool \<Rightarrow> bool \<Rightarrow> error_code \<Rightarrow> nat \<Rightarrow> 'e connect_action" where
  "range_connect_op cond eps start is_open cancelled ec index =
     (if start then process_top cond eps True ec index
      else process_resume cond eps is_open cancelled ec index)"

text \<open>The whole operation: each activation with what the socket and the slot are like at that
  moment. \<open>fuel\<close> bounds the activations.\<close>

fun run_connect :: "(error_code \<Rightarrow> 'e \<Rightarrow> bool) \<Rightarrow> 'e list \<Rightarrow> (nat \<Rightarrow> error_code) \<Rightarrow> (nat \<Rightarrow> bool) \<Rightarrow> (nat \<Rightarrow> bool) \<Rightarrow> nat \<Rightarrow>
    'e connect_action \<Rightarrow> (error_code \<times> 'e option) option" where
  "run_connect cond eps attempt opn canc fuel (Finish ec ep) = Some (ec, ep)"
| "run_connect cond eps attempt opn canc 0 act = None"
| "run_connect cond eps attempt opn canc (Suc fuel) (Connect_to i) =
     run_connect cond eps attempt opn canc fuel (range_connect_op cond eps False (opn i) (canc i) (attempt i) i)"
| "run_connect cond eps attempt opn canc (Suc fuel) (Post_self ec i) =
     run_connect cond eps attempt opn canc fuel (range_connect_op cond eps False (opn i) (canc i) ec i)"

definition async_connect :: "(error_code \<Rightarrow> 'e \<Rightarrow> bool) \<Rightarrow> 'e list \<Rightarrow> 'e connect_action" where
  "async_connect cond eps = range_connect_op cond eps True False False no_error 0"

section \<open>Equivalence\<close>

lemma connect_loop_result:
  assumes "i \<le> length eps" and "connect_loop cond eps attempt ec i = (j, ec')"
  shows "j \<le> length eps \<and> (failed ec' \<longleftrightarrow> j = length eps)"
  using assms
proof (induction cond eps attempt ec i rule: connect_loop.induct)
  case (1 cond eps attempt ec i)
  let ?k = "call_connect_condition cond ec eps i"
  show ?case
  proof (cases "i < length eps \<and> ?k < length eps \<and> failed (attempt ?k)")
    case True
    then have "connect_loop cond eps attempt (attempt ?k) (?k + 1) = (j, ec')"
      using 1(3) by (subst (asm) connect_loop.simps) (simp add: Let_def)
    with 1(1) True show ?thesis by auto
  next
    case False
    with 1(2,3) show ?thesis
      by (subst (asm) connect_loop.simps) (auto simp: Let_def split: if_splits)
  qed
qed

text \<open>From an activation that looks for the next endpoint, the operation ends within one more
  activation per remaining endpoint, with the result of the blocking loop.\<close>

lemma process_top_loop:
  assumes "i \<le> length eps" and "failed ec" and "length eps - i \<le> fuel"
  shows "run_connect cond eps attempt (\<lambda>_. True) (\<lambda>_. False) fuel (process_top cond eps False ec i) =
    (let (j, ec') = connect_loop cond eps attempt ec i
     in Some (ec', if j = length eps then None else Some (eps ! j)))"
  using assms
proof (induction "length eps - i" arbitrary: i ec fuel rule: less_induct)
  case less
  let ?k = "call_connect_condition cond ec eps i"
  have k: "i \<le> ?k" "?k \<le> length eps" using call_condition_bounds [OF less.prems(1)] by auto
  show ?case
  proof (cases "?k = length eps")
    case True
    then have "connect_loop cond eps attempt ec i = (length eps, ec)"
      using less.prems(2) by (subst connect_loop.simps) (simp add: Let_def)
    with True show ?thesis by (simp add: process_top_def finish_at_def)
  next
    case False
    with k have lt: "?k < length eps" "i < length eps" by auto
    then obtain fuel' where f: "fuel = Suc fuel'" using less.prems(3) by (cases fuel) auto
    have loop: "connect_loop cond eps attempt ec i =
      (if \<not> failed (attempt ?k) then (?k, attempt ?k) else connect_loop cond eps attempt (attempt ?k) (?k + 1))"
      using lt by (subst connect_loop.simps) (simp add: Let_def)
    show ?thesis
    proof (cases "failed (attempt ?k)")
      case True
      have "run_connect cond eps attempt (\<lambda>_. True) (\<lambda>_. False) fuel' (process_top cond eps False (attempt ?k) (?k + 1)) =
        (let (j, ec') = connect_loop cond eps attempt (attempt ?k) (?k + 1)
         in Some (ec', if j = length eps then None else Some (eps ! j)))"
        by (rule less.hyps) (use lt k f less.prems True in auto)
      with True lt f loop show ?thesis
        by (simp add: process_top_def range_connect_op_def process_resume_def Let_def)
    next
      case False
      with lt f loop show ?thesis
        by (simp add: process_top_def range_connect_op_def process_resume_def finish_at_def Let_def)
    qed
  qed
qed

lemma async_connect_sync:
  assumes "length eps < fuel"
  shows "run_connect cond eps attempt (\<lambda>_. True) (\<lambda>_. False) fuel (async_connect cond eps) =
    (let (j, ec) = sync_connect cond eps attempt
     in Some (ec, if j = length eps then None else Some (eps ! j)))"
proof -
  let ?k = "call_connect_condition cond no_error eps 0"
  have k: "?k \<le> length eps" using call_condition_bounds [of 0 eps cond no_error] by simp
  obtain fuel' where f: "fuel = Suc fuel'" using assms by (cases fuel) auto
  show ?thesis
  proof (cases "?k = length eps")
    case True
    then have "sync_connect cond eps attempt = (length eps, make_misc not_found)"
      unfolding sync_connect_def by (subst connect_loop.simps) (simp add: Let_def)
    with True f show ?thesis
      by (simp add: async_connect_def range_connect_op_def process_top_def process_resume_def finish_at_def)
  next
    case False
    with k have lt: "?k < length eps" by simp
    then have "0 < length eps" by linarith
    with lt have loop: "sync_connect cond eps attempt =
      (if \<not> failed (attempt ?k) then (?k, attempt ?k) else connect_loop cond eps attempt (attempt ?k) (?k + 1))"
      unfolding sync_connect_def by (subst connect_loop.simps) (simp add: Let_def)
    have start: "run_connect cond eps attempt (\<lambda>_. True) (\<lambda>_. False) fuel (async_connect cond eps) =
      run_connect cond eps attempt (\<lambda>_. True) (\<lambda>_. False) fuel'
        (process_resume cond eps True False (attempt ?k) ?k)"
      using lt f by (simp add: async_connect_def range_connect_op_def process_top_def)
    show ?thesis
    proof (cases "failed (attempt ?k)")
      case True
      with lt start loop process_top_loop [of "?k + 1" eps "attempt ?k" fuel' cond attempt] f assms
      show ?thesis by (simp add: process_resume_def)
    next
      case False
      with lt start loop show ?thesis by (simp add: process_resume_def finish_at_def)
    qed
  qed
qed

text \<open>With the default condition the endpoints are tried in order up to the first that answers.\<close>

lemma connect_loop_first:
  assumes "i \<le> length eps"
  shows "connect_loop default_connect_condition eps attempt ec i =
    (if \<exists>j. i \<le> j \<and> j < length eps \<and> \<not> failed (attempt j)
     then (let j = LEAST j. i \<le> j \<and> j < length eps \<and> \<not> failed (attempt j) in (j, attempt j))
     else (length eps, if i < length eps then attempt (length eps - 1)
                       else if \<not> failed ec then make_misc not_found else ec))"
  using assms
proof (induction "length eps - i" arbitrary: i ec rule: less_induct)
  case less
  show ?case
  proof (cases "i < length eps")
    case False
    with less.prems show ?thesis by (subst connect_loop.simps) auto
  next
    case lt: True
    show ?thesis
    proof (cases "failed (attempt i)")
      case False
      have "(LEAST j. i \<le> j \<and> j < length eps \<and> \<not> failed (attempt j)) = i"
        by (rule Least_equality) (use lt False in auto)
      with lt False less.prems show ?thesis
        by (subst connect_loop.simps) (auto simp: call_condition_default Let_def)
    next
      case True
      have step: "connect_loop default_connect_condition eps attempt ec i =
        connect_loop default_connect_condition eps attempt (attempt i) (i + 1)"
        using lt True less.prems by (subst connect_loop.simps) (simp add: call_condition_default Let_def)
      have shift: "(i \<le> j \<and> j < length eps \<and> \<not> failed (attempt j)) = (i + 1 \<le> j \<and> j < length eps \<and> \<not> failed (attempt j))" for j
        using True by (cases "j = i") auto
      have hyp: "connect_loop default_connect_condition eps attempt (attempt i) (i + 1) =
        (if \<exists>j. i + 1 \<le> j \<and> j < length eps \<and> \<not> failed (attempt j)
         then (let j = LEAST j. i + 1 \<le> j \<and> j < length eps \<and> \<not> failed (attempt j) in (j, attempt j))
         else (length eps, if i + 1 < length eps then attempt (length eps - 1)
                           else if \<not> failed (attempt i) then make_misc not_found else attempt i))"
        by (rule less.hyps) (use lt in auto)
      have "\<not> i + 1 < length eps \<Longrightarrow> i = length eps - 1" using lt by simp
      with hyp lt True show ?thesis unfolding step shift by (auto simp: Let_def)
    qed
  qed
qed

section \<open>Properties\<close>



text \<open>
  With the default condition the endpoint connected to is the first one that answers; if none does,
  the error is that of the last attempt, or \<open>not_found\<close> when there are no endpoints.
\<close>

theorem connect_takes_first_answering_endpoint:
  "sync_connect default_connect_condition eps attempt =
    (if \<exists>j. j < length eps \<and> \<not> failed (attempt j)
     then (let j = LEAST j. j < length eps \<and> \<not> failed (attempt j) in (j, attempt j))
     else (length eps, if eps = [] then make_misc not_found else attempt (length eps - 1)))"
  using connect_loop_first [of 0 eps attempt no_error] by (auto simp: sync_connect_def)

end
