(* ===== verification/Delivery.thy ===== *)
theory Delivery
  imports Connection_Scope Custom_Types
begin

text \<open>
  From one connection to another: what the receiving process has in its queue is determined by what
  the sending process was given to send, for well-framed messages in full and for pushed messages
  only up to the bytes they steal; and what becomes of a connection whose write has failed.
\<close>

section \<open>Well-framed messages\<close>

text \<open>What a receiver makes of a sequence of well-framed messages, \<open>t\<close> being its message object.\<close>

fun received_all :: "messageBody \<Rightarrow> messageBody list \<Rightarrow> messageBody list" where
  "received_all t [] = []"
| "received_all t (m # ms) = received_as t m # received_all (received_as t m) ms"

lemma decoded_frames: "\<forall>m \<in> set ms. well_framed m \<Longrightarrow> decoded t (frames ms) = received_all t ms"
proof (induction ms arbitrary: t)
  case Nil
  then show ?case by (simp add: decoded_def decode_short sizeof_messageHeader_def)
next
  case (Cons m ms)
  have "decode t (frame m @ frames ms) =
    (let (ns, t2, r) = decode (received_as t m) (frames ms) in (received_as t m # ns, t2, r))"
    by (rule decode_frame) (use Cons.prems in simp)
  with Cons.IH [of "received_as t m"] Cons.prems show ?case
    by (cases "decode (received_as t m) (frames ms)") (simp add: decoded_def)
qed

lemma received_all_bodies: "\<forall>m \<in> set ms. body m \<noteq> [] \<Longrightarrow> received_all t ms = ms"
  by (induction ms arbitrary: t) (auto simp: received_as_def)

lemma decoded_prefix: "prefix bs cs \<Longrightarrow> prefix (decoded t bs) (decoded t cs)"
  using decoded_prefix_append by (fastforce simp: prefix_def)

section \<open>Two processes and a wire\<close>

text \<open>
  The wire hands over the bytes in order: at any moment what the receiver's socket has received is
  a prefix of what the sender's socket has sent.
\<close>

definition wired :: "nat \<Rightarrow> 'a process_scheme \<Rightarrow> nat \<Rightarrow> 'b process_scheme \<Rightarrow> bool" where
  "wired p s q r \<longleftrightarrow> prefix (sock_rx (heap r q)) (sock_tx (heap s p))"

text \<open>Nothing left to do on either side: no write in flight on an open socket, every byte handed
  over, and the receiver waiting for more.\<close>

definition settled :: "nat \<Rightarrow> 'a process_scheme \<Rightarrow> nat \<Rightarrow> 'b process_scheme \<Rightarrow> bool" where
  "settled p s q r \<longleftrightarrow> ops_of is_write p (started s) = [] \<and> sock_open (heap s p) \<and>
     sock_rx (heap r q) = sock_tx (heap s p) \<and> reading q r"

lemma delivery_run:
  assumes w: "fresh_process s" "possible es s" "run_events es s = Inr s'"
    and r: "fresh_process r" "nOwnerType (heap r q) = owner_server" "sock_open (heap r q)"
      "deqQueue (qMessagesIn r) = []"
      "possible fs (ConnectToClient q uid r)" "run_events fs (ConnectToClient q uid r) = Inr r'"
    and wire: "wired p s' q r'"
  shows "prefix (inbox_of q r') (decoded messageBody_init (frames (sent_in p es s)))"
    and "settled p s' q r' \<Longrightarrow> inbox_of q r' = decoded messageBody_init (frames (sent_in p es s))"
proof -
  let ?r = "ConnectToClient q uid r"
  have srv: "nOwnerType (heap ?r q) = owner_server" and none: "inbox_of q ?r = []"
    using r(2,4) by (simp_all add: ConnectToClient_def ReadHeader_def inbox_of_def)
  have box: "inbox_of q r' = arrived_in q fs ?r"
    using inbox_run [OF srv r(5,6)] none by simp
  have ok: "reader_ok q (arrived_in q fs ?r) r'"
    using reader_run [OF accepted_reader(1,3) [OF r(1-3)] r(5,6)] by simp
  have wr: "writer_ok p (frames (sent_in p es s)) s'"
    using writer_run [OF fresh_writer [OF w(1)] w(2,3)] by simp
  have "prefix (sock_rx (heap r' q)) (frames (sent_in p es s))"
    using wire writer_ok_prefix [OF wr] by (auto simp: wired_def intro: prefix_order.trans)
  from prefix_order.trans [OF reader_ok_prefix [OF ok] decoded_prefix [OF this]] box
  show "prefix (inbox_of q r') (decoded messageBody_init (frames (sent_in p es s)))" by simp
  show "inbox_of q r' = decoded messageBody_init (frames (sent_in p es s))" if "settled p s' q r'"
    using that writer_idle [OF wr] reader_ok_exact [OF ok] box by (simp add: settled_def)
qed

section \<open>Pushed messages\<close>

text \<open>
  Two pushed messages in a row: the first swallows the header of the second. What is left, the
  second body, is then read as a header.
\<close>

lemma decode_two_pushed:
  assumes "size_in_step m" "pushed_size_fits m" and "length (body m') < sizeof_messageHeader"
  shows "decode t (frames [m, m']) =
    ([m\<lparr>body := body m @ header_bytes (header m')\<rparr>], m\<lparr>body := body m @ header_bytes (header m')\<rparr>, body m')"
proof -
  have "frames [m, m'] = frame m @ header_bytes (header m') @ body m'"
    by (simp add: frame_def)
  also have "decode t \<dots> = (let t1 = m\<lparr>body := body m @ header_bytes (header m')\<rparr>;
      (ms, t2, r) = decode t1 (body m') in (t1 # ms, t2, r))"
    by (rule decode_pushed_steals) (use assms in simp_all)
  finally show ?thesis using decode_short [OF assms(3)] by (simp add: Let_def)
qed

section \<open>A failed write\<close>

text \<open>
  After a failed write the message stays in the queue. From then on the queue is never empty and no
  write is in flight, so no later call of \<open>Send\<close> starts one: the connection is stalled.
\<close>

definition stalled :: "nat \<Rightarrow> 'a process_scheme \<Rightarrow> bool" where
  "stalled p s \<longleftrightarrow> ops_of is_write p (started s) = [] \<and> deqQueue (qMessagesOut (heap s p)) \<noteq> []"

lemma Send_task_stalled: "stalled p s \<Longrightarrow> Send_task p m s =
    Inr (on_conn p (\<lambda>c. c\<lparr>qMessagesOut := tsq_push_back (qMessagesOut c) m\<rparr>) s)"
  by (simp add: stalled_def Send_task_def Let_def)

lemma stalled_step:
  assumes st: "stalled p s" and en: "enabled e s" and ex: "exec_event e s = Inr t"
  shows "stalled p t \<and> sock_tx (heap t p) = sock_tx (heap s p) \<and>
    prefix (deqQueue (qMessagesOut (heap s p))) (deqQueue (qMessagesOut (heap t p)))"
proof (cases e)
  case Run_task
  with en obtain tk ts where tk: "tasks s = tk # ts" by (cases "tasks s") auto
  let ?s = "s\<lparr>tasks := ts\<rparr>"
  have run: "run_task tk ?s = Inr t" and st': "stalled p ?s" using ex Run_task tk st by (simp_all add: stalled_def)
  show ?thesis
  proof (cases tk)
    case (SendTask q m)
    show ?thesis
    proof (cases "q = p")
      case True
      with Send_task_stalled [OF st', of m] run SendTask st show ?thesis by (auto simp: stalled_def)
    next
      case False
      with run_task_other [OF run, of p is_write] SendTask st show ?thesis by (simp add: stalled_def)
    qed
  next
    case (CloseTask q)
    with run st show ?thesis by (cases "q = p") (auto simp: stalled_def socket_close_def)
  qed
next
  case (Complete i ec d)
  with en obtain q op live where i: "i < length (started s)" "started s ! i = (q, op, live)"
    by (auto split: prod.splits)
  let ?s = "s\<lparr>started := remove_nth i (started s)\<rparr>"
  have run: "complete_op q op ec d ?s = Inr t" using ex Complete i by simp
  show ?thesis
  proof (cases "q = p")
    case True
    then have "\<not> is_write op" using st ops_of_present [where P = is_write, OF i(1)] i(2) by (auto simp: stalled_def)
    with ops_of_remove(1) [where P = is_write, OF i] st have none: "ops_of is_write p (started ?s) = []"
      by (simp add: stalled_def)
    have "ops_of is_write p (started t) = ops_of is_write p (started ?s)"
      and "qMessagesOut (heap t p) = qMessagesOut (heap s p)"
      and "sock_tx (heap t p) = sock_tx (heap s p)"
      using run True \<open>\<not> is_write op\<close>
      by (cases op; auto simp: conn_defs store_header_def store_body_def Let_def split: if_splits owner.splits)+
    with none st show ?thesis by (simp add: stalled_def)
  next
    case False
    then have "ops_of is_write p (started ?s) = []"
      using ops_of_remove(1) [where P = is_write, OF i] st by (simp add: stalled_def)
    with complete_op_other [OF run, of p is_write] False st show ?thesis by (simp add: stalled_def)
  qed
qed (use st ex in \<open>auto simp: stalled_def Send_def Disconnect_def split: if_splits\<close>)

lemma stalled_run:
  "stalled p s \<Longrightarrow> possible es s \<Longrightarrow> run_events es s = Inr t \<Longrightarrow>
     stalled p t \<and> sock_tx (heap t p) = sock_tx (heap s p) \<and>
     prefix (deqQueue (qMessagesOut (heap s p))) (deqQueue (qMessagesOut (heap t p)))"
proof (induction es arbitrary: s)
  case Nil
  then show ?case by simp
next
  case (Cons e es)
  then obtain u where u: "exec_event e s = Inr u" "run_events es u = Inr t"
    by (auto simp: bind_res_Inr_iff)
  from stalled_step [of p s e u] Cons.prems u Cons.IH [of u] show ?case
    by (auto intro: prefix_order.trans)
qed

lemma failed_write_stalls:
  assumes "writer_ok p st s" and "i < length (started s)" and "started s ! i = (p, op, live)" and "is_write op"
    and "op_outcome op ec d" and "failed ec" and "exec_event (Complete i ec d) s = Inr t"
  shows "stalled p t \<and> \<not> sock_open (heap t p)"
proof -
  let ?s = "s\<lparr>started := remove_nth i (started s)\<rparr>"
  from assms(1) obtain op' where one: "ops_of is_write p (started s) = [op']"
    using ops_of_present [where P = is_write, OF assms(2-4)] unfolding writer_ok_def by (elim writer_phase_one) auto
  with ops_of_remove(2) [where P = is_write, OF assms(2,3) refl assms(4)] have none: "ops_of is_write p (started ?s) = []"
    and same: "op' = op" by auto
  have "deqQueue (qMessagesOut (heap s p)) \<noteq> []"
    using assms(1,4) one same unfolding writer_ok_def by (cases op) auto
  with none assms(3,4,6,7) show ?thesis
    by (cases op) (auto simp: stalled_def WriteHeader_handler_def WriteBody_handler_def transmit_def socket_close_def)
qed

section \<open>Properties\<close>

lemma received_all_append_prefix: "prefix (received_all t xs) (received_all t (xs @ ys))"
  by (induction xs arbitrary: t) simp_all

lemma sent_prefix_calls:
  assumes "fresh_process s" and "possible es s" and "run_events es s = Inr t"
  shows "sent_in p es s @ waiting_sends p t = calls_of p es"
  using sends_in_order [OF assms(2,3), of p] assms(1) by (simp add: fresh_process_def waiting_sends_def)

text \<open>
  C1: End to end, from the calls of \<open>Send\<close> in one process to the queue of the other: well-framed messages
  arrive in the order of the calls, never altered except that a message without body arrives with
  the body of the one before it; all of them arrive once both sides are settled; and if every message
  has a body, what arrives is exactly what was sent.
\<close>

theorem well_framed_messages_delivered_in_order:
  assumes "fresh_process s" and "possible es s" and "run_events es s = Inr s'"
    and "fresh_process r" and "nOwnerType (heap r q) = owner_server" and "sock_open (heap r q)"
    and "deqQueue (qMessagesIn r) = []"
    and "possible fs (ConnectToClient q uid r)" and "run_events fs (ConnectToClient q uid r) = Inr r'"
    and "wired p s' q r'" and "\<forall>m \<in> set (calls_of p es). well_framed m"
  shows "prefix (inbox_of q r') (received_all messageBody_init (calls_of p es)) \<and>
    (settled p s' q r' \<and> waiting_sends p s' = [] \<longrightarrow>
       inbox_of q r' = received_all messageBody_init (calls_of p es)) \<and>
    ((\<forall>m \<in> set (calls_of p es). body m \<noteq> []) \<longrightarrow> prefix (inbox_of q r') (calls_of p es))"
proof -
  note run = delivery_run [OF assms(1-10)]
  have calls: "sent_in p es s @ waiting_sends p s' = calls_of p es"
    by (rule sent_prefix_calls [OF assms(1-3)])
  with assms(11) have "\<forall>m \<in> set (sent_in p es s). well_framed m" by (metis Un_iff set_append)
  then have dec: "decoded messageBody_init (frames (sent_in p es s)) = received_all messageBody_init (sent_in p es s)"
    by (rule decoded_frames)
  have "prefix (inbox_of q r') (received_all messageBody_init (calls_of p es))"
    using run(1) received_all_append_prefix [of messageBody_init "sent_in p es s" "waiting_sends p s'"] calls
    unfolding dec by (metis prefix_order.trans)
  with run(2) dec calls show ?thesis by (auto simp: received_all_bodies)
qed

theorem well_framed_messages_delivered_in_order_witness:
  "\<exists>s' r'. run_events (send_run messageBody_init) (idle_process owner_client) = Inr s' \<and>
     run_events (receive_run messageBody_init) (ConnectToClient 0 7 (idle_process owner_server)) = Inr r' \<and>
     inbox_of 0 r' = [messageBody_init]"
proof -
  have m: "body messageBody_init = []" "hdr_size (header messageBody_init) = 0"
    by (simp_all add: messageBody_init_def messageHeader_init_def)
  from send_run_possible [OF m(1), of owner_client] obtain s' where
    s: "possible (send_run messageBody_init) (idle_process owner_client)"
      "run_events (send_run messageBody_init) (idle_process owner_client) = Inr s'"
      "started s' = []" "sock_open (heap s' 0)" "sock_tx (heap s' 0) = header_bytes (header messageBody_init)"
      "waiting_sends 0 s' = []" by blast
  from receive_run_possible [OF m(2)] obtain r' where
    r: "possible (receive_run messageBody_init) (ConnectToClient 0 7 (idle_process owner_server))"
      "run_events (receive_run messageBody_init) (ConnectToClient 0 7 (idle_process owner_server)) = Inr r'"
      "sock_rx (heap r' 0) = header_bytes (header messageBody_init)" "reading 0 r'" by blast
  have wire: "wired 0 s' 0 r'" and set: "settled 0 s' 0 r'" using s r by (simp_all add: wired_def settled_def)
  have calls: "calls_of 0 (send_run messageBody_init) = [messageBody_init]" by (simp add: calls_of_def send_run_def)
  have "\<forall>m \<in> set (calls_of 0 (send_run messageBody_init)). well_framed m" using m by (simp add: calls well_framed_def)
  from well_framed_messages_delivered_in_order [OF idle_process_fresh s(1,2) accepted_process r(1,2) wire this]
  have "inbox_of 0 r' = received_all messageBody_init [messageBody_init]" using set s(6) calls by simp
  also have "\<dots> = [messageBody_init]" using m by (simp add: received_as_def)
  finally show ?thesis using s(2) r(2) by blast
qed

text \<open>
  C6: A single message that data was pushed into with \<open><<\<close> never arrives: however long the connection
  runs, if it is the only message sent, the receiver's queue stays empty.
\<close>

theorem lonely_pushed_message_never_arrives:
  assumes "fresh_process s" and "possible es s" and "run_events es s = Inr s'"
    and "fresh_process r" and "nOwnerType (heap r q) = owner_server" and "sock_open (heap r q)"
    and "deqQueue (qMessagesIn r) = []"
    and "possible fs (ConnectToClient q uid r)" and "run_events fs (ConnectToClient q uid r) = Inr r'"
    and "wired p s' q r'" and "calls_of p es = [msg_push m d]" and "msg_size (msg_push m d) < 2 ^ 32"
  shows "inbox_of q r' = []"
proof -
  have "decoded messageBody_init (frames (sent_in p es s)) = []"
  proof (cases "sent_in p es s = []")
    case True
    then show ?thesis by (simp add: decoded_def decode_short sizeof_messageHeader_def)
  next
    case False
    with sent_prefix_calls [OF assms(1-3), of p] assms(11) have "sent_in p es s = [msg_push m d]"
      by (metis append_eq_Cons_conv append_is_Nil_conv)
    with decode_pushed_alone [of "msg_push m d"] assms(12) show ?thesis
      by (simp add: decoded_def pushed_size_fits_def)
  qed
  with delivery_run(1) [OF assms(1-10)] show ?thesis by simp
qed

definition push_run :: "messageBody \<Rightarrow> event list" where
  "push_run m = [Call_Send 0 m, Run_task, Complete 0 no_error (header_bytes (header m)),
     Complete 0 no_error (body m)]"

lemma push_run_possible:
  assumes "body m \<noteq> []"
  shows "possible (push_run m) (idle_process own) \<and>
    (\<exists>t. run_events (push_run m) (idle_process own) = Inr t \<and>
       sock_tx (heap t 0) = header_bytes (header m) @ body m)"
  using assms
  by (simp add: push_run_def idle_process_def conn_defs connection_new_def post_def
      transfer_outcome_def tsq_front_def tsq_pop_front_def remove_nth_def transmit_def on_conn_def start_op_def
      Let_def tsq_push_back_def tsq_init_def)

lemma header_only_possible:
  assumes "0 < unat (hdr_size (header m))"
  shows "possible (receive_run m) (ConnectToClient 0 7 (idle_process owner_server)) \<and>
    (\<exists>t. run_events (receive_run m) (ConnectToClient 0 7 (idle_process owner_server)) = Inr t \<and>
       sock_rx (heap t 0) = header_bytes (header m))"
  using assms
  by (simp add: receive_run_def idle_process_def conn_defs connection_new_def transfer_outcome_def
      remove_nth_def store_header_def on_conn_def start_op_def overwrite_def reading_def Let_def unat_gt_0
      word_neq_0_conv)

theorem lonely_pushed_message_never_arrives_witness:
  "\<exists>r'. run_events (receive_run (msg_push messageBody_init [5])) (ConnectToClient 0 7 (idle_process owner_server)) = Inr r' \<and>
     inbox_of 0 r' = []"
proof -
  let ?m = "msg_push messageBody_init [5]"
  have b: "body ?m \<noteq> []" by simp
  have sz: "hdr_size (header ?m) = 9"
    by (simp add: hdr_size_msg_push sizeof_messageHeader_def messageBody_init_def)
  from push_run_possible [OF b, of owner_client] obtain s' where
    s: "possible (push_run ?m) (idle_process owner_client)" "run_events (push_run ?m) (idle_process owner_client) = Inr s'"
      "sock_tx (heap s' 0) = header_bytes (header ?m) @ body ?m" by blast
  have "0 < unat (hdr_size (header ?m))" by (simp add: sz)
  from header_only_possible [OF this] obtain r' where
    r: "possible (receive_run ?m) (ConnectToClient 0 7 (idle_process owner_server))"
      "run_events (receive_run ?m) (ConnectToClient 0 7 (idle_process owner_server)) = Inr r'"
      "sock_rx (heap r' 0) = header_bytes (header ?m)" by blast
  have wire: "wired 0 s' 0 r'" using s r by (simp add: wired_def)
  have calls: "calls_of 0 (push_run ?m) = [?m]" by (simp add: calls_of_def push_run_def)
  have "msg_size ?m < 2 ^ 32" by (simp add: msg_size_def sizeof_messageHeader_def messageBody_init_def)
  from lonely_pushed_message_never_arrives [OF idle_process_fresh s(1,2) accepted_process r(1,2) wire calls this] r(2)
  show ?thesis by blast
qed

text \<open>
  C7: After a failed write the connection never sends again: the socket is closed, the message stays in
  the queue, and because the queue is not empty no later call of \<open>Send\<close> starts a write; messages
  only pile up behind it.
\<close>

theorem failed_write_stalls_forever:
  assumes "fresh_process s" and "possible es s" and "run_events es s = Inr u"
    and "i < length (started u)" and "started u ! i = (p, op, live)" and "is_write op"
    and "op_outcome op ec d" and "failed ec" and "exec_event (Complete i ec d) u = Inr v"
    and "possible fs v" and "run_events fs v = Inr t"
  shows "\<not> sock_open (heap v p) \<and> sock_tx (heap t p) = sock_tx (heap v p) \<and>
    ops_of is_write p (started t) = [] \<and> deqQueue (qMessagesOut (heap t p)) \<noteq> [] \<and>
    prefix (deqQueue (qMessagesOut (heap v p))) (deqQueue (qMessagesOut (heap t p)))"
proof -
  have "writer_ok p (frames (sent_in p es s)) u"
    using writer_run [OF fresh_writer [OF assms(1)] assms(2,3)] by simp
  from failed_write_stalls [OF this assms(4-9)] stalled_run [OF _ assms(10,11), of p]
  show ?thesis by (simp add: stalled_def)
qed

lemma stall_run:
  "\<exists>u v t. run_events [Call_Send 0 m, Run_task] (idle_process own) = Inr u \<and>
     possible [Call_Send 0 m, Run_task] (idle_process own) \<and>
     started u = [(0, WriteHeaderOp (header_bytes (header m)), True)] \<and>
     exec_event (Complete 0 (make_basic connection_reset) []) u = Inr v \<and>
     possible [Call_Send 0 m, Run_task] v \<and> run_events [Call_Send 0 m, Run_task] v = Inr t"
  by (simp add: idle_process_def conn_defs connection_new_def post_def
      transfer_outcome_def tsq_front_def tsq_pop_front_def remove_nth_def transmit_def on_conn_def start_op_def
      Let_def tsq_push_back_def tsq_init_def print_def)

theorem failed_write_stalls_forever_witness:
  "\<exists>(v :: process) t. run_events [Call_Send 0 messageBody_init, Run_task] v = Inr t \<and>
     ops_of is_write 0 (started t) = [] \<and> deqQueue (qMessagesOut (heap t 0)) \<noteq> []"
proof -
  from stall_run [of messageBody_init owner_client] obtain u v t where
    u: "run_events [Call_Send 0 messageBody_init, Run_task] (idle_process owner_client) = Inr u"
      "possible [Call_Send 0 messageBody_init, Run_task] (idle_process owner_client)"
      "started u = [(0, WriteHeaderOp (header_bytes (header messageBody_init)), True)]"
      "exec_event (Complete 0 (make_basic connection_reset) []) u = Inr v"
      "possible [Call_Send 0 messageBody_init, Run_task] v"
      "run_events [Call_Send 0 messageBody_init, Run_task] v = Inr t" by blast
  from failed_write_stalls_forever [OF idle_process_fresh u(2,1) _ _ _ _ _ u(4-6),
      of 0 "WriteHeaderOp (header_bytes (header messageBody_init))" True] u(3)
  have "ops_of is_write 0 (started t) = [] \<and> deqQueue (qMessagesOut (heap t 0)) \<noteq> []"
    by (simp add: transfer_outcome_def)
  with u(6) show ?thesis by blast
qed

text \<open>
  A message without body is delivered with the body of the message before it: the receiver keeps
  one message object per connection and only resizes its body when a body follows.
\<close>

theorem empty_message_delivered_with_stale_body:
  assumes "fresh_process s" and "nOwnerType (heap s p) = owner_server" and "sock_open (heap s p)"
    and "deqQueue (qMessagesIn s) = []"
    and "possible es (ConnectToClient p uid s)" and "run_events es (ConnectToClient p uid s) = Inr t"
    and "reading p t" and "sock_rx (heap t p) = frames [m1, m2]"
    and "well_framed m1" and "body m1 \<noteq> []" and "well_framed m2" and "body m2 = []"
  shows "inbox_of p t = [m1, m2\<lparr>body := body m1\<rparr>]"
proof -
  let ?s = "ConnectToClient p uid s"
  have "nOwnerType (heap ?s p) = owner_server" and "inbox_of p ?s = []"
    using assms(2,4) by (simp_all add: ConnectToClient_def ReadHeader_def inbox_of_def)
  then have "inbox_of p t = arrived_in p es ?s" using inbox_run [OF _ assms(5,6)] by simp
  moreover have "reader_ok p (arrived_in p es ?s) t"
    using reader_run [OF accepted_reader(1,3) [OF assms(1-3)] assms(5,6)] by simp
  ultimately have "inbox_of p t = decoded messageBody_init (frames [m1, m2])"
    using reader_ok_exact assms(7,8) by metis
  also have "\<dots> = received_all messageBody_init [m1, m2]"
    by (rule decoded_frames) (use assms(9,11) in simp)
  also have "\<dots> = [m1, m2\<lparr>body := body m1\<rparr>]" using assms(10,12) by (simp add: received_as_def)
  finally show ?thesis .
qed

definition stale_message :: messageBody where
  "stale_message = \<lparr>header = \<lparr>hdr_id = 2, hdr_size = 1\<rparr>, body = [9]\<rparr>"

lemma stale_run:
  "\<exists>t. possible [Complete 0 no_error (header_bytes (header stale_message)), Complete 0 no_error [9],
       Complete 0 no_error (header_bytes (header (msg_of MessageAll)))] (ConnectToClient 0 7 (idle_process owner_server)) \<and>
     run_events [Complete 0 no_error (header_bytes (header stale_message)), Complete 0 no_error [9],
       Complete 0 no_error (header_bytes (header (msg_of MessageAll)))] (ConnectToClient 0 7 (idle_process owner_server)) = Inr t \<and>
     reading 0 t \<and> sock_rx (heap t 0) = frames [stale_message, msg_of MessageAll]"
  by (simp add: idle_process_def conn_defs connection_new_def transfer_outcome_def stale_message_def
      remove_nth_def store_header_def store_body_def on_conn_def start_op_def overwrite_def reading_def Let_def
      messageBody_init_def vec_resize_def frame_def)

theorem empty_message_delivered_with_stale_body_witness:
  "\<exists>t. run_events [Complete 0 no_error (header_bytes (header stale_message)), Complete 0 no_error [9],
       Complete 0 no_error (header_bytes (header (msg_of MessageAll)))] (ConnectToClient 0 7 (idle_process owner_server)) = Inr t \<and>
     inbox_of 0 t = [stale_message, (msg_of MessageAll)\<lparr>body := [9]\<rparr>]"
proof -
  have "well_framed stale_message" "body stale_message \<noteq> []" "well_framed (msg_of MessageAll)"
    "body (msg_of MessageAll) = []" "body stale_message = [9]"
    by (simp_all add: stale_message_def well_framed_def)
  with stale_run empty_message_delivered_with_stale_body [OF accepted_process] show ?thesis by metis
qed

end
