(* ===== verification/Server_Lifetime.thy ===== *)
theory Server_Lifetime
  imports Server_Invariant
begin

text \<open>
  Who keeps a connection of the server alive. The handlers capture a plain \<open>this\<close>, so a connection
  object exists only as long as the container or a message in the incoming queue holds a shared
  pointer to it; an operation in flight or a posted function object does not.
\<close>

definition owned :: "nat \<Rightarrow> server \<Rightarrow> bool" where
  "owned p s \<longleftrightarrow> Some p \<in> set (deqConnections s) \<or>
     (\<exists>om \<in> set (deqQueue (qMessagesIn s)). remote om = Some p)"

definition in_use :: "nat \<Rightarrow> 'a process_scheme \<Rightarrow> bool" where
  "in_use p s \<longleftrightarrow> (\<exists>x \<in> set (started s). fst x = p) \<or> (\<exists>tk \<in> set (tasks s). target tk = p)"

text \<open>A handler is going to run on a destroyed object.\<close>

definition dangling :: "nat \<Rightarrow> server \<Rightarrow> bool" where
  "dangling p s \<longleftrightarrow> in_use p s \<and> \<not> owned p s"

text \<open>
  A client connects, the greeting of the server is being written, the client sends a broadcast
  request and closes its end; the broadcast then removes the only pointer to the connection.
\<close>

definition hit_and_run :: "server_event list" where
  "hit_and_run =
     [Accepted no_error (Some ''127.0.0.1:50000'') '''',
      Io Run_task,
      Io (Complete 0 no_error (frame (msg_of MessageAll))),
      Io (Complete 1 (make_misc eof) [])]"

lemma Update_loop_one:
  assumes "deqQueue (qMessagesIn s) = [om]" and "0 < n"
    and "on_message H (remote om) (own_msg om) (with_inbox [] s) = Inr t" and "deqQueue (qMessagesIn t) = []"
  shows "Update_loop H n 0 s = Inr t"
proof -
  have "tsq_pop_front (qMessagesIn s) = Inr (om, (qMessagesIn s)\<lparr>deqQueue := []\<rparr>)"
    by (rule tsq_pop_front_Cons) (rule assms(1))
  moreover have "Update_loop H n 1 t = Inr t" using assms(4) by (subst Update_loop.simps) simp
  ultimately show ?thesis
    using assms(1-3) by (subst Update_loop.simps) (simp add: with_inbox_def)
qed

lemmas eval_defs =
  started_server_def Start_def ServerInterface_init_def server_defs approve_def prim_defs conn_defs
  connection_new_def store_header_def remove_nth_def frame_def overwrite_def messageBody_init_def
  messageHeader_init_def transfer_outcome_def sizeof_messageHeader_def

lemma hit_and_run_state:
  "\<exists>s m. run_server CustomServer_hooks hit_and_run started_server = Inr s \<and>
    server_possible CustomServer_hooks hit_and_run started_server \<and>
    deqQueue (qMessagesIn s) = [\<lparr>remote = Some 0, own_msg = m\<rparr>] \<and> hdr_id (header m) = msg_code MessageAll \<and>
    deqConnections s = [Some 0] \<and> \<not> sock_open (heap s 0) \<and> map fst (started s) = [0]"
  by (simp add: hit_and_run_def eval_defs tsq_front_Cons Let_def)

lemma run_server_append: "run_server H (es @ fs) s = bind_res (run_server H es s) (run_server H fs)"
  by (induction es arbitrary: s) (auto simp: bind_res_def split: sum.splits)

lemma server_possible_append:
  "run_server H es s = Inr t \<Longrightarrow> server_possible H (es @ fs) s \<longleftrightarrow> server_possible H es s \<and> server_possible H fs t"
  by (induction es arbitrary: s) (auto simp: bind_res_Inr_iff)

text \<open>A broadcast request from the only connection, whose socket is closed by now.\<close>

lemma last_request:
  assumes "deqQueue (qMessagesIn s) = [\<lparr>remote = Some 0, own_msg = m\<rparr>]" and "hdr_id (header m) = msg_code MessageAll"
    and "deqConnections s = [Some 0]" and "\<not> sock_open (heap s 0)"
  shows "\<exists>t. Update CustomServer_hooks (- 1) True s = Some (Inr t) \<and> deqConnections t = [] \<and>
    deqQueue (qMessagesIn t) = [] \<and> started t = started s"
proof -
  let ?p = "print (''['' @ show_nat (unat (GetID 0 s)) @ '']: Message All'') (with_inbox [] s)"
  let ?t = "broadcast_result (hello_message (GetID 0 s)) (Some 0) ?p"
  have p: "deqConnections ?p = [Some 0]" "heap ?p = heap s" "deqQueue (qMessagesIn ?p) = []" "started ?p = started s"
    using assms(3) by (simp_all add: print_def with_inbox_def)
  have leg: "\<not> legitimate (Some 0) ?p" using assms(4) p(2) by (simp add: legitimate_def IsConnected_def)
  have "Custom_OnMessage (Some 0) m (with_inbox [] s) = Inr ?t"
    using assms(2) p(1) Custom_MessageAllClients_eq [of ?p]
    by (simp add: Custom_OnMessage_def GetID_def)
  moreover have "deqConnections ?t = []" "deqQueue (qMessagesIn ?t) = []" "started ?t = started s"
    using p leg by (simp_all add: broadcast_result_def)
  moreover have "(0 :: u64) < - 1" by (simp add: word_gt_0)
  ultimately show ?thesis
    using Update_loop_one [OF assms(1), of "- 1" CustomServer_hooks ?t] assms(1)
    by (simp add: Update_def CustomServer_hooks_def)
qed

lemma hit_and_run_dangling:
  "\<exists>t. run_server CustomServer_hooks (hit_and_run @ [Call_Update (- 1) True]) started_server = Inr t \<and>
    server_possible CustomServer_hooks (hit_and_run @ [Call_Update (- 1) True]) started_server \<and> dangling 0 t"
proof -
  from hit_and_run_state obtain s m where
    s: "run_server CustomServer_hooks hit_and_run started_server = Inr s"
      "server_possible CustomServer_hooks hit_and_run started_server"
    and last: "deqQueue (qMessagesIn s) = [\<lparr>remote = Some 0, own_msg = m\<rparr>]" "hdr_id (header m) = msg_code MessageAll"
      "deqConnections s = [Some 0]" "\<not> sock_open (heap s 0)"
    and op: "map fst (started s) = [0]"
    by (elim exE conjE) (rule that)
  from last_request [OF last] obtain t where
    t: "Update CustomServer_hooks (- 1) True s = Some (Inr t)" "deqConnections t = []"
      "deqQueue (qMessagesIn t) = []" "started t = started s" by blast
  have "dangling 0 t" using t op by (auto simp: dangling_def in_use_def owned_def)
  with s t last(1) show ?thesis
    by (simp add: run_server_append server_possible_append)
qed

section \<open>Properties\<close>

text \<open>
  C34: A connection can be destroyed while an operation on it is in flight: there is a run of the custom
  server, with well-behaved events only, after which the handler of a write is going to run on a
  connection that no shared pointer keeps alive (the handlers capture \<open>this\<close>, not a shared pointer).
\<close>

theorem connection_destroyed_while_in_use:
  "\<exists>es t. server_possible CustomServer_hooks es started_server \<and> list_all harmless es \<and>
     run_server CustomServer_hooks es started_server = Inr t \<and> dangling 0 t"
proof -
  have "list_all harmless (hit_and_run @ [Call_Update (- 1) True])" by (simp add: hit_and_run_def)
  with hit_and_run_dangling show ?thesis by blast
qed

end
