(* ===== verification/Asio_Socket_Ops.thy ===== *)
theory Asio_Socket_Ops
  imports Asio_Transfer "HOL-Library.Monad_Syntax"
begin

unbundle bit_operations_syntax

text \<open>
  The socket functions of \<^verbatim>\<open>asio/detail/impl/socket_ops.ipp\<close>, in their Windows branches. Each is a
  wrapper that calls Winsock, maps its error numbers and keeps the flags of the socket. A call of
  Winsock is logged with its arguments and takes the next reply of the system from a list; a function
  that needs a reply when there is none has not returned yet, which is the result \<open>None\<close>.
\<close>

section \<open>Calls of Winsock\<close>

datatype syscall =
    Sys_socket int int int
  | Sys_accept nat
  | Sys_bind nat bytes
  | Sys_listen nat int
  | Sys_connect nat bytes
  | Sys_closesocket nat
  | Sys_shutdown nat int
  | Sys_ioctlsocket nat int u32
  | Sys_setsockopt nat int int bytes
  | Sys_getsockopt nat int int
  | Sys_getpeername nat
  | Sys_getsockname nat
  | Sys_recv nat int
  | Sys_send nat int
  | Sys_select_read nat "(int \<times> int) option"
  | Sys_select_write nat "(int \<times> int) option"
  | Sys_select_except nat "(int \<times> int) option"
  | Sys_select_connect nat "(int \<times> int) option"
  | Sys_CreateIoCompletionPort nat
  | Sys_CancelIoEx nat
  | Sys_WSAIoctl_ConnectEx "nat option"
  | Sys_GetProcAddress_NtSetInformationFile
  | Sys_NtSetInformationFile nat
  | Sys_overlapped_send nat nat
  | Sys_overlapped_send_to nat nat
  | Sys_overlapped_recv nat nat
  | Sys_overlapped_recv_from nat nat
  | Sys_AcceptEx nat nat nat
  | Sys_ConnectEx "nat option" bytes nat

text \<open>The last group are the calls of the completion port service, overlapped ones with their operation.
  A reply: the value the call returns, \<open>WSAGetLastError()\<close> after it, a number it stores through a
  pointer argument (bytes transferred, value of an option) and a socket address it stores.\<close>

record reply =
  ret :: int
  last_error :: int
  stored :: u32
  stored_addr :: bytes

record winsock =
  replies :: "reply list"
  calls :: "syscall list"

definition sys :: "syscall \<Rightarrow> winsock \<Rightarrow> (reply \<times> winsock) option" where
  "sys c w =
     (case replies w of
        [] \<Rightarrow> None
      | r # rs \<Rightarrow> Some (r, w\<lparr>replies := rs, calls := calls w @ [c]\<rparr>))"

definition get_last_error :: "bool \<Rightarrow> reply \<Rightarrow> error_code \<Rightarrow> error_code" where
  "get_last_error is_error_condition r ec =
     (if \<not> is_error_condition then clear_ec ec else system_ec (last_error r))"

text \<open>A socket is a handle or \<open>invalid_socket\<close>.\<close>

type_synonym sock = "nat option"

definition invalid_socket :: sock where "invalid_socket = None"
definition socket_error_retval :: int where "socket_error_retval = - 1"

text \<open>The flags of a socket (\<^verbatim>\<open>detail/socket_ops.hpp\<close>).\<close>

definition user_set_non_blocking :: u8 where "user_set_non_blocking = 1"
definition internal_non_blocking :: u8 where "internal_non_blocking = 2"
definition non_blocking :: u8 where "non_blocking = user_set_non_blocking OR internal_non_blocking"
definition enable_connection_aborted :: u8 where "enable_connection_aborted = 4"
definition user_set_linger :: u8 where "user_set_linger = 8"

lemmas flag_defs =
  user_set_non_blocking_def internal_non_blocking_def non_blocking_def enable_connection_aborted_def
  user_set_linger_def stream_oriented_def datagram_oriented_def

text \<open>Constants of the system and of \<^verbatim>\<open>detail/socket_types.hpp\<close>.\<close>

definition AF_INET :: int where "AF_INET = 2"
definition AF_INET6 :: int where "AF_INET6 = 23"
definition SOCK_STREAM :: int where "SOCK_STREAM = 1"
definition SOCK_DGRAM :: int where "SOCK_DGRAM = 2"
definition SOCK_SEQPACKET :: int where "SOCK_SEQPACKET = 5"
definition SOL_SOCKET :: int where "SOL_SOCKET = 65535"
definition SO_LINGER :: int where "SO_LINGER = 128"
definition SO_ERROR :: int where "SO_ERROR = 4103"
definition SO_CONNECT_TIME :: int where "SO_CONNECT_TIME = 28684"
definition SO_UPDATE_ACCEPT_CONTEXT :: int where "SO_UPDATE_ACCEPT_CONTEXT = 28683"
definition SO_UPDATE_CONNECT_CONTEXT :: int where "SO_UPDATE_CONNECT_CONTEXT = 28688"
definition IPPROTO_IPV6 :: int where "IPPROTO_IPV6 = 41"
definition IPV6_V6ONLY :: int where "IPV6_V6ONLY = 27"
definition FIONBIO :: int where "FIONBIO = - 2147195266"
definition FIONREAD :: int where "FIONREAD = 1074030207"
definition SIOCATMARK :: int where "SIOCATMARK = 1074033415"
definition WSAENOPROTOOPT :: int where "WSAENOPROTOOPT = 10042"
definition EPROTO :: int where "EPROTO = 134"
definition ERROR_CONNECTION_REFUSED :: int where "ERROR_CONNECTION_REFUSED = 1225"
definition ERROR_NETWORK_UNREACHABLE :: int where "ERROR_NETWORK_UNREACHABLE = 1231"
definition ERROR_HOST_UNREACHABLE :: int where "ERROR_HOST_UNREACHABLE = 1232"
definition ERROR_SEM_TIMEOUT :: int where "ERROR_SEM_TIMEOUT = 121"
definition custom_socket_option_level :: int where "custom_socket_option_level = - 1525678080"
definition enable_connection_aborted_option :: int where "enable_connection_aborted_option = 1"
definition always_fail_option :: int where "always_fail_option = 2"

text \<open>Most functions call the system once and report failure by their return value.\<close>

definition call_nonzero :: "syscall \<Rightarrow> error_code \<Rightarrow> winsock \<Rightarrow> ((int \<times> error_code) \<times> winsock) option" where
  "call_nonzero c ec w =
     do {(r, w1) \<leftarrow> sys c w; Some ((ret r, get_last_error (ret r \<noteq> 0) r ec), w1)}"

definition bad_socket :: "winsock \<Rightarrow> ((int \<times> error_code) \<times> winsock) option" where
  "bad_socket w = Some ((socket_error_retval, make_basic bad_descriptor), w)"

section \<open>Creating, connecting and closing\<close>

text \<open>\<open>::accept\<close> and \<open>WSASocketW\<close> return a handle, or \<open>-1\<close> for \<open>invalid_socket\<close>.\<close>

definition handle_of :: "reply \<Rightarrow> sock" where
  "handle_of r = (if ret r < 0 then invalid_socket else Some (nat (ret r)))"

definition so_socket :: "int \<Rightarrow> int \<Rightarrow> int \<Rightarrow> error_code \<Rightarrow> winsock \<Rightarrow> ((sock \<times> error_code) \<times> winsock) option" where
  "so_socket af type protocol ec w =
     do {(r, w1) \<leftarrow> sys (Sys_socket af type protocol) w;
         let s = handle_of r;
         let ec1 = get_last_error (s = invalid_socket) r ec;
         case s of
           None \<Rightarrow> Some ((invalid_socket, ec1), w1)
         | Some h \<Rightarrow>
             if af = AF_INET6
             then do {(r2, w2) \<leftarrow> sys (Sys_setsockopt h IPPROTO_IPV6 IPV6_V6ONLY [0, 0, 0, 0]) w1;
                      Some ((s, ec1), w2)}
             else Some ((s, ec1), w1)}"

definition so_accept :: "sock \<Rightarrow> error_code \<Rightarrow> winsock \<Rightarrow> ((sock \<times> error_code) \<times> winsock) option" where
  "so_accept s ec w =
     (case s of
        None \<Rightarrow> Some ((invalid_socket, make_basic bad_descriptor), w)
      | Some h \<Rightarrow>
          do {(r, w1) \<leftarrow> sys (Sys_accept h) w;
              let new_s = handle_of r;
              let ec1 = get_last_error (new_s = invalid_socket) r ec;
              if new_s = invalid_socket then Some ((new_s, ec1), w1)
              else Some ((new_s, clear_ec ec1), w1)})"

definition so_bind :: "sock \<Rightarrow> bytes \<Rightarrow> error_code \<Rightarrow> winsock \<Rightarrow> ((int \<times> error_code) \<times> winsock) option" where
  "so_bind s addr ec w =
     (case s of None \<Rightarrow> bad_socket w | Some h \<Rightarrow> call_nonzero (Sys_bind h addr) ec w)"

definition so_shutdown :: "sock \<Rightarrow> int \<Rightarrow> error_code \<Rightarrow> winsock \<Rightarrow> ((int \<times> error_code) \<times> winsock) option" where
  "so_shutdown s what ec w =
     (case s of None \<Rightarrow> bad_socket w | Some h \<Rightarrow> call_nonzero (Sys_shutdown h what) ec w)"

definition so_connect :: "sock \<Rightarrow> bytes \<Rightarrow> error_code \<Rightarrow> winsock \<Rightarrow> ((int \<times> error_code) \<times> winsock) option" where
  "so_connect s addr ec w =
     (case s of None \<Rightarrow> bad_socket w | Some h \<Rightarrow> call_nonzero (Sys_connect h addr) ec w)"

definition so_listen :: "sock \<Rightarrow> int \<Rightarrow> error_code \<Rightarrow> winsock \<Rightarrow> ((int \<times> error_code) \<times> winsock) option" where
  "so_listen s backlog ec w =
     (case s of None \<Rightarrow> bad_socket w | Some h \<Rightarrow> call_nonzero (Sys_listen h backlog) ec w)"


section \<open>Options and modes\<close>

definition so_setsockopt :: "sock \<Rightarrow> u8 \<Rightarrow> int \<Rightarrow> int \<Rightarrow> bytes \<Rightarrow> error_code \<Rightarrow> winsock \<Rightarrow> ((int \<times> u8 \<times> error_code) \<times> winsock) option" where
  "so_setsockopt s state level optname optval ec w =
     (case s of
        None \<Rightarrow> Some ((socket_error_retval, state, make_basic bad_descriptor), w)
      | Some h \<Rightarrow>
          if level = custom_socket_option_level \<and> optname = always_fail_option
          then Some ((socket_error_retval, state, make_basic invalid_argument), w)
          else if level = custom_socket_option_level \<and> optname = enable_connection_aborted_option then
            (if length optval \<noteq> 4
             then Some ((socket_error_retval, state, make_basic invalid_argument), w)
             else Some ((0, if dec_u32 optval \<noteq> 0 then state OR enable_connection_aborted
                            else state AND NOT enable_connection_aborted, clear_ec ec), w))
          else
            let state1 = (if level = SOL_SOCKET \<and> optname = SO_LINGER then state OR user_set_linger else state)
            in do {(r, w1) \<leftarrow> sys (Sys_setsockopt h level optname optval) w;
                   Some ((ret r, state1, get_last_error (ret r \<noteq> 0) r ec), w1)})"

text \<open>
  For options of 32 bits: \<open>optval\<close> is the variable's value before and after, \<open>optlen\<close> the length the
  caller gives; the system does not change the length of such an option.
\<close>

definition so_getsockopt :: "sock \<Rightarrow> u8 \<Rightarrow> int \<Rightarrow> int \<Rightarrow> u32 \<Rightarrow> nat \<Rightarrow> error_code \<Rightarrow> winsock \<Rightarrow> ((int \<times> u32 \<times> error_code) \<times> winsock) option" where
  "so_getsockopt s state level optname optval optlen ec w =
     (case s of
        None \<Rightarrow> Some ((socket_error_retval, optval, make_basic bad_descriptor), w)
      | Some h \<Rightarrow>
          if level = custom_socket_option_level \<and> optname = always_fail_option
          then Some ((socket_error_retval, optval, make_basic invalid_argument), w)
          else if level = custom_socket_option_level \<and> optname = enable_connection_aborted_option then
            (if optlen \<noteq> 4
             then Some ((socket_error_retval, optval, make_basic invalid_argument), w)
             else Some ((0, if state AND enable_connection_aborted \<noteq> 0 then 1 else 0, clear_ec ec), w))
          else
            do {(r, w1) \<leftarrow> sys (Sys_getsockopt h level optname) w;
                let ec1 = get_last_error (ret r \<noteq> 0) r ec;
                let v1 = (if ret r = 0 then stored r else optval);
                if ret r \<noteq> 0 \<and> level = IPPROTO_IPV6 \<and> optname = IPV6_V6ONLY
                   \<and> ec_value ec1 = WSAENOPROTOOPT \<and> optlen = 4
                then Some ((ret r, 1, clear_ec ec1), w1)
                else Some ((ret r, v1, ec1), w1)})"

text \<open>Both mode functions return whether they succeeded.\<close>

definition so_set_user_non_blocking :: "sock \<Rightarrow> u8 \<Rightarrow> bool \<Rightarrow> error_code \<Rightarrow> winsock \<Rightarrow> ((bool \<times> u8 \<times> error_code) \<times> winsock) option" where
  "so_set_user_non_blocking s state value ec w =
     (case s of
        None \<Rightarrow> Some ((False, state, make_basic bad_descriptor), w)
      | Some h \<Rightarrow>
          do {(r, w1) \<leftarrow> sys (Sys_ioctlsocket h FIONBIO (if value then 1 else 0)) w;
              let ec1 = get_last_error (ret r < 0) r ec;
              if ret r \<ge> 0
              then Some ((True, if value then state OR user_set_non_blocking
                                else state AND NOT (user_set_non_blocking OR internal_non_blocking), ec1), w1)
              else Some ((False, state, ec1), w1)})"

definition so_set_internal_non_blocking :: "sock \<Rightarrow> u8 \<Rightarrow> bool \<Rightarrow> error_code \<Rightarrow> winsock \<Rightarrow> ((bool \<times> u8 \<times> error_code) \<times> winsock) option" where
  "so_set_internal_non_blocking s state value ec w =
     (case s of
        None \<Rightarrow> Some ((False, state, make_basic bad_descriptor), w)
      | Some h \<Rightarrow>
          if \<not> value \<and> state AND user_set_non_blocking \<noteq> 0
          then Some ((False, state, make_basic invalid_argument), w)
          else
            do {(r, w1) \<leftarrow> sys (Sys_ioctlsocket h FIONBIO (if value then 1 else 0)) w;
                let ec1 = get_last_error (ret r < 0) r ec;
                if ret r \<ge> 0
                then Some ((True, if value then state OR internal_non_blocking
                                  else state AND NOT internal_non_blocking, ec1), w1)
                else Some ((False, state, ec1), w1)})"

definition so_ioctl :: "sock \<Rightarrow> u8 \<Rightarrow> int \<Rightarrow> u32 \<Rightarrow> error_code \<Rightarrow> winsock \<Rightarrow> ((int \<times> u8 \<times> error_code) \<times> winsock) option" where
  "so_ioctl s state cmd arg ec w =
     (case s of
        None \<Rightarrow> Some ((socket_error_retval, state, make_basic bad_descriptor), w)
      | Some h \<Rightarrow>
          do {(r, w1) \<leftarrow> sys (Sys_ioctlsocket h cmd arg) w;
              let ec1 = get_last_error (ret r < 0) r ec;
              let state1 = (if ret r \<ge> 0 \<and> cmd = FIONBIO
                            then (if arg \<noteq> 0 then state OR user_set_non_blocking
                                  else state AND NOT (user_set_non_blocking OR internal_non_blocking))
                            else state);
              Some ((ret r, state1, ec1), w1)})"

definition ENOTTY :: int where "ENOTTY = 25"

definition not_a_tty :: "error_code \<Rightarrow> error_code" where
  "not_a_tty ec = (if ec_value ec = ENOTTY then make_basic not_socket else ec)"

definition so_sockatmark :: "sock \<Rightarrow> error_code \<Rightarrow> winsock \<Rightarrow> ((bool \<times> error_code) \<times> winsock) option" where
  "so_sockatmark s ec w =
     (case s of
        None \<Rightarrow> Some ((False, make_basic bad_descriptor), w)
      | Some h \<Rightarrow>
          do {(r, w1) \<leftarrow> sys (Sys_ioctlsocket h SIOCATMARK 0) w;
              let ec1 = not_a_tty (get_last_error (ret r < 0) r ec);
              Some ((if failed ec1 then False else stored r \<noteq> 0, ec1), w1)})"

definition so_available :: "sock \<Rightarrow> error_code \<Rightarrow> winsock \<Rightarrow> ((nat \<times> error_code) \<times> winsock) option" where
  "so_available s ec w =
     (case s of
        None \<Rightarrow> Some ((0, make_basic bad_descriptor), w)
      | Some h \<Rightarrow>
          do {(r, w1) \<leftarrow> sys (Sys_ioctlsocket h FIONREAD 0) w;
              let ec1 = not_a_tty (get_last_error (ret r < 0) r ec);
              Some ((if failed ec1 then 0 else unat (stored r), ec1), w1)})"

text \<open>
  Closing: \<open>destruction\<close> sets the socket to linger in the background; a close that would block is
  tried again after the descriptor was put back into blocking mode.
\<close>

definition close_would_block :: "reply \<Rightarrow> error_code \<Rightarrow> bool" where
  "close_would_block r ec \<longleftrightarrow> ret r \<noteq> 0 \<and> (ec = make_basic would_block \<or> ec = make_basic try_again)"

definition so_close :: "sock \<Rightarrow> u8 \<Rightarrow> bool \<Rightarrow> error_code \<Rightarrow> winsock \<Rightarrow> ((int \<times> u8 \<times> error_code) \<times> winsock) option" where
  "so_close s state destruction ec w =
     (case s of
        None \<Rightarrow> Some ((0, state, ec), w)
      | Some h \<Rightarrow>
          do {((_, state1, _), w1) \<leftarrow>
                (if destruction \<and> state AND user_set_linger \<noteq> 0
                 then so_setsockopt s state SOL_SOCKET SO_LINGER [0, 0, 0, 0] no_error w
                 else Some ((0, state, no_error), w));
              (r, w2) \<leftarrow> sys (Sys_closesocket h) w1;
              let ec1 = get_last_error (ret r \<noteq> 0) r ec;
              if close_would_block r ec1
              then do {(_, w3) \<leftarrow> sys (Sys_ioctlsocket h FIONBIO 0) w2;
                       (r2, w4) \<leftarrow> sys (Sys_closesocket h) w3;
                       Some ((ret r2, state1 AND NOT non_blocking, get_last_error (ret r2 \<noteq> 0) r2 ec1), w4)}
              else Some ((ret r, state1, ec1), w2)})"


section \<open>Waiting for a socket\<close>

text \<open>The time-out passed to \<open>select\<close> in seconds and microseconds; none waits for ever.\<close>

definition poll_timeout :: "u8 \<Rightarrow> int \<Rightarrow> (int \<times> int) option" where
  "poll_timeout state msec =
     (if state AND user_set_non_blocking \<noteq> 0 then Some (0, 0)
      else if msec \<ge> 0 then Some (msec div 1000, (msec mod 1000) * 1000)
      else None)"

definition so_poll :: "(nat \<Rightarrow> (int \<times> int) option \<Rightarrow> syscall) \<Rightarrow> sock \<Rightarrow> u8 \<Rightarrow> int \<Rightarrow> error_code \<Rightarrow> winsock \<Rightarrow> ((int \<times> error_code) \<times> winsock) option" where
  "so_poll select s state msec ec w =
     (case s of
        None \<Rightarrow> bad_socket w
      | Some h \<Rightarrow>
          do {(r, w1) \<leftarrow> sys (select h (poll_timeout state msec)) w;
              let ec1 = get_last_error (ret r < 0) r ec;
              Some ((ret r, if ret r = 0 \<and> state AND user_set_non_blocking \<noteq> 0
                            then make_basic would_block else ec1), w1)})"

definition so_poll_read :: "sock \<Rightarrow> u8 \<Rightarrow> int \<Rightarrow> error_code \<Rightarrow> winsock \<Rightarrow> ((int \<times> error_code) \<times> winsock) option" where
  "so_poll_read = so_poll Sys_select_read"

definition so_poll_write :: "sock \<Rightarrow> u8 \<Rightarrow> int \<Rightarrow> error_code \<Rightarrow> winsock \<Rightarrow> ((int \<times> error_code) \<times> winsock) option" where
  "so_poll_write = so_poll Sys_select_write"

definition so_poll_error :: "sock \<Rightarrow> u8 \<Rightarrow> int \<Rightarrow> error_code \<Rightarrow> winsock \<Rightarrow> ((int \<times> error_code) \<times> winsock) option" where
  "so_poll_error = so_poll Sys_select_except"

text \<open>\<open>poll_connect\<close> has no state argument.\<close>

definition so_poll_connect :: "sock \<Rightarrow> int \<Rightarrow> error_code \<Rightarrow> winsock \<Rightarrow> ((int \<times> error_code) \<times> winsock) option" where
  "so_poll_connect s msec ec w =
     (case s of
        None \<Rightarrow> bad_socket w
      | Some h \<Rightarrow>
          do {(r, w1) \<leftarrow> sys (Sys_select_connect h (poll_timeout 0 msec)) w;
              Some ((ret r, get_last_error (ret r < 0) r ec), w1)})"

section \<open>Blocking transfers\<close>

definition must_wait :: "error_code \<Rightarrow> bool" where
  "must_wait ec \<longleftrightarrow> ec = make_basic would_block \<or> ec = make_basic try_again"

text \<open>\<open>recv\<close>: the number of bytes, or \<open>socket_error_retval\<close>.\<close>

definition so_recv :: "nat \<Rightarrow> int \<Rightarrow> error_code \<Rightarrow> winsock \<Rightarrow> ((int \<times> error_code) \<times> winsock) option" where
  "so_recv h flags ec w =
     do {(r, w1) \<leftarrow> sys (Sys_recv h flags) w;
         let ec1 = get_last_error True r ec;
         let ec2 = (if ec_value ec1 = ERROR_NETNAME_DELETED then make_basic connection_reset
                    else if ec_value ec1 = ERROR_PORT_UNREACHABLE then make_basic connection_refused
                    else ec1);
         let result = (if ec_value ec1 = ERROR_NETNAME_DELETED \<or> ec_value ec1 = ERROR_PORT_UNREACHABLE then ret r
                       else if ec_value ec1 = WSAEMSGSIZE \<or> ec_value ec1 = ERROR_MORE_DATA then 0
                       else ret r);
         if result \<noteq> 0 then Some ((socket_error_retval, ec2), w1)
         else Some ((uint (stored r), clear_ec ec2), w1)}"

definition so_send :: "nat \<Rightarrow> int \<Rightarrow> error_code \<Rightarrow> winsock \<Rightarrow> ((int \<times> error_code) \<times> winsock) option" where
  "so_send h flags ec w =
     do {(r, w1) \<leftarrow> sys (Sys_send h flags) w;
         let ec1 = get_last_error True r ec;
         let ec2 = (if ec_value ec1 = ERROR_NETNAME_DELETED then make_basic connection_reset
                    else if ec_value ec1 = ERROR_PORT_UNREACHABLE then make_basic connection_refused
                    else ec1);
         if ret r \<noteq> 0 then Some ((socket_error_retval, ec2), w1)
         else Some ((uint (stored r), clear_ec ec2), w1)}"

partial_function (option) so_recv_loop :: "nat \<Rightarrow> u8 \<Rightarrow> int \<Rightarrow> error_code \<Rightarrow> winsock \<Rightarrow> ((nat \<times> error_code) \<times> winsock) option" where
  "so_recv_loop h state flags ec w =
     do {((bytes, ec1), w1) \<leftarrow> so_recv h flags ec w;
         if state AND stream_oriented \<noteq> 0 \<and> bytes = 0 then Some ((0, make_misc eof), w1)
         else if bytes \<ge> 0 then Some ((nat bytes, ec1), w1)
         else if state AND user_set_non_blocking \<noteq> 0 \<or> \<not> must_wait ec1 then Some ((0, ec1), w1)
         else do {((ready, ec2), w2) \<leftarrow> so_poll_read (Some h) 0 (- 1) ec1 w1;
                  if ready < 0 then Some ((0, ec2), w2) else so_recv_loop h state flags ec2 w2}}"

definition so_sync_recv :: "sock \<Rightarrow> u8 \<Rightarrow> int \<Rightarrow> bool \<Rightarrow> error_code \<Rightarrow> winsock \<Rightarrow> ((nat \<times> error_code) \<times> winsock) option" where
  "so_sync_recv s state flags all_empty ec w =
     (case s of
        None \<Rightarrow> Some ((0, make_basic bad_descriptor), w)
      | Some h \<Rightarrow>
          if all_empty \<and> state AND stream_oriented \<noteq> 0 then Some ((0, clear_ec ec), w)
          else so_recv_loop h state flags ec w)"

partial_function (option) so_send_loop :: "nat \<Rightarrow> u8 \<Rightarrow> int \<Rightarrow> error_code \<Rightarrow> winsock \<Rightarrow> ((nat \<times> error_code) \<times> winsock) option" where
  "so_send_loop h state flags ec w =
     do {((bytes, ec1), w1) \<leftarrow> so_send h flags ec w;
         if bytes \<ge> 0 then Some ((nat bytes, ec1), w1)
         else if state AND user_set_non_blocking \<noteq> 0 \<or> \<not> must_wait ec1 then Some ((0, ec1), w1)
         else do {((ready, ec2), w2) \<leftarrow> so_poll_write (Some h) 0 (- 1) ec1 w1;
                  if ready < 0 then Some ((0, ec2), w2) else so_send_loop h state flags ec2 w2}}"

definition so_sync_send :: "sock \<Rightarrow> u8 \<Rightarrow> int \<Rightarrow> bool \<Rightarrow> error_code \<Rightarrow> winsock \<Rightarrow> ((nat \<times> error_code) \<times> winsock) option" where
  "so_sync_send s state flags all_empty ec w =
     (case s of
        None \<Rightarrow> Some ((0, make_basic bad_descriptor), w)
      | Some h \<Rightarrow>
          if all_empty \<and> state AND stream_oriented \<noteq> 0 then Some ((0, clear_ec ec), w)
          else so_send_loop h state flags ec w)"

text \<open>The variants for one buffer of \<open>n\<close> bytes hand that buffer to the same system calls.\<close>

definition so_recv1 :: "nat \<Rightarrow> nat \<Rightarrow> int \<Rightarrow> error_code \<Rightarrow> winsock \<Rightarrow> ((int \<times> error_code) \<times> winsock) option" where
  "so_recv1 h n flags ec w =
     do {(r, w1) \<leftarrow> sys (Sys_recv h flags) w;
         let ec1 = get_last_error True r ec;
         let ec2 = (if ec_value ec1 = ERROR_NETNAME_DELETED then make_basic connection_reset
                    else if ec_value ec1 = ERROR_PORT_UNREACHABLE then make_basic connection_refused
                    else ec1);
         let result = (if ec_value ec1 = ERROR_NETNAME_DELETED \<or> ec_value ec1 = ERROR_PORT_UNREACHABLE then ret r
                       else if ec_value ec1 = WSAEMSGSIZE \<or> ec_value ec1 = ERROR_MORE_DATA then 0
                       else ret r);
         if result \<noteq> 0 then Some ((socket_error_retval, ec2), w1)
         else Some ((uint (stored r), clear_ec ec2), w1)}"

partial_function (option) so_recv1_loop :: "nat \<Rightarrow> u8 \<Rightarrow> nat \<Rightarrow> int \<Rightarrow> error_code \<Rightarrow> winsock \<Rightarrow> ((nat \<times> error_code) \<times> winsock) option" where
  "so_recv1_loop h state n flags ec w =
     do {((bytes, ec1), w1) \<leftarrow> so_recv1 h n flags ec w;
         if state AND stream_oriented \<noteq> 0 \<and> bytes = 0 then Some ((0, make_misc eof), w1)
         else if bytes \<ge> 0 then Some ((nat bytes, ec1), w1)
         else if state AND user_set_non_blocking \<noteq> 0 \<or> \<not> must_wait ec1 then Some ((0, ec1), w1)
         else do {((ready, ec2), w2) \<leftarrow> so_poll_read (Some h) 0 (- 1) ec1 w1;
                  if ready < 0 then Some ((0, ec2), w2) else so_recv1_loop h state n flags ec2 w2}}"

definition so_sync_recv1 :: "sock \<Rightarrow> u8 \<Rightarrow> nat \<Rightarrow> int \<Rightarrow> error_code \<Rightarrow> winsock \<Rightarrow> ((nat \<times> error_code) \<times> winsock) option" where
  "so_sync_recv1 s state n flags ec w =
     (case s of
        None \<Rightarrow> Some ((0, make_basic bad_descriptor), w)
      | Some h \<Rightarrow>
          if n = 0 \<and> state AND stream_oriented \<noteq> 0 then Some ((0, clear_ec ec), w)
          else so_recv1_loop h state n flags ec w)"

section \<open>Blocking accept and connect\<close>

partial_function (option) so_sync_accept :: "sock \<Rightarrow> u8 \<Rightarrow> error_code \<Rightarrow> winsock \<Rightarrow> ((sock \<times> error_code) \<times> winsock) option" where
  "so_sync_accept s state ec w =
     do {((new_socket, ec1), w1) \<leftarrow> so_accept s ec w;
         if new_socket \<noteq> invalid_socket then Some ((new_socket, ec1), w1)
         else if must_wait ec1 \<and> state AND user_set_non_blocking \<noteq> 0 then Some ((invalid_socket, ec1), w1)
         else if \<not> must_wait ec1 \<and> (ec1 = make_basic connection_aborted \<or> ec_value ec1 = EPROTO)
                 \<and> state AND enable_connection_aborted \<noteq> 0 then Some ((invalid_socket, ec1), w1)
         else if \<not> must_wait ec1 \<and> ec1 \<noteq> make_basic connection_aborted \<and> ec_value ec1 \<noteq> EPROTO
           then Some ((invalid_socket, ec1), w1)
         else do {((ready, ec2), w2) \<leftarrow> so_poll_read s 0 (- 1) ec1 w1;
                  if ready < 0 then Some ((invalid_socket, ec2), w2)
                  else so_sync_accept s state ec2 w2}}"

definition so_sync_connect :: "sock \<Rightarrow> bytes \<Rightarrow> error_code \<Rightarrow> winsock \<Rightarrow> (error_code \<times> winsock) option" where
  "so_sync_connect s addr ec w =
     do {((_, ec1), w1) \<leftarrow> so_connect s addr ec w;
         if ec1 \<noteq> make_basic in_progress \<and> ec1 \<noteq> make_basic would_block then Some (ec1, w1)
         else do {((ready, ec2), w2) \<leftarrow> so_poll_connect s (- 1) ec1 w1;
                  if ready < 0 then Some (ec2, w2)
                  else do {((result, connect_error, ec3), w3) \<leftarrow> so_getsockopt s 0 SOL_SOCKET SO_ERROR 0 4 ec2 w2;
                           if result = socket_error_retval then Some (ec3, w3)
                           else Some (system_ec (sint connect_error), w3)}}}"

text \<open>The check whether a connect operation has finished: false while it is still in progress.\<close>

definition so_non_blocking_connect :: "nat \<Rightarrow> error_code \<Rightarrow> winsock \<Rightarrow> ((bool \<times> error_code) \<times> winsock) option" where
  "so_non_blocking_connect h ec w =
     do {(r, w1) \<leftarrow> sys (Sys_select_connect h (Some (0, 0))) w;
         if ret r = 0 then Some ((False, ec), w1)
         else do {((result, connect_error, ec1), w2) \<leftarrow> so_getsockopt (Some h) 0 SOL_SOCKET SO_ERROR 0 4 ec w1;
                  if result = 0
                  then Some ((True, if connect_error \<noteq> 0 then system_ec (sint connect_error) else clear_ec ec1), w2)
                  else Some ((True, ec1), w2)}}"

section \<open>Names of the two ends\<close>

text \<open>
  \<open>cached\<close>: the caller already has the peer's address and only asks whether the socket is still
  connected. The result is the return value, the address as it is afterwards, and the error code.
\<close>

definition so_getpeername :: "sock \<Rightarrow> bytes \<Rightarrow> bool \<Rightarrow> error_code \<Rightarrow> winsock \<Rightarrow> ((int \<times> bytes \<times> error_code) \<times> winsock) option" where
  "so_getpeername s addr cached ec w =
     (case s of
        None \<Rightarrow> Some ((socket_error_retval, addr, make_basic bad_descriptor), w)
      | Some h \<Rightarrow>
          if cached then
            do {((result, connect_time, ec1), w1) \<leftarrow> so_getsockopt s 0 SOL_SOCKET SO_CONNECT_TIME 0 4 ec w;
                if result = socket_error_retval then Some ((socket_error_retval, addr, ec1), w1)
                else if connect_time = 0xFFFFFFFF
                then Some ((socket_error_retval, addr, make_basic not_connected), w1)
                else Some ((0, addr, clear_ec ec1), w1)}
          else
            do {(r, w1) \<leftarrow> sys (Sys_getpeername h) w;
                Some ((ret r, if ret r = 0 then stored_addr r else addr, get_last_error (ret r \<noteq> 0) r ec), w1)})"

definition so_getsockname :: "sock \<Rightarrow> bytes \<Rightarrow> error_code \<Rightarrow> winsock \<Rightarrow> ((int \<times> bytes \<times> error_code) \<times> winsock) option" where
  "so_getsockname s addr ec w =
     (case s of
        None \<Rightarrow> Some ((socket_error_retval, addr, make_basic bad_descriptor), w)
      | Some h \<Rightarrow>
          do {(r, w1) \<leftarrow> sys (Sys_getsockname h) w;
              Some ((ret r, if ret r = 0 then stored_addr r else addr, get_last_error (ret r \<noteq> 0) r ec), w1)})"

section \<open>Completion of the other overlapped operations\<close>

text \<open>
  After \<open>AcceptEx\<close>: \<open>remote\<close> is the peer's address that \<open>GetAcceptExSockaddrs\<close> finds in the output
  buffer, \<open>addr\<close> the caller's buffer for it with its capacity, if it has one. Whatever that gave,
  the last step sets the error code again.
\<close>

definition complete_iocp_accept :: "nat \<Rightarrow> bytes \<Rightarrow> (bytes \<times> nat) option \<Rightarrow> sock \<Rightarrow> error_code \<Rightarrow> winsock \<Rightarrow> (((bytes \<times> nat) option \<times> error_code) \<times> winsock) option" where
  "complete_iocp_accept s remote addr new_socket ec w =
     (let ec0 = (if ec_value ec = ERROR_NETNAME_DELETED then make_basic connection_aborted else ec)
      in if failed ec0 then Some ((addr, ec0), w)
         else
           let (addr1, ec1) = (case addr of
                  Some (a, capacity) \<Rightarrow> if capacity < length remote then (addr, make_basic invalid_argument)
                                        else (Some (remote, length remote), ec0)
                | None \<Rightarrow> (None, ec0))
           in do {((_, _, ec2), w1) \<leftarrow> so_setsockopt new_socket 0 SOL_SOCKET SO_UPDATE_ACCEPT_CONTEXT (enc_u64 (word_of_nat s)) ec1 w;
                  Some ((addr1, ec2), w1)})"

definition complete_iocp_connect :: "sock \<Rightarrow> error_code \<Rightarrow> winsock \<Rightarrow> (error_code \<times> winsock) option" where
  "complete_iocp_connect s ec w =
     (let ec1 = (if ec_value ec = ERROR_CONNECTION_REFUSED then make_basic connection_refused
                 else if ec_value ec = ERROR_NETWORK_UNREACHABLE then make_basic network_unreachable
                 else if ec_value ec = ERROR_HOST_UNREACHABLE then make_basic host_unreachable
                 else if ec_value ec = ERROR_SEM_TIMEOUT then make_basic timed_out
                 else ec)
      in if failed ec1 then Some (ec1, w)
         else do {((_, _, ec2), w1) \<leftarrow> so_setsockopt s 0 SOL_SOCKET SO_UPDATE_CONNECT_CONTEXT [] ec1 w;
                  Some (ec2, w1)})"

definition complete_iocp_recvfrom :: "bool \<Rightarrow> error_code \<Rightarrow> error_code" where
  "complete_iocp_recvfrom cancel_token_expired ec =
     (if ec_value ec = ERROR_NETNAME_DELETED then
        (if cancel_token_expired then make_basic operation_aborted else make_basic connection_reset)
      else if ec_value ec = ERROR_PORT_UNREACHABLE then make_basic connection_refused
      else if ec_value ec = WSAEMSGSIZE \<or> ec_value ec = ERROR_MORE_DATA then clear_ec ec
      else ec)"

definition complete_iocp_recvmsg :: "bool \<Rightarrow> error_code \<Rightarrow> error_code" where
  "complete_iocp_recvmsg cancel_token_expired ec =
     (if ec_value ec = ERROR_NETNAME_DELETED then
        (if cancel_token_expired then make_basic operation_aborted else make_basic connection_reset)
      else if ec_value ec = ERROR_PORT_UNREACHABLE then make_basic connection_refused
      else if ec_value ec = WSAEMSGSIZE \<or> ec_value ec = ERROR_MORE_DATA then clear_ec ec
      else ec)"

end
