(* ===== verification/Asio_Socket_Ops_Facts.thy ===== *)
theory Asio_Socket_Ops_Facts
  imports Asio_Socket_Ops
begin

unbundle bit_operations_syntax

text \<open>
  Facts about the socket functions: what a blocking receive returns and when, the flags of a socket
  under every sequence of calls that change them, and the option asio itself stores in the flags.
\<close>

section \<open>Calls of the system\<close>

lemma sys_Cons [simp]: "replies w = r # rs \<Longrightarrow> sys c w = Some (r, w\<lparr>replies := rs, calls := calls w @ [c]\<rparr>)"
  by (simp add: sys_def)

lemma sys_Nil [simp]: "replies w = [] \<Longrightarrow> sys c w = None"
  by (simp add: sys_def)

lemma sys_SomeD: "sys c w = Some (r, w') \<Longrightarrow> replies w = r # replies w'"
  by (simp add: sys_def split: list.splits) (metis winsock.select_convs(1) winsock.surjective winsock.update_convs(1,2))

lemma must_wait_system:
  "must_wait (system_ec e) \<longleftrightarrow> e = 10035 \<or> e = 1237"
  by (simp add: must_wait_def system_ec_def make_basic_def)

section \<open>A blocking receive\<close>

text \<open>A reply to a receive on a socket without data, and the replies of some fruitless attempts, each
  followed by the return of \<open>select\<close>.\<close>

definition no_data_yet :: "reply \<Rightarrow> bool" where
  "no_data_yet r \<longleftrightarrow> ret r \<noteq> 0 \<and> (last_error r = 10035 \<or> last_error r = 1237)"

fun fruitless :: "(reply \<times> reply) list \<Rightarrow> bool" where
  "fruitless [] \<longleftrightarrow> True"
| "fruitless ((a, b) # rounds) \<longleftrightarrow> no_data_yet a \<and> 0 \<le> ret b \<and> fruitless rounds"

definition replies_of :: "(reply \<times> reply) list \<Rightarrow> reply list" where
  "replies_of rounds = concat (map (\<lambda>(a, b). [a, b]) rounds)"

lemma replies_of_simps [simp]:
  "replies_of [] = []" "replies_of ((a, b) # rounds) = a # b # replies_of rounds"
  by (simp_all add: replies_of_def)

lemmas recv_consts =
  ERROR_NETNAME_DELETED_def ERROR_PORT_UNREACHABLE_def WSAEMSGSIZE_def ERROR_MORE_DATA_def socket_error_retval_def

lemma so_recv_no_data:
  assumes "replies w = a # rs" and "no_data_yet a"
  shows "so_recv h flags ec w =
    Some ((- 1, system_ec (last_error a)), w\<lparr>replies := rs, calls := calls w @ [Sys_recv h flags]\<rparr>)"
  using assms by (auto simp: so_recv_def get_last_error_def no_data_yet_def recv_consts system_ec_def)

lemma so_recv_success:
  assumes "replies w = r # rs" and "ret r = 0"
  shows "\<exists>ec'. \<not> failed ec' \<and> so_recv h flags ec w =
    Some ((uint (stored r), ec'), w\<lparr>replies := rs, calls := calls w @ [Sys_recv h flags]\<rparr>)"
  using assms by (simp add: so_recv_def get_last_error_def Let_def)

lemma so_poll_read_ready:
  assumes "replies w = b # rs" and "0 \<le> ret b"
  shows "\<exists>ec'. so_poll_read (Some h) 0 (- 1) ec w =
    Some ((ret b, ec'), w\<lparr>replies := rs, calls := calls w @ [Sys_select_read h None]\<rparr>)"
  using assms by (simp add: so_poll_read_def so_poll_def poll_timeout_def)

lemma so_recv_loop_waits:
  assumes "fruitless rounds" and "replies w = replies_of rounds @ r # rest" and "ret r = 0"
    and "state AND user_set_non_blocking = 0" and "state AND stream_oriented \<noteq> 0"
  shows "\<exists>ec'. (failed ec' \<longleftrightarrow> stored r = 0) \<and> so_recv_loop h state flags ec w =
    Some ((unat (stored r), ec'), w\<lparr>replies := rest, calls := calls w @
      concat (replicate (length rounds) [Sys_recv h flags, Sys_select_read h None]) @ [Sys_recv h flags]\<rparr>)"
  using assms(1,2)
proof (induction rounds arbitrary: w ec)
  case Nil
  then obtain ec' where "\<not> failed ec'" and
    recv: "so_recv h flags ec w = Some ((uint (stored r), ec'), w\<lparr>replies := rest, calls := calls w @ [Sys_recv h flags]\<rparr>)"
    using so_recv_success [of w r rest h flags ec] assms(3) by auto
  then show ?case
    by (subst so_recv_loop.simps) (simp add: assms(5) uint_0_iff)
next
  case (Cons ab rounds)
  obtain a b where ab: "ab = (a, b)" by (cases ab)
  from Cons.prems have a: "no_data_yet a" "0 \<le> ret b" "fruitless rounds"
    and w: "replies w = a # b # replies_of rounds @ r # rest" by (simp_all add: ab)
  define w1 where "w1 = w\<lparr>replies := b # replies_of rounds @ r # rest, calls := calls w @ [Sys_recv h flags]\<rparr>"
  have recv: "so_recv h flags ec w = Some ((- 1, system_ec (last_error a)), w1)"
    using so_recv_no_data [OF w a(1)] by (simp add: w1_def)
  obtain ec2 where poll: "so_poll_read (Some h) 0 (- 1) (system_ec (last_error a)) w1 =
      Some ((ret b, ec2), w1\<lparr>replies := replies_of rounds @ r # rest, calls := calls w1 @ [Sys_select_read h None]\<rparr>)"
    using so_poll_read_ready [of w1 b _ h] a(2) by (fastforce simp: w1_def)
  have wait: "must_wait (system_ec (last_error a))" using a(1) by (simp add: must_wait_system no_data_yet_def)
  define w2 where "w2 = w1\<lparr>replies := replies_of rounds @ r # rest, calls := calls w1 @ [Sys_select_read h None]\<rparr>"
  have w2: "replies w2 = replies_of rounds @ r # rest" by (simp add: w2_def)
  from Cons.IH [OF a(3) w2, of ec2] obtain ec' where ec': "failed ec' \<longleftrightarrow> stored r = 0"
    and rest: "so_recv_loop h state flags ec2 w2 = Some ((unat (stored r), ec'), w2\<lparr>replies := rest, calls := calls w2 @
      concat (replicate (length rounds) [Sys_recv h flags, Sys_select_read h None]) @ [Sys_recv h flags]\<rparr>)" by blast
  have "so_recv_loop h state flags ec w = so_recv_loop h state flags ec2 w2"
    using poll a(2) by (subst so_recv_loop.simps) (simp add: recv wait assms(4) w2_def)
  with ec' rest show ?case by (simp add: ab w1_def w2_def)
qed

text \<open>Whatever the system replies, the result is consistent: bytes on success, none on an error.\<close>

lemma so_recv_result:
  assumes "so_recv h flags ec w = Some ((n, ec'), w')"
  shows "(0 \<le> n \<longrightarrow> \<not> failed ec') \<and> length (replies w') < length (replies w)"
proof -
  from assms obtain r where r: "sys (Sys_recv h flags) w = Some (r, w')"
    and n: "n = socket_error_retval \<or> \<not> failed ec'"
    by (auto simp: so_recv_def Let_def bind_eq_Some_conv split: if_splits)
  from n have "0 \<le> n \<longrightarrow> \<not> failed ec'" by (auto simp: socket_error_retval_def)
  with sys_SomeD [OF r] show ?thesis by simp
qed

lemma so_poll_read_result:
  assumes "so_poll_read (Some h) state msec ec w = Some ((n, ec'), w')"
  shows "length (replies w') < length (replies w)"
  using assms by (auto simp: so_poll_read_def so_poll_def bind_eq_Some_conv Let_def dest!: sys_SomeD)

lemma so_recv_loop_result:
  assumes "so_recv_loop h state flags ec w = Some ((n, ec'), w')"
  shows "0 < n \<longrightarrow> \<not> failed ec'"
  using assms
proof (induction "length (replies w)" arbitrary: w ec rule: less_induct)
  case less
  obtain bytes ec1 w1 where recv: "so_recv h flags ec w = Some ((bytes, ec1), w1)"
    using less.prems by (subst (asm) so_recv_loop.simps) (auto simp: bind_eq_Some_conv)
  note shorter = so_recv_result [OF recv]
  show ?case
  proof (cases "\<exists>ready ec2 w2. so_poll_read (Some h) 0 (- 1) ec1 w1 = Some ((ready, ec2), w2) \<and>
      so_recv_loop h state flags ec2 w2 = Some ((n, ec'), w')")
    case True
    then obtain ready ec2 w2 where "so_poll_read (Some h) 0 (- 1) ec1 w1 = Some ((ready, ec2), w2)"
      and rec: "so_recv_loop h state flags ec2 w2 = Some ((n, ec'), w')" by blast
    then have "length (replies w2) < length (replies w)" using so_poll_read_result shorter by fastforce
    then show ?thesis using less.hyps rec by blast
  next
    case False
    then show ?thesis
      using less.prems shorter recv
      by (subst (asm) so_recv_loop.simps) (auto simp: bind_eq_Some_conv split: if_splits)
  qed
qed

section \<open>The flags of a socket\<close>

text \<open>The calls that change them, and a sequence of such calls on one socket.\<close>

datatype mode_call =
    Set_user bool
  | Set_internal bool
  | Io_control int u32
  | Set_option int int bytes
  | Try_close bool

fun run_mode :: "mode_call \<Rightarrow> sock \<Rightarrow> u8 \<Rightarrow> winsock \<Rightarrow> (u8 \<times> winsock) option" where
  "run_mode (Set_user v) s st w = do {((_, st1, _), w1) \<leftarrow> so_set_user_non_blocking s st v no_error w; Some (st1, w1)}"
| "run_mode (Set_internal v) s st w = do {((_, st1, _), w1) \<leftarrow> so_set_internal_non_blocking s st v no_error w; Some (st1, w1)}"
| "run_mode (Io_control cmd arg) s st w = do {((_, st1, _), w1) \<leftarrow> so_ioctl s st cmd arg no_error w; Some (st1, w1)}"
| "run_mode (Set_option level name v) s st w = do {((_, st1, _), w1) \<leftarrow> so_setsockopt s st level name v no_error w; Some (st1, w1)}"
| "run_mode (Try_close d) s st w = do {((_, st1, _), w1) \<leftarrow> so_close s st d no_error w; Some (st1, w1)}"

fun run_modes :: "mode_call list \<Rightarrow> sock \<Rightarrow> u8 \<Rightarrow> winsock \<Rightarrow> (u8 \<times> winsock) option" where
  "run_modes [] s st w = Some (st, w)"
| "run_modes (c # cs) s st w = do {(st1, w1) \<leftarrow> run_mode c s st w; run_modes cs s st1 w1}"

text \<open>What kind of socket it is: stream or datagram, and nothing outside the declared flags.\<close>

definition all_flags :: u8 where
  "all_flags = user_set_non_blocking OR internal_non_blocking OR enable_connection_aborted OR user_set_linger
     OR stream_oriented OR datagram_oriented"

definition orientation :: "u8 \<Rightarrow> u8" where
  "orientation st = st AND (stream_oriented OR datagram_oriented)"

definition flags_ok :: "u8 \<Rightarrow> bool" where
  "flags_ok st \<longleftrightarrow> st AND all_flags = st"

definition flag_step :: "u8 \<Rightarrow> u8 \<Rightarrow> bool" where
  "flag_step st st' \<longleftrightarrow> orientation st' = orientation st \<and> (flags_ok st \<longrightarrow> flags_ok st')"

lemma flag_step_refl [simp]: "flag_step st st"
  by (simp add: flag_step_def)

lemma flag_step_trans: "flag_step a b \<Longrightarrow> flag_step b c \<Longrightarrow> flag_step a c"
  by (simp add: flag_step_def)

lemma flag_step_set:
  "f \<in> {user_set_non_blocking, internal_non_blocking, enable_connection_aborted, user_set_linger} \<Longrightarrow>
     flag_step st (st OR f)"
  by (auto simp: flag_step_def orientation_def flags_ok_def all_flags_def flag_defs bit.conj_disj_distrib2)

lemma flag_step_clear:
  "f \<in> {enable_connection_aborted, internal_non_blocking, non_blocking, user_set_non_blocking OR internal_non_blocking} \<Longrightarrow>
     flag_step st (st AND NOT f)"
proof -
  assume "f \<in> {enable_connection_aborted, internal_non_blocking, non_blocking, user_set_non_blocking OR internal_non_blocking}"
  then have f: "NOT f AND (stream_oriented OR datagram_oriented) = stream_oriented OR datagram_oriented"
    by (auto simp: flag_defs)
  have "(st AND NOT f) AND (stream_oriented OR datagram_oriented) = st AND (stream_oriented OR datagram_oriented)"
    by (simp add: and.assoc f)
  moreover have "(st AND NOT f) AND all_flags = (st AND all_flags) AND NOT f" by (simp add: ac_simps)
  ultimately show ?thesis by (simp add: flag_step_def orientation_def flags_ok_def)
qed

lemma flag_step_blocking:
  "flag_step st (st AND NOT user_set_non_blocking AND NOT internal_non_blocking)"
  using flag_step_clear [of "user_set_non_blocking OR internal_non_blocking" st]
  by (simp add: bit.de_Morgan_disj ac_simps)

lemma setsockopt_flag_step:
  "so_setsockopt s st level optname v ec w = Some ((r, st', ec'), w') \<Longrightarrow> flag_step st st'"
  by (auto simp: so_setsockopt_def Let_def bind_eq_Some_conv flag_step_set flag_step_clear
      split: option.splits if_splits)

lemma close_flag_step:
  assumes "so_close s st d ec w = Some ((r, st', ec'), w')"
  shows "flag_step st st'"
proof (cases s)
  case None
  then show ?thesis using assms by (simp add: so_close_def)
next
  case (Some h)
  from assms obtain st1 x w1 where
    linger: "(if d \<and> st AND user_set_linger \<noteq> 0
        then so_setsockopt s st SOL_SOCKET SO_LINGER [0, 0, 0, 0] no_error w
        else Some ((0, st, no_error), w)) = Some (x, w1)" "st1 = fst (snd x)"
    and st': "st' = st1 \<or> st' = st1 AND NOT non_blocking"
    by (cases "d \<and> st AND user_set_linger \<noteq> 0")
      (auto simp: Some so_close_def bind_eq_Some_conv Let_def split: if_splits)
  have "flag_step st st1"
    using linger by (cases x) (auto split: if_splits dest: setsockopt_flag_step)
  with st' show ?thesis
    using flag_step_trans flag_step_clear [of non_blocking st1] by blast
qed

lemma run_mode_flag_step:
  assumes "run_mode c s st w = Some (st', w')"
  shows "flag_step st st'"
proof (cases c)
  case (Set_user v)
  then show ?thesis using assms
    by (auto simp: so_set_user_non_blocking_def bind_eq_Some_conv Let_def flag_step_set flag_step_clear flag_step_blocking
        split: option.splits if_splits)
next
  case (Set_internal v)
  then show ?thesis using assms
    by (auto simp: so_set_internal_non_blocking_def bind_eq_Some_conv Let_def flag_step_set flag_step_clear flag_step_blocking
        split: option.splits if_splits)
next
  case (Io_control cmd arg)
  then show ?thesis using assms
    by (auto simp: so_ioctl_def bind_eq_Some_conv Let_def flag_step_set flag_step_clear flag_step_blocking
        split: option.splits if_splits)
qed (use assms in \<open>auto simp: bind_eq_Some_conv dest: setsockopt_flag_step close_flag_step\<close>)

lemma run_modes_flag_step: "run_modes cs s st w = Some (st', w') \<Longrightarrow> flag_step st st'"
proof (induction cs arbitrary: st w)
  case (Cons c cs)
  then obtain st1 w1 where "run_mode c s st w = Some (st1, w1)" "run_modes cs s st1 w1 = Some (st', w')"
    by (auto simp: bind_eq_Some_conv)
  with Cons.IH show ?case using run_mode_flag_step flag_step_trans by blast
qed simp

text \<open>The option that asio keeps itself: what was set is what is read.\<close>

lemma own_option_roundtrip:
  assumes "length v = 4"
    and "so_setsockopt (Some h) st custom_socket_option_level enable_connection_aborted_option v ec w = Some ((r, st', ec'), w')"
  shows "so_getsockopt (Some h) st' custom_socket_option_level enable_connection_aborted_option x 4 ec'' w' =
    Some ((0, if dec_u32 v \<noteq> 0 then 1 else 0, clear_ec ec''), w) \<and> r = 0 \<and> \<not> failed ec'"
  using assms
  by (auto simp: so_setsockopt_def so_getsockopt_def enable_connection_aborted_option_def always_fail_option_def
      enable_connection_aborted_def bit.conj_disj_distrib2 and.assoc split: if_splits)

text \<open>A socket whose peer is gone has no name of its peer any more, even when the name is cached.\<close>

lemma peer_gone_has_no_name:
  assumes "replies w = r # rs" and "ret r = 0" and "stored r = 0xFFFFFFFF"
  shows "so_getpeername (Some h) addr True ec w =
    Some ((socket_error_retval, addr, make_basic not_connected),
      w\<lparr>replies := rs, calls := calls w @ [Sys_getsockopt h SOL_SOCKET SO_CONNECT_TIME]\<rparr>)"
  using assms
  by (simp add: so_getpeername_def so_getsockopt_def SOL_SOCKET_def custom_socket_option_level_def
      IPPROTO_IPV6_def socket_error_retval_def Let_def)

section \<open>Properties\<close>

text \<open>
  A blocking receive on a stream socket waits through any number of fruitless attempts, asking the
  system with \<open>select\<close> after each and without a time-out, and returns with the bytes of the first
  receive that gets through; it reports the end of the stream exactly when that gave no bytes. It uses
  up exactly the replies to these calls.
\<close>

theorem blocking_receive_waits_for_data:
  assumes "fruitless rounds" and "replies w = replies_of rounds @ r # rest" and "ret r = 0"
    and "state AND user_set_non_blocking = 0" and "state AND stream_oriented \<noteq> 0"
  shows "\<exists>ec'. (failed ec' \<longleftrightarrow> stored r = 0) \<and> so_sync_recv (Some h) state flags False ec w =
    Some ((unat (stored r), ec'), w\<lparr>replies := rest, calls := calls w @
      concat (replicate (length rounds) [Sys_recv h flags, Sys_select_read h None]) @ [Sys_recv h flags]\<rparr>)"
  using so_recv_loop_waits [OF assms] by (simp add: so_sync_recv_def)

theorem blocking_receive_waits_for_data_witness:
  "\<exists>ec'. \<not> failed ec' \<and> so_sync_recv (Some 7) stream_oriented 0 False no_error
      \<lparr>replies = [\<lparr>ret = - 1, last_error = 10035, stored = 0, stored_addr = []\<rparr>,
                  \<lparr>ret = 1, last_error = 0, stored = 0, stored_addr = []\<rparr>,
                  \<lparr>ret = 0, last_error = 0, stored = 5, stored_addr = []\<rparr>], calls = []\<rparr> =
    Some ((5, ec'), \<lparr>replies = [], calls = [Sys_recv 7 0, Sys_select_read 7 None, Sys_recv 7 0]\<rparr>)"
  using blocking_receive_waits_for_data [of
      "[(\<lparr>ret = - 1, last_error = 10035, stored = 0, stored_addr = []\<rparr>,
         \<lparr>ret = 1, last_error = 0, stored = 0, stored_addr = []\<rparr>)]"
      "\<lparr>replies = [\<lparr>ret = - 1, last_error = 10035, stored = 0, stored_addr = []\<rparr>,
                  \<lparr>ret = 1, last_error = 0, stored = 0, stored_addr = []\<rparr>,
                  \<lparr>ret = 0, last_error = 0, stored = 5, stored_addr = []\<rparr>], calls = []\<rparr>"
      "\<lparr>ret = 0, last_error = 0, stored = 5, stored_addr = []\<rparr>" "[]" stream_oriented 7 0 no_error]
  by (simp add: no_data_yet_def flag_defs)

text \<open>
  C39: The type of a socket survives every sequence of calls that change its flags, whether they
  succeed or fail: a stream socket stays a stream socket, a datagram socket a datagram socket, and no
  flag outside the declared ones is ever set.
\<close>

theorem socket_type_is_kept:
  assumes "run_modes cs s st w = Some (st', w')"
  shows "orientation st' = orientation st \<and> (flags_ok st \<longrightarrow> flags_ok st')"
  using run_modes_flag_step [OF assms] by (simp add: flag_step_def)

theorem socket_type_is_kept_witness:
  "\<exists>st'. run_modes [Set_internal True, Set_user False, Try_close True] (Some 3)
      (stream_oriented OR user_set_linger)
      \<lparr>replies = replicate 4 \<lparr>ret = 0, last_error = 0, stored = 0, stored_addr = []\<rparr>, calls = []\<rparr> =
        Some (st', \<lparr>replies = [], calls = [Sys_ioctlsocket 3 FIONBIO 1, Sys_ioctlsocket 3 FIONBIO 0,
          Sys_setsockopt 3 SOL_SOCKET SO_LINGER [0, 0, 0, 0], Sys_closesocket 3]\<rparr>) \<and>
    orientation st' = stream_oriented \<and> flags_ok st'"
proof -
  have four: "replicate 4 x = [x, x, x, x]" for x :: reply by (simp add: eval_nat_numeral)
  let ?w = "\<lparr>replies = replicate 4 \<lparr>ret = 0, last_error = 0, stored = 0, stored_addr = []\<rparr>, calls = []\<rparr>"
  have "\<exists>st'. run_modes [Set_internal True, Set_user False, Try_close True] (Some 3)
      (stream_oriented OR user_set_linger) ?w = Some (st', \<lparr>replies = [], calls = [Sys_ioctlsocket 3 FIONBIO 1,
        Sys_ioctlsocket 3 FIONBIO 0, Sys_setsockopt 3 SOL_SOCKET SO_LINGER [0, 0, 0, 0], Sys_closesocket 3]\<rparr>)"
    by (simp add: so_set_internal_non_blocking_def so_set_user_non_blocking_def so_close_def so_setsockopt_def
        sys_def four close_would_block_def SOL_SOCKET_def custom_socket_option_level_def flag_defs
        SO_LINGER_def)
  then show ?thesis
    using socket_type_is_kept [of "[Set_internal True, Set_user False, Try_close True]" "Some 3"
        "stream_oriented OR user_set_linger" ?w]
    by (auto simp: orientation_def flags_ok_def all_flags_def flag_defs)
qed

end
