(* ===== verification/Asio_Socket.thy ===== *)
theory Asio_Socket
  imports Asio_Socket_Ops Asio_Iocp
begin

unbundle bit_operations_syntax

text \<open>
  The socket service of asio on Windows, \<^verbatim>\<open>asio/detail/impl/win_iocp_socket_service_base.ipp\<close>: the life
  of a socket implementation (constructed, opened, moved, closed, destroyed) and the start of every
  overlapped operation on it. The service of the programs runs on the completion port of
  \<^theory_text>\<open>Asio_Iocp\<close>; calls of the select-based reactor, which only operations without a completion port
  use, are logged.
\<close>

section \<open>State\<close>

text \<open>
  A socket implementation: handle, flags, cancellation token, and its neighbours in the list of all
  implementations of its service. The token is a shared pointer, here the number of the object it
  shares; the weak tokens of the operations expire when no implementation holds it any more.
\<close>

record sock_impl =
  im_socket :: sock
  im_state :: u8
  im_token :: "nat option"
  im_next :: "nat option"
  im_prev :: "nat option"

datatype reactor_call =
    R_deregister sock
  | R_cleanup nat
  | R_cancel_ops sock
  | R_start_op int sock nat
  | R_cancel_by_key sock int nat

text \<open>The address of an extension function: not looked up yet, not available, available.\<close>

datatype extension = Ext_unknown | Ext_unavailable | Ext_available

record service =
  impl_list :: "nat option"
  reactor_created :: bool
  reactor_calls :: "reactor_call list"
  connect_ex :: extension
  nt_set_info :: extension
  ctx :: io_context

text \<open>
  All of it: the implementations and operations live at addresses. An operation has the error code
  and the flag of a connect operation, and the holder of the socket an accept operation has opened.
\<close>

record sockets =
  impls :: "nat \<Rightarrow> sock_impl"
  services :: "nat \<Rightarrow> service"
  next_token :: nat
  op_ec :: "nat \<Rightarrow> error_code"
  op_connect_ex :: "nat \<Rightarrow> bool"
  new_socket :: "nat \<Rightarrow> sock"
  net :: winsock

definition on_impl :: "nat \<Rightarrow> (sock_impl \<Rightarrow> sock_impl) \<Rightarrow> sockets \<Rightarrow> sockets" where
  "on_impl i f s = s\<lparr>impls := (impls s)(i := f (impls s i))\<rparr>"

definition on_service :: "nat \<Rightarrow> (service \<Rightarrow> service) \<Rightarrow> sockets \<Rightarrow> sockets" where
  "on_service sv f s = s\<lparr>services := (services s)(sv := f (services s sv))\<rparr>"

definition on_ctx :: "nat \<Rightarrow> (io_context \<Rightarrow> io_context) \<Rightarrow> sockets \<Rightarrow> sockets" where
  "on_ctx sv f = on_service sv (\<lambda>v. v\<lparr>ctx := f (ctx v)\<rparr>)"

definition log_reactor :: "nat \<Rightarrow> reactor_call \<Rightarrow> sockets \<Rightarrow> sockets" where
  "log_reactor sv c = on_service sv (\<lambda>v. v\<lparr>reactor_calls := reactor_calls v @ [c]\<rparr>)"

text \<open>A call of the system, and a function of \<open>socket_ops\<close>, in this state.\<close>

definition os :: "syscall \<Rightarrow> sockets \<Rightarrow> (reply \<times> sockets) option" where
  "os c s = do {(r, w) \<leftarrow> sys c (net s); Some (r, s\<lparr>net := w\<rparr>)}"

definition lift_os :: "(winsock \<Rightarrow> ('a \<times> winsock) option) \<Rightarrow> sockets \<Rightarrow> ('a \<times> sockets) option" where
  "lift_os f s = do {(x, w) \<leftarrow> f (net s); Some (x, s\<lparr>net := w\<rparr>)}"

definition is_open :: "nat \<Rightarrow> sockets \<Rightarrow> bool" where
  "is_open i s \<longleftrightarrow> im_socket (impls s i) \<noteq> invalid_socket"

definition token_expired :: "nat \<Rightarrow> sockets \<Rightarrow> bool" where
  "token_expired t s \<longleftrightarrow> (\<forall>i. im_token (impls s i) \<noteq> Some t)"

section \<open>The list of implementations\<close>

definition insert_impl :: "nat \<Rightarrow> nat \<Rightarrow> sockets \<Rightarrow> sockets" where
  "insert_impl sv i s =
     (let s1 = on_impl i (\<lambda>m. m\<lparr>im_next := impl_list (services s sv), im_prev := None\<rparr>) s;
          s2 = (case impl_list (services s1 sv) of
                  None \<Rightarrow> s1
                | Some h \<Rightarrow> on_impl h (\<lambda>m. m\<lparr>im_prev := Some i\<rparr>) s1)
      in on_service sv (\<lambda>v. v\<lparr>impl_list := Some i\<rparr>) s2)"

definition remove_impl :: "nat \<Rightarrow> nat \<Rightarrow> sockets \<Rightarrow> sockets" where
  "remove_impl sv i s =
     (let s1 = (if impl_list (services s sv) = Some i
                then on_service sv (\<lambda>v. v\<lparr>impl_list := im_next (impls s i)\<rparr>) s else s);
          s2 = (case im_prev (impls s1 i) of
                  None \<Rightarrow> s1
                | Some p \<Rightarrow> on_impl p (\<lambda>m. m\<lparr>im_next := im_next (impls s1 i)\<rparr>) s1);
          s3 = (case im_next (impls s2 i) of
                  None \<Rightarrow> s2
                | Some n \<Rightarrow> on_impl n (\<lambda>m. m\<lparr>im_prev := im_prev (impls s2 i)\<rparr>) s2)
      in on_impl i (\<lambda>m. m\<lparr>im_next := None, im_prev := None\<rparr>) s3)"

text \<open>The end of every close: the implementation is empty.\<close>

definition clear_impl :: "nat \<Rightarrow> sockets \<Rightarrow> sockets" where
  "clear_impl i = on_impl i (\<lambda>m. m\<lparr>im_socket := invalid_socket, im_state := 0, im_token := None\<rparr>)"

definition construct :: "nat \<Rightarrow> nat \<Rightarrow> sockets \<Rightarrow> sockets" where
  "construct sv i s = insert_impl sv i (clear_impl i s)"

text \<open>Take over handle, flags and token of another implementation.\<close>

definition take_over :: "nat \<Rightarrow> nat \<Rightarrow> sockets \<Rightarrow> sockets" where
  "take_over i other s =
     (let s1 = on_impl other (\<lambda>m. m\<lparr>im_socket := invalid_socket\<rparr>)
                 (on_impl i (\<lambda>m. m\<lparr>im_socket := im_socket (impls s other)\<rparr>) s);
          s2 = on_impl other (\<lambda>m. m\<lparr>im_state := 0\<rparr>)
                 (on_impl i (\<lambda>m. m\<lparr>im_state := im_state (impls s1 other)\<rparr>) s1)
      in on_impl other (\<lambda>m. m\<lparr>im_token := None\<rparr>)
           (on_impl i (\<lambda>m. m\<lparr>im_token := im_token (impls s2 other)\<rparr>) s2))"

definition base_move_construct :: "nat \<Rightarrow> nat \<Rightarrow> nat \<Rightarrow> sockets \<Rightarrow> sockets" where
  "base_move_construct sv i other s = insert_impl sv i (take_over i other s)"

section \<open>Closing\<close>

text \<open>
  \<open>close_with\<close> is what \<open>close\<close> and \<open>close_for_destruction\<close> share for an open socket: the reactor, if
  it exists, is told before and after.
\<close>

definition close_with :: "nat \<Rightarrow> nat \<Rightarrow> bool \<Rightarrow> error_code \<Rightarrow> sockets \<Rightarrow> (error_code \<times> sockets) option" where
  "close_with sv i destruction ec s =
     (let m = impls s i;
          r = reactor_created (services s sv);
          s1 = (if r then log_reactor sv (R_deregister (im_socket m)) s else s)
      in do {((_, st, ec1), s2) \<leftarrow> lift_os (so_close (im_socket m) (im_state m) destruction ec) s1;
             let s3 = on_impl i (\<lambda>m. m\<lparr>im_state := st\<rparr>) s2;
             Some (ec1, if r then log_reactor sv (R_cleanup i) s3 else s3)})"

definition close_impl :: "nat \<Rightarrow> nat \<Rightarrow> error_code \<Rightarrow> sockets \<Rightarrow> (error_code \<times> sockets) option" where
  "close_impl sv i ec s =
     do {(ec1, s1) \<leftarrow> (if is_open i s then close_with sv i False ec s else Some (no_error, s));
         Some (ec1, clear_impl i s1)}"

definition close_for_destruction :: "nat \<Rightarrow> nat \<Rightarrow> sockets \<Rightarrow> sockets option" where
  "close_for_destruction sv i s =
     do {(_, s1) \<leftarrow> (if is_open i s then close_with sv i True no_error s else Some (no_error, s));
         Some (clear_impl i s1)}"

definition destroy :: "nat \<Rightarrow> nat \<Rightarrow> sockets \<Rightarrow> sockets option" where
  "destroy sv i s = do {s1 \<leftarrow> close_for_destruction sv i s; Some (remove_impl sv i s1)}"

definition base_move_assign :: "nat \<Rightarrow> nat \<Rightarrow> nat \<Rightarrow> nat \<Rightarrow> sockets \<Rightarrow> sockets option" where
  "base_move_assign sv i other_sv other s =
     do {s1 \<leftarrow> close_for_destruction sv i s;
         let s2 = (if sv \<noteq> other_sv then remove_impl sv i s1 else s1);
         let s3 = take_over i other s2;
         Some (if sv \<noteq> other_sv then insert_impl other_sv i s3 else s3)}"

text \<open>The loop of \<open>base_shutdown\<close> over the list.\<close>

partial_function (option) shutdown_impls :: "nat \<Rightarrow> nat option \<Rightarrow> sockets \<Rightarrow> sockets option" where
  "shutdown_impls sv p s =
     (case p of
        None \<Rightarrow> Some s
      | Some i \<Rightarrow> do {s1 \<leftarrow> close_for_destruction sv i s; shutdown_impls sv (im_next (impls s1 i)) s1})"

definition base_shutdown :: "nat \<Rightarrow> sockets \<Rightarrow> sockets option" where
  "base_shutdown sv s = shutdown_impls sv (impl_list (services s sv)) s"

section \<open>Opening\<close>

text \<open>\<open>register_handle\<close> of the context: the error code it sets.\<close>

definition register_handle :: "nat \<Rightarrow> sockets \<Rightarrow> (error_code \<times> sockets) option" where
  "register_handle h s =
     do {(r, s1) \<leftarrow> os (Sys_CreateIoCompletionPort h) s;
         Some (if ret r = 0 then system_ec (last_error r) else no_error, s1)}"

definition state_of_type :: "int \<Rightarrow> u8" where
  "state_of_type type =
     (if type = SOCK_STREAM then stream_oriented
      else if type = SOCK_DGRAM then datagram_oriented else 0)"

text \<open>Adopt a registered handle, with a fresh cancellation token.\<close>

definition adopt :: "nat \<Rightarrow> nat \<Rightarrow> int \<Rightarrow> sockets \<Rightarrow> sockets" where
  "adopt i h type s =
     (on_impl i (\<lambda>m. m\<lparr>im_socket := Some h, im_state := state_of_type type, im_token := Some (next_token s)\<rparr>) s)
       \<lparr>next_token := Suc (next_token s)\<rparr>"

text \<open>A socket that could not be registered is closed again by its holder.\<close>

definition do_open :: "nat \<Rightarrow> int \<Rightarrow> int \<Rightarrow> int \<Rightarrow> error_code \<Rightarrow> sockets \<Rightarrow> (error_code \<times> sockets) option" where
  "do_open i family type protocol ec s =
     (if is_open i s then Some (make_misc already_open, s)
      else
        do {((sock, ec1), s1) \<leftarrow> lift_os (so_socket family type protocol ec) s;
            case sock of
              None \<Rightarrow> Some (ec1, s1)
            | Some h \<Rightarrow>
                do {(ec2, s2) \<leftarrow> register_handle h s1;
                    if failed ec2
                    then do {(_, s3) \<leftarrow> lift_os (so_close sock 0 True no_error) s2; Some (ec2, s3)}
                    else Some (no_error, adopt i h type s2)}})"

definition do_assign :: "nat \<Rightarrow> int \<Rightarrow> nat \<Rightarrow> sockets \<Rightarrow> (error_code \<times> sockets) option" where
  "do_assign i type native_socket s =
     (if is_open i s then Some (make_misc already_open, s)
      else
        do {(ec, s1) \<leftarrow> register_handle native_socket s;
            if failed ec then Some (ec, s1) else Some (no_error, adopt i native_socket type s1)})"

section \<open>Cancelling and releasing\<close>

text \<open>Every version of Windows that still runs has \<open>CancelIoEx\<close>; without it, and without the option
  to use \<open>CancelIo\<close>, cancellation is not supported.\<close>

definition ERROR_NOT_FOUND :: int where "ERROR_NOT_FOUND = 1168"

definition cancel :: "nat \<Rightarrow> nat \<Rightarrow> bool \<Rightarrow> sockets \<Rightarrow> (error_code \<times> sockets) option" where
  "cancel sv i has_cancel_io_ex s =
     (case im_socket (impls s i) of
        None \<Rightarrow> Some (make_basic bad_descriptor, s)
      | Some h \<Rightarrow>
          do {(ec, s1) \<leftarrow>
                (if has_cancel_io_ex then
                   do {(r, s1) \<leftarrow> os (Sys_CancelIoEx h) s;
                       Some (if ret r = 0
                             then (if last_error r = ERROR_NOT_FOUND then no_error else system_ec (last_error r))
                             else no_error, s1)}
                 else Some (make_basic operation_not_supported, s));
              Some (ec, if \<not> failed ec \<and> reactor_created (services s1 sv)
                        then log_reactor sv (R_cancel_ops (Some h)) s1 else s1)})"

text \<open>Both extension functions are looked up once; the outcome is remembered.\<close>

definition get_nt_set_info :: "nat \<Rightarrow> sockets \<Rightarrow> (bool \<times> sockets) option" where
  "get_nt_set_info sv s =
     (case nt_set_info (services s sv) of
        Ext_unknown \<Rightarrow>
          do {(r, s1) \<leftarrow> os Sys_GetProcAddress_NtSetInformationFile s;
              Some (ret r \<noteq> 0, on_service sv (\<lambda>v. v\<lparr>nt_set_info :=
                if ret r \<noteq> 0 then Ext_available else Ext_unavailable\<rparr>) s1)}
      | Ext_unavailable \<Rightarrow> Some (False, s)
      | Ext_available \<Rightarrow> Some (True, s))"

definition get_connect_ex :: "nat \<Rightarrow> nat \<Rightarrow> int \<Rightarrow> sockets \<Rightarrow> (bool \<times> sockets) option" where
  "get_connect_ex sv i type s =
     (if type \<noteq> SOCK_STREAM \<and> type \<noteq> SOCK_SEQPACKET then Some (False, s)
      else case connect_ex (services s sv) of
        Ext_unknown \<Rightarrow>
          do {(r, s1) \<leftarrow> os (Sys_WSAIoctl_ConnectEx (im_socket (impls s i))) s;
              Some (ret r = 0, on_service sv (\<lambda>v. v\<lparr>connect_ex :=
                if ret r = 0 then Ext_available else Ext_unavailable\<rparr>) s1)}
      | Ext_unavailable \<Rightarrow> Some (False, s)
      | Ext_available \<Rightarrow> Some (True, s))"

definition release :: "nat \<Rightarrow> nat \<Rightarrow> bool \<Rightarrow> error_code \<Rightarrow> sockets \<Rightarrow> ((sock \<times> error_code) \<times> sockets) option" where
  "release sv i has_cancel_io_ex ec s =
     (case im_socket (impls s i) of
        None \<Rightarrow> Some ((invalid_socket, ec), s)
      | Some h \<Rightarrow>
          do {(ec1, s1) \<leftarrow> cancel sv i has_cancel_io_ex s;
              if failed ec1 then Some ((invalid_socket, ec1), s1)
              else do {(fn, s2) \<leftarrow> get_nt_set_info sv s1;
                       if \<not> fn then Some ((invalid_socket, make_basic operation_not_supported), s2)
                       else do {(r, s3) \<leftarrow> os (Sys_NtSetInformationFile h) s2;
                                if ret r \<noteq> 0 then Some ((invalid_socket, make_basic operation_not_supported), s3)
                                else Some ((im_socket (impls s3 i), ec1), on_impl i (\<lambda>m. m\<lparr>im_socket := invalid_socket\<rparr>) s3)}}})"

section \<open>Starting overlapped operations\<close>

definition WSA_IO_PENDING :: int where "WSA_IO_PENDING = 997"
definition WSAECONNREFUSED :: int where "WSAECONNREFUSED = 10061"
definition WSAECONNRESET :: int where "WSAECONNRESET = 10054"

text \<open>
  The end of every start function: \<open>failed_at_once\<close> tells whether the call has failed for another
  reason than that it is pending, \<open>err\<close> is the error number then and \<open>n\<close> the bytes.
\<close>

definition settle :: "nat \<Rightarrow> nat \<Rightarrow> bool \<Rightarrow> int \<Rightarrow> u32 \<Rightarrow> sockets \<Rightarrow> sockets" where
  "settle sv op failed_at_once err n =
     on_ctx sv (if failed_at_once \<and> err \<noteq> WSA_IO_PENDING then on_completion_error op err n else on_pending op)"

definition refused_if_unreachable :: "int \<Rightarrow> int" where
  "refused_if_unreachable e = (if e = ERROR_PORT_UNREACHABLE then WSAECONNREFUSED else e)"

text \<open>Complete at once with an error number.\<close>

definition complete_now :: "nat \<Rightarrow> nat \<Rightarrow> int \<Rightarrow> sockets \<Rightarrow> sockets" where
  "complete_now sv op err = on_ctx sv (on_completion_error op err 0)"

definition start_send_op :: "nat \<Rightarrow> nat \<Rightarrow> bool \<Rightarrow> nat \<Rightarrow> sockets \<Rightarrow> sockets option" where
  "start_send_op sv i noop op s =
     (let s1 = on_ctx sv work_started s
      in if noop then Some (complete_now sv op 0 s1)
         else case im_socket (impls s1 i) of
           None \<Rightarrow> Some (complete_now sv op (basic_error_value bad_descriptor) s1)
         | Some h \<Rightarrow>
             do {(r, s2) \<leftarrow> os (Sys_overlapped_send h op) s1;
                 Some (settle sv op (ret r \<noteq> 0) (refused_if_unreachable (last_error r)) (stored r) s2)})"

definition start_send_to_op :: "nat \<Rightarrow> nat \<Rightarrow> nat \<Rightarrow> sockets \<Rightarrow> sockets option" where
  "start_send_to_op sv i op s =
     (let s1 = on_ctx sv work_started s
      in case im_socket (impls s1 i) of
           None \<Rightarrow> Some (complete_now sv op (basic_error_value bad_descriptor) s1)
         | Some h \<Rightarrow>
             do {(r, s2) \<leftarrow> os (Sys_overlapped_send_to h op) s1;
                 Some (settle sv op (ret r \<noteq> 0) (refused_if_unreachable (last_error r)) (stored r) s2)})"

definition start_receive_op :: "nat \<Rightarrow> nat \<Rightarrow> bool \<Rightarrow> nat \<Rightarrow> sockets \<Rightarrow> sockets option" where
  "start_receive_op sv i noop op s =
     (let s1 = on_ctx sv work_started s
      in if noop then Some (complete_now sv op 0 s1)
         else case im_socket (impls s1 i) of
           None \<Rightarrow> Some (complete_now sv op (basic_error_value bad_descriptor) s1)
         | Some h \<Rightarrow>
             do {(r, s2) \<leftarrow> os (Sys_overlapped_recv h op) s1;
                 let err = (if last_error r = ERROR_NETNAME_DELETED then WSAECONNRESET
                            else refused_if_unreachable (last_error r));
                 Some (settle sv op (ret r \<noteq> 0) err (stored r) s2)})"

definition start_receive_from_op :: "nat \<Rightarrow> nat \<Rightarrow> nat \<Rightarrow> sockets \<Rightarrow> sockets option" where
  "start_receive_from_op sv i op s =
     (let s1 = on_ctx sv work_started s
      in case im_socket (impls s1 i) of
           None \<Rightarrow> Some (complete_now sv op (basic_error_value bad_descriptor) s1)
         | Some h \<Rightarrow>
             do {(r, s2) \<leftarrow> os (Sys_overlapped_recv_from h op) s1;
                 Some (settle sv op (ret r \<noteq> 0) (refused_if_unreachable (last_error r)) (stored r) s2)})"

text \<open>The reactor, created on first use, and an operation on it.\<close>

definition get_reactor :: "nat \<Rightarrow> sockets \<Rightarrow> sockets" where
  "get_reactor sv = on_service sv (\<lambda>v. v\<lparr>reactor_created := True\<rparr>)"

definition start_reactor_op :: "nat \<Rightarrow> nat \<Rightarrow> int \<Rightarrow> nat \<Rightarrow> sockets \<Rightarrow> sockets" where
  "start_reactor_op sv i op_type op s =
     (let s1 = get_reactor sv s
      in if is_open i s1 then log_reactor sv (R_start_op op_type (im_socket (impls s1 i)) op) s1
         else on_ctx sv (post_immediate_completion op)
                (s1\<lparr>op_ec := (op_ec s1)(op := make_basic bad_descriptor)\<rparr>))"

text \<open>Operation types of the select reactor.\<close>

definition reactor_read_op :: int where "reactor_read_op = 0"
definition reactor_write_op :: int where "reactor_write_op = 1"
definition reactor_except_op :: int where "reactor_except_op = 2"
definition reactor_connect_op :: int where "reactor_connect_op = 3"

definition start_null_buffers_receive_op :: "nat \<Rightarrow> nat \<Rightarrow> bool \<Rightarrow> nat \<Rightarrow> nat \<Rightarrow> sockets \<Rightarrow> (int \<times> sockets) option" where
  "start_null_buffers_receive_op sv i out_of_band op iocp_op s =
     (if im_state (impls s i) AND stream_oriented \<noteq> 0
      then do {s1 \<leftarrow> start_receive_op sv i False iocp_op s; Some (- 1, s1)}
      else let op_type = (if out_of_band then reactor_except_op else reactor_read_op)
           in Some (op_type, start_reactor_op sv i op_type op s))"

text \<open>\<open>socket_holder::reset\<close>: close what the holder has, then take the new socket.\<close>

definition reset_holder :: "nat \<Rightarrow> sock \<Rightarrow> sockets \<Rightarrow> sockets option" where
  "reset_holder op sock s =
     do {s1 \<leftarrow> (case new_socket s op of
                  None \<Rightarrow> Some s
                | Some h \<Rightarrow> do {(_, s1) \<leftarrow> lift_os (so_close (Some h) 0 True no_error) s; Some s1});
         Some (s1\<lparr>new_socket := (new_socket s1)(op := sock)\<rparr>)}"

text \<open>The common end of the two accept functions: open a socket for the peer and call \<open>AcceptEx\<close> on
  the listening socket \<open>h\<close>. \<open>holder\<close> is the operation that owns the new socket.\<close>

definition accept_on :: "nat \<Rightarrow> nat \<Rightarrow> nat \<Rightarrow> int \<Rightarrow> int \<Rightarrow> int \<Rightarrow> nat \<Rightarrow> (sockets \<Rightarrow> sockets option) \<Rightarrow> sockets \<Rightarrow> sockets option" where
  "accept_on sv h holder family type protocol op before_pending s =
     do {((sock, ec), s1) \<leftarrow> lift_os (so_socket family type protocol no_error) s;
         s2 \<leftarrow> reset_holder holder sock s1;
         case sock of
           None \<Rightarrow> Some (on_ctx sv (on_completion op ec 0) s2)
         | Some n \<Rightarrow>
             do {(r, s3) \<leftarrow> os (Sys_AcceptEx h n op) s2;
                 if ret r = 0 \<and> last_error r \<noteq> WSA_IO_PENDING
                 then Some (complete_now sv op (last_error r) s3)
                 else do {s4 \<leftarrow> before_pending s3; Some (on_ctx sv (on_pending op) s4)}}}"

text \<open>
  \<open>on_completion(op, asio::error::already_open)\<close> selects the overload for system error numbers, since an
  enumerator converts to \<open>DWORD\<close> without a constructor: the number 1 is stored as a system error.
\<close>

definition start_accept_op :: "nat \<Rightarrow> nat \<Rightarrow> bool \<Rightarrow> nat \<Rightarrow> int \<Rightarrow> int \<Rightarrow> int \<Rightarrow> nat \<Rightarrow> sockets \<Rightarrow> sockets option" where
  "start_accept_op sv i peer_is_open holder family type protocol op s =
     (let s1 = on_ctx sv work_started s
      in case im_socket (impls s1 i) of
           None \<Rightarrow> Some (complete_now sv op (basic_error_value bad_descriptor) s1)
         | Some h \<Rightarrow>
             if peer_is_open then Some (complete_now sv op (misc_error_value already_open) s1)
             else accept_on sv h holder family type protocol op Some s1)"

text \<open>
  \<open>cancel_requested\<close>: whether there is a cancellation slot, and its flag at the two times it is read.
  A requested cancellation posts the operation and then goes on to start it all the same.
\<close>

definition restart_accept_op :: "nat \<Rightarrow> nat \<Rightarrow> nat \<Rightarrow> int \<Rightarrow> int \<Rightarrow> int \<Rightarrow> (bool \<times> bool) option \<Rightarrow> nat \<Rightarrow> sockets \<Rightarrow> sockets option" where
  "restart_accept_op sv h holder family type protocol cancel_requested op s =
     do {s1 \<leftarrow> reset_holder holder invalid_socket s;
         let s2 = on_ctx sv work_started s1;
         let s3 = (case cancel_requested of
                     Some (True, _) \<Rightarrow> complete_now sv op (basic_error_value operation_aborted) s2
                   | _ \<Rightarrow> s2);
         accept_on sv h holder family type protocol op
           (\<lambda>t. case cancel_requested of
                  Some (_, True) \<Rightarrow> do {(_, t1) \<leftarrow> os (Sys_CancelIoEx h) t; Some t1}
                | _ \<Rightarrow> Some t) s3}"

text \<open>The address a socket is bound to before \<open>ConnectEx\<close>: any address and port of the family.\<close>

definition any_address :: "int \<Rightarrow> bytes" where
  "any_address family = le_enc 2 (nat family) @ replicate (if family = AF_INET then 14 else 26) 0"

definition start_connect_op :: "nat \<Rightarrow> nat \<Rightarrow> int \<Rightarrow> int \<Rightarrow> bytes \<Rightarrow> nat \<Rightarrow> nat \<Rightarrow> sockets \<Rightarrow> (int \<times> sockets) option" where
  "start_connect_op sv i family type addr op iocp_op s =
     do {(has_connect_ex, s1) \<leftarrow>
           (if family = AF_INET \<or> family = AF_INET6 then get_connect_ex sv i type s else Some (False, s));
         if has_connect_ex then
           do {((_, ec), s2) \<leftarrow> lift_os (so_bind (im_socket (impls s1 i)) (any_address family) (op_ec s1 op)) s1;
               let s3 = s2\<lparr>op_ec := (op_ec s2)(op := ec)\<rparr>;
               if failed ec \<and> ec \<noteq> make_basic invalid_argument
               then Some (- 1, on_ctx sv (post_immediate_completion op) s3)
               else
                 do {let s4 = on_ctx sv work_started (s3\<lparr>op_connect_ex := (op_connect_ex s3)(op := True)\<rparr>);
                     (r, s5) \<leftarrow> os (Sys_ConnectEx (im_socket (impls s4 i)) addr iocp_op) s4;
                     Some (- 1, settle sv iocp_op (ret r = 0) (last_error r) 0 s5)}}
         else
           do {let s2 = get_reactor sv s1;
               (ready, s3) \<leftarrow>
                 (if im_state (impls s2 i) AND non_blocking \<noteq> 0 then Some (True, s2)
                  else do {((ok, st, ec), s3) \<leftarrow> lift_os (so_set_internal_non_blocking (im_socket (impls s2 i))
                                                     (im_state (impls s2 i)) True (op_ec s2 op)) s2;
                           Some (ok, on_impl i (\<lambda>m. m\<lparr>im_state := st\<rparr>) (s3\<lparr>op_ec := (op_ec s3)(op := ec)\<rparr>))});
               if ready then
                 do {((result, ec), s4) \<leftarrow> lift_os (so_connect (im_socket (impls s3 i)) addr (op_ec s3 op)) s3;
                     let s5 = s4\<lparr>op_ec := (op_ec s4)(op := ec)\<rparr>;
                     if result \<noteq> 0 \<and> (ec = make_basic in_progress \<or> ec = make_basic would_block)
                     then Some (reactor_connect_op,
                            log_reactor sv (R_start_op reactor_connect_op (im_socket (impls s5 i)) op)
                              (s5\<lparr>op_ec := (op_ec s5)(op := no_error)\<rparr>))
                     else Some (- 1, on_ctx sv (post_immediate_completion op) s5)}
               else Some (- 1, on_ctx sv (post_immediate_completion op) s3)}}"

end
