(* ===== verification/Asio_Completion.thy ===== *)
theory Asio_Completion
  imports Asio_Socket
begin

text \<open>
  The operations that wait for a completion packet, \<^verbatim>\<open>asio/detail/win_iocp_*_op.hpp\<close>: what their
  \<open>do_complete\<close> makes of the result the event loop hands them. \<open>owner\<close> is false when the context is
  destroyed: then nothing is called. An operation keeps a weak reference to the cancellation token of
  its socket; releasing its memory and the bookkeeping of handler executors have no counterpart here.
\<close>

section \<open>Transfers and waits\<close>

text \<open>The members of a transfer operation, and of one that waits for readiness in the reactor.\<close>

record transfer_op =
  op_state :: u8
  op_token :: "nat option"
  op_all_empty :: bool

definition weak_expired :: "nat option \<Rightarrow> sockets \<Rightarrow> bool" where
  "weak_expired k s = (case k of None \<Rightarrow> True | Some t \<Rightarrow> token_expired t s)"

text \<open>The arguments of the handler, if it is called.\<close>

definition upcall :: "bool \<Rightarrow> 'a \<Rightarrow> 'a option" where
  "upcall owner x = (if owner then Some x else None)"

definition recv_complete :: "bool \<Rightarrow> transfer_op \<Rightarrow> error_code \<Rightarrow> nat \<Rightarrow> sockets \<Rightarrow> (error_code \<times> nat) option" where
  "recv_complete owner opn result_ec n s =
     upcall owner (complete_iocp_recv (op_state opn) (weak_expired (op_token opn) s) (op_all_empty opn) result_ec n, n)"

definition send_complete :: "bool \<Rightarrow> transfer_op \<Rightarrow> error_code \<Rightarrow> nat \<Rightarrow> sockets \<Rightarrow> (error_code \<times> nat) option" where
  "send_complete owner opn result_ec n s =
     upcall owner (complete_iocp_send (weak_expired (op_token opn) s) result_ec, n)"

definition recvfrom_complete :: "bool \<Rightarrow> transfer_op \<Rightarrow> error_code \<Rightarrow> nat \<Rightarrow> sockets \<Rightarrow> (error_code \<times> nat) option" where
  "recvfrom_complete owner opn result_ec n s =
     upcall owner (complete_iocp_recvfrom (weak_expired (op_token opn) s) result_ec, n)"

definition recvmsg_complete :: "bool \<Rightarrow> transfer_op \<Rightarrow> error_code \<Rightarrow> nat \<Rightarrow> sockets \<Rightarrow> (error_code \<times> nat) option" where
  "recvmsg_complete owner opn result_ec n s =
     upcall owner (complete_iocp_recvmsg (weak_expired (op_token opn) s) result_ec, n)"

text \<open>Both operations on the reactor prefer the error it has stored.\<close>

definition map_wait_error :: "bool \<Rightarrow> error_code \<Rightarrow> error_code" where
  "map_wait_error cancel_token_expired ec =
     (if ec_value ec = ERROR_NETNAME_DELETED then
        (if cancel_token_expired then make_basic operation_aborted else make_basic connection_reset)
      else if ec_value ec = ERROR_PORT_UNREACHABLE then make_basic connection_refused
      else ec)"

definition null_buffers_complete :: "bool \<Rightarrow> nat \<Rightarrow> transfer_op \<Rightarrow> error_code \<Rightarrow> nat \<Rightarrow> sockets \<Rightarrow> (error_code \<times> nat) option" where
  "null_buffers_complete owner op opn result_ec n s =
     (let ec = (if failed (op_ec s op) then op_ec s op else result_ec)
      in upcall owner (map_wait_error (weak_expired (op_token opn) s) ec, n))"

definition wait_complete :: "bool \<Rightarrow> nat \<Rightarrow> transfer_op \<Rightarrow> error_code \<Rightarrow> sockets \<Rightarrow> error_code option" where
  "wait_complete owner op opn result_ec s =
     (let ec = (if failed (op_ec s op) then op_ec s op else result_ec)
      in upcall owner (map_wait_error (weak_expired (op_token opn) s) ec))"

section \<open>Connecting\<close>

text \<open>What the reactor does with a connect operation, and its completion on either path.\<close>

definition connect_perform :: "nat \<Rightarrow> nat \<Rightarrow> sockets \<Rightarrow> (bool \<times> sockets) option" where
  "connect_perform socket op s =
     do {((finished, ec), s1) \<leftarrow> lift_os (so_non_blocking_connect socket (op_ec s op)) s;
         Some (finished, s1\<lparr>op_ec := (op_ec s1)(op := ec)\<rparr>)}"

definition connect_complete :: "bool \<Rightarrow> sock \<Rightarrow> nat \<Rightarrow> error_code \<Rightarrow> sockets \<Rightarrow> (error_code option \<times> sockets) option" where
  "connect_complete owner socket op result_ec s =
     (if owner then
        if op_connect_ex s op
        then do {(ec, s1) \<leftarrow> lift_os (complete_iocp_connect socket result_ec) s; Some (upcall owner ec, s1)}
        else Some (upcall owner (op_ec s op), s)
      else Some (None, s))"

section \<open>Accepting\<close>

text \<open>
  The members of an accept operation: the listening socket, the peer to assign the new socket to, the
  protocol, the room for the peer's address, and what is set up for cancellation. The holder of the
  new socket is the operation's entry in \<open>new_socket\<close>.
\<close>

record accept_op =
  ao_service :: nat
  ao_socket :: nat
  ao_peer :: nat
  ao_family :: int
  ao_type :: int
  ao_protocol :: int
  ao_capacity :: nat
  ao_enable_aborted :: bool
  ao_proxy :: "nat option"
  ao_cancel :: "(bool \<times> bool) option"

definition release_holder :: "nat \<Rightarrow> sockets \<Rightarrow> sock \<times> sockets" where
  "release_holder op s = (new_socket s op, s\<lparr>new_socket := (new_socket s)(op := invalid_socket)\<rparr>)"

definition reset_op :: "nat \<Rightarrow> nat \<Rightarrow> sockets \<Rightarrow> sockets" where
  "reset_op sv op = on_ctx sv (on_ovl op (\<lambda>_. overlapped_reset))"

text \<open>The accepted socket goes to the peer, unless there was an error.\<close>

definition hand_over :: "nat \<Rightarrow> accept_op \<Rightarrow> error_code \<Rightarrow> sockets \<Rightarrow> (error_code \<times> sockets) option" where
  "hand_over op a ec s =
     (if failed ec then Some (ec, s)
      else case new_socket s op of
        None \<Rightarrow> Some (ec, s)
      | Some h \<Rightarrow>
          do {(ec1, s1) \<leftarrow> do_assign (ao_peer a) (ao_type a) h s;
              Some (ec1, if failed ec1 then s1 else snd (release_holder op s1))})"

text \<open>
  \<open>remote\<close> is the address the system has put into the output
  buffer; the endpoint handed back is empty when none was stored. Destroying the operation closes a socket that
  nobody has taken.
\<close>

datatype accept_outcome = Restarted | Finished "(error_code \<times> bytes) option"

definition accept_complete :: "bool \<Rightarrow> nat \<Rightarrow> accept_op \<Rightarrow> bytes \<Rightarrow> error_code \<Rightarrow> sockets \<Rightarrow> (accept_outcome \<times> sockets) option" where
  "accept_complete owner op a remote result_ec s =
     (if owner then
        do {((addr, ec), s1) \<leftarrow> lift_os (complete_iocp_accept (ao_socket a) remote (Some ([], ao_capacity a))
                                          (new_socket s op) result_ec) s;
            if ec = make_basic connection_aborted \<and> \<not> ao_enable_aborted a
            then
              do {let s2 = reset_op (ao_service a) op s1;
                  let s3 = (case ao_proxy a of None \<Rightarrow> s2 | Some p \<Rightarrow> reset_op (ao_service a) p s2);
                  s4 \<leftarrow> restart_accept_op (ao_service a) (ao_socket a) op (ao_family a) (ao_type a) (ao_protocol a)
                          (ao_cancel a) (case ao_proxy a of None \<Rightarrow> op | Some p \<Rightarrow> p) s3;
                  Some (Restarted, s4)}
            else
              do {(ec1, s2) \<leftarrow> hand_over op a ec s1;
                  s3 \<leftarrow> reset_holder op invalid_socket s2;
                  Some (Finished (upcall owner (ec1, case addr of None \<Rightarrow> [] | Some (x, _) \<Rightarrow> x)), s3)}}
      else do {s1 \<leftarrow> reset_holder op invalid_socket s; Some (Finished None, s1)})"

section \<open>Initiating functions of the service\<close>

text \<open>
  What \<^verbatim>\<open>win_iocp_socket_service_base.hpp\<close> puts into an operation before it starts it: the flags of the
  socket and its cancellation token at that time. \<open>op\<close> is the operation the system is given.
\<close>

definition make_transfer :: "nat \<Rightarrow> bool \<Rightarrow> sockets \<Rightarrow> transfer_op" where
  "make_transfer i all_empty s =
     \<lparr>op_state = im_state (impls s i), op_token = im_token (impls s i), op_all_empty = all_empty\<rparr>"

definition async_send :: "nat \<Rightarrow> nat \<Rightarrow> bool \<Rightarrow> nat \<Rightarrow> sockets \<Rightarrow> (transfer_op \<times> sockets) option" where
  "async_send sv i all_empty op s =
     do {t \<leftarrow> start_send_op sv i (im_state (impls s i) AND stream_oriented \<noteq> 0 \<and> all_empty) op s;
         Some (make_transfer i all_empty s, t)}"

definition async_receive :: "nat \<Rightarrow> nat \<Rightarrow> bool \<Rightarrow> nat \<Rightarrow> sockets \<Rightarrow> (transfer_op \<times> sockets) option" where
  "async_receive sv i all_empty op s =
     do {t \<leftarrow> start_receive_op sv i (im_state (impls s i) AND stream_oriented \<noteq> 0 \<and> all_empty) op s;
         Some (make_transfer i all_empty s, t)}"

definition async_receive_with_flags :: "nat \<Rightarrow> nat \<Rightarrow> bool \<Rightarrow> nat \<Rightarrow> sockets \<Rightarrow> (transfer_op \<times> sockets) option" where
  "async_receive_with_flags sv i all_empty op s =
     do {t \<leftarrow> start_receive_op sv i False op s; Some (make_transfer i all_empty s, t)}"

text \<open>
  Waiting for readiness. The result tells the operation's members and, when a cancellation slot is
  connected, which queue of the reactor the cancellation will search, or that it uses the handle.
\<close>

datatype wait_type = wait_read | wait_write | wait_error | wait_other int

definition cancellation_queue :: "bool \<Rightarrow> int \<Rightarrow> int option" where
  "cancellation_queue slot_connected op_type = (if slot_connected \<and> op_type \<noteq> - 1 then Some op_type else None)"

definition async_wait :: "nat \<Rightarrow> nat \<Rightarrow> wait_type \<Rightarrow> bool \<Rightarrow> nat \<Rightarrow> nat \<Rightarrow> sockets \<Rightarrow> ((transfer_op \<times> int option) \<times> sockets) option" where
  "async_wait sv i wt slot_connected op iocp_op s =
     do {(op_type, t) \<leftarrow>
           (case wt of
              wait_read \<Rightarrow> start_null_buffers_receive_op sv i False iocp_op op s
            | wait_write \<Rightarrow> Some (reactor_write_op, start_reactor_op sv i reactor_write_op op s)
            | wait_error \<Rightarrow> Some (reactor_read_op, start_reactor_op sv i reactor_except_op op s)
            | wait_other _ \<Rightarrow> Some (- 1, on_ctx sv (post_immediate_completion op)
                                   (s\<lparr>op_ec := (op_ec s)(op := make_basic invalid_argument)\<rparr>)));
         Some ((make_transfer i False s, cancellation_queue slot_connected op_type), t)}"

text \<open>\<open>reactor_op_cancellation::operator()\<close>, called when the cancellation signal is emitted; \<open>key\<close> is
  the cancellation object itself.\<close>

definition emit_cancellation :: "nat \<Rightarrow> nat \<Rightarrow> int option \<Rightarrow> nat \<Rightarrow> bool \<Rightarrow> sockets \<Rightarrow> sockets option" where
  "emit_cancellation sv h queue key terminal_partial_or_total s =
     (if terminal_partial_or_total then
        case queue of
          Some op_type \<Rightarrow> Some (log_reactor sv (R_cancel_by_key (Some h) op_type key) s)
        | None \<Rightarrow> do {(_, t) \<leftarrow> os (Sys_CancelIoEx h) s; Some t}
      else Some s)"

end
