(* ===== verification/Linked_List.thy ===== *)
theory Linked_List
  imports Main
begin

text \<open>
  Doubly linked lists with null ends, as asio keeps them inside its objects: the list of socket
  implementations of a service and the list of active timers of a timer queue. A heap is seen through
  its two link functions.
\<close>

section \<open>Segments\<close>

text \<open>\<open>seg nx pv a p xs b q\<close>: from pointer \<open>p\<close>, whose predecessor is \<open>a\<close>, the objects \<open>xs\<close> lead to
  the pointer \<open>q\<close>, whose predecessor is \<open>b\<close>.\<close>

fun seg :: "(nat \<Rightarrow> nat option) \<Rightarrow> (nat \<Rightarrow> nat option) \<Rightarrow> nat option \<Rightarrow> nat option \<Rightarrow> nat list \<Rightarrow> nat option \<Rightarrow> nat option \<Rightarrow> bool" where
  "seg nx pv a p [] b q \<longleftrightarrow> a = b \<and> p = q"
| "seg nx pv a p (x # xs) b q \<longleftrightarrow> p = Some x \<and> pv x = a \<and> seg nx pv (Some x) (nx x) xs b q"

definition dll :: "(nat \<Rightarrow> nat option) \<Rightarrow> (nat \<Rightarrow> nat option) \<Rightarrow> nat option \<Rightarrow> nat list \<Rightarrow> bool" where
  "dll nx pv head xs \<longleftrightarrow> distinct xs \<and> (\<exists>b. seg nx pv None head xs b None)"

lemma seg_cong:
  "(\<And>x. x \<in> set xs \<Longrightarrow> nx' x = nx x \<and> pv' x = pv x) \<Longrightarrow> seg nx' pv' a p xs b q \<longleftrightarrow> seg nx pv a p xs b q"
  by (induction xs arbitrary: a p) auto

lemma seg_transfer:
  "seg nx pv a p xs b q \<Longrightarrow> \<forall>x \<in> set xs. nx' x = nx x \<and> pv' x = pv x \<Longrightarrow> seg nx' pv' a p xs b q"
  using seg_cong [of xs nx' nx pv' pv] by simp

lemma seg_append: "seg nx pv a p (xs @ ys) b q \<longleftrightarrow> (\<exists>c r. seg nx pv a p xs c r \<and> seg nx pv c r ys b q)"
  by (induction xs arbitrary: a p) auto

lemma seg_last: "seg nx pv a p (xs @ [x]) b q \<Longrightarrow> b = Some x \<and> nx x = q"
  by (auto simp: seg_append)

lemma seg_end_in: "seg nx pv a p xs b q \<Longrightarrow> set_option b \<subseteq> set_option a \<union> set xs"
  by (induction xs arbitrary: a p) force+

lemma seg_end: "seg nx pv None p xs b q \<Longrightarrow> set_option b \<subseteq> set xs"
  using seg_end_in by fastforce

lemma seg_begin: "seg nx pv a p xs b None \<Longrightarrow> set_option p \<subseteq> set xs"
  by (cases xs) auto

lemma dll_cong:
  assumes "\<And>x. x \<in> set xs \<Longrightarrow> nx' x = nx x \<and> pv' x = pv x"
  shows "dll nx' pv' p xs \<longleftrightarrow> dll nx pv p xs"
  using seg_cong [OF assms] by (simp add: dll_def)

lemma dll_Nil [simp]: "dll nx pv p [] \<longleftrightarrow> p = None"
  by (auto simp: dll_def)

lemma dll_distinct: "dll nx pv p xs \<Longrightarrow> distinct xs"
  by (simp add: dll_def)

lemma dll_head: "dll nx pv p (x # xs) \<Longrightarrow> p = Some x \<and> pv x = None"
  by (auto simp: dll_def)

lemma dll_head_in: "dll nx pv (Some x) xs \<Longrightarrow> x \<in> set xs"
  by (cases xs) (auto simp: dll_def)

section \<open>Insertion at the front\<close>

lemma dll_insert:
  assumes "dll nx pv p xs" and "i \<notin> set xs" and "nx' i = p" and "pv' i = None"
    and "\<And>x. x \<in> set xs \<Longrightarrow> nx' x = nx x \<and> pv' x = (if p = Some x then Some i else pv x)"
  shows "dll nx' pv' (Some i) (i # xs)"
proof (cases xs)
  case Nil
  then show ?thesis using assms by (auto simp: dll_def)
next
  case (Cons y ys)
  with assms(1) obtain b where "p = Some y" "y \<notin> set ys" and ys: "seg nx pv (Some y) (nx y) ys b None"
    by (auto simp: dll_def)
  then have "seg nx' pv' (Some y) (nx y) ys b None"
    using assms(5) by (intro seg_transfer [OF ys]) (auto simp: Cons)
  moreover have "nx' y = nx y" "pv' y = Some i" using assms(5) [of y] \<open>p = Some y\<close> by (simp_all add: Cons)
  ultimately show ?thesis using assms(1-4) \<open>p = Some y\<close> by (auto simp: dll_def Cons)
qed

section \<open>Removal\<close>

text \<open>Splitting a list at one of its objects.\<close>

lemma dll_split:
  assumes "dll nx pv p xs" and "i \<in> set xs"
  obtains as bs b where "xs = as @ i # bs" and "i \<notin> set as" and "i \<notin> set bs" and "set as \<inter> set bs = {}"
    and "distinct as" and "distinct bs" and "seg nx pv None p as (pv i) (Some i)"
    and "seg nx pv (Some i) (nx i) bs b None"
proof -
  obtain as bs where xs: "xs = as @ i # bs" using assms(2) by (meson split_list)
  with assms(1) obtain b where "seg nx pv None p as (pv i) (Some i)" "seg nx pv (Some i) (nx i) bs b None"
    by (auto simp: dll_def seg_append)
  moreover have "distinct (as @ i # bs)" using assms(1) by (simp add: dll_def xs)
  then have "i \<notin> set as" "i \<notin> set bs" "set as \<inter> set bs = {}" "distinct as" "distinct bs" by auto
  ultimately show ?thesis by (intro that [OF xs])
qed

lemma dll_neighbours:
  assumes "dll nx pv p xs" and "i \<in> set xs"
  shows "set_option (pv i) \<union> set_option (nx i) \<subseteq> set xs - {i}"
proof -
  obtain as bs b where split: "xs = as @ i # bs" "i \<notin> set as" "i \<notin> set bs" "set as \<inter> set bs = {}"
    "distinct as" "distinct bs" and as: "seg nx pv None p as (pv i) (Some i)"
    and bs: "seg nx pv (Some i) (nx i) bs b None" by (rule dll_split [OF assms])
  have "set_option (pv i) \<subseteq> set as" by (rule seg_end [OF as])
  moreover have "set_option (nx i) \<subseteq> set bs" by (rule seg_begin [OF bs])
  ultimately show ?thesis using split by auto
qed

text \<open>Only the head of a list has no predecessor.\<close>

lemma dll_no_prev:
  assumes "dll nx pv p xs" and "i \<in> set xs" and "pv i = None"
  shows "p = Some i"
proof -
  obtain as bs b where "xs = as @ i # bs" "i \<notin> set as" "i \<notin> set bs" "set as \<inter> set bs = {}"
    "distinct as" "distinct bs" "seg nx pv None p as (pv i) (Some i)" "seg nx pv (Some i) (nx i) bs b None"
    by (rule dll_split [OF assms(1,2)])
  then have as: "seg nx pv None p as None (Some i)" using assms(3) by simp
  show ?thesis using as seg_last by (cases as rule: rev_cases) fastforce+
qed

text \<open>Before the removed object its predecessor points behind it, behind it its successor before it.\<close>

lemma seg_skip_left:
  assumes "seg nx pv None p xs c (Some i)" and "distinct xs"
    and "\<And>x. x \<in> set xs \<Longrightarrow> nx' x = (if c = Some x then n else nx x) \<and> pv' x = pv x"
  shows "seg nx' pv' None (if xs = [] then n else p) xs c n"
proof (cases xs rule: rev_cases)
  case Nil
  then show ?thesis using assms(1) by simp
next
  case (snoc ys y)
  with assms(1) obtain c' where c: "c = Some y" "pv y = c'" and ys: "seg nx pv None p ys c' (Some y)"
    by (auto simp: seg_append)
  have "seg nx' pv' None p ys c' (Some y)"
    using assms(2,3) c(1) by (intro seg_transfer [OF ys]) (auto simp: snoc)
  moreover have "nx' y = n" "pv' y = c'" using assms(3) [of y] c by (simp_all add: snoc)
  ultimately show ?thesis using c by (auto simp: snoc seg_append)
qed

lemma seg_skip_right:
  assumes "seg nx pv (Some i) n xs b None" and "distinct xs"
    and "\<And>x. x \<in> set xs \<Longrightarrow> nx' x = nx x \<and> pv' x = (if n = Some x then c else pv x)"
  shows "\<exists>b'. seg nx' pv' c n xs b' None"
proof (cases xs)
  case Nil
  then show ?thesis using assms(1) by simp
next
  case (Cons y ys)
  with assms(1) have n: "n = Some y" and ys: "seg nx pv (Some y) (nx y) ys b None" by auto
  have "seg nx' pv' (Some y) (nx y) ys b None"
    using assms(2,3) n by (intro seg_transfer [OF ys]) (auto simp: Cons)
  moreover have "nx' y = nx y" "pv' y = c" using assms(3) [of y] n by (simp_all add: Cons)
  ultimately show ?thesis by (auto simp: Cons n)
qed

lemma dll_remove:
  assumes "dll nx pv p xs" and "i \<in> set xs"
    and "\<And>x. x \<in> set xs \<Longrightarrow> x \<noteq> i \<Longrightarrow>
      nx' x = (if pv i = Some x then nx i else nx x) \<and> pv' x = (if nx i = Some x then pv i else pv x)"
    and "p' = (if p = Some i then nx i else p)"
  shows "dll nx' pv' p' (remove1 i xs)"
proof -
  obtain as bs b where xs: "xs = as @ i # bs" and d: "i \<notin> set as" "i \<notin> set bs" "set as \<inter> set bs = {}" "distinct as" "distinct bs"
    and as: "seg nx pv None p as (pv i) (Some i)" and bs: "seg nx pv (Some i) (nx i) bs b None"
    by (rule dll_split [OF assms(1,2)])
  have pv_as: "set_option (pv i) \<subseteq> set as" by (rule seg_end [OF as])
  have nx_bs: "set_option (nx i) \<subseteq> set bs" by (rule seg_begin [OF bs])
  have "nx' x = (if pv i = Some x then nx i else nx x) \<and> pv' x = pv x" if "x \<in> set as" for x
  proof -
    from that d have "x \<in> set xs" "x \<noteq> i" by (auto simp: xs)
    from assms(3) [OF this] show ?thesis using that nx_bs d by auto
  qed
  from seg_skip_left [OF as d(4) this] have "seg nx' pv' None (if as = [] then nx i else p) as (pv i) (nx i)" .
  moreover have "nx' x = nx x \<and> pv' x = (if nx i = Some x then pv i else pv x)" if "x \<in> set bs" for x
  proof -
    from that d have "x \<in> set xs" "x \<noteq> i" by (auto simp: xs)
    from assms(3) [OF this] show ?thesis using that pv_as d by auto
  qed
  from seg_skip_right [OF bs d(5) this] obtain b' where "seg nx' pv' (pv i) (nx i) bs b' None" by blast
  moreover have "p' = (if as = [] then nx i else p)"
    using as d assms(4) by (cases as) auto
  ultimately have "seg nx' pv' None p' (as @ bs) b' None" unfolding seg_append by blast
  moreover have "remove1 i xs = as @ bs" using d by (simp add: xs remove1_append)
  ultimately show ?thesis using d by (auto simp: dll_def)
qed

section \<open>Replacement\<close>

text \<open>Another object takes the place of a listed one.\<close>

lemma dll_replace:
  assumes "dll nx pv p xs" and "j \<notin> set xs" and "i \<in> set xs"
    and "\<And>x. x \<in> set xs \<Longrightarrow> x \<noteq> i \<Longrightarrow>
      nx' x = (if pv i = Some x then Some j else nx x) \<and> pv' x = (if nx i = Some x then Some j else pv x)"
    and "nx' j = nx i" and "pv' j = pv i" and "p' = (if p = Some i then Some j else p)"
  shows "dll nx' pv' p' (map (\<lambda>x. if x = i then j else x) xs)"
proof -
  obtain as bs b where xs: "xs = as @ i # bs" and d: "i \<notin> set as" "i \<notin> set bs" "set as \<inter> set bs = {}" "distinct as" "distinct bs"
    and as: "seg nx pv None p as (pv i) (Some i)" and bs: "seg nx pv (Some i) (nx i) bs b None"
    by (rule dll_split [OF assms(1,3)])
  have pv_as: "set_option (pv i) \<subseteq> set as" by (rule seg_end [OF as])
  have nx_bs: "set_option (nx i) \<subseteq> set bs" by (rule seg_begin [OF bs])
  have "nx' x = (if pv i = Some x then Some j else nx x) \<and> pv' x = pv x" if "x \<in> set as" for x
  proof -
    from that d have "x \<in> set xs" "x \<noteq> i" by (auto simp: xs)
    from assms(4) [OF this] show ?thesis using that nx_bs d by auto
  qed
  from seg_skip_left [OF as d(4) this] have "seg nx' pv' None (if as = [] then Some j else p) as (pv i) (Some j)" .
  moreover have "nx' x = nx x \<and> pv' x = (if nx i = Some x then Some j else pv x)" if "x \<in> set bs" for x
  proof -
    from that d have "x \<in> set xs" "x \<noteq> i" by (auto simp: xs)
    from assms(4) [OF this] show ?thesis using that pv_as d by auto
  qed
  from seg_skip_right [OF bs d(5) this] obtain b' where "seg nx' pv' (Some j) (nx i) bs b' None" by blast
  moreover have "p' = (if as = [] then Some j else p)" using as d assms(7) by (cases as) auto
  ultimately have "seg nx' pv' None p' (as @ j # bs) b' None" using assms(5,6) by (auto simp: seg_append)
  moreover have "map (\<lambda>x. if x = i then j else x) xs = as @ j # bs"
    using d by (auto simp: xs intro!: map_idI)
  ultimately show ?thesis using d assms(2) by (auto simp: dll_def xs)
qed

end
