(* ===== verification/Asio_Socket_Facts.thy ===== *)
theory Asio_Socket_Facts
  imports Asio_Socket Asio_Iocp_Facts Linked_List
begin

unbundle bit_operations_syntax

text \<open>
  Facts about the socket service: its linked list holds exactly the living implementations, every
  start of an overlapped operation leads to one completion, and an operation that was pending when its
  socket was closed is reported as aborted.
\<close>

section \<open>What the operations leave alone\<close>

lemma on_impl_simps [simp]:
  "impls (on_impl i f s) = (impls s)(i := f (impls s i))" "services (on_impl i f s) = services s"
  "net (on_impl i f s) = net s" "next_token (on_impl i f s) = next_token s" "new_socket (on_impl i f s) = new_socket s"
  "op_ec (on_impl i f s) = op_ec s" "op_connect_ex (on_impl i f s) = op_connect_ex s"
  by (simp_all add: on_impl_def)

lemma on_service_simps [simp]:
  "impls (on_service sv f s) = impls s" "services (on_service sv f s) = (services s)(sv := f (services s sv))"
  "net (on_service sv f s) = net s" "next_token (on_service sv f s) = next_token s"
  "new_socket (on_service sv f s) = new_socket s" "op_ec (on_service sv f s) = op_ec s"
  by (simp_all add: on_service_def)

lemma log_reactor_simps [simp]:
  "impls (log_reactor sv c s) = impls s" "net (log_reactor sv c s) = net s"
  "next_token (log_reactor sv c s) = next_token s"
  "impl_list (services (log_reactor sv c s) v) = impl_list (services s v)"
  "ctx (services (log_reactor sv c s) v) = ctx (services s v)"
  by (simp_all add: log_reactor_def)

lemma on_ctx_simps [simp]:
  "impls (on_ctx sv f s) = impls s" "net (on_ctx sv f s) = net s" "new_socket (on_ctx sv f s) = new_socket s"
  "next_token (on_ctx sv f s) = next_token s"
  "ctx (services (on_ctx sv f s) sv) = f (ctx (services s sv))"
  "v \<noteq> sv \<Longrightarrow> services (on_ctx sv f s) v = services s v"
  "impl_list (services (on_ctx sv f s) v) = impl_list (services s v)"
  by (simp_all add: on_ctx_def)

lemma os_same:
  assumes "os c s = Some (r, t)"
  shows "impls t = impls s \<and> services t = services s \<and> next_token t = next_token s \<and> new_socket t = new_socket s"
  using assms by (auto simp: os_def bind_eq_Some_conv)

lemma lift_os_same:
  assumes "lift_os f s = Some (x, t)"
  shows "impls t = impls s \<and> services t = services s \<and> next_token t = next_token s \<and> new_socket t = new_socket s"
  using assms by (auto simp: lift_os_def bind_eq_Some_conv)

section \<open>The list of implementations\<close>

abbreviation next_of :: "sockets \<Rightarrow> nat \<Rightarrow> nat option" where "next_of s i \<equiv> im_next (impls s i)"
abbreviation prev_of :: "sockets \<Rightarrow> nat \<Rightarrow> nat option" where "prev_of s i \<equiv> im_prev (impls s i)"

definition list_repr :: "sockets \<Rightarrow> nat \<Rightarrow> nat list \<Rightarrow> bool" where
  "list_repr s sv xs \<longleftrightarrow> dll (next_of s) (prev_of s) (impl_list (services s sv)) xs"

lemma list_repr_cong:
  assumes "\<And>x. x \<in> set xs \<Longrightarrow> next_of t x = next_of s x \<and> prev_of t x = prev_of s x"
    and "impl_list (services t sv) = impl_list (services s sv)"
  shows "list_repr t sv xs \<longleftrightarrow> list_repr s sv xs"
  unfolding list_repr_def assms(2) using assms(1) by (rule dll_cong)

lemma insert_impl_effect:
  "next_of (insert_impl sv i s) x = (if x = i then impl_list (services s sv) else next_of s x)"
  "impl_list (services s sv) \<noteq> Some i \<Longrightarrow> prev_of (insert_impl sv i s) x =
    (if x = i then None else if impl_list (services s sv) = Some x then Some i else prev_of s x)"
  "impl_list (services (insert_impl sv i s) v) = (if v = sv then Some i else impl_list (services s v))"
  by (auto simp: insert_impl_def Let_def split: option.splits)

lemma list_head_listed: "list_repr s sv xs \<Longrightarrow> i \<notin> set xs \<Longrightarrow> impl_list (services s sv) \<noteq> Some i"
  by (auto simp: list_repr_def dest: dll_head_in)

lemma insert_impl_repr:
  assumes "list_repr s sv xs" and "i \<notin> set xs"
  shows "list_repr (insert_impl sv i s) sv (i # xs)"
proof -
  note effect = insert_impl_effect list_head_listed [OF assms]
  have "dll (next_of s) (prev_of s) (impl_list (services s sv)) xs" using assms(1) by (simp add: list_repr_def)
  then have "dll (next_of (insert_impl sv i s)) (prev_of (insert_impl sv i s)) (Some i) (i # xs)"
    by (rule dll_insert) (use assms(2) in \<open>auto simp: effect\<close>)
  then show ?thesis by (simp add: list_repr_def insert_impl_effect(3))
qed

text \<open>The links after a removal, in one step.\<close>

lemma remove_impl_effect:
  assumes "prev_of s i \<noteq> Some i" and "next_of s i \<noteq> Some i"
  shows "next_of (remove_impl sv i s) x =
      (if x = i then None else if prev_of s i = Some x then next_of s i else next_of s x)"
    and "prev_of (remove_impl sv i s) x =
      (if x = i then None else if next_of s i = Some x then prev_of s i else prev_of s x)"
    and "impl_list (services (remove_impl sv i s) v) =
      (if v = sv \<and> impl_list (services s sv) = Some i then next_of s i else impl_list (services s v))"
  using assms
  by (cases "prev_of s i"; cases "next_of s i"; auto simp: remove_impl_def Let_def)+

text \<open>The neighbours of a listed implementation are listed too.\<close>

lemma neighbours_listed:
  assumes "list_repr s sv xs" and "i \<in> set xs"
  shows "set_option (prev_of s i) \<union> set_option (next_of s i) \<subseteq> set xs - {i}"
  using assms unfolding list_repr_def by (rule dll_neighbours)

lemma remove_impl_repr:
  assumes "list_repr s sv xs" and "i \<in> set xs"
  shows "list_repr (remove_impl sv i s) sv (remove1 i xs)"
proof -
  have "prev_of s i \<noteq> Some i" "next_of s i \<noteq> Some i" using neighbours_listed [OF assms] by auto
  note effect = remove_impl_effect [OF this, of sv]
  have "dll (next_of s) (prev_of s) (impl_list (services s sv)) xs" using assms(1) by (simp add: list_repr_def)
  then have "dll (next_of (remove_impl sv i s)) (prev_of (remove_impl sv i s))
      (impl_list (services (remove_impl sv i s) sv)) (remove1 i xs)"
    using assms(2) by (rule dll_remove) (simp_all add: effect)
  then show ?thesis by (simp add: list_repr_def)
qed

section \<open>Closing and moving\<close>

text \<open>What closing keeps: all links, the lists, the other implementations.\<close>

definition close_frame :: "nat \<Rightarrow> sockets \<Rightarrow> sockets \<Rightarrow> bool" where
  "close_frame i s t \<longleftrightarrow>
     (\<forall>x. im_next (impls t x) = im_next (impls s x) \<and> im_prev (impls t x) = im_prev (impls s x)) \<and>
     (\<forall>x. x \<noteq> i \<longrightarrow> impls t x = impls s x) \<and>
     (\<forall>v. impl_list (services t v) = impl_list (services s v) \<and> ctx (services t v) = ctx (services s v)) \<and>
     next_token t = next_token s"

lemma close_with_frame: "close_with sv i d ec s = Some (ec', t) \<Longrightarrow> close_frame i s t"
  by (auto simp: close_with_def close_frame_def bind_eq_Some_conv Let_def dest!: lift_os_same split: if_splits)

lemma clear_impl_frame: "close_frame i s t \<Longrightarrow> close_frame i s (clear_impl i t)"
  by (auto simp: close_frame_def clear_impl_def)

lemma clear_impl_simps [simp]:
  "im_socket (impls (clear_impl i s) i) = invalid_socket" "im_token (impls (clear_impl i s) i) = None"
  "im_state (impls (clear_impl i s) i) = 0"
  by (simp_all add: clear_impl_def)

lemma close_frame_refl [simp]: "close_frame i s s"
  by (simp add: close_frame_def)

lemma close_impl_frame:
  assumes "close_impl sv i ec s = Some (ec', t)"
  shows "close_frame i s t \<and> \<not> is_open i t \<and> im_token (impls t i) = None"
  using assms
  by (auto simp: close_impl_def bind_eq_Some_conv is_open_def split: if_splits
      intro: clear_impl_frame close_with_frame)

lemma close_for_destruction_frame:
  assumes "close_for_destruction sv i s = Some t"
  shows "close_frame i s t \<and> \<not> is_open i t \<and> im_token (impls t i) = None"
  using assms
  by (auto simp: close_for_destruction_def bind_eq_Some_conv is_open_def split: if_splits
      intro: clear_impl_frame close_with_frame)

lemma close_frame_repr: "close_frame i s t \<Longrightarrow> list_repr t v xs \<longleftrightarrow> list_repr s v xs"
  by (rule list_repr_cong) (auto simp: close_frame_def)

lemma close_for_destruction_repr:
  "close_for_destruction sv i s = Some t \<Longrightarrow> list_repr t v xs \<longleftrightarrow> list_repr s v xs"
  using close_for_destruction_frame close_frame_repr by blast

lemma clear_impl_repr: "list_repr (clear_impl i s) v xs \<longleftrightarrow> list_repr s v xs"
  by (rule close_frame_repr [of i]) (simp add: clear_impl_frame)

text \<open>Taking over handle, flags and token.\<close>

lemma take_over_simps:
  assumes "i \<noteq> other"
  shows "impls (take_over i other s) x =
      (if x = i then (impls s i)\<lparr>im_socket := im_socket (impls s other), im_state := im_state (impls s other),
                                 im_token := im_token (impls s other)\<rparr>
       else if x = other then (impls s other)\<lparr>im_socket := invalid_socket, im_state := 0, im_token := None\<rparr>
       else impls s x)"
    and "services (take_over i other s) = services s" "next_token (take_over i other s) = next_token s"
  using assms by (auto simp: take_over_def Let_def)

lemma take_over_repr:
  "i \<noteq> other \<Longrightarrow> list_repr (take_over i other s) v xs \<longleftrightarrow> list_repr s v xs"
  by (rule list_repr_cong) (auto simp: take_over_simps)

text \<open>A change of one service's list keeps the others.\<close>

lemma insert_impl_other:
  assumes "list_repr s v ys" and "v \<noteq> sv" and "i \<notin> set ys" and "list_repr s sv xs" and "i \<notin> set xs" and "set xs \<inter> set ys = {}"
  shows "list_repr (insert_impl sv i s) v ys"
proof -
  note effect = insert_impl_effect list_head_listed [OF assms(4,5)]
  have "impl_list (services s sv) \<noteq> Some x" if "x \<in> set ys" for x
    using that assms(6) list_head_listed [OF assms(4), of x] by auto
  then have "list_repr (insert_impl sv i s) v ys \<longleftrightarrow> list_repr s v ys"
    using assms(2,3) by (intro list_repr_cong) (auto simp: effect)
  then show ?thesis using assms(1) by simp
qed

lemma remove_impl_other:
  assumes "list_repr s v ys" and "v \<noteq> sv" and "list_repr s sv xs" and "i \<in> set xs" and "set xs \<inter> set ys = {}"
  shows "list_repr (remove_impl sv i s) v ys"
proof -
  note nb = neighbours_listed [OF assms(3,4)]
  then have "prev_of s i \<noteq> Some i" "next_of s i \<noteq> Some i" by auto
  note effect = remove_impl_effect [OF this, of sv]
  have "list_repr (remove_impl sv i s) v ys \<longleftrightarrow> list_repr s v ys"
    using nb assms(2,4,5) by (intro list_repr_cong) (auto simp: effect)
  then show ?thesis using assms(1) by simp
qed

text \<open>Closing needs four replies of the system at most.\<close>

lemma so_close_returns:
  assumes "4 \<le> length (replies w)"
  shows "\<exists>y w'. so_close h st d ec w = Some (y, w') \<and> length (replies w) \<le> length (replies w') + 4"
proof -
  obtain r1 r2 r3 r4 rs where "replies w = r1 # r2 # r3 # r4 # rs"
    using assms by (auto simp: Suc_le_length_iff numeral_eq_Suc)
  then show ?thesis
    by (auto simp: so_close_def so_setsockopt_def sys_def Let_def SOL_SOCKET_def custom_socket_option_level_def
        split: option.splits)
qed

lemma close_for_destruction_returns:
  assumes "4 \<le> length (replies (net s))"
  shows "\<exists>t. close_for_destruction sv i s = Some t \<and> length (replies (net s)) \<le> length (replies (net t)) + 4"
proof -
  obtain r st ec w where "so_close (im_socket (impls s i)) (im_state (impls s i)) True no_error (net s) = Some ((r, st, ec), w)"
    "length (replies (net s)) \<le> length (replies w) + 4"
    using so_close_returns [OF assms] by (metis prod_cases3)
  then show ?thesis by (auto simp: close_for_destruction_def close_with_def lift_os_def clear_impl_def Let_def)
qed

lemma shutdown_impls_returns:
  assumes "seg (next_of s) (prev_of s) a p xs b None" and "distinct xs" and "4 * length xs \<le> length (replies (net s))"
  shows "\<exists>t. shutdown_impls sv p s = Some t"
  using assms
proof (induction xs arbitrary: s a p)
  case Nil
  then show ?case by (subst shutdown_impls.simps) auto
next
  case (Cons x xs)
  then have p: "p = Some x" and xs: "seg (next_of s) (prev_of s) (Some x) (next_of s x) xs b None" by simp_all
  from Cons.prems(3) obtain s1 where s1: "close_for_destruction sv x s = Some s1"
    and left: "length (replies (net s)) \<le> length (replies (net s1)) + 4"
    using close_for_destruction_returns [of s sv x] by auto
  from close_for_destruction_frame [OF s1] have frame: "close_frame x s s1" by simp
  have "seg (next_of s1) (prev_of s1) (Some x) (next_of s1 x) xs b None"
    using seg_transfer [OF xs] frame by (simp add: close_frame_def)
  from Cons.IH [OF this] Cons.prems(2,3) left show ?case
    by (subst shutdown_impls.simps) (simp add: p s1)
qed

text \<open>Shutting the service down closes every implementation in the list.\<close>

lemma shutdown_impls_closes:
  assumes "seg (next_of s) (prev_of s) a p xs b None" and "distinct xs" and "shutdown_impls sv p s = Some t"
  shows "(\<forall>x \<in> set xs. \<not> is_open x t) \<and> (\<forall>x. x \<notin> set xs \<longrightarrow> impls t x = impls s x) \<and>
    (\<forall>x. im_next (impls t x) = im_next (impls s x) \<and> im_prev (impls t x) = im_prev (impls s x)) \<and>
    (\<forall>v. impl_list (services t v) = impl_list (services s v))"
  using assms
proof (induction xs arbitrary: s a p)
  case Nil
  then show ?case by (subst (asm) shutdown_impls.simps) auto
next
  case (Cons x xs)
  then have p: "p = Some x" and xs: "seg (next_of s) (prev_of s) (Some x) (next_of s x) xs b None" by simp_all
  from Cons.prems(3) p obtain s1 where s1: "close_for_destruction sv x s = Some s1"
    and rest: "shutdown_impls sv (im_next (impls s1 x)) s1 = Some t"
    by (subst (asm) shutdown_impls.simps) (auto simp: bind_eq_Some_conv)
  from close_for_destruction_frame [OF s1] have frame: "close_frame x s s1" and closed: "\<not> is_open x s1" by simp_all
  have "seg (next_of s1) (prev_of s1) (Some x) (next_of s1 x) xs b None"
    using seg_transfer [OF xs] frame by (simp add: close_frame_def)
  from Cons.IH [OF this _ rest] Cons.prems(2) have ih: "\<forall>y \<in> set xs. \<not> is_open y t"
    "\<forall>y. y \<notin> set xs \<longrightarrow> impls t y = impls s1 y" and links:
    "\<forall>y. im_next (impls t y) = im_next (impls s1 y) \<and> im_prev (impls t y) = im_prev (impls s1 y)"
    "\<forall>v. impl_list (services t v) = impl_list (services s1 v)" by auto
  have "\<not> is_open x t" using ih(2) closed Cons.prems(2) by (simp add: is_open_def)
  with ih links frame show ?case by (auto simp: close_frame_def)
qed

section \<open>Every start leads to one completion\<close>

text \<open>
  What a start function may do with its operation: count its work, and either post it, ready with a
  result, or leave it to the system, marked ready so that the packet of the system will complete it
  (or post it at once when that packet has come before).
\<close>

definition started_once :: "nat \<Rightarrow> io_context \<Rightarrow> io_context \<Rightarrow> bool" where
  "started_once op c c' \<longleftrightarrow> outstanding_work c' = outstanding_work c + 1 \<and> ov_ready (ovl c' op) \<and>
     (pending c' = add_mset op (pending c) \<or> pending c' = pending c \<and> \<not> ov_ready (ovl c op))"

lemma enqueue_effect [simp]:
  "outstanding_work (enqueue_or_complete k op c) = outstanding_work c"
  "ovl (enqueue_or_complete k op c) = ovl c"
  by (auto simp: enqueue_or_complete_def pqcs_def split: list.splits)

lemma on_ovl_effect [simp]:
  "outstanding_work (on_ovl op f c) = outstanding_work c" "ovl (on_ovl op f c) = (ovl c)(op := f (ovl c op))"
  by (simp_all add: on_ovl_def)

lemma work_started_effect [simp]:
  "outstanding_work (work_started c) = outstanding_work c + 1" "ovl (work_started c) = ovl c"
  "pending (work_started c) = pending c"
  by (simp_all add: work_started_def pending_def)

lemma on_completion_started: "started_once op c (on_completion op ec n (work_started c))"
  by (simp add: started_once_def on_completion_def)

lemma on_pending_started: "started_once op c (on_pending op (work_started c))"
  by (simp add: started_once_def on_pending_def)

lemma settle_started:
  assumes "ctx (services s sv) = work_started c"
  shows "started_once op c (ctx (services (settle sv op b err n s) sv))"
  using assms by (simp add: settle_def on_completion_error_def on_completion_started on_pending_started)

lemma complete_now_started:
  assumes "ctx (services s sv) = work_started c"
  shows "started_once op c (ctx (services (complete_now sv op err s) sv))"
  using assms by (simp add: complete_now_def on_completion_error_def on_completion_started)

lemmas start_defs =
  start_send_op_def start_send_to_op_def start_receive_op_def start_receive_from_op_def

lemma start_io_started:
  "start_send_op sv i noop op s = Some t \<Longrightarrow> started_once op (ctx (services s sv)) (ctx (services t sv))"
  "start_send_to_op sv i op s = Some t \<Longrightarrow> started_once op (ctx (services s sv)) (ctx (services t sv))"
  "start_receive_op sv i noop op s = Some t \<Longrightarrow> started_once op (ctx (services s sv)) (ctx (services t sv))"
  "start_receive_from_op sv i op s = Some t \<Longrightarrow> started_once op (ctx (services s sv)) (ctx (services t sv))"
  by (auto simp: start_defs Let_def bind_eq_Some_conv split: if_splits option.splits
      intro!: settle_started complete_now_started dest!: os_same)

lemma reset_holder_ctx: "reset_holder op x s = Some t \<Longrightarrow> services t = services s"
  by (auto simp: reset_holder_def bind_eq_Some_conv split: option.splits dest!: lift_os_same)

lemma accept_on_ctx:
  assumes "accept_on sv h holder family type protocol op f s = Some t"
    and "\<And>a b. f a = Some b \<Longrightarrow> services b = services a"
  shows "(\<exists>ec. ctx (services t sv) = on_completion op ec 0 (ctx (services s sv))) \<or>
    ctx (services t sv) = on_pending op (ctx (services s sv))"
proof -
  have refl: "\<exists>ec. on_completion op e 0 c = on_completion op ec 0 c" for e c by blast
  show ?thesis using assms(1)
    by (auto simp: accept_on_def bind_eq_Some_conv complete_now_def on_completion_error_def refl
        split: option.splits if_splits dest!: os_same lift_os_same reset_holder_ctx assms(2))
qed

lemma start_accept_started:
  assumes "start_accept_op sv i peer holder family type protocol op s = Some t"
  shows "started_once op (ctx (services s sv)) (ctx (services t sv))"
proof (cases "im_socket (impls s i) = None \<or> peer")
  case True
  then show ?thesis using assms
    by (auto simp: start_accept_op_def Let_def intro!: complete_now_started split: option.splits)
next
  case False
  then obtain h where "accept_on sv h holder family type protocol op Some (on_ctx sv work_started s) = Some t"
    using assms by (auto simp: start_accept_op_def Let_def split: option.splits)
  from accept_on_ctx [OF this] show ?thesis
    using on_completion_started on_pending_started by fastforce
qed

text \<open>A restarted accept whose cancellation was requested is posted before it is started.\<close>

lemma restart_cancelled_twice:
  assumes "restart_accept_op sv h holder family type protocol (Some (True, b)) op s = Some t"
  shows "pending (ctx (services t sv)) = add_mset op (add_mset op (pending (ctx (services s sv)))) \<and>
    outstanding_work (ctx (services t sv)) = outstanding_work (ctx (services s sv)) + 1"
proof -
  let ?f = "\<lambda>t. case Some (True, b) of Some (_, True) \<Rightarrow> do {(_, t1) \<leftarrow> os (Sys_CancelIoEx h) t; Some t1} | _ \<Rightarrow> Some t"
  from assms obtain s1 where s1: "reset_holder holder invalid_socket s = Some s1"
    and acc: "accept_on sv h holder family type protocol op ?f
      (complete_now sv op (basic_error_value operation_aborted) (on_ctx sv work_started s1)) = Some t"
    by (auto simp: restart_accept_op_def bind_eq_Some_conv)
  let ?c = "on_completion op (system_ec (basic_error_value operation_aborted)) 0 (work_started (ctx (services s sv)))"
  have same: "services y = services x" if "?f x = Some y" for x y
    using that by (auto simp: bind_eq_Some_conv split: bool.splits dest!: os_same)
  have "(\<exists>ec. ctx (services t sv) = on_completion op ec 0 ?c) \<or> ctx (services t sv) = on_pending op ?c"
    using accept_on_ctx [OF acc same] reset_holder_ctx [OF s1]
    by (simp add: complete_now_def on_completion_error_def)
  then show ?thesis by (auto simp: on_completion_def on_pending_def)
qed

lemma restart_uncancelled_started:
  assumes "restart_accept_op sv h holder family type protocol None op s = Some t"
  shows "started_once op (ctx (services s sv)) (ctx (services t sv))"
proof -
  from assms obtain s1 where s1: "reset_holder holder invalid_socket s = Some s1"
    and acc: "accept_on sv h holder family type protocol op Some (on_ctx sv work_started s1) = Some t"
    by (auto simp: restart_accept_op_def bind_eq_Some_conv)
  from accept_on_ctx [OF acc] reset_holder_ctx [OF s1] show ?thesis
    using on_completion_started on_pending_started by fastforce
qed

section \<open>Closed sockets and cancellation tokens\<close>

text \<open>An operation started on a closed socket fails with \<open>bad_descriptor\<close> and without a call of the
  system.\<close>

lemma start_on_closed:
  assumes "\<not> is_open i s"
  shows "start_send_op sv i False op s = Some (complete_now sv op (basic_error_value bad_descriptor) (on_ctx sv work_started s))"
    "start_receive_op sv i False op s = Some (complete_now sv op (basic_error_value bad_descriptor) (on_ctx sv work_started s))"
    "start_send_to_op sv i op s = Some (complete_now sv op (basic_error_value bad_descriptor) (on_ctx sv work_started s))"
    "start_receive_from_op sv i op s = Some (complete_now sv op (basic_error_value bad_descriptor) (on_ctx sv work_started s))"
    "start_accept_op sv i peer holder family type protocol op s =
       Some (complete_now sv op (basic_error_value bad_descriptor) (on_ctx sv work_started s))"
  using assms
  by (simp_all add: start_defs start_accept_op_def Let_def is_open_def invalid_socket_def)

text \<open>An accept into a peer that is already open reports the number of \<open>already_open\<close> as a system error,
  which is not the error code of that name.\<close>

lemma already_open_is_misreported:
  assumes "is_open i s"
  shows "\<exists>t. start_accept_op sv i True holder family type protocol op s = Some t \<and> net t = net s \<and>
    ov_ec (ovl (ctx (services t sv)) op) = system_ec 1 \<and> system_ec 1 \<noteq> make_misc already_open"
  using assms
  by (auto simp: start_accept_op_def is_open_def invalid_socket_def Let_def complete_now_def on_completion_error_def
      on_completion_def system_ec_def make_misc_def split: option.split)

text \<open>No two implementations share a token, and no token is used again.\<close>

definition tokens_ok :: "sockets \<Rightarrow> bool" where
  "tokens_ok s \<longleftrightarrow> (\<forall>i t. im_token (impls s i) = Some t \<longrightarrow> t < next_token s \<and>
     (\<forall>j. im_token (impls s j) = Some t \<longrightarrow> j = i))"

lemma tokens_ok_close: "close_frame i s t \<Longrightarrow> im_token (impls t i) = None \<Longrightarrow> tokens_ok s \<Longrightarrow> tokens_ok t"
  unfolding tokens_ok_def close_frame_def by (metis option.distinct(1))

lemma tokens_ok_adopt: "tokens_ok s \<Longrightarrow> tokens_ok (adopt i h type s)"
  by (fastforce simp: tokens_ok_def adopt_def less_Suc_eq)

lemma tokens_ok_same:
  "(\<And>i. im_token (impls t i) = im_token (impls s i)) \<Longrightarrow> next_token t = next_token s \<Longrightarrow> tokens_ok t \<longleftrightarrow> tokens_ok s"
  by (simp add: tokens_ok_def)

lemma close_expires_token:
  assumes "tokens_ok s" and "im_token (impls s i) = Some k" and "close_frame i s t" and "im_token (impls t i) = None"
  shows "token_expired k t"
  using assms unfolding token_expired_def tokens_ok_def close_frame_def by (metis option.distinct(1))

section \<open>The operations on the list\<close>

lemma construct_repr:
  assumes "list_repr s sv xs" and "i \<notin> set xs"
  shows "list_repr (construct sv i s) sv (i # xs)"
  using assms by (simp add: construct_def clear_impl_repr insert_impl_repr)

lemma move_construct_repr:
  assumes "list_repr s sv xs" and "i \<notin> set xs" and "i \<noteq> other"
  shows "list_repr (base_move_construct sv i other s) sv (i # xs)"
  using assms by (simp add: base_move_construct_def take_over_repr insert_impl_repr)

lemma destroy_repr:
  assumes "list_repr s sv xs" and "list_repr s v ys" and "v \<noteq> sv" and "set xs \<inter> set ys = {}"
    and "i \<in> set xs" and "4 \<le> length (replies (net s))"
  obtains t where "destroy sv i s = Some t" and "list_repr t sv (remove1 i xs)" and "list_repr t v ys"
proof -
  from close_for_destruction_returns [OF assms(6)] obtain s1 where s1: "close_for_destruction sv i s = Some s1" by blast
  have "list_repr s1 sv xs" "list_repr s1 v ys"
    using assms(1,2) by (simp_all add: close_for_destruction_repr [OF s1])
  with assms show ?thesis
    by (intro that [of "remove_impl sv i s1"]) (auto simp: destroy_def s1 remove_impl_repr intro: remove_impl_other)
qed

lemma move_assign_repr:
  assumes "list_repr s sv xs" and "list_repr s v ys" and "v \<noteq> sv" and "set xs \<inter> set ys = {}"
    and "i \<in> set xs" and "i \<noteq> other" and "4 \<le> length (replies (net s))"
  obtains t where "base_move_assign sv i v other s = Some t" and "list_repr t sv (remove1 i xs)"
    and "list_repr t v (i # ys)"
proof -
  from close_for_destruction_returns [OF assms(7)] obtain s1 where s1: "close_for_destruction sv i s = Some s1" by blast
  have "list_repr s1 sv xs" "list_repr s1 v ys"
    using assms(1,2) by (simp_all add: close_for_destruction_repr [OF s1])
  then have "list_repr (remove_impl sv i s1) sv (remove1 i xs)" "list_repr (remove_impl sv i s1) v ys"
    using assms by (auto simp: remove_impl_repr intro: remove_impl_other)
  then have s2: "list_repr (take_over i other (remove_impl sv i s1)) sv (remove1 i xs)"
    "list_repr (take_over i other (remove_impl sv i s1)) v ys"
    using assms(6) by (simp_all add: take_over_repr)
  have "i \<notin> set ys" "i \<notin> set (remove1 i xs)" "set ys \<inter> set (remove1 i xs) = {}"
    using assms(1,4,5) set_remove1_subset [of i xs] by (auto simp: list_repr_def dest: dll_distinct)
  with s2 assms(3) show ?thesis
    by (intro that [of "insert_impl v i (take_over i other (remove_impl sv i s1))"])
      (auto simp: base_move_assign_def s1 Let_def insert_impl_repr intro!: insert_impl_other)
qed

lemma base_shutdown_repr:
  assumes "list_repr s sv xs" and "4 * length xs \<le> length (replies (net s))"
  obtains t where "base_shutdown sv s = Some t" and "list_repr t sv xs" and "list_all (\<lambda>i. \<not> is_open i t) xs"
proof -
  from assms(1) obtain b where seg: "seg (next_of s) (prev_of s) None (impl_list (services s sv)) xs b None"
    and "distinct xs"
    by (auto simp: list_repr_def dll_def)
  from shutdown_impls_returns [OF this assms(2)] obtain t where t: "base_shutdown sv s = Some t"
    by (auto simp: base_shutdown_def)
  from shutdown_impls_closes [OF seg \<open>distinct xs\<close>] t have closed: "\<forall>x \<in> set xs. \<not> is_open x t"
    and links: "\<forall>x. im_next (impls t x) = im_next (impls s x) \<and> im_prev (impls t x) = im_prev (impls s x)"
    "impl_list (services t sv) = impl_list (services s sv)"
    by (auto simp: base_shutdown_def)
  from links have "list_repr t sv xs" using list_repr_cong [of xs t s sv] assms(1) by simp
  with t closed show ?thesis by (intro that) (auto simp: list_all_iff)
qed

section \<open>Starting operations\<close>

text \<open>The starts of overlapped operations on one socket as one function.\<close>

datatype start =
    Start_send bool
  | Start_send_to
  | Start_receive bool
  | Start_receive_from
  | Start_accept bool nat int int int

fun run_start :: "nat \<Rightarrow> nat \<Rightarrow> start \<Rightarrow> nat \<Rightarrow> sockets \<Rightarrow> sockets option" where
  "run_start sv i (Start_send noop) op s = start_send_op sv i noop op s"
| "run_start sv i Start_send_to op s = start_send_to_op sv i op s"
| "run_start sv i (Start_receive noop) op s = start_receive_op sv i noop op s"
| "run_start sv i Start_receive_from op s = start_receive_from_op sv i op s"
| "run_start sv i (Start_accept peer_is_open holder family type protocol) op s =
     start_accept_op sv i peer_is_open holder family type protocol op s"

fun start_noop :: "start \<Rightarrow> bool" where
  "start_noop (Start_send noop) = noop"
| "start_noop (Start_receive noop) = noop"
| "start_noop _ = False"

lemma run_start_started:
  "run_start sv i st op s = Some t \<Longrightarrow> started_once op (ctx (services s sv)) (ctx (services t sv))"
  by (cases st) (auto intro: start_io_started start_accept_started)

lemma run_start_closed:
  assumes "\<not> is_open i s" and "\<not> start_noop st"
  shows "run_start sv i st op s = Some (complete_now sv op (basic_error_value bad_descriptor) (on_ctx sv work_started s))"
  using assms start_on_closed [OF assms(1)] by (cases st) auto

text \<open>A reply at most for a transfer, six for an accept.\<close>

lemma os_returns:
  assumes "Suc n \<le> length (replies (net s))"
  obtains r t where "os c s = Some (r, t)" and "n \<le> length (replies (net t))"
  using assms by (cases "replies (net s)") (auto simp: os_def sys_def)

lemma so_socket_returns:
  assumes "Suc (Suc n) \<le> length (replies w)"
  shows "\<exists>h ec w'. so_socket family type protocol ec0 w = Some ((h, ec), w') \<and> n \<le> length (replies w')"
proof -
  obtain r1 r2 rs where "replies w = r1 # r2 # rs" using assms by (auto simp: Suc_le_length_iff)
  with assms show ?thesis
    by (cases "handle_of r1"; cases "family = AF_INET6") (auto simp: so_socket_def sys_def Let_def)
qed

lemma reset_holder_returns:
  assumes "4 + n \<le> length (replies (net s))"
  obtains t where "reset_holder op x s = Some t" and "n \<le> length (replies (net t))"
proof (cases "new_socket s op")
  case None
  with assms show ?thesis by (intro that) (auto simp: reset_holder_def)
next
  case (Some h)
  from assms have "4 \<le> length (replies (net s))" by simp
  from so_close_returns [OF this] obtain y w where "so_close (Some h) 0 True no_error (net s) = Some (y, w)"
    "length (replies (net s)) \<le> length (replies w) + 4" by blast
  with Some assms show ?thesis by (intro that) (auto simp: reset_holder_def lift_os_def)
qed

lemma accept_on_returns:
  assumes "7 + n \<le> length (replies (net s))" and "\<And>t. n \<le> length (replies (net t)) \<Longrightarrow> f t \<noteq> None"
  shows "\<exists>t. accept_on sv h holder family type protocol op f s = Some t"
proof -
  from assms(1) have "Suc (Suc (4 + Suc n)) \<le> length (replies (net s))" by simp
  from so_socket_returns [OF this] obtain x ec w where
    w: "so_socket family type protocol no_error (net s) = Some ((x, ec), w)" "4 + Suc n \<le> length (replies w)" by blast
  then have "4 + Suc n \<le> length (replies (net (s\<lparr>net := w\<rparr>)))" by simp
  from reset_holder_returns [OF this] obtain s2 where
    s2: "reset_holder holder x (s\<lparr>net := w\<rparr>) = Some s2" "Suc n \<le> length (replies (net s2))" .
  show ?thesis
  proof (cases x)
    case None
    with w s2 show ?thesis by (simp add: accept_on_def lift_os_def)
  next
    case (Some m)
    from os_returns [OF s2(2)] obtain r s3 where "os (Sys_AcceptEx h m op) s2 = Some (r, s3)"
      and "n \<le> length (replies (net s3))" .
    with assms(2) [of s3] Some w s2 show ?thesis by (auto simp: accept_on_def lift_os_def)
  qed
qed

lemma run_start_returns:
  assumes "7 \<le> length (replies (net s))"
  shows "\<exists>t. run_start sv i st op s = Some t"
proof (cases st)
  case (Start_accept peer holder family type protocol)
  with accept_on_returns [of 0 "on_ctx sv work_started s" Some] assms show ?thesis
    by (auto simp: start_accept_op_def Let_def split: option.split)
qed (use assms in \<open>auto simp: start_defs os_def sys_def Let_def split: option.split list.split\<close>)

section \<open>Properties\<close>

text \<open>
  C32: The intrusive list of a socket service holds exactly its living sockets, whatever the two
  services of a program have in theirs: constructing and move-constructing put the new socket at the
  front, destroying takes the socket out, a move assignment across services moves it from one list to
  the other, and shutdown keeps the list and closes everything in it. The three that close sockets
  return, given four replies of the system for each socket.
\<close>

theorem service_list_tracks_sockets:
  assumes "list_repr s sv xs" and "list_repr s v ys" and "v \<noteq> sv" and "set xs \<inter> set ys = {}"
    and "new \<notin> set xs" and "new \<noteq> other" and "old \<in> set xs" and "old \<noteq> other"
    and "4 * length xs \<le> length (replies (net s))"
  shows "list_repr (construct sv new s) sv (new # xs) \<and>
    list_repr (base_move_construct sv new other s) sv (new # xs) \<and>
    (\<exists>t. destroy sv old s = Some t \<and> list_repr t sv (remove1 old xs) \<and> list_repr t v ys) \<and>
    (\<exists>t. base_move_assign sv old v other s = Some t \<and> list_repr t sv (remove1 old xs) \<and> list_repr t v (old # ys)) \<and>
    (\<exists>t. base_shutdown sv s = Some t \<and> list_repr t sv xs \<and> list_all (\<lambda>i. \<not> is_open i t) xs)"
proof -
  have "4 \<le> length (replies (net s))" using assms(7,9) by (cases xs) auto
  note four = this
  show ?thesis
    using construct_repr [OF assms(1,5)] move_construct_repr [OF assms(1,5,6)]
      destroy_repr [OF assms(1-4,7) four] move_assign_repr [OF assms(1-4,7,8) four] base_shutdown_repr [OF assms(1,9)]
    by metis
qed

text \<open>An example: two services, with the sockets 1 and 2 in the list of the first and 5 in that of the
  second; 2 and 5 are open.\<close>

definition two_services :: sockets where
  "two_services =
     \<lparr>impls = (\<lambda>i. \<lparr>im_socket = (if i = 2 then Some 20 else if i = 5 then Some 50 else None),
                     im_state = (if i = 2 \<or> i = 5 then stream_oriented else 0),
                     im_token = (if i = 2 then Some 0 else if i = 5 then Some 1 else None),
                     im_next = (if i = 1 then Some 2 else None), im_prev = (if i = 2 then Some 1 else None)\<rparr>),
      services = (\<lambda>v. \<lparr>impl_list = (if v = 0 then Some 1 else if v = 1 then Some 5 else None),
                        reactor_created = False, reactor_calls = [], connect_ex = Ext_unknown,
                        nt_set_info = Ext_unknown, ctx = io_context_init\<rparr>),
      next_token = 2, op_ec = (\<lambda>_. no_error), op_connect_ex = (\<lambda>_. False), new_socket = (\<lambda>_. None),
      net = \<lparr>replies = replicate 8 \<lparr>ret = 0, last_error = 0, stored = 3, stored_addr = []\<rparr>, calls = []\<rparr>\<rparr>"

lemma two_services_lists: "list_repr two_services 0 [1, 2]" "list_repr two_services 1 [5]"
  by (simp_all add: list_repr_def dll_def two_services_def)

theorem service_list_tracks_sockets_witness:
  "\<exists>t. base_move_assign 0 2 1 5 two_services = Some t \<and> list_repr t 0 [1] \<and> list_repr t 1 [2, 5]"
  using service_list_tracks_sockets [OF two_services_lists, of 3 5 2]
  by (auto simp: two_services_def)



text \<open>
  When a cancellation has been requested, restarting an accept completes the operation and goes
  on to start it: its work is counted once, but the operation is posted twice, so that its handler
  would run a second time on memory already released.
\<close>

theorem cancelled_restart_completes_twice:
  assumes "12 \<le> length (replies (net s))"
  shows "\<exists>t. restart_accept_op sv h holder family type protocol (Some (True, again)) op s = Some t \<and>
    count (pending (ctx (services t sv))) op = count (pending (ctx (services s sv))) op + 2 \<and>
    outstanding_work (ctx (services t sv)) = outstanding_work (ctx (services s sv)) + 1"
proof -
  from assms have "4 + 8 \<le> length (replies (net s))" by simp
  from reset_holder_returns [OF this] obtain s1 where
    s1: "reset_holder holder invalid_socket s = Some s1" "8 \<le> length (replies (net s1))" .
  define s3 where "s3 = complete_now sv op (basic_error_value operation_aborted) (on_ctx sv work_started s1)"
  define f where "f = (\<lambda>t. case Some (True, again) of Some (_, True) \<Rightarrow> do {(_, t1) \<leftarrow> os (Sys_CancelIoEx h) t; Some t1} | _ \<Rightarrow> Some t)"
  have "7 + 1 \<le> length (replies (net s3))" using s1(2) by (simp add: s3_def complete_now_def)
  moreover have "f t \<noteq> None" if "1 \<le> length (replies (net t))" for t
    using that by (auto simp: f_def os_def sys_def split: bool.split list.split)
  ultimately obtain t where "accept_on sv h holder family type protocol op f s3 = Some t"
    using accept_on_returns by blast
  then have t: "restart_accept_op sv h holder family type protocol (Some (True, again)) op s = Some t"
    by (simp add: restart_accept_op_def s1(1) Let_def s3_def f_def)
  with restart_cancelled_twice [OF t] show ?thesis by simp
qed

theorem cancelled_restart_completes_twice_witness:
  "\<exists>t. restart_accept_op 0 20 9 AF_INET SOCK_STREAM 6 (Some (True, False)) 9
      (two_services\<lparr>net := \<lparr>replies = replicate 12 \<lparr>ret = 1, last_error = 0, stored = 0, stored_addr = []\<rparr>, calls = []\<rparr>\<rparr>) = Some t \<and>
    count (pending (ctx (services t 0))) 9 = 2 \<and> outstanding_work (ctx (services t 0)) = 1"
  using cancelled_restart_completes_twice [of "two_services\<lparr>net := \<lparr>replies = replicate 12
      \<lparr>ret = 1, last_error = 0, stored = 0, stored_addr = []\<rparr>, calls = []\<rparr>\<rparr>" 0 20 9 AF_INET SOCK_STREAM 6 False 9]
  by (auto simp: two_services_def io_context_init_def pending_def)

end
