(* ===== verification/Asio_Completion_Facts.thy ===== *)
theory Asio_Completion_Facts
  imports Asio_Completion Asio_Socket_Facts
begin

unbundle bit_operations_syntax

text \<open>
  Facts about completed operations: what a handler learns when its socket was closed in the meantime,
  who owns an accepted socket afterwards, and that a connection which died before it was accepted
  reaches no handler.
\<close>

section \<open>Cancellation tokens over the life of sockets\<close>

text \<open>The operations of the service that change who holds a token, as steps.\<close>

datatype act =
    A_construct nat nat
  | A_move_construct nat nat nat
  | A_move_assign nat nat nat nat
  | A_destroy nat nat
  | A_close nat nat
  | A_open nat int int int
  | A_assign nat int nat
  | A_release nat nat

fun run_act :: "act \<Rightarrow> sockets \<Rightarrow> sockets option" where
  "run_act (A_construct sv i) s = Some (construct sv i s)"
| "run_act (A_move_construct sv i other) s = Some (base_move_construct sv i other s)"
| "run_act (A_move_assign sv i other_sv other) s = base_move_assign sv i other_sv other s"
| "run_act (A_destroy sv i) s = destroy sv i s"
| "run_act (A_close sv i) s = map_option snd (close_impl sv i no_error s)"
| "run_act (A_open i family type protocol) s = map_option snd (do_open i family type protocol no_error s)"
| "run_act (A_assign i type h) s = map_option snd (do_assign i type h s)"
| "run_act (A_release sv i) s = map_option snd (release sv i True no_error s)"

fun run_acts :: "act list \<Rightarrow> sockets \<Rightarrow> sockets option" where
  "run_acts [] s = Some s"
| "run_acts (a # as) s = do {s1 \<leftarrow> run_act a s; run_acts as s1}"

text \<open>What a step may do to the tokens: drop some, move one, or issue the next.\<close>

definition token_step :: "sockets \<Rightarrow> sockets \<Rightarrow> bool" where
  "token_step s t \<longleftrightarrow> next_token s \<le> next_token t \<and> (tokens_ok s \<longrightarrow> tokens_ok t) \<and>
     (\<forall>k. k < next_token s \<and> token_expired k s \<longrightarrow> token_expired k t)"

lemma token_step_refl [simp]: "token_step s s"
  by (simp add: token_step_def)

lemma token_step_trans: "token_step s t \<Longrightarrow> token_step t u \<Longrightarrow> token_step s u"
  by (auto simp: token_step_def)

lemma token_step_same:
  "(\<And>i. im_token (impls t i) = im_token (impls s i)) \<Longrightarrow> next_token t = next_token s \<Longrightarrow> token_step s t"
  by (simp add: token_step_def tokens_ok_def token_expired_def)

lemma token_step_close:
  assumes "close_frame i s t" and "im_token (impls t i) = None"
  shows "token_step s t"
proof -
  have "im_token (impls t x) = (if x = i then None else im_token (impls s x))" for x
    using assms by (simp add: close_frame_def)
  moreover have "next_token t = next_token s" using assms by (simp add: close_frame_def)
  ultimately show ?thesis using tokens_ok_close [OF assms] by (auto simp: token_step_def token_expired_def)
qed

lemma insert_impl_tokens:
  "im_token (impls (insert_impl sv i s) x) = im_token (impls s x)" "next_token (insert_impl sv i s) = next_token s"
  by (auto simp: insert_impl_def Let_def split: option.splits)

lemma remove_impl_tokens:
  "im_token (impls (remove_impl sv i s) x) = im_token (impls s x)" "next_token (remove_impl sv i s) = next_token s"
  by (auto simp: remove_impl_def Let_def split: option.splits)

lemma token_step_insert: "token_step s (insert_impl sv i s)"
  by (rule token_step_same) (simp_all add: insert_impl_tokens)

lemma token_step_remove: "token_step s (remove_impl sv i s)"
  by (rule token_step_same) (simp_all add: remove_impl_tokens)

lemma take_over_tokens:
  "im_token (impls (take_over i other s) x) =
     (if x = other then None else if x = i then im_token (impls s other) else im_token (impls s x))"
  "next_token (take_over i other s) = next_token s"
  by (auto simp: take_over_def Let_def)

lemma token_step_take_over: "token_step s (take_over i other s)"
  by (auto simp: token_step_def tokens_ok_def token_expired_def take_over_tokens)

lemma token_step_clear: "token_step s (clear_impl i s)"
  by (rule token_step_close [of i]) (simp_all add: clear_impl_frame)

lemma token_step_adopt: "token_step s (adopt i h type s)"
  using tokens_ok_adopt by (auto simp: token_step_def token_expired_def adopt_def)

lemma token_step_os: "os c s = Some (r, t) \<Longrightarrow> token_step s t"
  by (rule token_step_same) (auto dest: os_same)

lemma token_step_lift_os: "lift_os f s = Some (x, t) \<Longrightarrow> token_step s t"
  by (rule token_step_same) (auto dest: lift_os_same)

lemma token_step_register: "register_handle h s = Some (ec, t) \<Longrightarrow> token_step s t"
  by (auto simp: register_handle_def bind_eq_Some_conv dest: token_step_os split: if_splits)

lemma token_step_release_socket: "token_step s (on_impl i (\<lambda>m. m\<lparr>im_socket := invalid_socket\<rparr>) s)"
  by (rule token_step_same) simp_all

lemma token_step_log: "token_step s (log_reactor sv c s)"
  by (rule token_step_same) simp_all

lemma cancel_tokens: "cancel sv i b s = Some (ec, t) \<Longrightarrow> token_step s t"
  by (auto simp: cancel_def bind_eq_Some_conv split: option.splits if_splits dest!: token_step_os
      intro: token_step_trans [OF _ token_step_log] token_step_log)

lemma get_nt_set_info_tokens: "get_nt_set_info sv s = Some (b, t) \<Longrightarrow> token_step s t"
  by (rule token_step_same)
    (auto simp: get_nt_set_info_def bind_eq_Some_conv split: extension.splits dest!: os_same)

lemma release_tokens:
  assumes "release sv i b ec s = Some (y, t)"
  shows "token_step s t"
proof (cases "im_socket (impls s i)")
  case None
  with assms show ?thesis by (simp add: release_def)
next
  case (Some h)
  with assms obtain ec1 s1 where s1: "cancel sv i b s = Some (ec1, s1)"
    and rest: "failed ec1 \<and> t = s1 \<or> (\<exists>fn s2. get_nt_set_info sv s1 = Some (fn, s2) \<and>
      (t = s2 \<or> (\<exists>r s3. os (Sys_NtSetInformationFile h) s2 = Some (r, s3) \<and>
        (t = s3 \<or> t = on_impl i (\<lambda>m. m\<lparr>im_socket := invalid_socket\<rparr>) s3))))"
    by (auto simp: release_def bind_eq_Some_conv split: if_splits)
  from rest show ?thesis
    using cancel_tokens [OF s1] get_nt_set_info_tokens token_step_os token_step_release_socket token_step_trans
    by metis
qed

lemma open_tokens: "do_open i family type protocol ec s = Some (y, t) \<Longrightarrow> token_step s t"
  by (auto simp: do_open_def bind_eq_Some_conv split: option.splits if_splits
      dest!: token_step_lift_os token_step_register)
    (meson token_step_trans token_step_adopt)+

lemma assign_tokens: "do_assign i type h s = Some (y, t) \<Longrightarrow> token_step s t"
  by (auto simp: do_assign_def bind_eq_Some_conv split: if_splits
      dest!: token_step_register intro: token_step_trans token_step_adopt)

lemma destruction_tokens: "close_for_destruction sv i s = Some t \<Longrightarrow> token_step s t"
  using close_for_destruction_frame token_step_close by blast

lemma move_assign_tokens: "base_move_assign sv i osv other s = Some t \<Longrightarrow> token_step s t"
  by (auto simp: base_move_assign_def Let_def bind_eq_Some_conv split: if_splits dest!: destruction_tokens
      intro: token_step_trans [OF _ token_step_insert] token_step_trans [OF _ token_step_take_over]
        token_step_trans [OF _ token_step_remove])

lemma run_act_token_step: "run_act a s = Some t \<Longrightarrow> token_step s t"
proof (cases a)
  case (A_construct sv i)
  assume "run_act a s = Some t"
  with A_construct show ?thesis
    by (auto simp: construct_def intro: token_step_trans [OF token_step_clear token_step_insert])
next
  case (A_move_construct sv i other)
  assume "run_act a s = Some t"
  with A_move_construct show ?thesis
    by (auto simp: base_move_construct_def intro: token_step_trans [OF token_step_take_over token_step_insert])
next
  case (A_destroy sv i)
  assume "run_act a s = Some t"
  with A_destroy show ?thesis
    by (auto simp: destroy_def bind_eq_Some_conv dest!: destruction_tokens
        intro: token_step_trans [OF _ token_step_remove])
next
  case (A_close sv i)
  assume "run_act a s = Some t"
  with A_close show ?thesis by (auto dest!: close_impl_frame intro: token_step_close)
qed (auto dest: move_assign_tokens open_tokens assign_tokens release_tokens)

lemma run_acts_token_step: "run_acts as s = Some t \<Longrightarrow> token_step s t"
proof (induction as arbitrary: s)
  case (Cons a as)
  then show ?case using run_act_token_step token_step_trans by (fastforce simp: bind_eq_Some_conv)
qed simp

section \<open>Who owns an accepted socket\<close>

text \<open>What a call appends to the log of system calls.\<close>

definition logs :: "winsock \<Rightarrow> winsock \<Rightarrow> syscall list \<Rightarrow> bool" where
  "logs w w' cs \<longleftrightarrow> calls w' = calls w @ cs"

lemma logs_trans: "logs w w' as \<Longrightarrow> logs w' w'' bs \<Longrightarrow> logs w w'' (as @ bs)"
  by (simp add: logs_def)

lemma logs_refl [simp]: "logs w w []"
  by (simp add: logs_def)

lemma sys_logs: "sys c w = Some (r, w') \<Longrightarrow> logs w w' [c]"
  by (auto simp: sys_def logs_def split: list.splits)

lemma setsockopt_logs:
  "so_setsockopt h st level optname v ec w = Some (y, w') \<Longrightarrow> \<exists>cs. logs w w' cs \<and> (\<forall>h. Sys_closesocket h \<notin> set cs)"
  by (auto simp: so_setsockopt_def bind_eq_Some_conv Let_def logs_def split: option.splits if_splits dest!: sys_logs)

lemma accept_result_logs:
  "complete_iocp_accept h remote addr x ec w = Some (y, w') \<Longrightarrow> \<exists>cs. logs w w' cs \<and> (\<forall>h. Sys_closesocket h \<notin> set cs)"
  by (auto simp: complete_iocp_accept_def bind_eq_Some_conv Let_def logs_def split: option.splits if_splits prod.splits
      dest!: setsockopt_logs)

text \<open>A close that returns has closed the handle.\<close>

lemma close_logs:
  assumes "so_close (Some h) st d ec w = Some (y, w')"
  shows "\<exists>cs. logs w w' cs \<and> Sys_closesocket h \<in> set cs"
proof -
  from assms obtain y1 w1 r w2 where "(d \<and> st AND user_set_linger \<noteq> 0 \<and>
      so_setsockopt (Some h) st SOL_SOCKET SO_LINGER [0, 0, 0, 0] no_error w = Some (y1, w1) \<or> w1 = w)"
    and w2: "sys (Sys_closesocket h) w1 = Some (r, w2)"
    and rest: "w' = w2 \<or> (\<exists>r3 w3 r4. sys (Sys_ioctlsocket h FIONBIO 0) w2 = Some (r3, w3) \<and>
      sys (Sys_closesocket h) w3 = Some (r4, w'))"
    by (fastforce simp: so_close_def bind_eq_Some_conv Let_def split: if_splits)
  then have "\<exists>as. logs w w1 as" using setsockopt_logs logs_refl by blast
  then obtain as where "logs w w2 (as @ [Sys_closesocket h])" using sys_logs [OF w2] logs_trans by blast
  with rest show ?thesis
    by (elim disjE exE conjE) (auto simp: logs_def dest!: sys_logs)
qed

lemma register_logs:
  assumes "register_handle h s = Some (ec, t)"
  shows "logs (net s) (net t) [Sys_CreateIoCompletionPort h] \<and> new_socket t = new_socket s"
proof -
  from assms obtain r where "os (Sys_CreateIoCompletionPort h) s = Some (r, t)"
    by (auto simp: register_handle_def bind_eq_Some_conv)
  then show ?thesis by (auto simp: os_def bind_eq_Some_conv dest: sys_logs)
qed

lemma adopt_effect [simp]:
  "net (adopt i h type s) = net s" "new_socket (adopt i h type s) = new_socket s"
  "im_socket (impls (adopt i h type s) i) = Some h"
  by (simp_all add: adopt_def)

lemma assign_effect:
  assumes "do_assign i type h s = Some (ec, t)"
  shows "(\<exists>cs. logs (net s) (net t) cs \<and> (\<forall>h. Sys_closesocket h \<notin> set cs)) \<and> new_socket t = new_socket s \<and> (\<not> failed ec \<longrightarrow> im_socket (impls t i) = Some h)"
proof (cases "is_open i s")
  case True
  with assms have "t = s" "failed ec"
    by (auto simp: do_assign_def make_misc_def failed_def)
  then show ?thesis by (auto intro: exI [of _ "[]"])
next
  case False
  with assms obtain ec1 s1 where s1: "register_handle h s = Some (ec1, s1)"
    and t: "failed ec1 \<and> ec = ec1 \<and> t = s1 \<or> \<not> failed ec1 \<and> t = adopt i h type s1"
    by (auto simp: do_assign_def bind_eq_Some_conv split: if_splits)
  from t register_logs [OF s1] show ?thesis by auto
qed

lemma reset_holder_effect:
  assumes "reset_holder op invalid_socket s = Some t"
  shows "new_socket t = (new_socket s)(op := None) \<and> impls t = impls s \<and> (\<exists>cs. logs (net s) (net t) cs \<and>
    (case new_socket s op of Some h \<Rightarrow> Sys_closesocket h \<in> set cs | None \<Rightarrow> cs = []))"
proof (cases "new_socket s op")
  case None
  with assms show ?thesis by (auto simp: reset_holder_def invalid_socket_def intro: exI [of _ "[]"])
next
  case (Some h)
  with assms obtain y s1 where "lift_os (so_close (Some h) 0 True no_error) s = Some (y, s1)"
    and t: "t = s1\<lparr>new_socket := (new_socket s1)(op := None)\<rparr>"
    by (auto simp: reset_holder_def invalid_socket_def bind_eq_Some_conv)
  then obtain w where w: "so_close (Some h) 0 True no_error (net s) = Some (y, w)" "s1 = s\<lparr>net := w\<rparr>"
    by (auto simp: lift_os_def bind_eq_Some_conv)
  from close_logs [OF w(1)] show ?thesis using t w(2) Some by auto
qed

lemma hand_over_effect:
  assumes "hand_over op a ec s = Some (ec1, t)" and "new_socket s op = Some h"
  shows "(\<exists>cs. logs (net s) (net t) cs \<and> (\<forall>h. Sys_closesocket h \<notin> set cs)) \<and>
    (failed ec1 \<and> new_socket t op = Some h \<or>
     \<not> failed ec1 \<and> new_socket t op = None \<and> im_socket (impls t (ao_peer a)) = Some h)"
proof (cases "failed ec")
  case True
  with assms show ?thesis by (auto simp: hand_over_def intro: exI [of _ "[]"])
next
  case False
  with assms obtain s1 where s1: "do_assign (ao_peer a) (ao_type a) h s = Some (ec1, s1)"
    and t: "t = (if failed ec1 then s1 else snd (release_holder op s1))"
    by (auto simp: hand_over_def bind_eq_Some_conv)
  show ?thesis
  proof (cases "failed ec1")
    case True
    with assign_effect [OF s1] assms(2) t show ?thesis by simp
  next
    case False
    with assign_effect [OF s1] t show ?thesis by (simp add: release_holder_def invalid_socket_def)
  qed
qed

text \<open>Who has the accepted socket \<open>h\<close> in the end: the peer, or nobody, since it was closed.\<close>

definition one_owner :: "nat \<Rightarrow> nat \<Rightarrow> error_code \<Rightarrow> sockets \<Rightarrow> sockets \<Rightarrow> bool" where
  "one_owner h peer ec s t \<longleftrightarrow>
     (\<exists>cs. logs (net s) (net t) cs \<and> (failed ec \<longleftrightarrow> Sys_closesocket h \<in> set cs)) \<and>
     (\<not> failed ec \<longrightarrow> im_socket (impls t peer) = Some h)"

lemma accept_finished:
  assumes "accept_complete True op a remote ec s = Some (Finished up, t)" and "new_socket s op = Some h"
  shows "\<exists>ec1. map_option fst up = Some ec1 \<and> new_socket t op = None \<and> one_owner h (ao_peer a) ec1 s t"
proof -
  from assms obtain addr ec0 s1 ec1 s2 where s1: "lift_os (complete_iocp_accept (ao_socket a) remote
      (Some ([], ao_capacity a)) (Some h) ec) s = Some ((addr, ec0), s1)"
    and s2: "hand_over op a ec0 s1 = Some (ec1, s2)"
    and t: "reset_holder op invalid_socket s2 = Some t" and up: "map_option fst up = Some ec1"
    by (auto simp: accept_complete_def bind_eq_Some_conv upcall_def Let_def split: if_splits)
  have "new_socket s1 op = Some h" using lift_os_same [OF s1] assms(2) by simp
  from hand_over_effect [OF s2 this] obtain cs2 where cs2: "logs (net s1) (net s2) cs2" "Sys_closesocket h \<notin> set cs2"
    and holder: "failed ec1 \<and> new_socket s2 op = Some h \<or>
      \<not> failed ec1 \<and> new_socket s2 op = None \<and> im_socket (impls s2 (ao_peer a)) = Some h"
    by blast
  obtain cs1 where cs1: "logs (net s) (net s1) cs1" "Sys_closesocket h \<notin> set cs1"
    using s1 by (auto simp: lift_os_def bind_eq_Some_conv dest!: accept_result_logs)
  from reset_holder_effect [OF t] obtain cs3 where t3: "new_socket t op = None" "impls t = impls s2"
    "logs (net s2) (net t) cs3" "case new_socket s2 op of Some h \<Rightarrow> Sys_closesocket h \<in> set cs3 | None \<Rightarrow> cs3 = []" by auto
  have all: "logs (net s) (net t) ((cs1 @ cs2) @ cs3)" using logs_trans [OF logs_trans [OF cs1(1) cs2(1)] t3(3)] .
  have "failed ec1 \<longleftrightarrow> Sys_closesocket h \<in> set ((cs1 @ cs2) @ cs3)" using holder cs1(2) cs2(2) t3(4) by auto
  with all have "\<exists>cs. logs (net s) (net t) cs \<and> (failed ec1 \<longleftrightarrow> Sys_closesocket h \<in> set cs)" by blast
  with up t3 holder show ?thesis by (auto simp: one_owner_def)
qed

section \<open>Accepts that return\<close>

text \<open>Twelve replies of the system suffice.\<close>

lemma restart_returns:
  assumes "11 \<le> length (replies (net s))"
  shows "\<exists>t. restart_accept_op sv h holder family type protocol None op s = Some t"
proof -
  from assms have "4 + 7 \<le> length (replies (net s))" by simp
  from reset_holder_returns [OF this] obtain s1 where
    s1: "reset_holder holder invalid_socket s = Some s1" "7 \<le> length (replies (net s1))" .
  then have "7 + 0 \<le> length (replies (net (on_ctx sv work_started s1)))" by simp
  from accept_on_returns [OF this, of Some] s1(1) show ?thesis by (auto simp: restart_accept_op_def Let_def)
qed

lemma accept_result_returns:
  assumes "Suc n \<le> length (replies w)"
  shows "\<exists>addr ec' w'. complete_iocp_accept h remote x (Some m) ec w = Some ((addr, ec'), w') \<and> n \<le> length (replies w')"
proof -
  obtain r rs where "replies w = r # rs" using assms by (auto simp: Suc_le_length_iff)
  with assms show ?thesis
    by (auto simp: complete_iocp_accept_def so_setsockopt_def sys_def Let_def SOL_SOCKET_def
        custom_socket_option_level_def split: option.splits prod.splits)
qed

lemma hand_over_returns:
  assumes "Suc n \<le> length (replies (net s))"
  shows "\<exists>ec1 t. hand_over op a ec s = Some (ec1, t) \<and> n \<le> length (replies (net t))"
proof -
  obtain r rs where "replies (net s) = r # rs" using assms by (auto simp: Suc_le_length_iff)
  with assms show ?thesis
    by (auto simp: hand_over_def do_assign_def register_handle_def os_def sys_def release_holder_def adopt_def
        split: option.splits)
qed

lemma accept_returns:
  assumes "new_socket s op = Some h" and "12 \<le> length (replies (net s))" and "ao_proxy a = None" and "ao_cancel a = None"
  shows "\<exists>outcome t. accept_complete True op a remote ec s = Some (outcome, t)"
proof -
  from assms(2) have "Suc 11 \<le> length (replies (net s))" by simp
  from accept_result_returns [OF this] obtain addr ec0 w where
    w: "complete_iocp_accept (ao_socket a) remote (Some ([], ao_capacity a)) (Some h) ec (net s) = Some ((addr, ec0), w)"
    "11 \<le> length (replies w)" by blast
  let ?s1 = "s\<lparr>net := w\<rparr>"
  have s1: "lift_os (complete_iocp_accept (ao_socket a) remote (Some ([], ao_capacity a)) (Some h) ec) s = Some ((addr, ec0), ?s1)"
    using w by (simp add: lift_os_def)
  show ?thesis
  proof (cases "ec0 = make_basic connection_aborted \<and> \<not> ao_enable_aborted a")
    case True
    have "11 \<le> length (replies (net (reset_op (ao_service a) op ?s1)))" using w by (simp add: reset_op_def)
    from restart_returns [OF this] obtain t where "restart_accept_op (ao_service a) (ao_socket a) op (ao_family a)
      (ao_type a) (ao_protocol a) None op (reset_op (ao_service a) op ?s1) = Some t" by blast
    with True s1 assms show ?thesis by (simp add: accept_complete_def Let_def)
  next
    case False
    from w have "Suc (4 + 0) \<le> length (replies (net ?s1))" by simp
    from hand_over_returns [OF this] obtain ec1 s2 where s2: "hand_over op a ec0 ?s1 = Some (ec1, s2)"
      "4 + 0 \<le> length (replies (net s2))" by blast
    from reset_holder_returns [OF s2(2)] obtain t where "reset_holder op invalid_socket s2 = Some t" .
    with False s1 s2 assms show ?thesis by (auto simp: accept_complete_def Let_def)
  qed
qed

text \<open>A connection that was gone before its accept completed: the operation is started again.\<close>

lemma gone_connection_restarts:
  assumes "accept_complete True op a remote ec s = Some (Finished up, t)"
    and "ec_value ec = ERROR_NETNAME_DELETED"
  shows "ao_enable_aborted a"
  using assms
  by (auto simp: accept_complete_def lift_os_def complete_iocp_accept_def Let_def bind_eq_Some_conv split: if_splits)

lemma restarted_started:
  assumes "accept_complete True op a remote ec s = Some (Restarted, t)" and "ao_proxy a = None" and "ao_cancel a = None"
  shows "started_once op (ctx (services (reset_op (ao_service a) op s) (ao_service a))) (ctx (services t (ao_service a)))"
proof -
  from assms obtain y s1 where s1: "lift_os (complete_iocp_accept (ao_socket a) remote (Some ([], ao_capacity a))
      (new_socket s op) ec) s = Some (y, s1)"
    and t: "restart_accept_op (ao_service a) (ao_socket a) op (ao_family a) (ao_type a) (ao_protocol a) None op
      (reset_op (ao_service a) op s1) = Some t"
    by (auto simp: accept_complete_def bind_eq_Some_conv Let_def split: if_splits)
  from restart_uncancelled_started [OF t] lift_os_same [OF s1] show ?thesis by (simp add: reset_op_def)
qed

section \<open>Starting and cancelling\<close>

lemma start_transfer_impls:
  "start_send_op sv i noop op s = Some t \<Longrightarrow> impls t = impls s \<and> next_token t = next_token s"
  "start_receive_op sv i noop op s = Some t \<Longrightarrow> impls t = impls s \<and> next_token t = next_token s"
  by (auto simp: start_defs Let_def bind_eq_Some_conv complete_now_def settle_def split: if_splits option.splits
      dest!: os_same)

lemma async_transfer_effect:
  "async_send sv i e op s = Some (opn, t) \<Longrightarrow> opn = make_transfer i e s \<and> impls t = impls s \<and> next_token t = next_token s"
  "async_receive sv i e op s = Some (opn, t) \<Longrightarrow> opn = make_transfer i e s \<and> impls t = impls s \<and> next_token t = next_token s"
  by (auto simp: async_send_def async_receive_def bind_eq_Some_conv dest: start_transfer_impls)

lemma tokens_ok_cong: "impls t = impls s \<Longrightarrow> next_token t = next_token s \<Longrightarrow> tokens_ok t \<longleftrightarrow> tokens_ok s"
  by (simp add: tokens_ok_def)

text \<open>
  An asynchronous wait for an error condition sits in one queue of the reactor, and its cancellation
  searches another, so it is never found there.
\<close>

lemma error_wait_is_not_cancelled:
  assumes "im_socket (impls s i) = Some h"
  shows "\<exists>opn t u. async_wait sv i wait_error True op key s = Some ((opn, Some reactor_read_op), t) \<and>
    emit_cancellation sv h (Some reactor_read_op) key True t = Some u \<and>
    reactor_calls (services u sv) = reactor_calls (services s sv) @
      [R_start_op reactor_except_op (Some h) op, R_cancel_by_key (Some h) reactor_read_op key] \<and>
    reactor_read_op \<noteq> reactor_except_op"
  using assms
  by (auto simp: async_wait_def cancellation_queue_def start_reactor_op_def get_reactor_def Let_def is_open_def
      invalid_socket_def emit_cancellation_def reactor_read_op_def reactor_except_op_def log_reactor_def)

section \<open>Properties\<close>





end
