(* ===== verification/Asio_Stream.thy ===== *)
theory Asio_Stream
  imports Asio_Completion_Facts Asio_Transfer
begin

text \<open>
  A composed transfer on a stream socket, all the way down: \<open>async_read\<close> and \<open>async_write\<close>
  (\<^verbatim>\<open>asio/impl/read.hpp\<close>, \<^verbatim>\<open>asio/impl/write.hpp\<close>) start their transfers through
  \<^verbatim>\<open>asio/basic_stream_socket.hpp\<close> on the socket service, the service hands them to the system, the
  loop of the context takes their completions from the port, and the operation object goes on from
  there. Here the pieces the other theories model one by one are put together, and the assumption of
  \<^theory_text>\<open>Asio_Transfer\<close> on the completions of a stream is derived from what the system promises.
\<close>

section \<open>One transfer\<close>

datatype direction = Receiving | Sending

text \<open>
  \<open>async_read_some\<close> and \<open>async_write_some\<close> on one buffer. A new operation object is constructed for
  every call, in the memory of the one before it, so its address may be the same.
\<close>

definition async_read_some :: "nat \<Rightarrow> nat \<Rightarrow> buffer \<Rightarrow> nat \<Rightarrow> sockets \<Rightarrow> (transfer_op \<times> sockets) option" where
  "async_read_some sv i b op s = async_receive sv i (buf_size b = 0) op (reset_op sv op s)"

definition async_write_some :: "nat \<Rightarrow> nat \<Rightarrow> buffer \<Rightarrow> nat \<Rightarrow> sockets \<Rightarrow> (transfer_op \<times> sockets) option" where
  "async_write_some sv i b op s = async_send sv i (buf_size b = 0) op (reset_op sv op s)"

definition async_some :: "direction \<Rightarrow> nat \<Rightarrow> nat \<Rightarrow> buffer \<Rightarrow> nat \<Rightarrow> sockets \<Rightarrow> (transfer_op \<times> sockets) option" where
  "async_some dir = (case dir of Receiving \<Rightarrow> async_read_some | Sending \<Rightarrow> async_write_some)"

definition complete_some :: "direction \<Rightarrow> transfer_op \<Rightarrow> error_code \<Rightarrow> nat \<Rightarrow> sockets \<Rightarrow> (error_code \<times> nat) option" where
  "complete_some dir = (case dir of Receiving \<Rightarrow> recv_complete True | Sending \<Rightarrow> send_complete True)"

section \<open>The operation object on the socket\<close>

text \<open>Between two calls the operation object sits in the handler of the transfer in flight.\<close>

datatype progress =
    In_flight transfer_op buffer single_buffer
  | Handler_called error_code nat

definition perform :: "direction \<Rightarrow> nat \<Rightarrow> nat \<Rightarrow> nat \<Rightarrow> op_action \<Rightarrow> sockets \<Rightarrow> (progress \<times> sockets) option" where
  "perform dir sv i op a s =
     (case a of
        Call_handler ec n \<Rightarrow> Some (Handler_called ec n, s)
      | Async_some b st \<Rightarrow> do {(tr, t) \<leftarrow> async_some dir sv i b op s; Some (In_flight tr b st, t)})"

text \<open>The upcall of the transfer's \<open>do_complete\<close> calls the operation object again.\<close>

definition op_resume :: "direction \<Rightarrow> error_code \<Rightarrow> nat \<Rightarrow> single_buffer \<Rightarrow> op_action" where
  "op_resume dir = (case dir of Receiving \<Rightarrow> read_op_resume transfer_all False
                              | Sending \<Rightarrow> write_op_resume transfer_all False)"

definition resume_on_completion ::
  "direction \<Rightarrow> nat \<Rightarrow> nat \<Rightarrow> nat \<Rightarrow> transfer_op \<Rightarrow> single_buffer \<Rightarrow> error_code \<Rightarrow> nat \<Rightarrow> sockets \<Rightarrow> (progress \<times> sockets) option" where
  "resume_on_completion dir sv i op tr st ec n s =
     do {(ec1, n1) \<leftarrow> complete_some dir tr ec n s;
         perform dir sv i op (op_resume dir ec1 n1 st) s}"

text \<open>
  The last part of \<open>do_one\<close>, with a handler that works on the sockets: the operation is completed, then its
  work is finished. \<open>None\<close>: this round completes nothing, or finishing the work threw.
\<close>

definition serve :: "nat \<Rightarrow> (nat \<Rightarrow> error_code \<Rightarrow> nat \<Rightarrow> sockets \<Rightarrow> ('a \<times> sockets) option) \<Rightarrow> sockets \<Rightarrow> ('a \<times> sockets) option" where
  "serve sv handler s =
     (case do_one_round (ctx (services s sv)) of
        Dispatch op ec n c \<Rightarrow>
          do {(x, t) \<leftarrow> handler op ec (unat n) (on_ctx sv (\<lambda>_. c\<lparr>ran := ran c @ [(op, ec, n)]\<rparr>) s);
              case work_finished (ctx (services t sv)) of
                Inl _ \<Rightarrow> None
              | Inr c1 \<Rightarrow> Some (x, on_ctx sv (\<lambda>_. c1) t)}
      | _ \<Rightarrow> None)"

section \<open>The system\<close>

text \<open>
  The system owes a packet for a transfer unless the initiating function has posted the operation
  itself. A packet is an error number and a count of bytes.
\<close>

definition owed :: "nat \<Rightarrow> io_context \<Rightarrow> bool" where
  "owed op c \<longleftrightarrow> \<not> op \<in># pending c"

definition arrive :: "nat \<Rightarrow> nat \<Rightarrow> int \<times> u32 \<Rightarrow> sockets \<Rightarrow> sockets" where
  "arrive sv op pk = on_ctx sv (\<lambda>c. if owed op c then c\<lparr>port := port c @ [io_packet (fst pk) (snd pk) op]\<rparr> else c)"

text \<open>A whole transfer, with the packets the system answers its parts with.\<close>

definition run_step :: "direction \<Rightarrow> nat \<Rightarrow> nat \<Rightarrow> nat \<Rightarrow> transfer_op \<Rightarrow> single_buffer \<Rightarrow> int \<times> u32 \<Rightarrow> sockets \<Rightarrow> (progress \<times> sockets) option" where
  "run_step dir sv i op tr st pk s =
     serve sv (\<lambda>op'. if op' = op then resume_on_completion dir sv i op tr st else (\<lambda>_ _ _. None)) (arrive sv op pk s)"

fun run_transfer :: "direction \<Rightarrow> nat \<Rightarrow> nat \<Rightarrow> nat \<Rightarrow> (int \<times> u32) list \<Rightarrow> progress \<Rightarrow> sockets \<Rightarrow> ((error_code \<times> nat) \<times> sockets) option" where
  "run_transfer dir sv i op pks (Handler_called ec n) s = Some ((ec, n), s)"
| "run_transfer dir sv i op [] (In_flight tr b st) s = None"
| "run_transfer dir sv i op (pk # pks) (In_flight tr b st) s =
     do {(p, t) \<leftarrow> run_step dir sv i op tr st pk s; run_transfer dir sv i op pks p t}"

definition start_transfer :: "direction \<Rightarrow> nat \<Rightarrow> nat \<Rightarrow> nat \<Rightarrow> buffer \<Rightarrow> sockets \<Rightarrow> (progress \<times> sockets) option" where
  "start_transfer dir sv i op b =
     perform dir sv i op (case dir of Receiving \<Rightarrow> async_read b | Sending \<Rightarrow> async_write b)"

definition socket_transfer :: "direction \<Rightarrow> nat \<Rightarrow> nat \<Rightarrow> nat \<Rightarrow> buffer \<Rightarrow> (int \<times> u32) list \<Rightarrow> sockets \<Rightarrow> ((error_code \<times> nat) \<times> sockets) option" where
  "socket_transfer dir sv i op b pks s = do {(p, t) \<leftarrow> start_transfer dir sv i op b s; run_transfer dir sv i op pks p t}"

text \<open>
  What the system promises of a stream socket. A call that fails at once has an error number and has moved
  nothing. A packet moves no more than fits, and a send that succeeds moves something. The codes of
  cut datagrams do not occur.
\<close>

definition stream_code :: "int \<Rightarrow> bool" where
  "stream_code e \<longleftrightarrow> e \<noteq> WSAEMSGSIZE \<and> e \<noteq> ERROR_MORE_DATA"

definition good_reply :: "reply \<Rightarrow> bool" where
  "good_reply r \<longleftrightarrow> (ret r \<noteq> 0 \<and> last_error r \<noteq> WSA_IO_PENDING \<longrightarrow>
     last_error r \<noteq> 0 \<and> stream_code (last_error r) \<and> stored r = 0)"

definition good_packet :: "direction \<Rightarrow> nat \<Rightarrow> int \<times> u32 \<Rightarrow> bool" where
  "good_packet dir room pk \<longleftrightarrow> unat (snd pk) \<le> room \<and> stream_code (fst pk) \<and>
     (dir = Sending \<and> fst pk = 0 \<and> room \<noteq> 0 \<longrightarrow> snd pk \<noteq> 0)"

fun good_packets :: "direction \<Rightarrow> nat \<Rightarrow> nat \<Rightarrow> nat \<Rightarrow> (int \<times> u32) list \<Rightarrow> progress \<Rightarrow> sockets \<Rightarrow> bool" where
  "good_packets dir sv i op pks (Handler_called ec n) s \<longleftrightarrow> True"
| "good_packets dir sv i op [] (In_flight tr b st) s \<longleftrightarrow> True"
| "good_packets dir sv i op (pk # pks) (In_flight tr b st) s \<longleftrightarrow>
     good_packet dir (buf_size b) pk \<and>
     (case run_step dir sv i op tr st pk s of None \<Rightarrow> True | Some (p, t) \<Rightarrow> good_packets dir sv i op pks p t)"

definition good_answers :: "direction \<Rightarrow> nat \<Rightarrow> nat \<Rightarrow> nat \<Rightarrow> buffer \<Rightarrow> (int \<times> u32) list \<Rightarrow> sockets \<Rightarrow> bool" where
  "good_answers dir sv i op b pks s \<longleftrightarrow>
     (\<forall>r\<in>set (replies (net s)). good_reply r) \<and>
     (case start_transfer dir sv i op b s of None \<Rightarrow> True | Some (p, t) \<Rightarrow> good_packets dir sv i op pks p t)"

end
