(* ===== verification/Asio_Stream_Facts.thy ===== *)
theory Asio_Stream_Facts
  imports Asio_Stream
begin

text \<open>
  A composed transfer on a stream socket is a run of the operation object on a script that
  \<^theory_text>\<open>Asio_Transfer\<close> allows: what it assumes of every completion follows from the error mapping of
  \<open>do_complete\<close> and the promises of the system, through the service and the loop.
\<close>

section \<open>Completions of a stream\<close>

text \<open>What the handler of a transfer into \<open>b\<close> is given.\<close>

definition good_result :: "direction \<Rightarrow> nat \<Rightarrow> error_code \<Rightarrow> nat \<Rightarrow> bool" where
  "good_result dir room ec n \<longleftrightarrow> n \<le> room \<and> stream_code (ec_value ec) \<and>
     (dir = Sending \<and> \<not> failed ec \<and> room \<noteq> 0 \<longrightarrow> n \<noteq> 0)"

lemma recv_stream_completion:
  assumes "good_result Receiving (buf_size b) ec n" and "state AND stream_oriented \<noteq> 0"
  shows "stream_completion b (complete_iocp_recv state expired (buf_size b = 0) ec n) n"
  using assms by (auto simp: good_result_def stream_completion_def complete_iocp_recv_def stream_code_def)

lemma send_stream_completion:
  assumes "good_result Sending (buf_size b) ec n"
  shows "stream_completion b (complete_iocp_send expired ec) n"
  using assms by (auto simp: good_result_def stream_completion_def complete_iocp_send_def)

text \<open>The members of an operation in flight, as its socket had them when it was started.\<close>

definition fits :: "nat \<Rightarrow> transfer_op \<Rightarrow> buffer \<Rightarrow> sockets \<Rightarrow> bool" where
  "fits i tr b s \<longleftrightarrow> tr = make_transfer i (buf_size b = 0) s"

lemma complete_some_stream:
  assumes "op_state tr AND stream_oriented \<noteq> 0" and "op_all_empty tr = (buf_size b = 0)"
    and "good_result dir (buf_size b) ec n"
  shows "\<exists>ec1. complete_some dir tr ec n s = Some (ec1, n) \<and> stream_completion b ec1 n"
  using assms recv_stream_completion send_stream_completion
  by (cases dir) (auto simp: complete_some_def recv_complete_def send_complete_def upcall_def)

section \<open>The context between two completions\<close>

definition quiet :: "io_context \<Rightarrow> bool" where
  "quiet c \<longleftrightarrow> port c = [] \<and> completed_ops c = [] \<and> \<not> dispatch_required c \<and> post_errors c = []"

text \<open>A transfer of at most \<open>room\<close> bytes is in flight: nobody has its completion yet and the system owes
  it, or the initiating function has posted it with a result.\<close>

definition launched :: "direction \<Rightarrow> nat \<Rightarrow> nat \<Rightarrow> io_context \<Rightarrow> bool" where
  "launched dir op room c \<longleftrightarrow> ov_ready (ovl c op) \<and> completed_ops c = [] \<and> \<not> dispatch_required c \<and> post_errors c = [] \<and>
     (port c = [] \<or> port c = [op_packet overlapped_contains_result op] \<and>
        good_result dir room (ov_ec (ovl c op)) (unat (ov_bytes (ovl c op))))"

lemma launched_pending:
  assumes "quiet c" and "\<not> ov_ready (ovl c op)"
  shows "launched dir op room (on_pending op (work_started c))"
  using assms by (simp add: launched_def quiet_def on_pending_def work_started_def on_ovl_def)

lemma launched_completed:
  assumes "quiet c" and "good_result dir room (system_ec err) (unat n)"
  shows "launched dir op room (on_completion_error op err n (work_started c))"
  using assms
  by (simp add: launched_def quiet_def on_completion_error_def on_completion_def enqueue_or_complete_def
      pqcs_def work_started_def on_ovl_def)

lemma good_result_error: "err \<noteq> 0 \<Longrightarrow> stream_code err \<Longrightarrow> good_result dir room (system_ec err) 0"
  by (simp add: good_result_def system_ec_def failed_def)

lemma good_result_nothing: "good_result dir 0 (system_ec 0) 0"
  by (simp add: good_result_def system_ec_def failed_def stream_code_def WSAEMSGSIZE_def ERROR_MORE_DATA_def)

lemma mapped_stream_code:
  assumes "e \<noteq> 0" and "stream_code e"
  shows "refused_if_unreachable e \<noteq> 0" "stream_code (refused_if_unreachable e)"
    "WSAECONNRESET \<noteq> 0" "stream_code WSAECONNRESET"
  using assms
  by (auto simp: refused_if_unreachable_def stream_code_def WSAECONNREFUSED_def WSAECONNRESET_def
      WSAEMSGSIZE_def ERROR_MORE_DATA_def)

section \<open>Starting a transfer\<close>

definition good_replies :: "nat \<Rightarrow> sockets \<Rightarrow> bool" where
  "good_replies k s \<longleftrightarrow> k \<le> length (replies (net s)) \<and> (\<forall>r\<in>set (replies (net s)). good_reply r)"

text \<open>An open stream socket.\<close>

definition stream_socket :: "nat \<Rightarrow> sockets \<Rightarrow> bool" where
  "stream_socket i s \<longleftrightarrow> im_socket (impls s i) \<noteq> None \<and> im_state (impls s i) AND stream_oriented \<noteq> 0"

lemma settle_launched:
  assumes "quiet c" and "\<not> ov_ready (ovl c op)" and "ctx (services s sv) = work_started c"
    and "failed_at_once \<and> err \<noteq> WSA_IO_PENDING \<longrightarrow> good_result dir room (system_ec err) (unat n)"
  shows "launched dir op room (ctx (services (settle sv op failed_at_once err n s) sv))"
  using assms launched_pending launched_completed by (simp add: settle_def)

lemma complete_now_launched:
  assumes "quiet c" and "ctx (services s sv) = work_started c" and "good_result dir room (system_ec err) 0"
  shows "launched dir op room (ctx (services (complete_now sv op err s) sv))"
  using assms launched_completed [of c dir room err 0 op] by (simp add: complete_now_def)

lemma settle_frame [simp]:
  "impls (settle sv op b err n s) = impls s" "net (settle sv op b err n s) = net s"
  "impls (complete_now sv op err s) = impls s" "net (complete_now sv op err s) = net s"
  by (simp_all add: settle_def complete_now_def)

lemma start_launches:
  assumes "quiet (ctx (services s sv))" and "\<not> ov_ready (ovl (ctx (services s sv)) op)"
    and "im_socket (impls s i) = Some h" and "replies (net s) = r # rs" and "good_reply r"
    and "start = (case dir of Receiving \<Rightarrow> start_receive_op | Sending \<Rightarrow> start_send_op)"
    and "noop \<longrightarrow> room = 0"
  shows "\<exists>t. start sv i noop op s = Some t \<and> launched dir op room (ctx (services t sv)) \<and> impls t = impls s \<and>
    replies (net t) = (if noop then r # rs else rs)"
proof -
  have err: "good_result dir room (system_ec err) (unat (stored r))"
    if "ret r \<noteq> 0" "last_error r \<noteq> WSA_IO_PENDING"
      "err \<in> {last_error r, refused_if_unreachable (last_error r), WSAECONNRESET}" for err
    using that assms(5) good_result_error mapped_stream_code [of "last_error r"] by (auto simp: good_reply_def)
  have pend: "refused_if_unreachable (last_error r) \<noteq> WSA_IO_PENDING \<Longrightarrow> last_error r \<noteq> WSA_IO_PENDING"
    "last_error r = ERROR_NETNAME_DELETED \<Longrightarrow> last_error r \<noteq> WSA_IO_PENDING"
    by (auto simp: refused_if_unreachable_def WSA_IO_PENDING_def ERROR_PORT_UNREACHABLE_def ERROR_NETNAME_DELETED_def)
  show ?thesis
  proof (cases noop)
    case True
    then show ?thesis
      using assms good_result_nothing [of dir] complete_now_launched [OF assms(1), of "on_ctx sv work_started s" sv dir 0 0 op]
      by (cases dir) (simp_all add: start_receive_op_def start_send_op_def Let_def)
  next
    case False
    then show ?thesis
      using assms err pend
      by (cases dir)
        (auto simp: start_receive_op_def start_send_op_def Let_def os_def sys_def intro!: settle_launched [OF assms(1,2)])
  qed
qed

text \<open>A transfer in flight, with \<open>k\<close> answers of the system to come and \<open>w\<close> units of work outstanding.\<close>

definition in_flight :: "direction \<Rightarrow> nat \<Rightarrow> nat \<Rightarrow> nat \<Rightarrow> nat \<Rightarrow> int \<Rightarrow> transfer_op \<Rightarrow> buffer \<Rightarrow> sockets \<Rightarrow> bool" where
  "in_flight dir sv i op k w tr b s \<longleftrightarrow> launched dir op (buf_size b) (ctx (services s sv)) \<and> stream_socket i s \<and>
     tr = make_transfer i (buf_size b = 0) s \<and> good_replies k s \<and> outstanding_work (ctx (services s sv)) = w"

lemma quiet_reset: "quiet (on_ovl op f c) = quiet c" "quiet (c\<lparr>ran := xs\<rparr>) = quiet c"
  by (simp_all add: quiet_def on_ovl_def)

lemma good_replies_drop:
  "good_replies (Suc k) s \<Longrightarrow> replies (net s) = r # rs \<Longrightarrow> replies (net t) \<in> {r # rs, rs} \<Longrightarrow> good_replies k t"
  by (auto simp: good_replies_def)

lemma async_some_in_flight:
  assumes "quiet (ctx (services s sv))" and "stream_socket i s" and "good_replies (Suc k) s"
    and "outstanding_work (ctx (services s sv)) = w"
  shows "\<exists>tr t. async_some dir sv i b op s = Some (tr, t) \<and> in_flight dir sv i op k (w + 1) tr b t"
proof -
  define s' where "s' = reset_op sv op s"
  have s': "impls s' = impls s" "net s' = net s" "quiet (ctx (services s' sv))"
    "\<not> ov_ready (ovl (ctx (services s' sv)) op)" "outstanding_work (ctx (services s' sv)) = w"
    using assms(1,4) by (simp_all add: s'_def reset_op_def quiet_reset overlapped_reset_def)
  obtain r rs where r: "replies (net s') = r # rs" "good_reply r"
    using assms(3) s'(2) by (cases "replies (net s)") (auto simp: good_replies_def)
  obtain h where h: "im_socket (impls s' i) = Some h" using assms(2) s'(1) by (auto simp: stream_socket_def)
  let ?start = "case dir of Receiving \<Rightarrow> start_receive_op | Sending \<Rightarrow> start_send_op"
  obtain t where t: "?start sv i (buf_size b = 0) op s' = Some t" "launched dir op (buf_size b) (ctx (services t sv))"
    "impls t = impls s'" "replies (net t) = (if buf_size b = 0 then r # rs else rs)"
    using start_launches [OF s'(3,4) h r refl, of "buf_size b = 0" "buf_size b"] by blast
  have "outstanding_work (ctx (services t sv)) = w + 1"
    using t(1) start_io_started(1,3) [of sv i "buf_size b = 0" op s' t] s'(5)
    by (cases dir) (simp_all add: started_once_def)
  moreover have "good_replies k t" using good_replies_drop [OF assms(3), of r rs t] t(4) r s'(2) by simp
  moreover have "im_state (impls s' i) AND stream_oriented \<noteq> 0" using assms(2) s'(1) by (simp add: stream_socket_def)
  ultimately show ?thesis
    using t assms(2) s'(1)
    by (cases dir)
      (auto simp: async_some_def async_read_some_def async_write_some_def async_receive_def async_send_def
        in_flight_def s'_def [symmetric] stream_socket_def make_transfer_def)
qed

section \<open>Serving one completion\<close>

lemma launched_served:
  assumes "launched dir op room c" and "good_packet dir room pk"
  shows "\<exists>ec n c1. do_one_round (if owed op c then c\<lparr>port := port c @ [io_packet (fst pk) (snd pk) op]\<rparr> else c) =
      Dispatch op ec n c1 \<and> good_result dir room ec (unat n) \<and> quiet c1 \<and> outstanding_work c1 = outstanding_work c"
proof (cases "port c = []")
  case True
  with assms(1) have "owed op c" by (simp add: owed_def pending_def launched_def)
  moreover have "good_result dir room (system_ec (fst pk)) (unat (snd pk))"
    using assms(2) by (auto simp: good_packet_def good_result_def system_ec_def failed_def unat_eq_zero)
  ultimately show ?thesis
    using assms(1) True
    by (simp add: launched_def do_one_round_def dispatch_phase_def io_packet_def take_operation_def Let_def quiet_def on_ovl_def)
next
  case False
  with assms(1) have "\<not> owed op c" by (auto simp: owed_def pending_def launched_def op_packet_def)
  with assms(1) False show ?thesis
    by (auto simp: launched_def do_one_round_def dispatch_phase_def op_packet_def take_operation_def quiet_def)
qed

lemma work_finished_more: "outstanding_work c \<noteq> 1 \<Longrightarrow> work_finished c = Inr (c\<lparr>outstanding_work := outstanding_work c - 1\<rparr>)"
  by (simp add: work_finished_def Let_def)

lemma work_finished_quiet:
  assumes "post_errors c = []"
  shows "\<exists>c1. work_finished c = Inr c1 \<and> outstanding_work c1 = outstanding_work c - 1 \<and>
    (outstanding_work c = 1 \<longrightarrow> stopped c1)"
  using assms by (auto simp: work_finished_def stop_def pqcs_def Let_def)

text \<open>What a step makes of the operation object's answer.\<close>

definition answered :: "direction \<Rightarrow> nat \<Rightarrow> nat \<Rightarrow> nat \<Rightarrow> nat \<Rightarrow> int \<Rightarrow> op_action \<Rightarrow> progress \<Rightarrow> sockets \<Rightarrow> bool" where
  "answered dir sv i op k w act p t \<longleftrightarrow>
     (case act of
        Call_handler ec n \<Rightarrow> p = Handler_called ec n \<and> outstanding_work (ctx (services t sv)) = w - 1 \<and>
          (w = 1 \<longrightarrow> stopped (ctx (services t sv)))
      | Async_some b st \<Rightarrow> \<exists>tr. p = In_flight tr b st \<and> in_flight dir sv i op k w tr b t)"

lemma op_resume_eq: "op_resume dir = read_op_resume transfer_all False"
  by (cases dir) (simp_all add: op_resume_def write_op_is_read_op)

lemma run_step_answers:
  assumes fl: "in_flight dir sv i op (Suc k) w tr b s" and "good_packet dir (buf_size b) pk" and "1 \<le> w"
  shows "\<exists>ec n p t. stream_completion b ec n \<and> run_step dir sv i op tr st pk s = Some (p, t) \<and>
    answered dir sv i op k w (read_op_resume transfer_all False ec n st) p t"
proof -
  obtain ec n c where round: "do_one_round (ctx (services (arrive sv op pk s) sv)) = Dispatch op ec n c"
    and res: "good_result dir (buf_size b) ec (unat n)" and c: "quiet c" "outstanding_work c = w"
    using launched_served [OF _ assms(2), of op "ctx (services s sv)"] fl by (auto simp: in_flight_def arrive_def)
  define u where "u = on_ctx sv (\<lambda>_. c\<lparr>ran := ran c @ [(op, ec, n)]\<rparr>) (arrive sv op pk s)"
  have u: "impls u = impls s" "net u = net s" "quiet (ctx (services u sv))" "outstanding_work (ctx (services u sv)) = w"
    using c by (simp_all add: u_def arrive_def quiet_reset)
  have "op_state tr AND stream_oriented \<noteq> 0" "op_all_empty tr = (buf_size b = 0)"
    using fl by (simp_all add: in_flight_def make_transfer_def stream_socket_def)
  from complete_some_stream [OF this res] obtain ec1 where
    ec1: "complete_some dir tr ec (unat n) u = Some (ec1, unat n)" "stream_completion b ec1 (unat n)" by blast
  have sock: "stream_socket i u" "good_replies (Suc k) u"
    using fl u by (simp_all add: in_flight_def stream_socket_def good_replies_def)
  have step: "run_step dir sv i op tr st pk s =
    do {(p, t) \<leftarrow> perform dir sv i op (read_op_resume transfer_all False ec1 (unat n) st) u;
        case work_finished (ctx (services t sv)) of Inl _ \<Rightarrow> None | Inr c1 \<Rightarrow> Some (p, on_ctx sv (\<lambda>_. c1) t)}"
    by (simp add: run_step_def serve_def round u_def [symmetric] resume_on_completion_def ec1(1) op_resume_eq)
  show ?thesis
  proof (cases "read_op_resume transfer_all False ec1 (unat n) st")
    case (Async_some b' st')
    obtain tr' t where t: "async_some dir sv i b' op u = Some (tr', t)" "in_flight dir sv i op k (w + 1) tr' b' t"
      using async_some_in_flight [OF u(3) sock u(4)] by blast
    have "outstanding_work (ctx (services t sv)) = w + 1" using t(2) by (simp add: in_flight_def)
    with assms(3) t ec1(2) show ?thesis
      by (intro exI [of _ ec1] exI [of _ "unat n"])
        (auto simp: step Async_some perform_def work_finished_more answered_def in_flight_def launched_def
          stream_socket_def good_replies_def make_transfer_def)
  next
    case (Call_handler e m)
    obtain c1 where "work_finished (ctx (services u sv)) = Inr c1" "outstanding_work c1 = w - 1" "w = 1 \<longrightarrow> stopped c1"
      using work_finished_quiet [of "ctx (services u sv)"] u(3,4) by (auto simp: quiet_def)
    with ec1(2) show ?thesis
      by (intro exI [of _ ec1] exI [of _ "unat n"]) (simp add: step Call_handler perform_def answered_def)
  qed
qed

section \<open>The whole transfer\<close>

lemma run_transfer_follows_script:
  assumes "in_flight dir sv i op (length pks) w tr b s" and "1 \<le> w"
    and "good_packets dir sv i op pks (In_flight tr b st) s"
    and "suspended b st" and "max 1 (length (sb_remaining st)) \<le> length pks"
  shows "\<exists>script ec n t. stream_script script (Async_some b st) \<and> run_op script (Async_some b st) = Some (ec, n) \<and>
    run_transfer dir sv i op pks (In_flight tr b st) s = Some ((ec, n), t) \<and>
    outstanding_work (ctx (services t sv)) = w - 1 \<and> (w = 1 \<longrightarrow> stopped (ctx (services t sv)))"
  using assms
proof (induction pks arbitrary: s tr b st)
  case Nil
  then show ?case by simp
next
  case (Cons pk pks)
  obtain ec n p t where sc: "stream_completion b ec n"
    and step: "run_step dir sv i op tr st pk s = Some (p, t)"
    and ans: "answered dir sv i op (length pks) w (read_op_resume transfer_all False ec n st) p t"
    using run_step_answers [of dir sv i op "length pks" w tr b s pk st] Cons.prems by auto
  show ?case
  proof (cases "read_op_resume transfer_all False ec n st")
    case (Call_handler e m)
    with ans sc step show ?thesis
      by (intro exI [of _ "[(ec, n)]"] exI [of _ e] exI [of _ m] exI [of _ t]) (simp add: answered_def)
  next
    case (Async_some b' st')
    then have go: "b' = sb_prepare (sb_consume st n) default_max_transfer_size" "st' = sb_consume st n"
      "0 < n" "\<not> sb_empty (sb_consume st n)"
      by (auto simp: resume_cases split: if_splits)
    obtain tr' where p: "p = In_flight tr' b' st'" "in_flight dir sv i op (length pks) w tr' b' t"
      using ans Async_some by (auto simp: answered_def)
    have "good_packets dir sv i op pks (In_flight tr' b' st') t" using Cons.prems(3) step p by simp
    moreover have "suspended b' st'" by (simp add: suspended_def go(1,2))
    moreover have "max 1 (length (sb_remaining st')) \<le> length pks"
      using Cons.prems(5) go by (simp add: sb_remaining_consume sb_empty_iff)
    ultimately obtain script e m u where "stream_script script (Async_some b' st')"
      "run_op script (Async_some b' st') = Some (e, m)"
      "run_transfer dir sv i op pks (In_flight tr' b' st') t = Some ((e, m), u)"
      "outstanding_work (ctx (services u sv)) = w - 1" "w = 1 \<longrightarrow> stopped (ctx (services u sv))"
      using Cons.IH [of tr' b' t st'] p(2) Cons.prems(2) by blast
    with sc step p(1) Async_some show ?thesis
      by (intro exI [of _ "(ec, n) # script"] exI [of _ e] exI [of _ m] exI [of _ u]) simp
  qed
qed

text \<open>Packets of one byte always fit, until the transfer is complete.\<close>

lemma single_bytes_are_good:
  assumes "in_flight dir sv i op k w tr b s" and "1 \<le> w" and "length pks \<le> k"
    and "suspended b st" and "sb_remaining st \<noteq> []"
    and "\<forall>pk\<in>set pks. snd pk = 1 \<and> stream_code (fst pk)"
  shows "good_packets dir sv i op pks (In_flight tr b st) s"
  using assms
proof (induction pks arbitrary: s tr b st k)
  case Nil
  then show ?case by simp
next
  case (Cons pk pks)
  obtain k' where k: "k = Suc k'" using Cons.prems(3) by (cases k) auto
  have "1 \<le> buf_size b"
    using suspended_size [OF Cons.prems(4)] Cons.prems(5) by (cases "sb_remaining st") (simp_all add: default_max_transfer_size_def)
  then have good: "good_packet dir (buf_size b) pk" using Cons.prems(6) by (simp add: good_packet_def)
  obtain ec n p t where step: "run_step dir sv i op tr st pk s = Some (p, t)"
    and ans: "answered dir sv i op k' w (read_op_resume transfer_all False ec n st) p t"
    using run_step_answers [OF _ good Cons.prems(2)] Cons.prems(1) k by blast
  show ?case
  proof (cases "read_op_resume transfer_all False ec n st")
    case (Call_handler e m)
    with ans good step show ?thesis by (simp add: answered_def)
  next
    case (Async_some b' st')
    then have "suspended b' st'" "sb_remaining st' \<noteq> []"
      by (auto simp: resume_cases suspended_def sb_empty_iff split: if_splits)
    moreover obtain tr' where "p = In_flight tr' b' st'" "in_flight dir sv i op k' w tr' b' t"
      using ans Async_some by (auto simp: answered_def)
    ultimately show ?thesis
      using Cons.IH [of k' tr' b' t st'] Cons.prems(2,3,6) good step k by simp
  qed
qed

text \<open>The whole transfer starts with the first part.\<close>

lemma start_transfer_eq:
  "start_transfer dir sv i op b s =
     do {(tr, t) \<leftarrow> async_some dir sv i (sb_prepare (sb_init b) default_max_transfer_size) op s;
         Some (In_flight tr (sb_prepare (sb_init b) default_max_transfer_size) (sb_init b), t)}"
  by (simp add: start_transfer_def async_write_eq async_read_suspended perform_def split: direction.split)

text \<open>
  C10: A composed read or write on an open stream socket calls its handler after at most as many
  completions as its buffer has bytes, with the outcome of a run of the operation object on a
  stream of completions. So it reports the whole buffer when the
  error code is clear and never more, whether the parts fail at once, come through the port, or end
  the stream; the work it counted is finished, and the context stops if no other work is left.
\<close>

theorem socket_transfer_moves_exactly:
  assumes "stream_socket i s" and "quiet (ctx (services s sv))" and "0 \<le> outstanding_work (ctx (services s sv))"
    and "max 1 (buf_size b) \<le> length pks" and "length pks < length (replies (net s))"
    and "good_answers dir sv i op b pks s"
  shows "\<exists>ec n t. socket_transfer dir sv i op b pks s = Some ((ec, n), t) \<and>
    composed_read_outcome (buf_size b) ec n \<and> n \<le> buf_size b \<and> (\<not> failed ec \<longrightarrow> n = buf_size b) \<and>
    outstanding_work (ctx (services t sv)) = outstanding_work (ctx (services s sv)) \<and>
    (outstanding_work (ctx (services s sv)) = 0 \<longrightarrow> stopped (ctx (services t sv)))"
proof -
  let ?b = "sb_prepare (sb_init b) default_max_transfer_size"
  have "good_replies (Suc (length pks)) s" using assms(5,6) by (simp add: good_replies_def good_answers_def)
  then obtain tr s1 where s1: "async_some dir sv i ?b op s = Some (tr, s1)"
    and fl: "in_flight dir sv i op (length pks) (outstanding_work (ctx (services s sv)) + 1) tr ?b s1"
    using async_some_in_flight [OF assms(2,1) _ refl] by blast
  then have start: "start_transfer dir sv i op b s = Some (In_flight tr ?b (sb_init b), s1)"
    by (simp add: start_transfer_eq)
  have packets: "good_packets dir sv i op pks (In_flight tr ?b (sb_init b)) s1"
    using assms(6) by (simp add: good_answers_def start)
  have "1 \<le> outstanding_work (ctx (services s sv)) + 1" "max 1 (length (sb_remaining (sb_init b))) \<le> length pks"
    "suspended ?b (sb_init b)"
    using assms(3,4) by (simp_all add: suspended_def)
  from run_transfer_follows_script [OF fl this(1) packets this(3,2)]
  obtain script ec n t where script: "stream_script script (Async_some ?b (sb_init b))"
    "run_op script (Async_some ?b (sb_init b)) = Some (ec, n)"
    and run: "run_transfer dir sv i op pks (In_flight tr ?b (sb_init b)) s1 = Some ((ec, n), t)"
    and work: "outstanding_work (ctx (services t sv)) = outstanding_work (ctx (services s sv))"
      "outstanding_work (ctx (services s sv)) = 0 \<longrightarrow> stopped (ctx (services t sv))"
    by auto
  have "composed_read_outcome (buf_size b) ec n"
    using script by (cases b) (auto simp: composed_read_outcome_def Let_def async_read_suspended)
  moreover from this have "n \<le> buf_size b \<and> (\<not> failed ec \<longrightarrow> n = buf_size b)" by (rule composed_read_transfer)
  moreover have "socket_transfer dir sv i op b pks s = Some ((ec, n), t)"
    by (simp add: socket_transfer_def start run)
  ultimately show ?thesis using work by blast
qed

text \<open>An example: the peer sends the two bytes the buffer has room for one at a time.\<close>

definition one_socket :: sockets where
  "one_socket = two_services\<lparr>net := \<lparr>replies = replicate 3 \<lparr>ret = - 1, last_error = WSA_IO_PENDING, stored = 0, stored_addr = []\<rparr>, calls = []\<rparr>\<rparr>"

definition two_bytes :: buffer where
  "two_bytes = \<lparr>buf_data = 100, buf_size = 2\<rparr>"

lemma one_socket_ok:
  "stream_socket 2 one_socket" "quiet (ctx (services one_socket 0))" "good_replies (Suc 2) one_socket"
  "outstanding_work (ctx (services one_socket 0)) = 0" "length (replies (net one_socket)) = 3"
  by (simp_all add: stream_socket_def one_socket_def two_services_def stream_oriented_def quiet_def
      io_context_init_def good_replies_def good_reply_def)

lemma one_socket_answers: "good_answers Receiving 0 2 9 two_bytes [(0, 1), (0, 1)] one_socket"
proof -
  obtain tr t where t: "async_some Receiving 0 2 (sb_prepare (sb_init two_bytes) default_max_transfer_size) 9 one_socket = Some (tr, t)"
    "in_flight Receiving 0 2 9 2 1 tr (sb_prepare (sb_init two_bytes) default_max_transfer_size) t"
    using async_some_in_flight [OF one_socket_ok(2,1,3,4), of Receiving "sb_prepare (sb_init two_bytes) default_max_transfer_size" 9]
    by auto
  have "stream_code 0" by (simp add: stream_code_def WSAEMSGSIZE_def ERROR_MORE_DATA_def)
  moreover have "sb_remaining (sb_init two_bytes) \<noteq> []" by (simp add: addrs_def two_bytes_def)
  ultimately have "good_packets Receiving 0 2 9 [(0, 1), (0, 1)]
      (In_flight tr (sb_prepare (sb_init two_bytes) default_max_transfer_size) (sb_init two_bytes)) t"
    by (intro single_bytes_are_good [OF t(2)]) (simp_all add: suspended_def)
  then show ?thesis
    using one_socket_ok(3) by (simp add: good_answers_def start_transfer_eq t(1) good_replies_def)
qed

theorem socket_transfer_moves_exactly_witness:
  "\<exists>ec n t. socket_transfer Receiving 0 2 9 two_bytes [(0, 1), (0, 1)] one_socket = Some ((ec, n), t) \<and>
    n \<le> 2 \<and> (\<not> failed ec \<longrightarrow> n = 2) \<and> stopped (ctx (services t 0))"
  using socket_transfer_moves_exactly [OF one_socket_ok(1,2) _ _ _ one_socket_answers] one_socket_ok(4,5)
  by (fastforce simp: two_bytes_def)

end
