(* ===== verification/Asio_Timer.thy ===== *)
theory Asio_Timer
  imports Asio_Iocp Linked_List "HOL-Library.Word" "HOL-Library.Monad_Syntax"
begin

text \<open>
  The timer queue of asio, \<^verbatim>\<open>asio/detail/timer_queue.hpp\<close>: a binary heap of expiry times in a vector
  and a linked list of the active timers, with the time arithmetic of
  \<^verbatim>\<open>asio/detail/chrono_time_traits.hpp\<close> on 64-bit nanoseconds and the timer functions of the completion
  port context (\<^verbatim>\<open>asio/detail/impl/win_iocp_io_context.hpp\<close>). Timers live at addresses; a queue of wait
  operations is the list that \<open>Asio_OpQueue\<close> shows it to be.
\<close>

section \<open>Time\<close>

text \<open>Time points and durations of the clock are signed 64-bit counts; comparing them is signed.\<close>

type_synonym ticks = "64 word"

definition time_max :: ticks where "time_max = 0x7FFFFFFFFFFFFFFF"
definition time_min :: ticks where "time_min = 0x8000000000000000"

definition time_less :: "ticks \<Rightarrow> ticks \<Rightarrow> bool" where
  "time_less t1 t2 \<longleftrightarrow> sint t1 < sint t2"

definition time_add :: "ticks \<Rightarrow> ticks \<Rightarrow> ticks" where
  "time_add t d =
     (if \<not> time_less t 0 then (if time_less (time_max - t) d then time_max else t + d)
      else (if time_less d (- (t - time_min)) then time_min else t + d))"

definition time_subtract :: "ticks \<Rightarrow> ticks \<Rightarrow> ticks" where
  "time_subtract t1 t2 =
     (if \<not> time_less t1 0 then
        if \<not> time_less t2 0 then t1 - t2
        else if t2 = time_min then time_max
        else if time_less (time_max - t1) (0 - t2) then time_max
        else t1 - t2
      else
        if time_less t2 0 then t1 - t2
        else if t1 = time_min then time_min
        else if time_less (time_max - t2) (0 - t1) then time_min
        else - (t2 - t1))"

text \<open>The helpers that turn a duration into a time-out: never zero before the time has come.\<close>

definition to_msec :: "ticks \<Rightarrow> int \<Rightarrow> int" where
  "to_msec d max_duration =
     (if sint d \<le> 0 then 0
      else let msec = sint d div 1000000
           in if msec = 0 then 1 else if msec > max_duration then max_duration else msec)"

definition to_usec :: "ticks \<Rightarrow> int \<Rightarrow> int" where
  "to_usec d max_duration =
     (if sint d \<le> 0 then 0
      else let usec = sint d div 1000
           in if usec = 0 then 1 else if usec > max_duration then max_duration else usec)"

section \<open>State\<close>

text \<open>The heap index of a timer that is not in the heap is the largest \<open>size_t\<close>, here \<open>None\<close>.\<close>

record timer_data =
  td_ops :: "nat list"
  td_heap_index :: "nat option"
  td_next :: "nat option"
  td_prev :: "nat option"

record heap_entry =
  he_time :: ticks
  he_timer :: nat

record timer_queue =
  tq_timers :: "nat option"
  tq_heap :: "heap_entry list"
  tq_data :: "nat \<Rightarrow> timer_data"
  tq_op_ec :: "nat \<Rightarrow> error_code"
  tq_op_key :: "nat \<Rightarrow> nat"

definition timer_data_init :: timer_data where
  "timer_data_init = \<lparr>td_ops = [], td_heap_index = None, td_next = None, td_prev = None\<rparr>"

definition timer_queue_init :: timer_queue where
  "timer_queue_init = \<lparr>tq_timers = None, tq_heap = [], tq_data = (\<lambda>_. timer_data_init),
     tq_op_ec = (\<lambda>_. no_error), tq_op_key = (\<lambda>_. 0)\<rparr>"

definition on_timer :: "nat \<Rightarrow> (timer_data \<Rightarrow> timer_data) \<Rightarrow> timer_queue \<Rightarrow> timer_queue" where
  "on_timer t f q = q\<lparr>tq_data := (tq_data q)(t := f (tq_data q t))\<rparr>"

section \<open>The heap\<close>

definition swap_heap :: "nat \<Rightarrow> nat \<Rightarrow> timer_queue \<Rightarrow> timer_queue" where
  "swap_heap index1 index2 q =
     (let tmp = tq_heap q ! index1;
          h1 = (tq_heap q)[index1 := tq_heap q ! index2];
          h2 = h1[index2 := tmp];
          q1 = on_timer (he_timer (h2 ! index1)) (\<lambda>d. d\<lparr>td_heap_index := Some index1\<rparr>) (q\<lparr>tq_heap := h2\<rparr>)
      in on_timer (he_timer (h2 ! index2)) (\<lambda>d. d\<lparr>td_heap_index := Some index2\<rparr>) q1)"

lemma swap_heap_length [simp]: "length (tq_heap (swap_heap i j q)) = length (tq_heap q)"
  by (simp add: swap_heap_def on_timer_def Let_def)

function up_heap :: "nat \<Rightarrow> timer_queue \<Rightarrow> timer_queue" where
  "up_heap index q =
     (if 0 < index \<and> time_less (he_time (tq_heap q ! index)) (he_time (tq_heap q ! ((index - 1) div 2)))
      then up_heap ((index - 1) div 2) (swap_heap index ((index - 1) div 2) q)
      else q)"
  by pat_completeness auto

termination by (relation "measure fst") auto

definition min_child :: "nat \<Rightarrow> timer_queue \<Rightarrow> nat" where
  "min_child child q =
     (if child + 1 = length (tq_heap q)
         \<or> time_less (he_time (tq_heap q ! child)) (he_time (tq_heap q ! (child + 1)))
      then child else child + 1)"

function down_heap :: "nat \<Rightarrow> timer_queue \<Rightarrow> timer_queue" where
  "down_heap index q =
     (if index * 2 + 1 < length (tq_heap q)
         \<and> \<not> time_less (he_time (tq_heap q ! index)) (he_time (tq_heap q ! min_child (index * 2 + 1) q))
      then down_heap (min_child (index * 2 + 1) q) (swap_heap index (min_child (index * 2 + 1) q) q)
      else q)"
  by pat_completeness auto

termination
  by (relation "measure (\<lambda>(index, q). length (tq_heap q) - index)") (auto simp: min_child_def)

declare up_heap.simps [simp del] down_heap.simps [simp del]

section \<open>Adding and removing timers\<close>

text \<open>Without Boost's date and time types no time is positive infinity, so every timer has a heap entry.\<close>

definition enqueue_timer :: "ticks \<Rightarrow> nat \<Rightarrow> nat \<Rightarrow> timer_queue \<Rightarrow> bool \<times> timer_queue" where
  "enqueue_timer time t op q =
     (let q1 =
        (if td_prev (tq_data q t) = None \<and> tq_timers q \<noteq> Some t then
           let a = on_timer t (\<lambda>d. d\<lparr>td_heap_index := Some (length (tq_heap q))\<rparr>) q;
               b = a\<lparr>tq_heap := tq_heap a @ [\<lparr>he_time = time, he_timer = t\<rparr>]\<rparr>;
               c = up_heap (length (tq_heap b) - 1) b;
               d = on_timer t (\<lambda>d. d\<lparr>td_next := tq_timers c, td_prev := None\<rparr>) c;
               e = (case tq_timers d of None \<Rightarrow> d | Some h \<Rightarrow> on_timer h (\<lambda>d. d\<lparr>td_prev := Some t\<rparr>) d)
           in e\<lparr>tq_timers := Some t\<rparr>
         else q);
        q2 = on_timer t (\<lambda>d. d\<lparr>td_ops := td_ops d @ [op]\<rparr>) q1
      in (td_heap_index (tq_data q2 t) = Some 0 \<and> hd (td_ops (tq_data q2 t)) = op, q2))"

definition remove_from_heap :: "nat \<Rightarrow> timer_queue \<Rightarrow> timer_queue" where
  "remove_from_heap t q =
     (case td_heap_index (tq_data q t) of
        None \<Rightarrow> q
      | Some index \<Rightarrow>
          if index < length (tq_heap q) then
            if index = length (tq_heap q) - 1
            then (on_timer t (\<lambda>d. d\<lparr>td_heap_index := None\<rparr>) q)\<lparr>tq_heap := butlast (tq_heap q)\<rparr>
            else
              let a = swap_heap index (length (tq_heap q) - 1) q;
                  b = on_timer t (\<lambda>d. d\<lparr>td_heap_index := None\<rparr>) a;
                  c = b\<lparr>tq_heap := butlast (tq_heap b)\<rparr>
              in if 0 < index \<and> time_less (he_time (tq_heap c ! index)) (he_time (tq_heap c ! ((index - 1) div 2)))
                 then up_heap index c else down_heap index c
          else q)"

definition unlink_timer :: "nat \<Rightarrow> timer_queue \<Rightarrow> timer_queue" where
  "unlink_timer t q =
     (let a = (if tq_timers q = Some t then q\<lparr>tq_timers := td_next (tq_data q t)\<rparr> else q);
          b = (case td_prev (tq_data a t) of
                 None \<Rightarrow> a | Some p \<Rightarrow> on_timer p (\<lambda>d. d\<lparr>td_next := td_next (tq_data a t)\<rparr>) a);
          c = (case td_next (tq_data b t) of
                 None \<Rightarrow> b | Some n \<Rightarrow> on_timer n (\<lambda>d. d\<lparr>td_prev := td_prev (tq_data b t)\<rparr>) b)
      in on_timer t (\<lambda>d. d\<lparr>td_next := None, td_prev := None\<rparr>) c)"

definition remove_timer :: "nat \<Rightarrow> timer_queue \<Rightarrow> timer_queue" where
  "remove_timer t q = unlink_timer t (remove_from_heap t q)"

definition active :: "nat \<Rightarrow> timer_queue \<Rightarrow> bool" where
  "active t q \<longleftrightarrow> td_prev (tq_data q t) \<noteq> None \<or> tq_timers q = Some t"

section \<open>Expiry and cancellation\<close>

text \<open>Both results of the functions that dequeue operations: the operations, in order, and the queue.\<close>

fun set_ecs :: "error_code \<Rightarrow> nat list \<Rightarrow> (nat \<Rightarrow> error_code) \<Rightarrow> nat \<Rightarrow> error_code" where
  "set_ecs ec [] f = f"
| "set_ecs ec (op # ops) f = set_ecs ec ops (f(op := ec))"

text \<open>Take all operations of an expired timer.\<close>

definition expire :: "nat \<Rightarrow> timer_queue \<Rightarrow> nat list \<times> timer_queue" where
  "expire t q =
     (let ops = td_ops (tq_data q t)
      in (ops, (on_timer t (\<lambda>d. d\<lparr>td_ops := []\<rparr>) q)\<lparr>tq_op_ec := set_ecs no_error ops (tq_op_ec q)\<rparr>))"

partial_function (option) ready_loop :: "ticks \<Rightarrow> nat list \<Rightarrow> timer_queue \<Rightarrow> (nat list \<times> timer_queue) option" where
  "ready_loop now ops q =
     (if tq_heap q \<noteq> [] \<and> \<not> time_less now (he_time (tq_heap q ! 0)) then
        let t = he_timer (tq_heap q ! 0);
            (ops1, q1) = expire t q
        in ready_loop now (ops @ ops1) (remove_timer t q1)
      else Some (ops, q))"

definition get_ready_timers :: "ticks \<Rightarrow> nat list \<Rightarrow> timer_queue \<Rightarrow> (nat list \<times> timer_queue) option" where
  "get_ready_timers now ops q = (if tq_heap q \<noteq> [] then ready_loop now ops q else Some (ops, q))"

partial_function (option) all_loop :: "nat list \<Rightarrow> timer_queue \<Rightarrow> (nat list \<times> timer_queue) option" where
  "all_loop ops q =
     (case tq_timers q of
        None \<Rightarrow> Some (ops, q)
      | Some t \<Rightarrow>
          let q1 = q\<lparr>tq_timers := td_next (tq_data q t)\<rparr>
          in all_loop (ops @ td_ops (tq_data q1 t))
               (on_timer t (\<lambda>d. d\<lparr>td_ops := [], td_next := None, td_prev := None\<rparr>) q1))"

definition get_all_timers :: "nat list \<Rightarrow> timer_queue \<Rightarrow> (nat list \<times> timer_queue) option" where
  "get_all_timers ops q = do {(ops1, q1) \<leftarrow> all_loop ops q; Some (ops1, q1\<lparr>tq_heap := []\<rparr>)}"

fun cancel_ops :: "nat \<Rightarrow> nat list \<Rightarrow> nat list \<times> nat list" where
  "cancel_ops 0 ops = ([], ops)"
| "cancel_ops (Suc n) [] = ([], [])"
| "cancel_ops (Suc n) (op # ops) = (let (c, r) = cancel_ops n ops in (op # c, r))"

definition cancel_timer :: "nat \<Rightarrow> nat \<Rightarrow> timer_queue \<Rightarrow> nat list \<times> timer_queue" where
  "cancel_timer t max_cancelled q =
     (if active t q then
        let (cancelled, rest) = cancel_ops max_cancelled (td_ops (tq_data q t));
            q1 = (on_timer t (\<lambda>d. d\<lparr>td_ops := rest\<rparr>) q)
                   \<lparr>tq_op_ec := set_ecs (make_basic operation_aborted) cancelled (tq_op_ec q)\<rparr>
        in (cancelled, if rest = [] then remove_timer t q1 else q1)
      else ([], q))"

definition cancel_timer_by_key :: "nat \<Rightarrow> nat \<Rightarrow> timer_queue \<Rightarrow> nat list \<times> timer_queue" where
  "cancel_timer_by_key t key q =
     (if active t q then
        let ops = td_ops (tq_data q t);
            cancelled = [op \<leftarrow> ops. tq_op_key q op = key];
            other_ops = [op \<leftarrow> ops. tq_op_key q op \<noteq> key];
            q1 = (on_timer t (\<lambda>d. d\<lparr>td_ops := other_ops\<rparr>) q)
                   \<lparr>tq_op_ec := set_ecs (make_basic operation_aborted) cancelled (tq_op_ec q)\<rparr>
        in (cancelled, if other_ops = [] then remove_timer t q1 else q1)
      else ([], q))"

text \<open>Moving a timer: its operations and its place in the heap, then its place in the list.\<close>

definition take_place :: "nat \<Rightarrow> nat \<Rightarrow> timer_queue \<Rightarrow> timer_queue" where
  "take_place target source q =
     (let a = on_timer target (\<lambda>d. d\<lparr>td_ops := td_ops d @ td_ops (tq_data q source)\<rparr>) q;
          b = on_timer source (\<lambda>d. d\<lparr>td_ops := []\<rparr>) a;
          c = on_timer target (\<lambda>d. d\<lparr>td_heap_index := td_heap_index (tq_data b source)\<rparr>) b;
          d = on_timer source (\<lambda>d. d\<lparr>td_heap_index := None\<rparr>) c
      in (case td_heap_index (tq_data d target) of
            None \<Rightarrow> d
          | Some i \<Rightarrow> if i < length (tq_heap d)
                      then d\<lparr>tq_heap := (tq_heap d)[i := (tq_heap d ! i)\<lparr>he_timer := target\<rparr>]\<rparr> else d))"

definition relink_timer :: "nat \<Rightarrow> nat \<Rightarrow> timer_queue \<Rightarrow> timer_queue" where
  "relink_timer target source q =
     (let a = (if tq_timers q = Some source then q\<lparr>tq_timers := Some target\<rparr> else q);
          b = (case td_prev (tq_data a source) of
                 None \<Rightarrow> a | Some p \<Rightarrow> on_timer p (\<lambda>d. d\<lparr>td_next := Some target\<rparr>) a);
          c = (case td_next (tq_data b source) of
                 None \<Rightarrow> b | Some n \<Rightarrow> on_timer n (\<lambda>d. d\<lparr>td_prev := Some target\<rparr>) b);
          d = on_timer target (\<lambda>d. d\<lparr>td_next := td_next (tq_data c source), td_prev := td_prev (tq_data c source)\<rparr>) c
      in on_timer source (\<lambda>d. d\<lparr>td_next := None, td_prev := None\<rparr>) d)"

definition move_timer :: "nat \<Rightarrow> nat \<Rightarrow> timer_queue \<Rightarrow> timer_queue" where
  "move_timer target source q = relink_timer target source (take_place target source q)"

definition tq_empty :: "timer_queue \<Rightarrow> bool" where
  "tq_empty q \<longleftrightarrow> tq_timers q = None"

definition wait_duration_msec :: "ticks \<Rightarrow> int \<Rightarrow> timer_queue \<Rightarrow> int" where
  "wait_duration_msec now max_duration q =
     (case tq_heap q of [] \<Rightarrow> max_duration
      | e # _ \<Rightarrow> to_msec (time_subtract (he_time e) now) max_duration)"

definition wait_duration_usec :: "ticks \<Rightarrow> int \<Rightarrow> timer_queue \<Rightarrow> int" where
  "wait_duration_usec now max_duration q =
     (case tq_heap q of [] \<Rightarrow> max_duration
      | e # _ \<Rightarrow> to_usec (time_subtract (he_time e) now) max_duration)"

section \<open>Timers of the completion port context\<close>

text \<open>
  The functions that use a timer queue under the dispatch mutex. \<open>armed\<close> records the time-outs given
  to the waitable timer, in microseconds.
\<close>

record timer_context =
  tc_ctx :: io_context
  tc_queue :: timer_queue
  tc_timer_thread :: bool
  tc_armed :: "int list"

definition max_timeout_usec :: int where "max_timeout_usec = 300000000"

text \<open>The default number of operations to cancel, the largest \<open>size_t\<close>.\<close>

definition all_of_them :: nat where "all_of_them = 2 ^ 64 - 1"

definition update_timeout :: "ticks \<Rightarrow> timer_context \<Rightarrow> timer_context" where
  "update_timeout now s =
     (if tc_timer_thread s then
        let timeout = wait_duration_usec now max_timeout_usec (tc_queue s)
        in if timeout < max_timeout_usec then s\<lparr>tc_armed := tc_armed s @ [timeout]\<rparr> else s
      else s)"

definition schedule_timer :: "ticks \<Rightarrow> ticks \<Rightarrow> nat \<Rightarrow> nat \<Rightarrow> timer_context \<Rightarrow> timer_context" where
  "schedule_timer now time t op s =
     (if shutdown_flag (tc_ctx s) then s\<lparr>tc_ctx := post_immediate_completion op (tc_ctx s)\<rparr>
      else let (earliest, q) = enqueue_timer time t op (tc_queue s);
               s1 = s\<lparr>tc_queue := q, tc_ctx := work_started (tc_ctx s)\<rparr>
           in if earliest then update_timeout now s1 else s1)"

definition cancel_wait :: "nat \<Rightarrow> nat \<Rightarrow> timer_context \<Rightarrow> nat \<times> timer_context" where
  "cancel_wait t max_cancelled s =
     (if shutdown_flag (tc_ctx s) then (0, s)
      else let (ops, q) = cancel_timer t max_cancelled (tc_queue s)
           in (length ops, s\<lparr>tc_queue := q, tc_ctx := post_deferred_completions ops (tc_ctx s)\<rparr>))"

definition cancel_wait_by_key :: "nat \<Rightarrow> nat \<Rightarrow> timer_context \<Rightarrow> timer_context" where
  "cancel_wait_by_key t key s =
     (if shutdown_flag (tc_ctx s) then s
      else let (ops, q) = cancel_timer_by_key t key (tc_queue s)
           in s\<lparr>tc_queue := q, tc_ctx := post_deferred_completions ops (tc_ctx s)\<rparr>)"

definition move_wait :: "nat \<Rightarrow> nat \<Rightarrow> timer_context \<Rightarrow> timer_context" where
  "move_wait to from s =
     (let (ops, q) = cancel_timer to all_of_them (tc_queue s)
      in s\<lparr>tc_queue := move_timer to from q, tc_ctx := post_deferred_completions ops (tc_ctx s)\<rparr>)"

text \<open>The part of \<open>do_one\<close> that dispatches timers and completed operations.\<close>

definition dispatch_timers :: "ticks \<Rightarrow> timer_context \<Rightarrow> timer_context option" where
  "dispatch_timers now s =
     (if dispatch_required (tc_ctx s) then
        do {(ops, q) \<leftarrow> get_ready_timers now (completed_ops (tc_ctx s)) (tc_queue s);
            Some (update_timeout now
              (s\<lparr>tc_queue := q, tc_ctx := post_deferred_completions ops
                   ((tc_ctx s)\<lparr>dispatch_required := False, completed_ops := []\<rparr>)\<rparr>))}
      else Some s)"

end
