(* ===== verification/Asio_Timer_Facts.thy ===== *)
theory Asio_Timer_Facts
  imports Asio_Timer
begin

text \<open>
  Facts about the timer queue: its clock arithmetic saturates, its vector stays a heap whose entries
  know their place, and the timers that have expired are handed out in the order of their times.
\<close>

section \<open>Clock arithmetic\<close>

definition clamp :: "int \<Rightarrow> int" where
  "clamp x = max (- (2 ^ 63)) (min (2 ^ 63 - 1) x)"

lemma sint_range: "- (2 ^ 63) \<le> sint t \<and> sint t < 2 ^ 63" for t :: ticks
  using sint_greater_eq [of t] sint_less [of t] by simp

lemma sint_limits [simp]: "sint time_max = 2 ^ 63 - 1" "sint time_min = - (2 ^ 63)"
  by (simp_all add: time_max_def time_min_def)

lemma sint_fits:
  fixes a b :: ticks
  shows "- (2 ^ 63) \<le> sint a + sint b \<Longrightarrow> sint a + sint b < 2 ^ 63 \<Longrightarrow> sint (a + b) = sint a + sint b"
    and "- (2 ^ 63) \<le> sint a - sint b \<Longrightarrow> sint a - sint b < 2 ^ 63 \<Longrightarrow> sint (a - b) = sint a - sint b"
    and "- (2 ^ 63) < sint a \<Longrightarrow> sint (- a) = - sint a"
  using sint_range [of a]
  by (simp_all add: sint_word_ariths signed_take_bit_int_eq_self)

lemma sint_eq_min: "t = time_min \<longleftrightarrow> sint t = - (2 ^ 63)"
  by (metis sint_limits(2) signed_word_eqI)

lemma time_add_clamps: "sint (time_add t d) = clamp (sint t + sint d)"
proof (cases "sint t < 0")
  case True
  have "sint (t - time_min) = sint t - sint time_min"
    using True sint_range [of t] by (intro sint_fits(2)) simp_all
  then have "sint (- (t - time_min)) = - (sint t + 2 ^ 63)"
    using True sint_range [of t] by (subst sint_fits(3)) simp_all
  then show ?thesis
    using True sint_range [of t] sint_range [of d] sint_fits(1) [of t d]
    by (auto simp: time_add_def time_less_def clamp_def)
next
  case False
  have "sint (time_max - t) = sint time_max - sint t"
    using False sint_range [of t] by (intro sint_fits(2)) simp_all
  then show ?thesis
    using False sint_range [of t] sint_range [of d] sint_fits(1) [of t d]
    by (auto simp: time_add_def time_less_def clamp_def)
qed

lemma time_subtract_clamps: "sint (time_subtract t1 t2) = clamp (sint t1 - sint t2)"
proof -
  note ranges = sint_range [of t1] sint_range [of t2]
  have room: "0 \<le> sint t \<Longrightarrow> sint (time_max - t) = 2 ^ 63 - 1 - sint t" for t
    using sint_range [of t] by (subst sint_fits(2)) simp_all
  have neg: "t \<noteq> time_min \<Longrightarrow> sint (0 - t) = - sint t" for t
    using sint_range [of t] by (simp add: sint_eq_min sint_fits(3))
  have flip: "- (t2 - t1) = t1 - t2" by simp
  show ?thesis
    using ranges room [of t1] room [of t2] neg [of t1] neg [of t2] sint_fits(2) [of t1 t2]
    by (auto simp: time_subtract_def time_less_def clamp_def flip sint_eq_min)
qed

section \<open>Heaps over an index\<close>

text \<open>The heap property for the times \<open>a\<close> at the first \<open>n\<close> indices, and the property with a hole: at
  \<open>i\<close> the order to its parent, or to its children, may be violated.\<close>

definition parent :: "nat \<Rightarrow> nat" where
  "parent k = (k - 1) div 2"

definition heap_prop :: "(nat \<Rightarrow> int) \<Rightarrow> nat \<Rightarrow> bool" where
  "heap_prop a n \<longleftrightarrow> (\<forall>k. 0 < k \<and> k < n \<longrightarrow> a (parent k) \<le> a k)"

definition over_hole :: "(nat \<Rightarrow> int) \<Rightarrow> nat \<Rightarrow> nat \<Rightarrow> bool" where
  "over_hole a n i \<longleftrightarrow> (\<forall>k. 0 < k \<and> k < n \<and> parent k = i \<and> 0 < i \<longrightarrow> a (parent i) \<le> a k)"

definition up_prop :: "(nat \<Rightarrow> int) \<Rightarrow> nat \<Rightarrow> nat \<Rightarrow> bool" where
  "up_prop a n i \<longleftrightarrow> (\<forall>k. 0 < k \<and> k < n \<and> k \<noteq> i \<longrightarrow> a (parent k) \<le> a k) \<and> over_hole a n i"

definition down_prop :: "(nat \<Rightarrow> int) \<Rightarrow> nat \<Rightarrow> nat \<Rightarrow> bool" where
  "down_prop a n i \<longleftrightarrow> (\<forall>k. 0 < k \<and> k < n \<and> parent k \<noteq> i \<longrightarrow> a (parent k) \<le> a k) \<and> over_hole a n i"

lemma parent_less: "0 < k \<Longrightarrow> parent k < k"
  by (auto simp: parent_def)

lemma parent_children: "0 < k \<Longrightarrow> parent k = i \<longleftrightarrow> k = 2 * i + 1 \<or> k = 2 * i + 2"
  by (auto simp: parent_def)

definition swapped :: "(nat \<Rightarrow> int) \<Rightarrow> nat \<Rightarrow> nat \<Rightarrow> nat \<Rightarrow> int" where
  "swapped a i j k = (if k = i then a j else if k = j then a i else a k)"

lemma up_prop_done: "up_prop a n i \<Longrightarrow> i = 0 \<or> a (parent i) \<le> a i \<Longrightarrow> heap_prop a n"
  by (auto simp: up_prop_def heap_prop_def)

lemma up_prop_step:
  assumes "up_prop a n i" and "0 < i" and "i < n" and "a i < a (parent i)"
  shows "up_prop (swapped a i (parent i)) n (parent i)"
proof -
  have p: "parent i < i" using assms(2) by (rule parent_less)
  have above: "a (parent k) \<le> a k" if "0 < k" "k < n" "k \<noteq> i" for k
    using assms(1) that by (simp add: up_prop_def)
  have below: "a (parent i) \<le> a k" if "0 < k" "k < n" "parent k = i" for k
    using assms(1,2) that by (simp add: up_prop_def over_hole_def)
  have "swapped a i (parent i) (parent k) \<le> swapped a i (parent i) k" if k: "0 < k" "k < n" "k \<noteq> parent i" for k
  proof (cases "k = i")
    case True
    then show ?thesis using p assms(4) by (simp add: swapped_def)
  next
    case False
    then show ?thesis using above [OF k(1,2)] below [OF k(1,2)] assms(4) k by (auto simp: swapped_def)
  qed
  moreover have "swapped a i (parent i) (parent (parent i)) \<le> swapped a i (parent i) k"
    if k: "0 < k" "k < n" "parent k = parent i" "0 < parent i" for k
  proof -
    have "parent (parent i) < parent i" using k(4) by (rule parent_less)
    moreover have "a (parent (parent i)) \<le> a (parent i)" using above [of "parent i"] p k(4) assms(3) by simp
    moreover have "k \<noteq> parent i" using k parent_less [of k] by auto
    ultimately show ?thesis using above [OF k(1,2)] k p by (auto simp: swapped_def)
  qed
  ultimately show ?thesis by (simp add: up_prop_def over_hole_def)
qed

lemma down_prop_done:
  assumes "down_prop a n i" and "\<And>k. 0 < k \<Longrightarrow> k < n \<Longrightarrow> parent k = i \<Longrightarrow> a i \<le> a k"
  shows "heap_prop a n"
  using assms by (auto simp: down_prop_def heap_prop_def)

lemma down_prop_step:
  assumes "down_prop a n i" and "parent m = i" and "0 < m" and "m < n" and "a m \<le> a i"
    and "\<And>k. 0 < k \<Longrightarrow> k < n \<Longrightarrow> parent k = i \<Longrightarrow> a m \<le> a k"
  shows "down_prop (swapped a i m) n m"
proof -
  have m: "i < m" using parent_less [OF assms(3)] assms(2) by simp
  have above: "a (parent k) \<le> a k" if "0 < k" "k < n" "parent k \<noteq> i" for k
    using assms(1) that by (simp add: down_prop_def)
  have below: "a (parent i) \<le> a k" if "0 < k" "k < n" "parent k = i" "0 < i" for k
    using assms(1) that by (simp add: down_prop_def over_hole_def)
  have "swapped a i m (parent k) \<le> swapped a i m k" if k: "0 < k" "k < n" "parent k \<noteq> m" for k
  proof (cases "k = i")
    case True
    then have "parent i < i" using k(1) parent_less by simp
    then show ?thesis using True below [OF assms(3,4,2)] k m by (simp add: swapped_def)
  next
    case False
    then show ?thesis using above [OF k(1,2)] assms(2,5) assms(6) [OF k(1,2)] k by (auto simp: swapped_def)
  qed
  moreover have "swapped a i m (parent m) \<le> swapped a i m k" if k: "0 < k" "k < n" "parent k = m" for k
  proof -
    have "m < k" using k parent_less [of k] by simp
    then show ?thesis using above [OF k(1,2)] k m assms(2) by (simp add: swapped_def)
  qed
  ultimately show ?thesis by (simp add: down_prop_def over_hole_def)
qed

lemma heap_prop_root:
  assumes "heap_prop a n" and "k < n"
  shows "a 0 \<le> a k"
  using assms(2)
proof (induction k rule: less_induct)
  case (less k)
  show ?case
  proof (cases "k = 0")
    case False
    then have "parent k < k" by (simp add: parent_less)
    with less have "a 0 \<le> a (parent k)" by simp
    also have "a (parent k) \<le> a k" using assms(1) less.prems False by (simp add: heap_prop_def)
    finally show ?thesis .
  qed simp
qed

section \<open>The vector of the queue\<close>

definition time_at :: "timer_queue \<Rightarrow> nat \<Rightarrow> int" where
  "time_at q i = sint (he_time (tq_heap q ! i))"

text \<open>Every entry's timer knows the index of the entry.\<close>

definition index_ok :: "timer_queue \<Rightarrow> bool" where
  "index_ok q \<longleftrightarrow> (\<forall>i < length (tq_heap q). td_heap_index (tq_data q (he_timer (tq_heap q ! i))) = Some i)"

definition heap_timers :: "timer_queue \<Rightarrow> nat set" where
  "heap_timers q = he_timer ` set (tq_heap q)"

text \<open>What moving entries around leaves alone.\<close>

definition heap_frame :: "timer_queue \<Rightarrow> timer_queue \<Rightarrow> bool" where
  "heap_frame q q' \<longleftrightarrow> mset (tq_heap q') = mset (tq_heap q) \<and> tq_timers q' = tq_timers q \<and>
     tq_op_ec q' = tq_op_ec q \<and> tq_op_key q' = tq_op_key q \<and>
     (\<forall>t. td_ops (tq_data q' t) = td_ops (tq_data q t) \<and> td_next (tq_data q' t) = td_next (tq_data q t) \<and>
        td_prev (tq_data q' t) = td_prev (tq_data q t) \<and>
        (t \<notin> heap_timers q \<longrightarrow> td_heap_index (tq_data q' t) = td_heap_index (tq_data q t)))"

lemma heap_frame_refl [simp]: "heap_frame q q"
  by (simp add: heap_frame_def)

lemma heap_frame_timers: "heap_frame q q' \<Longrightarrow> heap_timers q' = heap_timers q"
  unfolding heap_frame_def heap_timers_def by (metis set_mset_mset)

lemma heap_frame_trans: "heap_frame q q' \<Longrightarrow> heap_frame q' q'' \<Longrightarrow> heap_frame q q''"
  using heap_frame_timers [of q q'] by (auto simp: heap_frame_def)

lemma heap_frame_length: "heap_frame q q' \<Longrightarrow> length (tq_heap q') = length (tq_heap q)"
  unfolding heap_frame_def by (metis size_mset)

lemma on_timer_simps [simp]:
  "tq_heap (on_timer t f q) = tq_heap q" "tq_timers (on_timer t f q) = tq_timers q"
  "tq_op_ec (on_timer t f q) = tq_op_ec q" "tq_op_key (on_timer t f q) = tq_op_key q"
  "tq_data (on_timer t f q) x = (if x = t then f (tq_data q t) else tq_data q x)"
  by (simp_all add: on_timer_def)

lemma swap_heap_simps:
  assumes "i < length (tq_heap q)" and "j < length (tq_heap q)"
  shows "tq_heap (swap_heap i j q) = (tq_heap q)[i := tq_heap q ! j, j := tq_heap q ! i]"
    and "tq_data (swap_heap i j q) x =
      (if x = he_timer (tq_heap q ! i) then (tq_data q x)\<lparr>td_heap_index := Some j\<rparr>
       else if x = he_timer ((tq_heap q)[i := tq_heap q ! j, j := tq_heap q ! i] ! i)
         then (tq_data q x)\<lparr>td_heap_index := Some i\<rparr> else tq_data q x)"
  using assms by (auto simp: swap_heap_def Let_def)

lemma swap_heap_frame:
  assumes "i < length (tq_heap q)" and "j < length (tq_heap q)"
  shows "heap_frame q (swap_heap i j q)"
proof -
  have "he_timer (tq_heap q ! k) \<in> heap_timers q" if "k < length (tq_heap q)" for k
    using that by (auto simp: heap_timers_def)
  then show ?thesis using assms
    by (auto simp: heap_frame_def swap_heap_simps mset_swap nth_list_update) (simp_all add: swap_heap_def Let_def)
qed

lemma swap_heap_index_ok:
  assumes "index_ok q" and "i < length (tq_heap q)" and "j < length (tq_heap q)"
  shows "index_ok (swap_heap i j q)"
proof -
  have inj: "he_timer (tq_heap q ! k) = he_timer (tq_heap q ! l) \<longleftrightarrow> k = l"
    if "k < length (tq_heap q)" "l < length (tq_heap q)" for k l
    using assms(1) that unfolding index_ok_def by (metis option.inject)
  show ?thesis using assms inj by (auto simp: index_ok_def swap_heap_simps nth_list_update)
qed

lemma time_at_swap:
  assumes "i < length (tq_heap q)" and "j < length (tq_heap q)"
  shows "time_at (swap_heap i j q) = swapped (time_at q) i j"
  using assms by (auto simp: time_at_def swapped_def swap_heap_simps nth_list_update)

lemma up_heap_ok:
  assumes "i < length (tq_heap q)" and "index_ok q" and "up_prop (time_at q) (length (tq_heap q)) i"
  shows "index_ok (up_heap i q) \<and> heap_prop (time_at (up_heap i q)) (length (tq_heap (up_heap i q))) \<and>
    heap_frame q (up_heap i q)"
  using assms
proof (induction i q rule: up_heap.induct)
  case (1 i q)
  let ?p = "(i - 1) div 2" and ?s = "swap_heap i ((i - 1) div 2) q"
  have p: "?p = parent i" by (simp add: parent_def)
  show ?case
  proof (cases "0 < i \<and> time_less (he_time (tq_heap q ! i)) (he_time (tq_heap q ! ?p))")
    case True
    then have less: "time_at q i < time_at q (parent i)" by (simp add: parent_def time_less_def time_at_def)
    have "?p < i" using True parent_less [of i] by (simp only: p)
    then have len: "?p < length (tq_heap q)" using "1.prems"(1) by simp
    have "up_prop (time_at ?s) (length (tq_heap ?s)) ?p"
      using up_prop_step [OF "1.prems"(3) _ "1.prems"(1) less] True "1.prems"(1) len by (simp add: time_at_swap parent_def)
    moreover have "index_ok ?s" using "1.prems"(1,2) len by (intro swap_heap_index_ok)
    ultimately have "index_ok (up_heap ?p ?s) \<and> heap_prop (time_at (up_heap ?p ?s)) (length (tq_heap (up_heap ?p ?s))) \<and>
      heap_frame ?s (up_heap ?p ?s)"
      using "1.IH" [OF True] len by simp
    moreover have "up_heap i q = up_heap ?p ?s" by (subst up_heap.simps) (simp only: True if_True simp_thms)
    ultimately show ?thesis using heap_frame_trans swap_heap_frame [OF "1.prems"(1) len] by metis
  next
    case False
    then have "up_heap i q = q" by (subst up_heap.simps) (simp only: False if_False simp_thms)
    moreover have "i = 0 \<or> time_at q (parent i) \<le> time_at q i"
      using False by (auto simp: parent_def time_less_def time_at_def not_less)
    ultimately show ?thesis using "1.prems" up_prop_done by simp
  qed
qed

lemma min_child_prop:
  assumes "i * 2 + 1 < length (tq_heap q)"
  shows "min_child (i * 2 + 1) q < length (tq_heap q)" and "parent (min_child (i * 2 + 1) q) = i"
    and "0 < k \<Longrightarrow> k < length (tq_heap q) \<Longrightarrow> parent k = i \<Longrightarrow> time_at q (min_child (i * 2 + 1) q) \<le> time_at q k"
  using assms
  by (auto simp: min_child_def time_less_def time_at_def parent_children mult.commute)

lemma down_heap_ok:
  assumes "i < length (tq_heap q)" and "index_ok q" and "down_prop (time_at q) (length (tq_heap q)) i"
  shows "index_ok (down_heap i q) \<and> heap_prop (time_at (down_heap i q)) (length (tq_heap (down_heap i q))) \<and>
    heap_frame q (down_heap i q)"
  using assms
proof (induction i q rule: down_heap.induct)
  case (1 i q)
  let ?m = "min_child (i * 2 + 1) q" and ?s = "swap_heap i (min_child (i * 2 + 1) q) q"
  show ?case
  proof (cases "i * 2 + 1 < length (tq_heap q) \<and> \<not> time_less (he_time (tq_heap q ! i)) (he_time (tq_heap q ! ?m))")
    case True
    then have le: "time_at q ?m \<le> time_at q i" by (simp add: time_less_def time_at_def)
    note m = min_child_prop [of i q] True
    have "0 < ?m" by (simp add: min_child_def)
    have "down_prop (time_at ?s) (length (tq_heap ?s)) ?m"
      using down_prop_step [OF "1.prems"(3), of ?m] m le \<open>0 < ?m\<close> "1.prems"(1) by (simp add: time_at_swap)
    moreover have "index_ok ?s" using "1.prems"(1,2) m by (intro swap_heap_index_ok) auto
    ultimately have "index_ok (down_heap ?m ?s) \<and> heap_prop (time_at (down_heap ?m ?s)) (length (tq_heap (down_heap ?m ?s))) \<and>
      heap_frame ?s (down_heap ?m ?s)"
      using "1.IH" [OF True] m by simp
    moreover have "down_heap i q = down_heap ?m ?s" by (subst down_heap.simps) (simp only: True if_True simp_thms)
    moreover have "heap_frame q ?s" using "1.prems"(1) m by (intro swap_heap_frame) auto
    ultimately show ?thesis using heap_frame_trans by metis
  next
    case False
    then have done_now: "down_heap i q = q" by (subst down_heap.simps) (simp only: False if_False simp_thms)
    have "time_at q i \<le> time_at q k" if k: "0 < k" "k < length (tq_heap q)" "parent k = i" for k
    proof -
      have len: "i * 2 + 1 < length (tq_heap q)" using k by (auto simp: parent_children)
      then have "time_at q i \<le> time_at q ?m" using False by (auto simp: time_less_def time_at_def)
      also have "\<dots> \<le> time_at q k" by (rule min_child_prop(3) [OF len k])
      finally show ?thesis .
    qed
    with "1.prems" down_prop_done show ?thesis by (simp add: done_now)
  qed
qed

section \<open>The invariant of the queue\<close>

abbreviation timer_next :: "timer_queue \<Rightarrow> nat \<Rightarrow> nat option" where "timer_next q t \<equiv> td_next (tq_data q t)"
abbreviation timer_prev :: "timer_queue \<Rightarrow> nat \<Rightarrow> nat option" where "timer_prev q t \<equiv> td_prev (tq_data q t)"
abbreviation ops_of :: "timer_queue \<Rightarrow> nat \<Rightarrow> nat list" where "ops_of q t \<equiv> td_ops (tq_data q t)"

text \<open>The active timers \<open>ts\<close> are linked, have exactly the entries of the heap, and every other timer is
  in its initial state.\<close>

definition heap_ok :: "timer_queue \<Rightarrow> bool" where
  "heap_ok q \<longleftrightarrow> heap_prop (time_at q) (length (tq_heap q)) \<and> index_ok q"

definition tq_ok :: "timer_queue \<Rightarrow> nat list \<Rightarrow> bool" where
  "tq_ok q ts \<longleftrightarrow> dll (timer_next q) (timer_prev q) (tq_timers q) ts \<and> heap_ok q \<and>
     heap_timers q = set ts \<and> (\<forall>t. t \<notin> set ts \<longrightarrow> tq_data q t = timer_data_init)"

lemma tq_ok_init: "tq_ok timer_queue_init []"
  by (simp add: tq_ok_def heap_ok_def timer_queue_init_def heap_prop_def index_ok_def heap_timers_def)

lemma tq_ok_active: "tq_ok q ts \<Longrightarrow> active t q \<longleftrightarrow> t \<in> set ts"
  unfolding tq_ok_def active_def timer_data_init_def
  by (metis dll_head_in dll_no_prev timer_data.select_convs(4))

lemma heap_ok_up:
  assumes "i < length (tq_heap q)" and "index_ok q" and "up_prop (time_at q) (length (tq_heap q)) i"
  shows "heap_ok (up_heap i q) \<and> heap_frame q (up_heap i q)"
  using up_heap_ok [OF assms] by (simp add: heap_ok_def)

lemma heap_ok_down:
  assumes "i < length (tq_heap q)" and "index_ok q" and "down_prop (time_at q) (length (tq_heap q)) i"
  shows "heap_ok (down_heap i q) \<and> heap_frame q (down_heap i q)"
  using down_heap_ok [OF assms] by (simp add: heap_ok_def)

section \<open>Removing a timer\<close>

definition removed_frame :: "nat \<Rightarrow> timer_queue \<Rightarrow> timer_queue \<Rightarrow> bool" where
  "removed_frame t q q' \<longleftrightarrow> tq_timers q' = tq_timers q \<and> tq_op_ec q' = tq_op_ec q \<and> tq_op_key q' = tq_op_key q \<and>
     (\<forall>x. ops_of q' x = ops_of q x \<and> timer_next q' x = timer_next q x \<and> timer_prev q' x = timer_prev q x) \<and>
     td_heap_index (tq_data q' t) = None \<and>
     (\<forall>x. x \<notin> heap_timers q \<longrightarrow> td_heap_index (tq_data q' x) = td_heap_index (tq_data q x))"

lemma mset_butlast: "xs \<noteq> [] \<Longrightarrow> add_mset (last xs) (mset (butlast xs)) = mset xs"
  by (induction xs rule: rev_induct) auto

lemma heap_prop_mono: "heap_prop a n \<Longrightarrow> m \<le> n \<Longrightarrow> (\<And>k. k < m \<Longrightarrow> b k = a k) \<Longrightarrow> heap_prop b m"
  unfolding heap_prop_def by (metis order_less_le_trans order_less_trans parent_less)

text \<open>After the last entry has taken the place of another: its order to the parent or to the children
  may be violated, not both.\<close>

lemma replaced_up:
  assumes "heap_prop a n" and "i < m" and "m \<le> n" and "\<And>k. k < m \<Longrightarrow> k \<noteq> i \<Longrightarrow> b k = a k"
    and "0 < i" and "b i < b (parent i)"
  shows "up_prop b m i"
proof -
  have order: "a (parent k) \<le> a k" if "0 < k" "k < m" for k using assms(1,3) that by (simp add: heap_prop_def)
  have pi: "parent i < i" using assms(5) by (rule parent_less)
  have bp: "b (parent i) = a (parent i)" using assms(4) [of "parent i"] pi assms(2) by simp
  have "b (parent k) \<le> b k" if k: "0 < k" "k < m" "k \<noteq> i" for k
  proof (cases "parent k = i")
    case True
    have "b i < a (parent i)" using assms(6) bp by simp
    also have "\<dots> \<le> a i" using order [OF assms(5,2)] .
    also have "\<dots> \<le> a k" using order [OF k(1,2)] True by simp
    finally show ?thesis using assms(4) [OF k(2,3)] True by simp
  next
    case False
    then show ?thesis using order [OF k(1,2)] assms(4) k parent_less [OF k(1)] by simp
  qed
  moreover have "b (parent i) \<le> b k" if k: "0 < k" "k < m" "parent k = i" for k
  proof -
    have "k \<noteq> i" using k parent_less [OF k(1)] by simp
    then show ?thesis using order [OF assms(5,2)] order [OF k(1,2)] k(3) assms(4) [OF k(2)] bp by simp
  qed
  ultimately show ?thesis by (simp add: up_prop_def over_hole_def)
qed

lemma replaced_down:
  assumes "heap_prop a n" and "i < m" and "m \<le> n" and "\<And>k. k < m \<Longrightarrow> k \<noteq> i \<Longrightarrow> b k = a k"
    and "i = 0 \<or> b (parent i) \<le> b i"
  shows "down_prop b m i"
proof -
  have order: "a (parent k) \<le> a k" if "0 < k" "k < m" for k using assms(1,3) that by (simp add: heap_prop_def)
  have "b (parent k) \<le> b k" if k: "0 < k" "k < m" "parent k \<noteq> i" for k
    using order [OF k(1,2)] assms(4,5) k parent_less [OF k(1)] by (cases "k = i") auto
  moreover have "b (parent i) \<le> b k" if k: "0 < k" "k < m" "parent k = i" "0 < i" for k
  proof -
    have "k \<noteq> i" "parent i < i" using k parent_less [of k] parent_less [of i] by simp_all
    then show ?thesis using order [OF k(4) assms(2)] order [OF k(1,2)] k(3) assms(4) [OF k(2)]
      assms(4) [of "parent i"] assms(2) by simp
  qed
  ultimately show ?thesis by (simp add: down_prop_def over_hole_def)
qed

lemma index_inj:
  assumes "index_ok q" and "k < length (tq_heap q)" and "l < length (tq_heap q)"
  shows "he_timer (tq_heap q ! k) = he_timer (tq_heap q ! l) \<longleftrightarrow> k = l"
  using assms unfolding index_ok_def by (metis option.inject)

lemma remove_from_heap_ok:
  assumes "heap_ok q" and "i < length (tq_heap q)" and "he_timer (tq_heap q ! i) = t"
  shows "heap_ok (remove_from_heap t q) \<and> removed_frame t q (remove_from_heap t q) \<and>
    add_mset (tq_heap q ! i) (mset (tq_heap (remove_from_heap t q))) = mset (tq_heap q)"
proof -
  let ?n = "length (tq_heap q)"
  from assms(1) have heap: "heap_prop (time_at q) ?n" and idx: "index_ok q" by (simp_all add: heap_ok_def)
  have at: "td_heap_index (tq_data q t) = Some i" using idx assms(2,3) by (auto simp: index_ok_def)
  have t_in: "t \<in> heap_timers q" using assms(2,3) by (auto simp: heap_timers_def)
  show ?thesis
  proof (cases "i = ?n - 1")
    case True
    let ?q = "(on_timer t (\<lambda>d. d\<lparr>td_heap_index := None\<rparr>) q)\<lparr>tq_heap := butlast (tq_heap q)\<rparr>"
    have q': "remove_from_heap t q = ?q" using at assms(2) True by (simp add: remove_from_heap_def)
    have "heap_prop (time_at ?q) (length (tq_heap ?q))"
      by (rule heap_prop_mono [OF heap]) (simp_all add: time_at_def nth_butlast)
    moreover have "index_ok ?q"
      using idx index_inj [OF idx _ assms(2)] assms(3) True by (auto simp: index_ok_def nth_butlast)
    moreover have "last (tq_heap q) = tq_heap q ! i" "tq_heap q \<noteq> []" 
      using True assms(2) by (cases "tq_heap q = []", auto simp: last_conv_nth)+
    then have "add_mset (tq_heap q ! i) (mset (tq_heap ?q)) = mset (tq_heap q)"
      using mset_butlast [of "tq_heap q"] by simp
    moreover have "removed_frame t q ?q" using t_in by (auto simp: removed_frame_def)
    ultimately show ?thesis by (simp add: q' heap_ok_def)
  next
    case False
    then have i: "i < ?n - 1" "?n - 1 < ?n" using assms(2) by simp_all
    define a where "a = swap_heap i (?n - 1) q"
    define c where "c = (on_timer t (\<lambda>d. d\<lparr>td_heap_index := None\<rparr>) a)\<lparr>tq_heap := butlast (tq_heap a)\<rparr>"
    have q': "remove_from_heap t q =
      (if 0 < i \<and> time_less (he_time (tq_heap c ! i)) (he_time (tq_heap c ! ((i - 1) div 2))) then up_heap i c else down_heap i c)"
      using at assms(2) False by (simp add: remove_from_heap_def Let_def a_def c_def)
    have len: "length (tq_heap c) = ?n - 1" by (simp add: a_def c_def)
    have a_idx: "index_ok a" unfolding a_def using idx assms(2) i by (intro swap_heap_index_ok)
    have a_last: "tq_heap a ! (?n - 1) = tq_heap q ! i"
      using assms(2) i by (simp add: a_def swap_heap_simps nth_list_update)
    have same: "time_at c k = time_at q k" if "k < ?n - 1" "k \<noteq> i" for k
      using that assms(2) i by (simp add: a_def c_def time_at_def nth_butlast swap_heap_simps nth_list_update)
    have a_len: "length (tq_heap a) = ?n" by (simp add: a_def)
    have c_heap: "tq_heap c ! k = tq_heap a ! k" if "k < ?n - 1" for k
      using that a_len by (simp add: c_def nth_butlast)
    have "td_heap_index (tq_data c (he_timer (tq_heap c ! k))) = Some k" if k: "k < ?n - 1" for k
    proof -
      have "td_heap_index (tq_data a (he_timer (tq_heap a ! k))) = Some k"
        using a_idx k by (simp add: index_ok_def a_len)
      moreover have "he_timer (tq_heap a ! k) = he_timer (tq_heap a ! (?n - 1)) \<longleftrightarrow> k = ?n - 1"
        using k a_len by (intro index_inj [OF a_idx]) simp_all
      then have "he_timer (tq_heap a ! k) \<noteq> t" using k unfolding a_last assms(3) by simp
      ultimately show ?thesis by (simp add: c_heap [OF k]) (simp add: c_def)
    qed
    then have c_idx: "index_ok c" by (simp add: index_ok_def len)
    have fr: "heap_frame q a" unfolding a_def using assms(2) i by (intro swap_heap_frame)
    have "tq_heap a \<noteq> []" using a_len i by auto
    moreover from this have "last (tq_heap a) = tq_heap q ! i" using a_last by (simp add: last_conv_nth a_len)
    ultimately have c_mset: "add_mset (tq_heap q ! i) (mset (tq_heap c)) = mset (tq_heap q)"
      using mset_butlast [of "tq_heap a"] fr by (simp add: c_def heap_frame_def)
    have c_frame: "removed_frame t q c" using fr t_in by (auto simp: c_def removed_frame_def heap_frame_def)
    have c_none: "td_heap_index (tq_data c t) = None" by (simp add: c_def)
    have "heap_ok (remove_from_heap t q) \<and> heap_frame c (remove_from_heap t q)"
    proof (cases "0 < i \<and> time_at c i < time_at c (parent i)")
      case True
      then have "up_prop (time_at c) (length (tq_heap c)) i"
        using i by (intro replaced_up [OF heap]) (auto simp: len intro: same)
      moreover have "remove_from_heap t q = up_heap i c"
        using True by (simp add: q' parent_def time_less_def time_at_def)
      ultimately show ?thesis using heap_ok_up [OF _ c_idx] i len by simp
    next
      case False
      then have "down_prop (time_at c) (length (tq_heap c)) i"
        using i by (intro replaced_down [OF heap]) (auto simp: len intro: same)
      moreover have "remove_from_heap t q = down_heap i c"
        using False by (auto simp: q' parent_def time_less_def time_at_def)
      ultimately show ?thesis using heap_ok_down [OF _ c_idx] i len by simp
    qed
    moreover have "t \<notin> heap_timers c"
      using c_idx c_none unfolding index_ok_def heap_timers_def by (metis imageE in_set_conv_nth option.distinct(1))
    moreover have "heap_timers c \<subseteq> heap_timers q"
      using c_mset unfolding heap_timers_def by (metis image_mono set_mset_add_mset_insert set_mset_mset subset_insertI)
    ultimately show ?thesis using c_mset c_frame
      by (auto simp: heap_frame_def removed_frame_def) 
  qed
qed

lemma unlink_timer_effect:
  assumes "timer_prev q t \<noteq> Some t" and "timer_next q t \<noteq> Some t"
  shows "timer_next (unlink_timer t q) x =
      (if x = t then None else if timer_prev q t = Some x then timer_next q t else timer_next q x)"
    and "timer_prev (unlink_timer t q) x =
      (if x = t then None else if timer_next q t = Some x then timer_prev q t else timer_prev q x)"
    and "tq_timers (unlink_timer t q) = (if tq_timers q = Some t then timer_next q t else tq_timers q)"
  using assms
  by (cases "timer_prev q t"; cases "timer_next q t"; auto simp: unlink_timer_def Let_def)+

lemma unlink_timer_frame [simp]:
  "ops_of (unlink_timer t q) x = ops_of q x" "td_heap_index (tq_data (unlink_timer t q) x) = td_heap_index (tq_data q x)"
  "tq_heap (unlink_timer t q) = tq_heap q" "tq_op_ec (unlink_timer t q) = tq_op_ec q"
  "tq_op_key (unlink_timer t q) = tq_op_key q"
  by (auto simp: unlink_timer_def Let_def split: option.splits)

lemma heap_ok_cong:
  assumes "tq_heap q' = tq_heap q" and "\<And>t. td_heap_index (tq_data q' t) = td_heap_index (tq_data q t)"
  shows "heap_ok q' \<longleftrightarrow> heap_ok q"
proof -
  have "time_at q' = time_at q" using assms(1) by (auto simp: time_at_def)
  then show ?thesis using assms by (simp add: heap_ok_def index_ok_def)
qed

lemma timer_data_eqI:
  "td_ops d = td_ops e \<Longrightarrow> td_heap_index d = td_heap_index e \<Longrightarrow> td_next d = td_next e \<Longrightarrow> td_prev d = td_prev e \<Longrightarrow> d = e"
  for d e :: timer_data
  by simp

lemma heap_timers_none:
  assumes "heap_ok q" and "td_heap_index (tq_data q t) = None"
  shows "t \<notin> heap_timers q"
  using assms unfolding heap_ok_def index_ok_def heap_timers_def
  by (metis imageE in_set_conv_nth option.distinct(1))

text \<open>Removing an active timer whose operations have been taken.\<close>

lemma remove_timer_ok:
  assumes "tq_ok q ts" and "i < length (tq_heap q)" and "he_timer (tq_heap q ! i) = t" and "ops_of q t = []"
  shows "tq_ok (remove_timer t q) (remove1 t ts) \<and>
    add_mset (tq_heap q ! i) (mset (tq_heap (remove_timer t q))) = mset (tq_heap q) \<and>
    (\<forall>x. ops_of (remove_timer t q) x = ops_of q x) \<and>
    tq_op_ec (remove_timer t q) = tq_op_ec q \<and> tq_op_key (remove_timer t q) = tq_op_key q"
proof -
  from assms(1) have dll: "dll (timer_next q) (timer_prev q) (tq_timers q) ts" and heap: "heap_ok q"
    and ht: "heap_timers q = set ts" and idle: "\<And>x. x \<notin> set ts \<Longrightarrow> tq_data q x = timer_data_init"
    by (simp_all add: tq_ok_def)
  have t: "t \<in> set ts" using ht assms(2,3) by (auto simp: heap_timers_def)
  define r where "r = remove_from_heap t q"
  from remove_from_heap_ok [OF heap assms(2,3)] have r: "heap_ok r" "removed_frame t q r"
    "add_mset (tq_heap q ! i) (mset (tq_heap r)) = mset (tq_heap q)" by (simp_all add: r_def)
  then have links: "timer_next r x = timer_next q x" "timer_prev r x = timer_prev q x" "tq_timers r = tq_timers q"
    "ops_of r x = ops_of q x" for x by (auto simp: removed_frame_def)
  have "timer_prev r t \<noteq> Some t" "timer_next r t \<noteq> Some t"
    using dll_neighbours [OF dll t] by (auto simp: links)
  note effect = unlink_timer_effect [OF this]
  let ?u = "unlink_timer t r"
  have "dll (timer_next ?u) (timer_prev ?u) (tq_timers ?u) (remove1 t ts)"
    by (rule dll_remove [OF dll t]) (simp_all add: effect links)
  moreover have "heap_ok ?u" using r(1) heap_ok_cong [of ?u r] by simp
  moreover have "heap_timers ?u = set ts - {t}"
  proof -
    have "insert t (heap_timers r) = set ts"
      using r(3) ht assms(3) unfolding heap_timers_def by (metis image_insert set_mset_add_mset_insert set_mset_mset)
    moreover have "t \<notin> heap_timers r" using heap_timers_none [OF r(1)] r(2) by (simp add: removed_frame_def)
    ultimately show ?thesis by (auto simp: heap_timers_def)
  qed
  moreover have "tq_data ?u x = timer_data_init" if "x \<notin> set ts - {t}" for x
  proof (cases "x = t")
    case True
    then show ?thesis using r(2) assms(4) effect links
      by (intro timer_data_eqI) (simp_all add: timer_data_init_def removed_frame_def)
  next
    case False
    then have x: "x \<notin> set ts" using that by simp
    then have "tq_data q x = timer_data_init" by (rule idle)
    moreover have "timer_prev q t \<noteq> Some x" "timer_next q t \<noteq> Some x"
      using dll_neighbours [OF dll t] x by auto
    ultimately show ?thesis using False x r(2) ht effect links
      by (intro timer_data_eqI) (simp_all add: timer_data_init_def removed_frame_def)
  qed
  moreover have "set (remove1 t ts) = set ts - {t}" using dll_distinct [OF dll] by (rule set_remove1_eq)
  ultimately have "tq_ok ?u (remove1 t ts)" by (simp add: tq_ok_def)
  moreover have "remove_timer t q = ?u" by (simp add: remove_timer_def r_def)
  ultimately show ?thesis using r(2,3) links by (simp add: removed_frame_def)
qed

lemma listed_entry:
  assumes "tq_ok q ts" and "t \<in> set ts"
  obtains i where "i < length (tq_heap q)" and "he_timer (tq_heap q ! i) = t"
proof -
  have "t \<in> he_timer ` set (tq_heap q)" using assms by (simp add: tq_ok_def heap_timers_def)
  then show ?thesis using that by (auto simp: in_set_conv_nth)
qed

section \<open>Adding a timer\<close>

text \<open>The heap with a new entry at its end.\<close>

definition push_entry :: "ticks \<Rightarrow> nat \<Rightarrow> timer_queue \<Rightarrow> timer_queue" where
  "push_entry time t q =
     (on_timer t (\<lambda>d. d\<lparr>td_heap_index := Some (length (tq_heap q))\<rparr>) q)
       \<lparr>tq_heap := tq_heap q @ [\<lparr>he_time = time, he_timer = t\<rparr>]\<rparr>"

lemma push_entry_ok:
  assumes "heap_ok q" and "t \<notin> heap_timers q"
  shows "heap_ok (up_heap (length (tq_heap q)) (push_entry time t q)) \<and>
    heap_frame (push_entry time t q) (up_heap (length (tq_heap q)) (push_entry time t q))"
proof (rule heap_ok_up)
  let ?q = "push_entry time t q" and ?n = "length (tq_heap q)"
  have timer: "he_timer (tq_heap q ! k) \<noteq> t" if "k < ?n" for k
    using that assms(2) by (auto simp: heap_timers_def)
  then show "index_ok ?q"
    using assms(1) by (auto simp: heap_ok_def index_ok_def push_entry_def nth_append less_Suc_eq)
  have same: "time_at ?q k = time_at q k" if "k < ?n" for k
    using that by (simp add: time_at_def push_entry_def nth_append)
  have "time_at ?q (parent k) \<le> time_at ?q k" if "0 < k" "k < Suc ?n" "k \<noteq> ?n" for k
    using assms(1) that parent_less [of k] same [of k] same [of "parent k"] by (simp add: heap_ok_def heap_prop_def)
  moreover have "parent k \<noteq> ?n" if "0 < k" "k < Suc ?n" for k
    using that parent_less [of k] by simp
  ultimately show "up_prop (time_at ?q) (length (tq_heap ?q)) ?n"
    by (auto simp: up_prop_def over_hole_def push_entry_def)
qed (simp add: push_entry_def)

lemma enqueue_links:
  assumes "timer_prev q t = None" and "tq_timers q \<noteq> Some t" and "enqueue_timer time t op q = (b, q')"
    and "heap_frame (push_entry time t q) c" and "c = up_heap (length (tq_heap q)) (push_entry time t q)"
  shows "timer_next q' x = (if x = t then tq_timers q else timer_next q x)"
    and "timer_prev q' x = (if x = t then None else if tq_timers q = Some x then Some t else timer_prev q x)"
    and "tq_timers q' = Some t"
    and "ops_of q' x = (if x = t then ops_of q t @ [op] else ops_of q x)"
    and "td_heap_index (tq_data q' x) = td_heap_index (tq_data c x)"
    and "tq_heap q' = tq_heap c" and "tq_op_ec q' = tq_op_ec q" and "tq_op_key q' = tq_op_key q"
    and "b \<longleftrightarrow> td_heap_index (tq_data q' t) = Some 0 \<and> hd (ops_of q' t) = op"
proof -
  have c: "tq_timers c = tq_timers q" "tq_op_ec c = tq_op_ec q" "tq_op_key c = tq_op_key q"
    "timer_next c x = timer_next q x" "timer_prev c x = timer_prev q x" "ops_of c x = ops_of q x" for x
    using assms(4) by (auto simp: heap_frame_def push_entry_def)
  have q': "q' = on_timer t (\<lambda>d. d\<lparr>td_ops := td_ops d @ [op]\<rparr>)
     ((case tq_timers c of None \<Rightarrow> on_timer t (\<lambda>d. d\<lparr>td_next := tq_timers c, td_prev := None\<rparr>) c
       | Some h \<Rightarrow> on_timer h (\<lambda>d. d\<lparr>td_prev := Some t\<rparr>) (on_timer t (\<lambda>d. d\<lparr>td_next := tq_timers c, td_prev := None\<rparr>) c))
       \<lparr>tq_timers := Some t\<rparr>)"
    using assms(1-3,5) by (auto simp: enqueue_timer_def Let_def push_entry_def on_timer_def split: option.splits)
  show "timer_next q' x = (if x = t then tq_timers q else timer_next q x)"
    "timer_prev q' x = (if x = t then None else if tq_timers q = Some x then Some t else timer_prev q x)"
    "tq_timers q' = Some t"
    "ops_of q' x = (if x = t then ops_of q t @ [op] else ops_of q x)"
    "td_heap_index (tq_data q' x) = td_heap_index (tq_data c x)"
    "tq_heap q' = tq_heap c" "tq_op_ec q' = tq_op_ec q" "tq_op_key q' = tq_op_key q"
    using assms(1,2) c by (auto simp: q' split: option.splits)
  show "b \<longleftrightarrow> td_heap_index (tq_data q' t) = Some 0 \<and> hd (ops_of q' t) = op"
    using assms(3) by (auto simp: enqueue_timer_def Let_def)
qed

lemma enqueue_new_ok:
  assumes "tq_ok q ts" and "t \<notin> set ts" and "enqueue_timer time t op q = (b, q')"
  shows "tq_ok q' (t # ts)"
    and "mset (tq_heap q') = add_mset \<lparr>he_time = time, he_timer = t\<rparr> (mset (tq_heap q))"
    and "ops_of q' x = (if x = t then [op] else ops_of q x)"
    and "tq_op_ec q' = tq_op_ec q" and "tq_op_key q' = tq_op_key q"
    and "b \<longleftrightarrow> he_timer (tq_heap q' ! 0) = t"
proof -
  from assms(1) have dll: "dll (timer_next q) (timer_prev q) (tq_timers q) ts" and heap: "heap_ok q"
    and ht: "heap_timers q = set ts" and idle: "\<And>x. x \<notin> set ts \<Longrightarrow> tq_data q x = timer_data_init"
    by (simp_all add: tq_ok_def)
  define c where "c = up_heap (length (tq_heap q)) (push_entry time t q)"
  from push_entry_ok [OF heap, of t time] assms(2) ht have c: "heap_ok c" "heap_frame (push_entry time t q) c"
    by (simp_all add: c_def)
  have t: "timer_prev q t = None" "tq_timers q \<noteq> Some t" "ops_of q t = []"
    using idle [OF assms(2)] dll_head_in [of _ _ t ts] dll assms(2) by (auto simp: timer_data_init_def)
  note links = enqueue_links [OF t(1,2) assms(3) c(2) c_def]
  show "mset (tq_heap q') = add_mset \<lparr>he_time = time, he_timer = t\<rparr> (mset (tq_heap q))"
    using c(2) by (simp add: links heap_frame_def push_entry_def)
  show "ops_of q' x = (if x = t then [op] else ops_of q x)" "tq_op_ec q' = tq_op_ec q" "tq_op_key q' = tq_op_key q"
    using t(3) by (simp_all add: links)
  have "dll (timer_next q') (timer_prev q') (Some t) (t # ts)"
    using assms(2) by (intro dll_insert [OF dll]) (auto simp: links(1,2))
  moreover have "heap_ok q'" using c(1) heap_ok_cong [of q' c] by (simp add: links)
  moreover have timers: "heap_timers q' = set (t # ts)"
    using heap_frame_timers [OF c(2)] ht by (simp add: links heap_timers_def push_entry_def)
  moreover have "tq_data q' x = timer_data_init" if "x \<notin> set (t # ts)" for x
  proof -
    have x: "x \<noteq> t" "tq_data q x = timer_data_init" "tq_timers q \<noteq> Some x" "x \<notin> heap_timers (push_entry time t q)"
      using that idle dll_head_in [of _ _ x ts] dll ht by (auto simp: heap_timers_def push_entry_def)
    then have "td_heap_index (tq_data c x) = None"
      using c(2) by (simp add: heap_frame_def push_entry_def timer_data_init_def)
    then show ?thesis using x by (intro timer_data_eqI) (simp_all add: links timer_data_init_def)
  qed
  ultimately show "tq_ok q' (t # ts)" by (simp add: tq_ok_def links(3))
  from \<open>heap_ok q'\<close> have idx: "index_ok q'" by (simp add: heap_ok_def)
  have "tq_heap q' \<noteq> []" using timers by (auto simp: heap_timers_def)
  obtain k where k: "k < length (tq_heap q')" "he_timer (tq_heap q' ! k) = t"
    using timers by (auto simp: heap_timers_def in_set_conv_nth image_iff)
      (metis in_set_conv_nth image_iff insertI1)
  then have "td_heap_index (tq_data q' t) = Some k" using idx by (auto simp: index_ok_def)
  moreover have "he_timer (tq_heap q' ! 0) = t \<longleftrightarrow> k = 0"
    using index_inj [OF idx, of 0 k] k \<open>tq_heap q' \<noteq> []\<close> by auto
  ultimately show "b \<longleftrightarrow> he_timer (tq_heap q' ! 0) = t" using t(3) by (simp add: links(4,9))
qed

text \<open>A second wait on an active timer only joins its operations.\<close>

lemma enqueue_again_ok:
  assumes "tq_ok q ts" and "t \<in> set ts" and "enqueue_timer time t op q = (b, q')"
  shows "tq_ok q' ts \<and> tq_heap q' = tq_heap q \<and> tq_op_ec q' = tq_op_ec q \<and> tq_op_key q' = tq_op_key q \<and>
    (\<forall>x. ops_of q' x = (if x = t then ops_of q t @ [op] else ops_of q x))"
proof -
  have "active t q" using tq_ok_active [OF assms(1)] assms(2) by simp
  then have q': "q' = on_timer t (\<lambda>d. d\<lparr>td_ops := td_ops d @ [op]\<rparr>) q"
    using assms(3) by (auto simp: enqueue_timer_def active_def Let_def)
  have "dll (timer_next q') (timer_prev q') (tq_timers q') ts"
    using assms(1) dll_cong [of ts "timer_next q'" "timer_next q" "timer_prev q'" "timer_prev q"]
    by (simp add: tq_ok_def q')
  moreover have "heap_ok q'" using assms(1) heap_ok_cong [of q' q] by (simp add: tq_ok_def q')
  ultimately show ?thesis using assms(1,2) by (auto simp: tq_ok_def q' heap_timers_def)
qed

section \<open>Expiry\<close>

lemma set_ecs_apply: "set_ecs ec ops f x = (if x \<in> set ops then ec else f x)"
  by (induction ops arbitrary: f) auto

text \<open>Changing the operations of an active timer.\<close>

lemma tq_ok_set_ops:
  assumes "tq_ok q ts" and "t \<in> set ts"
  shows "tq_ok ((on_timer t (\<lambda>d. d\<lparr>td_ops := ops\<rparr>) q)\<lparr>tq_op_ec := f\<rparr>) ts"
proof -
  let ?q = "(on_timer t (\<lambda>d. d\<lparr>td_ops := ops\<rparr>) q)\<lparr>tq_op_ec := f\<rparr>"
  have "dll (timer_next ?q) (timer_prev ?q) (tq_timers ?q) ts"
    using assms(1) dll_cong [of ts "timer_next ?q" "timer_next q" "timer_prev ?q" "timer_prev q"] by (simp add: tq_ok_def)
  moreover have "heap_ok ?q" using assms(1) heap_ok_cong [of ?q q] by (simp add: tq_ok_def)
  ultimately show ?thesis using assms by (auto simp: tq_ok_def heap_timers_def)
qed

lemma root_is_earliest:
  assumes "tq_ok q ts" and "e \<in> set (tq_heap q)"
  shows "sint (he_time (tq_heap q ! 0)) \<le> sint (he_time e)"
proof -
  obtain k where "k < length (tq_heap q)" "tq_heap q ! k = e" using assms(2) by (auto simp: in_set_conv_nth)
  then show ?thesis using assms(1) heap_prop_root [of "time_at q" "length (tq_heap q)" k]
    by (simp add: tq_ok_def heap_ok_def time_at_def)
qed

lemma heap_timers_distinct:
  assumes "tq_ok q ts"
  shows "distinct (map he_timer (tq_heap q))"
  using assms index_inj by (auto simp: tq_ok_def heap_ok_def distinct_conv_nth)

text \<open>The expired entries, in the order in which they are handed out, and what is left.\<close>

definition ready_result :: "ticks \<Rightarrow> timer_queue \<Rightarrow> nat list \<Rightarrow> heap_entry list \<Rightarrow> timer_queue \<Rightarrow> bool" where
  "ready_result now q ts es q' \<longleftrightarrow>
     sorted (map (\<lambda>e. sint (he_time e)) es) \<and>
     mset es = filter_mset (\<lambda>e. sint (he_time e) \<le> sint now) (mset (tq_heap q)) \<and>
     mset (tq_heap q') = filter_mset (\<lambda>e. sint now < sint (he_time e)) (mset (tq_heap q)) \<and>
     tq_ok q' (foldl (\<lambda>xs e. remove1 (he_timer e) xs) ts es) \<and>
     (\<forall>x. ops_of q' x = (if x \<in> he_timer ` set es then [] else ops_of q x)) \<and>
     (\<forall>op. tq_op_ec q' op = (if op \<in> set (concat (map (\<lambda>e. ops_of q (he_timer e)) es)) then no_error else tq_op_ec q op)) \<and>
     tq_op_key q' = tq_op_key q"

lemma ready_result_Nil:
  assumes "tq_ok q ts" and "tq_heap q = [] \<or> time_less now (he_time (tq_heap q ! 0))"
  shows "ready_result now q ts [] q"
proof -
  have late: "sint now < sint (he_time e)" if "e \<in> set (tq_heap q)" for e
    using root_is_earliest [OF assms(1) that] assms(2) that by (auto simp: time_less_def)
  then have "filter_mset (\<lambda>e. sint (he_time e) \<le> sint now) (mset (tq_heap q)) = {#}"
    "filter_mset (\<lambda>e. sint now < sint (he_time e)) (mset (tq_heap q)) = mset (tq_heap q)"
    using late by (auto simp: filter_mset_eq_conv not_le)
  then show ?thesis using assms(1) by (simp add: ready_result_def)
qed

lemma ready_loop_result:
  assumes "tq_ok q ts"
  shows "\<exists>es q'. ready_loop now ops q = Some (ops @ concat (map (\<lambda>e. ops_of q (he_timer e)) es), q') \<and>
    ready_result now q ts es q'"
  using assms
proof (induction "length (tq_heap q)" arbitrary: q ts ops)
  case 0
  then show ?case using ready_result_Nil [of q ts now]
    by (intro exI [of _ "[]"] exI [of _ q]) (subst ready_loop.simps, auto)
next
  case (Suc n)
  let ?e = "tq_heap q ! 0"
  have ne: "tq_heap q \<noteq> []" using Suc.hyps(2) by auto
  show ?case
  proof (cases "time_less now (he_time ?e)")
    case True
    then show ?thesis using ready_result_Nil [OF Suc.prems] 
      by (intro exI [of _ "[]"] exI [of _ q]) (subst ready_loop.simps, auto)
  next
    case False
    define t where "t = he_timer ?e"
    define q1 where "q1 = (on_timer t (\<lambda>d. d\<lparr>td_ops := []\<rparr>) q)\<lparr>tq_op_ec := set_ecs no_error (ops_of q t) (tq_op_ec q)\<rparr>"
    define q2 where "q2 = remove_timer t q1"
    have t: "t \<in> set ts" using Suc.prems ne by (auto simp: tq_ok_def heap_timers_def t_def)
    have "tq_ok q1 ts" unfolding q1_def by (rule tq_ok_set_ops [OF Suc.prems t])
    from remove_timer_ok [OF this, of 0 t] ne have q2: "tq_ok q2 (remove1 t ts)"
      "add_mset ?e (mset (tq_heap q2)) = mset (tq_heap q)" "\<And>x. ops_of q2 x = (if x = t then [] else ops_of q x)"
      "tq_op_ec q2 = set_ecs no_error (ops_of q t) (tq_op_ec q)" "tq_op_key q2 = tq_op_key q"
      by (auto simp: q2_def q1_def t_def)
    have "n = length (tq_heap q2)"
      using arg_cong [OF q2(2), of size] Suc.hyps(2) by simp
    from Suc.hyps(1) [OF this q2(1), of "ops @ ops_of q t"] obtain es q' where
      run: "ready_loop now (ops @ ops_of q t) q2 =
        Some ((ops @ ops_of q t) @ concat (map (\<lambda>e. ops_of q2 (he_timer e)) es), q')"
      and res: "ready_result now q2 (remove1 t ts) es q'" by blast
    have es_in: "set es \<subseteq> set (tq_heap q2)"
      using res unfolding ready_result_def by (metis filter_mset_eq_conv mset_subset_eqD set_mset_mset subsetI multiset_filter_subset)
    have fresh: "he_timer e \<noteq> t" if "e \<in> set (tq_heap q2)" for e
      using that q2(1) dll_distinct [of _ _ _ ts] Suc.prems by (auto simp: tq_ok_def heap_timers_def set_eq_iff image_iff)
    have ops: "map (\<lambda>e. ops_of q2 (he_timer e)) es = map (\<lambda>e. ops_of q (he_timer e)) es"
      using es_in fresh by (auto simp: q2(3))
    have "ready_loop now ops q = ready_loop now (ops @ ops_of q t) q2"
      using ne False by (subst ready_loop.simps) (simp add: expire_def Let_def q2_def q1_def t_def)
    then have "ready_loop now ops q = Some (ops @ concat (map (\<lambda>e. ops_of q (he_timer e)) (?e # es)), q')"
      using run by (simp add: ops t_def)
    moreover have "ready_result now q ts (?e # es) q'"
    proof -
      have due: "sint (he_time ?e) \<le> sint now" using False by (simp add: time_less_def)
      have "sint (he_time ?e) \<le> sint (he_time e)" if "e \<in> set es" for e
        using that es_in q2(2) root_is_earliest [OF Suc.prems, of e]
        by (metis insertI2 set_mset_add_mset_insert set_mset_mset subsetD)
      then show ?thesis
        using res due unfolding ready_result_def q2(2) [symmetric] ops
        by (auto simp: q2(3,4,5) set_ecs_apply t_def)
    qed
    ultimately show ?thesis by blast
  qed
qed

lemma get_ready_result:
  assumes "tq_ok q ts"
  obtains es q' where "get_ready_timers now ops q = Some (ops @ concat (map (\<lambda>e. ops_of q (he_timer e)) es), q')"
    and "ready_result now q ts es q'"
proof (cases "tq_heap q = []")
  case True
  then show ?thesis using ready_result_Nil [OF assms] by (intro that [of "[]" q]) (simp_all add: get_ready_timers_def)
next
  case False
  then show ?thesis using ready_loop_result [OF assms, of now ops] that by (auto simp: get_ready_timers_def)
qed

section \<open>Cancellation\<close>

lemma cancel_ops_take: "cancel_ops n ops = (take n ops, drop n ops)"
  by (induction n ops rule: cancel_ops.induct) auto

text \<open>Taking some operations of an active timer, which is removed when none are left.\<close>

lemma take_ops_ok:
  assumes "tq_ok q ts" and "t \<in> set ts"
    and "q1 = (on_timer t (\<lambda>d. d\<lparr>td_ops := rest\<rparr>) q)\<lparr>tq_op_ec := f\<rparr>"
    and "q' = (if rest = [] then remove_timer t q1 else q1)"
  shows "tq_ok q' (if rest = [] then remove1 t ts else ts) \<and> tq_op_ec q' = f \<and> tq_op_key q' = tq_op_key q \<and>
    (\<forall>x. ops_of q' x = (if x = t then rest else ops_of q x))"
proof -
  have q1: "tq_ok q1 ts" unfolding assms(3) by (rule tq_ok_set_ops [OF assms(1,2)])
  show ?thesis
  proof (cases "rest = []")
    case True
    obtain i where "i < length (tq_heap q1)" "he_timer (tq_heap q1 ! i) = t" by (rule listed_entry [OF q1 assms(2)])
    from remove_timer_ok [OF q1 this] True show ?thesis by (auto simp: assms(3,4))
  next
    case False
    then show ?thesis using q1 by (auto simp: assms(3,4))
  qed
qed

definition left_active :: "nat \<Rightarrow> nat list \<Rightarrow> nat list \<Rightarrow> nat list" where
  "left_active t rest ts = (if t \<in> set ts \<and> rest = [] then remove1 t ts else ts)"

lemma inactive_ops: "tq_ok q ts \<Longrightarrow> t \<notin> set ts \<Longrightarrow> ops_of q t = []"
  by (simp add: tq_ok_def timer_data_init_def)

lemma cancel_timer_ok:
  assumes "tq_ok q ts" and "cancel_timer t m q = (c, q')"
  shows "tq_ok q' (left_active t (drop m (ops_of q t)) ts)" and "c = take m (ops_of q t)"
    and "ops_of q' x = (if x = t then drop m (ops_of q t) else ops_of q x)"
    and "tq_op_ec q' op = (if op \<in> set c then make_basic operation_aborted else tq_op_ec q op)"
    and "tq_op_key q' = tq_op_key q"
proof -
  have "tq_ok q' (left_active t (drop m (ops_of q t)) ts) \<and> c = take m (ops_of q t) \<and>
    (\<forall>x. ops_of q' x = (if x = t then drop m (ops_of q t) else ops_of q x)) \<and>
    (\<forall>op. tq_op_ec q' op = (if op \<in> set c then make_basic operation_aborted else tq_op_ec q op)) \<and>
    tq_op_key q' = tq_op_key q"
  proof (cases "t \<in> set ts")
    case True
    with assms(2) tq_ok_active [OF assms(1)] take_ops_ok [OF assms(1) True refl refl, of "drop m (ops_of q t)"
        "set_ecs (make_basic operation_aborted) (take m (ops_of q t)) (tq_op_ec q)"]
    show ?thesis by (auto simp: cancel_timer_def cancel_ops_take Let_def left_active_def set_ecs_apply)
  next
    case False
    then show ?thesis using assms tq_ok_active [OF assms(1)] inactive_ops [OF assms(1)]
      by (auto simp: cancel_timer_def left_active_def)
  qed
  then show "tq_ok q' (left_active t (drop m (ops_of q t)) ts)" "c = take m (ops_of q t)"
    "ops_of q' x = (if x = t then drop m (ops_of q t) else ops_of q x)"
    "tq_op_ec q' op = (if op \<in> set c then make_basic operation_aborted else tq_op_ec q op)"
    "tq_op_key q' = tq_op_key q" by blast+
qed

lemma cancel_by_key_ok:
  assumes "tq_ok q ts" and "cancel_timer_by_key t k q = (c, q')"
  shows "tq_ok q' (left_active t [op \<leftarrow> ops_of q t. tq_op_key q op \<noteq> k] ts)"
    and "c = [op \<leftarrow> ops_of q t. tq_op_key q op = k]"
    and "ops_of q' x = (if x = t then [op \<leftarrow> ops_of q t. tq_op_key q op \<noteq> k] else ops_of q x)"
    and "tq_op_key q' = tq_op_key q"
proof -
  have "tq_ok q' (left_active t [op \<leftarrow> ops_of q t. tq_op_key q op \<noteq> k] ts) \<and>
    c = [op \<leftarrow> ops_of q t. tq_op_key q op = k] \<and>
    (\<forall>x. ops_of q' x = (if x = t then [op \<leftarrow> ops_of q t. tq_op_key q op \<noteq> k] else ops_of q x)) \<and>
    tq_op_key q' = tq_op_key q"
  proof (cases "t \<in> set ts")
    case True
    with assms(2) tq_ok_active [OF assms(1)] take_ops_ok [OF assms(1) True refl refl,
        of "[op \<leftarrow> ops_of q t. tq_op_key q op \<noteq> k]"
        "set_ecs (make_basic operation_aborted) [op \<leftarrow> ops_of q t. tq_op_key q op = k] (tq_op_ec q)"]
    show ?thesis by (auto simp: cancel_timer_by_key_def Let_def left_active_def)
  next
    case False
    then show ?thesis using assms tq_ok_active [OF assms(1)] inactive_ops [OF assms(1)]
      by (auto simp: cancel_timer_by_key_def left_active_def)
  qed
  then show "tq_ok q' (left_active t [op \<leftarrow> ops_of q t. tq_op_key q op \<noteq> k] ts)"
    "c = [op \<leftarrow> ops_of q t. tq_op_key q op = k]"
    "ops_of q' x = (if x = t then [op \<leftarrow> ops_of q t. tq_op_key q op \<noteq> k] else ops_of q x)"
    "tq_op_key q' = tq_op_key q" by blast+
qed

section \<open>Moving a timer\<close>

lemma relink_timer_effect:
  assumes "to \<noteq> from" and "timer_prev q from \<noteq> Some from" and "timer_next q from \<noteq> Some from"
    and "timer_prev q from \<noteq> Some to" and "timer_next q from \<noteq> Some to"
  shows "timer_next (relink_timer to from q) x =
      (if x = to then timer_next q from else if x = from then None
       else if timer_prev q from = Some x then Some to else timer_next q x)"
    and "timer_prev (relink_timer to from q) x =
      (if x = to then timer_prev q from else if x = from then None
       else if timer_next q from = Some x then Some to else timer_prev q x)"
    and "tq_timers (relink_timer to from q) = (if tq_timers q = Some from then Some to else tq_timers q)"
  using assms
  by (cases "timer_prev q from"; cases "timer_next q from"; auto simp: relink_timer_def Let_def)+

lemma relink_timer_frame [simp]:
  "ops_of (relink_timer to from q) x = ops_of q x"
  "td_heap_index (tq_data (relink_timer to from q) x) = td_heap_index (tq_data q x)"
  "tq_heap (relink_timer to from q) = tq_heap q" "tq_op_ec (relink_timer to from q) = tq_op_ec q"
  "tq_op_key (relink_timer to from q) = tq_op_key q"
  by (auto simp: relink_timer_def Let_def split: option.splits)

lemma take_place_effect:
  assumes "to \<noteq> from"
  shows "timer_next (take_place to from q) x = timer_next q x" "timer_prev (take_place to from q) x = timer_prev q x"
    "tq_timers (take_place to from q) = tq_timers q"
    "ops_of (take_place to from q) x =
      (if x = to then ops_of q to @ ops_of q from else if x = from then [] else ops_of q x)"
    "td_heap_index (tq_data (take_place to from q) x) =
      (if x = to then td_heap_index (tq_data q from) else if x = from then None else td_heap_index (tq_data q x))"
    "tq_heap (take_place to from q) =
      (case td_heap_index (tq_data q from) of
         Some i \<Rightarrow> if i < length (tq_heap q) then (tq_heap q)[i := (tq_heap q ! i)\<lparr>he_timer := to\<rparr>] else tq_heap q
       | None \<Rightarrow> tq_heap q)"
    "tq_op_ec (take_place to from q) = tq_op_ec q" "tq_op_key (take_place to from q) = tq_op_key q"
  using assms by (auto simp: take_place_def Let_def split: option.splits)

definition renamed :: "nat \<Rightarrow> nat \<Rightarrow> nat list \<Rightarrow> nat list" where
  "renamed to from = map (\<lambda>x. if x = from then to else x)"

lemma move_inactive:
  assumes "tq_ok q ts" and "to \<notin> set ts" and "from \<notin> set ts"
  shows "move_timer to from q = q"
proof -
  have init: "tq_data q to = timer_data_init" "tq_data q from = timer_data_init"
    using assms by (simp_all add: tq_ok_def)
  have head: "tq_timers q \<noteq> Some from" using assms dll_head_in unfolding tq_ok_def by metis
  have "on_timer from f (on_timer to g q) = q" if "f timer_data_init = timer_data_init" "g timer_data_init = timer_data_init" for f g
    using that init by (simp add: on_timer_def fun_upd_idem)
  moreover have "on_timer x f q = q" if "x = to \<or> x = from" "f timer_data_init = timer_data_init" for x f
    using that init by (auto simp: on_timer_def fun_upd_idem)
  ultimately show ?thesis
    using init head by (auto simp: move_timer_def take_place_def relink_timer_def Let_def timer_data_init_def)
qed

lemma move_timer_ok:
  assumes "tq_ok q ts" and "to \<notin> set ts" and "from \<in> set ts"
  shows "tq_ok (move_timer to from q) (renamed to from ts) \<and>
    (\<forall>x. ops_of (move_timer to from q) x = (if x = to then ops_of q from else if x = from then [] else ops_of q x)) \<and>
    map he_time (tq_heap (move_timer to from q)) = map he_time (tq_heap q) \<and>
    tq_op_ec (move_timer to from q) = tq_op_ec q \<and> tq_op_key (move_timer to from q) = tq_op_key q"
proof -
  from assms(1) have dll: "dll (timer_next q) (timer_prev q) (tq_timers q) ts" and heap: "heap_ok q"
    and ht: "heap_timers q = set ts" and idle: "\<And>x. x \<notin> set ts \<Longrightarrow> tq_data q x = timer_data_init"
    by (simp_all add: tq_ok_def)
  from heap have idx: "index_ok q" by (simp add: heap_ok_def)
  have ne: "to \<noteq> from" using assms(2,3) by auto
  obtain i where i: "i < length (tq_heap q)" "he_timer (tq_heap q ! i) = from" by (rule listed_entry [OF assms(1,3)])
  then have at: "td_heap_index (tq_data q from) = Some i" using idx by (auto simp: index_ok_def)
  let ?p = "take_place to from q" and ?m = "move_timer to from q"
  note place = take_place_effect [OF ne]
  have nb: "timer_prev q from \<noteq> Some x \<and> timer_next q from \<noteq> Some x" if "x = from \<or> x \<notin> set ts" for x
    using that dll_neighbours [OF dll assms(3)] by auto
  have links: "timer_next ?m x = (if x = to then timer_next q from else if x = from then None
       else if timer_prev q from = Some x then Some to else timer_next q x)"
    "timer_prev ?m x = (if x = to then timer_prev q from else if x = from then None
       else if timer_next q from = Some x then Some to else timer_prev q x)"
    "tq_timers ?m = (if tq_timers q = Some from then Some to else tq_timers q)" for x
    using relink_timer_effect [OF ne, of ?p] nb assms(2) by (simp_all add: move_timer_def place)
  have heap_m: "tq_heap ?m = (tq_heap q)[i := (tq_heap q ! i)\<lparr>he_timer := to\<rparr>]"
    using i by (simp add: move_timer_def place at)
  have data: "td_heap_index (tq_data ?m x) = (if x = to then Some i else if x = from then None else td_heap_index (tq_data q x))"
    "ops_of ?m x = (if x = to then ops_of q from else if x = from then [] else ops_of q x)" for x
    using inactive_ops [OF assms(1,2)] by (simp_all add: move_timer_def place at)
  have times: "map he_time (tq_heap ?m) = map he_time (tq_heap q)"
    using i by (simp add: heap_m map_update list_update_same_conv)
  then have "time_at ?m k = time_at q k" if "k < length (tq_heap q)" for k
    using that unfolding time_at_def by (metis length_map nth_map)
  then have "heap_prop (time_at ?m) (length (tq_heap ?m))"
    using heap_prop_mono [of "time_at q" "length (tq_heap q)" "length (tq_heap q)" "time_at ?m"] heap
    by (simp add: heap_ok_def heap_m)
  moreover have "index_ok ?m"
  proof -
    have "he_timer (tq_heap q ! k) \<noteq> from \<and> he_timer (tq_heap q ! k) \<noteq> to" if "k < length (tq_heap q)" "k \<noteq> i" for k
      using that index_inj [OF idx that(1) i(1)] i(2) ht assms(2) by (auto simp: heap_timers_def)
    then show ?thesis using idx i by (auto simp: index_ok_def heap_m data nth_list_update)
  qed
  moreover have "dll (timer_next ?m) (timer_prev ?m) (tq_timers ?m) (renamed to from ts)"
    unfolding renamed_def using assms(2) ne
    by (intro dll_replace [OF dll assms(2,3)]) (auto simp: links)
  moreover have "heap_timers ?m = set (renamed to from ts)"
  proof -
    have "map he_timer (tq_heap ?m) = renamed to from (map he_timer (tq_heap q))"
      using i index_inj [OF idx _ i(1)] by (intro nth_equalityI) (auto simp: heap_m renamed_def nth_list_update)
    then have "heap_timers ?m = (\<lambda>x. if x = from then to else x) ` heap_timers q"
      unfolding heap_timers_def renamed_def by (metis image_set)
    then show ?thesis by (simp add: ht renamed_def)
  qed
  moreover have "tq_data ?m x = timer_data_init" if x: "x \<notin> set (renamed to from ts)" for x
  proof (cases "x = from")
    case True
    then show ?thesis using ne by (intro timer_data_eqI) (simp_all add: links data timer_data_init_def)
  next
    case False
    have "to \<in> set (renamed to from ts)" using assms(3) by (force simp: renamed_def)
    then have "x \<noteq> to" using x by auto
    have "x \<notin> set ts" using x False by (force simp: renamed_def)
    then show ?thesis using False \<open>x \<noteq> to\<close> idle [of x] nb [of x]
      by (intro timer_data_eqI) (simp_all add: links data timer_data_init_def)
  qed
  ultimately show ?thesis using data times by (simp add: tq_ok_def heap_ok_def) (simp add: move_timer_def place)
qed

section \<open>Runs of a timer queue\<close>

text \<open>The calls of the context on its timer queue, as steps; a move cancels the waits on its target first.
  Every step yields the operations it takes out.\<close>

datatype timer_act =
    T_wait ticks nat nat
  | T_cancel nat nat
  | T_cancel_key nat nat
  | T_move nat nat
  | T_ready ticks

fun timer_step :: "timer_act \<Rightarrow> timer_queue \<Rightarrow> (nat list \<times> timer_queue) option" where
  "timer_step (T_wait time t op) q = Some ([], snd (enqueue_timer time t op q))"
| "timer_step (T_cancel t m) q = Some (cancel_timer t m q)"
| "timer_step (T_cancel_key t k) q = Some (cancel_timer_by_key t k q)"
| "timer_step (T_move to from) q = (let (ops, q1) = cancel_timer to all_of_them q in Some (ops, move_timer to from q1))"
| "timer_step (T_ready now) q = get_ready_timers now [] q"

fun timer_run :: "timer_act list \<Rightarrow> timer_queue \<Rightarrow> (nat list \<times> timer_queue) option" where
  "timer_run [] q = Some ([], q)"
| "timer_run (a # as) q =
     do {(out1, q1) \<leftarrow> timer_step a q; (out2, q2) \<leftarrow> timer_run as q1; Some (out1 @ out2, q2)}"

fun wait_ops :: "timer_act list \<Rightarrow> nat list" where
  "wait_ops [] = []"
| "wait_ops (T_wait time t op # as) = op # wait_ops as"
| "wait_ops (_ # as) = wait_ops as"

text \<open>The operations that wait in the queue.\<close>

definition waiting :: "timer_queue \<Rightarrow> nat list \<Rightarrow> nat multiset" where
  "waiting q ts = (\<Sum>t \<in> set ts. mset (ops_of q t))"

lemma waiting_superset:
  assumes "tq_ok q ts" and "finite A" and "set ts \<subseteq> A"
  shows "waiting q ts = (\<Sum>t \<in> A. mset (ops_of q t))"
  unfolding waiting_def using assms inactive_ops [OF assms(1)] by (intro sum.mono_neutral_left) auto

lemma sum_mset_upd:
  fixes f g :: "nat \<Rightarrow> nat list"
  assumes "finite A" and "t \<in> A" and "\<And>x. x \<noteq> t \<Longrightarrow> g x = f x"
  shows "(\<Sum>x \<in> A. mset (g x)) + mset (f t) = (\<Sum>x \<in> A. mset (f x)) + mset (g t)"
proof -
  have "(\<Sum>x \<in> A - {t}. mset (g x)) = (\<Sum>x \<in> A - {t}. mset (f x))" by (intro sum.cong) (auto simp: assms(3))
  then show ?thesis using assms(1,2) by (simp add: sum.remove)
qed

text \<open>A step that changes the operations of one timer only.\<close>

lemma waiting_upd:
  assumes "tq_ok q ts" and "tq_ok q' ts'" and "\<And>x. x \<noteq> t \<Longrightarrow> ops_of q' x = ops_of q x"
  shows "waiting q' ts' + mset (ops_of q t) = waiting q ts + mset (ops_of q' t)"
proof -
  let ?A = "insert t (set ts \<union> set ts')"
  have "waiting q ts = (\<Sum>t \<in> ?A. mset (ops_of q t))" "waiting q' ts' = (\<Sum>t \<in> ?A. mset (ops_of q' t))"
    using waiting_superset [OF assms(1), of ?A] waiting_superset [OF assms(2), of ?A] by auto
  then show ?thesis using sum_mset_upd [of ?A t "ops_of q'" "ops_of q"] assms(3) by simp
qed

lemma cancel_waiting:
  assumes "tq_ok q ts" and "cancel_timer t m q = (c, q')"
  shows "\<exists>ts'. tq_ok q' ts' \<and> mset c + waiting q' ts' = waiting q ts \<and> (t \<in> set ts' \<longrightarrow> drop m (ops_of q t) \<noteq> [])"
proof -
  note c = cancel_timer_ok [OF assms]
  have "mset (ops_of q t) = mset c + mset (ops_of q' t)"
    by (simp add: c(2,3) flip: mset_append)
  moreover have "waiting q' (left_active t (drop m (ops_of q t)) ts) + mset (ops_of q t) = waiting q ts + mset (ops_of q' t)"
    by (rule waiting_upd [OF assms(1) c(1)]) (simp add: c(3))
  ultimately have "mset c + waiting q' (left_active t (drop m (ops_of q t)) ts) = waiting q ts"
    by (simp add: ac_simps)
  moreover have "t \<notin> set (left_active t [] ts)"
    using assms(1) dll_distinct by (auto simp: left_active_def tq_ok_def)
  ultimately show ?thesis using c(1) by metis
qed

lemma cancel_key_waiting:
  assumes "tq_ok q ts" and "cancel_timer_by_key t k q = (c, q')"
  shows "\<exists>ts'. tq_ok q' ts' \<and> mset c + waiting q' ts' = waiting q ts"
proof -
  note c = cancel_by_key_ok [OF assms]
  have "mset (ops_of q t) = mset c + mset (ops_of q' t)" by (simp add: c(2,3))
  moreover have "waiting q' (left_active t [op \<leftarrow> ops_of q t. tq_op_key q op \<noteq> k] ts) + mset (ops_of q t) =
    waiting q ts + mset (ops_of q' t)"
    by (rule waiting_upd [OF assms(1) c(1)]) (simp add: c(3))
  ultimately show ?thesis using c(1) by (auto simp: ac_simps)
qed

lemma move_waiting:
  assumes "tq_ok q ts" and "to \<notin> set ts"
  shows "\<exists>ts'. tq_ok (move_timer to from q) ts' \<and> waiting (move_timer to from q) ts' = waiting q ts"
proof (cases "from \<in> set ts")
  case True
  let ?m = "move_timer to from q" and ?A = "insert to (set ts)"
  from move_timer_ok [OF assms True] have m: "tq_ok ?m (renamed to from ts)"
    "\<And>x. ops_of ?m x = (if x = to then ops_of q from else if x = from then [] else ops_of q x)" by blast+
  have ne: "to \<noteq> from" using True assms(2) by auto
  have "waiting ?m (renamed to from ts) = (\<Sum>t \<in> ?A. mset (ops_of ?m t))"
    by (rule waiting_superset [OF m(1)]) (auto simp: renamed_def)
  also have "\<dots> = mset (ops_of q from) + (\<Sum>t \<in> set ts - {from}. mset (ops_of ?m t))"
    using assms(2) True ne by (simp add: m(2) sum.remove [of "set ts" "from"])
  also have "(\<Sum>t \<in> set ts - {from}. mset (ops_of ?m t)) = (\<Sum>t \<in> set ts - {from}. mset (ops_of q t))"
    using assms(2) by (intro sum.cong) (auto simp: m(2))
  also have "mset (ops_of q from) + \<dots> = waiting q ts"
    using True by (simp add: waiting_def sum.remove)
  finally show ?thesis using m(1) by blast
next
  case False
  then show ?thesis using move_inactive [OF assms False] assms(1) by auto
qed

lemma ready_waiting:
  assumes "tq_ok q ts" and "get_ready_timers now [] q = Some (out, q')"
  shows "\<exists>ts'. tq_ok q' ts' \<and> mset out + waiting q' ts' = waiting q ts"
proof -
  obtain es where out: "out = concat (map (\<lambda>e. ops_of q (he_timer e)) es)" and r: "ready_result now q ts es q'"
    using assms(2) by (rule_tac get_ready_result [OF assms(1), of now "[]"]) auto
  let ?ts = "foldl (\<lambda>xs e. remove1 (he_timer e) xs) ts es" and ?E = "he_timer ` set es"
  have ok: "tq_ok q' ?ts" and ops: "\<And>x. ops_of q' x = (if x \<in> ?E then [] else ops_of q x)"
    using r by (simp_all add: ready_result_def)
  have "mset es \<subseteq># mset (tq_heap q)" using r by (simp add: ready_result_def)
  then have es: "set es \<subseteq> set (tq_heap q)" "mset (map he_timer es) \<subseteq># mset (map he_timer (tq_heap q))"
    by (metis set_mset_mono set_mset_mset) (metis \<open>mset es \<subseteq># mset (tq_heap q)\<close> image_mset_subseteq_mono mset_map)
  obtain ys where "mset (map he_timer (tq_heap q)) = mset (map he_timer es @ ys)"
    using es(2) by (metis ex_mset mset_append mset_subset_eq_exists_conv)
  then have dist: "distinct (map he_timer es)"
    using heap_timers_distinct [OF assms(1)] mset_eq_imp_distinct_iff by (metis distinct_append)
  have E: "?E \<subseteq> set ts" using es(1) assms(1) by (auto simp: tq_ok_def heap_timers_def)
  have sub: "set ?ts \<subseteq> set ts" 
  proof -
    have "set (foldl (\<lambda>xs e. remove1 (he_timer e) xs) xs es') \<subseteq> set xs" for xs and es' :: "heap_entry list"
      by (induction es' arbitrary: xs) (auto dest: notin_set_remove1 set_remove1_subset [THEN subsetD])
    then show ?thesis .
  qed
  have "mset out = (\<Sum>t \<in> ?E. mset (ops_of q t))"
  proof -
    have "mset (concat (map (\<lambda>e. ops_of q (he_timer e)) es')) = (\<Sum>t \<leftarrow> map he_timer es'. mset (ops_of q t))" for es'
      by (induction es') auto
    from this [of es] show ?thesis unfolding out sum_list_distinct_conv_sum_set [OF dist] by simp
  qed
  moreover have "waiting q' ?ts = (\<Sum>t \<in> set ts. mset (ops_of q' t))" by (rule waiting_superset [OF ok _ sub]) simp
  moreover have "\<dots> = (\<Sum>t \<in> set ts - ?E. mset (ops_of q t))"
    using E by (subst sum.subset_diff [of ?E]) (auto simp: ops intro!: sum.cong)
  moreover have "waiting q ts = (\<Sum>t \<in> set ts - ?E. mset (ops_of q t)) + (\<Sum>t \<in> ?E. mset (ops_of q t))"
    unfolding waiting_def using E by (intro sum.subset_diff) auto
  ultimately show ?thesis using ok by (metis add.commute)
qed

lemma timer_step_waiting:
  assumes "tq_ok q ts" and "size (waiting q ts) \<le> all_of_them"
  shows "\<exists>out q' ts'. timer_step a q = Some (out, q') \<and> tq_ok q' ts' \<and>
    mset out + waiting q' ts' = waiting q ts + mset (wait_ops [a])"
proof (cases a)
  case (T_wait time t op)
  obtain b q' where q': "enqueue_timer time t op q = (b, q')" by force
  have "\<exists>ts'. tq_ok q' ts' \<and> (\<forall>x. ops_of q' x = (if x = t then ops_of q t @ [op] else ops_of q x))"
  proof (cases "t \<in> set ts")
    case True
    from enqueue_again_ok [OF assms(1) True q'] show ?thesis by blast
  next
    case False
    from enqueue_new_ok(1,3) [OF assms(1) False q'] inactive_ops [OF assms(1) False] show ?thesis by auto
  qed
  then obtain ts' where ok: "tq_ok q' ts'" and ops: "\<And>x. ops_of q' x = (if x = t then ops_of q t @ [op] else ops_of q x)"
    by blast
  have "waiting q' ts' + mset (ops_of q t) = waiting q ts + mset (ops_of q' t)"
    by (rule waiting_upd [OF assms(1) ok]) (simp add: ops)
  then have "waiting q' ts' = waiting q ts + {#op#}" by (simp add: ops)
  then show ?thesis using ok q' by (auto simp: T_wait)
next
  case (T_cancel t m)
  then show ?thesis using cancel_waiting [OF assms(1), of t m] by (cases "cancel_timer t m q") auto
next
  case (T_cancel_key t k)
  then show ?thesis using cancel_key_waiting [OF assms(1), of t k] by (cases "cancel_timer_by_key t k q") auto
next
  case (T_move to src)
  obtain c q1 where c: "cancel_timer to all_of_them q = (c, q1)" by force
  from cancel_waiting [OF assms(1) c] obtain ts1 where ts1: "tq_ok q1 ts1" "mset c + waiting q1 ts1 = waiting q ts"
    "to \<in> set ts1 \<Longrightarrow> drop all_of_them (ops_of q to) \<noteq> []" by blast
  have "length (ops_of q to) \<le> size (waiting q ts)"
  proof (cases "to \<in> set ts")
    case True
    then show ?thesis by (simp add: waiting_def sum.remove)
  next
    case False
    then show ?thesis by (simp add: inactive_ops [OF assms(1)])
  qed
  then have "to \<notin> set ts1" using ts1(3) assms(2) by auto
  from move_waiting [OF ts1(1) this, of src] c ts1(2) show ?thesis by (auto simp: T_move)
next
  case (T_ready now)
  obtain out q' where out: "get_ready_timers now [] q = Some (out, q')"
    by (rule get_ready_result [OF assms(1), of now "[]"]) auto
  from ready_waiting [OF assms(1) this] out show ?thesis by (auto simp: T_ready)
qed

lemma timer_run_waiting:
  assumes "tq_ok q ts" and "size (waiting q ts) + length as \<le> all_of_them"
  shows "\<exists>out q' ts'. timer_run as q = Some (out, q') \<and> tq_ok q' ts' \<and>
    mset out + waiting q' ts' = waiting q ts + mset (wait_ops as)"
  using assms
proof (induction as arbitrary: q ts)
  case Nil
  then show ?case by auto
next
  case (Cons a as)
  have "size (waiting q ts) \<le> all_of_them" using Cons.prems(2) by simp
  from timer_step_waiting [OF Cons.prems(1) this, of a] obtain out1 q1 ts1 where
    s: "timer_step a q = Some (out1, q1)" "tq_ok q1 ts1" "mset out1 + waiting q1 ts1 = waiting q ts + mset (wait_ops [a])"
    by blast
  have "length (wait_ops [a]) \<le> 1" by (cases a) auto
  then have "size (waiting q1 ts1) + length as \<le> all_of_them"
    using arg_cong [OF s(3), of size] Cons.prems(2) by simp
  from Cons.IH [OF s(2) this] obtain out2 q2 ts2 where
    r: "timer_run as q1 = Some (out2, q2)" "tq_ok q2 ts2" "mset out2 + waiting q2 ts2 = waiting q1 ts1 + mset (wait_ops as)"
    by blast
  have "wait_ops (a # as) = wait_ops [a] @ wait_ops as" by (cases a) auto
  then have "mset (out1 @ out2) + waiting q2 ts2 = waiting q ts + mset (wait_ops (a # as))"
    using s(3) r(3) by (simp add: ac_simps)
  with s(1) r(1,2) show ?case by auto
qed

section \<open>Properties\<close>

text \<open>
  C11: In every run of a timer queue, through waits, cancellations by timer or by key, moves and
  expiries, no wait operation is lost or handed out twice: those handed out and those still waiting are
  those that were started. Looking for expired timers then returns; it hands out the operations of
  exactly the timers whose time has come, with no error, the earliest timer first and the operations of
  one timer in the order of their starts, and leaves the others waiting in a queue that is still in
  order.
\<close>

theorem timers_fire_once_and_in_order:
  assumes "length as \<le> all_of_them"
  shows "\<exists>out q ts es q'. timer_run as timer_queue_init = Some (out, q) \<and> tq_ok q ts \<and>
    mset out + waiting q ts = mset (wait_ops as) \<and>
    get_ready_timers now [] q = Some (concat (map (\<lambda>e. ops_of q (he_timer e)) es), q') \<and>
    ready_result now q ts es q'"
proof -
  have "size (waiting timer_queue_init []) + length as \<le> all_of_them" using assms by (simp add: waiting_def)
  from timer_run_waiting [OF tq_ok_init this] obtain out q ts where
    run: "timer_run as timer_queue_init = Some (out, q)" "tq_ok q ts" "mset out + waiting q ts = mset (wait_ops as)"
    by (auto simp: waiting_def)
  obtain es q' where "get_ready_timers now [] q = Some ([] @ concat (map (\<lambda>e. ops_of q (he_timer e)) es), q')"
    "ready_result now q ts es q'" by (rule get_ready_result [OF run(2)])
  with run show ?thesis by auto
qed

theorem timers_fire_once_and_in_order_witness:
  "\<exists>out q ts es q'. timer_run [T_wait 30 1 10, T_wait 20 2 11, T_wait 30 1 12, T_cancel 1 1, T_move 3 2] timer_queue_init =
      Some (out, q) \<and> tq_ok q ts \<and> mset out + waiting q ts = mset [10, 11, 12] \<and>
    get_ready_timers 25 [] q = Some (concat (map (\<lambda>e. ops_of q (he_timer e)) es), q') \<and>
    ready_result 25 q ts es q'"
  using timers_fire_once_and_in_order
      [of "[T_wait 30 1 10, T_wait 20 2 11, T_wait 30 1 12, T_cancel 1 1, T_move 3 2]" 25]
  by (simp add: all_of_them_def del: timer_run.simps)

text \<open>
  C38: The 64-bit clock arithmetic of the timers never wraps around: adding a duration to a time and
  subtracting two times give the exact result, or the nearest bound when that is out of range. The
  time-out computed from the earliest timer stays within its limit, is zero exactly when that timer
  has expired, and, unless it is the least possible one, never reaches beyond its expiry.
\<close>

theorem clock_arithmetic_saturates:
  assumes "tq_heap q = e # es" and "1 \<le> max_duration"
  shows "sint (time_add t d) = clamp (sint t + sint d) \<and>
    sint (time_subtract t t') = clamp (sint t - sint t') \<and>
    (let timeout = wait_duration_usec now max_duration q
     in 0 \<le> timeout \<and> timeout \<le> max_duration \<and> (timeout = 0 \<longleftrightarrow> sint (he_time e) \<le> sint now) \<and>
        (timeout \<le> 1 \<or> sint now + 1000 * timeout \<le> sint (he_time e)))"
proof -
  let ?s = "sint (time_subtract (he_time e) now)"
  have s: "?s = clamp (sint (he_time e) - sint now)" by (rule time_subtract_clamps)
  then have sign: "?s \<le> 0 \<longleftrightarrow> sint (he_time e) \<le> sint now" by (auto simp: clamp_def)
  have le: "0 < ?s \<Longrightarrow> ?s \<le> sint (he_time e) - sint now" using s by (auto simp: clamp_def)
  have "1000 * (?s div 1000) \<le> ?s" by simp
  moreover have "0 < ?s \<Longrightarrow> 0 \<le> ?s div 1000" by simp
  ultimately show ?thesis
    using assms sign le time_add_clamps time_subtract_clamps
    by (auto simp: wait_duration_usec_def to_usec_def Let_def)
qed

theorem clock_arithmetic_saturates_witness:
  "sint (time_add time_max 1) = 2 ^ 63 - 1 \<and> sint (time_subtract time_min 1) = - (2 ^ 63) \<and>
    wait_duration_usec 1000 60 (timer_queue_init\<lparr>tq_heap := [\<lparr>he_time = 5999, he_timer = 0\<rparr>]\<rparr>) = 4"
  using clock_arithmetic_saturates [of "timer_queue_init\<lparr>tq_heap := [\<lparr>he_time = 5999, he_timer = 0\<rparr>]\<rparr>"
      "\<lparr>he_time = 5999, he_timer = 0\<rparr>" "[]" 60 time_max 1 1 1000]
    clock_arithmetic_saturates [of "timer_queue_init\<lparr>tq_heap := [\<lparr>he_time = 5999, he_timer = 0\<rparr>]\<rparr>"
      "\<lparr>he_time = 5999, he_timer = 0\<rparr>" "[]" 60 time_min 1 1 1000]
  by (simp add: clamp_def wait_duration_usec_def to_usec_def time_subtract_def time_less_def Let_def)

end
