(* ===== verification/Asio_Strand.thy ===== *)
theory Asio_Strand
  imports Prelude Linked_List "HOL-Library.Multiset"
begin

unbundle bit_operations_syntax

text \<open>
  The strands of asio, \<^verbatim>\<open>asio/detail/impl/strand_executor_service.ipp\<close> and \<^verbatim>\<open>.hpp\<close>: a strand promises that
  the functions given to it run one at a time and in order, although any number of threads run the
  executor below it. The operations on one strand are steps of threads: its mutex protects what is
  between lock and unlock, which is one step, and nothing else.
\<close>

section \<open>A strand\<close>

text \<open>Operations are numbers. The links are those of the list of all strands of the service.\<close>

record strand_impl =
  st_mutex :: nat
  st_locked :: bool
  st_shutdown :: bool
  st_waiting :: "nat list"
  st_ready :: "nat list"
  st_next :: "nat option"
  st_prev :: "nat option"

text \<open>\<open>enqueue\<close>: what happens under the mutex, and for the function that gets the strand's lock what
  happens after it.\<close>

datatype enqueued = Is_destroyed | Is_waiting | Is_first

definition enqueue_locked :: "nat \<Rightarrow> strand_impl \<Rightarrow> enqueued \<times> strand_impl" where
  "enqueue_locked op m =
     (if st_shutdown m then (Is_destroyed, m)
      else if st_locked m then (Is_waiting, m\<lparr>st_waiting := st_waiting m @ [op]\<rparr>)
      else (Is_first, m\<lparr>st_locked := True\<rparr>))"

definition enqueue_ready :: "nat \<Rightarrow> strand_impl \<Rightarrow> strand_impl" where
  "enqueue_ready op m = m\<lparr>st_ready := st_ready m @ [op]\<rparr>"

definition push_waiting_to_ready :: "strand_impl \<Rightarrow> bool \<times> strand_impl" where
  "push_waiting_to_ready m =
     (let m1 = m\<lparr>st_ready := st_ready m @ st_waiting m, st_waiting := []\<rparr>;
          more_handlers = (st_ready m1 \<noteq> [])
      in (more_handlers, m1\<lparr>st_locked := more_handlers\<rparr>))"

text \<open>What \<open>shutdown\<close> does to one strand, with the operations it takes away.\<close>

definition shutdown_strand :: "strand_impl \<Rightarrow> nat list \<times> strand_impl" where
  "shutdown_strand m =
     (st_waiting m @ st_ready m, m\<lparr>st_shutdown := True, st_waiting := [], st_ready := []\<rparr>)"

section \<open>Threads\<close>

text \<open>
  The ways to submit a function; \<open>By_execute\<close> tells whether the executor is never to block. \<open>may_block\<close>:
  the function, or the strand, may be run before the call returns.
\<close>

datatype call_kind = By_execute bool | By_dispatch | By_post | By_defer

fun may_block :: "call_kind \<Rightarrow> bool" where
  "may_block (By_execute never) = (\<not> never)"
| "may_block By_dispatch = True"
| "may_block By_post = False"
| "may_block By_defer = False"

text \<open>
  The calls a thread is in. A thread is in user code when its stack is empty or ends in a function
  given to the strand. \<open>Run\<close> is \<open>run_ready_handlers\<close> between two handlers, and is at the same time the
  entry of the thread's call stack that \<open>running_in_this_thread\<close> looks for; \<open>Leave\<close> and \<open>Repost\<close> are the
  destructor of \<open>on_invoker_exit\<close> before and after it has moved the waiting functions.
\<close>

datatype frame =
    Enqueue call_kind nat
  | Push call_kind nat
  | Schedule call_kind
  | Run
  | Handler nat
  | Inline nat
  | Leave
  | Repost

definition running_in_this_thread :: "frame list \<Rightarrow> bool" where
  "running_in_this_thread fs \<longleftrightarrow> Run \<in> set fs"

fun user_code :: "frame list \<Rightarrow> bool" where
  "user_code [] = True"
| "user_code (Handler op # fs) = True"
| "user_code (Inline op # fs) = True"
| "user_code (f # fs) = False"

text \<open>
  \<open>invokers\<close> counts the function objects that run the strand and that the executor has been given and has not
  started. The rest is a record: functions in the order they were submitted, those
  that have started, those that were destroyed.
\<close>

record strand_run =
  strand :: strand_impl
  stacks :: "nat \<Rightarrow> frame list"
  invokers :: nat
  submitted :: "nat list"
  started :: "nat list"
  dropped :: "nat list"

definition on_stack :: "nat \<Rightarrow> frame list \<Rightarrow> strand_run \<Rightarrow> strand_run" where
  "on_stack t fs s = s\<lparr>stacks := (stacks s)(t := fs)\<rparr>"

text \<open>\<open>do_execute\<close>, \<open>dispatch\<close>, \<open>post\<close> and \<open>defer\<close>.\<close>

inductive submit_step :: "nat \<Rightarrow> strand_run \<Rightarrow> strand_run \<Rightarrow> bool" for t where
  call_inline: "user_code (stacks s t) \<Longrightarrow> may_block k \<Longrightarrow> running_in_this_thread (stacks s t) \<Longrightarrow>
     submit_step t s (on_stack t (Inline op # stacks s t) s)"
| call: "user_code (stacks s t) \<Longrightarrow> \<not> (may_block k \<and> running_in_this_thread (stacks s t)) \<Longrightarrow>
     submit_step t s (on_stack t (Enqueue k op # stacks s t) s)"
| refuse: "stacks s t = Enqueue k op # fs \<Longrightarrow> enqueue_locked op (strand s) = (Is_destroyed, m) \<Longrightarrow>
     submit_step t s (on_stack t fs s\<lparr>strand := m, submitted := submitted s @ [op], dropped := dropped s @ [op]\<rparr>)"
| wait: "stacks s t = Enqueue k op # fs \<Longrightarrow> enqueue_locked op (strand s) = (Is_waiting, m) \<Longrightarrow>
     submit_step t s (on_stack t fs s\<lparr>strand := m, submitted := submitted s @ [op]\<rparr>)"
| lock: "stacks s t = Enqueue k op # fs \<Longrightarrow> enqueue_locked op (strand s) = (Is_first, m) \<Longrightarrow>
     submit_step t s (on_stack t (Push k op # fs) s\<lparr>strand := m, submitted := submitted s @ [op]\<rparr>)"
| push: "stacks s t = Push k op # fs \<Longrightarrow>
     submit_step t s (on_stack t (Schedule k # fs) s\<lparr>strand := enqueue_ready op (strand s)\<rparr>)"
| schedule: "stacks s t = Schedule k # fs \<Longrightarrow>
     submit_step t s (on_stack t fs s\<lparr>invokers := invokers s + 1\<rparr>)"
| run_at_once: "stacks s t = Schedule k # fs \<Longrightarrow> may_block k \<Longrightarrow>
     submit_step t s (on_stack t (Run # fs) s)"

text \<open>The invoker; the executor may run it on any thread. A handler that throws ends the loop of
  \<open>run_ready_handlers\<close>.\<close>

inductive invoke_step :: "nat \<Rightarrow> strand_run \<Rightarrow> strand_run \<Rightarrow> bool" for t where
  take_invoker: "user_code (stacks s t) \<Longrightarrow> invokers s = Suc n \<Longrightarrow>
     invoke_step t s (on_stack t (Run # stacks s t) s\<lparr>invokers := n\<rparr>)"
| next_handler: "stacks s t = Run # fs \<Longrightarrow> st_ready (strand s) = op # ops \<Longrightarrow>
     invoke_step t s (on_stack t (Handler op # Run # fs) s
       \<lparr>strand := (strand s)\<lparr>st_ready := ops\<rparr>, started := started s @ [op]\<rparr>)"
| drained: "stacks s t = Run # fs \<Longrightarrow> st_ready (strand s) = [] \<Longrightarrow> invoke_step t s (on_stack t (Leave # fs) s)"
| return_handler: "stacks s t = Handler op # fs \<Longrightarrow> invoke_step t s (on_stack t fs s)"
| return_inline: "stacks s t = Inline op # fs \<Longrightarrow> invoke_step t s (on_stack t fs s)"
| throw_handler: "stacks s t = Handler op # Run # fs \<Longrightarrow> invoke_step t s (on_stack t (Leave # fs) s)"
| leave: "stacks s t = Leave # fs \<Longrightarrow> push_waiting_to_ready (strand s) = (again, m) \<Longrightarrow>
     invoke_step t s (on_stack t (if again then Repost # fs else fs) s\<lparr>strand := m\<rparr>)"
| repost: "stacks s t = Repost # fs \<Longrightarrow> invoke_step t s (on_stack t fs s\<lparr>invokers := invokers s + 1\<rparr>)"

text \<open>The context is shut down when no thread is in it.\<close>

inductive strand_step :: "strand_run \<Rightarrow> strand_run \<Rightarrow> bool" where
  submits: "submit_step t s s' \<Longrightarrow> strand_step s s'"
| runs: "invoke_step t s s' \<Longrightarrow> strand_step s s'"
| shuts_down: "\<forall>t. stacks s t = [] \<Longrightarrow> shutdown_strand (strand s) = (ops, m) \<Longrightarrow>
     strand_step s (s\<lparr>strand := m, dropped := dropped s @ ops\<rparr>)"

definition strand_init :: "nat \<Rightarrow> strand_run" where
  "strand_init mu =
     \<lparr>strand = \<lparr>st_mutex = mu, st_locked = False, st_shutdown = False, st_waiting = [], st_ready = [],
                st_next = None, st_prev = None\<rparr>,
      stacks = (\<lambda>_. []), invokers = 0, submitted = [], started = [], dropped = []\<rparr>"

inductive strand_reachable :: "nat \<Rightarrow> strand_run \<Rightarrow> bool" for mu where
  start: "strand_reachable mu (strand_init mu)"
| step: "strand_reachable mu s \<Longrightarrow> strand_step s t \<Longrightarrow> strand_reachable mu t"

section \<open>The service\<close>

text \<open>
  All strands, at their addresses, in a linked list, and a pool of mutexes they share. \<open>sv_mutexes\<close> lists the
  entries of the pool that have been filled.
\<close>

record strand_service =
  sv_salt :: u64
  sv_mutexes :: "nat set"
  sv_list :: "nat option"
  sv_strands :: "nat \<Rightarrow> strand_impl"

definition num_mutexes :: u64 where "num_mutexes = 193"

definition mutex_index :: "u64 \<Rightarrow> u64 \<Rightarrow> u64" where
  "mutex_index address salt =
     (let i1 = address + drop_bit 3 address;
          i2 = i1 XOR (salt + 0x9e3779b9 + push_bit 6 i1 + drop_bit 2 i1)
      in i2 mod num_mutexes)"

definition on_strand :: "nat \<Rightarrow> (strand_impl \<Rightarrow> strand_impl) \<Rightarrow> strand_service \<Rightarrow> strand_service" where
  "on_strand i f s = s\<lparr>sv_strands := (sv_strands s)(i := f (sv_strands s i))\<rparr>"

text \<open>A new strand at the address \<open>i\<close>.\<close>

definition create_implementation :: "nat \<Rightarrow> strand_service \<Rightarrow> strand_service" where
  "create_implementation i s =
     (let k = unat (mutex_index (word_of_nat i) (sv_salt s));
          s1 = s\<lparr>sv_salt := sv_salt s + 1, sv_mutexes := insert k (sv_mutexes s)\<rparr>;
          s2 = on_strand i (\<lambda>_. \<lparr>st_mutex = k, st_locked = False, st_shutdown = False, st_waiting = [], st_ready = [],
                 st_next = sv_list s1, st_prev = None\<rparr>) s1;
          s3 = (case sv_list s2 of None \<Rightarrow> s2 | Some h \<Rightarrow> on_strand h (\<lambda>m. m\<lparr>st_prev := Some i\<rparr>) s2)
      in s3\<lparr>sv_list := Some i\<rparr>)"

definition destroy_implementation :: "nat \<Rightarrow> strand_service \<Rightarrow> strand_service" where
  "destroy_implementation i s =
     (let m = sv_strands s i;
          s1 = (if sv_list s = Some i then s\<lparr>sv_list := st_next m\<rparr> else s);
          s2 = (case st_prev m of None \<Rightarrow> s1 | Some p \<Rightarrow> on_strand p (\<lambda>x. x\<lparr>st_next := st_next m\<rparr>) s1)
      in case st_next m of None \<Rightarrow> s2 | Some n \<Rightarrow> on_strand n (\<lambda>x. x\<lparr>st_prev := st_prev m\<rparr>) s2)"

text \<open>The loop of \<open>shutdown\<close> from a strand on; \<open>ops\<close> collects what is destroyed at its end.\<close>

partial_function (option) shutdown_strands :: "nat option \<Rightarrow> nat list \<Rightarrow> strand_service \<Rightarrow> (nat list \<times> strand_service) option" where
  "shutdown_strands p ops s =
     (case p of
        None \<Rightarrow> Some (ops, s)
      | Some i \<Rightarrow>
          (let (taken, m) = shutdown_strand (sv_strands s i);
               s1 = on_strand i (\<lambda>_. m) s
           in shutdown_strands (st_next (sv_strands s1 i)) (ops @ taken) s1))"

definition strand_service_shutdown :: "strand_service \<Rightarrow> (nat list \<times> strand_service) option" where
  "strand_service_shutdown s = shutdown_strands (sv_list s) [] s"

end
