(* ===== verification/Asio_Strand_Facts.thy ===== *)
theory Asio_Strand_Facts
  imports Asio_Strand
begin

text \<open>
  A strand serialises its functions: at most one thread is in it, functions run in the order in which they
  were submitted, and none is left behind. All of it follows from one fact: the strand's lock is
  held by exactly one invoker or by one thread.
\<close>

section \<open>The holder of the lock\<close>

fun holds :: "frame \<Rightarrow> nat" where
  "holds (Push k op) = 1"
| "holds (Schedule k) = 1"
| "holds Run = 1"
| "holds Leave = 1"
| "holds Repost = 1"
| "holds f = 0"

fun tokens :: "frame list \<Rightarrow> nat" where
  "tokens [] = 0"
| "tokens (f # fs) = holds f + tokens fs"

datatype holder = Nobody | Executor | Thread nat

definition held_by :: "holder \<Rightarrow> strand_run \<Rightarrow> bool" where
  "held_by h s \<longleftrightarrow> st_locked (strand s) = (h \<noteq> Nobody) \<and> invokers s = (if h = Executor then 1 else 0) \<and>
     (\<forall>t. tokens (stacks s t) = (if h = Thread t then 1 else 0))"

text \<open>A function between the two halves of \<open>enqueue\<close>.\<close>

fun pushing :: "frame list \<Rightarrow> nat list" where
  "pushing [] = []"
| "pushing (Push k op # fs) = op # pushing fs"
| "pushing (f # fs) = pushing fs"

definition between :: "holder \<Rightarrow> strand_run \<Rightarrow> nat list" where
  "between h s = (case h of Thread t \<Rightarrow> pushing (stacks s t) | _ \<Rightarrow> [])"

text \<open>Handlers are called from \<open>run_ready_handlers\<close>, functions that run at once inside a handler.\<close>

fun nested :: "frame list \<Rightarrow> bool" where
  "nested [] = True"
| "nested (Handler op # fs) = (fs \<noteq> [] \<and> hd fs = Run \<and> nested fs)"
| "nested (Inline op # fs) = (Run \<in> set fs \<and> nested fs)"
| "nested (f # fs) = nested fs"

definition in_order :: "holder \<Rightarrow> strand_run \<Rightarrow> bool" where
  "in_order h s \<longleftrightarrow>
     (if st_shutdown (strand s)
      then st_ready (strand s) = [] \<and> st_waiting (strand s) = [] \<and> between h s = [] \<and>
        (\<exists>rest. submitted s = started s @ rest \<and> mset rest = mset (dropped s))
      else submitted s = started s @ between h s @ st_ready (strand s) @ st_waiting (strand s) \<and> dropped s = [] \<and>
        (between h s \<noteq> [] \<longrightarrow> st_ready (strand s) = []) \<and>
        (h = Nobody \<longrightarrow> st_ready (strand s) = [] \<and> st_waiting (strand s) = []))"

definition strand_inv :: "strand_run \<Rightarrow> bool" where
  "strand_inv s \<longleftrightarrow> (\<exists>h. held_by h s \<and> in_order h s) \<and> (\<forall>t. nested (stacks s t))"

lemma on_stack_simps [simp]:
  "stacks (on_stack t fs s) = (stacks s)(t := fs)" "strand (on_stack t fs s) = strand s"
  "invokers (on_stack t fs s) = invokers s" "submitted (on_stack t fs s) = submitted s"
  "started (on_stack t fs s) = started s" "dropped (on_stack t fs s) = dropped s"
  by (simp_all add: on_stack_def)

lemma tokens_pushing: "tokens fs = 0 \<Longrightarrow> pushing fs = []"
  by (induction fs rule: pushing.induct) auto

lemma holder_is: "held_by h s \<Longrightarrow> stacks s t = f # fs \<Longrightarrow> holds f = 1 \<Longrightarrow> h = Thread t \<and> tokens fs = 0"
  by (auto simp: held_by_def dest: spec [of _ t] split: if_splits)

text \<open>A step of a thread that leaves the lock alone.\<close>

lemma same_holder:
  assumes "held_by h s" and "strand s' = m" and "st_locked m = st_locked (strand s)" and "invokers s' = invokers s"
    and "stacks s' = (stacks s)(t := fs)" and "tokens fs = tokens (stacks s t)"
  shows "held_by h s'"
  using assms by (auto simp: held_by_def)

lemma same_between:
  assumes "stacks s' = (stacks s)(t := fs)" and "pushing fs = pushing (stacks s t)"
  shows "between h s' = between h s"
  using assms by (auto simp: between_def split: holder.split)

lemma nested_step:
  assumes "\<forall>t. nested (stacks s t)" and "stacks s' = (stacks s)(t := fs)" and "nested fs"
  shows "\<forall>t. nested (stacks s' t)"
  using assms by simp

text \<open>Steps that keep everything but the calls of one thread.\<close>

lemma inv_stack_only:
  assumes "strand_inv s" and "s' = on_stack t fs s" and "tokens fs = tokens (stacks s t)"
    and "pushing fs = pushing (stacks s t)" and "nested fs"
  shows "strand_inv s'"
proof -
  obtain h where h: "held_by h s" "in_order h s" using assms(1) by (auto simp: strand_inv_def)
  have "held_by h s'" using same_holder [OF h(1), of s' "strand s" t fs] assms by simp
  moreover have "in_order h s'" using h(2) same_between [of s' s t fs h] assms by (simp add: in_order_def)
  ultimately show ?thesis using assms(1,2,5) by (auto simp: strand_inv_def)
qed

section \<open>Every step keeps the invariant\<close>

lemma inv_intro: "held_by h s \<Longrightarrow> in_order h s \<Longrightarrow> \<forall>t. nested (stacks s t) \<Longrightarrow> strand_inv s"
  by (auto simp: strand_inv_def)

lemma nested_tail: "nested (f # fs) \<Longrightarrow> nested fs"
  by (cases f) simp_all

text \<open>The lock passes from the executor to a thread, and back.\<close>

lemma executor_to_thread:
  assumes "held_by Executor s" and "s' = on_stack t (Run # stacks s t) s\<lparr>invokers := n\<rparr>" and "invokers s = Suc n"
  shows "held_by (Thread t) s'"
  using assms by (auto simp: held_by_def)

lemma thread_to_executor:
  assumes "held_by h s" and "stacks s t = f # fs" and "holds f = 1" and "s' = on_stack t fs s\<lparr>invokers := invokers s + 1\<rparr>"
  shows "held_by Executor s' \<and> h = Thread t"
  using assms holder_is [OF assms(1-3)] by (auto simp: held_by_def)

lemma pushing_under:
  assumes "held_by h s" and "stacks s t = f # fs" and "holds f = 1"
  shows "between h s = pushing (f # fs)" and "pushing fs = []"
  using assms holder_is [OF assms] by (auto simp: between_def tokens_pushing)

lemma submit_keeps_inv:
  assumes "strand_inv s" and "submit_step t s s'"
  shows "strand_inv s'"
proof -
  obtain h where h: "held_by h s" "in_order h s" and n: "\<forall>t. nested (stacks s t)"
    using assms(1) by (auto simp: strand_inv_def)
  from assms(2) show ?thesis
  proof cases
    case (call_inline k op)
    then show ?thesis using n
      by (intro inv_stack_only [OF assms(1), of s' t "Inline op # stacks s t"]) (auto simp: running_in_this_thread_def)
  next
    case (call k op)
    then show ?thesis using n by (intro inv_stack_only [OF assms(1), of s' t "Enqueue k op # stacks s t"]) auto
  next
    case (refuse k op fs m)
    then have m: "m = strand s" "st_shutdown (strand s)" by (auto simp: enqueue_locked_def split: if_splits)
    have "held_by h s'" using same_holder [OF h(1), of s' m t fs] refuse m by simp
    moreover have "between h s' = between h s" using refuse by (intro same_between [where t = t and fs = fs]) auto
    then have "in_order h s'" using h(2) refuse m by (auto simp: in_order_def)
    moreover have "\<forall>u. nested (stacks s' u)" using n spec [OF n, of t] refuse by auto
    ultimately show ?thesis by (rule inv_intro)
  next
    case (wait k op fs m)
    then have m: "m = (strand s)\<lparr>st_waiting := st_waiting (strand s) @ [op]\<rparr>" "\<not> st_shutdown (strand s)" "st_locked (strand s)"
      by (auto simp: enqueue_locked_def split: if_splits)
    then have "h \<noteq> Nobody" using h(1) by (auto simp: held_by_def)
    have "held_by h s'" using same_holder [OF h(1), of s' m t fs] wait m by simp
    moreover have "between h s' = between h s" using wait by (intro same_between [where t = t and fs = fs]) auto
    then have "in_order h s'" using h(2) wait m \<open>h \<noteq> Nobody\<close> by (simp add: in_order_def)
    moreover have "\<forall>u. nested (stacks s' u)" using n spec [OF n, of t] wait by auto
    ultimately show ?thesis by (rule inv_intro)
  next
    case (lock k op fs m)
    then have m: "m = (strand s)\<lparr>st_locked := True\<rparr>" "\<not> st_shutdown (strand s)" "\<not> st_locked (strand s)"
      by (auto simp: enqueue_locked_def split: if_splits)
    then have no: "h = Nobody" using h(1) by (auto simp: held_by_def)
    have fs: "tokens fs = 0" using h(1) lock no by (auto simp: held_by_def dest: spec [of _ t])
    have "held_by (Thread t) s'" using h(1) lock m no fs by (auto simp: held_by_def)
    moreover have "in_order (Thread t) s'" using h(2) lock m no fs by (simp add: in_order_def between_def tokens_pushing)
    moreover have "\<forall>u. nested (stacks s' u)" using n spec [OF n, of t] lock by auto
    ultimately show ?thesis by (rule inv_intro)
  next
    case (push k op fs)
    note p = holder_is [OF h(1) push(2)] pushing_under [OF h(1) push(2)]
    then have "held_by (Thread t) s'" using h(1) push by (auto simp: held_by_def enqueue_ready_def)
    moreover have "in_order (Thread t) s'" using h(2) push p by (auto simp: in_order_def between_def enqueue_ready_def split: if_splits)
    moreover have "\<forall>u. nested (stacks s' u)" using n spec [OF n, of t] push by auto
    ultimately show ?thesis by (rule inv_intro)
  next
    case (schedule k fs)
    then have "held_by Executor s'" "h = Thread t" using thread_to_executor [OF h(1) schedule(2)] by auto
    moreover from this have "in_order Executor s'"
      using h(2) schedule pushing_under [OF h(1) schedule(2)] by (simp add: in_order_def between_def)
    moreover have "\<forall>u. nested (stacks s' u)" using n spec [OF n, of t] schedule by auto
    ultimately show ?thesis by (intro inv_intro)
  next
    case (run_at_once k fs)
    then show ?thesis using n spec [OF n, of t] by (intro inv_stack_only [OF assms(1), of s' t "Run # fs"]) auto
  qed
qed

lemma invoke_keeps_inv:
  assumes "strand_inv s" and "invoke_step t s s'"
  shows "strand_inv s'"
proof -
  obtain h where h: "held_by h s" "in_order h s" and n: "\<forall>t. nested (stacks s t)"
    using assms(1) by (auto simp: strand_inv_def)
  note nt = spec [OF n, of t]
  from assms(2) show ?thesis
  proof cases
    case (take_invoker n')
    then have ex: "h = Executor" using h(1) by (auto simp: held_by_def split: if_splits)
    then have "tokens (stacks s t) = 0" using h(1) by (auto simp: held_by_def)
    then have "between (Thread t) s' = []" using take_invoker by (simp add: between_def tokens_pushing)
    then have "in_order (Thread t) s'" using h(2) ex take_invoker by (auto simp: in_order_def between_def split: if_splits)
    moreover have "held_by (Thread t) s'" using executor_to_thread h(1) ex take_invoker by blast
    moreover have "\<forall>u. nested (stacks s' u)" using n take_invoker by auto
    ultimately show ?thesis by (intro inv_intro)
  next
    case (next_handler fs op ops)
    note p = holder_is [OF h(1) next_handler(2)] pushing_under [OF h(1) next_handler(2)]
    have "held_by h s'" using same_holder [OF h(1), of s' "(strand s)\<lparr>st_ready := ops\<rparr>" t "Handler op # Run # fs"] next_handler by simp
    moreover have "between h s' = between h s" using next_handler
      by (intro same_between [where t = t and fs = "Handler op # Run # fs"]) auto
    then have "in_order h s'" using h(2) next_handler p by (auto simp: in_order_def split: if_splits)
    moreover have "\<forall>u. nested (stacks s' u)" using n nt next_handler by auto
    ultimately show ?thesis by (rule inv_intro)
  next
    case (leave fs again m)
    note p = holder_is [OF h(1) leave(2)] pushing_under [OF h(1) leave(2)]
    define h' where "h' = (if again then Thread t else Nobody)"
    have m: "m = (strand s)\<lparr>st_ready := st_ready (strand s) @ st_waiting (strand s), st_waiting := [], st_locked := again\<rparr>"
      "again \<longleftrightarrow> st_ready (strand s) @ st_waiting (strand s) \<noteq> []"
      using leave(3) by (auto simp: push_waiting_to_ready_def Let_def)
    have "held_by h' s'" using h(1) leave(1,2) p m(1) by (auto simp: held_by_def h'_def)
    moreover have "between h' s' = []" using leave(1,2) p by (auto simp: between_def h'_def)
    then have "in_order h' s'" using h(2) leave(1,2) p m by (auto simp: in_order_def h'_def split: if_splits)
    moreover have "\<forall>u. nested (stacks s' u)" using n nt leave by auto
    ultimately show ?thesis by (rule inv_intro)
  next
    case (repost fs)
    then have "held_by Executor s'" "h = Thread t" using thread_to_executor [OF h(1) repost(2)] by auto
    moreover from this have "in_order Executor s'"
      using h(2) repost pushing_under [OF h(1) repost(2)] by (simp add: in_order_def between_def)
    moreover have "\<forall>u. nested (stacks s' u)" using n nt repost by auto
    ultimately show ?thesis by (intro inv_intro)
  qed (use nt nested_tail in \<open>auto intro!: inv_stack_only [OF assms(1)]\<close>)
qed

lemma shutdown_keeps_inv:
  assumes "strand_inv s" and "\<forall>t. stacks s t = []" and "shutdown_strand (strand s) = (ops, m)"
  shows "strand_inv (s\<lparr>strand := m, dropped := dropped s @ ops\<rparr>)"
proof -
  obtain h where h: "held_by h s" "in_order h s" using assms(1) by (auto simp: strand_inv_def)
  have "held_by h (s\<lparr>strand := m, dropped := dropped s @ ops\<rparr>)"
    using h(1) assms(3) by (auto simp: held_by_def shutdown_strand_def)
  moreover have "between h s = []" using assms(2) by (auto simp: between_def split: holder.split)
  then have "in_order h (s\<lparr>strand := m, dropped := dropped s @ ops\<rparr>)"
    using h(2) assms(2,3) by (auto simp: in_order_def shutdown_strand_def between_def split: if_splits holder.splits)
  ultimately show ?thesis using assms(2) by (intro inv_intro) simp_all
qed

lemma reachable_inv: "strand_reachable mu s \<Longrightarrow> strand_inv s"
proof (induction rule: strand_reachable.induct)
  case start
  show ?case
    by (rule inv_intro [of Nobody]) (simp_all add: strand_init_def held_by_def in_order_def between_def)
next
  case (step s t)
  from step(2,3) show ?case
    by (cases rule: strand_step.cases) (auto intro: submit_keeps_inv invoke_keeps_inv shutdown_keeps_inv)
qed

section \<open>What a strand promises\<close>

fun is_handler :: "frame \<Rightarrow> bool" where
  "is_handler (Handler op) = True"
| "is_handler f = False"

lemma nested_handlers_run:
  "nested fs \<Longrightarrow> length (filter is_handler fs) \<le> tokens fs \<and>
    (fs \<noteq> [] \<and> hd fs = Run \<longrightarrow> length (filter is_handler fs) < tokens fs)"
  by (induction fs rule: nested.induct) auto

lemma nested_handlers: "nested fs \<Longrightarrow> length (filter is_handler fs) \<le> tokens fs"
  using nested_handlers_run by blast

lemma nested_in_strand: "nested fs \<Longrightarrow> Handler op \<in> set fs \<or> Inline op \<in> set fs \<Longrightarrow> Run \<in> set fs"
  by (induction fs rule: nested.induct) (auto simp: neq_Nil_conv)

lemma running_holds: "Run \<in> set fs \<Longrightarrow> tokens fs \<noteq> 0"
  by (induction fs) auto

lemma between_short: "held_by h s \<Longrightarrow> length (between h s) \<le> 1"
proof -
  assume "held_by h s"
  moreover have "length (pushing fs) \<le> tokens fs" for fs by (induction fs rule: pushing.induct) auto
  ultimately show ?thesis
    by (auto simp: between_def held_by_def split: holder.splits) (metis One_nat_def)
qed

text \<open>
  C15: At any time at most one thread is in the strand, calling at most one function of its queue, and functions
  that run at once do so inside it. The functions submitted start in the order of their submission and
  each once; the others are in the queues in order, or, after a shutdown, destroyed without having
  run. As long as one has not started, an invoker is on its way or a thread holds the strand's lock.
\<close>

theorem strand_serialises_functions:
  assumes "strand_reachable mu s"
  shows "(\<forall>t u. running_in_this_thread (stacks s t) \<and> running_in_this_thread (stacks s u) \<longrightarrow> t = u) \<and>
    (\<forall>t op. Handler op \<in> set (stacks s t) \<or> Inline op \<in> set (stacks s t) \<longrightarrow> running_in_this_thread (stacks s t)) \<and>
    (\<forall>t. length (filter is_handler (stacks s t)) \<le> 1) \<and>
    (\<exists>rest. submitted s = started s @ rest \<and>
      (if st_shutdown (strand s) then mset rest = mset (dropped s)
       else dropped s = [] \<and> (\<exists>p. length p \<le> 1 \<and> rest = p @ st_ready (strand s) @ st_waiting (strand s)) \<and>
         (rest \<noteq> [] \<longrightarrow> invokers s = 1 \<or> (\<exists>t. tokens (stacks s t) = 1))))"
proof -
  obtain h where h: "held_by h s" "in_order h s" and n: "\<forall>t. nested (stacks s t)"
    using reachable_inv [OF assms] by (auto simp: strand_inv_def)
  have one: "tokens (stacks s t) = (if h = Thread t then 1 else 0)" for t using h(1) by (simp add: held_by_def)
  have "\<forall>t u. running_in_this_thread (stacks s t) \<and> running_in_this_thread (stacks s u) \<longrightarrow> t = u"
    using running_holds one by (metis running_in_this_thread_def holder.inject)
  moreover have "\<forall>t op. Handler op \<in> set (stacks s t) \<or> Inline op \<in> set (stacks s t) \<longrightarrow> running_in_this_thread (stacks s t)"
    using n nested_in_strand by (auto simp: running_in_this_thread_def)
  moreover have "\<forall>t. length (filter is_handler (stacks s t)) \<le> 1"
    using n nested_handlers one by (metis le_trans le_numeral_extra(4) zero_le_one)
  moreover have "\<exists>rest. submitted s = started s @ rest \<and>
      (if st_shutdown (strand s) then mset rest = mset (dropped s)
       else dropped s = [] \<and> (\<exists>p. length p \<le> 1 \<and> rest = p @ st_ready (strand s) @ st_waiting (strand s)) \<and>
         (rest \<noteq> [] \<longrightarrow> invokers s = 1 \<or> (\<exists>t. tokens (stacks s t) = 1)))"
  proof (cases "st_shutdown (strand s)")
    case True
    then show ?thesis using h(2) by (auto simp: in_order_def)
  next
    case False
    let ?rest = "between h s @ st_ready (strand s) @ st_waiting (strand s)"
    have "submitted s = started s @ ?rest" "dropped s = []" using h(2) False by (simp_all add: in_order_def)
    moreover have "invokers s = 1 \<or> (\<exists>t. tokens (stacks s t) = 1)" if "?rest \<noteq> []"
      using that h False one by (cases h) (auto simp: in_order_def between_def held_by_def)
    ultimately show ?thesis using False between_short [OF h(1)] by (intro exI [of _ ?rest]) auto
  qed
  ultimately show ?thesis by blast
qed

text \<open>One thread posts a function, another runs it.\<close>

lemma posted_function_runs:
  "\<exists>s. strand_reachable 0 s \<and> stacks s 1 = [Handler 7, Run] \<and> submitted s = [7] \<and> started s = [7]"
proof -
  note go = strand_reachable.step [OF _ submits] and run = strand_reachable.step [OF _ runs]
  note defs = strand_init_def enqueue_locked_def enqueue_ready_def on_stack_def
  have "strand_reachable 0 (strand_init 0)" by (rule strand_reachable.start)
  from go [OF this submit_step.call [of _ 0 By_post 7]]
  have "strand_reachable 0 (on_stack 0 [Enqueue By_post 7] (strand_init 0))" by (simp add: defs)
  from go [OF this submit_step.lock [of _ 0 By_post 7 "[]"]]
  have "strand_reachable 0 (on_stack 0 [Push By_post 7] (strand_init 0)
      \<lparr>strand := (strand (strand_init 0))\<lparr>st_locked := True\<rparr>, submitted := [7]\<rparr>)" by (simp add: defs)
  from go [OF this submit_step.push [of _ 0 By_post 7 "[]"]]
  have "strand_reachable 0 (on_stack 0 [Schedule By_post] (strand_init 0)
      \<lparr>strand := (strand (strand_init 0))\<lparr>st_locked := True, st_ready := [7]\<rparr>, submitted := [7]\<rparr>)" by (simp add: defs)
  from go [OF this submit_step.schedule [of _ 0 By_post "[]"]]
  have "strand_reachable 0 (strand_init 0
      \<lparr>strand := (strand (strand_init 0))\<lparr>st_locked := True, st_ready := [7]\<rparr>, submitted := [7], invokers := 1\<rparr>)"
    by (simp add: defs fun_upd_idem)
  from run [OF this invoke_step.take_invoker [of _ 1 0]]
  have "strand_reachable 0 (on_stack 1 [Run] (strand_init 0)
      \<lparr>strand := (strand (strand_init 0))\<lparr>st_locked := True, st_ready := [7]\<rparr>, submitted := [7]\<rparr>)" by (simp add: defs)
  from run [OF this invoke_step.next_handler [of _ 1 "[]" 7 "[]"]]
  have "strand_reachable 0 (on_stack 1 [Handler 7, Run] (strand_init 0)
      \<lparr>strand := (strand (strand_init 0))\<lparr>st_locked := True\<rparr>, submitted := [7], started := [7]\<rparr>)" by (simp add: defs)
  then show ?thesis by (intro exI conjI, assumption) (simp_all add: defs)
qed

theorem strand_serialises_functions_witness:
  "\<exists>s. strand_reachable 0 s \<and> stacks s 1 = [Handler 7, Run] \<and> (\<forall>t. running_in_this_thread (stacks s t) \<longrightarrow> t = 1) \<and> dropped s = []"
proof -
  obtain s where s: "strand_reachable 0 s" "stacks s 1 = [Handler 7, Run]" "submitted s = [7]" "started s = [7]"
    using posted_function_runs by blast
  then have "running_in_this_thread (stacks s 1)" by (simp add: running_in_this_thread_def)
  moreover have "dropped s = []"
    using strand_serialises_functions [OF s(1)] s(3,4) by (auto split: if_splits)
  ultimately show ?thesis
    using strand_serialises_functions [OF s(1)] s(1,2) by blast
qed

section \<open>The list of strands\<close>

definition strands_listed :: "strand_service \<Rightarrow> nat list \<Rightarrow> bool" where
  "strands_listed s xs \<longleftrightarrow> dll (\<lambda>i. st_next (sv_strands s i)) (\<lambda>i. st_prev (sv_strands s i)) (sv_list s) xs"

lemma on_strand_simps [simp]:
  "sv_strands (on_strand i f s) = (sv_strands s)(i := f (sv_strands s i))" "sv_list (on_strand i f s) = sv_list s"
  by (simp_all add: on_strand_def)

lemma create_lists:
  assumes "strands_listed s xs" and "i \<notin> set xs"
  shows "strands_listed (create_implementation i s) (i # xs)"
proof -
  have "sv_list s \<noteq> Some i" using assms by (auto simp: strands_listed_def dest: dll_head_in)
  then have "dll (\<lambda>x. st_next (sv_strands (create_implementation i s) x))
      (\<lambda>x. st_prev (sv_strands (create_implementation i s) x)) (Some i) (i # xs)"
    using assms unfolding strands_listed_def
    by (intro dll_insert) (auto simp: create_implementation_def Let_def split: option.splits)
  then show ?thesis by (simp add: strands_listed_def create_implementation_def Let_def)
qed

lemma destroy_unlists:
  assumes "strands_listed s xs" and "i \<in> set xs"
  shows "strands_listed (destroy_implementation i s) (remove1 i xs)"
proof -
  have "st_prev (sv_strands s i) \<noteq> Some i" "st_next (sv_strands s i) \<noteq> Some i"
    using dll_neighbours [OF assms [unfolded strands_listed_def]] by auto
  then show ?thesis
    using assms unfolding strands_listed_def
    by (intro dll_remove [OF _ assms(2)]) (auto simp: destroy_implementation_def Let_def split: option.splits)
qed

lemma mutex_in_pool: "unat (mutex_index a salt) < 193"
proof -
  have "x mod num_mutexes < num_mutexes" for x :: u64 by (simp add: num_mutexes_def word_mod_less_divisor)
  then have "mutex_index a salt < num_mutexes" by (simp add: mutex_index_def Let_def)
  then show ?thesis by (simp add: num_mutexes_def word_less_nat_alt)
qed

lemma create_mutex:
  "st_mutex (sv_strands (create_implementation i s) i) < 193 \<and>
   st_mutex (sv_strands (create_implementation i s) i) \<in> sv_mutexes (create_implementation i s)"
  by (auto simp: create_implementation_def Let_def mutex_in_pool on_strand_def split: option.splits)

lemma shutdown_strands_listed:
  assumes "seg (\<lambda>i. st_next (sv_strands s i)) (\<lambda>i. st_prev (sv_strands s i)) a p xs b None" and "distinct xs"
  shows "\<exists>t. shutdown_strands p ops s =
      Some (ops @ concat (map (\<lambda>i. st_waiting (sv_strands s i) @ st_ready (sv_strands s i)) xs), t) \<and>
    (\<forall>i\<in>set xs. st_shutdown (sv_strands t i) \<and> st_waiting (sv_strands t i) = [] \<and> st_ready (sv_strands t i) = []) \<and>
    (\<forall>i. i \<notin> set xs \<longrightarrow> sv_strands t i = sv_strands s i)"
  using assms
proof (induction xs arbitrary: a p s ops)
  case Nil
  then show ?case by (simp add: shutdown_strands.simps)
next
  case (Cons x xs)
  let ?s = "on_strand x (\<lambda>_. snd (shutdown_strand (sv_strands s x))) s"
  have "seg (\<lambda>i. st_next (sv_strands s i)) (\<lambda>i. st_prev (sv_strands s i)) (Some x) (st_next (sv_strands s x)) xs b None"
    using Cons.prems(1) by simp
  then have sg: "seg (\<lambda>i. st_next (sv_strands ?s i)) (\<lambda>i. st_prev (sv_strands ?s i)) (Some x) (st_next (sv_strands s x)) xs b None"
    by (rule seg_transfer) (simp add: shutdown_strand_def)
  have "distinct xs" using Cons.prems(2) by simp
  note IH = Cons.IH [OF sg this, of "ops @ st_waiting (sv_strands s x) @ st_ready (sv_strands s x)"]
  obtain t where t: "shutdown_strands (st_next (sv_strands s x)) (ops @ st_waiting (sv_strands s x) @ st_ready (sv_strands s x)) ?s =
      Some ((ops @ st_waiting (sv_strands s x) @ st_ready (sv_strands s x)) @
        concat (map (\<lambda>i. st_waiting (sv_strands ?s i) @ st_ready (sv_strands ?s i)) xs), t)"
    "\<forall>i\<in>set xs. st_shutdown (sv_strands t i) \<and> st_waiting (sv_strands t i) = [] \<and> st_ready (sv_strands t i) = []"
    "\<forall>i. i \<notin> set xs \<longrightarrow> sv_strands t i = sv_strands ?s i"
    using IH by blast
  have same: "map (\<lambda>i. st_waiting (sv_strands ?s i) @ st_ready (sv_strands ?s i)) xs =
      map (\<lambda>i. st_waiting (sv_strands s i) @ st_ready (sv_strands s i)) xs"
    using Cons.prems(2) by (intro map_cong) auto
  show ?case
    using t(1) [unfolded same] t(2,3) Cons.prems
    by (subst shutdown_strands.simps) (auto simp: shutdown_strand_def)
qed

text \<open>Shutting the service down shuts every strand down and destroys what all of them held.\<close>

lemma service_shutdown_destroys:
  assumes "strands_listed s xs"
  shows "\<exists>t. strand_service_shutdown s =
      Some (concat (map (\<lambda>i. st_waiting (sv_strands s i) @ st_ready (sv_strands s i)) xs), t) \<and>
    (\<forall>i\<in>set xs. st_shutdown (sv_strands t i) \<and> st_waiting (sv_strands t i) = [] \<and> st_ready (sv_strands t i) = [])"
  using assms shutdown_strands_listed [of s None "sv_list s" xs _ "[]"]
  by (fastforce simp: strands_listed_def dll_def strand_service_shutdown_def)

end
