(* ===== verification/Asio_Dynamic.thy ===== *)
theory Asio_Dynamic
  imports Prelude
begin

text \<open>
  The buffers of asio that grow: \<open>dynamic_string_buffer\<close> of \<^verbatim>\<open>asio/buffer.hpp\<close> over a string of the caller,
  with the operations of both versions of the requirements on dynamic buffers, and \<open>basic_streambuf\<close>
  of \<^verbatim>\<open>asio/basic_streambuf.hpp\<close> with its get and put area. \<open>dynamic_vector_buffer\<close> repeats the code of
  the former. An exception is \<open>None\<close>, or \<open>Inl\<close> with the object it leaves behind.
\<close>

section \<open>A string as a dynamic buffer\<close>

definition size_t_max :: nat where "size_t_max = 2 ^ 64 - 1"

text \<open>
  \<open>ds_size_field\<close> is \<open>size_\<close>: the greatest value of its type until \<open>prepare\<close> enables the first version.
  How far the library extends the capacity of a string when it must is its own choice, \<open>ds_growth\<close>, a
  function of the old capacity and the size needed.
\<close>

record string_buffer =
  ds_string :: bytes
  ds_capacity_field :: nat
  ds_growth :: "nat \<Rightarrow> nat \<Rightarrow> nat"
  ds_size_field :: nat
  ds_max :: nat

definition ds_init :: "bytes \<Rightarrow> nat \<Rightarrow> (nat \<Rightarrow> nat \<Rightarrow> nat) \<Rightarrow> nat \<Rightarrow> string_buffer" where
  "ds_init str cap growth maximum_size =
     \<lparr>ds_string = str, ds_capacity_field = cap, ds_growth = growth, ds_size_field = size_t_max, ds_max = maximum_size\<rparr>"

definition ds_resize :: "nat \<Rightarrow> string_buffer \<Rightarrow> string_buffer" where
  "ds_resize n b = b\<lparr>ds_string := vec_resize (ds_string b) n,
     ds_capacity_field := (if n \<le> ds_capacity_field b then ds_capacity_field b
                           else max n (ds_growth b (ds_capacity_field b) n))\<rparr>"

definition ds_size :: "string_buffer \<Rightarrow> nat" where
  "ds_size b = (if ds_size_field b \<noteq> size_t_max then ds_size_field b else min (length (ds_string b)) (ds_max b))"

definition ds_capacity :: "string_buffer \<Rightarrow> nat" where
  "ds_capacity b = min (ds_capacity_field b) (ds_max b)"

text \<open>The bytes of the buffers that \<open>data\<close> returns, in the first and in the second version.\<close>

definition ds_data :: "string_buffer \<Rightarrow> bytes" where
  "ds_data b = take (ds_size_field b) (ds_string b)"

definition ds_data_at :: "nat \<Rightarrow> nat \<Rightarrow> string_buffer \<Rightarrow> bytes" where
  "ds_data_at pos n b = take n (drop pos (take (ds_max b) (ds_string b)))"

definition ds_prepare :: "nat \<Rightarrow> string_buffer \<Rightarrow> string_buffer option" where
  "ds_prepare n b =
     (if ds_size b > ds_max b \<or> ds_max b - ds_size b < n then None
      else
        let b1 = (if ds_size_field b = size_t_max then b\<lparr>ds_size_field := length (ds_string b)\<rparr> else b)
        in Some (ds_resize (ds_size_field b1 + n) b1))"

text \<open>The subtraction and the addition are on \<open>size_t\<close>.\<close>

definition ds_commit :: "nat \<Rightarrow> string_buffer \<Rightarrow> string_buffer" where
  "ds_commit n b =
     (let room = (length (ds_string b) + 2 ^ 64 - ds_size_field b) mod 2 ^ 64;
          k = (ds_size_field b + min n room) mod 2 ^ 64
      in ds_resize k (b\<lparr>ds_size_field := k\<rparr>))"

definition ds_grow :: "nat \<Rightarrow> string_buffer \<Rightarrow> string_buffer option" where
  "ds_grow n b =
     (if ds_size b > ds_max b \<or> ds_max b - ds_size b < n then None else Some (ds_resize (ds_size b + n) b))"

definition ds_shrink :: "nat \<Rightarrow> string_buffer \<Rightarrow> string_buffer" where
  "ds_shrink n b = ds_resize (if n > ds_size b then 0 else ds_size b - n) b"

definition ds_consume :: "nat \<Rightarrow> string_buffer \<Rightarrow> string_buffer" where
  "ds_consume n b =
     (if ds_size_field b \<noteq> size_t_max
      then
        let k = min n (ds_size_field b)
        in b\<lparr>ds_string := drop k (ds_string b), ds_size_field := ds_size_field b - k\<rparr>
      else b\<lparr>ds_string := drop n (ds_string b)\<rparr>)"

text \<open>What a read writes at an offset of the string.\<close>

definition ds_store :: "nat \<Rightarrow> bytes \<Rightarrow> string_buffer \<Rightarrow> string_buffer" where
  "ds_store pos bs b = b\<lparr>ds_string := memcpy_into (ds_string b) pos bs\<rparr>"

section \<open>The stream buffer\<close>

text \<open>
  The vector and the offsets of the pointers \<open>gptr\<close>, \<open>egptr\<close>, \<open>pptr\<close> and \<open>epptr\<close> into it; \<open>eback\<close> is always
  its begin.
\<close>

record streambuf =
  bf_buffer :: bytes
  bf_capacity_field :: nat
  bf_growth :: "nat \<Rightarrow> nat \<Rightarrow> nat"
  bf_max :: nat
  bf_gptr :: nat
  bf_egptr :: nat
  bf_pptr :: nat
  bf_epptr :: nat

definition buffer_delta :: nat where "buffer_delta = 128"

definition bf_init :: "nat \<Rightarrow> (nat \<Rightarrow> nat \<Rightarrow> nat) \<Rightarrow> streambuf" where
  "bf_init maximum_size growth =
     (let pend = min maximum_size buffer_delta
      in \<lparr>bf_buffer = replicate (max pend 1) 0, bf_capacity_field = max (max pend 1) (growth 0 (max pend 1)),
          bf_growth = growth, bf_max = maximum_size, bf_gptr = 0, bf_egptr = 0, bf_pptr = 0, bf_epptr = pend\<rparr>)"

definition bf_resize :: "nat \<Rightarrow> streambuf \<Rightarrow> streambuf" where
  "bf_resize n b = b\<lparr>bf_buffer := vec_resize (bf_buffer b) n,
     bf_capacity_field := (if n \<le> bf_capacity_field b then bf_capacity_field b
                           else max n (bf_growth b (bf_capacity_field b) n))\<rparr>"

definition bf_size :: "streambuf \<Rightarrow> nat" where
  "bf_size b = bf_pptr b - bf_gptr b"

definition bf_capacity :: "streambuf \<Rightarrow> nat" where
  "bf_capacity b = bf_capacity_field b"

definition bf_data :: "streambuf \<Rightarrow> bytes" where
  "bf_data b = take (bf_pptr b - bf_gptr b) (drop (bf_gptr b) (bf_buffer b))"

definition bf_reserve :: "nat \<Rightarrow> streambuf \<Rightarrow> streambuf + streambuf" where
  "bf_reserve n b =
     (let gnext = bf_gptr b; pnext = bf_pptr b; pend = bf_epptr b
      in if n \<le> pend - pnext then Inr b
         else
           let (pnext1, b1) =
                 (if gnext > 0
                  then (pnext - gnext,
                        b\<lparr>bf_buffer := memcpy_into (bf_buffer b) 0 (take (pnext - gnext) (drop gnext (bf_buffer b)))\<rparr>)
                  else (pnext, b))
           in if n > pend - pnext1 then
                if n \<le> bf_max b1 \<and> pnext1 \<le> bf_max b1 - n
                then
                  let pend1 = pnext1 + n; b2 = bf_resize (max pend1 1) b1
                  in Inr (b2\<lparr>bf_gptr := 0, bf_egptr := pnext1, bf_pptr := pnext1, bf_epptr := pend1\<rparr>)
                else Inl b1
              else Inr (b1\<lparr>bf_gptr := 0, bf_egptr := pnext1, bf_pptr := pnext1, bf_epptr := pend\<rparr>))"

definition bf_prepare :: "nat \<Rightarrow> streambuf \<Rightarrow> streambuf + streambuf" where
  "bf_prepare n b = bf_reserve n b"

text \<open>\<open>pbump\<close> and \<open>gbump\<close> take an \<open>int\<close>, so what is moved is the count narrowed to 32 bits with a sign.\<close>

definition as_int :: "nat \<Rightarrow> int" where
  "as_int n = sint (word_of_nat n :: 32 word)"

definition bf_commit :: "nat \<Rightarrow> streambuf \<Rightarrow> streambuf" where
  "bf_commit n b =
     (let k = min n (bf_epptr b - bf_pptr b);
          p = nat (int (bf_pptr b) + as_int k)
      in b\<lparr>bf_pptr := p, bf_egptr := p\<rparr>)"

definition bf_consume :: "nat \<Rightarrow> streambuf \<Rightarrow> streambuf" where
  "bf_consume n b =
     (let b1 = (if bf_egptr b < bf_pptr b then b\<lparr>bf_egptr := bf_pptr b\<rparr> else b);
          k = (if bf_gptr b1 + n > bf_pptr b1 then bf_pptr b1 - bf_gptr b1 else n)
      in b1\<lparr>bf_gptr := nat (int (bf_gptr b1) + as_int k)\<rparr>)"

text \<open>\<open>None\<close> as a character is the end of the file. \<open>overflow\<close> stores the character itself.\<close>

definition bf_underflow :: "streambuf \<Rightarrow> u8 option \<times> streambuf" where
  "bf_underflow b =
     (if bf_gptr b < bf_pptr b then (Some (bf_buffer b ! bf_gptr b), b\<lparr>bf_egptr := bf_pptr b\<rparr>) else (None, b))"

definition bf_overflow :: "u8 option \<Rightarrow> streambuf \<Rightarrow> streambuf + streambuf" where
  "bf_overflow c b =
     (case c of
        None \<Rightarrow> Inr b
      | Some ch \<Rightarrow>
          let reserved =
                (if bf_pptr b = bf_epptr b then
                   let buffer_size = bf_pptr b - bf_gptr b
                   in if buffer_size < bf_max b \<and> bf_max b - buffer_size < buffer_delta
                      then bf_reserve (bf_max b - buffer_size) b
                      else bf_reserve buffer_delta b
                 else Inr b)
          in map_sum id (\<lambda>b1. b1\<lparr>bf_buffer := (bf_buffer b1)[bf_pptr b1 := ch], bf_pptr := bf_pptr b1 + 1\<rparr>) reserved)"

definition bf_read_size_helper :: "streambuf \<Rightarrow> nat \<Rightarrow> nat" where
  "bf_read_size_helper b max_size = min (max 512 (bf_capacity_field b - bf_size b)) (min max_size (bf_max b - bf_size b))"

definition bf_store :: "bytes \<Rightarrow> streambuf \<Rightarrow> streambuf" where
  "bf_store bs b = b\<lparr>bf_buffer := memcpy_into (bf_buffer b) (bf_pptr b) bs\<rparr>"

section \<open>The operations the composed reads call\<close>

text \<open>
  A template over a dynamic buffer as the record of what it calls: \<open>o_prepare\<close> is \<open>prepare\<close> or \<open>grow\<close> and fails
  when they throw, \<open>o_fill n bs\<close> is what a read leaves in the \<open>n\<close> bytes made ready, and \<open>o_finish n k\<close> is
  \<open>commit(k)\<close> or \<open>shrink(n - k)\<close>.
\<close>

record 'b buffer_ops =
  o_data :: "'b \<Rightarrow> bytes"
  o_size :: "'b \<Rightarrow> nat"
  o_max_size :: "'b \<Rightarrow> nat"
  o_capacity :: "'b \<Rightarrow> nat"
  o_prepare :: "nat \<Rightarrow> 'b \<Rightarrow> 'b option"
  o_fill :: "nat \<Rightarrow> bytes \<Rightarrow> 'b \<Rightarrow> 'b"
  o_finish :: "nat \<Rightarrow> nat \<Rightarrow> 'b \<Rightarrow> 'b"

definition streambuf_ref :: "streambuf buffer_ops" where
  "streambuf_ref = \<lparr>o_data = bf_data, o_size = bf_size, o_max_size = bf_max, o_capacity = bf_capacity,
     o_prepare = (\<lambda>n b. case bf_prepare n b of Inl _ \<Rightarrow> None | Inr b1 \<Rightarrow> Some b1),
     o_fill = (\<lambda>_. bf_store), o_finish = (\<lambda>_. bf_commit)\<rparr>"

definition string_ops_v1 :: "string_buffer buffer_ops" where
  "string_ops_v1 = \<lparr>o_data = ds_data, o_size = ds_size, o_max_size = ds_max, o_capacity = ds_capacity,
     o_prepare = ds_prepare, o_fill = (\<lambda>_ bs b. ds_store (ds_size_field b) bs b), o_finish = (\<lambda>_. ds_commit)\<rparr>"

definition string_ops_v2 :: "string_buffer buffer_ops" where
  "string_ops_v2 = \<lparr>o_data = (\<lambda>b. ds_data_at 0 (ds_size b) b), o_size = ds_size, o_max_size = ds_max,
     o_capacity = ds_capacity, o_prepare = ds_grow, o_fill = (\<lambda>n bs b. ds_store (ds_size b - n) bs b),
     o_finish = (\<lambda>n k. ds_shrink (n - k))\<rparr>"

end
