(* ===== verification/Asio_Read_Until.thy ===== *)
theory Asio_Read_Until
  imports Asio_Dynamic Asio_Error
begin

text \<open>
  The composed operations of \<^verbatim>\<open>asio/impl/read_until.hpp\<close>: reading until a character, a string or a match
  condition is found, in the synchronous functions and in the operations behind \<open>async_read_until\<close>. The
  template parameters are arguments: the record of the buffer's operations of \<open>Asio_Dynamic\<close>, and
  \<open>rd\<close> for the stream's \<open>read_some\<close>, which takes the number of bytes to read into and returns the error
  and the bytes. The overloads with a regular expression are left out.
\<close>

section \<open>Looking for the delimiter\<close>

text \<open>One round of the search: the end of a full match, or where the next search starts.\<close>

datatype found = Found nat | Next nat

text \<open>\<open>std::find\<close>, with the position of its first argument.\<close>

fun find_char :: "u8 \<Rightarrow> nat \<Rightarrow> bytes \<Rightarrow> nat" where
  "find_char c i [] = i"
| "find_char c i (x # xs) = (if x = c then i else find_char c (Suc i) xs)"

definition look_char :: "u8 \<Rightarrow> bytes \<Rightarrow> nat \<Rightarrow> found" where
  "look_char delim data pos =
     (let i = find_char delim pos (drop pos data)
      in if i \<noteq> length data then Found (i + 1) else Next (length data))"

text \<open>The inner loop of \<open>partial_search\<close>; \<open>moved\<close> tells whether \<open>test_iter2\<close> has left its begin.\<close>

datatype match = Full | Partial | Mismatch

fun test_match :: "bool \<Rightarrow> bytes \<Rightarrow> bytes \<Rightarrow> match" where
  "test_match moved xs [] = Full"
| "test_match moved [] (y # ys) = (if moved then Partial else Mismatch)"
| "test_match moved (x # xs) (y # ys) = (if x \<noteq> y then Mismatch else test_match True xs ys)"

fun partial_search :: "nat \<Rightarrow> bytes \<Rightarrow> bytes \<Rightarrow> nat \<times> bool" where
  "partial_search i [] delim = (i, False)"
| "partial_search i (x # xs) delim =
     (case test_match False (x # xs) delim of
        Full \<Rightarrow> (i, True)
      | Partial \<Rightarrow> (i, False)
      | Mismatch \<Rightarrow> partial_search (Suc i) xs delim)"

definition look_string :: "bytes \<Rightarrow> bytes \<Rightarrow> nat \<Rightarrow> found" where
  "look_string delim data pos =
     (let (i, full) = partial_search pos (drop pos data) delim
      in if i \<noteq> length data then if full then Found (i + length delim) else Next i
         else Next (length data))"

text \<open>A match condition of the user gets the data and the position to start at.\<close>

definition look_condition :: "(bytes \<Rightarrow> nat \<Rightarrow> nat \<times> bool) \<Rightarrow> bytes \<Rightarrow> nat \<Rightarrow> found" where
  "look_condition match_condition data pos =
     (let (i, full) = match_condition data pos
      in if full then Found i else if i \<noteq> length data then Next i else Next (length data))"

section \<open>The synchronous functions\<close>

definition bytes_to_read :: "'b buffer_ops \<Rightarrow> 'b \<Rightarrow> nat" where
  "bytes_to_read ops b =
     min (max 512 (o_capacity ops b - o_size ops b)) (min 65536 (o_max_size ops b - o_size ops b))"

text \<open>\<open>None\<close> is a loop that never ends; \<open>Threw\<close> is the exception of \<open>prepare\<close> or \<open>grow\<close>.\<close>

datatype 'b until_result = Threw | Returned error_code nat 'b

partial_function (option) read_until_loop ::
  "(bytes \<Rightarrow> nat \<Rightarrow> found) \<Rightarrow> 'b buffer_ops \<Rightarrow> ('s \<Rightarrow> nat \<Rightarrow> (error_code \<times> bytes) \<times> 's) \<Rightarrow> nat \<Rightarrow> 'b \<Rightarrow> 's \<Rightarrow>
   ('b until_result \<times> 's) option" where
  "read_until_loop look ops rd search_position b s =
     (case look (o_data ops b) search_position of
        Found k \<Rightarrow> Some (Returned no_error k b, s)
      | Next p \<Rightarrow>
          if o_size ops b = o_max_size ops b then Some (Returned (make_misc not_found) 0 b, s)
          else
            case o_prepare ops (bytes_to_read ops b) b of
              None \<Rightarrow> Some (Threw, s)
            | Some b1 \<Rightarrow>
                let r = rd s (bytes_to_read ops b);
                    ec = fst (fst r);
                    bs = snd (fst r);
                    b2 = o_finish ops (bytes_to_read ops b) (length bs) (o_fill ops (bytes_to_read ops b) bs b1)
                in if failed ec then Some (Returned ec 0 b2, snd r)
                   else read_until_loop look ops rd p b2 (snd r))"

definition read_until_delim_v1 where
  "read_until_delim_v1 ops rd delim b s = read_until_loop (look_char delim) ops rd 0 b s"

definition read_until_string_v1 where
  "read_until_string_v1 ops rd delim b s = read_until_loop (look_string delim) ops rd 0 b s"

definition read_until_match_v1 where
  "read_until_match_v1 ops rd match_condition b s = read_until_loop (look_condition match_condition) ops rd 0 b s"

definition read_until_delim_v2 where
  "read_until_delim_v2 ops rd delim b s = read_until_loop (look_char delim) ops rd 0 b s"

definition read_until_string_v2 where
  "read_until_string_v2 ops rd delim b s = read_until_loop (look_string delim) ops rd 0 b s"

definition read_until_match_v2 where
  "read_until_match_v2 ops rd match_condition b s = read_until_loop (look_condition match_condition) ops rd 0 b s"

text \<open>The overloads without an \<open>error_code\<close> throw it.\<close>

definition throwing :: "('b until_result \<times> 's) option \<Rightarrow> (error_code option + nat) option" where
  "throwing r = map_option (\<lambda>(u, _). case u of Threw \<Rightarrow> Inl None
     | Returned ec n _ \<Rightarrow> if failed ec then Inl (Some ec) else Inr n) r"

section \<open>The asynchronous operations\<close>

text \<open>
  What a call of the operation ends with: a read it starts, with the number of bytes, the buffer made
  ready and its \<open>search_position_\<close>, or the call of the handler. The position \<open>size_t_max\<close> stands for
  \<open>not_found\<close>.
\<close>

datatype 'b until_action = Start_read nat 'b nat | Complete error_code nat 'b | Op_threw

definition until_done :: "error_code \<Rightarrow> nat \<Rightarrow> 'b \<Rightarrow> 'b until_action" where
  "until_done ec search_position b =
     Complete (if search_position = size_t_max then make_misc not_found else ec)
       (if failed ec \<or> search_position = size_t_max then 0 else search_position) b"

definition until_search :: "(bytes \<Rightarrow> nat \<Rightarrow> found) \<Rightarrow> 'b buffer_ops \<Rightarrow> bool \<Rightarrow> error_code \<Rightarrow> nat \<Rightarrow> 'b \<Rightarrow> 'b until_action" where
  "until_search look ops start ec search_position b =
     (let (p, n) =
            (case look (o_data ops b) search_position of
               Found k \<Rightarrow> (k, 0)
             | Next q \<Rightarrow> if o_size ops b = o_max_size ops b then (size_t_max, 0) else (q, bytes_to_read ops b))
      in if \<not> start \<and> n = 0 then until_done ec p b
         else case o_prepare ops n b of None \<Rightarrow> Op_threw | Some b1 \<Rightarrow> Start_read n b1 p)"

definition until_start :: "(bytes \<Rightarrow> nat \<Rightarrow> found) \<Rightarrow> 'b buffer_ops \<Rightarrow> 'b \<Rightarrow> 'b until_action" where
  "until_start look ops b = until_search look ops True no_error 0 b"

definition until_resume :: "(bytes \<Rightarrow> nat \<Rightarrow> found) \<Rightarrow> 'b buffer_ops \<Rightarrow> bool \<Rightarrow> error_code \<Rightarrow> nat \<Rightarrow> nat \<Rightarrow> nat \<Rightarrow> 'b \<Rightarrow> 'b until_action" where
  "until_resume look ops cancelled ec bytes_transferred n search_position b =
     (let b1 = o_finish ops n bytes_transferred b
      in if failed ec \<or> bytes_transferred = 0 then until_done ec search_position b1
         else if cancelled then until_done (make_basic operation_aborted) search_position b1
         else until_search look ops False ec search_position b1)"

text \<open>The operations of the file are these with their way to look; a call is a start or a completion.\<close>

datatype until_call = Initial | Completion bool error_code nat nat nat

definition until_op :: "(bytes \<Rightarrow> nat \<Rightarrow> found) \<Rightarrow> 'b buffer_ops \<Rightarrow> until_call \<Rightarrow> 'b \<Rightarrow> 'b until_action" where
  "until_op look ops c b =
     (case c of Initial \<Rightarrow> until_start look ops b
      | Completion cancelled ec k n p \<Rightarrow> until_resume look ops cancelled ec k n p b)"

definition read_until_delim_op_v1 where "read_until_delim_op_v1 ops delim = until_op (look_char delim) ops"

definition read_until_string_op_v1 where "read_until_string_op_v1 ops delim = until_op (look_string delim) ops"

definition read_until_match_op_v1 where "read_until_match_op_v1 ops condition = until_op (look_condition condition) ops"

definition read_until_delim_op_v2 where "read_until_delim_op_v2 ops delim = until_op (look_char delim) ops"

definition read_until_string_op_v2 where "read_until_string_op_v2 ops delim = until_op (look_string delim) ops"

definition read_until_match_op_v2 where "read_until_match_op_v2 ops condition = until_op (look_condition condition) ops"

text \<open>An operation with its stream: each read it starts completes, until the handler is called.\<close>

partial_function (option) run_until ::
  "(until_call \<Rightarrow> 'b \<Rightarrow> 'b until_action) \<Rightarrow> 'b buffer_ops \<Rightarrow> ('s \<Rightarrow> nat \<Rightarrow> (error_code \<times> bytes) \<times> 's) \<Rightarrow> ('s \<Rightarrow> bool) \<Rightarrow>
   'b until_action \<Rightarrow> 's \<Rightarrow> ('b until_result \<times> 's) option" where
  "run_until op ops rd cancelled act s =
     (case act of
        Complete ec n b \<Rightarrow> Some (Returned ec n b, s)
      | Op_threw \<Rightarrow> Some (Threw, s)
      | Start_read n b p \<Rightarrow>
          let r = rd s n;
              bs = snd (fst r)
          in run_until op ops rd cancelled
               (op (Completion (cancelled (snd r)) (fst (fst r)) (length bs) n p) (o_fill ops n bs b)) (snd r))"

definition async_read_until where
  "async_read_until op ops rd cancelled b s = run_until op ops rd cancelled (op Initial b) s"

end
