(* ===== verification/Asio_Dynamic_Facts.thy ===== *)
theory Asio_Dynamic_Facts
  imports Asio_Dynamic
begin

text \<open>
  What the growing buffers promise: bytes received are appended to the contents, the maximal size is
  kept, and a stream buffer is a bounded queue of bytes. The interface \<open>dynamic_buffer\<close> is what the
  functions that read until a delimiter rely on.
\<close>

section \<open>The interface\<close>

text \<open>
  What is made ready, filled with at most as many bytes and finished appends these bytes. A read asks
  for no more than 65536 at once.
\<close>

definition receive :: "'b buffer_ops \<Rightarrow> nat \<Rightarrow> bytes \<Rightarrow> 'b \<Rightarrow> 'b option" where
  "receive ops n bs b = map_option (\<lambda>b1. o_finish ops n (length bs) (o_fill ops n bs b1)) (o_prepare ops n b)"

locale dynamic_buffer =
  fixes ops :: "'b buffer_ops"
    and ok :: "'b \<Rightarrow> bool"
  assumes size_data: "ok b \<Longrightarrow> o_size ops b = length (o_data ops b)"
    and size_max: "ok b \<Longrightarrow> o_size ops b \<le> o_max_size ops b"
    and receive_fits: "ok b \<Longrightarrow> length bs \<le> n \<Longrightarrow> n \<le> o_max_size ops b - o_size ops b \<Longrightarrow> n \<le> 65536 \<Longrightarrow>
      \<exists>b'. receive ops n bs b = Some b' \<and> ok b' \<and> o_data ops b' = o_data ops b @ bs \<and> o_max_size ops b' = o_max_size ops b"
begin

lemma data_max: "ok b \<Longrightarrow> length (o_data ops b) \<le> o_max_size ops b"
  using size_data size_max by metis

lemma full_iff: "ok b \<Longrightarrow> o_size ops b = o_max_size ops b \<longleftrightarrow> length (o_data ops b) = o_max_size ops b"
  by (simp add: size_data)

text \<open>The same, with the buffer made ready in between named.\<close>

lemma prepare_fits:
  assumes "ok b" and "n \<le> o_max_size ops b - o_size ops b" and "n \<le> 65536"
  obtains b1 where "o_prepare ops n b = Some b1"
    and "\<And>bs. length bs \<le> n \<Longrightarrow> ok (o_finish ops n (length bs) (o_fill ops n bs b1)) \<and>
      o_data ops (o_finish ops n (length bs) (o_fill ops n bs b1)) = o_data ops b @ bs \<and>
      o_max_size ops (o_finish ops n (length bs) (o_fill ops n bs b1)) = o_max_size ops b"
proof -
  obtain b1 where "o_prepare ops n b = Some b1"
    using receive_fits [of b "[]" n] assms by (auto simp: receive_def)
  then show thesis using receive_fits [of b _ n] assms that by (fastforce simp: receive_def)
qed

end

section \<open>Strings\<close>

text \<open>Without the first version, and with it between \<open>commit\<close> and \<open>prepare\<close>.\<close>

definition ds_ok2 :: "string_buffer \<Rightarrow> bool" where
  "ds_ok2 b \<longleftrightarrow> ds_size_field b = size_t_max \<and> length (ds_string b) \<le> ds_max b \<and> ds_max b \<le> size_t_max \<and>
     length (ds_string b) \<le> ds_capacity_field b"

definition ds_ok1 :: "string_buffer \<Rightarrow> bool" where
  "ds_ok1 b \<longleftrightarrow> (ds_size_field b = size_t_max \<or> ds_size_field b = length (ds_string b)) \<and>
     length (ds_string b) \<le> ds_max b \<and> ds_max b \<le> size_t_max \<and> length (ds_string b) \<le> ds_capacity_field b"

lemma ds_resize_simps [simp]:
  "ds_string (ds_resize n b) = vec_resize (ds_string b) n" "ds_size_field (ds_resize n b) = ds_size_field b"
  "ds_max (ds_resize n b) = ds_max b" "n \<le> ds_capacity_field (ds_resize n b)"
  by (simp_all add: ds_resize_def)

lemma same_size_field: "ds_size_field b = k \<Longrightarrow> b\<lparr>ds_size_field := k\<rparr> = b"
  by (cases b) simp

lemma ds_store_simps [simp]:
  "ds_string (ds_store p bs b) = memcpy_into (ds_string b) p bs" "ds_size_field (ds_store p bs b) = ds_size_field b"
  "ds_max (ds_store p bs b) = ds_max b" "ds_capacity_field (ds_store p bs b) = ds_capacity_field b"
  by (simp_all add: ds_store_def)

lemma store_resized: "length bs \<le> n \<Longrightarrow> take (length v + length bs) (memcpy_into (vec_resize v (length v + n)) (length v) bs) = v @ bs"
  by (simp add: memcpy_into_def vec_resize_def)

lemma length_store_resized [simp]:
  "length bs \<le> n \<Longrightarrow> length (memcpy_into (vec_resize v (length v + n)) (length v) bs) = length v + n"
  by (simp add: memcpy_into_def)

lemma receive_v2_effect:
  assumes "ds_ok2 b" and "length bs \<le> n" and "n \<le> ds_max b - ds_size b"
  shows "\<exists>b'. receive string_ops_v2 n bs b = Some b' \<and> ds_ok2 b' \<and> ds_string b' = ds_string b @ bs \<and> ds_max b' = ds_max b"
proof -
  let ?v = "ds_string b"
  have size: "ds_size b = length ?v" using assms(1) by (simp add: ds_size_def ds_ok2_def)
  have room: "length ?v + length bs \<le> ds_max b" using assms size by (auto simp: ds_ok2_def)
  let ?b1 = "ds_store (length ?v) bs (ds_resize (length ?v + n) b)"
  have size0: "ds_size (ds_resize (length ?v + n) b) = length ?v + n"
    using assms size by (auto simp: ds_size_def ds_ok2_def)
  have size1: "ds_size ?b1 = length ?v + n"
    using assms size by (auto simp: ds_size_def ds_ok2_def)
  have "receive string_ops_v2 n bs b = Some (ds_shrink (n - length bs) ?b1)"
    using assms size by (simp add: receive_def string_ops_v2_def ds_grow_def ds_ok2_def size0)
  moreover have "ds_shrink (n - length bs) ?b1 = ds_resize (length ?v + length bs) ?b1"
    using assms(2) by (simp add: ds_shrink_def size1)
  moreover have "vec_resize (memcpy_into (vec_resize ?v (length ?v + n)) (length ?v) bs) (length ?v + length bs) = ?v @ bs"
    using assms(2) by (simp add: vec_resize_shrink store_resized)
  ultimately show ?thesis
    using assms size room ds_resize_simps(4) [of "length ?v + length bs" ?b1] by (simp add: ds_ok2_def)
qed

lemma receive_v1_effect:
  assumes "ds_ok1 b" and "length bs \<le> n" and "n \<le> ds_max b - ds_size b"
  shows "\<exists>b'. receive string_ops_v1 n bs b = Some b' \<and> ds_ok1 b' \<and> ds_string b' = ds_string b @ bs \<and> ds_max b' = ds_max b"
proof -
  let ?v = "ds_string b"
  have size: "ds_size b = length ?v" using assms(1) by (auto simp: ds_size_def ds_ok1_def)
  have bound: "length ?v + n \<le> size_t_max" "length ?v + n \<le> ds_max b" using assms size by (auto simp: ds_ok1_def)
  define b1 where "b1 = ds_resize (length ?v + n) (b\<lparr>ds_size_field := length ?v\<rparr>)"
  have prep: "ds_prepare n b = Some b1"
    using assms size by (auto simp: same_size_field ds_prepare_def ds_ok1_def b1_def)
  let ?b2 = "ds_store (length ?v) bs b1"
  have "(length (ds_string ?b2) + 2 ^ 64 - length ?v) mod 2 ^ 64 = n"
    using bound(1) assms(2) by (simp add: b1_def size_t_max_def)
  moreover have "(length ?v + length bs) mod 2 ^ 64 = length ?v + length bs"
    using bound(1) assms(2) by (simp add: size_t_max_def)
  ultimately have com: "ds_commit (length bs) ?b2 = ds_resize (length ?v + length bs) (?b2\<lparr>ds_size_field := length ?v + length bs\<rparr>)"
    using assms(2) by (simp add: ds_commit_def b1_def Let_def min_def)
  have "vec_resize (memcpy_into (vec_resize ?v (length ?v + n)) (length ?v) bs) (length ?v + length bs) = ?v @ bs"
    using assms(2) by (simp add: vec_resize_shrink store_resized)
  then show ?thesis
    using assms size bound com ds_resize_simps(4) [of "length ?v + length bs" "?b2\<lparr>ds_size_field := length ?v + length bs\<rparr>"]
    by (simp add: receive_def string_ops_v1_def prep ds_ok1_def b1_def)
qed

lemma ds_ok2_data: "ds_ok2 b \<Longrightarrow> ds_data_at 0 (ds_size b) b = ds_string b"
  by (simp add: ds_data_at_def ds_size_def ds_ok2_def)

lemma ds_ok1_data: "ds_ok1 b \<Longrightarrow> ds_data b = ds_string b"
  by (auto simp: ds_data_def ds_ok1_def)

lemma string_ops_simps [simp]:
  "o_data string_ops_v2 b = ds_data_at 0 (ds_size b) b" "o_data string_ops_v1 b = ds_data b"
  "o_size string_ops_v2 b = ds_size b" "o_size string_ops_v1 b = ds_size b"
  "o_max_size string_ops_v2 b = ds_max b" "o_max_size string_ops_v1 b = ds_max b"
  by (simp_all add: string_ops_v2_def string_ops_v1_def)

interpretation string_v2: dynamic_buffer string_ops_v2 ds_ok2
proof unfold_locales
  fix b :: string_buffer and bs :: bytes and n :: nat
  assume ok: "ds_ok2 b"
  then show "o_size string_ops_v2 b = length (o_data string_ops_v2 b)" "o_size string_ops_v2 b \<le> o_max_size string_ops_v2 b"
    using ds_ok2_data [OF ok] by (simp_all add: ds_size_def ds_ok2_def)
  assume "length bs \<le> n" "n \<le> o_max_size string_ops_v2 b - o_size string_ops_v2 b"
  then have fits: "length bs \<le> n" "n \<le> ds_max b - ds_size b" by simp_all
  obtain b' where "receive string_ops_v2 n bs b = Some b'" "ds_ok2 b'" "ds_string b' = ds_string b @ bs" "ds_max b' = ds_max b"
    using receive_v2_effect [OF ok fits] by blast
  then show "\<exists>b'. receive string_ops_v2 n bs b = Some b' \<and> ds_ok2 b' \<and>
      o_data string_ops_v2 b' = o_data string_ops_v2 b @ bs \<and> o_max_size string_ops_v2 b' = o_max_size string_ops_v2 b"
    by (simp add: ds_ok2_data ok)
qed

interpretation string_v1: dynamic_buffer string_ops_v1 ds_ok1
proof unfold_locales
  fix b :: string_buffer and bs :: bytes and n :: nat
  assume ok: "ds_ok1 b"
  then show "o_size string_ops_v1 b = length (o_data string_ops_v1 b)" "o_size string_ops_v1 b \<le> o_max_size string_ops_v1 b"
    using ds_ok1_data [OF ok] by (auto simp: ds_size_def ds_ok1_def)
  assume "length bs \<le> n" "n \<le> o_max_size string_ops_v1 b - o_size string_ops_v1 b"
  then have fits: "length bs \<le> n" "n \<le> ds_max b - ds_size b" by simp_all
  obtain b' where "receive string_ops_v1 n bs b = Some b'" "ds_ok1 b'" "ds_string b' = ds_string b @ bs" "ds_max b' = ds_max b"
    using receive_v1_effect [OF ok fits] by blast
  then show "\<exists>b'. receive string_ops_v1 n bs b = Some b' \<and> ds_ok1 b' \<and>
      o_data string_ops_v1 b' = o_data string_ops_v1 b @ bs \<and> o_max_size string_ops_v1 b' = o_max_size string_ops_v1 b"
    by (simp add: ds_ok1_data ok)
qed

section \<open>The stream buffer\<close>

definition bf_ok :: "streambuf \<Rightarrow> bool" where
  "bf_ok b \<longleftrightarrow> bf_gptr b \<le> bf_pptr b \<and> bf_pptr b \<le> bf_epptr b \<and> bf_epptr b \<le> length (bf_buffer b) \<and>
     bf_epptr b \<le> bf_max b \<and> bf_gptr b \<le> bf_egptr b \<and> bf_egptr b \<le> bf_pptr b \<and>
     length (bf_buffer b) \<le> bf_capacity_field b"

text \<open>Counts below \<open>2\<^sup>31\<close> survive the narrowing to \<open>int\<close>.\<close>

lemma as_int_small:
  assumes "k < 2 ^ 31"
  shows "as_int k = int k"
proof -
  have "signed_take_bit 31 (int k) = int k"
    using assms by (simp add: signed_take_bit_int_eq_self_iff)
  moreover have "sint (word_of_nat k :: 32 word) = signed_take_bit 31 (int k)"
    by (simp add: signed_of_nat)
  ultimately show ?thesis by (simp add: as_int_def)
qed

lemma bf_init_ok: "bf_ok (bf_init m growth)" "bf_data (bf_init m growth) = []" "bf_max (bf_init m growth) = m"
  by (simp_all add: bf_init_def bf_ok_def bf_data_def buffer_delta_def Let_def)

text \<open>What \<open>reserve\<close> makes of the buffer, when it can.\<close>

lemma bf_data_length: "bf_ok b \<Longrightarrow> length (bf_data b) = bf_size b"
  by (auto simp: bf_ok_def bf_data_def bf_size_def)

lemma bf_reserve_effect:
  assumes ok: "bf_ok b" and room: "bf_size b + n \<le> bf_max b"
  shows "\<exists>b'. bf_reserve n b = Inr b' \<and> bf_ok b' \<and> bf_data b' = bf_data b \<and> bf_max b' = bf_max b \<and>
    n \<le> bf_epptr b' - bf_pptr b'"
proof -
  let ?g = "bf_gptr b" and ?p = "bf_pptr b" and ?e = "bf_epptr b" and ?v = "bf_buffer b"
  have le: "?g \<le> ?p" "?p \<le> ?e" "?e \<le> length ?v" "?e \<le> bf_max b" "length ?v \<le> bf_capacity_field b"
    using ok by (simp_all add: bf_ok_def)
  define v where "v = (if ?g > 0 then memcpy_into ?v 0 (take (?p - ?g) (drop ?g ?v)) else ?v)"
  have v: "take (?p - ?g) v = bf_data b" "length v = length ?v"
    using le by (auto simp: v_def memcpy_into_def bf_data_def)
  consider (enough) "n \<le> ?e - ?p" | (shift) "\<not> n \<le> ?e - ?p" "n \<le> ?e - (?p - ?g)" | (enlarge) "\<not> n \<le> ?e - (?p - ?g)"
    by linarith
  then show ?thesis
  proof cases
    case enough
    then show ?thesis using ok by (intro exI [of _ b]) (simp add: bf_reserve_def)
  next
    case shift
    then have "bf_reserve n b = Inr (b\<lparr>bf_buffer := v, bf_gptr := 0, bf_egptr := ?p - ?g, bf_pptr := ?p - ?g, bf_epptr := ?e\<rparr>)"
      by (auto simp: bf_reserve_def v_def Let_def)
    then show ?thesis using shift le v by (auto simp: bf_ok_def bf_data_def)
  next
    case enlarge
    let ?m = "max (?p - ?g + n) 1"
    let ?b2 = "bf_resize ?m (b\<lparr>bf_buffer := v\<rparr>)"
    have "bf_reserve n b = Inr (?b2\<lparr>bf_gptr := 0, bf_egptr := ?p - ?g, bf_pptr := ?p - ?g, bf_epptr := ?p - ?g + n\<rparr>)"
      using enlarge le room by (auto simp: bf_reserve_def v_def Let_def bf_size_def)
    moreover have "take (?p - ?g) (vec_resize v ?m) = bf_data b"
      using le v enlarge by (auto simp: vec_resize_def min_def)
    ultimately show ?thesis using room le
      by (auto simp: bf_ok_def bf_data_def bf_resize_def bf_size_def)
  qed
qed

lemma bf_reserve_refused:
  assumes ok: "bf_ok b" and "bf_max b < bf_size b + n"
  shows "\<exists>b'. bf_reserve n b = Inl b' \<and> bf_gptr b' = bf_gptr b \<and> bf_pptr b' = bf_pptr b \<and>
    bf_buffer b' = (if bf_gptr b > 0 then memcpy_into (bf_buffer b) 0 (bf_data b) else bf_buffer b)"
  using assms by (auto simp: bf_reserve_def Let_def bf_ok_def bf_size_def bf_data_def)

text \<open>A commit within what was prepared, and a consumption, below the range of \<open>int\<close>.\<close>

lemma bf_store_commit:
  assumes "bf_ok b" and "length bs \<le> bf_epptr b - bf_pptr b" and "length bs < 2 ^ 31"
  shows "bf_ok (bf_commit (length bs) (bf_store bs b))" "bf_data (bf_commit (length bs) (bf_store bs b)) = bf_data b @ bs"
    "bf_max (bf_commit (length bs) (bf_store bs b)) = bf_max b"
proof -
  have c: "bf_commit (length bs) (bf_store bs b) =
      bf_store bs b\<lparr>bf_pptr := bf_pptr b + length bs, bf_egptr := bf_pptr b + length bs\<rparr>"
    using assms by (simp add: bf_commit_def as_int_small bf_store_def Let_def min_def nat_int_add)
  show "bf_ok (bf_commit (length bs) (bf_store bs b))" "bf_max (bf_commit (length bs) (bf_store bs b)) = bf_max b"
    using assms unfolding c by (auto simp: bf_ok_def bf_store_def memcpy_into_def)
  have "take (bf_pptr b + length bs - bf_gptr b) (drop (bf_gptr b) (take (bf_pptr b) (bf_buffer b) @ bs @ r)) = bf_data b @ bs" for r
  proof -
    have "bf_pptr b + length bs - bf_gptr b = length (bf_data b) + length bs"
      "drop (bf_gptr b) (take (bf_pptr b) (bf_buffer b) @ bs @ r) = bf_data b @ bs @ r"
      using assms by (auto simp: bf_ok_def bf_data_def drop_take)
    then show ?thesis by simp
  qed
  note contents = this [of "drop (bf_pptr b + length bs) (bf_buffer b)"]
  have "bf_data (bf_store bs b\<lparr>bf_pptr := bf_pptr b + length bs, bf_egptr := bf_pptr b + length bs\<rparr>) =
      take (bf_pptr b + length bs - bf_gptr b) (drop (bf_gptr b) (memcpy_into (bf_buffer b) (bf_pptr b) bs))"
    by (simp add: bf_data_def bf_store_def)
  then show "bf_data (bf_commit (length bs) (bf_store bs b)) = bf_data b @ bs"
    unfolding c by (simp only: memcpy_into_def contents)
qed

lemma bf_consume_effect:
  assumes "bf_ok b" and "bf_size b < 2 ^ 31"
  shows "bf_ok (bf_consume n b)" "bf_data (bf_consume n b) = drop n (bf_data b)" "bf_max (bf_consume n b) = bf_max b"
proof -
  have le: "bf_gptr b \<le> bf_pptr b" using assms(1) by (simp add: bf_ok_def)
  have "as_int (min n (bf_pptr b - bf_gptr b)) = int (min n (bf_pptr b - bf_gptr b))"
    using assms(2) by (intro as_int_small) (simp add: bf_size_def)
  then have c: "bf_consume n b = b\<lparr>bf_egptr := bf_pptr b, bf_gptr := bf_gptr b + min n (bf_pptr b - bf_gptr b)\<rparr>"
    using assms(1) le by (cases b) (auto simp: bf_consume_def bf_ok_def Let_def min_def nat_int_add)
  show "bf_ok (bf_consume n b)" "bf_max (bf_consume n b) = bf_max b"
    using assms(1) le unfolding c by (auto simp: bf_ok_def)
  show "bf_data (bf_consume n b) = drop n (bf_data b)"
    using assms(1) le unfolding c by (auto simp: bf_ok_def bf_data_def min_def drop_take add.commute)
qed

lemma bf_overflow_effect:
  assumes "bf_ok b" and "bf_size b < bf_max b"
  shows "\<exists>b'. bf_overflow (Some ch) b = Inr b' \<and> bf_ok b' \<and> bf_data b' = bf_data b @ [ch] \<and> bf_max b' = bf_max b"
proof -
  let ?res = "if bf_pptr b = bf_epptr b then
      (if bf_size b < bf_max b \<and> bf_max b - bf_size b < buffer_delta then bf_reserve (bf_max b - bf_size b) b
       else bf_reserve buffer_delta b) else Inr b"
  have "\<exists>b1. ?res = Inr b1 \<and> bf_ok b1 \<and> bf_data b1 = bf_data b \<and> bf_max b1 = bf_max b \<and> 1 \<le> bf_epptr b1 - bf_pptr b1"
  proof (cases "bf_pptr b = bf_epptr b")
    case True
    define n where "n = (if bf_max b - bf_size b < buffer_delta then bf_max b - bf_size b else buffer_delta)"
    have n: "1 \<le> n" "bf_size b + n \<le> bf_max b" using assms(2) by (auto simp: n_def buffer_delta_def)
    have "?res = bf_reserve n b" using True assms(2) by (simp add: n_def)
    moreover obtain b1 where "bf_reserve n b = Inr b1" "bf_ok b1" "bf_data b1 = bf_data b" "bf_max b1 = bf_max b"
      "n \<le> bf_epptr b1 - bf_pptr b1" using bf_reserve_effect [OF assms(1) n(2)] by blast
    ultimately show ?thesis using n(1) by (intro exI [of _ b1]) (intro conjI; (linarith | simp))
  next
    case False
    then have "bf_pptr b < bf_epptr b" using assms(1) by (simp add: bf_ok_def)
    then show ?thesis using False assms(1) by simp
  qed
  then obtain b1 where b1: "?res = Inr b1" "bf_ok b1" "bf_data b1 = bf_data b" "bf_max b1 = bf_max b"
    "1 \<le> bf_epptr b1 - bf_pptr b1" by blast
  have "bf_overflow (Some ch) b = Inr (b1\<lparr>bf_buffer := (bf_buffer b1)[bf_pptr b1 := ch], bf_pptr := bf_pptr b1 + 1\<rparr>)"
    using b1(1) by (simp only: bf_overflow_def Let_def bf_size_def option.case map_sum.simps)
  moreover have "take (Suc (bf_pptr b1 - bf_gptr b1)) (drop (bf_gptr b1) ((bf_buffer b1)[bf_pptr b1 := ch])) = bf_data b1 @ [ch]"
    using b1(2,5) by (auto simp: bf_ok_def bf_data_def drop_update_swap take_Suc_conv_app_nth)
  ultimately show ?thesis using b1 by (auto simp: bf_ok_def bf_data_def Suc_diff_le)
qed

lemma bf_overflow_refused:
  assumes "bf_ok b" and "bf_max b \<le> bf_size b"
  shows "\<exists>b'. bf_overflow (Some ch) b = Inl b'"
proof -
  have "bf_pptr b = bf_epptr b" using assms by (auto simp: bf_ok_def bf_size_def)
  moreover obtain b' where "bf_reserve buffer_delta b = Inl b'"
    using bf_reserve_refused [OF assms(1), of buffer_delta] assms(2) by (auto simp: buffer_delta_def)
  ultimately show ?thesis using assms(2) by (auto simp: bf_overflow_def bf_size_def Let_def)
qed

lemma streambuf_ref_simps [simp]:
  "o_data streambuf_ref b = bf_data b" "o_size streambuf_ref b = bf_size b" "o_max_size streambuf_ref b = bf_max b"
  by (simp_all add: streambuf_ref_def)

lemma receive_streambuf:
  assumes "bf_ok b" and "length bs \<le> n" and "bf_size b + n \<le> bf_max b" and "length bs < 2 ^ 31"
  shows "\<exists>b'. receive streambuf_ref n bs b = Some b' \<and> bf_ok b' \<and> bf_data b' = bf_data b @ bs \<and> bf_max b' = bf_max b"
proof -
  obtain b1 where b1: "bf_reserve n b = Inr b1" "bf_ok b1" "bf_data b1 = bf_data b" "bf_max b1 = bf_max b"
    "n \<le> bf_epptr b1 - bf_pptr b1" using bf_reserve_effect [OF assms(1,3)] by blast
  then show ?thesis using bf_store_commit [OF b1(2) order_trans [OF assms(2) b1(5)] assms(4)]
    by (simp add: receive_def streambuf_ref_def bf_prepare_def)
qed

interpretation streambuf_v1: dynamic_buffer streambuf_ref bf_ok
proof unfold_locales
  fix b :: streambuf and bs :: bytes and n :: nat
  assume ok: "bf_ok b"
  then show "o_size streambuf_ref b = length (o_data streambuf_ref b)" and le: "o_size streambuf_ref b \<le> o_max_size streambuf_ref b"
    by (simp add: bf_data_length, use ok in \<open>auto simp: bf_ok_def bf_size_def\<close>)
  assume "length bs \<le> n" "n \<le> o_max_size streambuf_ref b - o_size streambuf_ref b" "n \<le> 65536"
  then show "\<exists>b'. receive streambuf_ref n bs b = Some b' \<and> bf_ok b' \<and>
      o_data streambuf_ref b' = o_data streambuf_ref b @ bs \<and> o_max_size streambuf_ref b' = o_max_size streambuf_ref b"
    using receive_streambuf [OF ok, of bs n] le by simp
qed

section \<open>A bounded queue of bytes\<close>

text \<open>
  A user of a stream buffer and of the queue it stands for. \<open>Put\<close> prepares, writes and commits, \<open>Putc\<close> is
  \<open>sputc\<close> when the put area may be full, \<open>Peek\<close> is \<open>sgetc\<close> with an empty get area, \<open>Drop\<close> consumes. The
  result is the character peeked at, and nothing is returned after an exception.
\<close>

datatype buffer_action = Put bytes | Putc u8 | Drop nat | Peek

fun buffer_step :: "buffer_action \<Rightarrow> streambuf \<Rightarrow> (u8 option \<times> streambuf) option" where
  "buffer_step (Put bs) b = map_option (\<lambda>b1. (None, b1)) (receive streambuf_ref (length bs) bs b)"
| "buffer_step (Putc ch) b = (case bf_overflow (Some ch) b of Inl _ \<Rightarrow> None | Inr b1 \<Rightarrow> Some (None, b1))"
| "buffer_step (Drop n) b = Some (None, bf_consume n b)"
| "buffer_step Peek b = Some (bf_underflow b)"

fun queue_step :: "nat \<Rightarrow> buffer_action \<Rightarrow> bytes \<Rightarrow> (u8 option \<times> bytes) option" where
  "queue_step m (Put bs) q = (if length q + length bs \<le> m then Some (None, q @ bs) else None)"
| "queue_step m (Putc ch) q = (if length q < m then Some (None, q @ [ch]) else None)"
| "queue_step m (Drop n) q = Some (None, drop n q)"
| "queue_step m Peek q = Some (if q = [] then None else Some (hd q), q)"

text \<open>What a sequence of actions shows, and the contents at its end unless one of them threw.\<close>

fun buffer_run :: "(buffer_action \<Rightarrow> 'q \<Rightarrow> (u8 option \<times> 'q) option) \<Rightarrow> buffer_action list \<Rightarrow> 'q \<Rightarrow> u8 option list \<times> 'q option" where
  "buffer_run step [] q = ([], Some q)"
| "buffer_run step (a # as) q =
     (case step a q of
        None \<Rightarrow> ([], None)
      | Some (r, q1) \<Rightarrow> map_prod ((#) r) id (buffer_run step as q1))"

lemma bf_underflow_effect:
  assumes "bf_ok b"
  shows "bf_ok (snd (bf_underflow b))" "bf_data (snd (bf_underflow b)) = bf_data b" "bf_max (snd (bf_underflow b)) = bf_max b"
    "fst (bf_underflow b) = (if bf_data b = [] then None else Some (hd (bf_data b)))"
  using assms by (auto simp: bf_underflow_def bf_ok_def bf_data_def hd_conv_nth)

lemma buffer_step_queue:
  assumes "bf_ok b" and "bf_max b < 2 ^ 31"
  shows "case queue_step (bf_max b) a (bf_data b) of
      None \<Rightarrow> buffer_step a b = None
    | Some (r, q) \<Rightarrow> \<exists>b1. buffer_step a b = Some (r, b1) \<and> bf_ok b1 \<and> bf_data b1 = q \<and> bf_max b1 = bf_max b"
proof (cases a)
  case (Put bs)
  show ?thesis
  proof (cases "bf_size b + length bs \<le> bf_max b")
    case True
    then show ?thesis using Put receive_streambuf [OF assms(1), of bs "length bs"] assms
      by (auto simp: bf_data_length)
  next
    case False
    then show ?thesis using Put bf_reserve_refused [OF assms(1), of "length bs"] assms(1)
      by (auto simp: bf_data_length receive_def streambuf_ref_def bf_prepare_def)
  qed
next
  case (Putc ch)
  then show ?thesis
    using bf_overflow_effect [OF assms(1), of ch] bf_overflow_refused [OF assms(1), of ch] assms(1)
    by (auto simp: bf_data_length not_less)
next
  case (Drop n)
  have "bf_size b < 2 ^ 31" using streambuf_v1.size_max [OF assms(1)] assms(2) by simp
  then show ?thesis using Drop bf_consume_effect [OF assms(1), of n] by simp
next
  case Peek
  then show ?thesis using bf_underflow_effect [OF assms(1)] by (cases "bf_underflow b") auto
qed

lemma buffer_run_queue:
  "bf_ok b \<Longrightarrow> bf_max b < 2 ^ 31 \<Longrightarrow>
   map_prod id (map_option bf_data) (buffer_run buffer_step as b) = buffer_run (queue_step (bf_max b)) as (bf_data b)"
proof (induction as arbitrary: b)
  case (Cons a as)
  show ?case
  proof (cases "queue_step (bf_max b) a (bf_data b)")
    case None
    then show ?thesis using buffer_step_queue [OF Cons.prems, of a] by simp
  next
    case (Some rq)
    then obtain b1 where b1: "buffer_step a b = Some (fst rq, b1)" "bf_ok b1" "bf_data b1 = snd rq" "bf_max b1 = bf_max b"
      using buffer_step_queue [OF Cons.prems, of a] by (auto split: prod.splits)
    have "map_prod id (map_option bf_data) (buffer_run buffer_step as b1) = buffer_run (queue_step (bf_max b)) as (snd rq)"
      using Cons.IH [OF b1(2)] Cons.prems(2) b1 by (simp add: id_def)
    then show ?thesis using Some b1(1) by (cases rq, cases "buffer_run buffer_step as b1") (auto simp: map_prod_def split: prod.splits)
  qed
qed simp

text \<open>
  C28: A stream buffer below two gigabytes is a queue of bytes with the maximal size it was constructed
  with, whatever the growth policy of the vector: for every sequence of writes, single characters,
  consumptions and looks at the first character it shows the same characters, holds the same bytes at
  the end, and throws exactly when the bytes would exceed the maximum.
\<close>
theorem streambuf_refines_bounded_queue:
  assumes "m < 2 ^ 31"
  shows "map_prod id (map_option bf_data) (buffer_run buffer_step as (bf_init m growth)) = buffer_run (queue_step m) as []"
  using buffer_run_queue [OF bf_init_ok(1), of m growth as] assms by (simp add: bf_init_ok)

theorem streambuf_refines_bounded_queue_witness:
  "map_prod id (map_option bf_data) (buffer_run buffer_step [Put [1, 2, 3], Drop 2, Peek, Putc 4] (bf_init 4 (\<lambda>_ n. n))) =
     ([None, None, Some 3, None], Some [3, 4])"
  using streambuf_refines_bounded_queue [of 4 "[Put [1, 2, 3], Drop 2, Peek, Putc 4]" "\<lambda>_ n. n"] by simp

section \<open>Where the queue ends\<close>

text \<open>
  A \<open>prepare\<close> that throws has already moved the contents to the begin of the vector, while the pointers
  stay: who catches the exception finds other bytes in a buffer of which something was consumed.
\<close>

lemma refused_prepare_corrupts:
  "\<exists>b b'. buffer_run buffer_step [Put [1, 2, 3], Drop 1] (bf_init 4 (\<lambda>_ n. n)) = ([None, None], Some b) \<and>
     bf_data b = [2, 3] \<and> bf_prepare 3 b = Inl b' \<and> bf_data b' = [3, 3]"
  by (simp add: bf_init_def buffer_delta_def receive_def streambuf_ref_def bf_prepare_def bf_reserve_def bf_store_def
      bf_commit_def bf_consume_def bf_data_def memcpy_into_def as_int_def Let_def numeral_eq_Suc)

text \<open>From two gigabytes on a consumption moves the get pointer backwards, before the begin of the vector.\<close>

lemma as_int_wraps: "as_int 2147483648 = - 2147483648"
  by (simp add: as_int_def)

lemma big_consume_goes_backwards:
  assumes "bf_ok b" and "bf_gptr b = 0" and "2 ^ 31 \<le> bf_size b"
  shows "int (bf_gptr b) + as_int (2 ^ 31) < 0"
  using assms by (simp add: as_int_wraps)

end
