(* ===== verification/Asio_Read_Until_Facts.thy ===== *)
theory Asio_Read_Until_Facts
  imports Asio_Read_Until Asio_Dynamic_Facts "HOL-Library.Sublist"
begin

text \<open>
  What reading until a delimiter promises: the search is the search for the first occurrence, resumed
  where an occurrence may still begin, and the functions return its end however the stream cuts the
  bytes. The interface \<open>scanner\<close> is what the loops rely on when they look for a match; the proofs are
  done once for a dynamic buffer and a scanner.
\<close>

section \<open>The first occurrence\<close>

fun find_sub :: "bytes \<Rightarrow> bytes \<Rightarrow> nat option" where
  "find_sub d [] = None"
| "find_sub d (x # xs) = (if prefix d (x # xs) then Some 0 else map_option Suc (find_sub d xs))"

definition first_end :: "bytes \<Rightarrow> bytes \<Rightarrow> nat option" where
  "first_end d data = map_option (\<lambda>i. i + length d) (find_sub d data)"

lemma find_sub_Some:
  "find_sub d data = Some k \<longleftrightarrow> k < length data \<and> prefix d (drop k data) \<and> (\<forall>j<k. \<not> prefix d (drop j data))"
proof (induction data arbitrary: k)
  case (Cons x xs)
  then show ?case by (cases k) (auto simp: less_Suc_eq_0_disj)
qed simp

lemma find_sub_None: "find_sub d data = None \<longleftrightarrow> (\<forall>j<length data. \<not> prefix d (drop j data))"
  by (induction data) (auto simp: less_Suc_eq_0_disj)

lemma prefix_drop_append: "j \<le> length data \<Longrightarrow> prefix d (drop j data) \<Longrightarrow> prefix d (drop j (data @ ys))"
  by (simp add: prefix_def) (metis append.assoc)

lemma find_sub_append: "find_sub d data = Some k \<Longrightarrow> find_sub d (data @ ys) = Some k"
proof (induction data arbitrary: k)
  case (Cons x xs)
  show ?case
  proof (cases "prefix d (x # xs)")
    case True
    then show ?thesis using Cons.prems prefix_drop_append [of 0 "x # xs" d ys] by simp
  next
    case False
    then obtain j where j: "find_sub d xs = Some j" "k = Suc j" using Cons.prems by auto
    then have fit: "length d \<le> length xs" using prefix_length_le [of d "drop j xs"] by (simp add: find_sub_Some)
    have "\<not> prefix d (x # xs @ ys)"
    proof
      assume "prefix d (x # xs @ ys)"
      then have "prefix d ((x # xs) @ ys)" by simp
      then show False using False fit prefix_length_prefix [of d "(x # xs) @ ys" "x # xs"] by simp
    qed
    then show ?thesis using Cons.IH [OF j(1)] j(2) by simp
  qed
qed simp

section \<open>The search that is resumed\<close>

text \<open>No occurrence begins before a position, now or after more bytes.\<close>

definition clear :: "bytes \<Rightarrow> bytes \<Rightarrow> nat \<Rightarrow> bool" where
  "clear d data pos \<longleftrightarrow> pos \<le> length data \<and> (\<forall>j<pos. \<not> prefix d (drop j data) \<and> \<not> prefix (drop j data) d)"

lemma clear_append:
  assumes "clear d data pos"
  shows "clear d (data @ ys) pos"
proof -
  have "\<not> prefix d (drop j (data @ ys)) \<and> \<not> prefix (drop j (data @ ys)) d" if "j < pos" for j
  proof -
    have "drop j (data @ ys) = drop j data @ ys" using that assms by (simp add: clear_def)
    moreover have "\<not> prefix d (drop j data)" "\<not> prefix (drop j data) d" using that assms by (auto simp: clear_def)
    ultimately show ?thesis by (metis append_prefixD prefixI prefix_same_cases)
  qed
  then show ?thesis using assms by (simp add: clear_def)
qed

lemma test_match_spec:
  "test_match moved xs d =
     (if prefix d xs then Full else if prefix xs d \<and> (moved \<or> xs \<noteq> []) then Partial else Mismatch)"
  by (induction moved xs d rule: test_match.induct) auto

lemma partial_search_spec:
  assumes "partial_search i xs d = (k, full)"
  shows "\<exists>j. k = i + j \<and> j \<le> length xs \<and> (\<forall>l<j. \<not> prefix d (drop l xs) \<and> \<not> prefix (drop l xs) d) \<and>
    (if full then j < length xs \<and> prefix d (drop j xs)
     else j < length xs \<longrightarrow> prefix (drop j xs) d \<and> \<not> prefix d (drop j xs))"
  using assms
proof (induction i xs d rule: partial_search.induct)
  case (2 i x xs d)
  show ?case
  proof (cases "test_match False (x # xs) d")
    case Mismatch
    then have no: "\<not> prefix d (x # xs)" "\<not> prefix (x # xs) d" by (auto simp: test_match_spec split: if_splits)
    obtain j where j: "k = Suc i + j" "j \<le> length xs" "\<forall>l<j. \<not> prefix d (drop l xs) \<and> \<not> prefix (drop l xs) d"
      "if full then j < length xs \<and> prefix d (drop j xs) else j < length xs \<longrightarrow> prefix (drop j xs) d \<and> \<not> prefix d (drop j xs)"
      using 2 Mismatch by auto
    then show ?thesis using no by (intro exI [of _ "Suc j"]) (auto simp: less_Suc_eq_0_disj split: if_splits)
  qed (use 2 in \<open>auto simp: test_match_spec split: if_splits\<close>)
qed simp

text \<open>A search from a clear position.\<close>

lemma partial_search_clear:
  assumes "clear d data pos" and "partial_search pos (drop pos data) d = (i, full)"
  shows "clear d data i" "full \<Longrightarrow> find_sub d data = Some i"
    "\<not> full \<Longrightarrow> find_sub d data = None" "\<not> full \<Longrightarrow> i < length data \<Longrightarrow> prefix (drop i data) d"
proof -
  obtain j where j: "i = pos + j" "j \<le> length data - pos"
    "\<forall>l<j. \<not> prefix d (drop (pos + l) data) \<and> \<not> prefix (drop (pos + l) data) d"
    "if full then i < length data \<and> prefix d (drop i data)
     else i < length data \<longrightarrow> prefix (drop i data) d \<and> \<not> prefix d (drop i data)"
    using partial_search_spec [OF assms(2)] assms(1) by (auto simp: clear_def add.commute split: if_splits)
  have before: "\<not> prefix d (drop l data) \<and> \<not> prefix (drop l data) d" if "l < i" for l
    using that assms(1) j(1) j(3) [rule_format, of "l - pos"] by (cases "l < pos") (auto simp: clear_def)
  then show "clear d data i" using assms(1) j(1,2) by (auto simp: clear_def)
  show "find_sub d data = Some i" if full using that j(4) before by (auto simp: find_sub_Some)
  show "prefix (drop i data) d" if "\<not> full" "i < length data" using that j(4) by simp
  show "find_sub d data = None" if "\<not> full"
  proof -
    have "\<not> prefix d (drop l data)" if l: "l < length data" for l
    proof (cases "l < i")
      case False
      then have i: "i < length data" "prefix (drop i data) d" "\<not> prefix d (drop i data)" using l \<open>\<not> full\<close> j(4) by auto
      have "\<not> length d \<le> length (drop i data)"
        using i(3) prefix_length_prefix [OF prefix_order.refl i(2)] by blast
      then show ?thesis using False by (auto dest: prefix_length_le)
    qed (use before in simp)
    then show ?thesis by (simp add: find_sub_None)
  qed
qed

text \<open>\<open>std::find\<close> is the search for a string of one character.\<close>

lemma find_char_search: "partial_search i xs [c] = (find_char c i xs, find_char c i xs \<noteq> i + length xs)"
proof (induction c i xs rule: find_char.induct)
  case (2 c i x xs)
  then show ?case by auto
qed simp

lemma look_char_string: "pos \<le> length data \<Longrightarrow> look_char c data pos = look_string [c] data pos"
  by (simp add: look_char_def look_string_def find_char_search Let_def)

text \<open>
  One search of the data finds the first occurrence of the delimiter when there is one. Otherwise the
  position it reports is where the next search may start: whatever bytes come next, the first
  occurrence is the one that search finds, and an occurrence may begin right there.
\<close>
theorem partial_search_resumes:
  "case partial_search 0 data d of
     (i, True) \<Rightarrow> find_sub d data = Some i
   | (i, False) \<Rightarrow> find_sub d data = None \<and> i \<le> length data \<and>
       (\<forall>more. find_sub d (data @ more) = map_option (\<lambda>k. i + k) (find_sub d (drop i data @ more))) \<and>
       (i = length data \<or> (\<exists>more. find_sub d (data @ more) = Some i))"
proof -
  obtain i full where ps: "partial_search 0 data d = (i, full)" by fastforce
  have "partial_search 0 (drop 0 data) d = (i, full)" using ps by simp
  note found = partial_search_clear [OF _ this, simplified clear_def, simplified]
  show ?thesis
  proof (cases full)
    case False
    have before: "\<not> prefix d (drop l (data @ more))" if "l < i" for l more
      using clear_append [of d data i more] found(1) that by (auto simp: clear_def)
    have resume: "find_sub d (data @ more) = map_option ((+) i) (find_sub d (drop i data @ more))" for more
    proof (cases "find_sub d (drop i data @ more)")
      case None
      have "\<not> prefix d (drop l (data @ more))" if "l < length (data @ more)" for l
        using None before [of l more] that found(1) by (cases "l < i") (auto simp: find_sub_None dest!: spec [of _ "l - i"])
      then have "find_sub d (data @ more) = None" unfolding find_sub_None by blast
      then show ?thesis using None by simp
    next
      case (Some k)
      have "\<not> prefix d (drop l (data @ more))" if "l < i + k" for l
        using Some before [of l more] that found(1) by (cases "l < i") (auto simp: find_sub_Some dest!: spec [of _ "l - i"])
      moreover have "i + k < length (data @ more)" "prefix d (drop (i + k) (data @ more))"
        using Some found(1) by (auto simp: find_sub_Some add.commute)
      ultimately have "find_sub d (data @ more) = Some (i + k)" unfolding find_sub_Some by blast
      then show ?thesis using Some by simp
    qed
    have "\<exists>more. find_sub d (data @ more) = Some i" if at: "i < length data"
    proof -
      obtain r where r: "d = drop i data @ r" using found(4) [OF False at] by (auto simp: prefix_def)
      have "find_sub d (data @ r) = Some i"
        using at r before [of _ r] by (simp add: find_sub_Some)
      then show ?thesis by blast
    qed
    then show ?thesis using ps False found(1,3) resume by fastforce
  qed (use ps found(2) in simp)
qed

section \<open>The loops\<close>

text \<open>
  A way to look for a match, the end of the first match in the data, and when a position is where the
  search may go on.
\<close>

locale scanner =
  fixes look :: "bytes \<Rightarrow> nat \<Rightarrow> found"
    and match_end :: "bytes \<Rightarrow> nat option"
    and clear_to :: "bytes \<Rightarrow> nat \<Rightarrow> bool"
  assumes clear_start: "clear_to data 0"
    and clear_more: "clear_to data p \<Longrightarrow> clear_to (data @ ys) p"
    and look_found: "clear_to data p \<Longrightarrow> look data p = Found k \<Longrightarrow> match_end data = Some k \<and> k \<le> length data"
    and look_next: "clear_to data p \<Longrightarrow> look data p = Next q \<Longrightarrow> match_end data = None \<and> clear_to data q \<and> q \<le> length data"
    and match_more: "match_end data = Some k \<Longrightarrow> match_end (data @ ys) = Some k"

interpretation delimiter: scanner "look_string d" "first_end d" "clear d"
proof unfold_locales
  fix data ys :: bytes and p q k :: nat
  show "clear d data 0" by (simp add: clear_def)
  show "clear d (data @ ys) p" if "clear d data p" using that by (rule clear_append)
  show "first_end d data = Some k \<Longrightarrow> first_end d (data @ ys) = Some k"
    by (auto simp: first_end_def find_sub_append)
  obtain i full where ps: "partial_search p (drop p data) d = (i, full)" by fastforce
  show "first_end d data = Some k \<and> k \<le> length data" if c: "clear d data p" and "look_string d data p = Found k"
  proof -
    have "full" "k = i + length d" using that ps by (auto simp: look_string_def split: if_splits)
    then have "find_sub d data = Some i" using partial_search_clear(2) [OF c ps] by simp
    moreover from this have "i + length d \<le> length data"
      using prefix_length_le [of d "drop i data"] by (auto simp: find_sub_Some)
    ultimately show ?thesis using \<open>k = i + length d\<close> by (simp add: first_end_def)
  qed
  show "first_end d data = None \<and> clear d data q \<and> q \<le> length data" if c: "clear d data p" and n: "look_string d data p = Next q"
  proof -
    have q: "q = i" "i = length data \<or> \<not> full" using n ps by (auto simp: look_string_def split: if_splits)
    then have "\<not> full" using partial_search_clear(2) [OF c ps] by (auto simp: find_sub_Some)
    then show ?thesis using q partial_search_clear [OF c ps] by (simp add: first_end_def clear_def)
  qed
qed

text \<open>
  A stream that has the bytes \<open>rest s\<close> left before it fails with \<open>err\<close>: a read of at least one byte
  returns some of them, and fails when there is none; a read of no byte succeeds.
\<close>

definition delivers :: "('s \<Rightarrow> nat \<Rightarrow> (error_code \<times> bytes) \<times> 's) \<Rightarrow> ('s \<Rightarrow> bytes) \<Rightarrow> error_code \<Rightarrow> bool" where
  "delivers rd rest err \<longleftrightarrow> failed err \<and>
     (\<forall>s n. case rd s n of ((ec, bs), s1) \<Rightarrow>
        length bs \<le> n \<and> rest s = bs @ rest s1 \<and>
        (if n = 0 \<or> rest s \<noteq> [] then ec = no_error \<and> (n = 0 \<or> bs \<noteq> []) else ec = err))"

lemma delivers_fails: "delivers rd rest err \<Longrightarrow> failed err"
  by (simp add: delivers_def)

lemma delivers_read:
  assumes "delivers rd rest err"
  obtains ec bs s1 where "rd s n = ((ec, bs), s1)" and "length bs \<le> n" and "rest s = bs @ rest s1"
    and "n = 0 \<or> rest s \<noteq> [] \<Longrightarrow> ec = no_error \<and> (n = 0 \<or> bs \<noteq> [])" and "n \<noteq> 0 \<Longrightarrow> rest s = [] \<Longrightarrow> ec = err"
proof -
  obtain ec bs s1 where r: "rd s n = ((ec, bs), s1)" by (metis surj_pair)
  show thesis using assms r unfolding delivers_def by (intro that [OF r]) (auto dest!: spec [of _ s] spec [of _ n])
qed

text \<open>
  The result a read must have, of the match in the text cut at the maximal size, the text and the maximal
  size: the end of the match, \<open>not_found\<close> with a full buffer, or the error with all the text.
\<close>

definition until_spec :: "nat option \<Rightarrow> nat \<Rightarrow> bytes \<Rightarrow> error_code \<Rightarrow> error_code \<Rightarrow> nat \<Rightarrow> bytes \<Rightarrow> bool" where
  "until_spec found m txt err ec n data \<longleftrightarrow>
     (case found of
        Some k \<Rightarrow> ec = no_error \<and> n = k \<and> k \<le> length data
      | None \<Rightarrow> n = 0 \<and> data = take m txt \<and> ec = (if m \<le> length txt then make_misc not_found else err))"

lemma failed_no_error [simp]: "\<not> failed no_error"
  by (simp add: failed_def no_error_def)

text \<open>The four ways a round of the loop goes.\<close>

lemma loop_found: "look (o_data ops b) p = Found k \<Longrightarrow> read_until_loop look ops rd p b s = Some (Returned no_error k b, s)"
  by (subst read_until_loop.simps) simp

lemma loop_full:
  "look (o_data ops b) p = Next q \<Longrightarrow> o_size ops b = o_max_size ops b \<Longrightarrow>
   read_until_loop look ops rd p b s = Some (Returned (make_misc not_found) 0 b, s)"
  by (subst read_until_loop.simps) simp

lemma loop_read:
  "look (o_data ops b) p = Next q \<Longrightarrow> o_size ops b \<noteq> o_max_size ops b \<Longrightarrow>
   o_prepare ops (bytes_to_read ops b) b = Some b1 \<Longrightarrow> rd s (bytes_to_read ops b) = ((ec, bs), s1) \<Longrightarrow>
   o_finish ops (bytes_to_read ops b) (length bs) (o_fill ops (bytes_to_read ops b) bs b1) = b2 \<Longrightarrow>
   read_until_loop look ops rd p b s =
     (if failed ec then Some (Returned ec 0 b2, s1) else read_until_loop look ops rd q b2 s1)"
  by (subst read_until_loop.simps) (simp add: Let_def)

lemma run_complete: "run_until op ops rd cancelled (Complete ec n b) s = Some (Returned ec n b, s)"
  by (subst run_until.simps) simp

lemma run_read:
  "rd s n = ((ec, bs), s1) \<Longrightarrow>
   run_until op ops rd cancelled (Start_read n b p) s =
     run_until op ops rd cancelled (op (Completion (cancelled s1) ec (length bs) n p) (o_fill ops n bs b)) s1"
  by (subst run_until.simps) (simp add: Let_def)

text \<open>One round of the loop that finds no match in a buffer with room.\<close>

definition reads_more ::
  "'b buffer_ops \<Rightarrow> ('s \<Rightarrow> nat \<Rightarrow> (error_code \<times> bytes) \<times> 's) \<Rightarrow> ('s \<Rightarrow> bytes) \<Rightarrow> error_code \<Rightarrow> 'b \<Rightarrow> 's \<Rightarrow>
   'b \<Rightarrow> 'b \<Rightarrow> error_code \<Rightarrow> bytes \<Rightarrow> 's \<Rightarrow> bool" where
  "reads_more ops rd rest err b s b1 b2 ec bs s1 \<longleftrightarrow>
     o_prepare ops (bytes_to_read ops b) b = Some b1 \<and> rd s (bytes_to_read ops b) = ((ec, bs), s1) \<and>
     o_finish ops (bytes_to_read ops b) (length bs) (o_fill ops (bytes_to_read ops b) bs b1) = b2 \<and>
     rest s = bs @ rest s1 \<and> (if rest s = [] then ec = err \<and> bs = [] else ec = no_error \<and> bs \<noteq> []) \<and>
     o_data ops b2 = o_data ops b @ bs \<and> o_max_size ops b2 = o_max_size ops b"

lemma reads_moreD:
  assumes "reads_more ops rd rest err b s b1 b2 ec bs s1"
  shows "o_prepare ops (bytes_to_read ops b) b = Some b1" and "rd s (bytes_to_read ops b) = ((ec, bs), s1)"
    and "o_finish ops (bytes_to_read ops b) (length bs) (o_fill ops (bytes_to_read ops b) bs b1) = b2"
    and "rest s = bs @ rest s1" and "if rest s = [] then ec = err \<and> bs = [] else ec = no_error \<and> bs \<noteq> []"
    and "o_data ops b2 = o_data ops b @ bs" and "o_max_size ops b2 = o_max_size ops b"
  using assms unfolding reads_more_def by blast+

locale until_reader = dynamic_buffer ops ok + scanner look match_end clear_to
  for ops :: "'b buffer_ops" and ok and look and match_end and clear_to
begin

lemma bytes_to_read_bounds:
  assumes "ok b" and "o_size ops b \<noteq> o_max_size ops b"
  shows "0 < bytes_to_read ops b" "bytes_to_read ops b \<le> o_max_size ops b - o_size ops b" "bytes_to_read ops b \<le> 65536"
  using assms size_max [OF assms(1)] by (auto simp: bytes_to_read_def)

lemma reader_round:
  assumes ok: "ok b" and room: "o_size ops b \<noteq> o_max_size ops b" and "delivers rd rest err"
  shows "\<exists>b1 b2 ec bs s1. reads_more ops rd rest err b s b1 b2 ec bs s1 \<and> ok b2"
proof -
  let ?n = "bytes_to_read ops b"
  note n = bytes_to_read_bounds [OF ok room]
  obtain b1 where b1: "o_prepare ops ?n b = Some b1"
    "\<And>bs. length bs \<le> ?n \<Longrightarrow> ok (o_finish ops ?n (length bs) (o_fill ops ?n bs b1)) \<and>
      o_data ops (o_finish ops ?n (length bs) (o_fill ops ?n bs b1)) = o_data ops b @ bs \<and>
      o_max_size ops (o_finish ops ?n (length bs) (o_fill ops ?n bs b1)) = o_max_size ops b"
    using prepare_fits [OF ok n(2,3)] by blast
  obtain ec bs s1 where r: "rd s ?n = ((ec, bs), s1)" "length bs \<le> ?n" "rest s = bs @ rest s1"
    "?n = 0 \<or> rest s \<noteq> [] \<Longrightarrow> ec = no_error \<and> (?n = 0 \<or> bs \<noteq> [])" "?n \<noteq> 0 \<Longrightarrow> rest s = [] \<Longrightarrow> ec = err"
    using delivers_read [OF assms(3), of s ?n] by blast
  have "if rest s = [] then ec = err \<and> bs = [] else ec = no_error \<and> bs \<noteq> []" using r(3-5) n(1) by auto
  then show ?thesis using b1(1) b1(2) [OF r(2)] r(1,3) unfolding reads_more_def by blast
qed

lemma read_until_loop_spec:
  assumes "delivers rd rest err" and "ok b" and "clear_to (o_data ops b) p"
  shows "\<exists>ec n b1 s1. read_until_loop look ops rd p b s = Some (Returned ec n b1, s1) \<and>
    until_spec (match_end (take (o_max_size ops b) (o_data ops b @ rest s))) (o_max_size ops b) (o_data ops b @ rest s) err ec n
      (o_data ops b1) \<and>
    o_data ops b1 @ rest s1 = o_data ops b @ rest s \<and> ok b1"
  using assms(2,3)
proof (induction "length (rest s)" arbitrary: b p s rule: less_induct)
  case less
  have fits: "take (o_max_size ops b) (o_data ops b @ r) = o_data ops b @ take (o_max_size ops b - length (o_data ops b)) r" for r
    using data_max [OF less.prems(1)] by simp
  show ?case
  proof (cases "look (o_data ops b) p")
    case (Found k)
    then show ?thesis using look_found [OF less.prems(2) Found] less.prems(1)
      by (simp add: loop_found until_spec_def fits match_more del: take_append)
  next
    case (Next q)
    note nxt = look_next [OF less.prems(2) Next]
    show ?thesis
    proof (cases "o_size ops b = o_max_size ops b")
      case True
      then show ?thesis using Next nxt less.prems(1) full_iff [OF less.prems(1)]
        by (simp add: loop_full until_spec_def)
    next
      case False
      obtain b1 b2 ec bs s1 where "reads_more ops rd rest err b s b1 b2 ec bs s1" and ok2: "ok b2"
        using reader_round [OF less.prems(1) False assms(1), of s] by blast
      note round = reads_moreD(1-5) [OF this(1)] and b2 = ok2 reads_moreD(6,7) [OF this(1)]
      show ?thesis
      proof (cases "rest s = []")
        case True
        have "length (o_data ops b) < o_max_size ops b"
          using data_max [OF less.prems(1)] full_iff [OF less.prems(1)] False by simp
        moreover have over: "ec = err" "bs = []" "rest s1 = []" using True round(4,5) by (metis append_is_Nil_conv)+
        moreover have "read_until_loop look ops rd p b s = Some (Returned err 0 b2, s1)"
          using loop_read [where look = look and rd = rd and p = p, OF Next False round(1,2,3)] unfolding over(1) if_P [OF delivers_fails [OF assms(1)]] .
        ultimately show ?thesis using True nxt b2 by (simp add: until_spec_def)
      next
        case more: False
        then have some: "ec = no_error" "bs \<noteq> []" using round(5) by metis+
        then have "length (rest s1) < length (rest s)" unfolding round(4) by simp
        moreover have "clear_to (o_data ops b2) q" using clear_more nxt by (simp add: b2(2))
        ultimately obtain ec' n b3 s3 where "read_until_loop look ops rd q b2 s1 = Some (Returned ec' n b3, s3)"
          "until_spec (match_end (take (o_max_size ops b) (o_data ops b @ rest s))) (o_max_size ops b) (o_data ops b @ rest s) err
             ec' n (o_data ops b3)" "o_data ops b3 @ rest s3 = o_data ops b @ rest s" "ok b3"
          using less.hyps [OF _ b2(1), of s1 q] unfolding b2(2,3) append_assoc round(4) [symmetric] by blast
        then show ?thesis using loop_read [where look = look and rd = rd and p = p, OF Next False round(1,2,3)] some(1) by simp
      qed
    qed
  qed
qed

text \<open>The asynchronous operation, once its first read is behind it, does what the loop does.\<close>

lemma run_until_loop:
  assumes "delivers rd rest err" and "ok b" and "clear_to (o_data ops b) p"
    and "length (o_data ops b @ rest s) < size_t_max"
  shows "run_until (until_op look ops) ops rd (\<lambda>_. False) (until_search look ops False no_error p b) s =
    read_until_loop look ops rd p b s"
  using assms(2-4)
proof (induction "length (rest s)" arbitrary: b p s rule: less_induct)
  case less
  show ?case
  proof (cases "look (o_data ops b) p")
    case (Found k)
    then have "k \<noteq> size_t_max" using look_found [OF less.prems(2) Found] less.prems(3) by auto
    then show ?thesis using Found
      by (simp add: loop_found until_search_def until_done_def run_complete)
  next
    case (Next q)
    note nxt = look_next [OF less.prems(2) Next]
    show ?thesis
    proof (cases "o_size ops b = o_max_size ops b")
      case True
      then show ?thesis using Next
        by (simp add: loop_full until_search_def until_done_def run_complete)
    next
      case False
      obtain b1 b2 ec bs s1 where "reads_more ops rd rest err b s b1 b2 ec bs s1" and ok2: "ok b2"
        using reader_round [OF less.prems(1) False assms(1), of s] by blast
      note round = reads_moreD(1-5) [OF this(1)] and b2 = ok2 reads_moreD(6,7) [OF this(1)]
      have act: "until_search look ops False no_error p b = Start_read (bytes_to_read ops b) b1 q"
        using Next False round(1) bytes_to_read_bounds(1) [OF less.prems(1) False] by (simp add: until_search_def)
      have q: "q \<noteq> size_t_max" using nxt less.prems(3) by simp
      show ?thesis
      proof (cases "rest s = []")
        case True
        then have over: "ec = err" "bs = []" "failed err" using round(5) delivers_fails [OF assms(1)] by metis+
        have "read_until_loop look ops rd p b s = Some (Returned err 0 b2, s1)"
          using loop_read [where look = look and rd = rd and p = p, OF Next False round(1,2,3)] unfolding over(1) if_P [OF over(3)] .
        then show ?thesis using act q round(2,3) over
          by (simp add: run_read until_op_def until_resume_def until_done_def run_complete)
      next
        case more: False
        then have some: "ec = no_error" "bs \<noteq> []" using round(5) by metis+
        then have "length (rest s1) < length (rest s)" unfolding round(4) by simp
        then have "run_until (until_op look ops) ops rd (\<lambda>_. False) (until_search look ops False no_error q b2) s1 =
            read_until_loop look ops rd q b2 s1"
          using less.prems(3) by (intro less.hyps) (simp_all add: b2 clear_more nxt round(4))
        then show ?thesis using act round(2,3) some loop_read [where look = look and rd = rd and p = p, OF Next False round(1,2,3)]
          by (simp add: run_read until_op_def until_resume_def)
      qed
    qed
  qed
qed

text \<open>From the start: a match or a full buffer at once means a read of no byte first.\<close>

lemma async_same_as_sync:
  assumes "delivers rd rest err" and "ok b" and "length (o_data ops b @ rest s) < size_t_max"
  shows "\<exists>ec n b1 s1 b2 s2. read_until_loop look ops rd 0 b s = Some (Returned ec n b1, s1) \<and>
    async_read_until (until_op look ops) ops rd (\<lambda>_. False) b s = Some (Returned ec n b2, s2) \<and>
    o_data ops b1 = o_data ops b2 \<and> rest s1 = rest s2"
proof (cases "\<exists>q. look (o_data ops b) 0 = Next q \<and> o_size ops b \<noteq> o_max_size ops b")
  case True
  then obtain q where q: "look (o_data ops b) 0 = Next q" "o_size ops b \<noteq> o_max_size ops b" by blast
  have "until_op look ops Initial b = until_search look ops False no_error 0 b"
    using q bytes_to_read_bounds(1) [OF assms(2) q(2)] by (simp add: until_op_def until_start_def until_search_def)
  then have "async_read_until (until_op look ops) ops rd (\<lambda>_. False) b s = read_until_loop look ops rd 0 b s"
    using run_until_loop [OF assms(1,2) clear_start assms(3)] by (simp add: async_read_until_def)
  then show ?thesis using read_until_loop_spec [OF assms(1,2) clear_start, of s] by fastforce
next
  case False
  obtain bs ec s1 where r: "rd s 0 = ((ec, bs), s1)" "length bs \<le> 0" "rest s = bs @ rest s1" "ec = no_error"
    using delivers_read [OF assms(1), of s 0] by (metis (no_types))
  obtain b1 where b1: "o_prepare ops 0 b = Some b1"
    "o_data ops (o_finish ops 0 0 (o_fill ops 0 [] b1)) = o_data ops b"
    using prepare_fits [OF assms(2), of 0] by (metis append_Nil2 le0 list.size(3))
  obtain p ec' n where p: "until_op look ops Initial b = Start_read 0 b1 p"
    "until_done no_error p b' = Complete ec' n b'" 
    "read_until_loop look ops rd 0 b s = Some (Returned ec' n b, s)" for b' :: 'b
  proof (cases "look (o_data ops b) 0")
    case (Found k)
    then have "k \<noteq> size_t_max" using look_found [OF clear_start Found] assms(3) by auto
    then show ?thesis using Found b1(1)
      by (intro that [of k no_error k]) (simp_all add: loop_found until_op_def until_start_def until_search_def until_done_def)
  next
    case (Next q)
    then show ?thesis using False b1(1)
      by (intro that [of size_t_max "make_misc not_found" 0])
        (simp_all add: loop_full until_op_def until_start_def until_search_def until_done_def)
  qed
  have "async_read_until (until_op look ops) ops rd (\<lambda>_. False) b s =
      Some (Returned ec' n (o_finish ops 0 0 (o_fill ops 0 [] b1)), s1)"
    using p(1) r by (simp add: async_read_until_def run_read run_complete until_op_def until_resume_def p(2))
  then show ?thesis using p(3) b1(2) r by auto
qed

end

section \<open>The functions on the model's buffers\<close>

interpretation streambuf_reader: until_reader streambuf_ref bf_ok "look_string d" "first_end d" "clear d" ..

interpretation string_reader_v1: until_reader string_ops_v1 ds_ok1 "look_string d" "first_end d" "clear d" ..

interpretation string_reader_v2: until_reader string_ops_v2 ds_ok2 "look_string d" "first_end d" "clear d" ..

text \<open>A concrete stream: the chunks that arrive, each handed out in as many reads as its size needs.\<close>

fun read_chunks :: "error_code \<Rightarrow> bytes list \<Rightarrow> nat \<Rightarrow> (error_code \<times> bytes) \<times> bytes list" where
  "read_chunks err cs 0 = ((no_error, []), cs)"
| "read_chunks err [] n = ((err, []), [])"
| "read_chunks err ([] # cs) n = read_chunks err cs n"
| "read_chunks err ((x # xs) # cs) n = ((no_error, take n (x # xs)), drop n (x # xs) # cs)"

lemma read_chunks_delivers:
  assumes "failed err"
  shows "delivers (read_chunks err) concat err"
proof -
  have "case read_chunks err s n of ((ec, bs), s1) \<Rightarrow> length bs \<le> n \<and> concat s = bs @ concat s1 \<and>
      (if n = 0 \<or> concat s \<noteq> [] then ec = no_error \<and> (n = 0 \<or> bs \<noteq> []) else ec = err)" for s n
    by (induction err s n rule: read_chunks.induct) (auto split: if_splits)
  then show ?thesis using assms by (simp add: delivers_def)
qed

text \<open>
  C26: Reading from a stream into a stream buffer until a string is found always ends. If the bytes in the
  buffer and those still to come, cut at the maximal size, contain the string, the function returns the
  end of its first occurrence; otherwise it returns \<open>not_found\<close> with a full buffer when there are at
  least as many bytes as it may hold, and else the error of the stream with all its bytes in the buffer.
  So the result does not depend on how the stream cuts the bytes, and no byte is lost or repeated: what
  is behind the string stays in the buffer or in the stream.
\<close>
theorem read_until_first_occurrence:
  assumes "delivers rd rest err" and "bf_ok b"
  shows "\<exists>ec n b1 s1. read_until_string_v1 streambuf_ref rd d b s = Some (Returned ec n b1, s1) \<and>
    until_spec (first_end d (take (bf_max b) (bf_data b @ rest s))) (bf_max b) (bf_data b @ rest s) err ec n (bf_data b1) \<and>
    bf_data b1 @ rest s1 = bf_data b @ rest s \<and> bf_ok b1"
  using streambuf_reader.read_until_loop_spec [OF assms delimiter.clear_start, where s = s]
  unfolding read_until_string_v1_def streambuf_ref_simps .

theorem read_until_first_occurrence_witness:
  "\<exists>b1 s1. read_until_string_v1 streambuf_ref (read_chunks (make_misc eof)) [13, 10] (bf_init 10 (\<lambda>_ n. n))
       [[97, 13], [10, 98], [99]] = Some (Returned no_error 3 b1, s1) \<and> bf_data b1 @ concat s1 = [97, 13, 10, 98, 99]"
  using read_until_first_occurrence [OF read_chunks_delivers [OF failed_make_misc [of eof]]
      bf_init_ok(1) [of 10 "\<lambda>_ n. n"], where d = "[13, 10]" and s = "[[97, 13], [10, 98], [99]]"]
  by (auto simp: bf_init_ok until_spec_def first_end_def)

text \<open>
  C27: On a string as a dynamic buffer the asynchronous operation, run to its completion without a
  cancellation, and the synchronous function have the same error, the same count, the same contents of
  the buffer and leave the same bytes in the stream, for every stream whose successful reads are not
  empty and less than \<open>2\<^sup>64 - 1\<close> bytes.
\<close>
theorem async_read_until_same_as_sync:
  assumes "delivers rd rest err" and "ds_ok2 b" and "length (ds_string b @ rest s) < size_t_max"
  shows "\<exists>ec n b1 s1 b2 s2. read_until_string_v2 string_ops_v2 rd d b s = Some (Returned ec n b1, s1) \<and>
    async_read_until (read_until_string_op_v2 string_ops_v2 d) string_ops_v2 rd (\<lambda>_. False) b s = Some (Returned ec n b2, s2) \<and>
    ds_data_at 0 (ds_size b1) b1 = ds_data_at 0 (ds_size b2) b2 \<and> rest s1 = rest s2"
  using string_reader_v2.async_same_as_sync [OF assms(1,2), where s = s and d = d] assms(3) ds_ok2_data [OF assms(2)]
  unfolding read_until_string_v2_def read_until_string_op_v2_def by simp

theorem async_read_until_same_as_sync_witness:
  "\<exists>ec n b1 s1 b2 s2.
     read_until_string_v2 string_ops_v2 (read_chunks (make_misc eof)) [13, 10] (ds_init [97] 1 (\<lambda>_ n. n) 10) [[13], [10, 98]] =
       Some (Returned ec n b1, s1) \<and>
     async_read_until (read_until_string_op_v2 string_ops_v2 [13, 10]) string_ops_v2 (read_chunks (make_misc eof)) (\<lambda>_. False)
       (ds_init [97] 1 (\<lambda>_ n. n) 10) [[13], [10, 98]] = Some (Returned ec n b2, s2)"
  using async_read_until_same_as_sync [OF read_chunks_delivers [OF failed_make_misc [of eof]],
      where b = "ds_init [97] 1 (\<lambda>_ n. n) 10" and s = "[[13], [10, 98]]" and d = "[13, 10]"]
  by (simp add: ds_init_def ds_ok2_def size_t_max_def) blast

text \<open>
  A stream that completes a read with no byte and no error ends the asynchronous operation, which then
  reports the place of the next search as if a match ended there; the synchronous function reads on.
\<close>

lemma async_empty_read_reports_match:
  "run_until (until_op look ops) ops rd (\<lambda>_. False) (Start_read n b p) s = Some (Returned no_error p (o_finish ops n 0 (o_fill ops n [] b)), s1)"
  if "rd s n = ((no_error, []), s1)" and "p \<noteq> size_t_max"
  using that by (simp add: run_read until_op_def until_resume_def until_done_def run_complete)

end
