(* ===== verification/Asio_Hash_Map.thy ===== *)
theory Asio_Hash_Map
  imports Prelude
begin

text \<open>
  The hash map of \<^verbatim>\<open>asio/detail/hash_map.hpp\<close>, in which the reactor keeps its operations by socket: one
  doubly linked list of all values, in which the values of a bucket stand next to each other, an array
  of buckets with iterators to the first and the last of theirs, and a list of spare nodes that are
  recycled. The keys are sockets, numbers here.
\<close>

section \<open>The list of values\<close>

text \<open>
  No two values of a map have the same key, so an iterator is the key of the value it points to;
  \<open>None\<close> is \<open>values_.end()\<close>.
\<close>

type_synonym iterator = "nat option"
type_synonym 'v value_list = "(nat \<times> 'v) list"

definition begin_it :: "'v value_list \<Rightarrow> iterator" where
  "begin_it vs = (case vs of [] \<Rightarrow> None | p # _ \<Rightarrow> Some (fst p))"

text \<open>\<open>++it\<close> and \<open>--it\<close> of an iterator to a value, and the values from an iterator on.\<close>

fun next_it :: "'v value_list \<Rightarrow> iterator \<Rightarrow> iterator" where
  "next_it [] it = None"
| "next_it (p # vs) it = (if it = Some (fst p) then begin_it vs else next_it vs it)"

fun prev_it :: "'v value_list \<Rightarrow> iterator \<Rightarrow> iterator" where
  "prev_it (p # q # vs) it = (if it = Some (fst q) then Some (fst p) else prev_it (q # vs) it)"
| "prev_it vs it = None"

definition from_it :: "'v value_list \<Rightarrow> iterator \<Rightarrow> 'v value_list" where
  "from_it vs it = dropWhile (\<lambda>p. it \<noteq> Some (fst p)) vs"

text \<open>Insertion before an iterator, and taking a node out.\<close>

fun insert_at :: "iterator \<Rightarrow> nat \<times> 'v \<Rightarrow> 'v value_list \<Rightarrow> 'v value_list" where
  "insert_at it x [] = [x]"
| "insert_at it x (p # vs) = (if it = Some (fst p) then x # p # vs else p # insert_at it x vs)"

fun remove_at :: "nat \<Rightarrow> 'v value_list \<Rightarrow> 'v value_list" where
  "remove_at k [] = []"
| "remove_at k (p # vs) = (if fst p = k then vs else p # remove_at k vs)"

definition splice :: "iterator \<Rightarrow> nat \<Rightarrow> 'v value_list \<Rightarrow> 'v value_list" where
  "splice pos k vs = (case map_of vs k of None \<Rightarrow> vs | Some v \<Rightarrow> insert_at pos (k, v) (remove_at k vs))"

section \<open>The map\<close>

text \<open>What the type of the values does when one is constructed by default, copied and assigned.\<close>

record 'v value_ops =
  v_default :: 'v
  v_copy :: "'v \<Rightarrow> 'v"
  v_assign :: "'v \<Rightarrow> 'v \<Rightarrow> 'v"

record 'v hash_map =
  hm_size :: nat
  hm_values :: "'v value_list"
  hm_spares :: "'v value_list"
  hm_buckets :: "(iterator \<times> iterator) list"
  hm_num_buckets :: nat

definition hm_init :: "'v hash_map" where
  "hm_init = \<lparr>hm_size = 0, hm_values = [], hm_spares = [], hm_buckets = [], hm_num_buckets = 0\<rparr>"

definition calculate_hash_value :: "nat \<Rightarrow> nat" where
  "calculate_hash_value s = s"

definition bucket_of :: "nat \<Rightarrow> nat \<Rightarrow> nat" where
  "bucket_of num_buckets k = calculate_hash_value k mod num_buckets"

definition hm_empty :: "'v hash_map \<Rightarrow> bool" where
  "hm_empty m \<longleftrightarrow> hm_values m = []"

text \<open>The loop that looks for a key from an iterator up to an end.\<close>

fun scan :: "iterator \<Rightarrow> nat \<Rightarrow> 'v value_list \<Rightarrow> iterator" where
  "scan end_it k [] = None"
| "scan end_it k (p # vs) =
     (if end_it = Some (fst p) then None else if fst p = k then Some (fst p) else scan end_it k vs)"

definition hm_find :: "nat \<Rightarrow> 'v hash_map \<Rightarrow> iterator" where
  "hm_find k m =
     (if hm_num_buckets m \<noteq> 0 then
        let (first, last) = hm_buckets m ! bucket_of (hm_num_buckets m) k
        in if first = None then None
           else scan (next_it (hm_values m) last) k (from_it (hm_values m) first)
      else None)"

definition hash_sizes :: "nat list" where
  "hash_sizes = [3, 13, 23, 53, 97, 193, 389, 769, 1543, 3079, 6151, 12289, 24593, 49157, 98317, 196613,
     393241, 786433, 1572869, 3145739, 6291469, 12582917, 25165843]"

fun first_above :: "nat \<Rightarrow> nat list \<Rightarrow> nat" where
  "first_above num_elems [] = 0"
| "first_above num_elems [s] = s"
| "first_above num_elems (s # sizes) = (if num_elems < s then s else first_above num_elems sizes)"

definition hash_size :: "nat \<Rightarrow> nat" where
  "hash_size num_elems = first_above num_elems hash_sizes"

text \<open>
  The loop of \<open>rehash\<close>. The iterator is advanced before the node it pointed to is moved backwards, so it
  visits the keys in their order before the loop.
\<close>

fun rehash_loop :: "nat list \<Rightarrow> 'v hash_map \<Rightarrow> 'v hash_map" where
  "rehash_loop [] m = m"
| "rehash_loop (k # ks) m =
     (let b = bucket_of (hm_num_buckets m) k;
          (first, last) = hm_buckets m ! b
      in if last = None then rehash_loop ks (m\<lparr>hm_buckets := (hm_buckets m)[b := (Some k, Some k)]\<rparr>)
         else
           let last1 = next_it (hm_values m) last
           in if last1 = Some k then rehash_loop ks (m\<lparr>hm_buckets := (hm_buckets m)[b := (first, last1)]\<rparr>)
              else
                let vs = splice last1 k (hm_values m)
                in rehash_loop ks (m\<lparr>hm_values := vs, hm_buckets := (hm_buckets m)[b := (first, prev_it vs last1)]\<rparr>))"

definition rehash :: "nat \<Rightarrow> 'v hash_map \<Rightarrow> 'v hash_map" where
  "rehash num_buckets m =
     (if num_buckets = hm_num_buckets m then m
      else rehash_loop (map fst (hm_values m))
             (m\<lparr>hm_buckets := replicate num_buckets (None, None), hm_num_buckets := num_buckets\<rparr>))"

text \<open>A recycled node is assigned the new value, a new node gets a copy.\<close>

definition values_insert :: "'v value_ops \<Rightarrow> iterator \<Rightarrow> nat \<times> 'v \<Rightarrow> 'v hash_map \<Rightarrow> 'v hash_map" where
  "values_insert ops it x m =
     (case hm_spares m of
        [] \<Rightarrow> m\<lparr>hm_values := insert_at it (fst x, v_copy ops (snd x)) (hm_values m)\<rparr>
      | s # ss \<Rightarrow> m\<lparr>hm_values := insert_at it (fst x, v_assign ops (snd s) (snd x)) (hm_values m), hm_spares := ss\<rparr>)"

definition values_erase :: "'v value_ops \<Rightarrow> nat \<Rightarrow> 'v hash_map \<Rightarrow> 'v hash_map" where
  "values_erase ops k m =
     (case map_of (hm_values m) k of
        None \<Rightarrow> m
      | Some v \<Rightarrow> m\<lparr>hm_values := remove_at k (hm_values m),
                    hm_spares := (0, v_assign ops v (v_default ops)) # hm_spares m\<rparr>)"

text \<open>Insertion into the buckets, after they have been made enough.\<close>

definition insert_in_bucket :: "'v value_ops \<Rightarrow> nat \<times> 'v \<Rightarrow> 'v hash_map \<Rightarrow> (iterator \<times> bool) \<times> 'v hash_map" where
  "insert_in_bucket ops x m =
     (let b = bucket_of (hm_num_buckets m) (fst x);
          (first, last) = hm_buckets m ! b
      in if first = None
         then
           let m1 = values_insert ops None x m
           in ((Some (fst x), True),
               m1\<lparr>hm_buckets := (hm_buckets m1)[b := (Some (fst x), Some (fst x))], hm_size := hm_size m1 + 1\<rparr>)
         else
           let end_it = next_it (hm_values m) last
           in case scan end_it (fst x) (from_it (hm_values m) first) of
                Some k \<Rightarrow> ((Some k, False), m)
              | None \<Rightarrow>
                  let m1 = values_insert ops end_it x m
                  in ((Some (fst x), True),
                      m1\<lparr>hm_buckets := (hm_buckets m1)[b := (first, Some (fst x))], hm_size := hm_size m1 + 1\<rparr>))"

definition hm_insert :: "'v value_ops \<Rightarrow> nat \<times> 'v \<Rightarrow> 'v hash_map \<Rightarrow> (iterator \<times> bool) \<times> 'v hash_map" where
  "hm_insert ops x m =
     insert_in_bucket ops x (if hm_size m + 1 \<ge> hm_num_buckets m then rehash (hash_size (hm_size m + 1)) m else m)"

text \<open>Erasing the value an iterator points to, given by its key, and erasing a key.\<close>

definition hm_erase_it :: "'v value_ops \<Rightarrow> nat \<Rightarrow> 'v hash_map \<Rightarrow> 'v hash_map" where
  "hm_erase_it ops k m =
     (let b = bucket_of (hm_num_buckets m) k;
          (first, last) = hm_buckets m ! b;
          is_first = (first = Some k);
          is_last = (last = Some k);
          m1 = m\<lparr>hm_buckets := (hm_buckets m)[b :=
                 (if is_first \<and> is_last then (None, None)
                  else if is_first then (next_it (hm_values m) first, last)
                  else if is_last then (first, prev_it (hm_values m) last)
                  else (first, last))]\<rparr>;
          m2 = values_erase ops k m1
      in m2\<lparr>hm_size := hm_size m2 - 1\<rparr>)"

definition hm_erase :: "'v value_ops \<Rightarrow> nat \<Rightarrow> 'v hash_map \<Rightarrow> 'v hash_map" where
  "hm_erase ops k m = (case hm_find k m of None \<Rightarrow> m | Some it \<Rightarrow> hm_erase_it ops it m)"

definition hm_clear :: "'v hash_map \<Rightarrow> 'v hash_map" where
  "hm_clear m = m\<lparr>hm_values := [], hm_size := 0, hm_buckets := replicate (hm_num_buckets m) (None, None)\<rparr>"

text \<open>Use of the value behind an iterator.\<close>

definition hm_modify :: "nat \<Rightarrow> ('v \<Rightarrow> 'v) \<Rightarrow> 'v hash_map \<Rightarrow> 'v hash_map" where
  "hm_modify k f m = m\<lparr>hm_values := map (\<lambda>(j, v). (j, if j = k then f v else v)) (hm_values m)\<rparr>"

end
