(* ===== verification/Asio_Reactor.thy ===== *)
theory Asio_Reactor
  imports Asio_Hash_Map Asio_Iocp
begin

text \<open>
  The reactor that operations without a completion port use on Windows: \<^verbatim>\<open>asio/detail/reactor_op_queue.hpp\<close>,
  \<^verbatim>\<open>asio/detail/win_fd_set_adapter.hpp\<close> and \<^verbatim>\<open>asio/detail/impl/select_reactor.ipp\<close> with its thread. An
  operation is a number and an \<open>op_queue\<close> a list of them. What the system decides, the results of
  \<open>select\<close> and of the attempts to perform an operation, is an argument or a list in the state.
\<close>

section \<open>Operations by descriptor\<close>

text \<open>
  \<open>mapped_type\<close> copies to an empty queue, and its assignment does nothing. The attempts of \<open>perform\<close>
  take the next answer of the system: whether the operation is done, and its error; without an answer
  the operation is not done.
\<close>

type_synonym reactor_op_queue = "nat list hash_map"

definition mapped_type :: "nat list value_ops" where
  "mapped_type = \<lparr>v_default = [], v_copy = (\<lambda>_. []), v_assign = (\<lambda>old _. old)\<rparr>"

record reactor_op =
  ro_ec :: "nat \<Rightarrow> error_code"
  ro_key :: "nat \<Rightarrow> nat"
  ro_answers :: "(bool \<times> error_code) list"

definition set_ec :: "nat \<Rightarrow> error_code \<Rightarrow> reactor_op \<Rightarrow> reactor_op" where
  "set_ec op ec r = r\<lparr>ro_ec := (ro_ec r)(op := ec)\<rparr>"

definition perform_op :: "nat \<Rightarrow> reactor_op \<Rightarrow> bool \<times> reactor_op" where
  "perform_op op r =
     (case ro_answers r of
        [] \<Rightarrow> (False, r)
      | (done, ec) # as \<Rightarrow> (done, set_ec op ec (r\<lparr>ro_answers := as\<rparr>)))"

definition queue_at :: "nat \<Rightarrow> reactor_op_queue \<Rightarrow> nat list" where
  "queue_at d q = (case map_of (hm_values q) d of None \<Rightarrow> [] | Some l \<Rightarrow> l)"

definition enqueue_operation :: "nat \<Rightarrow> nat \<Rightarrow> reactor_op_queue \<Rightarrow> bool \<times> reactor_op_queue" where
  "enqueue_operation d op q =
     (let ((_, new), q1) = hm_insert mapped_type (d, []) q in (new, hm_modify d (\<lambda>l. l @ [op]) q1))"

text \<open>The loops take from the front of the queue and push on \<open>ops\<close>.\<close>

fun cancel_loop :: "error_code \<Rightarrow> nat list \<Rightarrow> nat list \<Rightarrow> reactor_op \<Rightarrow> nat list \<times> reactor_op" where
  "cancel_loop ec [] ops r = (ops, r)"
| "cancel_loop ec (op # l) ops r = cancel_loop ec l (ops @ [op]) (set_ec op ec r)"

definition cancel_operations :: "nat \<Rightarrow> error_code \<Rightarrow> reactor_op_queue \<Rightarrow> nat list \<Rightarrow> reactor_op \<Rightarrow>
    (bool \<times> nat list) \<times> reactor_op_queue \<times> reactor_op" where
  "cancel_operations d ec q ops r =
     (case hm_find d q of
        None \<Rightarrow> ((False, ops), q, r)
      | Some i \<Rightarrow>
          let (ops1, r1) = cancel_loop ec (queue_at i q) ops r
          in ((True, ops1), hm_erase_it mapped_type i (hm_modify i (\<lambda>_. []) q), r1))"

fun cancel_by_key_loop :: "nat \<Rightarrow> error_code \<Rightarrow> nat list \<Rightarrow> nat list \<Rightarrow> nat list \<Rightarrow> bool \<Rightarrow> reactor_op \<Rightarrow>
    (bool \<times> nat list \<times> nat list) \<times> reactor_op" where
  "cancel_by_key_loop key ec [] ops others result r = ((result, ops, others), r)"
| "cancel_by_key_loop key ec (op # l) ops others result r =
     (if ro_key r op = key then cancel_by_key_loop key ec l (ops @ [op]) others True (set_ec op ec r)
      else cancel_by_key_loop key ec l ops (others @ [op]) result r)"

definition cancel_operations_by_key :: "nat \<Rightarrow> nat \<Rightarrow> error_code \<Rightarrow> reactor_op_queue \<Rightarrow> nat list \<Rightarrow> reactor_op \<Rightarrow>
    (bool \<times> nat list) \<times> reactor_op_queue \<times> reactor_op" where
  "cancel_operations_by_key d key ec q ops r =
     (case hm_find d q of
        None \<Rightarrow> ((False, ops), q, r)
      | Some i \<Rightarrow>
          let ((result, ops1, others), r1) = cancel_by_key_loop key ec (queue_at i q) ops [] False r;
              q1 = hm_modify i (\<lambda>_. others) q
          in ((result, ops1), if others = [] then hm_erase_it mapped_type i q1 else q1, r1))"

definition has_operation :: "nat \<Rightarrow> reactor_op_queue \<Rightarrow> bool" where
  "has_operation d q \<longleftrightarrow> hm_find d q \<noteq> None"

text \<open>What is left of the queue, when the first operation that is not done stops the loop.\<close>

fun perform_loop :: "nat list \<Rightarrow> nat list \<Rightarrow> reactor_op \<Rightarrow> (nat list \<times> nat list) \<times> reactor_op" where
  "perform_loop [] ops r = (([], ops), r)"
| "perform_loop (op # l) ops r =
     (let (done, r1) = perform_op op r
      in if done then perform_loop l (ops @ [op]) r1 else ((op # l, ops), r1))"

definition perform_operations :: "nat \<Rightarrow> reactor_op_queue \<Rightarrow> nat list \<Rightarrow> reactor_op \<Rightarrow>
    (bool \<times> nat list) \<times> reactor_op_queue \<times> reactor_op" where
  "perform_operations d q ops r =
     (case hm_find d q of
        None \<Rightarrow> ((False, ops), q, r)
      | Some i \<Rightarrow>
          let ((left, ops1), r1) = perform_loop (queue_at i q) ops r;
              q1 = hm_modify i (\<lambda>_. left) q
          in if left \<noteq> [] then ((True, ops1), q1, r1)
             else ((False, ops1), hm_erase_it mapped_type i q1, r1))"

fun get_all_loop :: "nat list \<Rightarrow> reactor_op_queue \<Rightarrow> nat list \<Rightarrow> nat list \<times> reactor_op_queue" where
  "get_all_loop [] q ops = (ops, q)"
| "get_all_loop (i # is) q ops =
     get_all_loop is (hm_erase_it mapped_type i (hm_modify i (\<lambda>_. []) q)) (ops @ queue_at i q)"

definition get_all_operations :: "reactor_op_queue \<Rightarrow> nat list \<Rightarrow> nat list \<times> reactor_op_queue" where
  "get_all_operations q ops = get_all_loop (map fst (hm_values q)) q ops"

section \<open>Sets of descriptors\<close>

record fd_set =
  fd_array :: "nat list"
  fd_capacity :: nat

definition fd_set_init :: fd_set where
  "fd_set_init = \<lparr>fd_array = [], fd_capacity = 1024\<rparr>"

definition fd_reset :: "fd_set \<Rightarrow> fd_set" where
  "fd_reset f = f\<lparr>fd_array := []\<rparr>"

definition fd_reserve :: "nat \<Rightarrow> fd_set \<Rightarrow> fd_set" where
  "fd_reserve n f =
     (if n \<le> fd_capacity f then f
      else f\<lparr>fd_capacity := (if fd_capacity f + fd_capacity f div 2 < n then n else fd_capacity f + fd_capacity f div 2)\<rparr>)"

definition fd_put :: "nat \<Rightarrow> fd_set \<Rightarrow> fd_set" where
  "fd_put d f = (let f1 = fd_reserve (length (fd_array f) + 1) f in f1\<lparr>fd_array := fd_array f1 @ [d]\<rparr>)"

definition fd_set_descriptor :: "nat \<Rightarrow> fd_set \<Rightarrow> fd_set" where
  "fd_set_descriptor d f = (if d \<in> set (fd_array f) then f else fd_put d f)"

definition fd_set_operations :: "reactor_op_queue \<Rightarrow> fd_set \<Rightarrow> fd_set" where
  "fd_set_operations q f = foldl (\<lambda>g d. fd_put d g) f (map fst (hm_values q))"

definition fd_is_set :: "nat \<Rightarrow> fd_set \<Rightarrow> bool" where
  "fd_is_set d f \<longleftrightarrow> d \<in> set (fd_array f)"

fun fd_perform_loop :: "nat list \<Rightarrow> reactor_op_queue \<Rightarrow> nat list \<Rightarrow> reactor_op \<Rightarrow> nat list \<times> reactor_op_queue \<times> reactor_op" where
  "fd_perform_loop [] q ops r = (ops, q, r)"
| "fd_perform_loop (d # ds) q ops r =
     (let ((_, ops1), q1, r1) = perform_operations d q ops r in fd_perform_loop ds q1 ops1 r1)"

definition fd_perform :: "fd_set \<Rightarrow> reactor_op_queue \<Rightarrow> nat list \<Rightarrow> reactor_op \<Rightarrow> nat list \<times> reactor_op_queue \<times> reactor_op" where
  "fd_perform f q ops r = fd_perform_loop (fd_array f) q ops r"

section \<open>The reactor\<close>

text \<open>
  \<open>in_bytes\<close> counts the bytes sent to the socket of the interrupter and not yet read. \<open>answer\<close> is what
  \<open>recv\<close> says when there is none: that it would block, or a failure.
\<close>

record interrupter =
  in_descriptor :: nat
  in_bytes :: nat

definition interrupter_interrupt :: "interrupter \<Rightarrow> interrupter" where
  "interrupter_interrupt i = i\<lparr>in_bytes := in_bytes i + 1\<rparr>"

function reset_loop :: "bool \<Rightarrow> nat \<Rightarrow> bool \<times> nat" where
  "reset_loop answer n =
     (if n \<ge> 1024 then reset_loop answer (n - 1024) else if n > 0 then (True, 0) else (answer, 0))"
  by pat_completeness auto
termination by (relation "measure snd") auto

definition interrupter_reset :: "bool \<Rightarrow> interrupter \<Rightarrow> bool \<times> interrupter" where
  "interrupter_reset answer i = (let (r, n) = reset_loop answer (in_bytes i) in (r, i\<lparr>in_bytes := n\<rparr>))"

text \<open>
  The types of operations are the indices 0 to 3 for read, write, except and connect. \<open>sr_timers\<close> are the
  wait operations of the registered timer queues. The thread of the reactor is at the head of its
  loop, in the call of \<open>select\<close>, behind it with the number of ready descriptors and the lock not yet
  taken again, holding the operations it has taken, or at its end.
\<close>

datatype reactor_thread = At_head | In_select | Behind_select int | Holding "nat list" | At_end

record select_reactor =
  sr_context :: io_context
  sr_queues :: "nat \<Rightarrow> reactor_op_queue"
  sr_sets :: "nat \<Rightarrow> fd_set"
  sr_op :: reactor_op
  sr_timers :: "nat list"
  sr_interrupter :: interrupter
  sr_stop_thread :: bool
  sr_thread :: bool
  sr_restart_op :: nat
  sr_shutdown :: bool
  sr_phase :: reactor_thread

definition max_select_ops :: nat where "max_select_ops = 3"
definition connect_op :: nat where "connect_op = 3"
definition max_ops :: nat where "max_ops = 4"

definition reactor_init :: "io_context \<Rightarrow> nat \<Rightarrow> nat \<Rightarrow> reactor_op \<Rightarrow> select_reactor" where
  "reactor_init c descriptor restart_op r =
     \<lparr>sr_context = c, sr_queues = (\<lambda>_. hm_init), sr_sets = (\<lambda>_. fd_set_init), sr_op = r, sr_timers = [],
      sr_interrupter = \<lparr>in_descriptor = descriptor, in_bytes = 0\<rparr>, sr_stop_thread = False, sr_thread = True,
      sr_restart_op = restart_op, sr_shutdown = False, sr_phase = At_head\<rparr>"

definition interrupt :: "select_reactor \<Rightarrow> select_reactor" where
  "interrupt s = s\<lparr>sr_interrupter := interrupter_interrupt (sr_interrupter s)\<rparr>"

definition on_context :: "(io_context \<Rightarrow> io_context) \<Rightarrow> select_reactor \<Rightarrow> select_reactor" where
  "on_context f s = s\<lparr>sr_context := f (sr_context s)\<rparr>"

text \<open>The operation of the immediate case is \<open>on_immediate\<close>, by default an immediate completion.\<close>

definition reactor_start_op :: "nat \<Rightarrow> nat \<Rightarrow> nat \<Rightarrow> select_reactor \<Rightarrow> select_reactor" where
  "reactor_start_op op_type d op s =
     (if sr_shutdown s then on_context (post_immediate_completion op) s
      else
        let (first, q) = enqueue_operation d op (sr_queues s op_type);
            s1 = on_context work_started (s\<lparr>sr_queues := (sr_queues s)(op_type := q)\<rparr>)
        in if first then interrupt s1 else s1)"

definition register_internal_descriptor :: "nat \<Rightarrow> nat \<Rightarrow> nat \<Rightarrow> select_reactor \<Rightarrow> select_reactor" where
  "register_internal_descriptor op_type d op s =
     interrupt (s\<lparr>sr_queues := (sr_queues s)(op_type := snd (enqueue_operation d op (sr_queues s op_type)))\<rparr>)"

text \<open>The loop over the types from \<open>i\<close> on.\<close>

fun cancel_types :: "nat \<Rightarrow> nat list \<Rightarrow> error_code \<Rightarrow> bool \<Rightarrow> nat list \<Rightarrow> select_reactor \<Rightarrow> (bool \<times> nat list) \<times> select_reactor" where
  "cancel_types d [] ec need ops s = ((need, ops), s)"
| "cancel_types d (i # is) ec need ops s =
     (let ((c, ops1), q, r) = cancel_operations d ec (sr_queues s i) ops (sr_op s)
      in cancel_types d is ec (c \<or> need) ops1 (s\<lparr>sr_queues := (sr_queues s)(i := q), sr_op := r\<rparr>))"

definition cancel_ops_unlocked :: "nat \<Rightarrow> error_code \<Rightarrow> select_reactor \<Rightarrow> select_reactor" where
  "cancel_ops_unlocked d ec s =
     (let ((need, ops), s1) = cancel_types d [0..<max_ops] ec False [] s;
          s2 = on_context (post_deferred_completions ops) s1
      in if need then interrupt s2 else s2)"

definition reactor_cancel_ops :: "nat \<Rightarrow> select_reactor \<Rightarrow> select_reactor" where
  "reactor_cancel_ops d s = cancel_ops_unlocked d (make_basic operation_aborted) s"

definition cancel_ops_by_key :: "nat \<Rightarrow> nat \<Rightarrow> nat \<Rightarrow> select_reactor \<Rightarrow> select_reactor" where
  "cancel_ops_by_key d op_type key s =
     (let ((need, ops), q, r) =
            cancel_operations_by_key d key (make_basic operation_aborted) (sr_queues s op_type) [] (sr_op s);
          s1 = on_context (post_deferred_completions ops) (s\<lparr>sr_queues := (sr_queues s)(op_type := q), sr_op := r\<rparr>)
      in if need then interrupt s1 else s1)"

definition deregister_descriptor :: "nat \<Rightarrow> select_reactor \<Rightarrow> select_reactor" where
  "deregister_descriptor d s = cancel_ops_unlocked d (make_basic operation_aborted) s"

text \<open>The operations of an internal descriptor are destroyed with the local queue.\<close>

definition deregister_internal_descriptor :: "nat \<Rightarrow> select_reactor \<Rightarrow> select_reactor" where
  "deregister_internal_descriptor d s =
     (let ((_, ops), s1) = cancel_types d [0..<max_ops] (make_basic operation_aborted) False [] s
      in on_context (\<lambda>c. c\<lparr>destroyed := destroyed c @ ops\<rparr>) s1)"

section \<open>Running\<close>

definition set_up :: "nat \<Rightarrow> reactor_op_queue \<Rightarrow> select_reactor \<Rightarrow> select_reactor" where
  "set_up i q s = s\<lparr>sr_sets := (sr_sets s)(i := fd_set_operations q (sr_sets s i))\<rparr>"

text \<open>
  The first part of \<open>run\<close>, under the lock. The result is whether it goes on to \<open>select\<close>; with a time-out
  of 0 it does so only when there is work.
\<close>

definition run_set_up :: "select_reactor \<Rightarrow> select_reactor" where
  "run_set_up s =
     (let s1 = s\<lparr>sr_sets := (\<lambda>i. fd_reset (sr_sets s i))\<rparr>;
          s2 = s1\<lparr>sr_sets := (sr_sets s1)(0 := fd_set_descriptor (in_descriptor (sr_interrupter s1)) (sr_sets s1 0))\<rparr>;
          s3 = foldl (\<lambda>t i. set_up i (sr_queues t i) t) s2 [0..<max_select_ops]
      in set_up 2 (sr_queues s3 connect_op) (set_up 1 (sr_queues s3 connect_op) s3))"

definition have_work :: "select_reactor \<Rightarrow> bool" where
  "have_work s \<longleftrightarrow> sr_timers s \<noteq> [] \<or> (\<exists>i \<in> set [0..<max_ops]. \<not> hm_empty (sr_queues s i))"

definition run_begin :: "int \<Rightarrow> select_reactor \<Rightarrow> bool \<times> select_reactor" where
  "run_begin usec s =
     (if sr_stop_thread s then (False, s)
      else let s1 = run_set_up s in (\<not> (usec = 0 \<and> \<not> have_work s1), s1))"

text \<open>
  What \<open>select\<close> is given to wait: seconds and microseconds, at most five minutes, of what the timer queues
  leave of them.
\<close>

definition get_timeout :: "(int \<Rightarrow> int) \<Rightarrow> int \<Rightarrow> int \<times> int" where
  "get_timeout wait_duration_usec usec =
     (let max_usec = 5 * 60 * 1000 * 1000;
          u = wait_duration_usec (if usec < 0 \<or> max_usec < usec then max_usec else usec)
      in (u div 1000000, u mod 1000000))"

text \<open>
  The return of \<open>select\<close>, with the sets it leaves, and the reset of the interrupter; \<open>answer\<close> is that of its
  socket.
\<close>

definition select_returns :: "int \<Rightarrow> (nat \<Rightarrow> nat list) \<Rightarrow> bool \<Rightarrow> select_reactor \<Rightarrow> int \<times> select_reactor" where
  "select_returns retval ready answer s =
     (let s1 = s\<lparr>sr_sets := (\<lambda>i. if i < max_select_ops then (sr_sets s i)\<lparr>fd_array := ready i\<rparr> else sr_sets s i)\<rparr>
      in if retval > 0 \<and> fd_is_set (in_descriptor (sr_interrupter s1)) (sr_sets s1 0) then
           let (r, i) = interrupter_reset answer (sr_interrupter s1);
               s2 = s1\<lparr>sr_interrupter := i\<rparr>
           in (retval - 1,
               if r then s2
               else on_context (post_immediate_completion (sr_restart_op s2)) (s2\<lparr>sr_stop_thread := True\<rparr>))
         else (retval, s1))"

definition perform_set :: "nat \<Rightarrow> nat \<Rightarrow> nat list \<times> select_reactor \<Rightarrow> nat list \<times> select_reactor" where
  "perform_set i op_type a =
     (let (ops, q, r) = fd_perform (sr_sets (snd a) i) (sr_queues (snd a) op_type) (fst a) (sr_op (snd a))
      in (ops, (snd a)\<lparr>sr_queues := (sr_queues (snd a))(op_type := q), sr_op := r\<rparr>))"

text \<open>The rest, under the lock again; \<open>expired\<close> tells which timers are ready. The result are the operations
  for the scheduler.\<close>

definition run_end :: "int \<Rightarrow> (nat \<Rightarrow> bool) \<Rightarrow> select_reactor \<Rightarrow> nat list \<times> select_reactor" where
  "run_end retval expired s =
     (let (ops, s1) =
            (if retval > 0
             then foldl (\<lambda>a i. perform_set i i a) (perform_set 1 connect_op (perform_set 2 connect_op ([], s)))
                    (rev [0..<max_select_ops])
             else ([], s))
      in (ops @ filter expired (sr_timers s1), s1\<lparr>sr_timers := filter (\<lambda>t. \<not> expired t) (sr_timers s1)\<rparr>))"

section \<open>Shutting down and the thread\<close>

text \<open>\<open>shutdown\<close> up to the join of the thread, and behind it.\<close>

definition shutdown_begin :: "select_reactor \<Rightarrow> select_reactor" where
  "shutdown_begin s =
     (let s1 = s\<lparr>sr_shutdown := True, sr_stop_thread := True\<rparr> in if sr_thread s1 then interrupt s1 else s1)"

fun get_all_types :: "nat list \<Rightarrow> nat list \<Rightarrow> select_reactor \<Rightarrow> nat list \<times> select_reactor" where
  "get_all_types [] ops s = (ops, s)"
| "get_all_types (i # is) ops s =
     (let (ops1, q) = get_all_operations (sr_queues s i) ops
      in get_all_types is ops1 (s\<lparr>sr_queues := (sr_queues s)(i := q)\<rparr>))"

definition shutdown_end :: "select_reactor \<Rightarrow> select_reactor" where
  "shutdown_end s =
     (let (ops, s1) = get_all_types [0..<max_ops] [] (s\<lparr>sr_thread := False\<rparr>)
      in on_context (abandon_operations (ops @ sr_timers s1)) (s1\<lparr>sr_timers := []\<rparr>))"

text \<open>A new interrupter and a new thread, by the operation posted when the reset failed.\<close>

definition restart_do_complete :: "bool \<Rightarrow> nat \<Rightarrow> select_reactor \<Rightarrow> select_reactor" where
  "restart_do_complete owner descriptor s =
     (if owner
      then s\<lparr>sr_interrupter := \<lparr>in_descriptor = descriptor, in_bytes = 0\<rparr>, sr_stop_thread := False, sr_thread := True,
             sr_phase := At_head\<rparr>
      else s)"

text \<open>One step of \<open>run_thread\<close>: what the thread does at each place of its loop.\<close>

definition thread_step :: "int \<Rightarrow> (nat \<Rightarrow> nat list) \<Rightarrow> bool \<Rightarrow> (nat \<Rightarrow> bool) \<Rightarrow> select_reactor \<Rightarrow> select_reactor" where
  "thread_step retval ready answer expired s =
     (case sr_phase s of
        At_head \<Rightarrow>
          if sr_stop_thread s then s\<lparr>sr_phase := At_end\<rparr>
          else let (go, s1) = run_begin (- 1) s in s1\<lparr>sr_phase := (if go then In_select else Holding [])\<rparr>
      | In_select \<Rightarrow> let (n, s1) = select_returns retval ready answer s in s1\<lparr>sr_phase := Behind_select n\<rparr>
      | Behind_select n \<Rightarrow> let (ops, s1) = run_end n expired s in s1\<lparr>sr_phase := Holding ops\<rparr>
      | Holding ops \<Rightarrow> on_context (post_deferred_completions ops) (s\<lparr>sr_phase := At_head\<rparr>)
      | At_end \<Rightarrow> s)"

end
