(* ===== verification/Asio_Hash_Map_Facts.thy ===== *)
theory Asio_Hash_Map_Facts
  imports Asio_Hash_Map
begin

text \<open>
  The hash map implements a map. The list of values is seen as a sequence of groups, one for each
  bucket that has values; adding a value appends it to the group of its bucket.
\<close>

section \<open>Lists with distinct keys\<close>

abbreviation keys :: "'v value_list \<Rightarrow> nat list" where "keys \<equiv> map fst"

lemma next_it_append: "fst p \<notin> set (keys xs) \<Longrightarrow> next_it (xs @ p # ys) (Some (fst p)) = begin_it ys"
  by (induction xs) auto

lemma prev_it_append: "fst q \<notin> set (keys (xs @ [p])) \<Longrightarrow> prev_it (xs @ p # q # ys) (Some (fst q)) = Some (fst p)"
proof (induction xs)
  case (Cons x xs)
  then show ?case by (cases xs) auto
qed simp

lemma from_it_append: "fst p \<notin> set (keys xs) \<Longrightarrow> from_it (xs @ p # ys) (Some (fst p)) = p # ys"
  by (induction xs) (auto simp: from_it_def)

lemma insert_at_append: "distinct (keys (xs @ ys)) \<Longrightarrow> insert_at (begin_it ys) x (xs @ ys) = xs @ x # ys"
proof (induction xs)
  case Nil
  then show ?case by (cases ys) (auto simp: begin_it_def)
next
  case (Cons p xs)
  then have "begin_it ys \<noteq> Some (fst p)" by (auto simp: begin_it_def split: list.splits)
  then show ?case using Cons by simp
qed

lemma remove_at_append: "fst p \<notin> set (keys xs) \<Longrightarrow> remove_at (fst p) (xs @ p # ys) = xs @ ys"
  by (induction xs) auto

lemma map_of_append_here: "fst p \<notin> set (keys xs) \<Longrightarrow> map_of (xs @ p # ys) (fst p) = Some (snd p)"
  by (induction xs) auto

lemma scan_group:
  "distinct (keys (g @ ys)) \<Longrightarrow> scan (begin_it ys) k (g @ ys) = (if k \<in> set (keys g) then Some k else None)"
proof (induction g)
  case Nil
  then show ?case by (cases ys) (auto simp: begin_it_def)
next
  case (Cons p g)
  then have "begin_it ys \<noteq> Some (fst p)" by (auto simp: begin_it_def split: list.splits)
  then show ?case using Cons by auto
qed

section \<open>Groups\<close>

type_synonym 'v groups = "(nat \<times> 'v value_list) list"

definition ends :: "'v value_list option \<Rightarrow> iterator \<times> iterator" where
  "ends g = (case g of None \<Rightarrow> (None, None) | Some g \<Rightarrow> (Some (fst (hd g)), Some (fst (last g))))"

text \<open>The groups of the values that are sorted in, and the values still to be sorted in by \<open>rehash\<close>.\<close>

definition grouped :: "'v groups \<Rightarrow> 'v value_list \<Rightarrow> 'v hash_map \<Rightarrow> bool" where
  "grouped gs rest m \<longleftrightarrow>
     hm_values m = concat (map snd gs) @ rest \<and> distinct (keys (hm_values m)) \<and> distinct (map fst gs) \<and>
     (\<forall>(b, g) \<in> set gs. g \<noteq> [] \<and> b < hm_num_buckets m \<and> (\<forall>p \<in> set g. bucket_of (hm_num_buckets m) (fst p) = b)) \<and>
     length (hm_buckets m) = hm_num_buckets m \<and>
     (\<forall>b < hm_num_buckets m. hm_buckets m ! b = ends (map_of gs b))"

lemma grouped_distinct: "grouped gs rest m \<Longrightarrow> distinct (keys (hm_values m))"
  unfolding grouped_def by blast

fun add_to :: "nat \<Rightarrow> nat \<times> 'v \<Rightarrow> 'v groups \<Rightarrow> 'v groups" where
  "add_to b p [] = [(b, [p])]"
| "add_to b p ((c, g) # gs) = (if c = b then (c, g @ [p]) # gs else (c, g) # add_to b p gs)"

lemma map_of_add_to:
  "map_of (add_to b p gs) c =
     (if c = b then Some (case map_of gs b of None \<Rightarrow> [p] | Some g \<Rightarrow> g @ [p]) else map_of gs c)"
  by (induction b p gs rule: add_to.induct) auto

lemma fst_add_to: "set (map fst (add_to b p gs)) = insert b (set (map fst gs))"
  by (induction b p gs rule: add_to.induct) auto

lemma distinct_add_to: "distinct (map fst gs) \<Longrightarrow> distinct (map fst (add_to b p gs))"
proof (induction b p gs rule: add_to.induct)
  case (2 b p c g gs)
  then show ?case using fst_add_to [of b p gs] by auto
qed simp

lemma in_add_to: "(c, h) \<in> set (add_to b p gs) \<Longrightarrow> (c, h) \<in> set gs \<or> c = b \<and> (h = [p] \<or> (\<exists>g. (b, g) \<in> set gs \<and> h = g @ [p]))"
  by (induction b p gs rule: add_to.induct) (auto split: if_splits)

lemma add_to_new: "map_of gs b = None \<Longrightarrow> concat (map snd (add_to b p gs)) = concat (map snd gs) @ [p]"
  by (induction b p gs rule: add_to.induct) (auto split: if_splits)

lemma add_to_old: "b \<notin> set (map fst as) \<Longrightarrow> add_to b p (as @ (b, g) # bs) = as @ (b, g @ [p]) # bs"
  by (induction as) auto

text \<open>The place of a group in the list of values.\<close>

lemma group_place:
  assumes "grouped gs rest m" and "map_of gs b = Some g"
  obtains as bs where "gs = as @ (b, g) # bs" and "b \<notin> set (map fst as)"
    and "hm_values m = concat (map snd as) @ g @ concat (map snd bs) @ rest" and "g \<noteq> []" and "b < hm_num_buckets m"
proof -
  have "(b, g) \<in> set gs" using assms(2) by (rule map_of_SomeD)
  moreover then obtain as bs where "gs = as @ (b, g) # bs" by (meson split_list)
  ultimately show thesis using assms(1) that [of as bs] by (fastforce simp: grouped_def)
qed

lemma group_place_all:
  assumes "grouped gs [] m" and "map_of gs b = Some g"
  shows "\<exists>as bs. gs = as @ (b, g) # bs \<and> b \<notin> set (map fst as) \<and>
    hm_values m = concat (map snd as) @ g @ concat (map snd bs) \<and> g \<noteq> [] \<and> b < hm_num_buckets m"
proof -
  obtain as bs where "gs = as @ (b, g) # bs" "b \<notin> set (map fst as)"
    "hm_values m = concat (map snd as) @ g @ concat (map snd bs) @ []" "g \<noteq> []" "b < hm_num_buckets m"
    using group_place [OF assms] by blast
  then show ?thesis by (simp only: append_Nil2) blast
qed

lemma keys_not_before: "distinct (keys (xs @ g @ ys)) \<Longrightarrow> p \<in> set g \<Longrightarrow> fst p \<notin> set (keys xs)"
  by auto

lemma bucket_ends:
  assumes "grouped gs rest m" and "map_of gs b = Some g" and "hm_values m = xs @ g @ ys"
  shows "hm_buckets m ! b = (Some (fst (hd g)), Some (fst (last g)))" "from_it (hm_values m) (Some (fst (hd g))) = g @ ys"
    "next_it (hm_values m) (Some (fst (last g))) = begin_it ys" "distinct (keys (xs @ g @ ys))"
proof -
  show d: "distinct (keys (xs @ g @ ys))" using grouped_distinct [OF assms(1)] by (simp only: assms(3))
  have g: "g \<noteq> []" "b < hm_num_buckets m" using group_place [OF assms(1,2)] by blast+
  then show "hm_buckets m ! b = (Some (fst (hd g)), Some (fst (last g)))"
    using assms(1,2) by (simp add: grouped_def ends_def)
  have "from_it (xs @ hd g # (tl g @ ys)) (Some (fst (hd g))) = hd g # (tl g @ ys)"
    using keys_not_before [OF d, of "hd g"] g(1) by (intro from_it_append) simp
  then show "from_it (hm_values m) (Some (fst (hd g))) = g @ ys" using g(1) by (cases g) (simp_all add: assms(3))
  have "next_it ((xs @ butlast g) @ last g # ys) (Some (fst (last g))) = begin_it ys"
  proof (rule next_it_append)
    have "distinct (keys (xs @ g))" using d by auto
    then have "distinct (keys ((xs @ butlast g) @ [last g]))" using g(1) by (metis append_assoc append_butlast_last_id)
    then show "fst (last g) \<notin> set (keys (xs @ butlast g))" by simp
  qed
  then show "next_it (hm_values m) (Some (fst (last g))) = begin_it ys"
    using g(1) unfolding assms(3) by (metis append.assoc append_Cons append_Nil append_butlast_last_id)
qed

text \<open>A value moved or put into the group of its bucket.\<close>

lemma grouped_add:
  assumes "grouped gs rest m" and "hm_num_buckets m \<noteq> 0" and "b = bucket_of (hm_num_buckets m) (fst p)"
    and "hm_values m1 = concat (map snd (add_to b p gs)) @ rest1" and "distinct (keys (hm_values m1))"
    and "hm_num_buckets m1 = hm_num_buckets m"
    and "hm_buckets m1 = (hm_buckets m)[b := ends (map_of (add_to b p gs) b)]"
  shows "grouped (add_to b p gs) rest1 m1"
proof -
  have b: "b < hm_num_buckets m" using assms(2,3) by (simp add: bucket_of_def)
  have "h \<noteq> [] \<and> c < hm_num_buckets m \<and> (\<forall>q \<in> set h. bucket_of (hm_num_buckets m) (fst q) = c)"
    if "(c, h) \<in> set (add_to b p gs)" for c h
    using in_add_to [OF that] assms(1,3) b by (fastforce simp: grouped_def)
  moreover have "hm_buckets m1 ! c = ends (map_of (add_to b p gs) c)" if "c < hm_num_buckets m" for c
    using that assms(1,7) by (cases "c = b") (auto simp: grouped_def map_of_add_to)
  ultimately show ?thesis
    using assms(1,4-7) distinct_add_to [of gs b p] unfolding grouped_def by (auto simp del: add_to.simps)
qed

lemma ends_add_to:
  "ends (map_of (add_to b p gs) b) =
     (case map_of gs b of None \<Rightarrow> (Some (fst p), Some (fst p))
      | Some g \<Rightarrow> (if g = [] then (Some (fst p), Some (fst p)) else (Some (fst (hd g)), Some (fst p))))"
  by (simp add: map_of_add_to ends_def split: option.splits)

section \<open>Rehashing\<close>

lemma rehash_step:
  assumes g: "grouped gs (p # rest) m" and n: "hm_num_buckets m \<noteq> 0"
  shows "\<exists>m1. rehash_loop (keys (p # rest)) m = rehash_loop (keys rest) m1 \<and>
    grouped (add_to (bucket_of (hm_num_buckets m) (fst p)) p gs) rest m1 \<and>
    set (hm_values m1) = set (hm_values m) \<and> hm_num_buckets m1 = hm_num_buckets m \<and> hm_size m1 = hm_size m \<and>
    hm_spares m1 = hm_spares m"
proof -
  let ?b = "bucket_of (hm_num_buckets m) (fst p)"
  have b: "?b < hm_num_buckets m" using n by (simp add: bucket_of_def)
  note d = grouped_distinct [OF g]
  show ?thesis
  proof (cases "map_of gs ?b")
    case None
    let ?m1 = "m\<lparr>hm_buckets := (hm_buckets m)[?b := (Some (fst p), Some (fst p))]\<rparr>"
    have "hm_buckets m ! ?b = (None, None)" using g b None by (simp add: grouped_def ends_def)
    moreover have "grouped (add_to ?b p gs) rest ?m1"
      using g None d by (intro grouped_add [OF g n refl]) (simp_all add: add_to_new ends_add_to grouped_def)
    ultimately show ?thesis by (intro exI [of _ ?m1]) simp
  next
    case (Some h)
    obtain as bs where place: "gs = as @ (?b, h) # bs" "?b \<notin> set (map fst as)"
      "hm_values m = concat (map snd as) @ h @ concat (map snd bs) @ p # rest" "h \<noteq> []"
      using group_place [OF g Some] by blast
    note e = bucket_ends [OF g Some place(3)]
    have new: "ends (map_of (add_to ?b p gs) ?b) = (Some (fst (hd h)), Some (fst p))"
      using Some place(4) by (simp add: ends_add_to)
    have added: "concat (map snd (add_to ?b p gs)) @ rest = concat (map snd as) @ h @ [p] @ concat (map snd bs) @ rest"
      using place(1,2) by (simp add: add_to_old)
    show ?thesis
    proof (cases "concat (map snd bs)")
      case Nil
      let ?m1 = "m\<lparr>hm_buckets := (hm_buckets m)[?b := (Some (fst (hd h)), Some (fst p))]\<rparr>"
      have "grouped (add_to ?b p gs) rest ?m1"
        using place(3) d Nil by (intro grouped_add [OF g n refl]) (simp_all add: added new)
      then show ?thesis using e(1,3) Nil by (intro exI [of _ ?m1]) (simp add: begin_it_def Let_def)
    next
      case (Cons q qs)
      have last1: "next_it (hm_values m) (Some (fst (last h))) = Some (fst q)" using e(3) Cons by (simp add: begin_it_def)
      have qp: "fst q \<noteq> fst p" using d unfolding place(3) Cons by auto
      let ?vs = "concat (map snd as) @ h @ [p] @ q # qs @ rest"
      have "remove_at (fst p) (hm_values m) = (concat (map snd as) @ h) @ (q # qs @ rest)"
        using remove_at_append [of p "concat (map snd as) @ h @ q # qs" rest] d unfolding place(3) Cons by auto
      moreover have "map_of (hm_values m) (fst p) = Some (snd p)"
        using map_of_append_here [of p "concat (map snd as) @ h @ q # qs" rest] d unfolding place(3) Cons by auto
      moreover have "insert_at (Some (fst q)) p ((concat (map snd as) @ h) @ (q # qs @ rest)) = ?vs"
        using insert_at_append [of "concat (map snd as) @ h" "q # qs @ rest" p] d unfolding place(3) Cons
        by (auto simp: begin_it_def)
      ultimately have vs: "splice (Some (fst q)) (fst p) (hm_values m) = ?vs" by (simp add: splice_def)
      have "prev_it ((concat (map snd as) @ h) @ p # q # qs @ rest) (Some (fst q)) = Some (fst p)"
        using d unfolding place(3) Cons by (intro prev_it_append) auto
      then have prev: "prev_it ?vs (Some (fst q)) = Some (fst p)" by simp
      let ?m1 = "m\<lparr>hm_values := ?vs, hm_buckets := (hm_buckets m)[?b := (Some (fst (hd h)), Some (fst p))]\<rparr>"
      have "distinct (keys ?vs)" using d unfolding place(3) Cons by auto
      then have "grouped (add_to ?b p gs) rest ?m1"
        using added Cons by (intro grouped_add [OF g n refl]) (simp_all add: new)
      moreover have "rehash_loop (keys (p # rest)) m = rehash_loop (keys rest) ?m1"
        using e(1) last1 qp vs prev by (simp add: Let_def)
      moreover have "set ?vs = set (hm_values m)" unfolding place(3) Cons by auto
      ultimately show ?thesis by (intro exI [of _ ?m1]) simp
    qed
  qed
qed

lemma rehash_loop_grouped:
  "grouped gs rest m \<Longrightarrow> hm_num_buckets m \<noteq> 0 \<Longrightarrow>
   \<exists>gs1. grouped gs1 [] (rehash_loop (keys rest) m) \<and> set (hm_values (rehash_loop (keys rest) m)) = set (hm_values m) \<and>
     hm_num_buckets (rehash_loop (keys rest) m) = hm_num_buckets m \<and> hm_size (rehash_loop (keys rest) m) = hm_size m \<and>
     hm_spares (rehash_loop (keys rest) m) = hm_spares m"
proof (induction rest arbitrary: gs m)
  case (Cons p rest)
  obtain m1 gs1 where m1: "rehash_loop (keys (p # rest)) m = rehash_loop (keys rest) m1" "grouped gs1 rest m1"
    "set (hm_values m1) = set (hm_values m)" "hm_num_buckets m1 = hm_num_buckets m" "hm_size m1 = hm_size m"
    "hm_spares m1 = hm_spares m"
    using rehash_step [OF Cons.prems] by blast
  have "hm_num_buckets m1 \<noteq> 0" using Cons.prems(2) m1(4) by simp
  from Cons.IH [OF m1(2) this] show ?case unfolding m1(1,3-6) .
qed auto

section \<open>The map it stands for\<close>

definition hm_ok :: "'v hash_map \<Rightarrow> bool" where
  "hm_ok m \<longleftrightarrow> (\<exists>gs. grouped gs [] m) \<and> hm_size m = length (hm_values m) \<and> (hm_values m = [] \<or> hm_num_buckets m \<noteq> 0)"

definition hm_lookup :: "'v hash_map \<Rightarrow> nat \<rightharpoonup> 'v" where
  "hm_lookup m = map_of (hm_values m)"

lemma hm_ok_distinct: "hm_ok m \<Longrightarrow> distinct (keys (hm_values m))"
  by (auto simp: hm_ok_def dest: grouped_distinct)

text \<open>Some number of buckets is taken for any number of elements.\<close>

lemma first_above_pos: "0 \<notin> set sizes \<Longrightarrow> sizes \<noteq> [] \<Longrightarrow> first_above n sizes \<noteq> 0"
  by (induction n sizes rule: first_above.induct) auto

lemma hash_size_pos: "hash_size n \<noteq> 0"
  unfolding hash_size_def by (rule first_above_pos) (simp_all add: hash_sizes_def)

lemma map_of_same_set: "distinct (keys xs) \<Longrightarrow> distinct (keys ys) \<Longrightarrow> set xs = set ys \<Longrightarrow> map_of xs = map_of ys"
  by (intro map_of_eqI) (auto simp: map_of_eq_Some_iff)

lemma rehash_ok:
  assumes "hm_ok m" and "n \<noteq> 0"
  shows "hm_ok (rehash n m)" "hm_lookup (rehash n m) = hm_lookup m" "hm_num_buckets (rehash n m) = n"
    "hm_spares (rehash n m) = hm_spares m" "hm_size (rehash n m) = hm_size m" "set (hm_values (rehash n m)) = set (hm_values m)"
proof -
  let ?m = "m\<lparr>hm_buckets := replicate n (None, None), hm_num_buckets := n\<rparr>"
  have "hm_ok (rehash n m) \<and> hm_lookup (rehash n m) = hm_lookup m \<and> hm_num_buckets (rehash n m) = n \<and>
    hm_spares (rehash n m) = hm_spares m \<and> hm_size (rehash n m) = hm_size m \<and> set (hm_values (rehash n m)) = set (hm_values m)"
  proof (cases "n = hm_num_buckets m")
    case False
    note d = hm_ok_distinct [OF assms(1)]
    have "grouped [] (hm_values m) ?m" using d by (simp add: grouped_def ends_def)
    then obtain gs1 where gs1: "grouped gs1 [] (rehash n m)" "set (hm_values (rehash n m)) = set (hm_values m)"
      "hm_num_buckets (rehash n m) = n" "hm_size (rehash n m) = hm_size m" "hm_spares (rehash n m) = hm_spares m"
      using rehash_loop_grouped [of "[]" "hm_values m" ?m] assms(2) False by (auto simp: rehash_def)
    moreover have "length (hm_values (rehash n m)) = length (hm_values m)"
      using grouped_distinct [OF gs1(1)] d gs1(2) by (metis distinct_card distinct_map)
    moreover have "hm_lookup (rehash n m) = hm_lookup m"
      unfolding hm_lookup_def using grouped_distinct [OF gs1(1)] d gs1(2) by (rule map_of_same_set)
    ultimately show ?thesis using assms by (auto simp: hm_ok_def)
  qed (use assms in \<open>simp add: rehash_def\<close>)
  then show "hm_ok (rehash n m)" "hm_lookup (rehash n m) = hm_lookup m" "hm_num_buckets (rehash n m) = n"
    "hm_spares (rehash n m) = hm_spares m" "hm_size (rehash n m) = hm_size m" "set (hm_values (rehash n m)) = set (hm_values m)"
    by blast+
qed

text \<open>Where a key can be: in the group of its bucket.\<close>

lemma key_in_group:
  assumes "grouped gs [] m" and "k \<in> set (keys (hm_values m))"
  shows "\<exists>g. map_of gs (bucket_of (hm_num_buckets m) k) = Some g \<and> k \<in> set (keys g)"
proof -
  obtain b g p where "(b, g) \<in> set gs" "p \<in> set g" "k = fst p" using assms by (fastforce simp: grouped_def)
  then show ?thesis using assms(1) by (fastforce simp: grouped_def intro!: exI [of _ g])
qed

lemma hm_find_spec:
  assumes "hm_ok m"
  shows "hm_find k m = (if hm_lookup m k = None then None else Some k)"
proof -
  obtain gs where g: "grouped gs [] m" using assms by (auto simp: hm_ok_def)
  let ?b = "bucket_of (hm_num_buckets m) k"
  have dom: "hm_lookup m k = None \<longleftrightarrow> k \<notin> set (keys (hm_values m))" by (simp add: hm_lookup_def map_of_eq_None_iff)
  show ?thesis
  proof (cases "hm_num_buckets m = 0")
    case True
    then show ?thesis using assms dom by (auto simp: hm_ok_def hm_find_def)
  next
    case n: False
    then have b: "?b < hm_num_buckets m" by (simp add: bucket_of_def)
    show ?thesis
    proof (cases "map_of gs ?b")
      case None
      then have "hm_buckets m ! ?b = (None, None)" using g b by (simp add: grouped_def ends_def)
      moreover have "k \<notin> set (keys (hm_values m))" using key_in_group [OF g] None by fastforce
      ultimately show ?thesis using dom by (simp add: hm_find_def)
    next
      case (Some h)
      obtain as bs where "gs = as @ (?b, h) # bs"
        and place: "hm_values m = concat (map snd as) @ h @ concat (map snd bs)" "h \<noteq> []"
        using group_place_all [OF g Some] by blast
      note e = bucket_ends [OF g Some place(1)]
      have "scan (begin_it (concat (map snd bs))) k (h @ concat (map snd bs)) = (if k \<in> set (keys h) then Some k else None)"
        using e(4) by (intro scan_group) simp
      then have "hm_find k m = (if k \<in> set (keys h) then Some k else None)" using e(1-3) n by (simp add: hm_find_def)
      moreover have "k \<in> set (keys (hm_values m)) \<longleftrightarrow> k \<in> set (keys h)"
      proof
        assume "k \<in> set (keys (hm_values m))"
        then show "k \<in> set (keys h)" using key_in_group [OF g, of k] Some by auto
      qed (auto simp: place(1))
      ultimately show ?thesis using dom by simp
    qed
  qed
qed

text \<open>The value a new node gets.\<close>

definition fresh_value :: "'v value_ops \<Rightarrow> 'v hash_map \<Rightarrow> 'v \<Rightarrow> 'v" where
  "fresh_value ops m v = (case hm_spares m of [] \<Rightarrow> v_copy ops v | s # _ \<Rightarrow> v_assign ops (snd s) v)"

lemma values_insert_eq:
  "values_insert ops it x m =
     m\<lparr>hm_values := insert_at it (fst x, fresh_value ops m (snd x)) (hm_values m), hm_spares := tl (hm_spares m)\<rparr>"
  by (cases m) (simp add: values_insert_def fresh_value_def split: list.splits)

lemma insert_at_None: "insert_at None x vs = vs @ [x]"
  by (induction vs) auto

text \<open>Insertion when there are buckets.\<close>

lemma insert_grouped:
  fixes ops :: "'v value_ops" and v :: 'v and m :: "'v hash_map" and sz :: nat
  assumes g: "grouped gs [] m" and n: "hm_num_buckets m \<noteq> 0" and k: "k \<notin> set (keys (hm_values m))"
    and b: "b = bucket_of (hm_num_buckets m) k"
  defines "p \<equiv> (k, fresh_value ops m v)"
  defines "it \<equiv> (if fst (hm_buckets m ! b) = None then None else next_it (hm_values m) (snd (hm_buckets m ! b)))"
  defines "first \<equiv> (if fst (hm_buckets m ! b) = None then Some k else fst (hm_buckets m ! b))"
  shows "fst (hm_buckets m ! b) \<noteq> None \<Longrightarrow> scan it k (from_it (hm_values m) (fst (hm_buckets m ! b))) = None"
    and "\<exists>xs ys. hm_values m = xs @ ys \<and> hm_values (values_insert ops it (k, v) m) = xs @ p # ys"
    and "grouped (add_to b p gs) []
      (values_insert ops it (k, v) m\<lparr>hm_buckets := (hm_buckets m)[b := (first, Some k)], hm_size := sz\<rparr>)"
proof -
  have b': "b < hm_num_buckets m" using n b by (simp add: bucket_of_def)
  note d = grouped_distinct [OF g]
  have fp: "fst p = k" by (simp add: p_def)
  have "\<exists>xs ys. hm_values m = xs @ ys \<and> insert_at it p (hm_values m) = xs @ p # ys \<and>
      concat (map snd (add_to b p gs)) = xs @ p # ys \<and> (first, Some k) = ends (map_of (add_to b p gs) b) \<and>
      (fst (hm_buckets m ! b) \<noteq> None \<longrightarrow> scan it k (from_it (hm_values m) (fst (hm_buckets m ! b))) = None)"
  proof (cases "map_of gs b")
    case None
    then have e: "hm_buckets m ! b = (None, None)" using g b' by (simp add: grouped_def ends_def)
    show ?thesis using None g fp e
      by (rule_tac x = "hm_values m" in exI, rule_tac x = "[]" in exI)
        (simp add: it_def first_def insert_at_None add_to_new ends_add_to grouped_def)
  next
    case (Some h)
    obtain as bs where place: "gs = as @ (b, h) # bs" "b \<notin> set (map fst as)"
      "hm_values m = concat (map snd as) @ h @ concat (map snd bs)" "h \<noteq> []"
      using group_place_all [OF g Some] by blast
    note e = bucket_ends [OF g Some place(3)]
    have it: "it = begin_it (concat (map snd bs))" using e(1,3) by (simp add: it_def)
    have "insert_at it p ((concat (map snd as) @ h) @ concat (map snd bs)) = (concat (map snd as) @ h) @ p # concat (map snd bs)"
      unfolding it using e(4) by (intro insert_at_append) (simp only: append_assoc)
    moreover have "scan it k (h @ concat (map snd bs)) = None"
      unfolding it using e(4) k by (subst scan_group) (auto simp: place(3))
    moreover have "(first, Some k) = ends (map_of (add_to b p gs) b)"
      using Some place(4) fp e(1) by (simp add: ends_add_to first_def)
    moreover have "concat (map snd (add_to b p gs)) = (concat (map snd as) @ h) @ p # concat (map snd bs)"
      using place(1,2) by (simp add: add_to_old)
    ultimately show ?thesis using e(1,2) place(3)
      by (rule_tac x = "concat (map snd as) @ h" in exI, rule_tac x = "concat (map snd bs)" in exI) simp
  qed
  then obtain xs ys where *: "hm_values m = xs @ ys" "insert_at it p (hm_values m) = xs @ p # ys"
    "concat (map snd (add_to b p gs)) = xs @ p # ys" "(first, Some k) = ends (map_of (add_to b p gs) b)"
    "fst (hm_buckets m ! b) \<noteq> None \<longrightarrow> scan it k (from_it (hm_values m) (fst (hm_buckets m ! b))) = None" by blast
  show "fst (hm_buckets m ! b) \<noteq> None \<Longrightarrow> scan it k (from_it (hm_values m) (fst (hm_buckets m ! b))) = None" using *(5) by blast
  have vals: "hm_values (values_insert ops it (k, v) m) = xs @ p # ys" using *(2) by (simp add: values_insert_eq p_def)
  then show "\<exists>xs ys. hm_values m = xs @ ys \<and> hm_values (values_insert ops it (k, v) m) = xs @ p # ys" using *(1) by blast
  have "distinct (keys (xs @ p # ys))" using d k unfolding *(1) by (auto simp: fp)
  then show "grouped (add_to b p gs) []
      (values_insert ops it (k, v) m\<lparr>hm_buckets := (hm_buckets m)[b := (first, Some k)], hm_size := sz\<rparr>)"
    using vals *(3,4) b by (intro grouped_add [OF g n]) (simp_all add: fp values_insert_eq)
qed

lemma map_of_insert: "k \<notin> set (keys (xs @ ys)) \<Longrightarrow> map_of (xs @ (k, w) # ys) = (map_of (xs @ ys))(k \<mapsto> w)"
  by (induction xs) (auto simp: fun_upd_twist)

lemma enough_buckets:
  assumes "hm_ok m"
  shows "\<exists>m1. hm_ok m1 \<and> hm_lookup m1 = hm_lookup m \<and> hm_num_buckets m1 \<noteq> 0 \<and> hm_spares m1 = hm_spares m \<and>
    (\<forall>ops x. hm_insert ops x m = insert_in_bucket ops x m1)"
proof (cases "hm_size m + 1 \<ge> hm_num_buckets m")
  case True
  then show ?thesis using rehash_ok [OF assms hash_size_pos, of "hm_size m + 1"] hash_size_pos
    by (intro exI [of _ "rehash (hash_size (hm_size m + 1)) m"]) (simp add: hm_insert_def)
next
  case False
  then show ?thesis using assms by (intro exI [of _ m]) (simp add: hm_insert_def)
qed

lemma hm_insert_new:
  assumes "hm_ok m" and "hm_lookup m k = None"
  shows "fst (hm_insert ops (k, v) m) = (Some k, True)" "hm_ok (snd (hm_insert ops (k, v) m))"
    "hm_lookup (snd (hm_insert ops (k, v) m)) = (hm_lookup m)(k \<mapsto> fresh_value ops m v)"
    "hm_spares (snd (hm_insert ops (k, v) m)) = tl (hm_spares m)"
proof -
  obtain m1 where m1: "hm_ok m1" "hm_lookup m1 = hm_lookup m" "hm_num_buckets m1 \<noteq> 0" "hm_spares m1 = hm_spares m"
    and ins_eq: "hm_insert ops (k, v) m = insert_in_bucket ops (k, v) m1" using enough_buckets [OF assms(1)] by metis
  obtain gs where g: "grouped gs [] m1" using m1(1) by (auto simp: hm_ok_def)
  have k: "k \<notin> set (keys (hm_values m1))" using assms(2) m1(2) by (simp only: hm_lookup_def map_of_eq_None_iff [symmetric] set_map)
  define b where "b = bucket_of (hm_num_buckets m1) k"
  define f where "f = fst (hm_buckets m1 ! b)"
  define it where "it = (if f = None then None else next_it (hm_values m1) (snd (hm_buckets m1 ! b)))"
  let ?m2 = "values_insert ops it (k, v) m1"
  let ?r = "?m2\<lparr>hm_buckets := (hm_buckets m1)[b := (if f = None then Some k else f, Some k)], hm_size := hm_size m1 + 1\<rparr>"
  note ins = insert_grouped [OF g m1(3) k b_def, folded f_def, folded it_def]
  have r: "hm_insert ops (k, v) m = ((Some k, True), ?r)"
  proof -
    obtain fi la where e: "hm_buckets m1 ! b = (fi, la)" by fastforce
    then show ?thesis unfolding ins_eq using ins(1)
      by (cases fi) (simp_all add: insert_in_bucket_def Let_def b_def [symmetric] f_def it_def values_insert_eq)
  qed
  have f: "fresh_value ops m1 v = fresh_value ops m v" using m1(4) by (simp add: fresh_value_def)
  obtain xs ys where v: "hm_values m1 = xs @ ys" "hm_values ?m2 = xs @ (k, fresh_value ops m v) # ys"
    using ins(2) [of ops v] f by auto
  show "fst (hm_insert ops (k, v) m) = (Some k, True)" by (simp add: r)
  show "hm_spares (snd (hm_insert ops (k, v) m)) = tl (hm_spares m)" using m1(4) by (simp add: r values_insert_eq)
  show "hm_lookup (snd (hm_insert ops (k, v) m)) = (hm_lookup m)(k \<mapsto> fresh_value ops m v)"
    using map_of_insert [of k xs ys "fresh_value ops m v"] k v m1(2) by (simp add: r hm_lookup_def)
  have "hm_num_buckets ?r \<noteq> 0" using m1(3) by (simp add: values_insert_eq)
  moreover have "hm_size ?r = length (hm_values ?r)" using m1(1) v by (simp add: hm_ok_def)
  moreover have "\<exists>gs1. grouped gs1 [] ?r" using ins(3) [of ops v "hm_size m1 + 1"] by blast
  ultimately show "hm_ok (snd (hm_insert ops (k, v) m))" by (simp only: r snd_conv hm_ok_def simp_thms)
qed

lemma hm_insert_old:
  assumes "hm_ok m" and "hm_lookup m k \<noteq> None"
  shows "fst (hm_insert ops (k, v) m) = (Some k, False)" "hm_ok (snd (hm_insert ops (k, v) m))"
    "hm_lookup (snd (hm_insert ops (k, v) m)) = hm_lookup m" "hm_spares (snd (hm_insert ops (k, v) m)) = hm_spares m"
proof -
  obtain m1 where m1: "hm_ok m1" "hm_lookup m1 = hm_lookup m" "hm_num_buckets m1 \<noteq> 0" "hm_spares m1 = hm_spares m"
    and ins_eq: "hm_insert ops (k, v) m = insert_in_bucket ops (k, v) m1" using enough_buckets [OF assms(1)] by metis
  have found: "hm_find k m1 = Some k" using hm_find_spec [OF m1(1)] assms(2) m1(2) by simp
  define b where "b = bucket_of (hm_num_buckets m1) k"
  have "fst (hm_buckets m1 ! b) \<noteq> None"
    "scan (next_it (hm_values m1) (snd (hm_buckets m1 ! b))) k (from_it (hm_values m1) (fst (hm_buckets m1 ! b))) = Some k"
    using found m1(3) by (auto simp: hm_find_def b_def split: prod.splits if_splits)
  then have "hm_insert ops (k, v) m = ((Some k, False), m1)"
    unfolding ins_eq by (cases "hm_buckets m1 ! b") (simp add: insert_in_bucket_def Let_def b_def [symmetric])
  then show "fst (hm_insert ops (k, v) m) = (Some k, False)" "hm_ok (snd (hm_insert ops (k, v) m))"
    "hm_lookup (snd (hm_insert ops (k, v) m)) = hm_lookup m" "hm_spares (snd (hm_insert ops (k, v) m)) = hm_spares m"
    using m1 by simp_all
qed

section \<open>Erasing\<close>

text \<open>The ends of a group without one of its values.\<close>

definition new_ends :: "nat \<Rightarrow> 'v value_list \<Rightarrow> iterator \<times> iterator \<Rightarrow> iterator \<times> iterator" where
  "new_ends k vs e =
     (if fst e = Some k \<and> snd e = Some k then (None, None)
      else if fst e = Some k then (next_it vs (fst e), snd e)
      else if snd e = Some k then (fst e, prev_it vs (snd e))
      else e)"

lemma hm_erase_it_eq:
  "hm_erase_it ops k m =
     (let m2 = values_erase ops k (m\<lparr>hm_buckets := (hm_buckets m)[bucket_of (hm_num_buckets m) k :=
        new_ends k (hm_values m) (hm_buckets m ! bucket_of (hm_num_buckets m) k)]\<rparr>)
      in m2\<lparr>hm_size := hm_size m2 - 1\<rparr>)"
  by (cases "hm_buckets m ! bucket_of (hm_num_buckets m) k") (simp add: hm_erase_it_def new_ends_def Let_def)

lemma new_ends_group:
  assumes "distinct (keys (xs @ (us @ p # ws) @ ys))"
  shows "new_ends (fst p) (xs @ (us @ p # ws) @ ys) (Some (fst (hd (us @ p # ws))), Some (fst (last (us @ p # ws)))) =
    ends (if us @ ws = [] then None else Some (us @ ws))"
proof -
  have nxt: "next_it (xs @ p # ws @ ys) (Some (fst p)) = begin_it (ws @ ys)" if "us = []"
    using assms that by (intro next_it_append) auto
  have prev: "prev_it ((xs @ butlast us) @ last us # p # ys) (Some (fst p)) = Some (fst (last us))" if "us \<noteq> []" "ws = []"
  proof (rule prev_it_append)
    have "fst p \<notin> set (keys (xs @ us))" using assms that(2) by auto
    then show "fst p \<notin> set (keys ((xs @ butlast us) @ [last us]))" using that(1) by simp
  qed
  have first: "fst (hd us) \<noteq> fst p" if "us \<noteq> []" using assms that by (cases us) auto
  have last: "fst (last ws) \<noteq> fst p" if "ws \<noteq> []"
  proof -
    have "last ws \<in> set ws" using that by simp
    moreover have "fst p \<notin> set (keys ws)" using assms by simp
    ultimately show ?thesis by (metis image_eqI set_map)
  qed
  show ?thesis
  proof (cases us)
    case Nil
    then show ?thesis using nxt last by (cases ws) (auto simp: new_ends_def ends_def begin_it_def)
  next
    case (Cons u us')
    have "xs @ butlast us @ last us # p # ys = xs @ us @ p # ys" using Cons by (metis append_butlast_last_id append_Cons append_Nil append.assoc list.distinct(1))
    then have "prev_it (xs @ us @ p # ys) (Some (fst p)) = Some (fst (last us))" if "ws = []"
      using prev [OF _ that] Cons by (metis append.assoc list.distinct(1))
    then show ?thesis using first last Cons by (cases ws) (auto simp: new_ends_def ends_def)
  qed
qed

lemma map_of_delete: "k \<notin> set (keys (xs @ ys)) \<Longrightarrow> map_of (xs @ ys) = (map_of (xs @ (k, w) # ys))(k := None)"
  by (induction xs) (auto simp: fun_eq_iff map_of_eq_None_iff)

lemma grouped_delete:
  assumes g: "grouped gs [] m" and h: "map_of gs (bucket_of (hm_num_buckets m) (fst p)) = Some (us @ p # ws)"
  defines "b \<equiv> bucket_of (hm_num_buckets m) (fst p)"
  defines "e \<equiv> new_ends (fst p) (hm_values m) (hm_buckets m ! b)"
  shows "\<exists>gs1 xs ys. hm_values m = xs @ (us @ p # ws) @ ys \<and>
    grouped gs1 [] (m\<lparr>hm_values := xs @ (us @ ws) @ ys, hm_spares := sp, hm_buckets := (hm_buckets m)[b := e], hm_size := sz\<rparr>)"
proof -
  obtain as bs where place: "gs = as @ (b, us @ p # ws) # bs" "b \<notin> set (map fst as)"
    "hm_values m = concat (map snd as) @ (us @ p # ws) @ concat (map snd bs)" "b < hm_num_buckets m"
    using group_place_all [OF g h] by (auto simp: b_def)
  note be = bucket_ends [OF g h place(3)]
  have e: "e = ends (if us @ ws = [] then None else Some (us @ ws))"
    unfolding e_def b_def be(1) unfolding place(3) by (rule new_ends_group [OF be(4)])
  let ?gs = "if us @ ws = [] then as @ bs else as @ (b, us @ ws) # bs"
  let ?m = "m\<lparr>hm_values := concat (map snd as) @ (us @ ws) @ concat (map snd bs), hm_spares := sp,
    hm_buckets := (hm_buckets m)[b := e], hm_size := sz\<rparr>"
  have d: "distinct (map fst gs)" using g by (simp add: grouped_def)
  have "map_of as b = None" "map_of bs b = None" using d place(1,2) by (simp_all add: map_of_eq_None_iff)
  then have here: "map_of ?gs b = (if us @ ws = [] then None else Some (us @ ws))" by (simp add: map_add_def)
  have others: "map_of ?gs c = map_of gs c" if "c \<noteq> b" for c
    using that place(1) by (simp add: map_add_def split: option.splits)
  have "hm_buckets ?m ! c = ends (map_of ?gs c)" if c: "c < hm_num_buckets m" for c
  proof (cases "c = b")
    case True
    have "hm_buckets ?m ! b = e" using g place(4) by (simp add: grouped_def)
    then show ?thesis unfolding True here e .
  next
    case False
    have "hm_buckets ?m ! c = ends (map_of gs c)" using False c g by (simp add: grouped_def)
    then show ?thesis unfolding others [OF False] .
  qed
  then have "\<forall>c < hm_num_buckets ?m. hm_buckets ?m ! c = ends (map_of ?gs c)" by simp
  moreover have "hm_values ?m = concat (map snd ?gs) @ []" by auto
  moreover have "distinct (keys (hm_values ?m))" using be(4) by auto
  moreover have "distinct (map fst ?gs)" using d place(1) by auto
  moreover have "\<forall>(c, h) \<in> set ?gs. h \<noteq> [] \<and> c < hm_num_buckets ?m \<and> (\<forall>q \<in> set h. bucket_of (hm_num_buckets ?m) (fst q) = c)"
    using g place(1) by (auto simp: grouped_def)
  moreover have "length (hm_buckets ?m) = hm_num_buckets ?m" using g by (simp add: grouped_def)
  ultimately have "grouped ?gs [] ?m" unfolding grouped_def by blast
  then show ?thesis using place(3) by blast
qed

lemma hm_erase_it_spec:
  assumes "hm_ok m" and "hm_lookup m k = Some v"
  shows "hm_ok (hm_erase_it ops k m)" "hm_lookup (hm_erase_it ops k m) = (hm_lookup m)(k := None)"
    "hm_spares (hm_erase_it ops k m) = (0, v_assign ops v (v_default ops)) # hm_spares m"
proof -
  obtain gs where g: "grouped gs [] m" using assms(1) by (auto simp: hm_ok_def)
  have mem: "(k, v) \<in> set (hm_values m)" using assms(2) by (simp add: hm_lookup_def map_of_SomeD)
  have n: "hm_num_buckets m \<noteq> 0" using assms(1) mem by (auto simp: hm_ok_def)
  obtain h where h: "map_of gs (bucket_of (hm_num_buckets m) k) = Some h" "k \<in> set (keys h)"
    using key_in_group [OF g, of k] mem by force
  obtain us p ws where p: "h = us @ p # ws" "fst p = k" using h(2) by (metis (no_types, lifting) imageE list.set_map split_list)
  let ?b = "bucket_of (hm_num_buckets m) k"
  let ?e = "new_ends k (hm_values m) (hm_buckets m ! ?b)"
  let ?sp = "(0, v_assign ops v (v_default ops)) # hm_spares m"
  obtain gs1 xs ys where v: "hm_values m = xs @ (us @ p # ws) @ ys" and
    ok: "grouped gs1 [] (m\<lparr>hm_values := xs @ (us @ ws) @ ys, hm_spares := ?sp, hm_buckets := (hm_buckets m)[?b := ?e],
      hm_size := hm_size m - 1\<rparr>)"
    using grouped_delete [OF g, where p = p and us = us and ws = ws and sp = ?sp and sz = "hm_size m - 1"] h(1) p by auto
  have d: "distinct (keys (xs @ (us @ p # ws) @ ys))" using grouped_distinct [OF g] by (simp only: v)
  have "snd p = v" using map_of_append_here [of p "xs @ us" "ws @ ys"] d assms(2) p(2) by (auto simp: hm_lookup_def v)
  then have kv: "p = (k, v)" using p(2) by (cases p) simp
  have rem: "remove_at k (hm_values m) = xs @ (us @ ws) @ ys"
    using remove_at_append [of p "xs @ us" "ws @ ys"] d p(2) by (auto simp: v)
  have r: "hm_erase_it ops k m = m\<lparr>hm_values := xs @ (us @ ws) @ ys, hm_spares := ?sp,
      hm_buckets := (hm_buckets m)[?b := ?e], hm_size := hm_size m - 1\<rparr>"
    using assms(2) rem by (simp add: hm_erase_it_eq values_erase_def hm_lookup_def)
  show "hm_spares (hm_erase_it ops k m) = ?sp" by (simp add: r)
  show "hm_lookup (hm_erase_it ops k m) = (hm_lookup m)(k := None)"
    using map_of_delete [of k "xs @ us" "ws @ ys" v] d kv by (auto simp: r hm_lookup_def v)
  have "hm_size m = length (hm_values m)" using assms(1) by (simp add: hm_ok_def)
  then show "hm_ok (hm_erase_it ops k m)" using ok n unfolding r hm_ok_def by (auto simp: v)
qed

lemma hm_erase_spec:
  assumes "hm_ok m"
  shows "hm_ok (hm_erase ops k m)" "hm_lookup (hm_erase ops k m) = (hm_lookup m)(k := None)"
  using assms hm_find_spec [OF assms, of k] hm_erase_it_spec [OF assms, of k]
  by (auto simp: hm_erase_def split: option.splits)

lemma hm_init_ok: "hm_ok hm_init" "hm_lookup hm_init = Map.empty"
  by (auto simp: hm_ok_def hm_init_def hm_lookup_def grouped_def ends_def intro: exI [of _ "[]"])

lemma hm_clear_ok: "hm_ok (hm_clear m)" "hm_lookup (hm_clear m) = Map.empty"
  by (auto simp: hm_ok_def hm_clear_def hm_lookup_def grouped_def ends_def intro: exI [of _ "[]"])

lemma hm_modify_lookup: "hm_lookup (hm_modify k f m) = (\<lambda>j. map_option (if j = k then f else id) (hm_lookup m j))"
proof -
  have "map_of (map (\<lambda>(j, v). (j, if j = k then f v else v)) vs) = (\<lambda>j. map_option (if j = k then f else id) (map_of vs j))" for vs
    by (induction vs) auto
  then show ?thesis by (simp add: hm_lookup_def hm_modify_def)
qed

lemma hm_modify_keys [simp]: "map fst (hm_values (hm_modify k f m)) = map fst (hm_values m)"
  by (simp add: hm_modify_def case_prod_beta' comp_def)

lemma hm_modify_ok: "hm_ok q \<Longrightarrow> hm_ok (hm_modify d f q)"
proof -
  assume ok: "hm_ok q"
  let ?f = "\<lambda>(j, v). (j, if j = d then f v else v)"
  have ends: "ends (map_of (map (\<lambda>(b, g). (b, map ?f g)) gs) b) = ends (map_of gs b)"
    if "\<forall>(b, g) \<in> set gs. g \<noteq> []" for gs b
    using that by (induction gs) (auto simp: ends_def hd_map last_map case_prod_beta)
  obtain gs where g: "grouped gs [] q" using ok by (auto simp: hm_ok_def)
  have fst_eq: "fst (?f p) = fst p" for p by (simp add: case_prod_beta)
  have "grouped (map (\<lambda>(b, g). (b, map ?f g)) gs) [] (hm_modify d f q)"
    unfolding grouped_def
  proof (intro conjI allI impI)
    show "hm_values (hm_modify d f q) = concat (map snd (map (\<lambda>(b, g). (b, map ?f g)) gs)) @ []"
      using g by (simp add: grouped_def hm_modify_def map_concat comp_def case_prod_beta)
    show "distinct (keys (hm_values (hm_modify d f q)))" using grouped_distinct [OF g] by simp
    show "distinct (map fst (map (\<lambda>(b, g). (b, map ?f g)) gs))" using g by (simp add: grouped_def comp_def case_prod_beta)
    show "length (hm_buckets (hm_modify d f q)) = hm_num_buckets (hm_modify d f q)" using g by (simp add: grouped_def hm_modify_def)
    show "hm_buckets (hm_modify d f q) ! b = ends (map_of (map (\<lambda>(b, g). (b, map ?f g)) gs) b)"
      if "b < hm_num_buckets (hm_modify d f q)" for b
    proof -
      have "\<forall>(b, g) \<in> set gs. g \<noteq> []" using g by (fastforce simp: grouped_def)
      then show ?thesis using g that ends [of gs b] by (simp add: grouped_def hm_modify_def)
    qed
    show "\<forall>(b, g) \<in> set (map (\<lambda>(b, g). (b, map ?f g)) gs). g \<noteq> [] \<and> b < hm_num_buckets (hm_modify d f q) \<and>
        (\<forall>p \<in> set g. bucket_of (hm_num_buckets (hm_modify d f q)) (fst p) = b)"
      using g by (fastforce simp: grouped_def hm_modify_def)
  qed
  then show ?thesis using ok by (auto simp: hm_ok_def hm_modify_def)
qed

section \<open>Sequences of operations\<close>

text \<open>The operations of a map whose values are copied and assigned, and what each returns.\<close>

definition plain :: "nat value_ops" where
  "plain = \<lparr>v_default = 0, v_copy = id, v_assign = (\<lambda>_ v. v)\<rparr>"

datatype map_op = Map_insert nat nat | Map_erase nat | Map_find nat | Map_clear | Map_empty

datatype map_result = Inserted bool | Found_it "nat option" | Was_empty bool | Nothing_returned

fun hm_step :: "map_op \<Rightarrow> nat hash_map \<Rightarrow> map_result \<times> nat hash_map" where
  "hm_step (Map_insert k v) m = (let ((_, new), m1) = hm_insert plain (k, v) m in (Inserted new, m1))"
| "hm_step (Map_erase k) m = (Nothing_returned, hm_erase plain k m)"
| "hm_step (Map_find k) m =
     (Found_it (case hm_find k m of None \<Rightarrow> None | Some it \<Rightarrow> map_of (hm_values m) it), m)"
| "hm_step Map_clear m = (Nothing_returned, hm_clear m)"
| "hm_step Map_empty m = (Was_empty (hm_empty m), m)"

fun map_step :: "map_op \<Rightarrow> (nat \<rightharpoonup> nat) \<Rightarrow> map_result \<times> (nat \<rightharpoonup> nat)" where
  "map_step (Map_insert k v) f = (Inserted (f k = None), if f k = None then f(k \<mapsto> v) else f)"
| "map_step (Map_erase k) f = (Nothing_returned, f(k := None))"
| "map_step (Map_find k) f = (Found_it (f k), f)"
| "map_step Map_clear f = (Nothing_returned, Map.empty)"
| "map_step Map_empty f = (Was_empty (f = Map.empty), f)"

fun run_ops :: "('o \<Rightarrow> 'q \<Rightarrow> 'r \<times> 'q) \<Rightarrow> 'o list \<Rightarrow> 'q \<Rightarrow> 'r list \<times> 'q" where
  "run_ops step [] q = ([], q)"
| "run_ops step (a # as) q = (let (r, q1) = step a q; (rs, q2) = run_ops step as q1 in (r # rs, q2))"

lemma hm_step_map:
  assumes "hm_ok m"
  shows "fst (hm_step a m) = fst (map_step a (hm_lookup m))" "hm_lookup (snd (hm_step a m)) = snd (map_step a (hm_lookup m))"
    "hm_ok (snd (hm_step a m))"
proof -
  have fresh: "fresh_value plain m v = v" for v by (simp add: fresh_value_def plain_def split: list.splits)
  have "fst (hm_step a m) = fst (map_step a (hm_lookup m)) \<and> hm_lookup (snd (hm_step a m)) = snd (map_step a (hm_lookup m)) \<and>
    hm_ok (snd (hm_step a m))"
  proof (cases a)
    case (Map_insert k v)
    then show ?thesis
      using hm_insert_new [OF assms, of k plain v] hm_insert_old [OF assms, of k plain v] fresh
      by (cases "hm_lookup m k = None"; cases "hm_insert plain (k, v) m") (auto simp: Let_def)
  next
    case (Map_find k)
    then show ?thesis using assms hm_find_spec [OF assms, of k] by (auto simp: hm_lookup_def)
  next
    case Map_empty
    have "hm_lookup m = Map.empty \<longleftrightarrow> hm_values m = []" by (cases "hm_values m") (auto simp: hm_lookup_def fun_upd_idem_iff)
    then show ?thesis using assms Map_empty by (simp add: hm_empty_def)
  qed (use assms in \<open>simp_all add: hm_erase_spec hm_clear_ok\<close>)
  then show "fst (hm_step a m) = fst (map_step a (hm_lookup m))" "hm_lookup (snd (hm_step a m)) = snd (map_step a (hm_lookup m))"
    "hm_ok (snd (hm_step a m))" by blast+
qed

lemma hm_run_map:
  "hm_ok m \<Longrightarrow> fst (run_ops hm_step as m) = fst (run_ops map_step as (hm_lookup m)) \<and>
     hm_lookup (snd (run_ops hm_step as m)) = snd (run_ops map_step as (hm_lookup m)) \<and> hm_ok (snd (run_ops hm_step as m))"
proof (induction as arbitrary: m)
  case (Cons a as)
  show ?case using Cons.IH [OF hm_step_map(3) [OF Cons.prems, of a]] hm_step_map(1,2) [OF Cons.prems, of a]
    by (simp add: case_prod_beta' Let_def)
qed simp

text \<open>
  The hash map implements a map. For every sequence of insertions, erasures, searches and clearings
  from the empty map it returns what the map returns, iterating over its values meets every key of the
  map once, its size is the number of keys, and every access to a bucket is within the array, through
  all the times it is given more buckets and its values are sorted in again.
\<close>
theorem hash_map_refines_map:
  "fst (run_ops hm_step as hm_init) = fst (run_ops map_step as Map.empty) \<and>
   map_of (hm_values (snd (run_ops hm_step as hm_init))) = snd (run_ops map_step as Map.empty) \<and>
   distinct (map fst (hm_values (snd (run_ops hm_step as hm_init)))) \<and>
   hm_size (snd (run_ops hm_step as hm_init)) = card (dom (snd (run_ops map_step as Map.empty))) \<and>
   length (hm_buckets (snd (run_ops hm_step as hm_init))) = hm_num_buckets (snd (run_ops hm_step as hm_init))"
proof -
  let ?m = "snd (run_ops hm_step as hm_init)"
  have r: "fst (run_ops hm_step as hm_init) = fst (run_ops map_step as Map.empty)"
    "hm_lookup ?m = snd (run_ops map_step as Map.empty)" "hm_ok ?m"
    using hm_run_map [OF hm_init_ok(1), of as] by (simp_all add: hm_init_ok(2))
  have d: "distinct (map fst (hm_values ?m))" using r(3) by (rule hm_ok_distinct)
  have "card (dom (map_of (hm_values ?m))) = hm_size ?m"
    using r(3) d by (simp add: dom_map_of_conv_image_fst hm_ok_def distinct_card flip: set_map)
  moreover have "length (hm_buckets ?m) = hm_num_buckets ?m" using r(3) by (auto simp: hm_ok_def grouped_def)
  ultimately show ?thesis using r(1,2) d by (simp add: hm_lookup_def)
qed

end
