(* ===== verification/Asio_Reactor_Facts.thy ===== *)
theory Asio_Reactor_Facts
  imports Asio_Reactor Asio_Hash_Map_Facts Asio_Iocp_Facts
begin

text \<open>
  The operations of a reactor are queues by type and descriptor: what each operation does to them, that
  none is lost or handed over twice, and that none is waiting unnoticed while the thread is in \<open>select\<close>.
\<close>

section \<open>Queues by descriptor\<close>

text \<open>No queue in the map is empty, and recycled nodes hold empty queues.\<close>

definition rq_ok :: "reactor_op_queue \<Rightarrow> bool" where
  "rq_ok q \<longleftrightarrow> hm_ok q \<and> (\<forall>d l. hm_lookup q d = Some l \<longrightarrow> l \<noteq> []) \<and> (\<forall>s \<in> set (hm_spares q). snd s = [])"

lemma queue_at_lookup: "queue_at d q = (case hm_lookup q d of None \<Rightarrow> [] | Some l \<Rightarrow> l)"
  by (simp add: queue_at_def hm_lookup_def)

lemma queue_at_empty: "rq_ok q \<Longrightarrow> queue_at d q = [] \<longleftrightarrow> hm_lookup q d = None"
  by (auto simp: queue_at_lookup rq_ok_def split: option.splits)

lemma hm_find_queue: "rq_ok q \<Longrightarrow> hm_find d q = (if queue_at d q = [] then None else Some d)"
  by (simp add: hm_find_spec queue_at_empty) (simp add: rq_ok_def hm_find_spec)

lemma rq_ok_init: "rq_ok hm_init" "queue_at d hm_init = []"
  by (simp_all add: rq_ok_def hm_init_ok queue_at_lookup) (simp add: hm_init_def)

lemma hm_modify_spares [simp]: "hm_spares (hm_modify d f q) = hm_spares q"
  by (simp add: hm_modify_def)

text \<open>Setting a queue that is there, and erasing it when it is empty.\<close>

lemma set_queue:
  assumes "rq_ok q" and "l \<noteq> []"
  shows "queue_at d q \<noteq> [] \<Longrightarrow> rq_ok (hm_modify d (\<lambda>_. l) q)"
    "queue_at d q \<noteq> [] \<Longrightarrow> queue_at c (hm_modify d (\<lambda>_. l) q) = (if c = d then l else queue_at c q)"
  using assms by (auto simp: rq_ok_def hm_modify_ok hm_modify_lookup queue_at_lookup split: option.splits if_splits)

lemma erase_queue:
  assumes "rq_ok q" and "queue_at d q \<noteq> []"
  shows "rq_ok (hm_erase_it mapped_type d (hm_modify d (\<lambda>_. []) q))"
    "queue_at c (hm_erase_it mapped_type d (hm_modify d (\<lambda>_. []) q)) = (if c = d then [] else queue_at c q)"
proof -
  have "hm_ok (hm_modify d (\<lambda>_. []) q)" using assms(1) by (simp add: rq_ok_def hm_modify_ok)
  moreover have "hm_lookup (hm_modify d (\<lambda>_. []) q) d = Some []"
    using assms by (auto simp: hm_modify_lookup queue_at_lookup split: option.splits)
  ultimately have *: "hm_ok (hm_erase_it mapped_type d (hm_modify d (\<lambda>_. []) q))"
    "hm_lookup (hm_erase_it mapped_type d (hm_modify d (\<lambda>_. []) q)) = (hm_lookup (hm_modify d (\<lambda>_. []) q))(d := None)"
    "hm_spares (hm_erase_it mapped_type d (hm_modify d (\<lambda>_. []) q)) = (0, []) # hm_spares q"
    using hm_erase_it_spec [of "hm_modify d (\<lambda>_. []) q" d "[]" mapped_type] by (simp_all add: mapped_type_def)
  show "rq_ok (hm_erase_it mapped_type d (hm_modify d (\<lambda>_. []) q))"
    using assms(1) * by (auto simp: rq_ok_def hm_modify_lookup split: if_splits)
  show "queue_at c (hm_erase_it mapped_type d (hm_modify d (\<lambda>_. []) q)) = (if c = d then [] else queue_at c q)"
    using * by (simp add: queue_at_lookup hm_modify_lookup split: option.splits)
qed

lemma reactor_enqueue_effect:
  assumes "rq_ok q"
  shows "fst (enqueue_operation d op q) \<longleftrightarrow> queue_at d q = []" "rq_ok (snd (enqueue_operation d op q))"
    "queue_at c (snd (enqueue_operation d op q)) = (if c = d then queue_at d q @ [op] else queue_at c q)"
proof -
  have ok: "hm_ok q" and sp: "\<forall>s \<in> set (hm_spares q). snd s = []" using assms by (simp_all add: rq_ok_def)
  have fresh: "fresh_value mapped_type q [] = []" using sp by (auto simp: fresh_value_def mapped_type_def split: list.splits)
  let ?q = "snd (hm_insert mapped_type (d, []) q)"
  have "(snd (fst (hm_insert mapped_type (d, []) q)) \<longleftrightarrow> queue_at d q = []) \<and> hm_ok ?q \<and>
    hm_lookup ?q = (if queue_at d q = [] then (hm_lookup q)(d \<mapsto> []) else hm_lookup q) \<and>
    set (hm_spares ?q) \<subseteq> set (hm_spares q)"
  proof (cases "hm_lookup q d = None")
    case True
    then show ?thesis using hm_insert_new [OF ok True, of mapped_type "[]"] fresh queue_at_empty [OF assms, of d]
      by (cases "hm_spares q") (simp_all, blast)
  next
    case False
    then show ?thesis using hm_insert_old [OF ok False, of mapped_type "[]"] queue_at_empty [OF assms, of d] by auto
  qed
  then have ins: "snd (fst (hm_insert mapped_type (d, []) q)) \<longleftrightarrow> queue_at d q = []" "hm_ok ?q"
    "hm_lookup ?q = (if queue_at d q = [] then (hm_lookup q)(d \<mapsto> []) else hm_lookup q)"
    "set (hm_spares ?q) \<subseteq> set (hm_spares q)" by blast+
  have e: "enqueue_operation d op q = (snd (fst (hm_insert mapped_type (d, []) q)), hm_modify d (\<lambda>l. l @ [op]) ?q)"
    by (simp add: enqueue_operation_def case_prod_beta Let_def)
  show "fst (enqueue_operation d op q) \<longleftrightarrow> queue_at d q = []" by (simp add: e ins(1))
  show "rq_ok (snd (enqueue_operation d op q))"
    using assms ins(2-4) sp by (auto simp: e rq_ok_def hm_modify_ok hm_modify_lookup split: if_splits)
  show "queue_at c (snd (enqueue_operation d op q)) = (if c = d then queue_at d q @ [op] else queue_at c q)"
    using ins(3) queue_at_empty [OF assms, of d]
    by (auto simp: e queue_at_lookup hm_modify_lookup split: option.splits if_splits)
qed

text \<open>The loops.\<close>

lemma cancel_loop_effect: "cancel_loop ec l ops r = (ops @ l, foldl (\<lambda>r op. set_ec op ec r) r l)"
  by (induction ec l ops r rule: cancel_loop.induct) auto

lemma ro_key_set_ec [simp]: "ro_key (set_ec op ec r) = ro_key r"
  by (simp add: set_ec_def)

lemma cancel_by_key_loop_effect:
  "cancel_by_key_loop key ec l ops others result r =
     ((result \<or> (\<exists>op \<in> set l. ro_key r op = key), ops @ filter (\<lambda>op. ro_key r op = key) l,
       others @ filter (\<lambda>op. ro_key r op \<noteq> key) l),
      foldl (\<lambda>r op. set_ec op ec r) r (filter (\<lambda>op. ro_key r op = key) l))"
  by (induction key ec l ops others result r rule: cancel_by_key_loop.induct) auto

text \<open>The operations at the front of a queue that are done, one attempt after the other.\<close>

fun done_prefix :: "nat list \<Rightarrow> reactor_op \<Rightarrow> nat list \<times> reactor_op" where
  "done_prefix [] r = ([], r)"
| "done_prefix (op # l) r =
     (let (done, r1) = perform_op op r; (ds, r2) = done_prefix l r1
      in if done then (op # ds, r2) else ([], r1))"

lemma perform_loop_effect:
  "perform_loop l ops r = ((drop (length (fst (done_prefix l r))) l, ops @ fst (done_prefix l r)), snd (done_prefix l r))"
proof (induction l arbitrary: ops r)
  case (Cons op l)
  then show ?case by (cases "perform_op op r"; cases "done_prefix l (snd (perform_op op r))") auto
qed simp

lemma done_prefix_take: "fst (done_prefix l r) = take (length (fst (done_prefix l r))) l"
proof (induction l arbitrary: r)
  case (Cons op l)
  then show ?case by (cases "perform_op op r"; cases "done_prefix l (snd (perform_op op r))") (auto, metis fst_conv)
qed simp

lemma cancel_operations_effect:
  assumes "rq_ok q"
  shows "fst (cancel_operations d ec q ops r) = (queue_at d q \<noteq> [], ops @ queue_at d q)"
    "rq_ok (fst (snd (cancel_operations d ec q ops r)))"
    "queue_at c (fst (snd (cancel_operations d ec q ops r))) = (if c = d then [] else queue_at c q)"
    "snd (snd (cancel_operations d ec q ops r)) = foldl (\<lambda>r op. set_ec op ec r) r (queue_at d q)"
  using assms erase_queue [OF assms, of d]
  by (auto simp: cancel_operations_def hm_find_queue cancel_loop_effect)

lemma cancel_by_key_effect:
  assumes "rq_ok q"
  shows "fst (cancel_operations_by_key d key ec q ops r) =
      (\<exists>op \<in> set (queue_at d q). ro_key r op = key, ops @ filter (\<lambda>op. ro_key r op = key) (queue_at d q))"
    "rq_ok (fst (snd (cancel_operations_by_key d key ec q ops r)))"
    "queue_at c (fst (snd (cancel_operations_by_key d key ec q ops r))) =
      (if c = d then filter (\<lambda>op. ro_key r op \<noteq> key) (queue_at d q) else queue_at c q)"
    "snd (snd (cancel_operations_by_key d key ec q ops r)) =
      foldl (\<lambda>r op. set_ec op ec r) r (filter (\<lambda>op. ro_key r op = key) (queue_at d q))"
  using assms erase_queue [OF assms, of d] set_queue [OF assms, of "filter (\<lambda>op. ro_key r op \<noteq> key) (queue_at d q)" d]
  by (cases "queue_at d q = []"; cases "filter (\<lambda>op. ro_key r op \<noteq> key) (queue_at d q) = []";
      simp add: cancel_operations_by_key_def hm_find_queue cancel_by_key_loop_effect Let_def)+

lemma perform_operations_effect:
  assumes "rq_ok q"
  shows "fst (perform_operations d q ops r) =
      (drop (length (fst (done_prefix (queue_at d q) r))) (queue_at d q) \<noteq> [], ops @ fst (done_prefix (queue_at d q) r))"
    "rq_ok (fst (snd (perform_operations d q ops r)))"
    "queue_at c (fst (snd (perform_operations d q ops r))) =
      (if c = d then drop (length (fst (done_prefix (queue_at d q) r))) (queue_at d q) else queue_at c q)"
    "snd (snd (perform_operations d q ops r)) = snd (done_prefix (queue_at d q) r)"
  using assms erase_queue [OF assms, of d]
    set_queue [OF assms, of "drop (length (fst (done_prefix (queue_at d q) r))) (queue_at d q)" d]
  by (cases "queue_at d q = []"; cases "drop (length (fst (done_prefix (queue_at d q) r))) (queue_at d q) = []";
      simp add: perform_operations_def hm_find_queue perform_loop_effect Let_def del: drop_eq_Nil)+

section \<open>Counting\<close>

definition queued :: "reactor_op_queue \<Rightarrow> nat multiset" where
  "queued q = (\<Sum>d \<in> set (keys (hm_values q)). mset (queue_at d q))"

lemma queued_over:
  assumes "finite A" and "set (keys (hm_values q)) \<subseteq> A"
  shows "queued q = (\<Sum>d \<in> A. mset (queue_at d q))"
  unfolding queued_def
proof (rule sum.mono_neutral_left [OF assms])
  show "\<forall>d \<in> A - set (keys (hm_values q)). mset (queue_at d q) = {#}"
    by (auto simp: queue_at_def split: option.splits) (metis map_of_SomeD fst_conv image_eqI)
qed

lemma queued_update:
  assumes "\<And>c. c \<noteq> d \<Longrightarrow> queue_at c q1 = queue_at c q"
  shows "queued q1 + mset (queue_at d q) = queued q + mset (queue_at d q1)"
proof -
  let ?A = "insert d (set (keys (hm_values q)) \<union> set (keys (hm_values q1)))"
  have split: "queued p = mset (queue_at d p) + (\<Sum>c \<in> ?A - {d}. mset (queue_at c p))" if "p \<in> {q, q1}" for p
  proof -
    have "queued p = (\<Sum>c \<in> ?A. mset (queue_at c p))" using that by (intro queued_over) auto
    also have "\<dots> = mset (queue_at d p) + (\<Sum>c \<in> ?A - {d}. mset (queue_at c p))" by (rule sum.remove) simp_all
    finally show ?thesis .
  qed
  have "(\<Sum>c \<in> ?A - {d}. mset (queue_at c q1)) = (\<Sum>c \<in> ?A - {d}. mset (queue_at c q))"
    using assms by (intro sum.cong) auto
  then show ?thesis using split [of q] split [of q1] by simp
qed

lemma queued_enqueue: "rq_ok q \<Longrightarrow> queued (snd (enqueue_operation d op q)) = add_mset op (queued q)"
  using queued_update [of d "snd (enqueue_operation d op q)" q] by (simp add: reactor_enqueue_effect(3))

lemma queued_cancel:
  "rq_ok q \<Longrightarrow> queued (fst (snd (cancel_operations d ec q ops r))) + mset (queue_at d q) = queued q"
  using queued_update [of d "fst (snd (cancel_operations d ec q ops r))" q] by (simp add: cancel_operations_effect(3))

lemma queued_cancel_by_key:
  assumes "rq_ok q"
  shows "queued (fst (snd (cancel_operations_by_key d key ec q ops r))) +
     mset (filter (\<lambda>op. ro_key r op = key) (queue_at d q)) = queued q"
proof -
  have "mset (queue_at d q) = mset (filter (\<lambda>op. ro_key r op = key) (queue_at d q)) +
      mset (filter (\<lambda>op. ro_key r op \<noteq> key) (queue_at d q))"
    unfolding mset_filter by (rule multiset_partition)
  moreover have "queued (fst (snd (cancel_operations_by_key d key ec q ops r))) + mset (queue_at d q) =
      queued q + mset (filter (\<lambda>op. ro_key r op \<noteq> key) (queue_at d q))"
    using queued_update [of d "fst (snd (cancel_operations_by_key d key ec q ops r))" q]
    by (simp add: cancel_by_key_effect(3) [OF assms])
  ultimately show ?thesis by (metis add.assoc add_right_cancel)
qed

lemma queued_perform:
  assumes "rq_ok q"
  shows "queued (fst (snd (perform_operations d q ops r))) + mset (fst (done_prefix (queue_at d q) r)) = queued q"
proof -
  let ?n = "length (fst (done_prefix (queue_at d q) r))"
  have "mset (queue_at d q) = mset (fst (done_prefix (queue_at d q) r)) + mset (drop ?n (queue_at d q))"
    by (metis append_take_drop_id done_prefix_take mset_append)
  then show ?thesis using queued_update [of d "fst (snd (perform_operations d q ops r))" q]
    by (simp add: perform_operations_effect(3) [OF assms])
qed

lemma fd_perform_loop_effect:
  "rq_ok q \<Longrightarrow> fd_perform_loop ds q ops r = (ops1, q1, r1) \<Longrightarrow>
   rq_ok q1 \<and> mset ops1 + queued q1 = mset ops + queued q"
proof (induction ds arbitrary: q ops r)
  case (Cons d ds)
  obtain b ops2 q2 r2 where p: "perform_operations d q ops r = ((b, ops2), q2, r2)" by (metis surj_pair)
  have "rq_ok q2" "mset ops2 + queued q2 = mset ops + queued q"
    using perform_operations_effect [OF Cons.prems(1), where d = d and ops = ops and r = r] queued_perform [OF Cons.prems(1), of d ops r] p
    by (auto simp: ac_simps)
  then show ?case using Cons.IH [where q = q2 and ops = ops2 and r = r2] Cons.prems(2) p by simp
qed auto

lemma get_all_loop_effect:
  "rq_ok q \<Longrightarrow> set (keys (hm_values q)) \<subseteq> set is \<Longrightarrow> (\<forall>i \<in> set is. queue_at i q \<noteq> []) \<Longrightarrow> distinct is \<Longrightarrow>
   rq_ok (snd (get_all_loop is q ops)) \<and> queued (snd (get_all_loop is q ops)) = {#} \<and>
   mset (fst (get_all_loop is q ops)) = mset ops + queued q"
proof (induction "is" arbitrary: q ops)
  case Nil
  then show ?case by (simp add: queued_def)
next
  case (Cons i "is")
  let ?q = "hm_erase_it mapped_type i (hm_modify i (\<lambda>_. []) q)"
  have i: "queue_at i q \<noteq> []" using Cons.prems(3) by simp
  note e = erase_queue [OF Cons.prems(1) i]
  have "set (keys (hm_values ?q)) \<subseteq> set is"
  proof
    fix d assume "d \<in> set (keys (hm_values ?q))"
    then have "queue_at d ?q \<noteq> []" using e(1)
      by (simp add: queue_at_empty hm_lookup_def map_of_eq_None_iff)
    then have "d \<noteq> i" "queue_at d q \<noteq> []" using e(2) [of d] by (auto split: if_splits)
    then have "d \<in> set (keys (hm_values q))"
      using Cons.prems(1) by (auto simp: queue_at_empty hm_lookup_def map_of_eq_None_iff)
    then show "d \<in> set is" using Cons.prems(2) \<open>d \<noteq> i\<close> by auto
  qed
  moreover have "\<forall>j \<in> set is. queue_at j ?q \<noteq> []" using Cons.prems(3,4) e(2) by auto
  moreover have "queued ?q + mset (queue_at i q) = queued q" using queued_update [of i ?q q] e(2) by simp
  ultimately show ?case using Cons.IH [of ?q "ops @ queue_at i q"] Cons.prems(4) e(1) by (simp add: ac_simps)
qed

lemma get_all_effect:
  assumes "rq_ok q"
  shows "rq_ok (snd (get_all_operations q ops))" "queued (snd (get_all_operations q ops)) = {#}"
    "mset (fst (get_all_operations q ops)) = mset ops + queued q"
proof -
  have "\<forall>i \<in> set (keys (hm_values q)). queue_at i q \<noteq> []"
    using assms by (simp add: queue_at_empty hm_lookup_def map_of_eq_None_iff)
  moreover have "distinct (keys (hm_values q))" using assms by (simp add: rq_ok_def hm_ok_distinct)
  ultimately show "rq_ok (snd (get_all_operations q ops))" "queued (snd (get_all_operations q ops)) = {#}"
    "mset (fst (get_all_operations q ops)) = mset ops + queued q"
    using get_all_loop_effect [OF assms order_refl] by (simp_all add: get_all_operations_def)
qed

lemma queued_empty: "rq_ok q \<Longrightarrow> queued q = {#} \<Longrightarrow> queue_at d q = []"
proof (rule ccontr)
  assume "rq_ok q" "queued q = {#}" and d: "queue_at d q \<noteq> []"
  then have "d \<in> set (keys (hm_values q))" by (auto simp: queue_at_empty hm_lookup_def map_of_eq_None_iff)
  then have "mset (queue_at d q) \<subseteq># queued q" unfolding queued_def by (simp add: sum.remove [of _ d])
  then show False using \<open>queued q = {#}\<close> d by simp
qed

section \<open>The queues as an abstract data type\<close>

text \<open>The operations, what they return and push, and the same on a function from descriptors to lists.\<close>

datatype rq_op = Enqueue nat nat | Cancel nat | Cancel_by_key nat nat | Perform nat | Has_operation nat

fun rq_step :: "rq_op \<Rightarrow> reactor_op_queue \<times> reactor_op \<Rightarrow> (bool \<times> nat list) \<times> reactor_op_queue \<times> reactor_op" where
  "rq_step (Enqueue d op) (q, r) = (let (first, q1) = enqueue_operation d op q in ((first, []), q1, r))"
| "rq_step (Cancel d) (q, r) = cancel_operations d (make_basic operation_aborted) q [] r"
| "rq_step (Cancel_by_key d key) (q, r) = cancel_operations_by_key d key (make_basic operation_aborted) q [] r"
| "rq_step (Perform d) (q, r) = perform_operations d q [] r"
| "rq_step (Has_operation d) (q, r) = ((has_operation d q, []), q, r)"

definition abort :: "nat list \<Rightarrow> reactor_op \<Rightarrow> reactor_op" where
  "abort l r = r\<lparr>ro_ec := (\<lambda>op. if op \<in> set l then make_basic operation_aborted else ro_ec r op)\<rparr>"

fun queues_step :: "rq_op \<Rightarrow> (nat \<Rightarrow> nat list) \<times> reactor_op \<Rightarrow> (bool \<times> nat list) \<times> (nat \<Rightarrow> nat list) \<times> reactor_op" where
  "queues_step (Enqueue d op) (f, r) = ((f d = [], []), f(d := f d @ [op]), r)"
| "queues_step (Cancel d) (f, r) = ((f d \<noteq> [], f d), f(d := []), abort (f d) r)"
| "queues_step (Cancel_by_key d key) (f, r) =
     (let l = filter (\<lambda>op. ro_key r op = key) (f d)
      in ((l \<noteq> [], l), f(d := filter (\<lambda>op. ro_key r op \<noteq> key) (f d)), abort l r))"
| "queues_step (Perform d) (f, r) =
     (let (l, r1) = done_prefix (f d) r in ((drop (length l) (f d) \<noteq> [], l), f(d := drop (length l) (f d)), r1))"
| "queues_step (Has_operation d) (f, r) = ((f d \<noteq> [], []), f, r)"

lemma abort_loop: "foldl (\<lambda>r op. set_ec op (make_basic operation_aborted) r) r l = abort l r"
proof (induction l arbitrary: r)
  case Nil
  then show ?case by (cases r) (simp add: abort_def)
next
  case (Cons op l)
  then show ?case by (auto simp: abort_def set_ec_def fun_eq_iff)
qed

lemma rq_step_queues:
  assumes "rq_ok q"
  shows "fst (rq_step a (q, r)) = fst (queues_step a ((\<lambda>d. queue_at d q), r))"
    "(\<lambda>d. queue_at d (fst (snd (rq_step a (q, r))))) = fst (snd (queues_step a ((\<lambda>d. queue_at d q), r)))"
    "snd (snd (rq_step a (q, r))) = snd (snd (queues_step a ((\<lambda>d. queue_at d q), r)))"
    "rq_ok (fst (snd (rq_step a (q, r))))"
  using reactor_enqueue_effect [OF assms] cancel_operations_effect [OF assms] cancel_by_key_effect [OF assms]
    perform_operations_effect [OF assms] assms hm_find_queue [OF assms]
  by (cases a; force simp: fun_eq_iff Let_def case_prod_beta abort_loop has_operation_def filter_empty_conv)+

lemma rq_run_queues:
  "rq_ok q \<Longrightarrow>
   fst (run_ops rq_step as (q, r)) = fst (run_ops queues_step as ((\<lambda>d. queue_at d q), r)) \<and>
   (\<lambda>d. queue_at d (fst (snd (run_ops rq_step as (q, r))))) = fst (snd (run_ops queues_step as ((\<lambda>d. queue_at d q), r))) \<and>
   snd (snd (run_ops rq_step as (q, r))) = snd (snd (run_ops queues_step as ((\<lambda>d. queue_at d q), r)))"
proof (induction as arbitrary: q r)
  case (Cons a as)
  note e = rq_step_queues [OF Cons.prems, of a r]
  obtain x q1 r1 where s: "rq_step a (q, r) = (x, q1, r1)" by (metis surj_pair)
  then have "queues_step a ((\<lambda>d. queue_at d q), r) = (x, (\<lambda>d. queue_at d q1), r1)"
    using e(1-3) by (simp add: prod_eq_iff)
  then show ?case using s Cons.IH [of q1 r1] e(4) by (simp add: case_prod_beta' Let_def)
qed simp

text \<open>
  C21: The operations of a reactor by descriptor, kept in the hash map with its recycled nodes, behave as
  one queue per descriptor: for every sequence of enqueuing, cancelling, cancelling by key and
  performing, whatever the attempts to perform give, each call returns and hands out the same, in the
  order in which the operations were started, and stores the same errors; enqueuing reports the first
  operation of a descriptor, and performing stops at the first that is not done.
\<close>
theorem reactor_op_queue_refines_queues:
  "fst (run_ops rq_step as (hm_init, r)) = fst (run_ops queues_step as ((\<lambda>_. []), r)) \<and>
   (\<lambda>d. queue_at d (fst (snd (run_ops rq_step as (hm_init, r))))) = fst (snd (run_ops queues_step as ((\<lambda>_. []), r))) \<and>
   ro_ec (snd (snd (run_ops rq_step as (hm_init, r)))) = ro_ec (snd (snd (run_ops queues_step as ((\<lambda>_. []), r))))"
  using rq_run_queues [OF rq_ok_init(1), of as r] by (simp add: rq_ok_init(2))

section \<open>The reactor and the context\<close>

lemma destroyed_posting [simp]:
  "destroyed (enqueue_or_complete k op c) = destroyed c" "destroyed (on_ovl op f c) = destroyed c"
  "destroyed (work_started c) = destroyed c"
  by (auto simp: enqueue_or_complete_def pqcs_def on_ovl_def work_started_def split: list.splits)

lemma destroyed_post [simp]:
  "destroyed (post_deferred_completions ops c) = destroyed c" "destroyed (post_immediate_completion op c) = destroyed c"
proof -
  show "destroyed (post_deferred_completions ops c) = destroyed c"
    by (induction ops c rule: post_deferred_completions.induct)
      (auto simp: pqcs_def on_ovl_def Let_def split: list.splits prod.splits)
qed (simp add: post_immediate_completion_def post_deferred_completion_def)

lemma pending_post_immediate: "pending (post_immediate_completion op c) = add_mset op (pending c)"
  using pending_post_deferred [of op "work_started c"] by (simp add: post_immediate_completion_def work_started_def)

lemma pending_work_started [simp]: "pending (work_started c) = pending c"
  by (simp add: work_started_def)

definition reactor_ok :: "select_reactor \<Rightarrow> bool" where
  "reactor_ok s \<longleftrightarrow> (\<forall>t. rq_ok (sr_queues s t))"

text \<open>The operations the reactor and its thread hold, and those the context has got.\<close>

definition all_queued :: "(nat \<Rightarrow> reactor_op_queue) \<Rightarrow> nat multiset" where
  "all_queued f = (\<Sum>t \<in> {..<max_ops}. queued (f t))"

definition held :: "reactor_thread \<Rightarrow> nat multiset" where
  "held p = (case p of Holding ops \<Rightarrow> mset ops | _ \<Rightarrow> {#})"

definition handed_over :: "select_reactor \<Rightarrow> nat multiset" where
  "handed_over s = pending (sr_context s) + mset (destroyed (sr_context s))"

definition all_ops :: "select_reactor \<Rightarrow> nat multiset" where
  "all_ops s = all_queued (sr_queues s) + mset (sr_timers s) + held (sr_phase s) + handed_over s"

lemma all_queued_update:
  assumes "t < max_ops"
  shows "all_queued (f(t := q)) + queued (f t) = all_queued f + queued q"
proof -
  have split: "all_queued g = queued (g t) + (\<Sum>i \<in> {..<max_ops} - {t}. queued (g i))" for g
    unfolding all_queued_def using assms by (intro sum.remove) simp_all
  have "(\<Sum>i \<in> {..<max_ops} - {t}. queued ((f(t := q)) i)) = (\<Sum>i \<in> {..<max_ops} - {t}. queued (f i))"
    by (intro sum.cong) auto
  then show ?thesis using split [of f] split [of "f(t := q)"] by simp
qed

lemma cancel_types_effect:
  assumes "reactor_ok s" and "\<forall>i \<in> set is. i < max_ops"
  shows "\<exists>f r. snd (cancel_types d is ec need ops s) = s\<lparr>sr_queues := f, sr_op := r\<rparr> \<and> (\<forall>t. rq_ok (f t)) \<and>
    all_queued f + mset (snd (fst (cancel_types d is ec need ops s))) = all_queued (sr_queues s) + mset ops \<and>
    (\<forall>t c. queue_at c (f t) \<noteq> [] \<longrightarrow> queue_at c (sr_queues s t) \<noteq> [])"
  using assms
proof (induction "is" arbitrary: s need ops)
  case Nil
  then show ?case by (intro exI [of _ "sr_queues s"] exI [of _ "sr_op s"]) (simp add: reactor_ok_def)
next
  case (Cons i "is")
  obtain c ops1 q r where cr: "cancel_operations d ec (sr_queues s i) ops (sr_op s) = ((c, ops1), q, r)" by (metis surj_pair)
  have ok: "rq_ok (sr_queues s i)" using Cons.prems(1) by (simp add: reactor_ok_def)
  have q: "rq_ok q" "ops1 = ops @ queue_at d (sr_queues s i)" "queued q + mset (queue_at d (sr_queues s i)) = queued (sr_queues s i)"
    "\<And>c. queue_at c q \<noteq> [] \<Longrightarrow> queue_at c (sr_queues s i) \<noteq> []"
    using cancel_operations_effect [OF ok, where d = d and ec = ec and ops = ops and r = "sr_op s"]
      queued_cancel [OF ok, of d ec ops "sr_op s"] cr
    by (auto split: if_splits)
  let ?s = "s\<lparr>sr_queues := (sr_queues s)(i := q), sr_op := r\<rparr>"
  have ok1: "reactor_ok ?s" using Cons.prems(1) q(1) by (simp add: reactor_ok_def)
  have mv: "all_queued (sr_queues ?s) + mset ops1 = all_queued (sr_queues s) + mset ops"
  proof -
    have "all_queued ((sr_queues s)(i := q)) + queued (sr_queues s i) = all_queued (sr_queues s) + queued q"
      using all_queued_update Cons.prems(2) by simp
    then show ?thesis unfolding q(2) q(3) [symmetric] by (simp add: ac_simps)
  qed
  obtain f r1 where f: "snd (cancel_types d is ec (c \<or> need) ops1 ?s) = ?s\<lparr>sr_queues := f, sr_op := r1\<rparr>" "\<forall>t. rq_ok (f t)"
    "all_queued f + mset (snd (fst (cancel_types d is ec (c \<or> need) ops1 ?s))) = all_queued (sr_queues ?s) + mset ops1"
    "\<forall>t c. queue_at c (f t) \<noteq> [] \<longrightarrow> queue_at c (sr_queues ?s t) \<noteq> []"
  proof -
    have "\<forall>i \<in> set is. i < max_ops" using Cons.prems(2) by simp
    from Cons.IH [OF ok1 this, of "c \<or> need" ops1] show thesis by (elim exE conjE) (rule that)
  qed
  have e: "cancel_types d (i # is) ec need ops s = cancel_types d is ec (c \<or> need) ops1 ?s" by (simp add: cr)
  have "\<forall>t c. queue_at c (f t) \<noteq> [] \<longrightarrow> queue_at c (sr_queues s t) \<noteq> []"
  proof (intro allI impI)
    fix t c assume "queue_at c (f t) \<noteq> []"
    then have "queue_at c (sr_queues ?s t) \<noteq> []" using f(4) by blast
    then show "queue_at c (sr_queues s t) \<noteq> []" using q(4) by (cases "t = i") simp_all
  qed
  moreover have "snd (cancel_types d is ec (c \<or> need) ops1 ?s) = s\<lparr>sr_queues := f, sr_op := r1\<rparr>" using f(1) by simp
  ultimately show ?case unfolding e using f(2,3) mv by (intro exI [of _ f] exI [of _ r1] conjI) simp_all
qed

text \<open>Performing what is ready, and taking everything out.\<close>

lemma perform_set_effect:
  assumes "reactor_ok (snd a)" and "t < max_ops"
  shows "\<exists>f r. snd (perform_set i t a) = (snd a)\<lparr>sr_queues := f, sr_op := r\<rparr> \<and> reactor_ok (snd (perform_set i t a)) \<and>
    mset (fst (perform_set i t a)) + all_queued (sr_queues (snd (perform_set i t a))) = mset (fst a) + all_queued (sr_queues (snd a))"
proof -
  let ?s = "snd a"
  obtain ops q r where p: "fd_perform (sr_sets ?s i) (sr_queues ?s t) (fst a) (sr_op ?s) = (ops, q, r)" by (metis surj_pair)
  have q: "rq_ok q" "mset ops + queued q = mset (fst a) + queued (sr_queues ?s t)"
    using fd_perform_loop_effect [OF _ p [unfolded fd_perform_def]] assms(1) by (auto simp: reactor_ok_def)
  have e: "perform_set i t a = (ops, ?s\<lparr>sr_queues := (sr_queues ?s)(t := q), sr_op := r\<rparr>)"
    by (simp add: perform_set_def p)
  have "all_queued ((sr_queues ?s)(t := q)) + queued (sr_queues ?s t) = all_queued (sr_queues ?s) + queued q"
    using all_queued_update [OF assms(2)] .
  then have "mset ops + all_queued ((sr_queues ?s)(t := q)) + queued (sr_queues ?s t) =
      mset (fst a) + all_queued (sr_queues ?s) + queued (sr_queues ?s t)"
    using q(2) by (metis (no_types, lifting) add.assoc add.commute)
  then have "mset ops + all_queued ((sr_queues ?s)(t := q)) = mset (fst a) + all_queued (sr_queues ?s)" by simp
  then show ?thesis using assms(1) q(1) unfolding e
    by (intro exI [of _ "(sr_queues ?s)(t := q)"] exI [of _ r]) (simp add: reactor_ok_def)
qed

text \<open>What performing keeps: everything but the queues and the members of operations.\<close>

definition same_but_queues :: "nat list \<times> select_reactor \<Rightarrow> nat list \<times> select_reactor \<Rightarrow> bool" where
  "same_but_queues a b \<longleftrightarrow> (\<exists>f r. snd b = (snd a)\<lparr>sr_queues := f, sr_op := r\<rparr>) \<and> reactor_ok (snd b) \<and>
     mset (fst b) + all_queued (sr_queues (snd b)) = mset (fst a) + all_queued (sr_queues (snd a))"

lemma same_but_queues_trans: "same_but_queues a b \<Longrightarrow> same_but_queues b c \<Longrightarrow> same_but_queues a c"
proof -
  assume ab: "same_but_queues a b" and bc: "same_but_queues b c"
  obtain f r where "snd b = (snd a)\<lparr>sr_queues := f, sr_op := r\<rparr>" using ab by (auto simp: same_but_queues_def)
  moreover obtain f' r' where "snd c = (snd b)\<lparr>sr_queues := f', sr_op := r'\<rparr>" using bc by (auto simp: same_but_queues_def)
  ultimately have "snd c = (snd a)\<lparr>sr_queues := f', sr_op := r'\<rparr>" by simp
  then show ?thesis using ab bc unfolding same_but_queues_def by metis
qed

lemma same_but_queues_refl: "reactor_ok (snd a) \<Longrightarrow> same_but_queues a a"
  unfolding same_but_queues_def by (intro conjI exI [of _ "sr_queues (snd a)"] exI [of _ "sr_op (snd a)"]) simp_all

lemma same_but_queues_perform: "reactor_ok (snd a) \<Longrightarrow> t < max_ops \<Longrightarrow> same_but_queues a (perform_set i t a)"
  unfolding same_but_queues_def using perform_set_effect [of a t i] by blast

lemma same_but_queues_performs:
  "same_but_queues a b \<Longrightarrow> \<forall>i \<in> set is. i < max_ops \<Longrightarrow> same_but_queues a (foldl (\<lambda>x i. perform_set i i x) b is)"
proof (induction "is" arbitrary: b)
  case (Cons i "is")
  have "same_but_queues b (perform_set i i b)"
    using Cons.prems by (intro same_but_queues_perform) (simp_all add: same_but_queues_def)
  then show ?case using Cons.IH [OF same_but_queues_trans [OF Cons.prems(1)]] Cons.prems(2) by simp
qed simp

lemma run_end_effect:
  assumes "reactor_ok s"
  shows "\<exists>f r ts. snd (run_end n expired s) = s\<lparr>sr_queues := f, sr_op := r, sr_timers := ts\<rparr> \<and> reactor_ok (snd (run_end n expired s)) \<and>
    mset (fst (run_end n expired s)) + all_queued f + mset ts = all_queued (sr_queues s) + mset (sr_timers s)"
proof -
  define a where "a = (if n > 0
     then foldl (\<lambda>a i. perform_set i i a) (perform_set 1 connect_op (perform_set 2 connect_op ([], s))) (rev [0..<max_select_ops])
     else ([], s))"
  have c: "connect_op < max_ops" by (simp add: connect_op_def max_ops_def)
  have first: "same_but_queues ([], s) (perform_set 2 connect_op ([], s))"
    using assms c by (intro same_but_queues_perform) simp_all
  then have "same_but_queues ([], s) (perform_set 1 connect_op (perform_set 2 connect_op ([], s)))"
    using first c by (intro same_but_queues_trans [OF first] same_but_queues_perform) (simp_all add: same_but_queues_def)
  then have "same_but_queues ([], s) a"
    using same_but_queues_refl [of "([], s)"] assms same_but_queues_performs [of "([], s)" _ "rev [0..<max_select_ops]"]
    by (simp add: a_def max_select_ops_def max_ops_def)
  then obtain f r where a: "snd a = s\<lparr>sr_queues := f, sr_op := r\<rparr>" "reactor_ok (snd a)"
    "mset (fst a) + all_queued f = all_queued (sr_queues s)" by (auto simp: same_but_queues_def)
  have e: "run_end n expired s = (fst a @ filter expired (sr_timers s),
      (snd a)\<lparr>sr_timers := filter (\<lambda>t. \<not> expired t) (sr_timers s)\<rparr>)"
    using a(1) by (simp add: run_end_def a_def [symmetric] case_prod_beta Let_def)
  have "mset (sr_timers s) = mset (filter expired (sr_timers s)) + mset (filter (\<lambda>t. \<not> expired t) (sr_timers s))"
    unfolding mset_filter by (rule multiset_partition)
  then show ?thesis using a unfolding e
    by (intro exI [of _ f] exI [of _ r] exI [of _ "filter (\<lambda>t. \<not> expired t) (sr_timers s)"])
      (simp add: reactor_ok_def ac_simps del: mset_filter)
qed

lemma get_all_types_effect:
  assumes "reactor_ok s" and "\<forall>i \<in> set is. i < max_ops"
  shows "\<exists>f. snd (get_all_types is ops s) = s\<lparr>sr_queues := f\<rparr> \<and> (\<forall>t. rq_ok (f t)) \<and>
    all_queued f + mset (fst (get_all_types is ops s)) = all_queued (sr_queues s) + mset ops \<and>
    (\<forall>t. queued (f t) = (if t \<in> set is then {#} else queued (sr_queues s t)))"
  using assms
proof (induction "is" arbitrary: s ops)
  case Nil
  then show ?case by (intro exI [of _ "sr_queues s"]) (simp add: reactor_ok_def)
next
  case (Cons i "is")
  obtain ops1 q where g: "get_all_operations (sr_queues s i) ops = (ops1, q)" by fastforce
  have ok: "rq_ok (sr_queues s i)" using Cons.prems(1) by (simp add: reactor_ok_def)
  have q: "rq_ok q" "queued q = {#}" "mset ops1 = mset ops + queued (sr_queues s i)"
    using get_all_effect [OF ok, of ops] g by simp_all
  let ?s = "s\<lparr>sr_queues := (sr_queues s)(i := q)\<rparr>"
  have ok1: "reactor_ok ?s" using Cons.prems(1) q(1) by (simp add: reactor_ok_def)
  have below: "\<forall>i \<in> set is. i < max_ops" using Cons.prems(2) by simp
  obtain f where f: "snd (get_all_types is ops1 ?s) = ?s\<lparr>sr_queues := f\<rparr>" "\<forall>t. rq_ok (f t)"
    "all_queued f + mset (fst (get_all_types is ops1 ?s)) = all_queued (sr_queues ?s) + mset ops1"
    "\<forall>t. queued (f t) = (if t \<in> set is then {#} else queued (sr_queues ?s t))"
    using Cons.IH [OF ok1 below, of ops1] by blast
  have "all_queued (sr_queues ?s) + mset ops1 = all_queued (sr_queues s) + mset ops"
    using all_queued_update [of i "sr_queues s" q] Cons.prems(2) q(2,3) by (simp add: ac_simps)
  moreover have e: "get_all_types (i # is) ops s = get_all_types is ops1 ?s" by (simp add: g)
  ultimately show ?case unfolding e using f q(2) by (intro exI [of _ f]) auto
qed

text \<open>The sets of descriptors that \<open>select\<close> is given.\<close>

lemma fd_put_array [simp]: "fd_array (fd_put d f) = fd_array f @ [d]"
  by (simp add: fd_put_def fd_reserve_def Let_def)

lemma fd_set_operations_array [simp]: "set (fd_array (fd_set_operations q f)) = set (fd_array f) \<union> set (keys (hm_values q))"
proof -
  have "set (fd_array (foldl (\<lambda>g d. fd_put d g) f ds)) = set (fd_array f) \<union> set ds" for ds
    by (induction ds arbitrary: f) auto
  then show ?thesis by (simp add: fd_set_operations_def)
qed

text \<open>A set of descriptors never writes beyond its memory.\<close>

lemma fd_put_fits: "length (fd_array f) \<le> fd_capacity f \<Longrightarrow> length (fd_array (fd_put d f)) \<le> fd_capacity (fd_put d f)"
  by (auto simp: fd_put_def fd_reserve_def Let_def)

lemma fd_set_operations_fits:
  "length (fd_array f) \<le> fd_capacity f \<Longrightarrow> length (fd_array (fd_set_operations q f)) \<le> fd_capacity (fd_set_operations q f)"
proof -
  have "length (fd_array g) \<le> fd_capacity g \<Longrightarrow> length (fd_array (foldl (\<lambda>g d. fd_put d g) g ds)) \<le> fd_capacity (foldl (\<lambda>g d. fd_put d g) g ds)" for ds g
    by (induction ds arbitrary: g) (auto intro: fd_put_fits simp del: fd_put_array)
  then show "length (fd_array f) \<le> fd_capacity f \<Longrightarrow> ?thesis" by (simp add: fd_set_operations_def)
qed

text \<open>A descriptor is watched in the set of its type, for connects in two sets.\<close>

definition watched :: "nat \<Rightarrow> nat \<Rightarrow> select_reactor \<Rightarrow> bool" where
  "watched t d s \<longleftrightarrow>
     (if t = connect_op then fd_is_set d (sr_sets s 1) \<and> fd_is_set d (sr_sets s 2) else fd_is_set d (sr_sets s t))"

lemma key_queue: "rq_ok q \<Longrightarrow> d \<in> set (keys (hm_values q)) \<longleftrightarrow> queue_at d q \<noteq> []"
  by (simp add: queue_at_empty hm_lookup_def map_of_eq_None_iff)

lemma run_set_up_effect:
  assumes "reactor_ok s"
  shows "\<exists>g. run_set_up s = s\<lparr>sr_sets := g\<rparr>" "fd_is_set (in_descriptor (sr_interrupter s)) (sr_sets (run_set_up s) 0)"
    "t < max_ops \<Longrightarrow> queue_at d (sr_queues s t) \<noteq> [] \<Longrightarrow> watched t d (run_set_up s)"
proof -
  have three: "[0..<max_select_ops] = [0, 1, 2]" by (simp add: max_select_ops_def upt_rec)
  show "\<exists>g. run_set_up s = s\<lparr>sr_sets := g\<rparr>"
    by (simp add: run_set_up_def set_up_def three Let_def) (rule exI, rule refl)
  show "fd_is_set (in_descriptor (sr_interrupter s)) (sr_sets (run_set_up s) 0)"
    by (simp add: run_set_up_def set_up_def three fd_is_set_def fd_set_descriptor_def fd_reset_def Let_def)
  assume "t < max_ops" and q: "queue_at d (sr_queues s t) \<noteq> []"
  then have t: "t = 0 \<or> t = 1 \<or> t = 2 \<or> t = 3" by (auto simp: max_ops_def)
  have "d \<in> set (keys (hm_values (sr_queues s t)))"
    using q assms key_queue [of "sr_queues s t" d] unfolding reactor_ok_def by blast
  then show "watched t d (run_set_up s)" using t
    by (auto simp: watched_def connect_op_def run_set_up_def set_up_def three fd_is_set_def fd_set_descriptor_def fd_reset_def Let_def)
qed

end
