(* ===== verification/Asio_Reactor_Runs.thy ===== *)
theory Asio_Reactor_Runs
  imports Asio_Reactor_Facts
begin

text \<open>
  Runs of the reactor: its thread and the threads that call it, in any interleaving of their critical
  sections.
\<close>

section \<open>Events\<close>

text \<open>
  A call of another thread, or a step of the reactor's thread with what the system and the timers answer.
  The join of \<open>shutdown\<close> and of the restart waits for the end of the thread: before, they change nothing.
  The restart is run by a thread in the context's loop, and there is none once the context shuts down.
\<close>

datatype reactor_event =
    E_start nat nat nat
  | E_register_internal nat nat nat
  | E_cancel nat
  | E_cancel_by_key nat nat nat
  | E_deregister nat
  | E_deregister_internal nat
  | E_interrupt
  | E_thread int "nat \<Rightarrow> nat list" bool "nat \<Rightarrow> bool"
  | E_shutdown_begin
  | E_shutdown_end
  | E_restart bool nat

fun valid_event :: "reactor_event \<Rightarrow> bool" where
  "valid_event (E_start t d op) \<longleftrightarrow> t < max_ops"
| "valid_event (E_register_internal t d op) \<longleftrightarrow> t < max_ops"
| "valid_event (E_cancel_by_key d t key) \<longleftrightarrow> t < max_ops"
| "valid_event e \<longleftrightarrow> True"

fun reactor_step :: "reactor_event \<Rightarrow> select_reactor \<Rightarrow> select_reactor" where
  "reactor_step (E_start t d op) s = reactor_start_op t d op s"
| "reactor_step (E_register_internal t d op) s = register_internal_descriptor t d op s"
| "reactor_step (E_cancel d) s = reactor_cancel_ops d s"
| "reactor_step (E_cancel_by_key d t key) s = cancel_ops_by_key d t key s"
| "reactor_step (E_deregister d) s = deregister_descriptor d s"
| "reactor_step (E_deregister_internal d) s = deregister_internal_descriptor d s"
| "reactor_step E_interrupt s = interrupt s"
| "reactor_step (E_thread retval ready answer expired) s = thread_step retval ready answer expired s"
| "reactor_step E_shutdown_begin s = shutdown_begin s"
| "reactor_step E_shutdown_end s = (if sr_phase s = At_end \<and> sr_shutdown s then shutdown_end s else s)"
| "reactor_step (E_restart owner d) s = (if sr_phase s = At_end \<and> \<not> sr_shutdown s then restart_do_complete owner d s else s)"

definition reactor_run :: "reactor_event list \<Rightarrow> select_reactor \<Rightarrow> select_reactor" where
  "reactor_run es s = fold reactor_step es s"

text \<open>The operations the callers put in.\<close>

fun brought :: "reactor_event \<Rightarrow> nat list" where
  "brought (E_start t d op) = [op]"
| "brought (E_register_internal t d op) = [op]"
| "brought e = []"

section \<open>What every event keeps\<close>

text \<open>The accounts: queues well formed, operations conserved, the number of the restart operation kept.\<close>

definition accounts :: "nat list \<Rightarrow> select_reactor \<Rightarrow> select_reactor \<Rightarrow> bool" where
  "accounts new s t \<longleftrightarrow> reactor_ok t \<and> sr_restart_op t = sr_restart_op s \<and>
     filter_mset (\<lambda>op. op \<noteq> sr_restart_op s) (all_ops t) =
       filter_mset (\<lambda>op. op \<noteq> sr_restart_op s) (all_ops s + mset new)"

lemma accountsI:
  "reactor_ok t \<Longrightarrow> sr_restart_op t = sr_restart_op s \<Longrightarrow> all_ops t = all_ops s + mset new \<Longrightarrow> accounts new s t"
  by (simp add: accounts_def)

lemma interrupt_fields [simp]:
  "sr_queues (interrupt s) = sr_queues s" "sr_timers (interrupt s) = sr_timers s" "sr_phase (interrupt s) = sr_phase s"
  "sr_context (interrupt s) = sr_context s" "sr_restart_op (interrupt s) = sr_restart_op s" "sr_sets (interrupt s) = sr_sets s"
  "sr_stop_thread (interrupt s) = sr_stop_thread s" "sr_thread (interrupt s) = sr_thread s" "sr_shutdown (interrupt s) = sr_shutdown s"
  "in_descriptor (sr_interrupter (interrupt s)) = in_descriptor (sr_interrupter s)" "0 < in_bytes (sr_interrupter (interrupt s))"
  by (simp_all add: interrupt_def interrupter_interrupt_def)

lemma on_context_fields [simp]:
  "sr_queues (on_context f s) = sr_queues s" "sr_timers (on_context f s) = sr_timers s" "sr_phase (on_context f s) = sr_phase s"
  "sr_context (on_context f s) = f (sr_context s)" "sr_restart_op (on_context f s) = sr_restart_op s"
  "sr_sets (on_context f s) = sr_sets s" "sr_stop_thread (on_context f s) = sr_stop_thread s"
  "sr_thread (on_context f s) = sr_thread s" "sr_interrupter (on_context f s) = sr_interrupter s"
  "sr_shutdown (on_context f s) = sr_shutdown s"
  by (simp_all add: on_context_def)

lemmas accounting = reactor_ok_def all_ops_def handed_over_def

lemma enqueue_accounts:
  assumes "reactor_ok s" and "t < max_ops" and "q = snd (enqueue_operation d op (sr_queues s t))"
  shows "\<forall>i. rq_ok (((sr_queues s)(t := q)) i)" "all_queued ((sr_queues s)(t := q)) = add_mset op (all_queued (sr_queues s))"
proof -
  have ok: "rq_ok (sr_queues s t)" using assms(1) by (simp add: reactor_ok_def)
  show "\<forall>i. rq_ok (((sr_queues s)(t := q)) i)" using assms(1,3) reactor_enqueue_effect(2) [OF ok] by (simp add: reactor_ok_def)
  show "all_queued ((sr_queues s)(t := q)) = add_mset op (all_queued (sr_queues s))"
    using all_queued_update [OF assms(2), of "sr_queues s" q] queued_enqueue [OF ok, of d op] assms(3) by simp
qed

lemma start_accounts:
  assumes "reactor_ok s" and "t < max_ops"
  shows "accounts [op] s (reactor_start_op t d op s)"
proof -
  note e = enqueue_accounts [OF assms refl, of d op]
  show ?thesis using e assms(1)
    by (intro accountsI)
      (auto simp: reactor_start_op_def accounting pending_post_immediate case_prod_beta Let_def)
qed

lemma register_accounts:
  assumes "reactor_ok s" and "t < max_ops"
  shows "accounts [op] s (register_internal_descriptor t d op s)"
  using enqueue_accounts [OF assms refl, of d op] assms(1)
  by (intro accountsI) (auto simp: register_internal_descriptor_def accounting)

lemma cancel_unlocked_accounts:
  assumes "reactor_ok s"
  shows "accounts [] s (cancel_ops_unlocked d ec s)"
proof -
  obtain f r where e: "snd (cancel_types d [0..<max_ops] ec False [] s) = s\<lparr>sr_queues := f, sr_op := r\<rparr>" "\<forall>t. rq_ok (f t)"
    "all_queued f + mset (snd (fst (cancel_types d [0..<max_ops] ec False [] s))) = all_queued (sr_queues s)"
    using cancel_types_effect [OF assms, of "[0..<max_ops]" d ec False "[]"] by auto
  show ?thesis
    by (intro accountsI)
      (use e in \<open>auto simp: cancel_ops_unlocked_def accounting pending_post_deferred_completions case_prod_beta Let_def ac_simps\<close>)
qed

lemma deregister_internal_accounts:
  assumes "reactor_ok s"
  shows "accounts [] s (deregister_internal_descriptor d s)"
proof -
  let ?ec = "make_basic operation_aborted"
  obtain f r where e: "snd (cancel_types d [0..<max_ops] ?ec False [] s) = s\<lparr>sr_queues := f, sr_op := r\<rparr>" "\<forall>t. rq_ok (f t)"
    "all_queued f + mset (snd (fst (cancel_types d [0..<max_ops] ?ec False [] s))) = all_queued (sr_queues s)"
    using cancel_types_effect [OF assms, of "[0..<max_ops]" d ?ec False "[]"] by auto
  have "pending (c\<lparr>destroyed := x\<rparr>) = pending c" for c x by (simp add: pending_def)
  then show ?thesis
    by (intro accountsI)
      (use e in \<open>auto simp: deregister_internal_descriptor_def accounting case_prod_beta Let_def ac_simps\<close>)
qed

lemma cancel_by_key_accounts:
  assumes "reactor_ok s" and "t < max_ops"
  shows "accounts [] s (cancel_ops_by_key d t key s)"
proof -
  let ?ec = "make_basic operation_aborted"
  have ok: "rq_ok (sr_queues s t)" using assms(1) by (simp add: reactor_ok_def)
  obtain need ops q r where c: "cancel_operations_by_key d key ?ec (sr_queues s t) [] (sr_op s) = ((need, ops), q, r)" by (metis surj_pair)
  have q: "rq_ok q" "queued q + mset ops = queued (sr_queues s t)"
    using cancel_by_key_effect [OF ok, where d = d and key = key and ec = ?ec and ops = "[]" and r = "sr_op s"]
      queued_cancel_by_key [OF ok, of d key ?ec "[]" "sr_op s"] c by simp_all
  have "all_queued ((sr_queues s)(t := q)) + queued (sr_queues s t) = all_queued (sr_queues s) + queued q"
    by (rule all_queued_update [OF assms(2)])
  then have "all_queued ((sr_queues s)(t := q)) + mset ops = all_queued (sr_queues s)"
    unfolding q(2) [symmetric] by (simp add: ac_simps)
  then show ?thesis using q(1) assms(1)
    by (intro accountsI)
      (auto simp: cancel_ops_by_key_def c accounting pending_post_deferred_completions ac_simps Let_def)
qed

lemma shutdown_end_accounts:
  assumes "reactor_ok s"
  shows "accounts [] s (shutdown_end s)"
proof -
  let ?s = "s\<lparr>sr_thread := False\<rparr>"
  have ok: "reactor_ok ?s" using assms by (simp add: reactor_ok_def)
  obtain f where e: "snd (get_all_types [0..<max_ops] [] ?s) = ?s\<lparr>sr_queues := f\<rparr>" "\<forall>t. rq_ok (f t)"
    "all_queued f + mset (fst (get_all_types [0..<max_ops] [] ?s)) = all_queued (sr_queues s)"
    using get_all_types_effect [OF ok, of "[0..<max_ops]" "[]"] by auto
  show ?thesis
    by (intro accountsI)
      (use e in \<open>auto simp: shutdown_end_def accounting abandon_effect case_prod_beta Let_def ac_simps\<close>)
qed

lemma thread_accounts:
  assumes "reactor_ok s"
  shows "accounts [] s (thread_step retval ready answer expired s)"
proof (cases "sr_phase s")
  case At_head
  show ?thesis
  proof (cases "sr_stop_thread s")
    case True
    then show ?thesis using At_head assms by (intro accountsI) (simp_all add: thread_step_def accounting held_def)
  next
    case False
    obtain g where "run_set_up s = s\<lparr>sr_sets := g\<rparr>" using run_set_up_effect(1) [OF assms] by blast
    then show ?thesis using At_head False assms
      by (intro accountsI) (simp_all add: thread_step_def run_begin_def accounting held_def Let_def)
  qed
next
  case In_select
  obtain r i where "interrupter_reset answer (sr_interrupter s) = (r, i)" by fastforce
  then show ?thesis using In_select assms
    by (auto simp: accounts_def thread_step_def select_returns_def accounting held_def pending_post_immediate
        on_context_def case_prod_beta Let_def)
next
  case (Behind_select n)
  obtain f r ts where e: "snd (run_end n expired s) = s\<lparr>sr_queues := f, sr_op := r, sr_timers := ts\<rparr>"
    "reactor_ok (snd (run_end n expired s))"
    "mset (fst (run_end n expired s)) + all_queued f + mset ts = all_queued (sr_queues s) + mset (sr_timers s)"
    using run_end_effect [OF assms] by blast
  have "all_ops (thread_step retval ready answer expired s) = all_ops s"
    using Behind_select e(1) unfolding all_ops_def e(3) [symmetric]
    by (simp add: thread_step_def held_def handed_over_def case_prod_beta Let_def ac_simps)
  then show ?thesis using Behind_select e(1,2)
    by (intro accountsI) (simp_all add: thread_step_def reactor_ok_def case_prod_beta Let_def)
next
  case (Holding ops)
  then show ?thesis using assms
    by (intro accountsI) (simp_all add: thread_step_def accounting held_def pending_post_deferred_completions ac_simps)
next
  case At_end
  then show ?thesis using assms by (intro accountsI) (simp_all add: thread_step_def)
qed

lemma step_accounts:
  assumes "reactor_ok s" and "valid_event e"
  shows "accounts (brought e) s (reactor_step e s)"
proof (cases e)
  case E_shutdown_begin
  then show ?thesis using assms(1)
    by (intro accountsI) (auto simp: shutdown_begin_def accounting Let_def)
next
  case (E_restart owner d)
  then show ?thesis using assms(1)
    by (intro accountsI) (auto simp: restart_do_complete_def accounting held_def)
next
  case E_interrupt
  then show ?thesis using assms(1) by (intro accountsI) (simp_all add: accounting)
next
  case E_shutdown_end
  then show ?thesis using assms(1) shutdown_end_accounts [OF assms(1)] by (auto simp: accounts_def)
qed (use assms in \<open>auto simp: start_accounts register_accounts reactor_cancel_ops_def deregister_descriptor_def
      cancel_unlocked_accounts cancel_by_key_accounts deregister_internal_accounts thread_accounts\<close>)

lemma accounts_trans: "accounts xs s t \<Longrightarrow> accounts ys t u \<Longrightarrow> accounts (xs @ ys) s u"
  by (simp add: accounts_def)

lemma run_accounts:
  "reactor_ok s \<Longrightarrow> \<forall>e \<in> set es. valid_event e \<Longrightarrow> accounts (concat (map brought es)) s (reactor_run es s)"
proof (induction es arbitrary: s)
  case Nil
  then show ?case by (simp add: reactor_run_def accounts_def)
next
  case (Cons e es)
  have e: "accounts (brought e) s (reactor_step e s)" using Cons.prems by (intro step_accounts) simp_all
  then have "accounts (concat (map brought es)) (reactor_step e s) (reactor_run es (reactor_step e s))"
    using Cons.prems(2) by (intro Cons.IH) (simp_all add: accounts_def)
  then show ?case using accounts_trans [OF e] by (simp add: reactor_run_def)
qed

text \<open>The thread does not sleep through an operation it does not watch, or the end.\<close>

definition awake :: "select_reactor \<Rightarrow> bool" where
  "awake s \<longleftrightarrow> (sr_phase s \<noteq> At_end \<longrightarrow> sr_thread s) \<and>
     (sr_phase s = In_select \<longrightarrow>
        fd_is_set (in_descriptor (sr_interrupter s)) (sr_sets s 0) \<and>
        (0 < in_bytes (sr_interrupter s) \<or>
         \<not> sr_stop_thread s \<and> (\<forall>t < max_ops. \<forall>d. queue_at d (sr_queues s t) \<noteq> [] \<longrightarrow> watched t d s)))"

text \<open>An event of another thread that leaves the sets, and interrupts or adds nothing to a queue.\<close>

lemma awakeI:
  assumes "awake s" and "sr_phase t = sr_phase s" and "sr_thread t = sr_thread s" and "sr_sets t = sr_sets s"
    and "in_descriptor (sr_interrupter t) = in_descriptor (sr_interrupter s)"
    and "in_bytes (sr_interrupter s) \<le> in_bytes (sr_interrupter t)"
    and "0 < in_bytes (sr_interrupter t) \<or> sr_stop_thread t = sr_stop_thread s \<and>
      (\<forall>k < max_ops. \<forall>d. queue_at d (sr_queues t k) \<noteq> [] \<longrightarrow> queue_at d (sr_queues s k) \<noteq> [])"
  shows "awake t"
  using assms unfolding awake_def watched_def by fastforce

lemma interrupt_bytes: "in_bytes (sr_interrupter (interrupt s)) = in_bytes (sr_interrupter s) + 1"
  by (simp add: interrupt_def interrupter_interrupt_def)

lemma start_awake:
  assumes "reactor_ok s" and "awake s"
  shows "awake (reactor_start_op t d op s)"
proof -
  have ok: "rq_ok (sr_queues s t)" using assms(1) by (simp add: reactor_ok_def)
  show ?thesis
    by (rule awakeI [OF assms(2)])
      (use reactor_enqueue_effect(1,3) [OF ok] in
        \<open>auto simp: reactor_start_op_def interrupt_bytes case_prod_beta Let_def split: if_splits\<close>)
qed

lemma cancel_unlocked_awake:
  assumes "reactor_ok s" and "awake s"
  shows "awake (cancel_ops_unlocked d ec s)"
proof -
  obtain f r where e: "snd (cancel_types d [0..<max_ops] ec False [] s) = s\<lparr>sr_queues := f, sr_op := r\<rparr>"
    "\<forall>t c. queue_at c (f t) \<noteq> [] \<longrightarrow> queue_at c (sr_queues s t) \<noteq> []"
    using cancel_types_effect [OF assms(1), of "[0..<max_ops]" d ec False "[]"] by auto
  show ?thesis
    by (rule awakeI [OF assms(2)])
      (use e in \<open>auto simp: cancel_ops_unlocked_def interrupt_bytes case_prod_beta Let_def\<close>)
qed

lemma deregister_internal_awake:
  assumes "reactor_ok s" and "awake s"
  shows "awake (deregister_internal_descriptor d s)"
proof -
  obtain f r where e: "snd (cancel_types d [0..<max_ops] (make_basic operation_aborted) False [] s) = s\<lparr>sr_queues := f, sr_op := r\<rparr>"
    "\<forall>t c. queue_at c (f t) \<noteq> [] \<longrightarrow> queue_at c (sr_queues s t) \<noteq> []"
    using cancel_types_effect [OF assms(1), of "[0..<max_ops]" d "make_basic operation_aborted" False "[]"] by auto
  show ?thesis
    by (rule awakeI [OF assms(2)])
      (use e in \<open>auto simp: deregister_internal_descriptor_def case_prod_beta Let_def\<close>)
qed

lemma cancel_by_key_awake:
  assumes "reactor_ok s" and "awake s"
  shows "awake (cancel_ops_by_key d t key s)"
proof -
  have ok: "rq_ok (sr_queues s t)" using assms(1) by (simp add: reactor_ok_def)
  have "queue_at c (fst (snd (cancel_operations_by_key d key ec (sr_queues s t) [] (sr_op s)))) \<noteq> [] \<Longrightarrow>
      queue_at c (sr_queues s t) \<noteq> []" for c ec
    using cancel_by_key_effect(3) [OF ok, where d = d and key = key and ec = ec and ops = "[]" and r = "sr_op s"]
    by (auto split: if_splits)
  then show ?thesis
    by (intro awakeI [OF assms(2)])
      (auto simp: cancel_ops_by_key_def interrupt_bytes case_prod_beta Let_def split: if_splits)
qed

lemma thread_awake:
  assumes ok: "reactor_ok s" and a: "awake s"
  shows "awake (thread_step retval ready answer expired s)"
proof (cases "sr_phase s")
  case At_head
  show ?thesis
  proof (cases "sr_stop_thread s")
    case True
    then show ?thesis using At_head by (simp add: thread_step_def awake_def)
  next
    case False
    obtain g where g: "run_set_up s = s\<lparr>sr_sets := g\<rparr>" using run_set_up_effect(1) [OF ok] by blast
    have "watched t d (s\<lparr>sr_sets := g, sr_phase := In_select\<rparr>)" if "t < max_ops" "queue_at d (sr_queues s t) \<noteq> []" for t d
      using run_set_up_effect(3) [OF ok that] by (cases "t = connect_op") (simp_all add: g watched_def)
    then show ?thesis using At_head False a run_set_up_effect(2) [OF ok]
      by (simp add: thread_step_def run_begin_def g awake_def)
  qed
next
  case In_select
  then show ?thesis using a
    by (auto simp: thread_step_def select_returns_def awake_def on_context_def case_prod_beta Let_def)
next
  case (Behind_select n)
  obtain f r ts where "snd (run_end n expired s) = s\<lparr>sr_queues := f, sr_op := r, sr_timers := ts\<rparr>"
    using run_end_effect [OF ok] by blast
  then show ?thesis using Behind_select a by (simp add: thread_step_def awake_def case_prod_beta Let_def)
next
  case (Holding ops)
  then show ?thesis using a by (simp add: thread_step_def awake_def)
next
  case At_end
  then show ?thesis using a by (simp add: thread_step_def)
qed

lemma step_awake:
  assumes "reactor_ok s" and "awake s"
  shows "awake (reactor_step e s)"
proof (cases e)
  case (E_register_internal t d op)
  then show ?thesis
    by simp (rule awakeI [OF assms(2)], simp_all add: register_internal_descriptor_def interrupt_bytes)
next
  case E_interrupt
  then show ?thesis by simp (rule awakeI [OF assms(2)], simp_all add: interrupt_bytes)
next
  case E_shutdown_begin
  then show ?thesis using assms(2) by (auto simp: shutdown_begin_def awake_def Let_def)
next
  case E_shutdown_end
  obtain f where "snd (get_all_types [0..<max_ops] [] (s\<lparr>sr_thread := False\<rparr>)) = s\<lparr>sr_thread := False, sr_queues := f\<rparr>"
    using get_all_types_effect [of "s\<lparr>sr_thread := False\<rparr>" "[0..<max_ops]" "[]"] assms(1) by (auto simp: reactor_ok_def)
  then show ?thesis using E_shutdown_end assms(2)
    by (auto simp: shutdown_end_def awake_def case_prod_beta Let_def)
next
  case (E_restart owner d)
  then show ?thesis using assms(2) by (auto simp: restart_do_complete_def awake_def)
qed (use assms in \<open>simp_all add: start_awake reactor_cancel_ops_def deregister_descriptor_def cancel_unlocked_awake
      cancel_by_key_awake deregister_internal_awake thread_awake\<close>)

lemma run_awake:
  "reactor_ok s \<Longrightarrow> awake s \<Longrightarrow> \<forall>e \<in> set es. valid_event e \<Longrightarrow> awake (reactor_run es s)"
proof (induction es arbitrary: s)
  case (Cons e es)
  have "reactor_ok (reactor_step e s)" using step_accounts [OF Cons.prems(1), of e] Cons.prems(3) by (simp add: accounts_def)
  then show ?case using Cons.IH step_awake [OF Cons.prems(1,2)] Cons.prems(3) by (simp add: reactor_run_def)
qed (simp add: reactor_run_def)

lemma reactor_init_ok: "reactor_ok (reactor_init c d o1 r)" "awake (reactor_init c d o1 r)"
  by (simp_all add: reactor_init_def reactor_ok_def rq_ok_init awake_def)

section \<open>Properties of all runs\<close>

text \<open>
  C16: In every run of the reactor, whatever the interleaving of its callers with its thread and whatever
  \<open>select\<close>, the sockets and the timers answer, no operation is lost or handed over twice: those brought to
  the reactor are those in its queues, those its thread holds, and those the context has got, to run
  or destroyed. Only the reactor's own restart operation is not counted.
\<close>
theorem reactor_conserves_operations:
  fixes c :: io_context and d ro :: nat and r :: reactor_op
  assumes "\<forall>e \<in> set es. valid_event e"
  defines "s \<equiv> reactor_run es (reactor_init c d ro r)"
  shows "filter_mset (\<lambda>op. op \<noteq> ro)
      (all_queued (sr_queues s) + mset (sr_timers s) + held (sr_phase s) + pending (sr_context s) + mset (destroyed (sr_context s))) =
    filter_mset (\<lambda>op. op \<noteq> ro) (mset (concat (map brought es)) + pending c + mset (destroyed c))"
proof -
  let ?i = "reactor_init c d ro r"
  have "all_ops ?i = pending c + mset (destroyed c)"
    by (simp add: reactor_init_def all_ops_def all_queued_def queued_def hm_init_def held_def handed_over_def)
  moreover have "sr_restart_op ?i = ro" by (simp add: reactor_init_def)
  moreover have "accounts (concat (map brought es)) ?i s" unfolding s_def by (rule run_accounts [OF reactor_init_ok(1) assms(1)])
  ultimately show ?thesis by (simp add: accounts_def all_ops_def handed_over_def ac_simps)
qed

text \<open>A run with a connect on one descriptor and a read on another while the thread waits.\<close>

definition witness_reactor :: select_reactor where
  "witness_reactor = reactor_init io_context_init 5 99 \<lparr>ro_ec = (\<lambda>_. make_basic operation_aborted), ro_key = (\<lambda>_. 0), ro_answers = []\<rparr>"

definition witness_run :: "reactor_event list" where
  "witness_run = [E_thread 0 (\<lambda>_. []) True (\<lambda>_. False), E_start 3 8 2, E_start 0 7 1]"

theorem reactor_conserves_operations_witness:
  "filter_mset (\<lambda>op. op \<noteq> 99)
     (let s = reactor_run (witness_run @ [E_cancel 7]) witness_reactor
      in all_queued (sr_queues s) + mset (sr_timers s) + held (sr_phase s) + pending (sr_context s) +
         mset (destroyed (sr_context s))) = {#1, 2#}"
  using reactor_conserves_operations [where es = "witness_run @ [E_cancel 7]" and c = io_context_init and d = 5 and ro = 99 and
      r = "\<lparr>ro_ec = (\<lambda>_. make_basic operation_aborted), ro_key = (\<lambda>_. 0), ro_answers = []\<rparr>"]
  by (simp add: witness_run_def witness_reactor_def max_ops_def Let_def pending_def io_context_init_def)

text \<open>
  C17: The reactor never misses an operation: whenever its thread waits in \<open>select\<close>, each descriptor for
  which an operation is queued is in the set of its type, in both sets for a connect, and the thread is
  not to stop, or else an interruption is on its way, to a descriptor that \<open>select\<close> watches.
\<close>
theorem reactor_never_misses_operation:
  fixes c :: io_context and d ro :: nat and r :: reactor_op
  assumes "\<forall>e \<in> set es. valid_event e" and "sr_phase (reactor_run es (reactor_init c d ro r)) = In_select"
  defines "s \<equiv> reactor_run es (reactor_init c d ro r)"
  shows "fd_is_set (in_descriptor (sr_interrupter s)) (sr_sets s 0) \<and>
    (0 < in_bytes (sr_interrupter s) \<or>
     \<not> sr_stop_thread s \<and>
     (\<forall>t < max_ops. \<forall>x. queue_at x (sr_queues s t) \<noteq> [] \<longrightarrow>
        (if t = connect_op then fd_is_set x (sr_sets s 1) \<and> fd_is_set x (sr_sets s 2) else fd_is_set x (sr_sets s t))))"
  using run_awake [OF reactor_init_ok assms(1), of c d ro r] assms(2) unfolding s_def awake_def watched_def by blast

theorem reactor_never_misses_operation_witness:
  "sr_phase (reactor_run witness_run witness_reactor) = In_select \<and>
   0 < in_bytes (sr_interrupter (reactor_run witness_run witness_reactor)) \<and>
   fd_is_set 5 (sr_sets (reactor_run witness_run witness_reactor) 0)"
proof -
  have start: "sr_phase (reactor_start_op t d op s) = sr_phase s" "sr_interrupter s = i \<Longrightarrow> in_descriptor (sr_interrupter (reactor_start_op t d op s)) = in_descriptor i"
    "in_bytes (sr_interrupter s) \<le> in_bytes (sr_interrupter (reactor_start_op t d op s))" for t d op s i
    by (simp_all add: reactor_start_op_def interrupt_bytes case_prod_beta Let_def)
  define s where "s = thread_step 0 (\<lambda>_. []) True (\<lambda>_. False) witness_reactor"
  obtain g where "run_set_up witness_reactor = witness_reactor\<lparr>sr_sets := g\<rparr>"
    using run_set_up_effect(1) [OF reactor_init_ok(1)] unfolding witness_reactor_def by blast
  then have s: "sr_phase s = In_select" "sr_interrupter s = \<lparr>in_descriptor = 5, in_bytes = 0\<rparr>" "sr_queues s = (\<lambda>_. hm_init)" "\<not> sr_shutdown s"
    by (simp_all add: s_def thread_step_def run_begin_def witness_reactor_def reactor_init_def Let_def)
  have "0 < in_bytes (sr_interrupter (reactor_start_op 3 8 2 s))"
    using reactor_enqueue_effect(1) [OF rq_ok_init(1), of 8 2] s
    by (simp add: reactor_start_op_def interrupt_bytes case_prod_beta Let_def queue_at_def hm_init_def)
  then have "sr_phase (reactor_run witness_run witness_reactor) = In_select"
    "0 < in_bytes (sr_interrupter (reactor_run witness_run witness_reactor))"
    "in_descriptor (sr_interrupter (reactor_run witness_run witness_reactor)) = 5"
    using start(3) [of "reactor_start_op 3 8 2 s" 0 7 1] start(2) [OF s(2), of 3 8 2] start(2) [OF refl, of 0 7 1 "reactor_start_op 3 8 2 s"]
    by (simp_all add: witness_run_def reactor_run_def s_def [symmetric] start(1) s(1))
  then show ?thesis
    using reactor_never_misses_operation [where es = witness_run and c = io_context_init and d = 5 and ro = 99 and
      r = "\<lparr>ro_ec = (\<lambda>_. make_basic operation_aborted), ro_key = (\<lambda>_. 0), ro_answers = []\<rparr>"]
    by (simp add: witness_run_def witness_reactor_def max_ops_def)
qed

end
