(* ===== verification/Asio_Channel.thy ===== *)
theory Asio_Channel
  imports Prelude
begin

text \<open>
  Channels: \<^verbatim>\<open>asio/experimental/detail/channel_service.hpp\<close> and its implementation file, with the operations
  of \<^verbatim>\<open>channel_send_op.hpp\<close> and \<^verbatim>\<open>channel_receive_op.hpp\<close> and the functions of \<^verbatim>\<open>basic_channel.hpp\<close>. Each
  function of the service runs under the lock of its channel, and is one step.
\<close>

section \<open>Operations\<close>

text \<open>
  A waiting operation has an identity, which stands for its handler, and a cancellation key; a send
  carries its payload. The notifications of the traits are messages too.
\<close>

datatype 'p channel_operation = Chan_send nat nat 'p | Chan_receive nat nat

fun cancellation_key :: "'p channel_operation \<Rightarrow> nat" where
  "cancellation_key (Chan_send i k p) = k"
| "cancellation_key (Chan_receive i k) = k"

datatype op_action = Destroy_op | Immediate_op | Post_op | Dispatch_op | Cancel_op | Close_op

datatype channel_errors = channel_closed | channel_cancelled

record 'p channel_traits =
  tr_closed :: 'p
  tr_cancelled :: 'p

text \<open>
  What has become of an operation: its handler was posted, dispatched or run through the immediate
  executor, with the error of a send or the message of a receive, or it was destroyed. \<open>Handler_called\<close> is the
  call of the handler inside \<open>try_receive\<close>.
\<close>

datatype 'p completion =
    Send_done nat op_action "channel_errors option"
  | Receive_done nat op_action 'p
  | Op_destroyed nat
  | Handler_called 'p

definition send_do_action :: "nat \<Rightarrow> op_action \<Rightarrow> 'p completion" where
  "send_do_action i a =
     (if a = Destroy_op then Op_destroyed i
      else Send_done i (if a = Immediate_op then Immediate_op else Post_op)
             (case a of Cancel_op \<Rightarrow> Some channel_cancelled | Close_op \<Rightarrow> Some channel_closed | _ \<Rightarrow> None))"

definition receive_do_action :: "nat \<Rightarrow> op_action \<Rightarrow> 'p \<Rightarrow> 'p completion" where
  "receive_do_action i a payload =
     (if a = Destroy_op then Op_destroyed i
      else Receive_done i (if a = Immediate_op then Immediate_op else if a = Dispatch_op then Dispatch_op else Post_op) payload)"

section \<open>Buffers\<close>

text \<open>
  The operations of the buffer of a channel. \<open>b_push_n\<close> gets the capacity, the count and the payload and
  returns how many were pushed. The front and the pop of an empty \<open>std::deque\<close> are undefined.
\<close>

record ('p, 'b) buffer_ops =
  b_empty :: 'b
  b_size :: "'b \<Rightarrow> nat"
  b_push :: "'p \<Rightarrow> 'b \<Rightarrow> 'b"
  b_push_n :: "nat \<Rightarrow> nat \<Rightarrow> 'p \<Rightarrow> 'b \<Rightarrow> nat \<times> 'b"
  b_front :: "'b \<Rightarrow> fault + 'p"
  b_pop :: "'b \<Rightarrow> fault + 'b"
  b_clear :: "'b \<Rightarrow> 'b"

text \<open>The general implementation: a deque of payloads.\<close>

fun deque_push_n :: "nat \<Rightarrow> nat \<Rightarrow> 'p \<Rightarrow> 'p list \<Rightarrow> nat \<times> 'p list" where
  "deque_push_n max_size 0 p b = (0, b)"
| "deque_push_n max_size (Suc n) p b =
     (if length b < max_size then let (i, b1) = deque_push_n max_size n p (b @ [p]) in (Suc i, b1) else (0, b))"

definition deque_front :: "'p list \<Rightarrow> fault + 'p" where
  "deque_front b = (case b of [] \<Rightarrow> Inl EmptyDeque | p # _ \<Rightarrow> Inr p)"

definition deque_pop :: "'p list \<Rightarrow> fault + 'p list" where
  "deque_pop b = (case b of [] \<Rightarrow> Inl EmptyDeque | _ # ps \<Rightarrow> Inr ps)"

definition deque_ops :: "('p, 'p list) buffer_ops" where
  "deque_ops =
     \<lparr>b_empty = [], b_size = length, b_push = (\<lambda>p b. b @ [p]), b_push_n = deque_push_n,
      b_front = deque_front, b_pop = deque_pop, b_clear = (\<lambda>_. [])\<rparr>"

definition deque_move_from :: "'p list \<Rightarrow> 'p list \<times> 'p list" where
  "deque_move_from other = (other, [])"

text \<open>Messages without arguments: a count. Decrements of \<open>size_t\<close> wrap around.\<close>

definition dec_size :: "nat \<Rightarrow> nat" where
  "dec_size n = (if n = 0 then 2 ^ 64 - 1 else n - 1)"

definition void_push_n :: "nat \<Rightarrow> nat \<Rightarrow> 'p \<Rightarrow> nat \<Rightarrow> nat \<times> nat" where
  "void_push_n max_size count p b = (let n = (if count < max_size - b then count else max_size - b) in (n, b + n))"

definition void_ops :: "'p \<Rightarrow> ('p, nat) buffer_ops" where
  "void_ops message =
     \<lparr>b_empty = 0, b_size = (\<lambda>b. b), b_push = (\<lambda>_ b. b + 1), b_push_n = void_push_n,
      b_front = (\<lambda>_. Inr message), b_pop = (\<lambda>b. Inr (dec_size b)), b_clear = (\<lambda>_. 0)\<rparr>"

definition void_move_from :: "nat \<Rightarrow> nat \<times> nat" where
  "void_move_from other = (other, 0)"

text \<open>
  Messages that are error codes: equal neighbours are counted, and the first group stands outside the
  container; it starts with the default error code, \<open>v0\<close>. In \<open>buffer_clear\<close> the count of the first group
  is compared with 0, not set to it. \<open>buffer_push_n\<close> is modelled as it reads, though it passes temporary
  objects where references are asked for.
\<close>

record 'v error_buffer =
  eb_size :: nat
  eb_first :: "'v \<times> nat"
  eb_rest :: "('v \<times> nat) list"

definition error_push_count :: "nat \<Rightarrow> 'v \<Rightarrow> 'v error_buffer \<Rightarrow> 'v error_buffer" where
  "error_push_count count payload b =
     (let last = (if eb_rest b = [] then eb_first b else List.last (eb_rest b));
          put = (\<lambda>x. if eb_rest b = [] then b\<lparr>eb_first := x\<rparr> else b\<lparr>eb_rest := butlast (eb_rest b) @ [x]\<rparr>);
          b1 = (if snd last = 0 then put (payload, count)
                else if fst last = payload then put (fst last, snd last + count)
                else b\<lparr>eb_rest := eb_rest b @ [(payload, count)]\<rparr>)
      in b1\<lparr>eb_size := eb_size b1 + count\<rparr>)"

definition error_push :: "'v \<Rightarrow> 'v error_buffer \<Rightarrow> 'v error_buffer" where
  "error_push payload b = error_push_count 1 payload b"

definition error_push_n :: "nat \<Rightarrow> nat \<Rightarrow> 'v \<Rightarrow> 'v error_buffer \<Rightarrow> nat \<times> 'v error_buffer" where
  "error_push_n max_size count payload b =
     (let available = max_size - eb_size b;
          n = (if count < available then count else available)
      in (n, if n > 0 then error_push_count n payload b else b))"

definition error_pop :: "'v error_buffer \<Rightarrow> fault + 'v error_buffer" where
  "error_pop b =
     (let b1 = b\<lparr>eb_size := dec_size (eb_size b), eb_first := (fst (eb_first b), dec_size (snd (eb_first b)))\<rparr>
      in Inr (if snd (eb_first b1) = 0 \<and> eb_rest b1 \<noteq> [] then b1\<lparr>eb_first := hd (eb_rest b1), eb_rest := tl (eb_rest b1)\<rparr>
              else b1))"

definition error_clear :: "'v error_buffer \<Rightarrow> 'v error_buffer" where
  "error_clear b = b\<lparr>eb_size := 0, eb_rest := []\<rparr>"

definition error_ops :: "'v \<Rightarrow> ('v, 'v error_buffer) buffer_ops" where
  "error_ops v0 =
     \<lparr>b_empty = \<lparr>eb_size = 0, eb_first = (v0, 0), eb_rest = []\<rparr>, b_size = eb_size, b_push = error_push, b_push_n = error_push_n,
      b_front = (\<lambda>b. Inr (fst (eb_first b))), b_pop = error_pop, b_clear = error_clear\<rparr>"

section \<open>The implementation of a channel\<close>

datatype chan_state = Ch_buffer | Ch_waiter | Ch_block | Ch_closed

text \<open>\<open>ch_done\<close> is the sequence of what has become of the operations, in the order in which it happened.\<close>

record ('p, 'b) channel =
  ch_receive_state :: chan_state
  ch_send_state :: chan_state
  ch_max_buffer_size :: nat
  ch_waiters :: "'p channel_operation list"
  ch_next :: "nat option"
  ch_prev :: "nat option"
  ch_buffer :: 'b
  ch_done :: "'p completion list"

definition idle_send_state :: "nat \<Rightarrow> chan_state" where
  "idle_send_state max_size = (if max_size \<noteq> 0 then Ch_buffer else Ch_block)"

definition chan_construct :: "('p, 'b) buffer_ops \<Rightarrow> nat \<Rightarrow> ('p, 'b) channel" where
  "chan_construct bo max_size =
     \<lparr>ch_receive_state = Ch_block, ch_send_state = idle_send_state max_size, ch_max_buffer_size = max_size, ch_waiters = [],
      ch_next = None, ch_prev = None, ch_buffer = b_empty bo, ch_done = []\<rparr>"

definition report :: "'p completion \<Rightarrow> ('p, 'b) channel \<Rightarrow> ('p, 'b) channel" where
  "report d c = c\<lparr>ch_done := ch_done c @ [d]\<rparr>"

text \<open>\<open>static_cast\<close> to the class of the operation, with a member function that ends it.\<close>

definition end_send :: "op_action \<Rightarrow> 'p channel_operation \<Rightarrow> ('p, 'b) channel \<Rightarrow> fault + ('p, 'b) channel" where
  "end_send a op c = (case op of Chan_send i k p \<Rightarrow> Inr (report (send_do_action i a) c) | _ \<Rightarrow> Inl BadDowncast)"

definition end_receive :: "op_action \<Rightarrow> 'p \<Rightarrow> 'p channel_operation \<Rightarrow> ('p, 'b) channel \<Rightarrow> fault + ('p, 'b) channel" where
  "end_receive a payload op c =
     (case op of Chan_receive i k \<Rightarrow> Inr (report (receive_do_action i a payload) c) | _ \<Rightarrow> Inl BadDowncast)"

definition get_payload :: "'p channel_operation \<Rightarrow> fault + 'p" where
  "get_payload op = (case op of Chan_send i k p \<Rightarrow> Inr p | _ \<Rightarrow> Inl BadDowncast)"

text \<open>The front of the queue, where the code does not expect a null pointer.\<close>

definition first_waiter :: "('p, 'b) channel \<Rightarrow> fault + 'p channel_operation" where
  "first_waiter c = (case ch_waiters c of [] \<Rightarrow> Inl NullDereference | op # _ \<Rightarrow> Inr op)"

definition pop_waiter :: "('p, 'b) channel \<Rightarrow> ('p, 'b) channel" where
  "pop_waiter c = c\<lparr>ch_waiters := tl (ch_waiters c)\<rparr>"

section \<open>Closing and cancelling\<close>

text \<open>The loops go through the queue from the front.\<close>

fun close_loop :: "'p channel_traits \<Rightarrow> 'p channel_operation list \<Rightarrow> ('p, 'b) channel \<Rightarrow> fault + ('p, 'b) channel" where
  "close_loop tr [] c = Inr c"
| "close_loop tr (op # ops) c =
     bind_res (end_receive Post_op (tr_closed tr) op (c\<lparr>ch_waiters := ops\<rparr>)) (close_loop tr ops)"

definition chan_close :: "'p channel_traits \<Rightarrow> ('p, 'b) channel \<Rightarrow> fault + ('p, 'b) channel" where
  "chan_close tr c =
     bind_res (if ch_receive_state c = Ch_block then close_loop tr (ch_waiters c) c else Inr c) (\<lambda>c1.
       let c2 = c1\<lparr>ch_send_state := Ch_closed\<rparr>
       in Inr (if ch_receive_state c2 \<noteq> Ch_buffer then c2\<lparr>ch_receive_state := Ch_closed\<rparr> else c2))"

definition cancel_waiter :: "'p channel_traits \<Rightarrow> 'p channel_operation \<Rightarrow> ('p, 'b) channel \<Rightarrow> fault + ('p, 'b) channel" where
  "cancel_waiter tr op c =
     (if ch_send_state c = Ch_block then end_send Cancel_op op c else end_receive Post_op (tr_cancelled tr) op c)"

fun chan_cancel_loop :: "'p channel_traits \<Rightarrow> 'p channel_operation list \<Rightarrow> ('p, 'b) channel \<Rightarrow> fault + ('p, 'b) channel" where
  "chan_cancel_loop tr [] c = Inr c"
| "chan_cancel_loop tr (op # ops) c = bind_res (cancel_waiter tr op (c\<lparr>ch_waiters := ops\<rparr>)) (chan_cancel_loop tr ops)"

definition no_waiters_left :: "('p, 'b) channel \<Rightarrow> ('p, 'b) channel" where
  "no_waiters_left c =
     (let c1 = (if ch_receive_state c = Ch_waiter then c\<lparr>ch_receive_state := Ch_block\<rparr> else c)
      in if ch_send_state c1 = Ch_waiter then c1\<lparr>ch_send_state := idle_send_state (ch_max_buffer_size c1)\<rparr> else c1)"

definition chan_cancel :: "'p channel_traits \<Rightarrow> ('p, 'b) channel \<Rightarrow> fault + ('p, 'b) channel" where
  "chan_cancel tr c = map_res no_waiters_left (chan_cancel_loop tr (ch_waiters c) c)"

fun chan_cancel_key_loop :: "'p channel_traits \<Rightarrow> nat \<Rightarrow> 'p channel_operation list \<Rightarrow> 'p channel_operation list \<Rightarrow>
    ('p, 'b) channel \<Rightarrow> fault + 'p channel_operation list \<times> ('p, 'b) channel" where
  "chan_cancel_key_loop tr key [] other_ops c = Inr (other_ops, c)"
| "chan_cancel_key_loop tr key (op # ops) other_ops c =
     (if cancellation_key op = key
      then bind_res (cancel_waiter tr op (c\<lparr>ch_waiters := ops\<rparr>)) (chan_cancel_key_loop tr key ops other_ops)
      else chan_cancel_key_loop tr key ops (other_ops @ [op]) (c\<lparr>ch_waiters := ops\<rparr>))"

definition chan_cancel_by_key :: "'p channel_traits \<Rightarrow> nat \<Rightarrow> ('p, 'b) channel \<Rightarrow> fault + ('p, 'b) channel" where
  "chan_cancel_by_key tr key c =
     bind_res (chan_cancel_key_loop tr key (ch_waiters c) [] c) (\<lambda>(other_ops, c1).
       let c2 = c1\<lparr>ch_waiters := ch_waiters c1 @ other_ops\<rparr>
       in Inr (if ch_waiters c2 = [] then no_waiters_left c2 else c2))"

definition chan_reset :: "('p, 'b) buffer_ops \<Rightarrow> 'p channel_traits \<Rightarrow> ('p, 'b) channel \<Rightarrow> fault + ('p, 'b) channel" where
  "chan_reset bo tr c =
     map_res (\<lambda>c1. c1\<lparr>ch_receive_state := Ch_block, ch_send_state := idle_send_state (ch_max_buffer_size c1),
                     ch_buffer := b_clear bo (ch_buffer c1)\<rparr>) (chan_cancel tr c)"

definition chan_capacity :: "('p, 'b) channel \<Rightarrow> nat" where
  "chan_capacity c = ch_max_buffer_size c"

definition chan_is_open :: "('p, 'b) channel \<Rightarrow> bool" where
  "chan_is_open c \<longleftrightarrow> ch_send_state c \<noteq> Ch_closed"

definition chan_ready :: "('p, 'b) channel \<Rightarrow> bool" where
  "chan_ready c \<longleftrightarrow> ch_receive_state c \<noteq> Ch_block"

section \<open>Sending\<close>

text \<open>The case of a buffer with room, and that of a waiting receive.\<close>

definition send_to_buffer :: "('p, 'b) buffer_ops \<Rightarrow> 'p \<Rightarrow> ('p, 'b) channel \<Rightarrow> ('p, 'b) channel" where
  "send_to_buffer bo p c =
     (let c1 = c\<lparr>ch_buffer := b_push bo p (ch_buffer c), ch_receive_state := Ch_buffer\<rparr>
      in if b_size bo (ch_buffer c1) = ch_max_buffer_size c1 then c1\<lparr>ch_send_state := Ch_block\<rparr> else c1)"

definition send_to_waiter :: "op_action \<Rightarrow> 'p \<Rightarrow> ('p, 'b) channel \<Rightarrow> fault + ('p, 'b) channel" where
  "send_to_waiter a p c =
     bind_res (first_waiter c) (\<lambda>receive_op.
       let c1 = pop_waiter c;
           c2 = (if ch_waiters c1 = [] then c1\<lparr>ch_send_state := idle_send_state (ch_max_buffer_size c1)\<rparr> else c1)
       in end_receive a p receive_op c2)"

definition send_action :: "bool \<Rightarrow> op_action" where
  "send_action via_dispatch = (if via_dispatch then Dispatch_op else Post_op)"

definition try_send :: "('p, 'b) buffer_ops \<Rightarrow> bool \<Rightarrow> 'p \<Rightarrow> ('p, 'b) channel \<Rightarrow> fault + bool \<times> ('p, 'b) channel" where
  "try_send bo via_dispatch p c =
     (case ch_send_state c of
        Ch_block \<Rightarrow> Inr (False, c)
      | Ch_buffer \<Rightarrow> Inr (True, send_to_buffer bo p c)
      | Ch_waiter \<Rightarrow> map_res (Pair True) (send_to_waiter (send_action via_dispatch) p c)
      | Ch_closed \<Rightarrow> Inr (False, c))"

text \<open>
  The loop of \<open>try_send_n\<close>, where \<open>n\<close> more are to be sent and \<open>i\<close> have been. The code releases the lock with
  the first waiting receive and goes on without it; nothing comes between the rounds here.
\<close>

fun try_send_n_loop :: "('p, 'b) buffer_ops \<Rightarrow> bool \<Rightarrow> 'p \<Rightarrow> nat \<Rightarrow> nat \<Rightarrow> ('p, 'b) channel \<Rightarrow> fault + nat \<times> ('p, 'b) channel" where
  "try_send_n_loop bo via_dispatch p i 0 c = Inr (i, c)"
| "try_send_n_loop bo via_dispatch p i (Suc n) c =
     (case ch_send_state c of
        Ch_block \<Rightarrow> Inr (i, c)
      | Ch_buffer \<Rightarrow>
          let (k, b) = b_push_n bo (ch_max_buffer_size c) (Suc n) p (ch_buffer c);
              c1 = c\<lparr>ch_buffer := b, ch_receive_state := Ch_buffer\<rparr>
          in Inr (i + k, if b_size bo b = ch_max_buffer_size c1 then c1\<lparr>ch_send_state := Ch_block\<rparr> else c1)
      | Ch_waiter \<Rightarrow>
          bind_res (send_to_waiter (send_action via_dispatch) p c) (try_send_n_loop bo via_dispatch p (i + 1) n)
      | Ch_closed \<Rightarrow> Inr (i, c))"

definition try_send_n :: "('p, 'b) buffer_ops \<Rightarrow> bool \<Rightarrow> nat \<Rightarrow> 'p \<Rightarrow> ('p, 'b) channel \<Rightarrow> fault + nat \<times> ('p, 'b) channel" where
  "try_send_n bo via_dispatch count p c =
     (if count = 0 then Inr (0, c)
      else case ch_send_state c of
        Ch_block \<Rightarrow> Inr (0, c)
      | Ch_closed \<Rightarrow> Inr (0, c)
      | _ \<Rightarrow> try_send_n_loop bo via_dispatch p 0 count c)"

text \<open>\<open>start_send_op\<close> with the operation that \<open>async_send\<close> has made.\<close>

definition start_chan_send :: "('p, 'b) buffer_ops \<Rightarrow> nat \<Rightarrow> nat \<Rightarrow> 'p \<Rightarrow> ('p, 'b) channel \<Rightarrow> fault + ('p, 'b) channel" where
  "start_chan_send bo i key p c =
     (let send_op = Chan_send i key p
      in case ch_send_state c of
        Ch_block \<Rightarrow>
          let c1 = c\<lparr>ch_waiters := ch_waiters c @ [send_op]\<rparr>
          in Inr (if ch_receive_state c1 = Ch_block then c1\<lparr>ch_receive_state := Ch_waiter\<rparr> else c1)
      | Ch_buffer \<Rightarrow> end_send Immediate_op send_op (send_to_buffer bo p c)
      | Ch_waiter \<Rightarrow> bind_res (send_to_waiter Post_op p c) (end_send Immediate_op send_op)
      | Ch_closed \<Rightarrow> end_send Close_op send_op c)"

section \<open>Receiving\<close>

text \<open>The payload that a receive takes from the buffer, or from a waiting send.\<close>

definition receive_from_buffer :: "('p, 'b) buffer_ops \<Rightarrow> ('p, 'b) channel \<Rightarrow> fault + 'p \<times> ('p, 'b) channel" where
  "receive_from_buffer bo c =
     bind_res (b_front bo (ch_buffer c)) (\<lambda>payload.
       bind_res (b_pop bo (ch_buffer c)) (\<lambda>b.
         case ch_waiters c of
           send_op # _ \<Rightarrow>
             bind_res (get_payload send_op) (\<lambda>p.
               map_res (Pair payload) (end_send Post_op send_op (pop_waiter (c\<lparr>ch_buffer := b_push bo p b\<rparr>))))
         | [] \<Rightarrow>
             let c1 = c\<lparr>ch_buffer := b\<rparr>;
                 c2 = (if b_size bo b = 0
                       then c1\<lparr>ch_receive_state := (if ch_send_state c1 = Ch_closed then Ch_closed else Ch_block)\<rparr> else c1)
             in Inr (payload, c2\<lparr>ch_send_state := (if ch_send_state c2 = Ch_closed then Ch_closed else Ch_buffer)\<rparr>)))"

definition receive_from_waiter :: "('p, 'b) channel \<Rightarrow> fault + 'p \<times> ('p, 'b) channel" where
  "receive_from_waiter c =
     bind_res (first_waiter c) (\<lambda>send_op.
       bind_res (get_payload send_op) (\<lambda>payload.
         let c1 = pop_waiter c;
             c2 = (if ch_waiters c1 = []
                   then c1\<lparr>ch_receive_state := (if ch_send_state c1 = Ch_closed then Ch_closed else Ch_block)\<rparr> else c1)
         in map_res (Pair payload) (end_send Post_op send_op c2)))"

text \<open>The handler of \<open>try_receive\<close> is called at the end, with the payload that is the result here.\<close>

definition call_handler :: "'p \<times> ('p, 'b) channel \<Rightarrow> 'p option \<times> ('p, 'b) channel" where
  "call_handler r = (Some (fst r), report (Handler_called (fst r)) (snd r))"

definition try_receive :: "('p, 'b) buffer_ops \<Rightarrow> ('p, 'b) channel \<Rightarrow> fault + 'p option \<times> ('p, 'b) channel" where
  "try_receive bo c =
     (case ch_receive_state c of
        Ch_block \<Rightarrow> Inr (None, c)
      | Ch_buffer \<Rightarrow> map_res call_handler (receive_from_buffer bo c)
      | Ch_waiter \<Rightarrow> map_res call_handler (receive_from_waiter c)
      | Ch_closed \<Rightarrow> Inr (None, c))"

definition start_chan_receive :: "('p, 'b) buffer_ops \<Rightarrow> 'p channel_traits \<Rightarrow> nat \<Rightarrow> nat \<Rightarrow> ('p, 'b) channel \<Rightarrow>
    fault + ('p, 'b) channel" where
  "start_chan_receive bo tr i key c =
     (let receive_op = Chan_receive i key
      in case ch_receive_state c of
        Ch_block \<Rightarrow>
          let c1 = c\<lparr>ch_waiters := ch_waiters c @ [receive_op]\<rparr>
          in Inr (if ch_send_state c1 \<noteq> Ch_closed then c1\<lparr>ch_send_state := Ch_waiter\<rparr> else c1)
      | Ch_buffer \<Rightarrow> bind_res (receive_from_buffer bo c) (\<lambda>(p, c1). end_receive Immediate_op p receive_op c1)
      | Ch_waiter \<Rightarrow> bind_res (receive_from_waiter c) (\<lambda>(p, c1). end_receive Immediate_op p receive_op c1)
      | Ch_closed \<Rightarrow> end_receive Post_op (tr_closed tr) receive_op c)"

section \<open>The channels of a service\<close>

text \<open>All channels, by their addresses, and the list of those of each service.\<close>

record ('p, 'b) channels =
  cs_channel :: "nat \<Rightarrow> ('p, 'b) channel"
  cs_list :: "nat \<Rightarrow> nat option"

definition on_channel :: "nat \<Rightarrow> (('p, 'b) channel \<Rightarrow> ('p, 'b) channel) \<Rightarrow> ('p, 'b) channels \<Rightarrow> ('p, 'b) channels" where
  "on_channel i f s = s\<lparr>cs_channel := (cs_channel s)(i := f (cs_channel s i))\<rparr>"

definition on_channel_res :: "nat \<Rightarrow> (('p, 'b) channel \<Rightarrow> fault + ('p, 'b) channel) \<Rightarrow> ('p, 'b) channels \<Rightarrow>
    fault + ('p, 'b) channels" where
  "on_channel_res i f s = map_res (\<lambda>c. on_channel i (\<lambda>_. c) s) (f (cs_channel s i))"

definition insert_channel :: "nat \<Rightarrow> nat \<Rightarrow> ('p, 'b) channels \<Rightarrow> ('p, 'b) channels" where
  "insert_channel sv i s =
     (let s1 = on_channel i (\<lambda>c. c\<lparr>ch_next := cs_list s sv, ch_prev := None\<rparr>) s;
          s2 = (case cs_list s1 sv of None \<Rightarrow> s1 | Some h \<Rightarrow> on_channel h (\<lambda>c. c\<lparr>ch_prev := Some i\<rparr>) s1)
      in s2\<lparr>cs_list := (cs_list s2)(sv := Some i)\<rparr>)"

definition remove_channel :: "nat \<Rightarrow> nat \<Rightarrow> ('p, 'b) channels \<Rightarrow> ('p, 'b) channels" where
  "remove_channel sv i s =
     (let s1 = (if cs_list s sv = Some i then s\<lparr>cs_list := (cs_list s)(sv := ch_next (cs_channel s i))\<rparr> else s);
          s2 = (case ch_prev (cs_channel s1 i) of
                  None \<Rightarrow> s1
                | Some p \<Rightarrow> on_channel p (\<lambda>c. c\<lparr>ch_next := ch_next (cs_channel s1 i)\<rparr>) s1);
          s3 = (case ch_next (cs_channel s2 i) of
                  None \<Rightarrow> s2
                | Some n \<Rightarrow> on_channel n (\<lambda>c. c\<lparr>ch_prev := ch_prev (cs_channel s2 i)\<rparr>) s2)
      in on_channel i (\<lambda>c. c\<lparr>ch_next := None, ch_prev := None\<rparr>) s3)"

text \<open>\<open>construct\<close> on a channel that was just initialised.\<close>

definition service_construct :: "('p, 'b) buffer_ops \<Rightarrow> nat \<Rightarrow> nat \<Rightarrow> nat \<Rightarrow> ('p, 'b) channels \<Rightarrow> ('p, 'b) channels" where
  "service_construct bo max_size sv i s = insert_channel sv i (on_channel i (\<lambda>_. chan_construct bo max_size) s)"

definition service_destroy :: "'p channel_traits \<Rightarrow> nat \<Rightarrow> nat \<Rightarrow> ('p, 'b) channels \<Rightarrow> fault + ('p, 'b) channels" where
  "service_destroy tr sv i s = map_res (remove_channel sv i) (on_channel_res i (chan_cancel tr) s)"

text \<open>Both moves take capacity, states and buffer, and leave the waiting operations where they are.\<close>

definition take_channel :: "('b \<Rightarrow> 'b \<times> 'b) \<Rightarrow> nat \<Rightarrow> nat \<Rightarrow> ('p, 'b) channels \<Rightarrow> ('p, 'b) channels" where
  "take_channel move_from i other s =
     (let o1 = cs_channel s other;
          (b, other_b) = move_from (ch_buffer o1);
          s1 = on_channel i (\<lambda>c. c\<lparr>ch_max_buffer_size := ch_max_buffer_size o1, ch_receive_state := ch_receive_state o1,
                 ch_send_state := ch_send_state o1, ch_buffer := b\<rparr>) s
      in on_channel other (\<lambda>c. c\<lparr>ch_receive_state := Ch_block,
           ch_send_state := idle_send_state (ch_max_buffer_size o1), ch_buffer := other_b\<rparr>) s1)"

definition service_move_construct :: "('p, 'b) buffer_ops \<Rightarrow> ('b \<Rightarrow> 'b \<times> 'b) \<Rightarrow> nat \<Rightarrow> nat \<Rightarrow> nat \<Rightarrow>
    ('p, 'b) channels \<Rightarrow> ('p, 'b) channels" where
  "service_move_construct bo move_from sv i other s =
     insert_channel sv i (take_channel move_from i other (on_channel i (\<lambda>_. chan_construct bo 0) s))"

definition service_move_assign :: "('b \<Rightarrow> 'b \<times> 'b) \<Rightarrow> 'p channel_traits \<Rightarrow> nat \<Rightarrow> nat \<Rightarrow> nat \<Rightarrow> nat \<Rightarrow>
    ('p, 'b) channels \<Rightarrow> fault + ('p, 'b) channels" where
  "service_move_assign move_from tr sv i other_sv other s =
     (if i = other then Inr s
      else
        map_res (\<lambda>s1.
          let s2 = (if sv \<noteq> other_sv then remove_channel sv i s1 else s1);
              s3 = take_channel move_from i other s2
          in if sv \<noteq> other_sv then insert_channel other_sv i s3 else s3)
        (on_channel_res i (chan_cancel tr) s))"

text \<open>Shutting down destroys what waits on the channels of the list.\<close>

definition destroy_waiters :: "('p, 'b) channel \<Rightarrow> ('p, 'b) channel" where
  "destroy_waiters c =
     c\<lparr>ch_waiters := [], ch_done := ch_done c @ map (\<lambda>op. Op_destroyed (case op of Chan_send i k p \<Rightarrow> i | Chan_receive i k \<Rightarrow> i)) (ch_waiters c)\<rparr>"

partial_function (option) service_shutdown_loop :: "nat option \<Rightarrow> ('p, 'b) channels \<Rightarrow> ('p, 'b) channels option" where
  "service_shutdown_loop p s =
     (case p of
        None \<Rightarrow> Some s
      | Some i \<Rightarrow> service_shutdown_loop (ch_next (cs_channel s i)) (on_channel i destroy_waiters s))"

definition service_shutdown :: "nat \<Rightarrow> ('p, 'b) channels \<Rightarrow> ('p, 'b) channels option" where
  "service_shutdown sv s = service_shutdown_loop (cs_list s sv) s"

end
