(* ===== verification/Asio_Channel_Facts.thy ===== *)
theory Asio_Channel_Facts
  imports Asio_Channel Linked_List
begin

text \<open>
  Channels against their specification: a bounded queue with waiting senders and waiting receivers. The
  states of the two ends are functions of it, and every function of the service, over any buffer that
  keeps the laws of a queue, does what the specification says, the undefined cases included.
\<close>

section \<open>What a buffer promises\<close>

locale channel_buffer =
  fixes bo :: "('p, 'b) buffer_ops" and contents :: "'b \<Rightarrow> 'p list" and buffer_ok :: "'b \<Rightarrow> bool" and valid :: "'p \<Rightarrow> bool"
  assumes empty: "buffer_ok (b_empty bo)" "contents (b_empty bo) = []"
    and size: "buffer_ok b \<Longrightarrow> b_size bo b = length (contents b)"
    and push: "buffer_ok b \<Longrightarrow> valid p \<Longrightarrow> buffer_ok (b_push bo p b) \<and> contents (b_push bo p b) = contents b @ [p]"
    and push_n: "buffer_ok b \<Longrightarrow> valid p \<Longrightarrow> length (contents b) \<le> m \<Longrightarrow>
      \<exists>b'. b_push_n bo m n p b = (min n (m - length (contents b)), b') \<and> buffer_ok b' \<and>
        contents b' = contents b @ replicate (min n (m - length (contents b))) p"
    and front: "buffer_ok b \<Longrightarrow> contents b = p # ps \<Longrightarrow> b_front bo b = Inr p"
    and pop: "buffer_ok b \<Longrightarrow> contents b = p # ps \<Longrightarrow> \<exists>b'. b_pop bo b = Inr b' \<and> buffer_ok b' \<and> contents b' = ps"

locale clearing_buffer = channel_buffer +
  assumes clear: "buffer_ok b \<Longrightarrow> buffer_ok (b_clear bo b) \<and> contents (b_clear bo b) = []"

section \<open>The buffers keep it\<close>

lemma deque_push_n_effect:
  "length b \<le> m \<Longrightarrow> deque_push_n m n p b = (min n (m - length b), b @ replicate (min n (m - length b)) p)"
proof (induction n arbitrary: b)
  case (Suc n)
  show ?case
  proof (cases "length b < m")
    case True
    then have "m - length b = Suc (m - Suc (length b))" by simp
    then show ?thesis using Suc True by simp
  qed (use Suc.prems in simp)
qed simp

interpretation deque: clearing_buffer deque_ops "\<lambda>b. b" "\<lambda>_. True" "\<lambda>_. True"
  by unfold_locales (auto simp: deque_ops_def deque_push_n_effect deque_front_def deque_pop_def)

lemma replicate_is_Cons: "replicate n x = p # ps \<longleftrightarrow> (\<exists>k. n = Suc k \<and> p = x \<and> ps = replicate k x)"
  by (cases n) auto

interpretation void: clearing_buffer "void_ops message" "\<lambda>n. replicate n message" "\<lambda>_. True" "\<lambda>p. p = message"
  for message
  by unfold_locales
    (auto simp: void_ops_def void_push_n_def dec_size_def Let_def min_def replicate_add [symmetric] replicate_append_same
      replicate_is_Cons)

text \<open>The groups of an error buffer: none is empty but the first, and that one only when it stands alone.\<close>

definition expand :: "('v \<times> nat) list \<Rightarrow> 'v list" where
  "expand gs = concat (map (\<lambda>(v, n). replicate n v) gs)"

definition error_contents :: "'v error_buffer \<Rightarrow> 'v list" where
  "error_contents b = expand (eb_first b # eb_rest b)"

definition error_buffer_ok :: "'v error_buffer \<Rightarrow> bool" where
  "error_buffer_ok b \<longleftrightarrow> eb_size b = length (error_contents b) \<and> (\<forall>g \<in> set (eb_rest b). 0 < snd g) \<and>
     (snd (eb_first b) = 0 \<longrightarrow> eb_rest b = [])"

lemma expand_simps [simp]: "expand [] = []" "expand (g # gs) = replicate (snd g) (fst g) @ expand gs"
  "expand (gs @ hs) = expand gs @ expand hs"
  by (auto simp: expand_def split: prod.splits)

lemma error_push_count_effect:
  assumes "error_buffer_ok b" and "0 < n"
  shows "error_buffer_ok (error_push_count n p b) \<and> error_contents (error_push_count n p b) = error_contents b @ replicate n p"
proof (cases "eb_rest b" rule: rev_cases)
  case Nil
  then show ?thesis using assms
    by (auto simp: error_push_count_def error_buffer_ok_def error_contents_def Let_def replicate_add)
next
  case (snoc gs g)
  then show ?thesis using assms
    by (cases g) (auto simp: error_push_count_def error_buffer_ok_def error_contents_def Let_def replicate_add)
qed

lemma error_pop_effect:
  assumes "error_buffer_ok b" and "error_contents b = p # ps"
  shows "fst (eb_first b) = p \<and> (\<exists>b'. error_pop b = Inr b' \<and> error_buffer_ok b' \<and> error_contents b' = ps)"
proof -
  obtain v n where f: "eb_first b = (v, Suc n)" "v = p" "replicate n v @ expand (eb_rest b) = ps"
    using assms by (cases "eb_first b"; cases "snd (eb_first b)") (auto simp: error_buffer_ok_def error_contents_def)
  then show ?thesis using assms
    by (cases "eb_rest b") (auto simp: error_pop_def error_buffer_ok_def error_contents_def dec_size_def Let_def)
qed

lemma error_buffer_ops:
  "b_empty (error_ops v0) = \<lparr>eb_size = 0, eb_first = (v0, 0), eb_rest = []\<rparr>" "b_size (error_ops v0) = eb_size"
  "b_push (error_ops v0) = error_push_count 1" "b_push_n (error_ops v0) = error_push_n"
  "b_front (error_ops v0) b = Inr (fst (eb_first b))" "b_pop (error_ops v0) = error_pop"
  by (auto simp: error_ops_def error_push_def fun_eq_iff)

lemma error_empty:
  "error_buffer_ok \<lparr>eb_size = 0, eb_first = (v0, 0), eb_rest = []\<rparr>" "error_contents \<lparr>eb_size = 0, eb_first = (v0, 0), eb_rest = []\<rparr> = []"
  by (simp_all add: error_buffer_ok_def error_contents_def)

lemma error_size: "error_buffer_ok b \<Longrightarrow> eb_size b = length (error_contents b)"
  by (simp add: error_buffer_ok_def)

lemma error_push_n_effect:
  assumes "error_buffer_ok b" and "k = min n (m - length (error_contents b))"
  shows "error_push_n m n p b = (k, if k > 0 then error_push_count k p b else b)"
  using assms(2) by (simp add: error_push_n_def error_size [OF assms(1)] min_def Let_def)

interpretation error: channel_buffer "error_ops v0" error_contents error_buffer_ok "\<lambda>_. True"
  for v0
proof (unfold_locales, unfold error_buffer_ops)
  fix b :: "'a error_buffer" and m n p
  assume ok: "error_buffer_ok b"
  let ?k = "min n (m - length (error_contents b))"
  show "\<exists>b'. error_push_n m n p b = (?k, b') \<and> error_buffer_ok b' \<and> error_contents b' = error_contents b @ replicate ?k p"
    using ok error_push_count_effect [OF ok, of ?k p] by (cases "?k > 0") (auto simp: error_push_n_effect [OF ok refl])
next
  fix b :: "'a error_buffer" and p
  assume "error_buffer_ok b"
  then show "error_buffer_ok (error_push_count 1 p b) \<and> error_contents (error_push_count 1 p b) = error_contents b @ [p]"
    using error_push_count_effect [of b 1 p] by simp
next
  fix b :: "'a error_buffer" and p ps
  assume b: "error_buffer_ok b" "error_contents b = p # ps"
  show "Inr (fst (eb_first b)) = Inr p" using error_pop_effect [OF b] by simp
  show "\<exists>b'. error_pop b = Inr b' \<and> error_buffer_ok b' \<and> error_contents b' = ps" using error_pop_effect [OF b] by simp
qed (simp_all add: error_empty error_size)

section \<open>The specification\<close>

text \<open>
  A queue of at most \<open>sp_capacity\<close> messages, the senders that wait for room in it and the receivers that wait
  for a message. \<open>sp_done\<close> is the same record as \<open>ch_done\<close>.
\<close>

record 'p chan_spec =
  sp_capacity :: nat
  sp_queue :: "'p list"
  sp_senders :: "(nat \<times> nat \<times> 'p) list"
  sp_receivers :: "(nat \<times> nat) list"
  sp_closed :: bool
  sp_done :: "'p completion list"

definition spec_init :: "nat \<Rightarrow> 'p chan_spec" where
  "spec_init n = \<lparr>sp_capacity = n, sp_queue = [], sp_senders = [], sp_receivers = [], sp_closed = False, sp_done = []\<rparr>"

definition spec_report :: "'p completion list \<Rightarrow> 'p chan_spec \<Rightarrow> 'p chan_spec" where
  "spec_report ds sp = sp\<lparr>sp_done := sp_done sp @ ds\<rparr>"

text \<open>The first \<open>n\<close> receivers get a message each.\<close>

definition spec_deliver :: "nat \<Rightarrow> op_action \<Rightarrow> 'p \<Rightarrow> 'p chan_spec \<Rightarrow> 'p chan_spec" where
  "spec_deliver n a p sp =
     spec_report (map (\<lambda>(i, k). receive_do_action i a p) (take n (sp_receivers sp))) (sp\<lparr>sp_receivers := drop n (sp_receivers sp)\<rparr>)"

definition spec_room :: "'p chan_spec \<Rightarrow> nat" where
  "spec_room sp = sp_capacity sp - length (sp_queue sp)"

text \<open>A number of equal messages are sent at once, to the receivers first and then into the queue.\<close>

definition spec_send :: "op_action \<Rightarrow> nat \<Rightarrow> 'p \<Rightarrow> 'p chan_spec \<Rightarrow> nat \<times> 'p chan_spec" where
  "spec_send a n p sp =
     (if sp_closed sp then (0, sp)
      else
        let d = min n (length (sp_receivers sp)); k = min (n - d) (spec_room sp)
        in (d + k, spec_deliver d a p (sp\<lparr>sp_queue := sp_queue sp @ replicate k p\<rparr>)))"

definition spec_async_send :: "nat \<Rightarrow> nat \<Rightarrow> 'p \<Rightarrow> 'p chan_spec \<Rightarrow> 'p chan_spec" where
  "spec_async_send i key p sp =
     (if sp_closed sp then spec_report [send_do_action i Close_op] sp
      else
        let (n, sp1) = spec_send Post_op 1 p sp
        in if n = 1 then spec_report [send_do_action i Immediate_op] sp1
           else sp\<lparr>sp_senders := sp_senders sp @ [(i, key, p)]\<rparr>)"

text \<open>
  A message is taken from the queue, and a sender that waits gets the place; from a sender directly only
  when there is no queue, and not after the close.
\<close>

definition spec_take :: "'p chan_spec \<Rightarrow> ('p \<times> 'p chan_spec) option" where
  "spec_take sp =
     (case (sp_queue sp, sp_senders sp) of
        (p # ps, (i, k, q) # ss) \<Rightarrow>
          Some (p, spec_report [send_do_action i Post_op] (sp\<lparr>sp_queue := ps @ [q], sp_senders := ss\<rparr>))
      | (p # ps, []) \<Rightarrow> Some (p, sp\<lparr>sp_queue := ps\<rparr>)
      | ([], (i, k, q) # ss) \<Rightarrow>
          if sp_closed sp then None else Some (q, spec_report [send_do_action i Post_op] (sp\<lparr>sp_senders := ss\<rparr>))
      | ([], []) \<Rightarrow> None)"

definition spec_try_receive :: "'p chan_spec \<Rightarrow> 'p option \<times> 'p chan_spec" where
  "spec_try_receive sp =
     (case spec_take sp of None \<Rightarrow> (None, sp) | Some (p, sp1) \<Rightarrow> (Some p, spec_report [Handler_called p] sp1))"

definition spec_async_receive :: "'p channel_traits \<Rightarrow> nat \<Rightarrow> nat \<Rightarrow> 'p chan_spec \<Rightarrow> 'p chan_spec" where
  "spec_async_receive tr i key sp =
     (case spec_take sp of
        Some (p, sp1) \<Rightarrow> spec_report [receive_do_action i Immediate_op p] sp1
      | None \<Rightarrow>
          if sp_closed sp then spec_report [receive_do_action i Post_op (tr_closed tr)] sp
          else sp\<lparr>sp_receivers := sp_receivers sp @ [(i, key)]\<rparr>)"

text \<open>The senders that wait stay; their cancellation afterwards is undefined.\<close>

definition spec_close :: "'p channel_traits \<Rightarrow> 'p chan_spec \<Rightarrow> 'p chan_spec" where
  "spec_close tr sp = spec_deliver (length (sp_receivers sp)) Post_op (tr_closed tr) (sp\<lparr>sp_closed := True\<rparr>)"

definition spec_cancel_if :: "(nat \<Rightarrow> bool) \<Rightarrow> 'p channel_traits \<Rightarrow> 'p chan_spec \<Rightarrow> fault + 'p chan_spec" where
  "spec_cancel_if hit tr sp =
     (let ss = filter (\<lambda>(i, k, q). hit k) (sp_senders sp); rs = filter (\<lambda>(i, k). hit k) (sp_receivers sp)
      in if sp_closed sp \<and> ss \<noteq> [] then Inl BadDowncast
         else Inr (spec_report (map (\<lambda>(i, k, q). send_do_action i Cancel_op) ss @
                     map (\<lambda>(i, k). receive_do_action i Post_op (tr_cancelled tr)) rs)
                (sp\<lparr>sp_senders := filter (\<lambda>(i, k, q). \<not> hit k) (sp_senders sp),
                    sp_receivers := filter (\<lambda>(i, k). \<not> hit k) (sp_receivers sp)\<rparr>)))"

definition spec_reset :: "'p channel_traits \<Rightarrow> 'p chan_spec \<Rightarrow> fault + 'p chan_spec" where
  "spec_reset tr sp = map_res (\<lambda>sp1. sp1\<lparr>sp_queue := [], sp_closed := False\<rparr>) (spec_cancel_if (\<lambda>_. True) tr sp)"

section \<open>Runs\<close>

datatype 'p chan_event =
    Try_send bool 'p
  | Try_send_n bool nat 'p
  | Async_send nat nat 'p
  | Try_receive
  | Async_receive nat nat
  | Close_channel
  | Cancel_channel
  | Cancel_key nat
  | Reset_channel

datatype 'p chan_result = R_count nat | R_message "'p option" | R_none

fun chan_step :: "('p, 'b) buffer_ops \<Rightarrow> 'p channel_traits \<Rightarrow> 'p chan_event \<Rightarrow> ('p, 'b) channel \<Rightarrow>
    fault + 'p chan_result \<times> ('p, 'b) channel" where
  "chan_step bo tr (Try_send d p) c = map_res (\<lambda>(ok, c1). (R_count (if ok then 1 else 0), c1)) (try_send bo d p c)"
| "chan_step bo tr (Try_send_n d n p) c = map_res (\<lambda>(k, c1). (R_count k, c1)) (try_send_n bo d n p c)"
| "chan_step bo tr (Async_send i key p) c = map_res (Pair R_none) (start_chan_send bo i key p c)"
| "chan_step bo tr Try_receive c = map_res (\<lambda>(m, c1). (R_message m, c1)) (try_receive bo c)"
| "chan_step bo tr (Async_receive i key) c = map_res (Pair R_none) (start_chan_receive bo tr i key c)"
| "chan_step bo tr Close_channel c = map_res (Pair R_none) (chan_close tr c)"
| "chan_step bo tr Cancel_channel c = map_res (Pair R_none) (chan_cancel tr c)"
| "chan_step bo tr (Cancel_key key) c = map_res (Pair R_none) (chan_cancel_by_key tr key c)"
| "chan_step bo tr Reset_channel c = map_res (Pair R_none) (chan_reset bo tr c)"

fun spec_step :: "'p channel_traits \<Rightarrow> 'p chan_event \<Rightarrow> 'p chan_spec \<Rightarrow> fault + 'p chan_result \<times> 'p chan_spec" where
  "spec_step tr (Try_send d p) sp = (let (k, sp1) = spec_send (send_action d) 1 p sp in Inr (R_count k, sp1))"
| "spec_step tr (Try_send_n d n p) sp = (let (k, sp1) = spec_send (send_action d) n p sp in Inr (R_count k, sp1))"
| "spec_step tr (Async_send i key p) sp = Inr (R_none, spec_async_send i key p sp)"
| "spec_step tr Try_receive sp = (let (m, sp1) = spec_try_receive sp in Inr (R_message m, sp1))"
| "spec_step tr (Async_receive i key) sp = Inr (R_none, spec_async_receive tr i key sp)"
| "spec_step tr Close_channel sp = Inr (R_none, spec_close tr sp)"
| "spec_step tr Cancel_channel sp = map_res (Pair R_none) (spec_cancel_if (\<lambda>_. True) tr sp)"
| "spec_step tr (Cancel_key key) sp = map_res (Pair R_none) (spec_cancel_if (\<lambda>k. k = key) tr sp)"
| "spec_step tr Reset_channel sp = map_res (Pair R_none) (spec_reset tr sp)"

text \<open>A run stops at an undefined step.\<close>

fun run_res :: "('e \<Rightarrow> 's \<Rightarrow> fault + 'r \<times> 's) \<Rightarrow> 'e list \<Rightarrow> 's \<Rightarrow> fault + 'r list \<times> 's" where
  "run_res step [] s = Inr ([], s)"
| "run_res step (e # es) s =
     bind_res (step e s) (\<lambda>(r, s1). map_res (\<lambda>(rs, s2). (r # rs, s2)) (run_res step es s1))"

section \<open>The states of the two ends\<close>

definition spec_ok :: "'p chan_spec \<Rightarrow> bool" where
  "spec_ok sp \<longleftrightarrow> length (sp_queue sp) \<le> sp_capacity sp \<and>
     (sp_receivers sp \<noteq> [] \<longrightarrow> sp_queue sp = [] \<and> sp_senders sp = [] \<and> \<not> sp_closed sp) \<and>
     (sp_senders sp \<noteq> [] \<longrightarrow> length (sp_queue sp) = sp_capacity sp)"

definition receive_state_of :: "'p chan_spec \<Rightarrow> chan_state" where
  "receive_state_of sp =
     (if sp_queue sp \<noteq> [] then Ch_buffer else if sp_closed sp then Ch_closed
      else if sp_senders sp \<noteq> [] then Ch_waiter else Ch_block)"

definition send_state_of :: "'p chan_spec \<Rightarrow> chan_state" where
  "send_state_of sp =
     (if sp_closed sp then Ch_closed else if sp_receivers sp \<noteq> [] then Ch_waiter
      else if length (sp_queue sp) < sp_capacity sp then Ch_buffer else Ch_block)"

definition waiters_of :: "'p chan_spec \<Rightarrow> 'p channel_operation list" where
  "waiters_of sp = map (\<lambda>(i, k, p). Chan_send i k p) (sp_senders sp) @ map (\<lambda>(i, k). Chan_receive i k) (sp_receivers sp)"

text \<open>What a step that answers a step of the specification has as result.\<close>

definition answers :: "('s \<Rightarrow> 't \<Rightarrow> bool) \<Rightarrow> fault + 'r \<times> 's \<Rightarrow> fault + 'r \<times> 't \<Rightarrow> bool" where
  "answers R x y \<longleftrightarrow> (case y of Inl f \<Rightarrow> x = Inl f | Inr (r, t) \<Rightarrow> \<exists>s. x = Inr (r, s) \<and> R s t)"

lemma answersI: "x = Inr (r, s) \<Longrightarrow> R s t \<Longrightarrow> y = Inr (r, t) \<Longrightarrow> answers R x y"
  by (simp add: answers_def)

lemma run_res_answers:
  assumes "\<And>e s t. e \<in> set es \<Longrightarrow> R s t \<Longrightarrow> answers R (f e s) (g e t)" and "R s t"
  shows "answers R (run_res f es s) (run_res g es t)"
  using assms
proof (induction es arbitrary: s t)
  case (Cons e es)
  have "answers R (f e s) (g e t)" using Cons.prems by simp
  then show ?case
  proof (cases "g e t")
    case (Inr y)
    then obtain r t' s' where "g e t = Inr (r, t')" "f e s = Inr (r, s')" "R s' t'"
      using \<open>answers R (f e s) (g e t)\<close> by (cases y) (auto simp: answers_def)
    moreover have "answers R (run_res f es s') (run_res g es t')" using Cons.prems \<open>R s' t'\<close> by (intro Cons.IH) simp_all
    ultimately show ?thesis by (auto simp: answers_def split: sum.splits)
  qed (simp add: answers_def)
qed (simp add: answers_def)

end
