(* ===== verification/Asio_Channel_Runs.thy ===== *)
theory Asio_Channel_Runs
  imports Asio_Channel_Facts
begin

text \<open>
  The refinement of the specification of channels, step by step and for all runs, and what follows from
  it: messages arrive in order, and which calls are undefined.
\<close>

section \<open>The relation\<close>

definition chan_rel :: "('b \<Rightarrow> 'p list) \<Rightarrow> ('b \<Rightarrow> bool) \<Rightarrow> ('p, 'b) channel \<Rightarrow> 'p chan_spec \<Rightarrow> bool" where
  "chan_rel contents ok c sp \<longleftrightarrow> spec_ok sp \<and> ok (ch_buffer c) \<and> contents (ch_buffer c) = sp_queue sp \<and>
     ch_waiters c = waiters_of sp \<and> ch_max_buffer_size c = sp_capacity sp \<and> ch_done c = sp_done sp \<and>
     ch_receive_state c = receive_state_of sp \<and> ch_send_state c = send_state_of sp"

lemmas chan_rel_defs = chan_rel_def spec_ok_def receive_state_of_def send_state_of_def waiters_of_def
lemmas spec_defs = spec_report_def spec_deliver_def spec_room_def spec_send_def

lemma end_ops [simp]:
  "end_send a (Chan_send i k p) c = Inr (report (send_do_action i a) c)"
  "end_receive a q (Chan_receive i k) c = Inr (report (receive_do_action i a q) c)"
  "end_receive a q (Chan_send i k p) c = Inl BadDowncast"
  "get_payload (Chan_send i k p) = Inr p"
  by (simp_all add: end_send_def end_receive_def get_payload_def)

lemma report_simps [simp]:
  "ch_done (report d c) = ch_done c @ [d]" "ch_waiters (report d c) = ch_waiters c" "ch_buffer (report d c) = ch_buffer c"
  "ch_send_state (report d c) = ch_send_state c" "ch_receive_state (report d c) = ch_receive_state c"
  "ch_max_buffer_size (report d c) = ch_max_buffer_size c"
  by (simp_all add: report_def)

lemma rel_report: "chan_rel contents ok c sp \<Longrightarrow> chan_rel contents ok (report d c) (spec_report [d] sp)"
  by (simp add: chan_rel_defs spec_report_def)

text \<open>The state of an end tells the case.\<close>

lemma send_state_cases:
  assumes "chan_rel contents ok c sp"
  shows "ch_send_state c = Ch_closed \<longleftrightarrow> sp_closed sp"
    "ch_send_state c = Ch_waiter \<longleftrightarrow> \<not> sp_closed sp \<and> sp_receivers sp \<noteq> []"
    "ch_send_state c = Ch_buffer \<longleftrightarrow> \<not> sp_closed sp \<and> sp_receivers sp = [] \<and> length (sp_queue sp) < sp_capacity sp"
    "ch_send_state c = Ch_block \<longleftrightarrow> \<not> sp_closed sp \<and> sp_receivers sp = [] \<and> length (sp_queue sp) = sp_capacity sp"
  using assms by (auto simp: chan_rel_defs)

context channel_buffer
begin

lemma rel_init: "chan_rel contents buffer_ok (chan_construct bo n) (spec_init n)"
  using empty by (simp add: chan_rel_defs chan_construct_def spec_init_def idle_send_state_def)

lemma rel_send_to_buffer:
  assumes "chan_rel contents buffer_ok c sp" and "ch_send_state c = Ch_buffer" and "valid p"
  shows "chan_rel contents buffer_ok (send_to_buffer bo p c) (sp\<lparr>sp_queue := sp_queue sp @ [p]\<rparr>)"
proof -
  have b: "buffer_ok (b_push bo p (ch_buffer c))" "contents (b_push bo p (ch_buffer c)) = sp_queue sp @ [p]"
    using push [of "ch_buffer c" p] assms by (simp_all add: chan_rel_def)
  then have "b_size bo (b_push bo p (ch_buffer c)) = Suc (length (sp_queue sp))" using size by simp
  then show ?thesis using assms b send_state_cases [OF assms(1)]
    by (auto simp: chan_rel_defs send_to_buffer_def Let_def)
qed

lemma rel_send_to_waiter:
  assumes "chan_rel contents buffer_ok c sp" and "ch_send_state c = Ch_waiter"
  shows "\<exists>c'. send_to_waiter a p c = Inr c' \<and> chan_rel contents buffer_ok c' (spec_deliver 1 a p sp)"
proof -
  obtain i k rs where r: "sp_receivers sp = (i, k) # rs" "\<not> sp_closed sp" "sp_queue sp = []" "sp_senders sp = []"
    using assms send_state_cases(2) [OF assms(1)] by (cases "sp_receivers sp") (auto simp: chan_rel_defs)
  then show ?thesis using assms
    by (auto simp: send_to_waiter_def first_waiter_def pop_waiter_def chan_rel_defs spec_defs idle_send_state_def Let_def)
qed

text \<open>One message, sent by \<open>try_send\<close> or by an operation.\<close>

lemma spec_send_one:
  "spec_ok sp \<Longrightarrow> spec_send a (Suc 0) p sp =
     (if sp_closed sp then (0, sp)
      else if sp_receivers sp \<noteq> [] then (1, spec_deliver (Suc 0) a p sp)
      else if length (sp_queue sp) < sp_capacity sp then (1, sp\<lparr>sp_queue := sp_queue sp @ [p]\<rparr>) else (0, sp))"
  by (cases "sp_receivers sp") (auto simp: spec_defs spec_ok_def Let_def min_def)

lemma refine_try_send:
  assumes "chan_rel contents buffer_ok c sp" and "valid p"
  shows "answers (chan_rel contents buffer_ok) (chan_step bo tr (Try_send d p) c) (spec_step tr (Try_send d p) sp)"
proof -
  have ok: "spec_ok sp" using assms(1) by (simp add: chan_rel_def)
  note st = send_state_cases [OF assms(1)]
  show ?thesis
  proof (cases "ch_send_state c")
    case Ch_buffer
    then show ?thesis using rel_send_to_buffer [OF assms(1) Ch_buffer assms(2)] st
      by (simp add: answers_def try_send_def spec_send_one [OF ok])
  next
    case Ch_waiter
    then show ?thesis using rel_send_to_waiter [OF assms(1) Ch_waiter, of "send_action d" p] st
      by (auto simp: answers_def try_send_def spec_send_one [OF ok])
  qed (use st assms(1) in \<open>simp_all add: answers_def try_send_def spec_send_one [OF ok]\<close>)
qed

lemma refine_async_send:
  assumes "chan_rel contents buffer_ok c sp" and "valid p"
  shows "answers (chan_rel contents buffer_ok) (chan_step bo tr (Async_send i key p) c) (spec_step tr (Async_send i key p) sp)"
proof -
  have ok: "spec_ok sp" using assms(1) by (simp add: chan_rel_def)
  note st = send_state_cases [OF assms(1)]
  show ?thesis
  proof (cases "ch_send_state c")
    case Ch_buffer
    then show ?thesis using rel_report [OF rel_send_to_buffer [OF assms(1) Ch_buffer assms(2)]] st
      by (simp add: answers_def start_chan_send_def spec_async_send_def spec_send_one [OF ok])
  next
    case Ch_waiter
    then show ?thesis using rel_send_to_waiter [OF assms(1) Ch_waiter, of Post_op p] rel_report st
      by (fastforce simp: answers_def start_chan_send_def spec_async_send_def spec_send_one [OF ok])
  next
    case Ch_block
    then show ?thesis using st assms(1)
      by (auto simp: answers_def start_chan_send_def spec_async_send_def spec_send_one [OF ok] chan_rel_defs Let_def)
  next
    case Ch_closed
    then show ?thesis using st rel_report [OF assms(1)]
      by (simp add: answers_def start_chan_send_def spec_async_send_def)
  qed
qed

text \<open>Several messages.\<close>

lemma spec_send_waiter:
  assumes "spec_ok sp" and "\<not> sp_closed sp" and "sp_receivers sp \<noteq> []"
  shows "spec_send a (Suc n) p sp = (let (k, sp1) = spec_send a n p (spec_deliver 1 a p sp) in (Suc k, sp1))"
proof -
  obtain i k rs where "sp_receivers sp = (i, k) # rs" using assms(3) by (cases "sp_receivers sp") auto
  then show ?thesis using assms by (simp add: spec_defs spec_ok_def Let_def)
qed

lemma refine_send_n_loop:
  "chan_rel contents buffer_ok c sp \<Longrightarrow> valid p \<Longrightarrow>
   \<exists>c'. try_send_n_loop bo d p i n c = Inr (i + fst (spec_send (send_action d) n p sp), c') \<and>
     chan_rel contents buffer_ok c' (snd (spec_send (send_action d) n p sp))"
proof (induction n arbitrary: i c sp)
  case 0
  then show ?case by (simp add: spec_defs Let_def)
next
  case (Suc n)
  have ok: "spec_ok sp" using Suc.prems(1) by (simp add: chan_rel_def)
  note st = send_state_cases [OF Suc.prems(1)]
  show ?case
  proof (cases "ch_send_state c")
    case Ch_buffer
    then have r: "\<not> sp_closed sp" "sp_receivers sp = []" "length (sp_queue sp) < sp_capacity sp" using st by simp_all
    let ?k = "min (Suc n) (spec_room sp)"
    have "buffer_ok (ch_buffer c)" "contents (ch_buffer c) = sp_queue sp" "ch_max_buffer_size c = sp_capacity sp"
      using Suc.prems(1) by (simp_all add: chan_rel_def)
    then obtain b' where b: "b_push_n bo (ch_max_buffer_size c) (Suc n) p (ch_buffer c) = (?k, b')" "buffer_ok b'"
      "contents b' = sp_queue sp @ replicate ?k p"
      using push_n [of "ch_buffer c" p "sp_capacity sp" "Suc n"] Suc.prems(2) r(3) by (auto simp: spec_room_def)
    have s: "spec_send (send_action d) (Suc n) p sp = (?k, sp\<lparr>sp_queue := sp_queue sp @ replicate ?k p\<rparr>)"
      using r by (simp add: spec_send_def spec_deliver_def spec_report_def Let_def spec_room_def)
    have "0 < ?k" "length (sp_queue sp) + ?k \<le> sp_capacity sp" using r(3) by (simp_all add: spec_room_def)
    then show ?thesis using Ch_buffer Suc.prems(1) r b size [OF b(2)]
      by (auto simp: s chan_rel_defs Let_def)
  next
    case Ch_waiter
    obtain c1 where c1: "send_to_waiter (send_action d) p c = Inr c1" "chan_rel contents buffer_ok c1 (spec_deliver 1 (send_action d) p sp)"
      using rel_send_to_waiter [OF Suc.prems(1) Ch_waiter] by blast
    have "\<not> sp_closed sp" "sp_receivers sp \<noteq> []" using st Ch_waiter by simp_all
    note s = spec_send_waiter [OF ok this, of "send_action d" n p]
    show ?thesis using Suc.IH [OF c1(2) Suc.prems(2), of "i + 1"] Ch_waiter c1(1) by (auto simp: s case_prod_beta Let_def)
  qed (use st Suc.prems(1) in \<open>auto simp: spec_defs chan_rel_defs Let_def\<close>)
qed

lemma refine_try_send_n:
  assumes "chan_rel contents buffer_ok c sp" and "valid p"
  shows "answers (chan_rel contents buffer_ok) (chan_step bo tr (Try_send_n d n p) c) (spec_step tr (Try_send_n d n p) sp)"
proof -
  have "\<exists>c'. try_send_n bo d n p c = Inr (fst (spec_send (send_action d) n p sp), c') \<and>
      chan_rel contents buffer_ok c' (snd (spec_send (send_action d) n p sp))"
  proof (cases "n = 0 \<or> ch_send_state c \<in> {Ch_block, Ch_closed}")
    case True
    then have "spec_send (send_action d) n p sp = (0, sp)"
      using send_state_cases [OF assms(1)] assms(1) by (auto simp: spec_defs chan_rel_def spec_ok_def Let_def)
    then show ?thesis using True assms(1) by (auto simp: try_send_n_def)
  next
    case False
    then have "try_send_n bo d n p c = try_send_n_loop bo d p 0 n c"
      by (cases "ch_send_state c") (simp_all add: try_send_n_def)
    then show ?thesis using refine_send_n_loop [OF assms, of d 0 n] by simp
  qed
  then show ?thesis by (auto simp: answers_def case_prod_beta Let_def)
qed

text \<open>Taking a message.\<close>

lemma rel_receive_from_buffer:
  assumes "chan_rel contents buffer_ok c sp" and "ch_receive_state c = Ch_buffer" and "\<forall>x \<in> set (sp_senders sp). valid (snd (snd x))"
  shows "\<exists>p c' sp'. spec_take sp = Some (p, sp') \<and> receive_from_buffer bo c = Inr (p, c') \<and> chan_rel contents buffer_ok c' sp'"
proof -
  have q: "sp_queue sp \<noteq> []" using assms(1,2) by (auto simp: chan_rel_defs split: if_splits)
  then obtain p ps where pps: "sp_queue sp = p # ps" by (cases "sp_queue sp") auto
  have ok: "buffer_ok (ch_buffer c)" "contents (ch_buffer c) = p # ps" using assms(1) pps by (simp_all add: chan_rel_def)
  obtain b where b: "b_pop bo (ch_buffer c) = Inr b" "buffer_ok b" "contents b = ps" using pop [OF ok] by blast
  note f = front [OF ok]
  show ?thesis
  proof (cases "sp_senders sp")
    case Nil
    then show ?thesis using assms(1) pps f b size [OF b(2)]
      by (auto simp: receive_from_buffer_def spec_take_def chan_rel_defs Let_def)
  next
    case (Cons x ss)
    obtain i k r where x: "x = (i, k, r)" by (cases x)
    have "buffer_ok (b_push bo r b)" "contents (b_push bo r b) = ps @ [r]"
      using push [OF b(2), of r] assms(3) Cons x b(3) by simp_all
    then show ?thesis using assms(1) pps f b(1) Cons x
      by (auto simp: receive_from_buffer_def spec_take_def chan_rel_defs spec_report_def pop_waiter_def Let_def)
  qed
qed

lemma rel_receive_from_waiter:
  assumes "chan_rel contents buffer_ok c sp" and "ch_receive_state c = Ch_waiter"
  shows "\<exists>p c' sp'. spec_take sp = Some (p, sp') \<and> receive_from_waiter c = Inr (p, c') \<and> chan_rel contents buffer_ok c' sp'"
proof -
  have q: "sp_queue sp = []" "\<not> sp_closed sp" "sp_senders sp \<noteq> []"
    using assms(1,2) by (auto simp: chan_rel_defs split: if_splits)
  then obtain i k p ss where "sp_senders sp = (i, k, p) # ss" by (cases "sp_senders sp") auto
  then show ?thesis using assms(1) q
    by (auto simp: receive_from_waiter_def first_waiter_def pop_waiter_def spec_take_def chan_rel_defs spec_report_def Let_def)
qed

lemma receive_state_cases:
  assumes "chan_rel contents buffer_ok c sp"
  shows "ch_receive_state c = Ch_block \<Longrightarrow> spec_take sp = None \<and> \<not> sp_closed sp \<and> sp_queue sp = [] \<and> sp_senders sp = []"
    "ch_receive_state c = Ch_closed \<Longrightarrow> spec_take sp = None \<and> sp_closed sp"
  using assms by (auto simp: chan_rel_defs spec_take_def split: if_splits list.splits)

lemma refine_try_receive:
  assumes "chan_rel contents buffer_ok c sp" and "\<forall>x \<in> set (sp_senders sp). valid (snd (snd x))"
  shows "answers (chan_rel contents buffer_ok) (chan_step bo tr Try_receive c) (spec_step tr Try_receive sp)"
proof (cases "ch_receive_state c")
  case Ch_buffer
  then obtain p c' sp' where "spec_take sp = Some (p, sp')" "receive_from_buffer bo c = Inr (p, c')" "chan_rel contents buffer_ok c' sp'"
    using rel_receive_from_buffer [OF assms(1) Ch_buffer assms(2)] by blast
  then show ?thesis using Ch_buffer by (simp add: answers_def try_receive_def spec_try_receive_def call_handler_def rel_report)
next
  case Ch_waiter
  then obtain p c' sp' where "spec_take sp = Some (p, sp')" "receive_from_waiter c = Inr (p, c')" "chan_rel contents buffer_ok c' sp'"
    using rel_receive_from_waiter [OF assms(1) Ch_waiter] by blast
  then show ?thesis using Ch_waiter by (simp add: answers_def try_receive_def spec_try_receive_def call_handler_def rel_report)
qed (use receive_state_cases [OF assms(1)] assms(1) in \<open>simp_all add: answers_def try_receive_def spec_try_receive_def\<close>)

lemma refine_async_receive:
  assumes "chan_rel contents buffer_ok c sp" and "\<forall>x \<in> set (sp_senders sp). valid (snd (snd x))"
  shows "answers (chan_rel contents buffer_ok) (chan_step bo tr (Async_receive i key) c) (spec_step tr (Async_receive i key) sp)"
proof (cases "ch_receive_state c")
  case Ch_buffer
  then obtain p c' sp' where "spec_take sp = Some (p, sp')" "receive_from_buffer bo c = Inr (p, c')" "chan_rel contents buffer_ok c' sp'"
    using rel_receive_from_buffer [OF assms(1) Ch_buffer assms(2)] by blast
  then show ?thesis using Ch_buffer by (simp add: answers_def start_chan_receive_def spec_async_receive_def rel_report)
next
  case Ch_waiter
  then obtain p c' sp' where "spec_take sp = Some (p, sp')" "receive_from_waiter c = Inr (p, c')" "chan_rel contents buffer_ok c' sp'"
    using rel_receive_from_waiter [OF assms(1) Ch_waiter] by blast
  then show ?thesis using Ch_waiter by (simp add: answers_def start_chan_receive_def spec_async_receive_def rel_report)
next
  case Ch_block
  then show ?thesis using receive_state_cases(1) [OF assms(1) Ch_block] assms(1)
    by (auto simp: answers_def start_chan_receive_def spec_async_receive_def chan_rel_defs Let_def)
next
  case Ch_closed
  then show ?thesis using receive_state_cases(2) [OF assms(1) Ch_closed] assms(1)
    by (simp add: answers_def start_chan_receive_def spec_async_receive_def rel_report)
qed

end

section \<open>Closing and cancelling\<close>

lemma close_loop_effect:
  "close_loop tr (map (\<lambda>(i, k). Chan_receive i k) rs) c =
     Inr (c\<lparr>ch_waiters := if rs = [] then ch_waiters c else [],
            ch_done := ch_done c @ map (\<lambda>(i, k). receive_do_action i Post_op (tr_closed tr)) rs\<rparr>)"
  by (induction rs arbitrary: c) (auto simp: report_def)

text \<open>Whether a cancellation casts an operation to its class, and how the operation ends.\<close>

definition castable :: "('p, 'b) channel \<Rightarrow> 'p channel_operation \<Rightarrow> bool" where
  "castable c op \<longleftrightarrow> (case op of Chan_send i k p \<Rightarrow> ch_send_state c = Ch_block | Chan_receive i k \<Rightarrow> ch_send_state c \<noteq> Ch_block)"

definition cancelled :: "'p channel_traits \<Rightarrow> 'p channel_operation \<Rightarrow> 'p completion" where
  "cancelled tr op =
     (case op of Chan_send i k p \<Rightarrow> send_do_action i Cancel_op | Chan_receive i k \<Rightarrow> receive_do_action i Post_op (tr_cancelled tr))"

lemma cancel_waiter_eq: "cancel_waiter tr op c = (if castable c op then Inr (report (cancelled tr op) c) else Inl BadDowncast)"
  by (auto simp: cancel_waiter_def castable_def cancelled_def end_send_def end_receive_def split: channel_operation.splits)

lemma castable_cong [simp]: "castable (c\<lparr>ch_waiters := ops\<rparr>) = castable c" "castable (c\<lparr>ch_done := ds\<rparr>) = castable c"
  "castable (c\<lparr>ch_waiters := ops, ch_done := ds\<rparr>) = castable c" "castable (report d c) = castable c"
  by (auto simp: castable_def fun_eq_iff split: channel_operation.splits)

lemma cancel_loop_all:
  "chan_cancel_loop tr ops c =
     (if \<forall>op \<in> set ops. castable c op
      then Inr (c\<lparr>ch_waiters := if ops = [] then ch_waiters c else [], ch_done := ch_done c @ map (cancelled tr) ops\<rparr>)
      else Inl BadDowncast)"
  by (induction ops arbitrary: c) (auto simp: cancel_waiter_eq report_def)

lemma cancel_key_loop_all:
  "chan_cancel_key_loop tr key ops other_ops c =
     (if \<forall>op \<in> set ops. cancellation_key op = key \<longrightarrow> castable c op
      then Inr (other_ops @ filter (\<lambda>op. cancellation_key op \<noteq> key) ops,
        c\<lparr>ch_waiters := if ops = [] then ch_waiters c else [],
          ch_done := ch_done c @ map (cancelled tr) (filter (\<lambda>op. cancellation_key op = key) ops)\<rparr>)
      else Inl BadDowncast)"
  by (induction ops arbitrary: c other_ops) (auto simp: cancel_waiter_eq report_def)

text \<open>Both are the same, for all waiting operations and for those with a key.\<close>

definition cancel_where :: "(nat \<Rightarrow> bool) \<Rightarrow> 'p channel_traits \<Rightarrow> ('p, 'b) channel \<Rightarrow> fault + ('p, 'b) channel" where
  "cancel_where hit tr c =
     (let ops = filter (\<lambda>op. hit (cancellation_key op)) (ch_waiters c);
          c1 = c\<lparr>ch_waiters := filter (\<lambda>op. \<not> hit (cancellation_key op)) (ch_waiters c), ch_done := ch_done c @ map (cancelled tr) ops\<rparr>
      in if \<forall>op \<in> set ops. castable c op then Inr (if ch_waiters c1 = [] then no_waiters_left c1 else c1) else Inl BadDowncast)"

lemma chan_cancel_where: "chan_cancel tr c = cancel_where (\<lambda>_. True) tr c"
proof -
  have "c\<lparr>ch_waiters := if ch_waiters c = [] then ch_waiters c else [], ch_done := d\<rparr> = c\<lparr>ch_waiters := [], ch_done := d\<rparr>" for d
    by (cases "ch_waiters c = []") simp_all
  then show ?thesis by (simp add: chan_cancel_def cancel_where_def cancel_loop_all Let_def)
qed

lemma chan_cancel_by_key_where: "chan_cancel_by_key tr key c = cancel_where (\<lambda>k. k = key) tr c"
proof -
  have "c\<lparr>ch_waiters := (if ch_waiters c = [] then ch_waiters c else []) @ l, ch_done := d\<rparr> = c\<lparr>ch_waiters := l, ch_done := d\<rparr>" for l d
    by (cases "ch_waiters c = []") simp_all
  then show ?thesis
    by (cases c) (auto simp: chan_cancel_by_key_def cancel_where_def cancel_key_loop_all castable_def Let_def)
qed

lemma filter_waiters:
  "filter (\<lambda>op. hit (cancellation_key op)) (waiters_of sp) =
     waiters_of (sp\<lparr>sp_senders := filter (\<lambda>(i, k, q). hit k) (sp_senders sp), sp_receivers := filter (\<lambda>(i, k). hit k) (sp_receivers sp)\<rparr>)"
  by (auto simp: waiters_of_def filter_map comp_def case_prod_unfold)

lemma map_cancelled:
  "map (cancelled tr) (waiters_of sp) = map (\<lambda>(i, k, q). send_do_action i Cancel_op) (sp_senders sp) @
     map (\<lambda>(i, k). receive_do_action i Post_op (tr_cancelled tr)) (sp_receivers sp)"
  by (auto simp: waiters_of_def cancelled_def)

lemma castable_waiters:
  assumes "chan_rel contents ok c sp" and "set (sp_senders sp') \<subseteq> set (sp_senders sp)" and "set (sp_receivers sp') \<subseteq> set (sp_receivers sp)"
  shows "(\<forall>op \<in> set (waiters_of sp'). castable c op) \<longleftrightarrow> \<not> (sp_closed sp \<and> sp_senders sp' \<noteq> [])"
proof (cases "sp_senders sp' = []")
  case True
  then have "set (waiters_of sp') = (\<lambda>(i, k). Chan_receive i k) ` set (sp_receivers sp')" by (simp add: waiters_of_def)
  moreover have "sp_receivers sp' \<noteq> [] \<Longrightarrow> ch_send_state c = Ch_waiter"
    using assms by (auto simp: chan_rel_defs)
  ultimately show ?thesis using True by (cases "sp_receivers sp'") (auto simp: castable_def)
next
  case False
  then have "sp_senders sp \<noteq> []" using assms(2) by auto
  then have s: "sp_receivers sp' = []" "ch_send_state c = Ch_block \<longleftrightarrow> \<not> sp_closed sp"
    using assms(1,3) by (auto simp: chan_rel_defs)
  then have "set (waiters_of sp') = (\<lambda>(i, k, q). Chan_send i k q) ` set (sp_senders sp')" by (simp add: waiters_of_def)
  then show ?thesis using False s(2) by (cases "sp_senders sp'") (auto simp: castable_def)
qed

lemma rel_cancel_where:
  assumes "chan_rel contents ok c sp"
  shows "case spec_cancel_if hit tr sp of Inl f \<Rightarrow> cancel_where hit tr c = Inl f
    | Inr sp' \<Rightarrow> \<exists>c'. cancel_where hit tr c = Inr c' \<and> chan_rel contents ok c' sp' \<and> ch_buffer c' = ch_buffer c"
proof -
  let ?hit = "sp\<lparr>sp_senders := filter (\<lambda>(i, k, q). hit k) (sp_senders sp), sp_receivers := filter (\<lambda>(i, k). hit k) (sp_receivers sp)\<rparr>"
  let ?rest = "sp\<lparr>sp_senders := filter (\<lambda>(i, k, q). \<not> hit k) (sp_senders sp), sp_receivers := filter (\<lambda>(i, k). \<not> hit k) (sp_receivers sp)\<rparr>"
  have w: "ch_waiters c = waiters_of sp" using assms by (simp add: chan_rel_def)
  have hit: "filter (\<lambda>op. hit (cancellation_key op)) (ch_waiters c) = waiters_of ?hit"
    "filter (\<lambda>op. \<not> hit (cancellation_key op)) (ch_waiters c) = waiters_of ?rest"
    unfolding w by (rule filter_waiters, rule filter_waiters [of "\<lambda>k. \<not> hit k"])
  have cast: "(\<forall>op \<in> set (waiters_of ?hit). castable c op) \<longleftrightarrow> \<not> (sp_closed sp \<and> sp_senders ?hit \<noteq> [])"
    by (rule castable_waiters [OF assms]) auto
  show ?thesis
  proof (cases "sp_closed sp \<and> sp_senders ?hit \<noteq> []")
    case True
    then show ?thesis using cast by (simp add: cancel_where_def hit spec_cancel_if_def Let_def)
  next
    case False
    let ?c1 = "c\<lparr>ch_waiters := waiters_of ?rest, ch_done := ch_done c @ map (cancelled tr) (waiters_of ?hit)\<rparr>"
    let ?c' = "if waiters_of ?rest = [] then no_waiters_left ?c1 else ?c1"
    have "cancel_where hit tr c = Inr ?c'" using False cast by (simp add: cancel_where_def hit Let_def)
    moreover have "chan_rel contents ok ?c' (spec_report (map (cancelled tr) (waiters_of ?hit)) ?rest)"
    proof (cases "sp_senders ?rest = [] \<and> sp_receivers ?rest = []")
      case True
      then show ?thesis using assms
        by (auto simp: chan_rel_defs spec_report_def no_waiters_left_def idle_send_state_def Let_def)
    next
      case False
      then show ?thesis using assms
        by (auto simp: chan_rel_defs spec_report_def)
    qed
    moreover have "ch_buffer ?c' = ch_buffer c" by (simp add: no_waiters_left_def Let_def)
    ultimately show ?thesis using False by (auto simp: spec_cancel_if_def map_cancelled Let_def)
  qed
qed

lemma rel_close:
  assumes "chan_rel contents ok c sp"
  shows "\<exists>c'. chan_close tr c = Inr c' \<and> chan_rel contents ok c' (spec_close tr sp)"
proof (cases "ch_receive_state c = Ch_block")
  case True
  then have s: "sp_queue sp = []" "\<not> sp_closed sp" "sp_senders sp = []" "ch_waiters c = map (\<lambda>(i, k). Chan_receive i k) (sp_receivers sp)"
    using assms by (auto simp: chan_rel_defs split: if_splits)
  then show ?thesis using True assms
    by (auto simp: chan_close_def close_loop_effect chan_rel_defs spec_close_def spec_defs Let_def)
next
  case False
  then have "sp_receivers sp = []" using assms by (auto simp: chan_rel_defs split: if_splits)
  then show ?thesis using False assms
    by (auto simp: chan_close_def chan_rel_defs spec_close_def spec_defs Let_def)
qed

section \<open>Every run is answered\<close>

text \<open>The payloads that are sent and that wait are those the buffer can keep.\<close>

definition senders_valid :: "('p \<Rightarrow> bool) \<Rightarrow> 'p chan_spec \<Rightarrow> bool" where
  "senders_valid valid sp \<longleftrightarrow> (\<forall>x \<in> set (sp_senders sp). valid (snd (snd x)))"

fun sends_valid :: "('p \<Rightarrow> bool) \<Rightarrow> 'p chan_event \<Rightarrow> bool" where
  "sends_valid valid (Try_send d p) \<longleftrightarrow> valid p"
| "sends_valid valid (Try_send_n d n p) \<longleftrightarrow> valid p"
| "sends_valid valid (Async_send i k p) \<longleftrightarrow> valid p"
| "sends_valid valid e \<longleftrightarrow> True"

lemma spec_send_senders [simp]: "sp_senders (snd (spec_send a n p sp)) = sp_senders sp"
  by (simp add: spec_defs Let_def)

lemma spec_take_senders: "spec_take sp = Some (p, sp') \<Longrightarrow> set (sp_senders sp') \<subseteq> set (sp_senders sp)"
  by (auto simp: spec_take_def spec_report_def split: list.splits if_splits)

lemma spec_cancel_senders: "spec_cancel_if hit tr sp = Inr sp' \<Longrightarrow> set (sp_senders sp') \<subseteq> set (sp_senders sp)"
  by (auto simp: spec_cancel_if_def spec_report_def Let_def split: if_splits)

lemma spec_step_senders:
  assumes "spec_step tr e sp = Inr (r, sp')" and "senders_valid valid sp" and "sends_valid valid e"
  shows "senders_valid valid sp'"
proof (cases e)
  case Try_receive
  then show ?thesis using assms(1,2)
    by (auto simp: spec_try_receive_def spec_report_def senders_valid_def split: option.splits dest!: spec_take_senders)
next
  case (Async_receive i k)
  then show ?thesis using assms(1,2)
    by (auto simp: spec_async_receive_def spec_report_def senders_valid_def split: option.splits if_splits dest!: spec_take_senders)
next
  case (Async_send i k p)
  then show ?thesis using assms
    by (auto simp: spec_async_send_def spec_report_def senders_valid_def case_prod_beta Let_def split: if_splits)
qed (use assms in
    \<open>auto simp: case_prod_beta senders_valid_def spec_close_def spec_deliver_def spec_report_def spec_reset_def map_res_def bind_res_Inr_iff
      Let_def dest!: spec_cancel_senders\<close>)

lemma senders_valid_init [simp]: "senders_valid valid (spec_init n)"
  by (simp add: senders_valid_def spec_init_def)

definition chan_valid_rel :: "('b \<Rightarrow> 'p list) \<Rightarrow> ('b \<Rightarrow> bool) \<Rightarrow> ('p \<Rightarrow> bool) \<Rightarrow> ('p, 'b) channel \<Rightarrow> 'p chan_spec \<Rightarrow> bool" where
  "chan_valid_rel contents ok valid c sp \<longleftrightarrow> chan_rel contents ok c sp \<and> senders_valid valid sp"

lemma answers_valid:
  assumes "answers (chan_rel contents ok) x (spec_step tr e sp)" and "senders_valid valid sp" and "sends_valid valid e"
  shows "answers (chan_valid_rel contents ok valid) x (spec_step tr e sp)"
  using assms(1) spec_step_senders [OF _ assms(2,3)]
  by (auto simp: answers_def chan_valid_rel_def split: sum.splits prod.splits)

lemma answers_cancel:
  assumes "chan_rel contents ok c sp"
  shows "answers (chan_rel contents ok) (map_res (Pair R_none) (cancel_where hit tr c)) (map_res (Pair R_none) (spec_cancel_if hit tr sp))"
  using rel_cancel_where [OF assms, of hit tr] by (auto simp: answers_def split: sum.splits)

context channel_buffer
begin

lemma refine_step:
  assumes "chan_valid_rel contents buffer_ok valid c sp" and "sends_valid valid e" and "e \<noteq> Reset_channel"
  shows "answers (chan_valid_rel contents buffer_ok valid) (chan_step bo tr e c) (spec_step tr e sp)"
proof (rule answers_valid)
  have r: "chan_rel contents buffer_ok c sp" "\<forall>x \<in> set (sp_senders sp). valid (snd (snd x))"
    using assms(1) by (simp_all add: chan_valid_rel_def senders_valid_def)
  show "answers (chan_rel contents buffer_ok) (chan_step bo tr e c) (spec_step tr e sp)"
  proof (cases e)
    case (Try_send d p)
    then show ?thesis using refine_try_send [OF r(1)] assms(2) by simp
  next
    case (Try_send_n d n p)
    then show ?thesis using refine_try_send_n [OF r(1)] assms(2) by simp
  next
    case (Async_send i k p)
    then show ?thesis using refine_async_send [OF r(1)] assms(2) by simp
  next
    case Try_receive
    then show ?thesis using refine_try_receive [OF r] by simp
  next
    case (Async_receive i k)
    then show ?thesis using refine_async_receive [OF r] by simp
  next
    case Close_channel
    then show ?thesis using rel_close [OF r(1), of tr] by (auto simp: answers_def)
  next
    case Cancel_channel
    then show ?thesis using answers_cancel [OF r(1)] by (simp add: chan_cancel_where)
  next
    case (Cancel_key k)
    then show ?thesis using answers_cancel [OF r(1)] by (simp add: chan_cancel_by_key_where)
  qed (use assms(3) in simp)
qed (use assms in \<open>simp_all add: chan_valid_rel_def\<close>)

lemma refine_run:
  assumes "\<forall>e \<in> set es. sends_valid valid e \<and> e \<noteq> Reset_channel"
  shows "answers (chan_valid_rel contents buffer_ok valid) (run_res (chan_step bo tr) es (chan_construct bo n))
    (run_res (spec_step tr) es (spec_init n))"
  by (rule run_res_answers) (use assms rel_init refine_step in \<open>auto simp: chan_valid_rel_def\<close>)

end

context clearing_buffer
begin

lemma refine_reset:
  assumes "chan_rel contents buffer_ok c sp"
  shows "answers (chan_rel contents buffer_ok) (chan_step bo tr Reset_channel c) (spec_step tr Reset_channel sp)"
proof (cases "spec_cancel_if (\<lambda>_. True) tr sp")
  case (Inl f)
  then show ?thesis using rel_cancel_where [OF assms, of "\<lambda>_. True" tr]
    by (simp add: answers_def chan_reset_def spec_reset_def chan_cancel_where)
next
  case (Inr sp')
  then obtain c' where c: "cancel_where (\<lambda>_. True) tr c = Inr c'" "chan_rel contents buffer_ok c' sp'"
    using rel_cancel_where [OF assms, of "\<lambda>_. True" tr] by auto
  have s: "sp_senders sp' = []" "sp_receivers sp' = []"
    using Inr by (auto simp: spec_cancel_if_def spec_report_def Let_def split: if_splits)
  have "buffer_ok (b_clear bo (ch_buffer c'))" "contents (b_clear bo (ch_buffer c')) = []"
    using clear [of "ch_buffer c'"] c(2) by (simp_all add: chan_rel_def)
  then show ?thesis using c s Inr
    by (auto simp: answers_def chan_reset_def spec_reset_def chan_cancel_where chan_rel_defs idle_send_state_def)
qed

lemma refine_run_reset:
  assumes "\<forall>e \<in> set es. sends_valid valid e"
  shows "answers (chan_valid_rel contents buffer_ok valid) (run_res (chan_step bo tr) es (chan_construct bo n))
    (run_res (spec_step tr) es (spec_init n))"
proof (rule run_res_answers)
  fix e c sp
  assume e: "e \<in> set es" and r: "chan_valid_rel contents buffer_ok valid c sp"
  show "answers (chan_valid_rel contents buffer_ok valid) (chan_step bo tr e c) (spec_step tr e sp)"
  proof (cases "e = Reset_channel")
    case True
    then show ?thesis using answers_valid [OF refine_reset] r by (simp add: chan_valid_rel_def)
  qed (use refine_step [OF r] assms e in blast)
qed (simp add: rel_init chan_valid_rel_def)

end

end
