(* ===== verification/Asio_Channel_Properties.thy ===== *)
theory Asio_Channel_Properties
  imports Asio_Channel_Runs
begin

text \<open>
  What holds for channels: they are bounded queues whatever buffer they use, messages arrive in the order
  in which they were accepted, and where the code goes wrong.
\<close>

section \<open>Facts about the specification\<close>

lemma sends_valid_all: "sends_valid (\<lambda>_. True) e"
  by (cases e) simp_all

lemma spec_cancel_fault: "spec_cancel_if hit tr sp = Inl f \<Longrightarrow> f = BadDowncast"
  by (simp add: spec_cancel_if_def Let_def split: if_splits)

lemma spec_step_fault: "spec_step tr e sp = Inl f \<Longrightarrow> f = BadDowncast"
  by (cases e) (auto simp: case_prod_beta spec_reset_def map_res_def bind_res_def Let_def
      split: sum.splits dest: spec_cancel_fault)

lemma spec_run_fault: "run_res (spec_step tr) es sp = Inl f \<Longrightarrow> f = BadDowncast"
  by (induction es arbitrary: sp) (auto simp: bind_res_def map_res_def split: sum.splits prod.splits dest: spec_step_fault)

lemma spec_step_capacity: "spec_step tr e sp = Inr (r, sp') \<Longrightarrow> sp_capacity sp' = sp_capacity sp"
  by (cases e)
    (auto simp: case_prod_beta spec_reset_def spec_cancel_if_def spec_defs spec_async_send_def spec_try_receive_def
      spec_async_receive_def spec_close_def spec_take_def map_res_def bind_res_def Let_def
      split: sum.splits if_splits option.splits list.splits)

lemma spec_run_capacity: "run_res (spec_step tr) es sp = Inr (rs, sp') \<Longrightarrow> sp_capacity sp' = sp_capacity sp"
  by (induction es arbitrary: sp rs)
    (auto simp: bind_res_def map_res_def split: sum.splits prod.splits dest: spec_step_capacity)

text \<open>The messages of the operations that are done, those that wait in front of the channel, and those that a
  call has got accepted; \<open>cl\<close> tells whether the channel was closed before.\<close>

fun received :: "'p completion \<Rightarrow> 'p list" where
  "received (Receive_done i a p) = [p]"
| "received (Handler_called p) = [p]"
| "received d = []"

fun waiting_payload :: "'p channel_operation \<Rightarrow> 'p list" where
  "waiting_payload (Chan_send i k p) = [p]"
| "waiting_payload (Chan_receive i k) = []"

fun accepted_one :: "bool \<Rightarrow> 'p chan_event \<Rightarrow> 'p chan_result \<Rightarrow> 'p list" where
  "accepted_one cl (Try_send d p) (R_count k) = replicate k p"
| "accepted_one cl (Try_send_n d n p) (R_count k) = replicate k p"
| "accepted_one cl (Async_send i key p) r = (if cl then [] else [p])"
| "accepted_one cl e r = []"

fun accepted :: "bool \<Rightarrow> 'p chan_event list \<Rightarrow> 'p chan_result list \<Rightarrow> 'p list" where
  "accepted cl (e # es) (r # rs) = accepted_one cl e r @ accepted (cl \<or> e = Close_channel) es rs"
| "accepted cl es rs = []"

definition cancels :: "'p chan_event \<Rightarrow> bool" where
  "cancels e \<longleftrightarrow> (case e of Cancel_channel \<Rightarrow> True | Cancel_key k \<Rightarrow> True | Reset_channel \<Rightarrow> True | _ \<Rightarrow> False)"

definition history :: "'p channel_traits \<Rightarrow> 'p chan_spec \<Rightarrow> 'p list" where
  "history tr sp = filter (\<lambda>p. p \<noteq> tr_closed tr) (concat (map received (sp_done sp))) @ sp_queue sp @
     map (\<lambda>(i, k, p). p) (sp_senders sp)"

lemma received_actions [simp]:
  "received (send_do_action i a) = []" "a \<noteq> Destroy_op \<Longrightarrow> received (receive_do_action i a p) = [p]"
  by (simp_all add: send_do_action_def receive_do_action_def)

lemma received_deliver:
  "a \<noteq> Destroy_op \<Longrightarrow> concat (map received (map (\<lambda>(i, k). receive_do_action i a p) rs)) = replicate (length rs) p"
  by (induction rs) auto

lemma filter_replicate_id: "P p \<Longrightarrow> filter P (replicate n p) = replicate n p"
  by (induction n) simp_all

lemma filter_replicate_none: "\<not> P p \<Longrightarrow> filter P (replicate n p) = []"
  by (induction n) simp_all

lemma history_send:
  assumes "spec_ok sp" and "p \<noteq> tr_closed tr" and "a \<noteq> Destroy_op" and "spec_send a n p sp = (k, sp')"
  shows "history tr sp' = history tr sp @ replicate k p \<and> spec_ok sp' \<and> sp_closed sp' = sp_closed sp \<and> sp_senders sp' = sp_senders sp \<and>
    (sp_closed sp \<longrightarrow> k = 0) \<and> (k = 0 \<longrightarrow> n = 0 \<or> sp_closed sp \<or> sp_receivers sp = [] \<and> length (sp_queue sp) = sp_capacity sp) \<and> k \<le> n"
proof (cases "sp_closed sp")
  case True
  then show ?thesis using assms by (auto simp: spec_send_def)
next
  case False
  let ?d = "min n (length (sp_receivers sp))"
  let ?k = "min (n - ?d) (spec_room sp)"
  have e: "k = ?d + ?k" "sp' = spec_deliver ?d a p (sp\<lparr>sp_queue := sp_queue sp @ replicate ?k p\<rparr>)"
    using assms(4) False by (auto simp: spec_send_def Let_def)
  have len: "length (take ?d (sp_receivers sp)) = ?d" by simp
  have f: "filter (\<lambda>q. q \<noteq> tr_closed tr) (replicate m p) = replicate m p" for m using assms(2) by (rule filter_replicate_id)
  have room: "?k > 0 \<Longrightarrow> sp_senders sp = []" using assms(1) by (auto simp: spec_ok_def spec_room_def)
  have order: "?d > 0 \<Longrightarrow> sp_queue sp = [] \<and> sp_senders sp = []" using assms(1) by (auto simp: spec_ok_def)
  have "history tr sp' = history tr sp @ replicate k p"
    using received_deliver [OF assms(3), of p "take ?d (sp_receivers sp)"] order room
    by (cases "?d = 0"; cases "?k = 0")
      (simp_all add: e history_def spec_deliver_def spec_report_def len f replicate_add del: map_map min_less_iff_conj)
  moreover have "spec_ok sp'"
  proof -
    have "length (sp_queue sp) + ?k \<le> sp_capacity sp" using assms(1) by (auto simp: spec_ok_def spec_room_def)
    moreover have "drop ?d (sp_receivers sp) \<noteq> [] \<Longrightarrow> ?k = 0" by simp
    ultimately show ?thesis using assms(1) room by (simp add: e spec_ok_def spec_deliver_def spec_report_def) force
  qed
  moreover have "k = 0 \<Longrightarrow> n = 0 \<or> sp_receivers sp = [] \<and> length (sp_queue sp) = sp_capacity sp"
    using assms(1) by (cases "sp_receivers sp") (auto simp: e spec_room_def spec_ok_def)
  moreover have "sp_closed sp' = sp_closed sp" "sp_senders sp' = sp_senders sp"
    by (simp_all add: e spec_deliver_def spec_report_def)
  moreover have "k \<le> n" by (simp add: e(1))
  ultimately show ?thesis using False by blast
qed

text \<open>A message that is taken leaves the history.\<close>

lemma history_take:
  assumes "spec_ok sp" and "spec_take sp = Some (p, sp')"
  shows "history tr sp = filter (\<lambda>p. p \<noteq> tr_closed tr) (concat (map received (sp_done sp))) @ p # sp_queue sp' @ map (\<lambda>(i, k, p). p) (sp_senders sp')"
    "concat (map received (sp_done sp')) = concat (map received (sp_done sp))"
    "spec_ok sp'" "sp_closed sp' = sp_closed sp" "p \<in> set (sp_queue sp) \<union> (\<lambda>(i, k, p). p) ` set (sp_senders sp)"
  using assms by (auto simp: spec_take_def history_def spec_report_def spec_ok_def split: list.splits if_splits)

lemma history_report:
  "history tr (spec_report [d] sp) =
     filter (\<lambda>p. p \<noteq> tr_closed tr) (concat (map received (sp_done sp)) @ received d) @ sp_queue sp @ map (\<lambda>(i, k, p). p) (sp_senders sp)"
  by (simp add: history_def spec_report_def)

definition no_notification :: "'p channel_traits \<Rightarrow> 'p chan_spec \<Rightarrow> bool" where
  "no_notification tr sp \<longleftrightarrow> tr_closed tr \<notin> set (sp_queue sp) \<union> (\<lambda>(i, k, p). p) ` set (sp_senders sp)"

lemma spec_report_simps [simp]:
  "sp_queue (spec_report ds sp) = sp_queue sp" "sp_senders (spec_report ds sp) = sp_senders sp"
  "sp_receivers (spec_report ds sp) = sp_receivers sp" "sp_closed (spec_report ds sp) = sp_closed sp"
  "sp_capacity (spec_report ds sp) = sp_capacity sp" "spec_ok (spec_report ds sp) = spec_ok sp"
  by (simp_all add: spec_report_def spec_ok_def)

lemma history_step:
  assumes "spec_ok sp" and "no_notification tr sp" and "sends_valid (\<lambda>p. p \<noteq> tr_closed tr) e" and "\<not> cancels e"
    and "spec_step tr e sp = Inr (r, sp')"
  shows "history tr sp' = history tr sp @ accepted_one (sp_closed sp) e r \<and> spec_ok sp' \<and>
    (sp_closed sp' \<longleftrightarrow> sp_closed sp \<or> e = Close_channel)"
proof (cases e)
  case (Try_send d p)
  then show ?thesis using assms(3,5) history_send [OF assms(1) _ _ surjective_pairing, of p tr "send_action d" 1]
    by (auto simp: case_prod_beta send_action_def split: if_splits)
next
  case (Try_send_n d n p)
  then show ?thesis using assms(3,5) history_send [OF assms(1) _ _ surjective_pairing, of p tr "send_action d" n]
    by (auto simp: case_prod_beta send_action_def split: if_splits)
next
  case (Async_send i key p)
  obtain k sp1 where k: "spec_send Post_op 1 p sp = (k, sp1)" by fastforce
  have h: "history tr sp1 = history tr sp @ replicate k p" "spec_ok sp1" "sp_closed sp1 = sp_closed sp" "k \<le> 1"
    "k = 0 \<Longrightarrow> sp_closed sp \<or> sp_receivers sp = [] \<and> length (sp_queue sp) = sp_capacity sp"
    using history_send [OF assms(1) _ _ k] assms(3) Async_send by auto
  show ?thesis
  proof (cases "sp_closed sp")
    case True
    then show ?thesis using assms Async_send by (auto simp: spec_async_send_def spec_report_def spec_ok_def history_def)
  next
    case False
    have "k = 0 \<or> k = 1" using h(4) by auto
    then show ?thesis
    proof
      assume "k = 0"
      then show ?thesis using assms(1,5) Async_send h(5) k False
        by (auto simp: spec_async_send_def history_def spec_ok_def)
    next
      assume "k = 1"
      then show ?thesis using assms(5) Async_send h(1-3) k False
        by (auto simp: spec_async_send_def history_report) (simp add: history_def)
    qed
  qed
next
  case Try_receive
  show ?thesis
  proof (cases "spec_take sp")
    case None
    then show ?thesis using assms Try_receive by (simp add: spec_try_receive_def)
  next
    case (Some x)
    then obtain p sp1 where x: "spec_take sp = Some (p, sp1)" by (cases x) simp
    note t = history_take [OF assms(1) x]
    have "p \<noteq> tr_closed tr" using t(5) assms(2) by (auto simp: no_notification_def)
    then show ?thesis using assms(5) Try_receive x t(2-4) by (auto simp: spec_try_receive_def history_report t(1))
  qed
next
  case (Async_receive i key)
  show ?thesis
  proof (cases "spec_take sp")
    case None
    then have n: "sp_queue sp = []" "sp_closed sp \<or> sp_senders sp = []"
      by (auto simp: spec_take_def split: list.splits if_splits)
    then show ?thesis using assms(1,5) Async_receive None
      by (cases "sp_closed sp") (auto simp: spec_async_receive_def spec_report_def history_def spec_ok_def)
  next
    case (Some x)
    then obtain p sp1 where x: "spec_take sp = Some (p, sp1)" by (cases x) simp
    note t = history_take [OF assms(1) x]
    have "p \<noteq> tr_closed tr" using t(5) assms(2) by (auto simp: no_notification_def)
    then show ?thesis using assms(5) Async_receive x t(2-4) by (auto simp: spec_async_receive_def history_report t(1))
  qed
next
  case Close_channel
  then show ?thesis using assms received_deliver [of Post_op "tr_closed tr" "sp_receivers sp"]
    by (auto simp: spec_close_def spec_deliver_def spec_report_def history_def spec_ok_def filter_replicate_none)
qed (use assms(4) in \<open>simp_all add: cancels_def\<close>)

lemma no_notification_history:
  "no_notification tr sp \<longleftrightarrow> tr_closed tr \<notin> set (history tr sp)"
  by (auto simp: no_notification_def history_def)

lemma accepted_one_valid: "sends_valid P e \<Longrightarrow> \<forall>p \<in> set (accepted_one cl e r). P p"
  by (cases "(cl, e, r)" rule: accepted_one.cases) (auto split: if_splits)

lemma history_run:
  "spec_ok sp \<Longrightarrow> no_notification tr sp \<Longrightarrow> \<forall>e \<in> set es. sends_valid (\<lambda>p. p \<noteq> tr_closed tr) e \<and> \<not> cancels e \<Longrightarrow>
   run_res (spec_step tr) es sp = Inr (rs, sp') \<Longrightarrow>
   history tr sp' = history tr sp @ accepted (sp_closed sp) es rs"
proof (induction es arbitrary: sp rs)
  case (Cons e es)
  obtain r sp1 rs1 where s: "spec_step tr e sp = Inr (r, sp1)" "run_res (spec_step tr) es sp1 = Inr (rs1, sp')" "rs = r # rs1"
    using Cons.prems(4) by (auto simp: bind_res_Inr_iff map_res_def)
  have h: "history tr sp1 = history tr sp @ accepted_one (sp_closed sp) e r" "spec_ok sp1" "sp_closed sp1 \<longleftrightarrow> sp_closed sp \<or> e = Close_channel"
    using history_step [OF Cons.prems(1,2) _ _ s(1)] Cons.prems(3) by auto
  have "no_notification tr sp1"
    using Cons.prems(2,3) accepted_one_valid [of "\<lambda>p. p \<noteq> tr_closed tr" e "sp_closed sp" r] by (auto simp: no_notification_history h(1))
  then show ?case using Cons.IH [OF h(2) _ _ s(2)] Cons.prems(3) by (simp add: h s(3))
qed simp

section \<open>Channels are bounded queues\<close>

text \<open>
  C24: A channel is a bounded queue with waiting senders and receivers: every run of its calls gives the
  results of the specification, completes the same operations in the same order with the same messages
  and errors, and ends in a corresponding state, in which the buffer is within its maximum. It is undefined
  exactly when the specification is, which is when a sender that was waiting at the close is cancelled.
\<close>
theorem channel_refines_specification:
  "case run_res (spec_step tr) es (spec_init n) of
     Inl f \<Rightarrow> f = BadDowncast \<and> run_res (chan_step deque_ops tr) es (chan_construct deque_ops n) = Inl BadDowncast
   | Inr (rs, sp) \<Rightarrow>
       \<exists>c. run_res (chan_step deque_ops tr) es (chan_construct deque_ops n) = Inr (rs, c) \<and>
         ch_done c = sp_done sp \<and> ch_buffer c = sp_queue sp \<and> ch_waiters c = waiters_of sp \<and>
         chan_is_open c = (\<not> sp_closed sp) \<and> length (ch_buffer c) \<le> n"
proof -
  have a: "answers (chan_valid_rel (\<lambda>b. b) (\<lambda>_. True) (\<lambda>_. True)) (run_res (chan_step deque_ops tr) es (chan_construct deque_ops n))
    (run_res (spec_step tr) es (spec_init n))"
    by (rule deque.refine_run_reset) (simp add: sends_valid_all)
  show ?thesis
  proof (cases "run_res (spec_step tr) es (spec_init n)")
    case (Inl f)
    then show ?thesis using a spec_run_fault [OF Inl] by (simp add: answers_def)
  next
    case (Inr x)
    obtain rs sp where x: "x = (rs, sp)" by (cases x)
    have "sp_capacity sp = n" using spec_run_capacity [OF Inr [unfolded x]] by (simp add: spec_init_def)
    moreover obtain c where c: "run_res (chan_step deque_ops tr) es (chan_construct deque_ops n) = Inr (rs, c)"
      "chan_rel (\<lambda>b. b) (\<lambda>_. True) c sp"
      using a Inr x by (auto simp: answers_def chan_valid_rel_def)
    ultimately show ?thesis using Inr x send_state_cases(1) [OF c(2)]
      by (simp add: chan_rel_def chan_is_open_def spec_ok_def)
  qed
qed

lemma history_init [simp]: "history tr (spec_init n) = []" "spec_ok (spec_init n)" "no_notification tr (spec_init n)"
  "sp_closed (spec_init n) = False"
  by (simp_all add: history_def spec_init_def spec_ok_def no_notification_def)

lemma waiting_sends: "concat (map waiting_payload (map (\<lambda>(i, k, p). Chan_send i k p) ss)) = map (\<lambda>(i, k, p). p) ss"
  by (induction ss) auto

lemma waiting_receives: "concat (map waiting_payload (map (\<lambda>(i, k). Chan_receive i k) rs)) = []"
  by (induction rs) auto

lemma waiting_payloads: "concat (map waiting_payload (waiters_of sp)) = map (\<lambda>(i, k, p). p) (sp_senders sp)"
  by (simp only: waiters_of_def map_append concat_append append_Nil2 waiting_sends waiting_receives)

text \<open>
  C25: Messages go through a channel in order and none is lost: after any calls but cancellations and
  resets, those the receivers have got, those in the buffer and those the waiting senders hold are, in
  this sequence, the messages that the calls before the close have got accepted.
\<close>
theorem channel_delivers_in_order:
  assumes "run_res (chan_step deque_ops tr) es (chan_construct deque_ops n) = Inr (rs, c)"
    and "\<forall>e \<in> set es. sends_valid (\<lambda>p. p \<noteq> tr_closed tr) e \<and> \<not> cancels e"
  shows "filter (\<lambda>p. p \<noteq> tr_closed tr) (concat (map received (ch_done c))) @ ch_buffer c @ concat (map waiting_payload (ch_waiters c)) =
    accepted False es rs"
proof -
  have a: "answers (chan_valid_rel (\<lambda>b. b) (\<lambda>_. True) (\<lambda>_. True)) (run_res (chan_step deque_ops tr) es (chan_construct deque_ops n))
    (run_res (spec_step tr) es (spec_init n))"
    by (rule deque.refine_run_reset) (simp add: sends_valid_all)
  then obtain sp where sp: "run_res (spec_step tr) es (spec_init n) = Inr (rs, sp)" "chan_rel (\<lambda>b. b) (\<lambda>_. True) c sp"
    using assms(1) by (auto simp: answers_def chan_valid_rel_def split: sum.splits)
  have "history tr sp = accepted False es rs" using history_run [OF _ _ assms(2) sp(1)] by simp
  then show ?thesis using sp(2) by (simp add: history_def chan_rel_def waiting_payloads)
qed

theorem channel_delivers_in_order_witness:
  "\<exists>rs c. run_res (chan_step deque_ops \<lparr>tr_closed = 0, tr_cancelled = (1::nat)\<rparr>)
      [Async_receive 1 0, Try_send False 5, Async_send 2 0 6, Async_send 3 0 7, Try_receive] (chan_construct deque_ops 1) = Inr (rs, c) \<and>
    filter (\<lambda>p. p \<noteq> 0) (concat (map received (ch_done c))) @ ch_buffer c @ concat (map waiting_payload (ch_waiters c)) = [5, 6, 7]"
  (is "\<exists>rs c. ?run = Inr (rs, c) \<and> _")
proof -
  define c where "c = (case ?run of Inr x \<Rightarrow> snd x)"
  define rs where "rs = (case ?run of Inr x \<Rightarrow> fst x)"
  have r: "?run = Inr (rs, c)" "rs = [R_none, R_count 1, R_none, R_none, R_message (Some 6)]"
    unfolding c_def rs_def by code_simp+
  have "accepted False [Async_receive 1 0, Try_send False 5, Async_send 2 0 6, Async_send 3 0 7, Try_receive] rs = [5, 6, 7]"
    by (simp add: r(2))
  then show ?thesis using channel_delivers_in_order [OF r(1)] r(1) by (auto simp: cancels_def)
qed

text \<open>
  C0: A channel of error codes, which stores runs of equal codes as counts, behaves as one that stores
  them one by one, as long as it is not reset: all results and completions are the same.
\<close>
theorem error_channel_like_general_channel:
  assumes "Reset_channel \<notin> set es"
  shows "map_res (\<lambda>(rs, c). (rs, ch_done c, ch_waiters c, ch_receive_state c, ch_send_state c, error_contents (ch_buffer c)))
      (run_res (chan_step (error_ops v0) tr) es (chan_construct (error_ops v0) n)) =
    map_res (\<lambda>(rs, c). (rs, ch_done c, ch_waiters c, ch_receive_state c, ch_send_state c, ch_buffer c))
      (run_res (chan_step deque_ops tr) es (chan_construct deque_ops n))"
proof -
  have "answers (chan_valid_rel (\<lambda>b. b) (\<lambda>_. True) (\<lambda>_. True)) (run_res (chan_step deque_ops tr) es (chan_construct deque_ops n))
    (run_res (spec_step tr) es (spec_init n))"
    by (rule deque.refine_run_reset) (simp add: sends_valid_all)
  moreover have "answers (chan_valid_rel error_contents error_buffer_ok (\<lambda>_. True))
    (run_res (chan_step (error_ops v0) tr) es (chan_construct (error_ops v0) n)) (run_res (spec_step tr) es (spec_init n))"
    by (rule error.refine_run) (use assms in \<open>auto simp: sends_valid_all\<close>)
  ultimately show ?thesis
    by (cases "run_res (spec_step tr) es (spec_init n)") (auto simp: answers_def chan_valid_rel_def chan_rel_def)
qed

theorem error_channel_like_general_channel_witness:
  "map_res (\<lambda>(rs, c). (rs, error_contents (ch_buffer c)))
     (run_res (chan_step (error_ops 0) \<lparr>tr_closed = 8, tr_cancelled = (9::nat)\<rparr>) [Try_send False 4, Try_send False 4, Try_receive]
       (chan_construct (error_ops 0) 3)) = Inr ([R_count 1, R_count 1, R_message (Some 4)], [4])"
proof -
  let ?es = "[Try_send False 4, Try_send False 4, Try_receive]"
  let ?tr = "\<lparr>tr_closed = 8, tr_cancelled = (9::nat)\<rparr>"
  let ?f = "\<lambda>(rs, d, w, r, s, b). (rs, b)"
  have d: "map_res (\<lambda>(rs, c). (rs, ch_buffer c)) (run_res (chan_step deque_ops ?tr) ?es (chan_construct deque_ops 3)) =
    Inr ([R_count 1, R_count 1, R_message (Some 4)], [4])"
    by code_simp
  have "map_res (\<lambda>(rs, c). (rs, error_contents (ch_buffer c))) x = map_res ?f
      (map_res (\<lambda>(rs, c). (rs, ch_done c, ch_waiters c, ch_receive_state c, ch_send_state c, error_contents (ch_buffer c))) x)"
    "map_res (\<lambda>(rs, c). (rs, ch_buffer c)) y = map_res ?f
      (map_res (\<lambda>(rs, c). (rs, ch_done c, ch_waiters c, ch_receive_state c, ch_send_state c, ch_buffer c)) y)"
    for x :: "fault + nat chan_result list \<times> (nat, nat error_buffer) channel" and y :: "fault + nat chan_result list \<times> (nat, nat list) channel"
    by (cases x; auto) (cases y; auto)
  then show ?thesis using error_channel_like_general_channel [of ?es 0 ?tr 3] d by simp
qed

section \<open>Where the code goes wrong\<close>

text \<open>
  After a reset a channel of error codes delivers an old message: the reset leaves the count of the
  first group, so the first receive gets the code that was sent before the reset, and the new one stays
  in the container.
\<close>
theorem reset_leaves_stale_error:
  assumes "v1 \<noteq> v2"
  shows "map_res fst (run_res (chan_step (error_ops v0) tr) [Try_send d v1, Reset_channel, Try_send d v2, Try_receive]
      (chan_construct (error_ops v0) (Suc (Suc n)))) = Inr [R_count 1, R_none, R_count 1, R_message (Some v1)] \<and>
    map_res fst (run_res (chan_step deque_ops tr) [Try_send d v1, Reset_channel, Try_send d v2, Try_receive]
      (chan_construct deque_ops (Suc (Suc n)))) = Inr [R_count 1, R_none, R_count 1, R_message (Some v2)]"
  using assms
  by (simp_all add: chan_construct_def try_send_def send_to_buffer_def idle_send_state_def error_ops_def error_push_def
      error_push_count_def chan_reset_def chan_cancel_def no_waiters_left_def error_clear_def try_receive_def receive_from_buffer_def
      error_pop_def dec_size_def call_handler_def report_def deque_ops_def deque_front_def deque_pop_def Let_def)

theorem reset_leaves_stale_error_witness:
  "map_res fst (run_res (chan_step (error_ops 0) \<lparr>tr_closed = 8, tr_cancelled = 9\<rparr>)
      [Try_send False 4, Reset_channel, Try_send False (5::nat), Try_receive] (chan_construct (error_ops 0) 2)) =
    Inr [R_count 1, R_none, R_count 1, R_message (Some 4)]"
  using reset_leaves_stale_error [of "4 :: nat" 5 0 "\<lparr>tr_closed = 8, tr_cancelled = 9\<rparr>" False 0] by (simp add: numeral_2_eq_2)

text \<open>A channel without a buffer that was closed while a sender waits.\<close>

definition stuck :: "nat \<Rightarrow> nat \<Rightarrow> 'p \<Rightarrow> 'p chan_spec \<Rightarrow> bool" where
  "stuck i key p sp \<longleftrightarrow> sp_closed sp \<and> sp_queue sp = [] \<and> sp_senders sp = [(i, key, p)] \<and> sp_receivers sp = [] \<and> sp_capacity sp = 0"

lemma stuck_step: "stuck i key p sp \<Longrightarrow> \<not> cancels e \<Longrightarrow> \<exists>r sp'. spec_step tr e sp = Inr (r, sp') \<and> stuck i key p sp'"
  by (cases e) (auto simp: stuck_def cancels_def spec_defs spec_async_send_def spec_try_receive_def spec_async_receive_def
      spec_take_def spec_close_def Let_def)

lemma stuck_run:
  "stuck i key p sp \<Longrightarrow> \<forall>e \<in> set es. \<not> cancels e \<Longrightarrow> \<exists>rs sp'. run_res (spec_step tr) es sp = Inr (rs, sp') \<and> stuck i key p sp'"
proof (induction es arbitrary: sp)
  case (Cons e es)
  then obtain r sp1 where s: "spec_step tr e sp = Inr (r, sp1)" "stuck i key p sp1" using stuck_step [of i key p sp e tr] by auto
  then show ?case using Cons.IH [OF s(2)] Cons.prems(2) by auto
qed simp

text \<open>
  A sender that waits on a channel without a buffer is forgotten by the close: whatever is called
  afterwards, its operation stays in the queue and is never completed, until it is cancelled, as the
  destructor of the channel does; then it is taken for a receive, which is undefined.
\<close>
theorem close_forgets_waiting_sender:
  assumes "\<forall>e \<in> set es. \<not> cancels e"
  shows "\<exists>rs c. run_res (chan_step deque_ops tr) (Async_send i key p # Close_channel # es) (chan_construct deque_ops 0) = Inr (rs, c) \<and>
    ch_waiters c = [Chan_send i key p] \<and> chan_cancel tr c = Inl BadDowncast"
proof -
  let ?es = "Async_send i key p # Close_channel # es"
  have a: "answers (chan_valid_rel (\<lambda>b. b) (\<lambda>_. True) (\<lambda>_. True)) (run_res (chan_step deque_ops tr) ?es (chan_construct deque_ops 0))
    (run_res (spec_step tr) ?es (spec_init 0))"
    by (rule deque.refine_run_reset) (simp add: sends_valid_all)
  have "stuck i key p (spec_close tr (spec_async_send i key p (spec_init 0)))"
    by (simp add: stuck_def spec_close_def spec_async_send_def spec_init_def spec_defs)
  then obtain rs sp where "run_res (spec_step tr) ?es (spec_init 0) = Inr (rs, sp)" "stuck i key p sp"
    using stuck_run [OF _ assms, of i key p _ tr] by fastforce
  moreover from this obtain c where c: "run_res (chan_step deque_ops tr) ?es (chan_construct deque_ops 0) = Inr (rs, c)"
    "chan_rel (\<lambda>b. b) (\<lambda>_. True) c sp"
    using a by (auto simp: answers_def chan_valid_rel_def)
  moreover have "chan_cancel tr c = Inl BadDowncast"
    using rel_cancel_where [OF c(2), of "\<lambda>_. True" tr] \<open>stuck i key p sp\<close>
    by (simp add: chan_cancel_where stuck_def spec_cancel_if_def)
  ultimately show ?thesis by (auto simp: chan_rel_def stuck_def waiters_of_def)
qed

theorem close_forgets_waiting_sender_witness:
  "\<exists>rs c. run_res (chan_step deque_ops \<lparr>tr_closed = 8, tr_cancelled = (9 :: nat)\<rparr>)
      [Async_send 1 0 5, Close_channel, Try_receive, Async_receive 2 0] (chan_construct deque_ops 0) = Inr (rs, c) \<and>
    ch_waiters c = [Chan_send 1 0 5] \<and> chan_cancel \<lparr>tr_closed = 8, tr_cancelled = 9\<rparr> c = Inl BadDowncast"
  using close_forgets_waiting_sender [of "[Try_receive, Async_receive 2 0]" "\<lparr>tr_closed = 8, tr_cancelled = (9 :: nat)\<rparr>" 1 0 5]
  by (simp add: cancels_def)

section \<open>Moving\<close>

text \<open>
  A move takes the states of the two ends but not the operations that wait. A channel without a buffer
  that is moved while a sender waits expects one where there is none.
\<close>

lemma moved_channel_dereferences_null:
  assumes "i \<noteq> j" and "cs_list s sv \<noteq> Some j" and "start_chan_send deque_ops k key p (chan_construct deque_ops 0) = Inr (cs_channel s i)"
  shows "try_receive deque_ops (cs_channel (service_move_construct deque_ops deque_move_from sv j i s) j) = Inl NullDereference"
proof -
  have "ch_receive_state (cs_channel s i) = Ch_waiter" "ch_max_buffer_size (cs_channel s i) = 0"
    using assms(3) [symmetric] by (simp_all add: start_chan_send_def chan_construct_def idle_send_state_def Let_def)
  then show ?thesis using assms(1,2)
    by (auto simp: service_move_construct_def insert_channel_def take_channel_def deque_move_from_def on_channel_def chan_construct_def
        try_receive_def receive_from_waiter_def first_waiter_def Let_def split: option.splits)
qed

section \<open>The list of channels\<close>

abbreviation next_channel :: "('p, 'b) channels \<Rightarrow> nat \<Rightarrow> nat option" where "next_channel s i \<equiv> ch_next (cs_channel s i)"
abbreviation prev_channel :: "('p, 'b) channels \<Rightarrow> nat \<Rightarrow> nat option" where "prev_channel s i \<equiv> ch_prev (cs_channel s i)"

definition channel_list :: "('p, 'b) channels \<Rightarrow> nat \<Rightarrow> nat list \<Rightarrow> bool" where
  "channel_list s sv xs \<longleftrightarrow> dll (next_channel s) (prev_channel s) (cs_list s sv) xs"

lemma on_channel_simps [simp]:
  "cs_channel (on_channel i f s) = (cs_channel s)(i := f (cs_channel s i))" "cs_list (on_channel i f s) = cs_list s"
  by (simp_all add: on_channel_def)

lemma insert_channel_links:
  "next_channel (insert_channel sv i s) x = (if x = i then cs_list s sv else next_channel s x)"
  "cs_list s sv \<noteq> Some i \<Longrightarrow> prev_channel (insert_channel sv i s) x =
    (if x = i then None else if cs_list s sv = Some x then Some i else prev_channel s x)"
  "cs_list (insert_channel sv i s) v = (if v = sv then Some i else cs_list s v)"
  by (auto simp: insert_channel_def Let_def split: option.splits)

lemma insert_keeps_list:
  assumes "channel_list s sv xs" and "i \<notin> set xs"
  shows "channel_list (insert_channel sv i s) sv (i # xs)"
proof -
  have d: "dll (next_channel s) (prev_channel s) (cs_list s sv) xs" using assms(1) by (simp add: channel_list_def)
  then have "cs_list s sv \<noteq> Some i" using assms(2) by (auto dest: dll_head_in)
  note links = insert_channel_links(1,3) insert_channel_links(2) [OF this]
  have "dll (next_channel (insert_channel sv i s)) (prev_channel (insert_channel sv i s)) (Some i) (i # xs)"
    using d assms(2) by (rule dll_insert) (use assms(2) in \<open>auto simp: links\<close>)
  then show ?thesis by (simp add: channel_list_def links)
qed

lemma remove_channel_links:
  assumes "prev_channel s i \<noteq> Some i" and "next_channel s i \<noteq> Some i"
  shows "next_channel (remove_channel sv i s) x =
      (if x = i then None else if prev_channel s i = Some x then next_channel s i else next_channel s x)"
    "prev_channel (remove_channel sv i s) x =
      (if x = i then None else if next_channel s i = Some x then prev_channel s i else prev_channel s x)"
    "cs_list (remove_channel sv i s) v =
      (if v = sv \<and> cs_list s sv = Some i then next_channel s i else cs_list s v)"
  using assms by (cases "prev_channel s i"; cases "next_channel s i"; auto simp: remove_channel_def Let_def)+

lemma remove_keeps_list:
  assumes "channel_list s sv xs" and "i \<in> set xs"
  shows "channel_list (remove_channel sv i s) sv (remove1 i xs)"
proof -
  have d: "dll (next_channel s) (prev_channel s) (cs_list s sv) xs" using assms(1) by (simp add: channel_list_def)
  have "prev_channel s i \<noteq> Some i" "next_channel s i \<noteq> Some i" using dll_neighbours [OF d assms(2)] by auto
  note links = remove_channel_links [OF this, of sv]
  have "dll (next_channel (remove_channel sv i s)) (prev_channel (remove_channel sv i s))
      (cs_list (remove_channel sv i s) sv) (remove1 i xs)"
    using d assms(2) by (rule dll_remove) (simp_all add: links)
  then show ?thesis by (simp add: channel_list_def)
qed

end
