(* ===== verification/Asio_Scheduler.thy ===== *)
theory Asio_Scheduler
  imports Prelude
begin

text \<open>
  The portable scheduler, \<^verbatim>\<open>asio/detail/impl/scheduler.ipp\<close>, with the event of \<^verbatim>\<open>posix_event.hpp\<close> that its
  threads wait for. Threads are numbers, each with a place in the code; a step is what one of them does
  from taking the lock to releasing it, or between two of these. Calls of the functions that run the loop
  are not nested.
\<close>

section \<open>State\<close>

text \<open>An operation is a number; the position of the task in the queue is \<open>Task_operation\<close>.\<close>

datatype queue_entry = Task_operation | Operation nat

datatype loop_function = Fn_run | Fn_run_one | Fn_poll | Fn_poll_one | Fn_wait_one

text \<open>
  Outside the functions; at the head of their loop, to take the lock; in \<open>pthread_cond_wait\<close>; woken from it,
  to take the lock again; in the call of the task, which may block or not; in the completion of an
  operation.
\<close>

datatype sched_place = Outside | To_lock | Asleep | Woken_up | In_task bool | Completing nat

record sched_thread =
  th_place :: sched_place
  th_function :: loop_function
  th_private_queue :: "nat list"
  th_private_work :: int

text \<open>
  \<open>sd_signalled\<close> and \<open>sd_waiters\<close> are the lowest bit and the rest of the state of the event. \<open>sd_signals\<close> counts
  the calls of \<open>pthread_cond_signal\<close> that are due, since they come after the lock is released.
  \<open>sd_interrupts\<close> counts the interruptions of the task, \<open>sd_done\<close> and \<open>sd_destroyed\<close> are the operations that
  were completed and destroyed.
\<close>

record sched =
  sd_one_thread :: bool
  sd_task :: bool
  sd_task_interrupted :: bool
  sd_outstanding :: int
  sd_queue :: "queue_entry list"
  sd_stopped :: bool
  sd_shutdown :: bool
  sd_signalled :: bool
  sd_waiters :: nat
  sd_signals :: nat
  sd_interrupts :: nat
  sd_threads :: "nat \<Rightarrow> sched_thread"
  sd_done :: "nat list"
  sd_destroyed :: "nat list"

definition thread_init :: sched_thread where
  "thread_init = \<lparr>th_place = Outside, th_function = Fn_run, th_private_queue = [], th_private_work = 0\<rparr>"

definition sched_init :: "bool \<Rightarrow> sched" where
  "sched_init one_thread =
     \<lparr>sd_one_thread = one_thread, sd_task = False, sd_task_interrupted = True, sd_outstanding = 0, sd_queue = [],
      sd_stopped = False, sd_shutdown = False, sd_signalled = False, sd_waiters = 0, sd_signals = 0, sd_interrupts = 0,
      sd_threads = (\<lambda>_. thread_init), sd_done = [], sd_destroyed = []\<rparr>"

definition on_thread :: "nat \<Rightarrow> (sched_thread \<Rightarrow> sched_thread) \<Rightarrow> sched \<Rightarrow> sched" where
  "on_thread t f s = s\<lparr>sd_threads := (sd_threads s)(t := f (sd_threads s t))\<rparr>"

definition go_to :: "nat \<Rightarrow> sched_place \<Rightarrow> sched \<Rightarrow> sched" where
  "go_to t p s = on_thread t (\<lambda>x. x\<lparr>th_place := p\<rparr>) s"

abbreviation place :: "sched \<Rightarrow> nat \<Rightarrow> sched_place" where
  "place s t \<equiv> th_place (sd_threads s t)"

section \<open>The event\<close>

text \<open>A broadcast wakes every thread that is asleep.\<close>

definition event_signal_all :: "sched \<Rightarrow> sched" where
  "event_signal_all s =
     s\<lparr>sd_signalled := True,
       sd_threads := (\<lambda>t. let x = sd_threads s t in if th_place x = Asleep then x\<lparr>th_place := Woken_up\<rparr> else x)\<rparr>"

definition event_unlock_and_signal_one :: "sched \<Rightarrow> sched" where
  "event_unlock_and_signal_one s =
     (let s1 = s\<lparr>sd_signalled := True\<rparr> in if sd_waiters s1 > 0 then s1\<lparr>sd_signals := sd_signals s1 + 1\<rparr> else s1)"

definition event_maybe_unlock_and_signal_one :: "sched \<Rightarrow> bool \<times> sched" where
  "event_maybe_unlock_and_signal_one s =
     (let s1 = s\<lparr>sd_signalled := True\<rparr>
      in if sd_waiters s1 > 0 then (True, s1\<lparr>sd_signals := sd_signals s1 + 1\<rparr>) else (False, s1))"

definition event_clear :: "sched \<Rightarrow> sched" where
  "event_clear s = s\<lparr>sd_signalled := False\<rparr>"

text \<open>Going to sleep, when the event is not signalled.\<close>

definition event_sleep :: "nat \<Rightarrow> sched \<Rightarrow> sched" where
  "event_sleep t s = go_to t Asleep (s\<lparr>sd_waiters := sd_waiters s + 1\<rparr>)"

section \<open>Stopping, waking and counting work\<close>

definition interrupt_task :: "sched \<Rightarrow> sched" where
  "interrupt_task s =
     (if \<not> sd_task_interrupted s \<and> sd_task s then s\<lparr>sd_task_interrupted := True, sd_interrupts := sd_interrupts s + 1\<rparr> else s)"

definition stop_all_threads :: "sched \<Rightarrow> sched" where
  "stop_all_threads s = interrupt_task (event_signal_all (s\<lparr>sd_stopped := True\<rparr>))"

definition wake_one_thread_and_unlock :: "sched \<Rightarrow> sched" where
  "wake_one_thread_and_unlock s =
     (let (signalled, s1) = event_maybe_unlock_and_signal_one s in if signalled then s1 else interrupt_task s1)"

definition sched_stop :: "sched \<Rightarrow> sched" where
  "sched_stop s = stop_all_threads s"

definition sched_restart :: "sched \<Rightarrow> sched" where
  "sched_restart s = s\<lparr>sd_stopped := False\<rparr>"

definition sched_work_started :: "sched \<Rightarrow> sched" where
  "sched_work_started s = s\<lparr>sd_outstanding := sd_outstanding s + 1\<rparr>"

definition sched_work_finished :: "sched \<Rightarrow> sched" where
  "sched_work_finished s =
     (let s1 = s\<lparr>sd_outstanding := sd_outstanding s - 1\<rparr> in if sd_outstanding s1 = 0 then sched_stop s1 else s1)"

definition compensating_work_started :: "nat \<Rightarrow> sched \<Rightarrow> sched" where
  "compensating_work_started t s = on_thread t (\<lambda>x. x\<lparr>th_private_work := th_private_work x + 1\<rparr>) s"

definition init_task :: "sched \<Rightarrow> sched" where
  "init_task s =
     (if \<not> sd_shutdown s \<and> \<not> sd_task s
      then wake_one_thread_and_unlock (s\<lparr>sd_task := True, sd_queue := sd_queue s @ [Task_operation]\<rparr>)
      else s)"

section \<open>Posting\<close>

text \<open>\<open>this_thread\<close> is the calling thread, when it is in a function of this scheduler.\<close>

definition push_private :: "nat \<Rightarrow> nat list \<Rightarrow> int \<Rightarrow> sched \<Rightarrow> sched" where
  "push_private t ops work s =
     on_thread t (\<lambda>x. x\<lparr>th_private_queue := th_private_queue x @ ops, th_private_work := th_private_work x + work\<rparr>) s"

definition push_and_wake :: "nat list \<Rightarrow> sched \<Rightarrow> sched" where
  "push_and_wake ops s = wake_one_thread_and_unlock (s\<lparr>sd_queue := sd_queue s @ map Operation ops\<rparr>)"

definition sched_post_immediate :: "nat option \<Rightarrow> nat \<Rightarrow> bool \<Rightarrow> sched \<Rightarrow> sched" where
  "sched_post_immediate this_thread op is_continuation s =
     (case (sd_one_thread s \<or> is_continuation, this_thread) of
        (True, Some t) \<Rightarrow> push_private t [op] 1 s
      | _ \<Rightarrow> push_and_wake [op] (sched_work_started s))"

definition sched_post_immediates :: "nat option \<Rightarrow> nat list \<Rightarrow> bool \<Rightarrow> sched \<Rightarrow> sched" where
  "sched_post_immediates this_thread ops is_continuation s =
     (case (sd_one_thread s \<or> is_continuation, this_thread) of
        (True, Some t) \<Rightarrow> push_private t ops (int (length ops)) s
      | _ \<Rightarrow> push_and_wake ops (s\<lparr>sd_outstanding := sd_outstanding s + int (length ops)\<rparr>))"

definition sched_post_deferred :: "nat option \<Rightarrow> nat \<Rightarrow> sched \<Rightarrow> sched" where
  "sched_post_deferred this_thread op s =
     (case (sd_one_thread s, this_thread) of
        (True, Some t) \<Rightarrow> push_private t [op] 0 s
      | _ \<Rightarrow> push_and_wake [op] s)"

definition sched_post_deferreds :: "nat option \<Rightarrow> nat list \<Rightarrow> sched \<Rightarrow> sched" where
  "sched_post_deferreds this_thread ops s =
     (if ops = [] then s
      else case (sd_one_thread s, this_thread) of
        (True, Some t) \<Rightarrow> push_private t ops 0 s
      | _ \<Rightarrow> push_and_wake ops s)"

definition sched_do_dispatch :: "nat \<Rightarrow> sched \<Rightarrow> sched" where
  "sched_do_dispatch op s = push_and_wake [op] (sched_work_started s)"

definition sched_abandon :: "nat list \<Rightarrow> sched \<Rightarrow> sched" where
  "sched_abandon ops s = s\<lparr>sd_destroyed := sd_destroyed s @ ops\<rparr>"

section \<open>The loop\<close>

text \<open>Taking an operation, or the task, from the queue whose rest is \<open>q\<close>.\<close>

definition sched_take_operation :: "nat \<Rightarrow> nat \<Rightarrow> queue_entry list \<Rightarrow> sched \<Rightarrow> sched" where
  "sched_take_operation t op q s =
     (let s1 = go_to t (Completing op) (s\<lparr>sd_queue := q\<rparr>)
      in if q \<noteq> [] \<and> \<not> sd_one_thread s1 then wake_one_thread_and_unlock s1 else s1)"

definition take_task :: "nat \<Rightarrow> bool \<Rightarrow> queue_entry list \<Rightarrow> sched \<Rightarrow> sched" where
  "take_task t may_block q s =
     (let s1 = go_to t (In_task (q = [] \<and> may_block)) (s\<lparr>sd_queue := q, sd_task_interrupted := (q \<noteq> [])\<rparr>)
      in if q \<noteq> [] \<and> \<not> sd_one_thread s1 then event_unlock_and_signal_one s1 else s1)"

text \<open>One round of the loop of \<open>do_run_one\<close>.\<close>

definition run_round :: "nat \<Rightarrow> sched \<Rightarrow> sched" where
  "run_round t s =
     (if sd_stopped s then go_to t Outside s
      else case sd_queue s of
        Task_operation # q \<Rightarrow> take_task t True q s
      | Operation op # q \<Rightarrow> sched_take_operation t op q s
      | [] \<Rightarrow> event_sleep t (event_clear s))"

text \<open>
  \<open>do_wait_one\<close> and \<open>do_poll_one\<close>: the part with the task, and the part behind it. \<open>do_wait_one\<close> lets the task
  block only when it has not waited before.
\<close>

definition behind_task :: "nat \<Rightarrow> sched \<Rightarrow> sched" where
  "behind_task t s =
     (case sd_queue s of
        Task_operation # q \<Rightarrow>
          let s1 = (if th_function (sd_threads s t) = Fn_wait_one \<and> sd_one_thread s then s
                    else snd (event_maybe_unlock_and_signal_one s))
          in go_to t Outside s1
      | Operation op # q \<Rightarrow> sched_take_operation t op q s
      | [] \<Rightarrow> go_to t Outside s)"

definition wait_front :: "nat \<Rightarrow> bool \<Rightarrow> sched \<Rightarrow> sched" where
  "wait_front t may_block s =
     (case sd_queue s of
        Task_operation # q \<Rightarrow> take_task t may_block q s
      | Operation op # q \<Rightarrow> sched_take_operation t op q s
      | [] \<Rightarrow> go_to t Outside s)"

definition wait_round :: "nat \<Rightarrow> sched \<Rightarrow> sched" where
  "wait_round t s =
     (if sd_stopped s then go_to t Outside s
      else if sd_queue s = [] then event_sleep t (event_clear s)
      else wait_front t True s)"

definition poll_round :: "nat \<Rightarrow> sched \<Rightarrow> sched" where
  "poll_round t s =
     (if sd_stopped s then go_to t Outside s
      else case sd_queue s of
        Task_operation # q \<Rightarrow> go_to t (In_task False) (s\<lparr>sd_queue := q\<rparr>)
      | Operation op # q \<Rightarrow> sched_take_operation t op q s
      | [] \<Rightarrow> go_to t Outside s)"

definition round_of :: "nat \<Rightarrow> sched \<Rightarrow> sched" where
  "round_of t s =
     (case th_function (sd_threads s t) of
        Fn_run \<Rightarrow> run_round t s
      | Fn_run_one \<Rightarrow> run_round t s
      | Fn_wait_one \<Rightarrow> wait_round t s
      | _ \<Rightarrow> poll_round t s)"

text \<open>
  A woken thread with the lock again. \<open>wait\<close> sleeps on when the event is not signalled, and the timed wait of
  \<open>do_wait_one\<close> does not.
\<close>

definition wake_round :: "nat \<Rightarrow> sched \<Rightarrow> sched" where
  "wake_round t s =
     (let s1 = s\<lparr>sd_waiters := sd_waiters s - 1\<rparr>
      in if th_function (sd_threads s1 t) = Fn_wait_one then wait_front t False s1
         else if sd_signalled s1 then run_round t s1
         else event_sleep t s1)"

text \<open>The functions, up to the loop.\<close>

definition enter_loop :: "loop_function \<Rightarrow> nat \<Rightarrow> sched \<Rightarrow> sched" where
  "enter_loop f t s =
     (if sd_outstanding s = 0 then sched_stop s
      else on_thread t (\<lambda>x. \<lparr>th_place = To_lock, th_function = f, th_private_queue = [], th_private_work = 0\<rparr>) s)"

text \<open>
  The end of the task, which has put \<open>ops\<close> into the private queue: \<open>task_cleanup\<close>, and what the thread does with
  the lock that it takes there.
\<close>

definition add_private_work :: "nat \<Rightarrow> int \<Rightarrow> sched \<Rightarrow> sched" where
  "add_private_work t n s = on_thread t (\<lambda>x. x\<lparr>th_private_work := 0\<rparr>) (s\<lparr>sd_outstanding := sd_outstanding s + n\<rparr>)"

definition flush_private_queue :: "nat \<Rightarrow> sched \<Rightarrow> sched" where
  "flush_private_queue t s =
     on_thread t (\<lambda>x. x\<lparr>th_private_queue := []\<rparr>)
       (s\<lparr>sd_queue := sd_queue s @ map Operation (th_private_queue (sd_threads s t))\<rparr>)"

definition task_cleanup :: "nat \<Rightarrow> sched \<Rightarrow> sched" where
  "task_cleanup t s =
     (let w = th_private_work (sd_threads s t);
          s1 = add_private_work t (if w > 0 then w else 0) s;
          s2 = flush_private_queue t (s1\<lparr>sd_task_interrupted := True\<rparr>)
      in s2\<lparr>sd_queue := sd_queue s2 @ [Task_operation]\<rparr>)"

definition task_returns :: "nat \<Rightarrow> nat list \<Rightarrow> sched \<Rightarrow> sched" where
  "task_returns t ops s =
     (let s1 = task_cleanup t (push_private t ops 0 s)
      in case th_function (sd_threads s1 t) of
           Fn_run \<Rightarrow> run_round t s1
         | Fn_run_one \<Rightarrow> run_round t s1
         | _ \<Rightarrow> behind_task t s1)"

text \<open>
  The end of a completion, by its return or by an exception, with \<open>work_cleanup\<close>. That the lock is kept for the
  next round when \<open>work_cleanup\<close> has taken it is not modelled: another thread may come first.
\<close>

definition work_cleanup :: "nat \<Rightarrow> sched \<Rightarrow> sched" where
  "work_cleanup t s =
     (let w = th_private_work (sd_threads s t);
          s1 = (if w > 1 then add_private_work t (w - 1) s
                else if w < 1 then add_private_work t 0 (sched_work_finished s)
                else add_private_work t 0 s)
      in if th_private_queue (sd_threads s1 t) \<noteq> [] then flush_private_queue t s1 else s1)"

definition loops :: "loop_function \<Rightarrow> bool" where
  "loops f \<longleftrightarrow> f = Fn_run \<or> f = Fn_poll"

definition completion_ends :: "nat \<Rightarrow> bool \<Rightarrow> sched \<Rightarrow> sched" where
  "completion_ends t threw s =
     (case place s t of
        Completing op \<Rightarrow>
          let s1 = work_cleanup t (s\<lparr>sd_done := sd_done s @ [op]\<rparr>)
          in go_to t (if loops (th_function (sd_threads s1 t)) \<and> \<not> threw then To_lock else Outside) s1
      | _ \<Rightarrow> s)"

text \<open>\<open>shutdown\<close>, when no thread is in a function of the scheduler, destroys the operations of the queue.\<close>

fun operations_in :: "queue_entry list \<Rightarrow> nat list" where
  "operations_in [] = []"
| "operations_in (Operation op # q) = op # operations_in q"
| "operations_in (Task_operation # q) = operations_in q"

definition sched_shutdown :: "sched \<Rightarrow> sched" where
  "sched_shutdown s =
     s\<lparr>sd_shutdown := True, sd_task := False, sd_queue := [],
       sd_destroyed := sd_destroyed s @ operations_in (sd_queue s)\<rparr>"

end
