(* ===== verification/Asio_Scheduler_Facts.thy ===== *)
theory Asio_Scheduler_Facts
  imports Asio_Scheduler "HOL-Library.Multiset"
begin

text \<open>
  Runs of the scheduler: threads that enter its functions, what they do from lock to lock, the posts of
  other threads and what the system does with sleeping threads, in any interleaving. The invariant says
  that whenever there is something in the queue and a thread sleeps, some thread is on its way to it.
\<close>

section \<open>Events\<close>

text \<open>
  \<open>Sd_signal\<close> is a call of \<open>pthread_cond_signal\<close> that was due, with the thread it wakes, \<open>Sd_wake\<close> a wake-up
  without a cause or by the time-out.
\<close>

datatype sched_event =
    Sd_enter loop_function nat
  | Sd_lock nat
  | Sd_relock nat
  | Sd_signal "nat option"
  | Sd_wake nat
  | Sd_task_returns nat "nat list"
  | Sd_completed nat bool
  | Sd_post "nat option" nat bool
  | Sd_posts "nat option" "nat list" bool
  | Sd_post_deferred "nat option" nat
  | Sd_post_deferreds "nat option" "nat list"
  | Sd_dispatch nat
  | Sd_abandon "nat list"
  | Sd_compensate nat
  | Sd_work_started
  | Sd_work_finished
  | Sd_stop
  | Sd_restart
  | Sd_init_task

definition inside :: "sched \<Rightarrow> nat option \<Rightarrow> bool" where
  "inside s this_thread \<longleftrightarrow>
     (case this_thread of None \<Rightarrow> True | Some t \<Rightarrow> (case place s t of Completing op \<Rightarrow> True | In_task b \<Rightarrow> True | _ \<Rightarrow> False))"

fun sched_possible :: "sched_event \<Rightarrow> sched \<Rightarrow> bool" where
  "sched_possible (Sd_enter f t) s \<longleftrightarrow> place s t = Outside"
| "sched_possible (Sd_lock t) s \<longleftrightarrow> place s t = To_lock"
| "sched_possible (Sd_relock t) s \<longleftrightarrow> place s t = Woken_up"
| "sched_possible (Sd_signal w) s \<longleftrightarrow>
     sd_signals s > 0 \<and> (case w of Some t \<Rightarrow> place s t = Asleep | None \<Rightarrow> \<forall>t. place s t \<noteq> Asleep)"
| "sched_possible (Sd_wake t) s \<longleftrightarrow> place s t = Asleep"
| "sched_possible (Sd_task_returns t ops) s \<longleftrightarrow> (case place s t of In_task b \<Rightarrow> True | _ \<Rightarrow> False)"
| "sched_possible (Sd_completed t threw) s \<longleftrightarrow> (case place s t of Completing op \<Rightarrow> True | _ \<Rightarrow> False)"
| "sched_possible (Sd_post w op cont) s \<longleftrightarrow> inside s w"
| "sched_possible (Sd_posts w ops cont) s \<longleftrightarrow> inside s w"
| "sched_possible (Sd_post_deferred w op) s \<longleftrightarrow> inside s w"
| "sched_possible (Sd_post_deferreds w ops) s \<longleftrightarrow> inside s w"
| "sched_possible (Sd_compensate t) s \<longleftrightarrow> inside s (Some t)"
| "sched_possible e s \<longleftrightarrow> True"

definition wake_thread :: "nat \<Rightarrow> sched \<Rightarrow> sched" where
  "wake_thread t s = go_to t Woken_up s"

fun sched_step :: "sched_event \<Rightarrow> sched \<Rightarrow> sched" where
  "sched_step (Sd_enter f t) s = enter_loop f t s"
| "sched_step (Sd_lock t) s = round_of t s"
| "sched_step (Sd_relock t) s = wake_round t s"
| "sched_step (Sd_signal w) s =
     (let s1 = s\<lparr>sd_signals := sd_signals s - 1\<rparr> in case w of None \<Rightarrow> s1 | Some t \<Rightarrow> wake_thread t s1)"
| "sched_step (Sd_wake t) s = wake_thread t s"
| "sched_step (Sd_task_returns t ops) s = task_returns t ops s"
| "sched_step (Sd_completed t threw) s = completion_ends t threw s"
| "sched_step (Sd_post w op cont) s = sched_post_immediate w op cont s"
| "sched_step (Sd_posts w ops cont) s = sched_post_immediates w ops cont s"
| "sched_step (Sd_post_deferred w op) s = sched_post_deferred w op s"
| "sched_step (Sd_post_deferreds w ops) s = sched_post_deferreds w ops s"
| "sched_step (Sd_dispatch op) s = sched_do_dispatch op s"
| "sched_step (Sd_abandon ops) s = sched_abandon ops s"
| "sched_step (Sd_compensate t) s = compensating_work_started t s"
| "sched_step Sd_work_started s = sched_work_started s"
| "sched_step Sd_work_finished s = sched_work_finished s"
| "sched_step Sd_stop s = sched_stop s"
| "sched_step Sd_restart s = sched_restart s"
| "sched_step Sd_init_task s = init_task s"

text \<open>A run of possible events; a condition on each event and the state it happens in.\<close>

fun sched_runs :: "(sched_event \<Rightarrow> sched \<Rightarrow> bool) \<Rightarrow> sched_event list \<Rightarrow> sched \<Rightarrow> bool" where
  "sched_runs P [] s \<longleftrightarrow> True"
| "sched_runs P (e # es) s \<longleftrightarrow> sched_possible e s \<and> P e s \<and> sched_runs P es (sched_step e s)"

definition sched_run :: "sched_event list \<Rightarrow> sched \<Rightarrow> sched" where
  "sched_run es s = fold sched_step es s"

section \<open>The parts of the invariant\<close>

definition waits :: "sched_place \<Rightarrow> bool" where
  "waits p \<longleftrightarrow> p = Asleep \<or> p = Woken_up"

definition in_task :: "sched_place \<Rightarrow> bool" where
  "in_task p \<longleftrightarrow> p = In_task True \<or> p = In_task False"

definition counted :: "sched \<Rightarrow> bool" where
  "counted s \<longleftrightarrow> finite {t. place s t \<noteq> Outside} \<and> sd_waiters s = card {t. waits (place s t)}"

definition one_task :: "sched \<Rightarrow> bool" where
  "one_task s \<longleftrightarrow> count_list (sd_queue s) Task_operation \<le> 1 \<and>
     (Task_operation \<in> set (sd_queue s) \<longrightarrow> sd_task s \<and> (\<forall>t. \<not> in_task (place s t))) \<and>
     (\<forall>t. in_task (place s t) \<longrightarrow> sd_task s) \<and> (\<forall>t u. in_task (place s t) \<longrightarrow> in_task (place s u) \<longrightarrow> t = u)"

definition stop_seen :: "sched \<Rightarrow> bool" where
  "stop_seen s \<longleftrightarrow> (sd_stopped s \<longrightarrow> sd_signalled s \<and>
     (\<forall>t. place s t \<noteq> Asleep \<and> (place s t = In_task True \<longrightarrow> sd_task_interrupted s)))"

text \<open>A thread that sleeps, or blocks in the task; a thread that comes to the queue.\<close>

definition idles :: "sched \<Rightarrow> nat \<Rightarrow> bool" where
  "idles s t \<longleftrightarrow> waits (place s t) \<or> place s t = In_task True \<and> \<not> sd_task_interrupted s"

definition comes :: "sched \<Rightarrow> nat \<Rightarrow> bool" where
  "comes s t \<longleftrightarrow> place s t = To_lock \<or> place s t = In_task False \<or> place s t = In_task True \<and> sd_task_interrupted s \<or>
     place s t = Woken_up \<and> (sd_signalled s \<or> th_function (sd_threads s t) = Fn_wait_one) \<or>
     place s t = Asleep \<and> sd_signalled s \<and> sd_signals s > 0"

definition attended :: "sched \<Rightarrow> bool" where
  "attended s \<longleftrightarrow> (sd_queue s \<noteq> [] \<longrightarrow> (\<exists>t. idles s t) \<longrightarrow> (\<exists>t. comes s t))"

lemmas sched_inv_defs = counted_def one_task_def stop_seen_def attended_def

lemma waits_simps [simp]:
  "waits Asleep" "waits Woken_up" "\<not> waits Outside" "\<not> waits To_lock" "\<not> waits (In_task b)" "\<not> waits (Completing op)"
  by (simp_all add: waits_def)

lemma in_task_simps [simp]:
  "in_task (In_task b)" "\<not> in_task Asleep" "\<not> in_task Woken_up" "\<not> in_task Outside" "\<not> in_task To_lock" "\<not> in_task (Completing op)"
  by (cases b; simp add: in_task_def)+

lemma place_on_thread [simp]:
  "place (on_thread t f s) u = (if u = t then th_place (f (sd_threads s t)) else place s u)"
  "place (go_to t p s) u = (if u = t then p else place s u)"
  by (simp_all add: on_thread_def go_to_def)

lemma function_on_thread [simp]:
  "th_function (sd_threads (go_to t p s) u) = th_function (sd_threads s u)"
  by (simp add: on_thread_def go_to_def)

lemma on_thread_fields [simp]:
  "sd_queue (on_thread t f s) = sd_queue s" "sd_signalled (on_thread t f s) = sd_signalled s" "sd_signals (on_thread t f s) = sd_signals s"
  "sd_waiters (on_thread t f s) = sd_waiters s" "sd_task (on_thread t f s) = sd_task s" "sd_stopped (on_thread t f s) = sd_stopped s"
  "sd_task_interrupted (on_thread t f s) = sd_task_interrupted s" "sd_one_thread (on_thread t f s) = sd_one_thread s"
  "sd_outstanding (on_thread t f s) = sd_outstanding s" "sd_done (on_thread t f s) = sd_done s"
  "sd_destroyed (on_thread t f s) = sd_destroyed s"
  "sd_queue (go_to t p s) = sd_queue s" "sd_signalled (go_to t p s) = sd_signalled s" "sd_signals (go_to t p s) = sd_signals s"
  "sd_waiters (go_to t p s) = sd_waiters s" "sd_task (go_to t p s) = sd_task s" "sd_stopped (go_to t p s) = sd_stopped s"
  "sd_task_interrupted (go_to t p s) = sd_task_interrupted s" "sd_one_thread (go_to t p s) = sd_one_thread s"
  "sd_outstanding (go_to t p s) = sd_outstanding s" "sd_done (go_to t p s) = sd_done s"
  "sd_destroyed (go_to t p s) = sd_destroyed s"
  by (simp_all add: on_thread_def go_to_def)

section \<open>Counting the threads that wait\<close>

lemma counted_waits: "counted s \<Longrightarrow> sd_waiters s = 0 \<longleftrightarrow> (\<forall>t. \<not> waits (place s t))"
proof -
  assume c: "counted s"
  have "{t. waits (place s t)} \<subseteq> {t. place s t \<noteq> Outside}" by auto
  then have "finite {t. waits (place s t)}" using c finite_subset by (auto simp: counted_def)
  then show ?thesis using c by (auto simp: counted_def)
qed

text \<open>One thread goes from place to place.\<close>

lemma counted_move:
  assumes "counted s" and "\<And>u. u \<noteq> t \<Longrightarrow> place s' u = place s u"
    and "sd_waiters s' + (if waits (place s t) then 1 else 0) = sd_waiters s + (if waits (place s' t) then 1 else 0)"
  shows "counted s'"
proof -
  let ?W = "{u. u \<noteq> t \<and> waits (place s u)}"
  have "{u. place s' u \<noteq> Outside} \<subseteq> insert t {u. place s u \<noteq> Outside}" using assms(2) by auto
  then have f: "finite {u. place s' u \<noteq> Outside}" using assms(1) by (auto simp: counted_def intro: finite_subset)
  have "?W \<subseteq> {u. place s u \<noteq> Outside}" by auto
  then have w: "finite ?W" using assms(1) by (auto simp: counted_def intro: finite_subset)
  have "{u. waits (place s u)} = (if waits (place s t) then insert t ?W else ?W)"
    "{u. waits (place s' u)} = (if waits (place s' t) then insert t ?W else ?W)"
    using assms(2) by (auto split: if_splits) metis+
  then show ?thesis using f w assms(1,3) by (auto simp: counted_def split: if_splits)
qed

lemma counted_same: "counted s \<Longrightarrow> (\<And>u. place s' u = place s u) \<Longrightarrow> sd_waiters s' = sd_waiters s \<Longrightarrow> counted s'"
  by (rule counted_move [of s 0]) auto

section \<open>Waking\<close>

lemma signal_one_fields [simp]:
  "place (event_unlock_and_signal_one s) t = place s t" "sd_queue (event_unlock_and_signal_one s) = sd_queue s"
  "sd_signalled (event_unlock_and_signal_one s)" "sd_task (event_unlock_and_signal_one s) = sd_task s"
  "sd_task_interrupted (event_unlock_and_signal_one s) = sd_task_interrupted s" "sd_stopped (event_unlock_and_signal_one s) = sd_stopped s"
  "sd_waiters (event_unlock_and_signal_one s) = sd_waiters s" "sd_threads (event_unlock_and_signal_one s) = sd_threads s"
  "sd_one_thread (event_unlock_and_signal_one s) = sd_one_thread s"
  "sd_waiters s > 0 \<Longrightarrow> sd_signals (event_unlock_and_signal_one s) > 0"
  "sd_outstanding (event_unlock_and_signal_one s) = sd_outstanding s" "sd_done (event_unlock_and_signal_one s) = sd_done s"
  "sd_destroyed (event_unlock_and_signal_one s) = sd_destroyed s"
  by (simp_all add: event_unlock_and_signal_one_def Let_def)

lemma maybe_signal_eq:
  "event_maybe_unlock_and_signal_one s = (sd_waiters s > 0, event_unlock_and_signal_one s)"
  by (simp add: event_maybe_unlock_and_signal_one_def event_unlock_and_signal_one_def Let_def)

lemma interrupt_task_fields [simp]:
  "place (interrupt_task s) t = place s t" "sd_queue (interrupt_task s) = sd_queue s" "sd_threads (interrupt_task s) = sd_threads s"
  "sd_signalled (interrupt_task s) = sd_signalled s" "sd_task (interrupt_task s) = sd_task s"
  "sd_stopped (interrupt_task s) = sd_stopped s" "sd_waiters (interrupt_task s) = sd_waiters s"
  "sd_signals (interrupt_task s) = sd_signals s" "sd_one_thread (interrupt_task s) = sd_one_thread s"
  "sd_task_interrupted (interrupt_task s) \<longleftrightarrow> sd_task_interrupted s \<or> sd_task s"
  "sd_outstanding (interrupt_task s) = sd_outstanding s" "sd_done (interrupt_task s) = sd_done s"
  "sd_destroyed (interrupt_task s) = sd_destroyed s"
  by (auto simp: interrupt_task_def)

lemma wake_one_eq:
  "wake_one_thread_and_unlock s =
     (if sd_waiters s > 0 then event_unlock_and_signal_one s else interrupt_task (event_unlock_and_signal_one s))"
  by (simp add: wake_one_thread_and_unlock_def maybe_signal_eq)

lemma wake_one_fields [simp]:
  "place (wake_one_thread_and_unlock s) t = place s t" "sd_queue (wake_one_thread_and_unlock s) = sd_queue s"
  "sd_threads (wake_one_thread_and_unlock s) = sd_threads s"
  "sd_task (wake_one_thread_and_unlock s) = sd_task s" "sd_stopped (wake_one_thread_and_unlock s) = sd_stopped s"
  "sd_waiters (wake_one_thread_and_unlock s) = sd_waiters s" "sd_one_thread (wake_one_thread_and_unlock s) = sd_one_thread s"
  "sd_signalled (wake_one_thread_and_unlock s)"
  "sd_outstanding (wake_one_thread_and_unlock s) = sd_outstanding s" "sd_done (wake_one_thread_and_unlock s) = sd_done s"
  "sd_destroyed (wake_one_thread_and_unlock s) = sd_destroyed s"
  by (auto simp: wake_one_eq)

lemma wake_one_interrupted: "sd_task_interrupted s \<Longrightarrow> sd_task_interrupted (wake_one_thread_and_unlock s)"
  by (simp add: wake_one_eq)

text \<open>A signal serves when some thread waits, whatever else there is.\<close>

lemma signal_comes:
  assumes "counted s" and "sd_waiters s > 0"
  shows "\<exists>t. comes (event_unlock_and_signal_one s) t"
proof -
  obtain t where "waits (place s t)" using assms counted_waits [OF assms(1)] by auto
  then have "comes (event_unlock_and_signal_one s) t" using assms(2) by (auto simp: comes_def waits_def)
  then show ?thesis by blast
qed

lemma wake_one_attended:
  assumes "counted s" and "\<forall>t. in_task (place s t) \<longrightarrow> sd_task s"
  shows "attended (wake_one_thread_and_unlock s)"
proof (cases "sd_waiters s > 0")
  case True
  then show ?thesis using signal_comes [OF assms(1)] by (simp add: attended_def wake_one_eq)
next
  case False
  then have "\<not> waits (place s t)" for t using counted_waits [OF assms(1)] by simp
  moreover have "place s t = In_task True \<Longrightarrow> sd_task s" for t using assms(2) by (metis in_task_simps(1))
  ultimately have "\<not> idles (wake_one_thread_and_unlock s) t" for t using False by (auto simp: idles_def wake_one_eq)
  then show ?thesis by (simp add: attended_def)
qed

lemma signal_attended:
  assumes "counted s" and "\<forall>t. \<not> in_task (place s t)"
  shows "attended (event_unlock_and_signal_one s)"
proof (cases "sd_waiters s > 0")
  case True
  then show ?thesis using signal_comes [OF assms(1)] by (simp add: attended_def)
next
  case False
  then have "\<not> idles (event_unlock_and_signal_one s) t" for t
    using counted_waits [OF assms(1)] assms(2) by (auto simp: idles_def) (metis in_task_simps(1))
  then show ?thesis by (simp add: attended_def)
qed

section \<open>What every step keeps\<close>

definition sched_ok :: "sched \<Rightarrow> bool" where
  "sched_ok s \<longleftrightarrow> counted s \<and> one_task s \<and> stop_seen s"

lemma place_signal_all [simp]:
  "place (event_signal_all s) t = (if place s t = Asleep then Woken_up else place s t)"
  "th_function (sd_threads (event_signal_all s) t) = th_function (sd_threads s t)"
  "th_private_queue (sd_threads (event_signal_all s) t) = th_private_queue (sd_threads s t)"
  "th_private_work (sd_threads (event_signal_all s) t) = th_private_work (sd_threads s t)"
  by (simp_all add: event_signal_all_def Let_def)

lemma stop_fields [simp]:
  "place (stop_all_threads s) t = (if place s t = Asleep then Woken_up else place s t)"
  "th_function (sd_threads (stop_all_threads s) t) = th_function (sd_threads s t)"
  "th_private_queue (sd_threads (stop_all_threads s) t) = th_private_queue (sd_threads s t)"
  "th_private_work (sd_threads (stop_all_threads s) t) = th_private_work (sd_threads s t)"
  "sd_queue (stop_all_threads s) = sd_queue s" "sd_signalled (stop_all_threads s)" "sd_task (stop_all_threads s) = sd_task s"
  "sd_stopped (stop_all_threads s)" "sd_waiters (stop_all_threads s) = sd_waiters s" "sd_one_thread (stop_all_threads s) = sd_one_thread s"
  "sd_task_interrupted (stop_all_threads s) \<longleftrightarrow> sd_task_interrupted s \<or> sd_task s"
  "sd_outstanding (stop_all_threads s) = sd_outstanding s" "sd_done (stop_all_threads s) = sd_done s"
  "sd_destroyed (stop_all_threads s) = sd_destroyed s"
  by (auto simp: stop_all_threads_def) (auto simp: event_signal_all_def)

lemma task_blocks: "one_task s \<Longrightarrow> place s t = In_task b \<Longrightarrow> sd_task s"
  by (auto simp: one_task_def dest: arg_cong [of "place s t" _ in_task])

lemma stop_ok: "sched_ok s \<Longrightarrow> sched_ok (stop_all_threads s)"
proof -
  assume ok: "sched_ok s"
  have "{t. place (stop_all_threads s) t \<noteq> Outside} = {t. place s t \<noteq> Outside}"
    "{t. waits (place (stop_all_threads s) t)} = {t. waits (place s t)}" by auto
  then have "counted (stop_all_threads s)" using ok by (simp add: sched_ok_def counted_def)
  moreover have "in_task (place (stop_all_threads s) t) \<longleftrightarrow> in_task (place s t)" for t by simp
  then have "one_task (stop_all_threads s)" using ok unfolding sched_ok_def one_task_def by (simp del: stop_fields(1))
  moreover have "stop_seen (stop_all_threads s)" using ok task_blocks [of s]
    by (simp add: stop_seen_def sched_ok_def)
  ultimately show ?thesis by (simp add: sched_ok_def)
qed

lemma stop_attended: "one_task s \<Longrightarrow> attended (stop_all_threads s)"
proof -
  assume o: "one_task s"
  have "place s t = In_task True \<Longrightarrow> sd_task s" for t using o unfolding one_task_def by (metis in_task_simps(1))
  then have "comes (stop_all_threads s) t" if "idles (stop_all_threads s) t" for t
    using that by (auto simp: idles_def comes_def waits_def split: if_splits)
  then show ?thesis by (auto simp: attended_def)
qed

text \<open>Steps that leave the threads, the task and the event.\<close>

definition same_threads :: "sched \<Rightarrow> sched \<Rightarrow> bool" where
  "same_threads s s' \<longleftrightarrow> (\<forall>t. place s' t = place s t) \<and> sd_waiters s' = sd_waiters s \<and> sd_task s' = sd_task s \<and>
     sd_stopped s' = sd_stopped s \<and> sd_one_thread s' = sd_one_thread s"

lemma same_threads_ok:
  assumes "sched_ok s" and "same_threads s s'" and "count_list (sd_queue s') Task_operation = count_list (sd_queue s) Task_operation"
    and "sd_signalled s \<Longrightarrow> sd_signalled s'" and "sd_task_interrupted s \<Longrightarrow> sd_task_interrupted s'"
  shows "sched_ok s'"
proof -
  have "Task_operation \<in> set (sd_queue s') \<longleftrightarrow> Task_operation \<in> set (sd_queue s)"
    using assms(3) by (metis count_list_0_iff)
  then show ?thesis using assms counted_same [of s s'] by (auto simp: sched_ok_def same_threads_def one_task_def stop_seen_def)
qed

lemma wake_one_ok: "sched_ok s \<Longrightarrow> sched_ok (wake_one_thread_and_unlock s)"
  by (erule same_threads_ok) (simp_all add: same_threads_def wake_one_interrupted)

lemma signal_one_ok: "sched_ok s \<Longrightarrow> sched_ok (event_unlock_and_signal_one s)"
  by (erule same_threads_ok) (simp_all add: same_threads_def)

lemma count_operations [simp]: "count_list (map Operation ops) Task_operation = 0"
  by (induction ops) auto

lemma no_task_operations [simp]: "Task_operation \<notin> Operation ` A"
  by auto

text \<open>A thread goes to a place that is neither asleep nor in the task.\<close>

lemma sched_ok_move:
  assumes "sched_ok s" and "\<And>u. u \<noteq> t \<Longrightarrow> place s' u = place s u" and "sd_task s' = sd_task s" and "sd_stopped s' = sd_stopped s"
    and "sd_waiters s' + (if waits (place s t) then 1 else 0) = sd_waiters s + (if waits (place s' t) then 1 else 0)"
    and "\<not> in_task (place s' t)" and "place s' t \<noteq> Asleep"
    and "count_list (sd_queue s') Task_operation \<le> 1"
    and "Task_operation \<in> set (sd_queue s') \<Longrightarrow> sd_task s \<and> (\<forall>u. u \<noteq> t \<longrightarrow> \<not> in_task (place s u))"
    and "sd_signalled s \<Longrightarrow> sd_signalled s'" and "sd_task_interrupted s \<Longrightarrow> sd_task_interrupted s'"
  shows "sched_ok s'"
proof -
  have c: "counted s" using assms(1) by (simp add: sched_ok_def)
  have "counted s'" using assms(2,5) by (rule counted_move [OF c])
  moreover have "one_task s'" using assms unfolding sched_ok_def one_task_def by metis
  moreover have "stop_seen s'" using assms unfolding sched_ok_def stop_seen_def by (metis in_task_simps(1))
  ultimately show ?thesis by (simp add: sched_ok_def)
qed

lemma task_count:
  "one_task s \<Longrightarrow> sd_queue s = e # q \<Longrightarrow> count_list q Task_operation \<le> 1 \<and>
    (e = Task_operation \<longrightarrow> Task_operation \<notin> set q \<and> sd_task s \<and> (\<forall>t. \<not> in_task (place s t)))"
  by (auto simp: one_task_def count_list_0_iff split: if_splits)

lemma take_operation_ok:
  assumes "sched_ok s" and "sd_queue s = Operation op # q" and "\<not> waits (place s t)" and "\<not> in_task (place s t)"
  shows "sched_ok (sched_take_operation t op q s)"
proof -
  let ?s = "go_to t (Completing op) (s\<lparr>sd_queue := q\<rparr>)"
  have o: "one_task s" using assms(1) by (simp add: sched_ok_def)
  have "sched_ok ?s"
    by (rule sched_ok_move [OF assms(1), of t]) (use assms o task_count [OF o assms(2)] in \<open>auto simp: one_task_def\<close>)
  then show ?thesis using wake_one_ok by (auto simp: sched_take_operation_def Let_def)
qed

lemma attended_empty: "sd_queue s = [] \<Longrightarrow> attended s"
  by (simp add: attended_def)

lemma attended_comes: "comes s t \<Longrightarrow> attended s"
  by (auto simp: attended_def)

lemma take_operation_attended:
  assumes "sched_ok s" and "sd_queue s = Operation op # q" and "\<not> waits (place s t)" and "\<not> in_task (place s t)" and "\<not> sd_one_thread s"
  shows "attended (sched_take_operation t op q s)"
proof (cases "q = []")
  case True
  then show ?thesis by (simp add: sched_take_operation_def attended_empty)
next
  case False
  let ?s = "go_to t (Completing op) (s\<lparr>sd_queue := q\<rparr>)"
  have c: "counted s" using assms(1) by (simp add: sched_ok_def)
  have "counted ?s" by (rule counted_move [OF c, of t]) (use assms(3) in auto)
  then have "attended (wake_one_thread_and_unlock ?s)"
    using assms(1) by (intro wake_one_attended) (auto simp: sched_ok_def one_task_def)
  then show ?thesis using False assms(5) by (simp add: sched_take_operation_def)
qed

lemma take_task_ok:
  assumes "sched_ok s" and "sd_queue s = Task_operation # q" and "\<not> waits (place s t)" and "\<not> sd_stopped s \<or> \<not> b"
  shows "sched_ok (take_task t b q s)"
proof -
  let ?s = "go_to t (In_task (q = [] \<and> b)) (s\<lparr>sd_queue := q, sd_task_interrupted := (q \<noteq> [])\<rparr>)"
  have o: "one_task s" using assms(1) by (simp add: sched_ok_def)
  have c: "counted s" using assms(1) by (simp add: sched_ok_def)
  have "counted ?s" by (rule counted_move [OF c, of t]) (use assms(3) in auto)
  moreover have "one_task ?s" using task_count [OF o assms(2)] by (auto simp: one_task_def)
  moreover have "place s u \<noteq> In_task True" for u using task_count [OF o assms(2)] by (metis in_task_simps(1))
  then have "stop_seen ?s" using assms(1,4) by (auto simp: sched_ok_def stop_seen_def)
  ultimately have "sched_ok ?s" by (simp add: sched_ok_def)
  then show ?thesis using signal_one_ok by (auto simp: take_task_def Let_def)
qed

lemma take_task_attended: "attended (take_task t b q s)"
  by (cases "q = []") (auto simp: take_task_def attended_empty comes_def Let_def intro: attended_comes [of _ t])

end
