(* ===== verification/Asio_Scheduler_Runs.thy ===== *)
theory Asio_Scheduler_Runs
  imports Asio_Scheduler_Facts
begin

text \<open>
  Every step keeps the invariant of the scheduler's threads, and the steps that leave no operation behind
  in a private queue keep the queue attended; the work that is counted; a wake-up that is lost.
\<close>

section \<open>The rounds\<close>

lemma stopped_attended: "sched_ok s \<Longrightarrow> sd_stopped s \<Longrightarrow> attended s"
  by (auto simp: attended_def sched_ok_def stop_seen_def idles_def comes_def waits_def)

lemma go_on_ok:
  assumes "sched_ok s" and "\<not> waits (place s t)" and "p = Outside \<or> p = To_lock"
  shows "sched_ok (go_to t p s)"
  by (rule sched_ok_move [OF assms(1), of t]) (use assms in \<open>auto simp: sched_ok_def one_task_def\<close>)

lemma sleep_ok:
  assumes "sched_ok s" and "\<not> waits (place s t)" and "\<not> in_task (place s t)" and "\<not> sd_stopped s"
  shows "sched_ok (event_sleep t (s\<lparr>sd_signalled := b\<rparr>))"
proof -
  let ?s = "event_sleep t (s\<lparr>sd_signalled := b\<rparr>)"
  have c: "counted s" using assms(1) by (simp add: sched_ok_def)
  have "counted ?s" by (rule counted_move [OF c, of t]) (use assms(2) in \<open>auto simp: event_sleep_def\<close>)
  then show ?thesis using assms by (auto simp: sched_ok_def event_sleep_def one_task_def stop_seen_def)
qed

lemma run_round_ok:
  assumes "sched_ok s" and "\<not> waits (place s t)" and "\<not> in_task (place s t)"
  shows "sched_ok (run_round t s)"
  using assms go_on_ok [of s t] sleep_ok [of s t False] take_task_ok [of s _ t True] take_operation_ok [of s _ _ t]
  by (auto simp: run_round_def event_clear_def split: list.split queue_entry.split)

lemma wait_front_ok:
  assumes "sched_ok s" and "\<not> waits (place s t)" and "\<not> in_task (place s t)" and "\<not> sd_stopped s \<or> \<not> b"
  shows "sched_ok (wait_front t b s)"
  using assms go_on_ok [of s t] take_task_ok [of s _ t b] take_operation_ok [of s _ _ t]
  by (auto simp: wait_front_def split: list.split queue_entry.split)

lemma wait_round_ok:
  assumes "sched_ok s" and "\<not> waits (place s t)" and "\<not> in_task (place s t)"
  shows "sched_ok (wait_round t s)"
  using assms go_on_ok [of s t] sleep_ok [of s t False] wait_front_ok [of s t True]
  by (auto simp: wait_round_def event_clear_def)

lemma poll_task_ok:
  assumes "sched_ok s" and "sd_queue s = Task_operation # q" and "\<not> waits (place s t)"
  shows "sched_ok (go_to t (In_task False) (s\<lparr>sd_queue := q\<rparr>))"
proof -
  have o: "one_task s" and c: "counted s" using assms(1) by (simp_all add: sched_ok_def)
  have "counted (go_to t (In_task False) (s\<lparr>sd_queue := q\<rparr>))" by (rule counted_move [OF c, of t]) (use assms(3) in auto)
  moreover have "one_task (go_to t (In_task False) (s\<lparr>sd_queue := q\<rparr>))" using task_count [OF o assms(2)] by (auto simp: one_task_def)
  ultimately show ?thesis using assms(1) by (auto simp: sched_ok_def stop_seen_def)
qed

lemma poll_round_ok:
  assumes "sched_ok s" and "\<not> waits (place s t)" and "\<not> in_task (place s t)"
  shows "sched_ok (poll_round t s)"
  using assms go_on_ok [of s t] poll_task_ok [of s _ t] take_operation_ok [of s _ _ t]
  by (auto simp: poll_round_def split: list.split queue_entry.split)

lemma behind_task_ok:
  assumes "sched_ok s" and "\<not> waits (place s t)" and "\<not> in_task (place s t)"
  shows "sched_ok (behind_task t s)"
  using assms go_on_ok [of s t] go_on_ok [OF signal_one_ok [OF assms(1)], of t] take_operation_ok [of s _ _ t]
  by (auto simp: behind_task_def maybe_signal_eq Let_def split: list.split queue_entry.split)

lemma round_of_ok: "sched_ok s \<Longrightarrow> place s t = To_lock \<Longrightarrow> sched_ok (round_of t s)"
  by (simp add: round_of_def run_round_ok wait_round_ok poll_round_ok split: loop_function.split)

section \<open>The queue stays attended\<close>

lemma run_round_attended:
  assumes "sched_ok s" and "\<not> waits (place s t)" and "\<not> in_task (place s t)" and "\<not> sd_one_thread s"
  shows "attended (run_round t s)"
  using assms go_on_ok [of s t] take_operation_attended [of s _ _ t] take_task_attended [of t]
  by (auto simp: run_round_def event_clear_def event_sleep_def attended_empty intro: stopped_attended
      split: list.split queue_entry.split)

lemma wait_front_attended:
  assumes "sched_ok s" and "\<not> waits (place s t)" and "\<not> in_task (place s t)" and "\<not> sd_one_thread s"
  shows "attended (wait_front t b s)"
  using assms take_operation_attended [of s _ _ t] take_task_attended [of t]
  by (auto simp: wait_front_def attended_empty split: list.split queue_entry.split)

lemma wait_round_attended:
  assumes "sched_ok s" and "\<not> waits (place s t)" and "\<not> in_task (place s t)" and "\<not> sd_one_thread s"
  shows "attended (wait_round t s)"
  using assms go_on_ok [of s t] wait_front_attended [of s t True]
  by (auto simp: wait_round_def event_clear_def event_sleep_def attended_empty intro: stopped_attended)

lemma poll_round_attended:
  assumes "sched_ok s" and "\<not> waits (place s t)" and "\<not> in_task (place s t)" and "\<not> sd_one_thread s"
  shows "attended (poll_round t s)"
  using assms go_on_ok [of s t] take_operation_attended [of s _ _ t]
  by (auto simp: poll_round_def attended_empty comes_def intro: stopped_attended attended_comes [of _ t]
      split: list.split queue_entry.split)

lemma round_of_attended: "sched_ok s \<Longrightarrow> place s t = To_lock \<Longrightarrow> \<not> sd_one_thread s \<Longrightarrow> attended (round_of t s)"
  by (simp add: round_of_def run_round_attended wait_round_attended poll_round_attended split: loop_function.split)

text \<open>A thread leaves that neither waits nor comes.\<close>

lemma attended_leave:
  assumes "attended s" and "\<not> comes s t"
  shows "attended (go_to t Outside s)"
proof -
  have "idles (go_to t Outside s) u \<Longrightarrow> idles s u" for u by (auto simp: idles_def split: if_splits)
  moreover have "comes s u \<Longrightarrow> comes (go_to t Outside s) u" for u using assms(2) by (cases "u = t") (auto simp: comes_def)
  ultimately show ?thesis using assms(1) unfolding attended_def on_thread_fields by blast
qed

lemma behind_task_attended:
  assumes "sched_ok s" and "place s t = To_lock" and "\<not> sd_one_thread s"
  shows "attended (behind_task t s)"
proof -
  have o: "one_task s" and c: "counted s" using assms(1) by (simp_all add: sched_ok_def)
  have "attended (go_to t Outside (event_unlock_and_signal_one s))" if q: "sd_queue s = Task_operation # q" for q
  proof -
    have "counted (go_to t Outside s)" by (rule counted_move [OF c, of t]) (use assms(2) in auto)
    then have "attended (event_unlock_and_signal_one (go_to t Outside s))"
      using task_count [OF o q] by (intro signal_attended) auto
    moreover have "event_unlock_and_signal_one (go_to t Outside s) = go_to t Outside (event_unlock_and_signal_one s)"
      by (simp add: event_unlock_and_signal_one_def go_to_def on_thread_def Let_def)
    ultimately show ?thesis by simp
  qed
  then show ?thesis using assms take_operation_attended [of s _ _ t]
    by (auto simp: behind_task_def maybe_signal_eq Let_def attended_empty split: list.split queue_entry.split)
qed

text \<open>The rounds do not depend on the place the thread comes from.\<close>

lemma go_to_again [simp]: "go_to t p (go_to t q s) = go_to t p s"
  "go_to t p ((go_to t q s)\<lparr>sd_queue := l\<rparr>) = go_to t p (s\<lparr>sd_queue := l\<rparr>)"
  "go_to t p ((go_to t q s)\<lparr>sd_waiters := n\<rparr>) = go_to t p (s\<lparr>sd_waiters := n\<rparr>)"
  "go_to t p ((go_to t q s)\<lparr>sd_signalled := b, sd_waiters := n\<rparr>) = go_to t p (s\<lparr>sd_signalled := b, sd_waiters := n\<rparr>)"
  "go_to t p ((go_to t q s)\<lparr>sd_queue := l, sd_task_interrupted := b\<rparr>) = go_to t p (s\<lparr>sd_queue := l, sd_task_interrupted := b\<rparr>)"
  "go_to t p (event_unlock_and_signal_one (go_to t q s)) = go_to t p (event_unlock_and_signal_one s)"
  by (simp_all add: go_to_def on_thread_def event_unlock_and_signal_one_def Let_def)

lemma rounds_place:
  "run_round t (go_to t p s) = run_round t s" "wait_front t b (go_to t p s) = wait_front t b s"
  "behind_task t (go_to t p s) = behind_task t s" "event_sleep t (go_to t p s) = event_sleep t s"
  by (auto simp: run_round_def wait_front_def behind_task_def take_task_def sched_take_operation_def event_sleep_def event_clear_def
      maybe_signal_eq Let_def split: list.split queue_entry.split)

section \<open>The events\<close>

lemma enter_loop_keeps:
  assumes "sched_ok s" and "place s t = Outside"
  shows "sched_ok (enter_loop f t s)" and "attended (enter_loop f t s)"
proof -
  let ?s = "on_thread t (\<lambda>x. \<lparr>th_place = To_lock, th_function = f, th_private_queue = [], th_private_work = 0\<rparr>) s"
  have "sched_ok ?s" by (rule sched_ok_move [OF assms(1), of t]) (use assms in \<open>auto simp: sched_ok_def one_task_def\<close>)
  then show "sched_ok (enter_loop f t s)" using stop_ok [OF assms(1)] by (simp add: enter_loop_def sched_stop_def)
  have "comes ?s t" by (simp add: comes_def)
  then show "attended (enter_loop f t s)" using stop_attended assms(1)
    by (auto simp: enter_loop_def sched_stop_def sched_ok_def intro: attended_comes)
qed

lemma wake_round_eq:
  "place s t = Woken_up \<Longrightarrow> sd_waiters s > 0 \<Longrightarrow>
   wake_round t s =
     (let s1 = go_to t To_lock (s\<lparr>sd_waiters := sd_waiters s - 1\<rparr>)
      in if th_function (sd_threads s t) = Fn_wait_one then wait_front t False s1
         else if sd_signalled s then run_round t s1 else go_to t Asleep s)"
  by (simp add: wake_round_def Let_def rounds_place event_sleep_def)

lemma relock_ok:
  assumes "sched_ok s" and "place s t = Woken_up"
  shows "sd_waiters s > 0" and "sched_ok (go_to t To_lock (s\<lparr>sd_waiters := sd_waiters s - 1\<rparr>))"
proof -
  show w: "sd_waiters s > 0" using counted_waits [of s] assms by (metis sched_ok_def waits_simps(2) gr0I)
  show "sched_ok (go_to t To_lock (s\<lparr>sd_waiters := sd_waiters s - 1\<rparr>))"
    by (rule sched_ok_move [OF assms(1), of t]) (use assms w in \<open>auto simp: sched_ok_def one_task_def\<close>)
qed

lemma sleep_on_keeps:
  assumes "sched_ok s" and "place s t = Woken_up" and "\<not> sd_signalled s" and "th_function (sd_threads s t) \<noteq> Fn_wait_one"
  shows "sched_ok (go_to t Asleep s)" and "attended s \<Longrightarrow> attended (go_to t Asleep s)"
proof -
  have c: "counted s" using assms(1) by (simp add: sched_ok_def)
  have "counted (go_to t Asleep s)" by (rule counted_move [OF c, of t]) (use assms(2) in auto)
  then show "sched_ok (go_to t Asleep s)" using assms by (auto simp: sched_ok_def one_task_def stop_seen_def)
  have "idles (go_to t Asleep s) u \<Longrightarrow> idles s u" "comes s u \<Longrightarrow> comes (go_to t Asleep s) u" for u
    using assms by (auto simp: idles_def comes_def split: if_splits)
  then show "attended s \<Longrightarrow> attended (go_to t Asleep s)" unfolding attended_def on_thread_fields by blast
qed

lemma wake_round_keeps:
  assumes "sched_ok s" and "place s t = Woken_up"
  shows "sched_ok (wake_round t s)" and "attended s \<Longrightarrow> \<not> sd_one_thread s \<Longrightarrow> attended (wake_round t s)"
proof -
  let ?s = "go_to t To_lock (s\<lparr>sd_waiters := sd_waiters s - 1\<rparr>)"
  note r = relock_ok [OF assms]
  show "sched_ok (wake_round t s)"
    using r(2) wait_front_ok [OF r(2), of t False] run_round_ok [OF r(2), of t] sleep_on_keeps(1) [OF assms]
    by (simp add: wake_round_eq [OF assms(2) r(1)] Let_def)
  show "attended (wake_round t s)" if "attended s" "\<not> sd_one_thread s"
    using that r(2) wait_front_attended [OF r(2), of t False] run_round_attended [OF r(2), of t] sleep_on_keeps(2) [OF assms]
    by (simp add: wake_round_eq [OF assms(2) r(1)] Let_def)
qed

lemma wake_thread_keeps:
  assumes "sched_ok s" and "place s t = Asleep"
  shows "sched_ok (wake_thread t s)" and "attended s \<Longrightarrow> attended (wake_thread t s)"
proof -
  show "sched_ok (wake_thread t s)" unfolding wake_thread_def
    by (rule sched_ok_move [OF assms(1), of t]) (use assms in \<open>auto simp: sched_ok_def one_task_def\<close>)
  have "comes s u \<Longrightarrow> comes (wake_thread t s) u" for u using assms(2) by (auto simp: comes_def wake_thread_def)
  moreover have "idles s t" using assms(2) by (simp add: idles_def)
  ultimately show "attended s \<Longrightarrow> attended (wake_thread t s)" by (auto simp: attended_def wake_thread_def)
qed

lemma signal_event_keeps:
  assumes "sched_ok s" and "sched_possible (Sd_signal w) s"
  shows "sched_ok (sched_step (Sd_signal w) s)" and "attended s \<Longrightarrow> attended (sched_step (Sd_signal w) s)"
proof -
  let ?s = "s\<lparr>sd_signals := sd_signals s - 1\<rparr>"
  have ok: "sched_ok ?s" using assms(1) by (rule same_threads_ok) (simp_all add: same_threads_def)
  show "sched_ok (sched_step (Sd_signal w) s)"
    using ok wake_thread_keeps(1) [OF ok] assms(2) by (auto split: option.splits)
  show "attended (sched_step (Sd_signal w) s)" if "attended s"
  proof (cases w)
    case None
    then have "idles ?s u = idles s u" "comes ?s u = comes s u" for u
      using assms(2) by (auto simp: idles_def comes_def)
    then show ?thesis using that None by (auto simp: attended_def)
  next
    case (Some t)
    then have a: "place s t = Asleep" using assms(2) by simp
    then have i: "idles s t" by (simp add: idles_def)
    have "comes (wake_thread t ?s) u \<or> comes (wake_thread t ?s) t" if "comes s u" for u
      using that a by (auto simp: comes_def wake_thread_def)
    then have "(\<exists>u. comes s u) \<Longrightarrow> \<exists>u. comes (wake_thread t ?s) u" by blast
    then show ?thesis using that i Some by (auto simp: attended_def wake_thread_def)
  qed
qed

text \<open>Steps that leave the queue or not, and the threads, alone.\<close>

lemma attended_same:
  assumes "attended s" and "sd_queue s' = [] \<longleftrightarrow> sd_queue s = []" and "\<And>t. place s' t = place s t"
    and "\<And>t. th_function (sd_threads s' t) = th_function (sd_threads s t)"
    and "sd_signalled s' = sd_signalled s" and "sd_signals s' = sd_signals s" and "sd_task_interrupted s' = sd_task_interrupted s"
  shows "attended s'"
  using assms by (simp add: attended_def idles_def comes_def)

lemma push_private_keeps:
  "sched_ok s \<Longrightarrow> sched_ok (push_private t ops w s)" "attended s \<Longrightarrow> attended (push_private t ops w s)"
  by (rule same_threads_ok, assumption) (auto simp: push_private_def same_threads_def on_thread_def intro: attended_same)

lemma woken_keeps:
  assumes "sched_ok s"
  shows "sched_ok (wake_one_thread_and_unlock s)" and "attended (wake_one_thread_and_unlock s)"
  using wake_one_ok [OF assms] wake_one_attended [of s] assms by (auto simp: sched_ok_def one_task_def)

lemma push_and_wake_keeps:
  assumes "sched_ok s"
  shows "sched_ok (push_and_wake ops s)" and "attended (push_and_wake ops s)"
proof -
  have "sched_ok (s\<lparr>sd_queue := sd_queue s @ map Operation ops\<rparr>)"
    using assms by (rule same_threads_ok) (simp_all add: same_threads_def)
  then show "sched_ok (push_and_wake ops s)" and "attended (push_and_wake ops s)"
    unfolding push_and_wake_def by (rule woken_keeps)+
qed

lemma outstanding_keeps:
  "sched_ok (s\<lparr>sd_outstanding := n\<rparr>) \<longleftrightarrow> sched_ok s" "attended (s\<lparr>sd_outstanding := n\<rparr>) \<longleftrightarrow> attended s"
  by (simp_all add: sched_ok_def counted_def one_task_def stop_seen_def attended_def idles_def comes_def)

lemma post_keeps:
  assumes "sched_ok s"
  shows "sched_ok (sched_post_immediate w op c s)" "attended s \<Longrightarrow> attended (sched_post_immediate w op c s)"
    "sched_ok (sched_post_immediates w ops c s)" "attended s \<Longrightarrow> attended (sched_post_immediates w ops c s)"
    "sched_ok (sched_post_deferred w op s)" "attended s \<Longrightarrow> attended (sched_post_deferred w op s)"
    "sched_ok (sched_post_deferreds w ops s)" "attended s \<Longrightarrow> attended (sched_post_deferreds w ops s)"
    "sched_ok (sched_do_dispatch op s)" "attended (sched_do_dispatch op s)"
  using assms
  by (auto simp: sched_post_immediate_def sched_post_immediates_def sched_post_deferred_def sched_post_deferreds_def
      sched_do_dispatch_def sched_work_started_def outstanding_keeps intro!: push_private_keeps push_and_wake_keeps
      split: option.split bool.split)

lemma work_finished_keeps:
  assumes "sched_ok s"
  shows "sched_ok (sched_work_finished s)" and "attended s \<Longrightarrow> attended (sched_work_finished s)"
  using assms stop_ok stop_attended
  by (auto simp: sched_work_finished_def sched_stop_def Let_def outstanding_keeps sched_ok_def [of "s\<lparr>sd_outstanding := 0\<rparr>"]
      dest: outstanding_keeps(1) [THEN iffD2, of s 0, THEN sched_ok_def [THEN iffD1]])

lemma init_task_keeps:
  assumes "sched_ok s"
  shows "sched_ok (init_task s)" and "attended s \<Longrightarrow> attended (init_task s)"
proof -
  let ?s = "s\<lparr>sd_task := True, sd_queue := sd_queue s @ [Task_operation]\<rparr>"
  have "sched_ok ?s" if "\<not> sd_task s"
  proof -
    have "\<not> in_task (place s t)" "Task_operation \<notin> set (sd_queue s)" for t
      using assms that by (auto simp: sched_ok_def one_task_def)
    then show ?thesis using assms counted_same [of s ?s]
      by (auto simp: sched_ok_def one_task_def stop_seen_def count_list_0_iff)
  qed
  then show "sched_ok (init_task s)" and "attended s \<Longrightarrow> attended (init_task s)"
    using assms woken_keeps [of ?s] by (auto simp: init_task_def)
qed

lemma add_private_work_keeps:
  "sched_ok s \<Longrightarrow> sched_ok (add_private_work t n s)" "attended s \<Longrightarrow> attended (add_private_work t n s)"
  by (rule same_threads_ok, assumption) (auto simp: add_private_work_def same_threads_def on_thread_def intro: attended_same)

lemma flush_ok: "sched_ok s \<Longrightarrow> sched_ok (flush_private_queue t s)"
  by (rule same_threads_ok, assumption) (auto simp: flush_private_queue_def same_threads_def on_thread_def)

lemma private_queue_simps [simp]:
  "th_private_queue (sd_threads (add_private_work t n s) u) = th_private_queue (sd_threads s u)"
  "th_function (sd_threads (add_private_work t n s) u) = th_function (sd_threads s u)"
  "place (add_private_work t n s) u = place s u"
  "th_private_queue (sd_threads (sched_work_finished s) u) = th_private_queue (sd_threads s u)"
  "th_private_work (sd_threads (sched_work_finished s) u) = th_private_work (sd_threads s u)"
  "th_function (sd_threads (sched_work_finished s) u) = th_function (sd_threads s u)"
  "th_function (sd_threads (flush_private_queue t s) u) = th_function (sd_threads s u)"
  "place (flush_private_queue t s) u = place s u"
  by (simp_all add: add_private_work_def on_thread_def flush_private_queue_def sched_work_finished_def sched_stop_def Let_def)

lemma work_cleanup_keeps:
  assumes "sched_ok s"
  shows "sched_ok (work_cleanup t s)" and "th_private_queue (sd_threads s t) = [] \<Longrightarrow> attended s \<Longrightarrow> attended (work_cleanup t s)"
    and "place s t = Completing op \<Longrightarrow> place (work_cleanup t s) t = Completing op"
    and "th_function (sd_threads (work_cleanup t s) u) = th_function (sd_threads s u)"
  using assms add_private_work_keeps work_finished_keeps [OF assms] flush_ok
  by (auto simp: work_cleanup_def Let_def) (auto simp: sched_work_finished_def sched_stop_def Let_def)

lemma task_cleanup_fields:
  "sd_queue (task_cleanup t s) = sd_queue s @ map Operation (th_private_queue (sd_threads s t)) @ [Task_operation]"
  "place (task_cleanup t s) u = place s u" "th_function (sd_threads (task_cleanup t s) u) = th_function (sd_threads s u)"
  "sd_task (task_cleanup t s) = sd_task s" "sd_stopped (task_cleanup t s) = sd_stopped s"
  "sd_waiters (task_cleanup t s) = sd_waiters s" "sd_signalled (task_cleanup t s) = sd_signalled s"
  "sd_task_interrupted (task_cleanup t s)" "sd_one_thread (task_cleanup t s) = sd_one_thread s"
  by (simp_all add: task_cleanup_def flush_private_queue_def add_private_work_def on_thread_def Let_def)

lemma task_returns_keeps:
  assumes "sched_ok s" and "place s t = In_task b"
  shows "sched_ok (task_returns t ops s)" and "\<not> sd_one_thread s \<Longrightarrow> attended (task_returns t ops s)"
proof -
  let ?s = "task_cleanup t (push_private t ops 0 s)"
  have o: "one_task s" using assms(1) by (simp add: sched_ok_def)
  have i: "in_task (place s t)" using assms(2) by simp
  have n: "Task_operation \<notin> set (sd_queue s)" "\<not> in_task (place s u)" if "u \<noteq> t" for u
    using o i that unfolding one_task_def by metis+
  have q: "count_list (sd_queue s) Task_operation = 0" using o i unfolding one_task_def count_list_0_iff by metis
  have p: "place (push_private t ops 0 s) u = place s u" for u by (simp add: push_private_def)
  have ok: "sched_ok (go_to t To_lock ?s)"
    by (rule sched_ok_move [OF assms(1), of t])
      (use assms n q task_blocks [OF o assms(2)] in \<open>auto simp: task_cleanup_fields p push_private_def\<close>)
  have e: "behind_task t ?s = behind_task t (go_to t To_lock ?s)" "run_round t ?s = run_round t (go_to t To_lock ?s)"
    by (simp_all add: rounds_place)
  have "sched_ok (behind_task t ?s)" "sched_ok (run_round t ?s)"
    unfolding e by (simp_all add: behind_task_ok [OF ok] run_round_ok [OF ok])
  then show "sched_ok (task_returns t ops s)" by (simp add: task_returns_def Let_def split: loop_function.split)
  have "attended (behind_task t ?s)" "attended (run_round t ?s)" if "\<not> sd_one_thread s"
    unfolding e using that behind_task_attended [OF ok] run_round_attended [OF ok, of t]
    by (simp_all add: task_cleanup_fields push_private_def)
  then show "attended (task_returns t ops s)" if "\<not> sd_one_thread s"
    using that by (simp add: task_returns_def Let_def split: loop_function.split)
qed

lemma done_keeps:
  "sched_ok (s\<lparr>sd_done := l\<rparr>) \<longleftrightarrow> sched_ok s" "attended (s\<lparr>sd_done := l\<rparr>) \<longleftrightarrow> attended s"
  "sched_ok (s\<lparr>sd_destroyed := l\<rparr>) \<longleftrightarrow> sched_ok s" "attended (s\<lparr>sd_destroyed := l\<rparr>) \<longleftrightarrow> attended s"
  by (simp_all add: sched_ok_def counted_def one_task_def stop_seen_def attended_def idles_def comes_def)

text \<open>
  An event is careful when a thread does not leave the functions with operations in its private queue: a
  completion in \<open>run_one\<close>, \<open>poll_one\<close> or \<open>wait_one\<close>, or one that throws, has posted nothing there.
\<close>

fun careful :: "sched_event \<Rightarrow> sched \<Rightarrow> bool" where
  "careful (Sd_completed t threw) s \<longleftrightarrow>
     loops (th_function (sd_threads s t)) \<and> \<not> threw \<or> th_private_queue (sd_threads s t) = []"
| "careful e s \<longleftrightarrow> True"

lemma completion_ends_keeps:
  assumes "sched_ok s" and "place s t = Completing op"
  shows "sched_ok (completion_ends t threw s)"
    and "attended s \<Longrightarrow> careful (Sd_completed t threw) s \<Longrightarrow> attended (completion_ends t threw s)"
proof -
  let ?d = "s\<lparr>sd_done := sd_done s @ [op]\<rparr>"
  let ?s = "work_cleanup t ?d"
  have d: "sched_ok ?d" using assms(1) by (simp add: done_keeps)
  have p: "place ?s t = Completing op" using work_cleanup_keeps(3) [OF d] assms(2) by simp
  have ok: "sched_ok ?s" by (rule work_cleanup_keeps(1) [OF d])
  have f: "th_function (sd_threads ?s t) = th_function (sd_threads s t)" using work_cleanup_keeps(4) [OF d] by simp
  show "sched_ok (completion_ends t threw s)"
    using assms(2) go_on_ok [OF ok, of t] p by (simp add: completion_ends_def Let_def)
  have run: "attended (go_to t To_lock ?s)" by (rule attended_comes [of _ t]) (simp add: comes_def)
  have leave: "attended (go_to t Outside ?s)" if "attended s" "th_private_queue (sd_threads s t) = []"
    using that work_cleanup_keeps(2) [OF d, of t] p by (intro attended_leave) (auto simp: done_keeps comes_def)
  show "attended (completion_ends t threw s)" if "attended s" "careful (Sd_completed t threw) s"
    using that assms(2) run leave by (auto simp: completion_ends_def Let_def f)
qed

lemma small_events_keep:
  assumes "sched_ok s"
  shows "sched_ok (sched_stop s)" "attended (sched_stop s)" "sched_ok (sched_restart s)" "attended s \<Longrightarrow> attended (sched_restart s)"
    "sched_ok (compensating_work_started t s)" "attended s \<Longrightarrow> attended (compensating_work_started t s)"
    "sched_ok (sched_abandon ops s)" "attended s \<Longrightarrow> attended (sched_abandon ops s)"
    "sched_ok (sched_work_started s)" "attended s \<Longrightarrow> attended (sched_work_started s)"
proof -
  show "sched_ok (compensating_work_started t s)" "attended s \<Longrightarrow> attended (compensating_work_started t s)"
    using push_private_keeps [of s t "[]" 1] assms by (simp_all add: push_private_def compensating_work_started_def)
  show "sched_ok (sched_stop s)" "attended (sched_stop s)"
    using assms stop_ok stop_attended by (auto simp: sched_stop_def sched_ok_def)
  show "sched_ok (sched_restart s)" using assms by (simp add: sched_restart_def sched_ok_def counted_def one_task_def stop_seen_def)
  show "attended s \<Longrightarrow> attended (sched_restart s)" by (simp add: sched_restart_def attended_def idles_def comes_def)
qed (use assms in \<open>simp_all add: sched_abandon_def done_keeps sched_work_started_def outstanding_keeps\<close>)

lemmas event_keeps = enter_loop_keeps round_of_ok round_of_attended wake_round_keeps wake_thread_keeps task_returns_keeps
  completion_ends_keeps post_keeps small_events_keep work_finished_keeps init_task_keeps

theorem sched_step_ok: "sched_ok s \<Longrightarrow> sched_possible e s \<Longrightarrow> sched_ok (sched_step e s)"
  using signal_event_keeps(1) [of s] by (cases e) (auto simp: event_keeps split: sched_place.splits simp del: sched_step.simps(4))

theorem sched_step_attended:
  assumes "sched_ok s" and "sched_possible e s" and "careful e s" and "attended s" and "\<not> sd_one_thread s"
  shows "attended (sched_step e s)"
  using assms signal_event_keeps(2) [of s]
  by (cases e) (auto simp: event_keeps split: sched_place.splits simp del: sched_step.simps(4))

lemma one_thread_stays [simp]: "sd_one_thread (sched_step e s) = sd_one_thread s"
proof -
  have "sd_one_thread (round_of t s) = sd_one_thread s" "sd_one_thread (wake_round t s) = sd_one_thread s"
    "sd_one_thread (behind_task t s) = sd_one_thread s" "sd_one_thread (run_round t s) = sd_one_thread s" for t s
    by (auto simp: round_of_def wake_round_def run_round_def wait_round_def poll_round_def wait_front_def behind_task_def
        take_task_def sched_take_operation_def event_sleep_def event_clear_def maybe_signal_eq Let_def
        split: loop_function.split list.split queue_entry.split)
  moreover have "sd_one_thread (work_cleanup t s) = sd_one_thread s" for t s
    by (simp add: work_cleanup_def flush_private_queue_def add_private_work_def sched_work_finished_def sched_stop_def Let_def)
  ultimately show ?thesis
    by (cases e) (auto simp: enter_loop_def sched_stop_def wake_thread_def Let_def task_returns_def task_cleanup_fields completion_ends_def
        sched_post_immediate_def sched_post_immediates_def sched_post_deferred_def sched_post_deferreds_def push_private_def push_and_wake_def
        sched_do_dispatch_def sched_abandon_def compensating_work_started_def sched_work_started_def sched_work_finished_def sched_restart_def
        init_task_def split: option.split bool.split loop_function.split sched_place.split)
qed

section \<open>Runs\<close>

lemma sched_init_ok: "sched_ok (sched_init b)" "attended (sched_init b)"
  by (simp_all add: sched_init_def thread_init_def sched_ok_def counted_def one_task_def stop_seen_def attended_def)

lemma sched_runs_ok: "sched_runs P es s \<Longrightarrow> sched_ok s \<Longrightarrow> sched_ok (sched_run es s)"
  by (induction es arbitrary: s) (auto simp: sched_run_def sched_step_ok)

lemma sched_runs_attended:
  "sched_runs careful es s \<Longrightarrow> sched_ok s \<Longrightarrow> attended s \<Longrightarrow> \<not> sd_one_thread s \<Longrightarrow> attended (sched_run es s)"
  by (induction es arbitrary: s) (auto simp: sched_run_def sched_step_ok sched_step_attended)

text \<open>
  C18: No wake-up is lost. Whatever the threads of a scheduler do in \<open>run\<close>, \<open>run_one\<close>, \<open>poll\<close>, \<open>poll_one\<close> and
  \<open>wait_one\<close>, and whatever is posted, stopped and restarted in between, when there is something in the queue
  and a thread sleeps or blocks in the task, some thread is on its way to the queue, provided that no
  completion in \<open>run_one\<close>, \<open>poll_one\<close> or \<open>wait_one\<close>, or one that throws, leaves operations in its private queue.
\<close>

theorem scheduler_queue_is_attended:
  assumes "sched_runs careful es (sched_init False)"
  shows "attended (sched_run es (sched_init False))"
  using assms sched_init_ok by (intro sched_runs_attended) (auto simp: sched_init_def)

text \<open>A thread sleeps, a second one takes what is posted, and its handler posts on.\<close>

definition sched_busy_run :: "sched_event list" where
  "sched_busy_run = [Sd_init_task, Sd_work_started, Sd_enter Fn_run 1, Sd_lock 1, Sd_enter Fn_run 2, Sd_lock 2,
     Sd_post None 7 False, Sd_signal (Some 2), Sd_relock 2, Sd_post (Some 2) 8 True, Sd_completed 2 False,
     Sd_lock 2, Sd_post None 9 False]"

lemmas sched_defs = sched_run_def sched_init_def thread_init_def on_thread_def go_to_def event_signal_all_def event_clear_def event_sleep_def
  event_unlock_and_signal_one_def interrupt_task_def stop_all_threads_def wake_one_eq maybe_signal_eq sched_stop_def
  sched_work_started_def sched_work_finished_def init_task_def push_private_def push_and_wake_def sched_post_immediate_def
  sched_take_operation_def take_task_def run_round_def wait_front_def wait_round_def poll_round_def behind_task_def round_of_def wake_round_def
  enter_loop_def add_private_work_def flush_private_queue_def task_cleanup_def task_returns_def work_cleanup_def
  loops_def completion_ends_def wake_thread_def inside_def

lemma scheduler_queue_is_attended_witness:
  "sched_runs careful sched_busy_run (sched_init False) \<and> attended (sched_run sched_busy_run (sched_init False)) \<and>
   sd_queue (sched_run sched_busy_run (sched_init False)) = [Operation 9]"
proof -
  have r: "sched_runs careful sched_busy_run (sched_init False)" by (simp add: sched_busy_run_def sched_defs)
  moreover have "sd_queue (sched_run sched_busy_run (sched_init False)) = [Operation 9]" by (simp add: sched_busy_run_def sched_defs)
  ultimately show ?thesis using scheduler_queue_is_attended [OF r] by blast
qed

text \<open>
  The state of the threads is consistent in every run, of a scheduler for one or many threads: the count
  of the event is the number of threads in its wait, the task is in the queue or with one thread and not both,
  and when the scheduler is stopped its event is signalled, no thread is asleep and a task that blocks has
  been interrupted.
\<close>

theorem scheduler_threads_are_consistent:
  assumes "sched_runs P es (sched_init b)" and "s = sched_run es (sched_init b)"
  shows "counted s \<and> one_task s \<and> stop_seen s"
  using sched_runs_ok [OF assms(1) sched_init_ok(1)] assms(2) by (simp add: sched_ok_def)

lemma scheduler_threads_are_consistent_witness:
  "sd_waiters (sched_run sched_busy_run (sched_init False)) = 0 \<and> one_task (sched_run sched_busy_run (sched_init False))"
proof -
  have r: "sched_runs careful sched_busy_run (sched_init False)" by (simp add: sched_busy_run_def sched_defs)
  have "sd_waiters (sched_run sched_busy_run (sched_init False)) = 0" by (simp add: sched_busy_run_def sched_defs)
  then show ?thesis using scheduler_threads_are_consistent [OF r refl] by blast
qed

end
