(* ===== verification/Asio_Scheduler_Work.thy ===== *)
theory Asio_Scheduler_Work
  imports Asio_Scheduler_Runs
begin

text \<open>
  What becomes of the operations of a scheduler, and of the work it counts: every operation that was handed
  to it is in its queue, with one of its threads, completed or destroyed, and the count of outstanding work
  is the count of these operations and of the work announced from outside. Then the wake-up that is lost when
  a thread leaves the functions with operations in its private queue.
\<close>

section \<open>The operations of a state\<close>

definition running :: "sched_place \<Rightarrow> nat multiset" where
  "running p = (case p of Completing op \<Rightarrow> {#op#} | _ \<Rightarrow> {#})"

definition carried :: "sched_thread \<Rightarrow> nat multiset" where
  "carried x = mset (th_private_queue x) + running (th_place x)"

text \<open>The operations that are queued, private to one of the threads \<open>T\<close> or in completion there.\<close>

definition unfinished :: "nat set \<Rightarrow> sched \<Rightarrow> nat multiset" where
  "unfinished T s = mset (operations_in (sd_queue s)) + (\<Sum>t\<in>T. carried (sd_threads s t))"

definition finished_ops :: "sched \<Rightarrow> nat multiset" where
  "finished_ops s = mset (sd_done s) + mset (sd_destroyed s)"

definition work_total :: "nat set \<Rightarrow> sched \<Rightarrow> int" where
  "work_total T s = sd_outstanding s + (\<Sum>t\<in>T. th_private_work (sd_threads s t))"

definition resting :: "sched_thread \<Rightarrow> bool" where
  "resting x \<longleftrightarrow> th_private_queue x = [] \<and> th_private_work x = 0"

text \<open>Only a thread in a completion or in the task has private operations and private work.\<close>

definition settled :: "sched \<Rightarrow> bool" where
  "settled s \<longleftrightarrow> (\<forall>t. th_private_work (sd_threads s t) \<ge> 0 \<and>
     (running (place s t) = {#} \<longrightarrow> \<not> in_task (place s t) \<longrightarrow> resting (sd_threads s t)))"

lemma running_simps [simp]:
  "running Outside = {#}" "running To_lock = {#}" "running Asleep = {#}" "running Woken_up = {#}" "running (In_task b) = {#}"
  "running (Completing op) = {#op#}"
  by (simp_all add: running_def)

lemma operations_in_append [simp]: "operations_in (q @ r) = operations_in q @ operations_in r"
  by (induction q rule: operations_in.induct) auto

lemma operations_in_map [simp]: "operations_in (map Operation ops) = ops"
  by (induction ops) auto

lemma sum_but_one:
  fixes f g :: "nat \<Rightarrow> 'a :: comm_monoid_add"
  assumes "finite T" and "t \<in> T" and "\<And>u. u \<noteq> t \<Longrightarrow> f u = g u"
  shows "sum f T + g t = sum g T + f t"
proof -
  have "sum f (T - {t}) = sum g (T - {t})" using assms(3) by (intro sum.cong) auto
  then show ?thesis using sum.remove [OF assms(1,2), of f] sum.remove [OF assms(1,2), of g] by (simp add: ac_simps)
qed

text \<open>The balance of a step that concerns one thread: \<open>H\<close> is handed over and \<open>d\<close> is the work that comes with it.\<close>

definition others_same :: "nat \<Rightarrow> sched \<Rightarrow> sched \<Rightarrow> bool" where
  "others_same t s r \<longleftrightarrow> (\<forall>u. u \<noteq> t \<longrightarrow> carried (sd_threads r u) = carried (sd_threads s u) \<and>
     th_private_work (sd_threads r u) = th_private_work (sd_threads s u))"

definition balanced :: "nat \<Rightarrow> sched \<Rightarrow> sched \<Rightarrow> nat multiset \<Rightarrow> int \<Rightarrow> bool" where
  "balanced t s r H d \<longleftrightarrow> others_same t s r \<and>
     mset (operations_in (sd_queue r)) + carried (sd_threads r t) + finished_ops r =
       mset (operations_in (sd_queue s)) + carried (sd_threads s t) + finished_ops s + H \<and>
     sd_outstanding r + th_private_work (sd_threads r t) = sd_outstanding s + th_private_work (sd_threads s t) + d"

lemma multiset_exchange:
  assumes "D + c = C + d" and "q' + d + f' = q + c + f + H"
  shows "q' + D + f' = q + C + f + (H :: nat multiset)"
proof (rule multiset_eqI)
  fix x
  have "count (D + c) x = count (C + d) x" "count (q' + d + f') x = count (q + c + f + H) x" using assms by simp_all
  then show "count (q' + D + f') x = count (q + C + f + H) x" by simp
qed

lemma balanced_sums:
  assumes "balanced t s r H d" and "finite T" and "t \<in> T"
  shows "unfinished T r + finished_ops r = unfinished T s + finished_ops s + H" and "work_total T r = work_total T s + d"
proof -
  let ?C = "\<Sum>t\<in>T. carried (sd_threads s t)" and ?D = "\<Sum>t\<in>T. carried (sd_threads r t)"
  have "?D + carried (sd_threads s t) = ?C + carried (sd_threads r t)"
    using assms by (intro sum_but_one) (auto simp: balanced_def others_same_def)
  moreover have "mset (operations_in (sd_queue r)) + carried (sd_threads r t) + finished_ops r =
       mset (operations_in (sd_queue s)) + carried (sd_threads s t) + finished_ops s + H"
    using assms(1) by (simp add: balanced_def)
  ultimately show "unfinished T r + finished_ops r = unfinished T s + finished_ops s + H"
    unfolding unfinished_def by (rule multiset_exchange)
  have "(\<Sum>t\<in>T. th_private_work (sd_threads r t)) + th_private_work (sd_threads s t) =
      (\<Sum>t\<in>T. th_private_work (sd_threads s t)) + th_private_work (sd_threads r t)"
    using assms by (intro sum_but_one) (auto simp: balanced_def others_same_def)
  then show "work_total T r = work_total T s + d" using assms(1) by (simp add: balanced_def work_total_def)
qed

section \<open>The steps of one thread\<close>

lemma balanced_refl: "balanced t s s {#} 0"
  by (simp add: balanced_def others_same_def)

lemma balanced_trans:
  assumes "balanced t s r H d" and "balanced t r q J e"
  shows "balanced t s q (H + J) (d + e)"
  using assms by (auto simp: balanced_def others_same_def ac_simps) 

text \<open>Changes of the state that no operation and no work depends on.\<close>

definition same_work :: "sched \<Rightarrow> sched \<Rightarrow> bool" where
  "same_work s r \<longleftrightarrow> (\<forall>t. th_private_queue (sd_threads r t) = th_private_queue (sd_threads s t) \<and>
       th_private_work (sd_threads r t) = th_private_work (sd_threads s t) \<and> running (place r t) = running (place s t) \<and>
       in_task (place r t) = in_task (place s t)) \<and>
     sd_outstanding r = sd_outstanding s \<and> operations_in (sd_queue r) = operations_in (sd_queue s) \<and> sd_done r = sd_done s \<and>
     sd_destroyed r = sd_destroyed s"

lemma same_work_balanced: "same_work s r \<Longrightarrow> balanced t s r {#} 0" "same_work s r \<Longrightarrow> settled r \<longleftrightarrow> settled s"
  by (auto simp: same_work_def balanced_def others_same_def carried_def finished_ops_def settled_def resting_def)

lemma same_work_trans: "same_work s r \<Longrightarrow> same_work r q \<Longrightarrow> same_work s q"
  by (simp add: same_work_def)

lemma stop_same_work: "same_work s (stop_all_threads s)" "same_work s (sched_stop s)"
  by (auto simp: same_work_def sched_stop_def)

lemma wake_same_work:
  "same_work s (wake_one_thread_and_unlock s)" "same_work s (event_unlock_and_signal_one s)"
  by (simp_all add: same_work_def)

text \<open>A thread with nothing in hand takes an operation, the task or nothing.\<close>

definition took :: "nat \<Rightarrow> sched \<Rightarrow> sched \<Rightarrow> bool" where
  "took t s r \<longleftrightarrow> sd_threads r = (sd_threads s)(t := (sd_threads s t)\<lparr>th_place := place r t\<rparr>) \<and>
     mset (operations_in (sd_queue r)) + running (place r t) = mset (operations_in (sd_queue s)) \<and>
     sd_outstanding r = sd_outstanding s \<and> sd_done r = sd_done s \<and> sd_destroyed r = sd_destroyed s"

lemma took_balanced:
  assumes "took t s r" and "running (place s t) = {#}" and "resting (sd_threads s t)" and "settled s"
  shows "balanced t s r {#} 0" and "settled r"
proof -
  have f: "sd_threads r = (sd_threads s)(t := (sd_threads s t)\<lparr>th_place := place r t\<rparr>)"
    and q: "mset (operations_in (sd_queue r)) + running (place r t) = mset (operations_in (sd_queue s))"
      "sd_outstanding r = sd_outstanding s" "sd_done r = sd_done s" "sd_destroyed r = sd_destroyed s"
    using assms(1) by (simp_all add: took_def)
  have u: "sd_threads r u = sd_threads s u" if "u \<noteq> t" for u using that by (subst f) simp
  have t: "th_private_queue (sd_threads r t) = []" "th_private_work (sd_threads r t) = 0"
    using assms(3) by (subst f, simp add: resting_def)+
  show "balanced t s r {#} 0" using u t q assms(2,3)
    by (simp add: balanced_def others_same_def carried_def finished_ops_def resting_def)
  have "th_private_work (sd_threads r v) \<ge> 0 \<and> (running (place r v) = {#} \<longrightarrow> \<not> in_task (place r v) \<longrightarrow> resting (sd_threads r v))" for v
    using u [of v] t assms(4) by (cases "v = t") (simp_all add: resting_def settled_def)
  then show "settled r" by (simp add: settled_def)
qed

lemma threads_go_to: "sd_threads (go_to t p s) = (sd_threads s)(t := (sd_threads s t)\<lparr>th_place := p\<rparr>)"
  by (simp add: go_to_def on_thread_def)

lemma event_threads: "sd_threads (event_unlock_and_signal_one s) = sd_threads s"
  by (simp add: event_unlock_and_signal_one_def Let_def)

lemma took_go_to:
  "running p = {#} \<Longrightarrow> took t s (go_to t p s)"
  "running p = {#} \<Longrightarrow> took t s (go_to t p (event_unlock_and_signal_one s))"
  "sd_queue s = Operation op # q \<Longrightarrow> took t s (sched_take_operation t op q s)"
  "sd_queue s = Task_operation # q \<Longrightarrow> took t s (take_task t b q s)"
  "sd_queue s = Task_operation # q \<Longrightarrow> took t s (go_to t (In_task b) (s\<lparr>sd_queue := q\<rparr>))"
  "took t s (event_sleep t (s\<lparr>sd_signalled := b\<rparr>))"
  by (auto simp: took_def threads_go_to sched_take_operation_def take_task_def event_sleep_def Let_def)

lemma rounds_took:
  "took t s (run_round t s)" "took t s (wait_front t b s)" "took t s (wait_round t s)" "took t s (poll_round t s)" "took t s (behind_task t s)"
  "took t s (round_of t s)"
proof -
  show r: "took t s (run_round t s)" "took t s (wait_front t b s)" "took t s (poll_round t s)" "took t s (behind_task t s)" for b
    by (auto simp: run_round_def wait_front_def poll_round_def behind_task_def event_clear_def maybe_signal_eq Let_def
        intro: took_go_to split: list.split queue_entry.split)
  then show w: "took t s (wait_round t s)" by (auto simp: wait_round_def event_clear_def intro: took_go_to)
  show "took t s (round_of t s)" using r w by (simp add: round_of_def split: loop_function.split)
qed

section \<open>Handing over and cleaning up\<close>

lemmas balance_defs = balanced_def others_same_def carried_def finished_ops_def

lemma hand_over_balanced:
  "balanced t s (push_private t ops w s) (mset ops) w" "balanced t s (push_and_wake ops s) (mset ops) 0"
  "balanced t s (s\<lparr>sd_outstanding := sd_outstanding s + w\<rparr>) {#} w"
  "balanced t s (sched_abandon ops s) (mset ops) 0"
  by (simp_all add: balance_defs push_private_def on_thread_def push_and_wake_def sched_abandon_def)

lemma hand_over_settled:
  "settled s \<Longrightarrow> inside s (Some t) \<Longrightarrow> w \<ge> 0 \<Longrightarrow> settled (push_private t ops w s)"
  "settled (push_and_wake ops s) \<longleftrightarrow> settled s" "settled (s\<lparr>sd_outstanding := n\<rparr>) \<longleftrightarrow> settled s"
  "settled (sched_abandon ops s) \<longleftrightarrow> settled s"
  by (auto simp: settled_def resting_def push_private_def on_thread_def push_and_wake_def sched_abandon_def inside_def split: sched_place.splits)

lemma add_private_work_balanced:
  "balanced t s (add_private_work t n s) {#} (n - th_private_work (sd_threads s t))"
  "settled s \<Longrightarrow> settled (add_private_work t n s)" "th_private_work (sd_threads (add_private_work t n s) t) = 0"
  by (auto simp: balance_defs add_private_work_def on_thread_def settled_def resting_def)

lemma flush_balanced:
  "balanced t s (flush_private_queue t s) {#} 0" "settled s \<Longrightarrow> settled (flush_private_queue t s)"
  "th_private_queue (sd_threads (flush_private_queue t s) t) = []"
  "th_private_work (sd_threads (flush_private_queue t s) u) = th_private_work (sd_threads s u)"
  by (auto simp: balance_defs flush_private_queue_def on_thread_def settled_def resting_def)

lemma work_finished_balanced:
  "balanced t s (sched_work_finished s) {#} (- 1)" "settled (sched_work_finished s) \<longleftrightarrow> settled s"
proof -
  let ?s = "s\<lparr>sd_outstanding := sd_outstanding s - 1\<rparr>"
  have w: "sched_work_finished s = (if sd_outstanding ?s = 0 then sched_stop ?s else ?s)"
    by (simp only: sched_work_finished_def Let_def)
  have b: "balanced t s ?s {#} (- 1)" using hand_over_balanced(3) [of t s "- 1"] by simp
  moreover have "balanced t s (sched_stop ?s) {#} (- 1)"
    using balanced_trans [OF b same_work_balanced(1) [OF stop_same_work(2)]] by simp
  ultimately show "balanced t s (sched_work_finished s) {#} (- 1)" unfolding w by (simp only: simp_thms split: if_split)
  show "settled (sched_work_finished s) \<longleftrightarrow> settled s"
    using same_work_balanced(2) [OF stop_same_work(2)] by (simp add: sched_work_finished_def Let_def hand_over_settled)
qed

lemma work_cleanup_balanced:
  assumes "settled s"
  shows "balanced t s (work_cleanup t s) {#} (- 1)" and "settled (work_cleanup t s)" and "resting (sd_threads (work_cleanup t s) t)"
proof -
  define s1 where "s1 = (let w = th_private_work (sd_threads s t) in
    if w > 1 then add_private_work t (w - 1) s
    else if w < 1 then add_private_work t 0 (sched_work_finished s) else add_private_work t 0 s)"
  have w: "work_cleanup t s = (if th_private_queue (sd_threads s1 t) \<noteq> [] then flush_private_queue t s1 else s1)"
    by (simp add: work_cleanup_def s1_def Let_def)
  have "balanced t s (add_private_work t 0 (sched_work_finished s)) {#} (- 1)" if "th_private_work (sd_threads s t) = 0"
    using balanced_trans [OF work_finished_balanced(1) add_private_work_balanced(1) [of t "sched_work_finished s" 0]] that by simp
  moreover have "th_private_work (sd_threads s t) \<ge> 0" using assms by (simp add: settled_def)
  ultimately have b: "balanced t s s1 {#} (- 1)"
    using add_private_work_balanced(1) [of t s "th_private_work (sd_threads s t) - 1"] add_private_work_balanced(1) [of t s 0]
    by (auto simp: s1_def Let_def)
  have s: "settled s1" and z: "th_private_work (sd_threads s1 t) = 0"
    using assms add_private_work_balanced(2,3) work_finished_balanced(2) by (simp_all add: s1_def Let_def)
  show "balanced t s (work_cleanup t s) {#} (- 1)" using b balanced_trans [OF b flush_balanced(1)] by (simp add: w)
  show "settled (work_cleanup t s)" using s flush_balanced(2) by (simp add: w)
  show "resting (sd_threads (work_cleanup t s) t)" using z flush_balanced(3,4) by (simp add: w resting_def)
qed

lemma completion_ends_balanced:
  assumes "settled s" and "place s t = Completing op"
  shows "balanced t s (completion_ends t threw s) {#} (- 1)" and "settled (completion_ends t threw s)"
proof -
  let ?d = "s\<lparr>sd_done := sd_done s @ [op]\<rparr>"
  let ?s = "work_cleanup t ?d"
  have d: "settled ?d" using assms(1) by (simp add: settled_def)
  have "balanced t s ?d {#op#} 0" by (simp add: balance_defs)
  from balanced_trans [OF this work_cleanup_balanced(1) [OF d]] have b: "balanced t s ?s {#op#} (- 1)" by simp
  have p: "place ?s t = Completing op"
    using assms(2) by (auto simp: work_cleanup_def Let_def) (auto simp: sched_work_finished_def sched_stop_def Let_def)
  have "balanced t s (go_to t q ?s) {#} (- 1)" "settled (go_to t q ?s)" if "running q = {#}" for q
  proof -
    have "mset (operations_in (sd_queue (go_to t q ?s))) + carried (sd_threads (go_to t q ?s) t) + finished_ops (go_to t q ?s) + {#op#} =
        mset (operations_in (sd_queue s)) + carried (sd_threads s t) + finished_ops s + {#op#}"
      using b p that by (simp add: balance_defs threads_go_to)
    then have "mset (operations_in (sd_queue (go_to t q ?s))) + carried (sd_threads (go_to t q ?s) t) + finished_ops (go_to t q ?s) =
        mset (operations_in (sd_queue s)) + carried (sd_threads s t) + finished_ops s" by (simp only: add_right_cancel)
    then show "balanced t s (go_to t q ?s) {#} (- 1)"
      using b unfolding balanced_def others_same_def by (simp add: threads_go_to)
    show "settled (go_to t q ?s)" using work_cleanup_balanced(2,3) [OF d] by (auto simp: settled_def threads_go_to resting_def)
  qed
  then show "balanced t s (completion_ends t threw s) {#} (- 1)" and "settled (completion_ends t threw s)"
    using assms(2) by (simp_all add: completion_ends_def Let_def)
qed

lemma task_cleanup_balanced:
  assumes "settled s"
  shows "balanced t s (task_cleanup t s) {#} 0" and "settled (task_cleanup t s)" and "resting (sd_threads (task_cleanup t s) t)"
proof -
  have "th_private_work (sd_threads s t) \<ge> 0" using assms by (simp add: settled_def)
  then have "\<not> th_private_work (sd_threads s t) > 0 \<Longrightarrow> th_private_work (sd_threads s t) = 0" by simp
  then show "balanced t s (task_cleanup t s) {#} 0" "settled (task_cleanup t s)" "resting (sd_threads (task_cleanup t s) t)"
    using assms by (auto simp: task_cleanup_def add_private_work_def flush_private_queue_def on_thread_def Let_def balance_defs settled_def resting_def)
qed

lemma task_returns_balanced:
  assumes "settled s" and "place s t = In_task b"
  shows "balanced t s (task_returns t ops s) (mset ops) 0" and "settled (task_returns t ops s)"
proof -
  let ?p = "push_private t ops 0 s"
  let ?s = "task_cleanup t ?p"
  have p: "settled ?p" using hand_over_settled(1) [of s t 0] assms by (simp add: inside_def)
  note c = task_cleanup_balanced [OF p, of t]
  have b: "balanced t s ?s (mset ops) 0" using balanced_trans [OF hand_over_balanced(1) [of t s ops 0] c(1)] by simp
  have l: "running (place ?s t) = {#}" using assms(2) by (simp add: task_cleanup_fields push_private_def)
  have "balanced t s r (mset ops) 0" "settled r" if "took t ?s r" for r
    using balanced_trans [OF b took_balanced(1) [OF that l c(3,2)]] took_balanced(2) [OF that l c(3,2)] by simp_all
  then show "balanced t s (task_returns t ops s) (mset ops) 0" and "settled (task_returns t ops s)"
    using rounds_took(5) [of t ?s] rounds_took(1) [of t ?s] by (simp_all add: task_returns_def Let_def split: loop_function.split)
qed

section \<open>The events\<close>

fun event_thread :: "sched_event \<Rightarrow> nat option" where
  "event_thread (Sd_enter f t) = Some t"
| "event_thread (Sd_lock t) = Some t"
| "event_thread (Sd_relock t) = Some t"
| "event_thread (Sd_signal w) = w"
| "event_thread (Sd_wake t) = Some t"
| "event_thread (Sd_task_returns t ops) = Some t"
| "event_thread (Sd_completed t threw) = Some t"
| "event_thread (Sd_post w op c) = w"
| "event_thread (Sd_posts w ops c) = w"
| "event_thread (Sd_post_deferred w op) = w"
| "event_thread (Sd_post_deferreds w ops) = w"
| "event_thread (Sd_compensate t) = Some t"
| "event_thread e = None"

text \<open>The operations an event hands to the scheduler, and the work it announces or ends.\<close>

fun handed :: "sched_event \<Rightarrow> nat list" where
  "handed (Sd_task_returns t ops) = ops"
| "handed (Sd_post w op c) = [op]"
| "handed (Sd_posts w ops c) = ops"
| "handed (Sd_post_deferred w op) = [op]"
| "handed (Sd_post_deferreds w ops) = ops"
| "handed (Sd_dispatch op) = [op]"
| "handed (Sd_abandon ops) = ops"
| "handed e = []"

fun announced :: "sched_event \<Rightarrow> int" where
  "announced (Sd_completed t threw) = - 1"
| "announced (Sd_post w op c) = 1"
| "announced (Sd_posts w ops c) = int (length ops)"
| "announced (Sd_dispatch op) = 1"
| "announced (Sd_compensate t) = 1"
| "announced Sd_work_started = 1"
| "announced Sd_work_finished = - 1"
| "announced e = 0"

lemma post_balanced:
  assumes "settled s" and "inside s w" and "w = None \<or> w = Some t"
  shows "balanced t s (sched_post_immediate w op c s) {#op#} 1" "settled (sched_post_immediate w op c s)"
    "balanced t s (sched_post_immediates w ops c s) (mset ops) (int (length ops))" "settled (sched_post_immediates w ops c s)"
    "balanced t s (sched_post_deferred w op s) {#op#} 0" "settled (sched_post_deferred w op s)"
    "balanced t s (sched_post_deferreds w ops s) (mset ops) 0" "settled (sched_post_deferreds w ops s)"
    "balanced t s (sched_do_dispatch op s) {#op#} 1" "settled (sched_do_dispatch op s)"
proof -
  have b: "balanced t s (push_and_wake l (s\<lparr>sd_outstanding := sd_outstanding s + n\<rparr>)) (mset l) n" for l n
    using balanced_trans [OF hand_over_balanced(3,2)] by simp
  have p: "balanced u s (push_private u l n s) (mset l) n" for u l n by (rule hand_over_balanced)
  have q: "balanced t s (push_and_wake l s) (mset l) 0" for l by (rule hand_over_balanced)
  show "balanced t s (sched_post_immediate w op c s) {#op#} 1" "balanced t s (sched_post_immediates w ops c s) (mset ops) (int (length ops))"
    "balanced t s (sched_post_deferred w op s) {#op#} 0" "balanced t s (sched_post_deferreds w ops s) (mset ops) 0"
    "balanced t s (sched_do_dispatch op s) {#op#} 1"
    using assms(3) b [of "[op]" 1] b [of ops "int (length ops)"] p [of t "[op]" 1] p [of t ops "int (length ops)"] p [of t "[op]" 0]
      p [of t ops 0] q [of "[op]"] q [of ops] balanced_refl [of t s]
    by (auto simp: sched_post_immediate_def sched_post_immediates_def sched_post_deferred_def sched_post_deferreds_def sched_do_dispatch_def
        sched_work_started_def split: bool.split)
  show "settled (sched_post_immediate w op c s)" "settled (sched_post_immediates w ops c s)" "settled (sched_post_deferred w op s)"
    "settled (sched_post_deferreds w ops s)" "settled (sched_do_dispatch op s)"
    using assms hand_over_settled
    by (auto simp: sched_post_immediate_def sched_post_immediates_def sched_post_deferred_def sched_post_deferreds_def sched_do_dispatch_def
        sched_work_started_def split: bool.split)
qed

lemma enter_balanced:
  assumes "settled s" and "place s t = Outside"
  shows "balanced t s (enter_loop f t s) {#} 0" and "settled (enter_loop f t s)"
proof -
  have "resting (sd_threads s t)" using assms by (simp add: settled_def)
  then show "balanced t s (enter_loop f t s) {#} 0" and "settled (enter_loop f t s)"
    using assms same_work_balanced [OF stop_same_work(2) [of s]]
    by (auto simp: enter_loop_def balance_defs on_thread_def settled_def resting_def)
qed

lemma round_balanced:
  assumes "settled s" and "place s t = To_lock"
  shows "balanced t s (round_of t s) {#} 0" and "settled (round_of t s)"
  using took_balanced [OF rounds_took(6) _ _ assms(1), of t] assms by (auto simp: settled_def)

lemma relock_balanced:
  assumes "settled s" and "place s t = Woken_up"
  shows "balanced t s (wake_round t s) {#} 0" and "settled (wake_round t s)"
proof -
  let ?s = "s\<lparr>sd_waiters := sd_waiters s - 1\<rparr>"
  have "took t ?s r \<Longrightarrow> took t s r" for r by (simp add: took_def)
  then have "took t s (wake_round t s)"
    using rounds_took [of t ?s] took_go_to(6) [of t ?s "sd_signalled ?s"] by (auto simp: wake_round_def Let_def)
  then show "balanced t s (wake_round t s) {#} 0" and "settled (wake_round t s)"
    using took_balanced [of t s] assms by (auto simp: settled_def)
qed

lemma wake_thread_same_work: "place s t = Asleep \<Longrightarrow> same_work s (wake_thread t s)"
  by (simp add: same_work_def wake_thread_def threads_go_to)

lemma signal_same_work: "sched_possible (Sd_signal w) s \<Longrightarrow> same_work s (sched_step (Sd_signal w) s)"
  by (auto simp: same_work_def wake_thread_def threads_go_to split: option.splits)

lemma init_task_same_work: "same_work s (init_task s)"
  by (simp add: same_work_def init_task_def)

lemma compensate_balanced:
  "balanced t s (compensating_work_started t s) {#} 1"
  "settled s \<Longrightarrow> inside s (Some t) \<Longrightarrow> settled (compensating_work_started t s)"
  using hand_over_balanced(1) [of t s "[]" 1] hand_over_settled(1) [of s t 1 "[]"] by (simp_all add: push_private_def compensating_work_started_def)

lemma restart_same_work: "same_work s (sched_restart s)"
  by (simp add: same_work_def sched_restart_def)

lemma step_balanced:
  assumes "settled s" and "sched_possible e s" and "event_thread e = None \<or> event_thread e = Some t"
  shows "balanced t s (sched_step e s) (mset (handed e)) (announced e) \<and> settled (sched_step e s)"
proof (cases e)
  case (Sd_enter f u)
  then show ?thesis using assms enter_balanced [of s t f] by auto
next
  case (Sd_lock u)
  then show ?thesis using assms round_balanced [of s t] by auto
next
  case (Sd_relock u)
  then show ?thesis using assms relock_balanced [of s t] by auto
next
  case (Sd_signal w)
  then show ?thesis using assms same_work_balanced(1) [OF signal_same_work, of w s t] same_work_balanced(2) [OF signal_same_work, of w s] by (auto simp del: sched_step.simps sched_possible.simps)
next
  case (Sd_wake u)
  then show ?thesis using assms same_work_balanced(1) [OF wake_thread_same_work, of s t t] same_work_balanced(2) [OF wake_thread_same_work, of s t] by auto
next
  case (Sd_task_returns u ops)
  then show ?thesis using assms task_returns_balanced [of s t _ ops] by (auto split: sched_place.splits)
next
  case (Sd_completed u threw)
  then show ?thesis using assms completion_ends_balanced [of s t _ threw] by (auto split: sched_place.splits)
next
  case (Sd_post w op c)
  then show ?thesis using assms post_balanced(1,2) [of s w t op c] by auto
next
  case (Sd_posts w ops c)
  then show ?thesis using assms post_balanced(3,4) [of s w t ops c] by auto
next
  case (Sd_post_deferred w op)
  then show ?thesis using assms post_balanced(5,6) [of s w t op] by auto
next
  case (Sd_post_deferreds w ops)
  then show ?thesis using assms post_balanced(7,8) [of s w t ops] by auto
next
  case (Sd_dispatch op)
  then show ?thesis using assms post_balanced(9,10) [of s None t op] by (auto simp: inside_def)
next
  case (Sd_abandon ops)
  then show ?thesis using assms hand_over_balanced(4) [of t s ops] hand_over_settled(4) [where s = s and ops = ops] by auto
next
  case (Sd_compensate u)
  then show ?thesis using assms compensate_balanced(1) [of t s] compensate_balanced(2) [of s t] by auto
next
  case Sd_work_started
  then show ?thesis using assms hand_over_balanced(3) [of t s 1] hand_over_settled(3) [where s = s] by (auto simp: sched_work_started_def)
next
  case Sd_work_finished
  then show ?thesis using assms work_finished_balanced(1) [of t s] work_finished_balanced(2) [of s] by auto
next
  case Sd_stop
  then show ?thesis using assms same_work_balanced(1) [OF stop_same_work(2) [of s], of t] same_work_balanced(2) [OF stop_same_work(2) [of s]] by auto
next
  case Sd_restart
  then show ?thesis using assms same_work_balanced(1) [OF restart_same_work [of s], of t] same_work_balanced(2) [OF restart_same_work [of s]] by auto
next
  case Sd_init_task
  then show ?thesis using assms same_work_balanced(1) [OF init_task_same_work [of s], of t] same_work_balanced(2) [OF init_task_same_work [of s]] by auto
qed

section \<open>Runs\<close>

text \<open>The threads of a run are numbered up to \<open>n\<close>.\<close>

definition threads_to :: "nat \<Rightarrow> sched_event \<Rightarrow> sched \<Rightarrow> bool" where
  "threads_to n e s \<longleftrightarrow> (case event_thread e of None \<Rightarrow> True | Some t \<Rightarrow> t \<le> n)"

lemma settled_init: "settled (sched_init b)"
  by (simp add: settled_def resting_def sched_init_def thread_init_def)

lemma step_sums:
  assumes "settled s" and "sched_possible e s" and "threads_to n e s"
  shows "unfinished {..n} (sched_step e s) + finished_ops (sched_step e s) = unfinished {..n} s + finished_ops s + mset (handed e) \<and>
    work_total {..n} (sched_step e s) = work_total {..n} s + announced e \<and> settled (sched_step e s)"
proof -
  define t where "t = (case event_thread e of None \<Rightarrow> 0 | Some u \<Rightarrow> u)"
  have t: "t \<in> {..n}" "event_thread e = None \<or> event_thread e = Some t"
    using assms(3) by (auto simp: t_def threads_to_def split: option.split)
  note b = step_balanced [OF assms(1,2) t(2)]
  show ?thesis using balanced_sums [OF conjunct1 [OF b] finite_atMost t(1)] b by simp
qed

lemma run_sums:
  "sched_runs (threads_to n) es s \<Longrightarrow> settled s \<Longrightarrow>
   unfinished {..n} (sched_run es s) + finished_ops (sched_run es s) = unfinished {..n} s + finished_ops s + (\<Sum>e\<leftarrow>es. mset (handed e)) \<and>
   work_total {..n} (sched_run es s) = work_total {..n} s + (\<Sum>e\<leftarrow>es. announced e)"
proof (induction es arbitrary: s)
  case (Cons e es)
  then show ?case using step_sums [of s e n] Cons.IH [of "sched_step e s"] by (simp add: sched_run_def ac_simps)
qed (simp add: sched_run_def)

lemma sums_init: "unfinished {..n} (sched_init b) + finished_ops (sched_init b) = {#}" "work_total {..n} (sched_init b) = 0"
  by (simp_all add: unfinished_def finished_ops_def work_total_def sched_init_def thread_init_def carried_def)

text \<open>
  C19: No operation is lost or duplicated, and no work is miscounted. After any run of a scheduler, the
  operations that are queued, in a private queue or in completion, with those completed and destroyed, are the
  operations that were handed to it; and the count of outstanding work, with the private counts of the threads
  in the loop, is what the events announced less what they ended.
\<close>

theorem scheduler_accounts_for_work:
  assumes "sched_runs (threads_to n) es (sched_init b)" and "s = sched_run es (sched_init b)"
  shows "unfinished {..n} s + mset (sd_done s) + mset (sd_destroyed s) = (\<Sum>e\<leftarrow>es. mset (handed e)) \<and>
    sd_outstanding s + (\<Sum>t\<in>{..n}. th_private_work (sd_threads s t)) = (\<Sum>e\<leftarrow>es. announced e)"
  using run_sums [OF assms(1) settled_init] sums_init
  by (simp add: assms(2) finished_ops_def [of "sched_run es (sched_init b)"] work_total_def [of _ "sched_run es (sched_init b)"] add.assoc)

lemma scheduler_accounts_for_work_witness:
  "unfinished {..2} (sched_run sched_busy_run (sched_init False)) + mset [7] + mset [] = {#7, 8, 9#} \<and>
   sd_outstanding (sched_run sched_busy_run (sched_init False)) + 0 = 3"
proof -
  let ?s = "sched_run sched_busy_run (sched_init False)"
  have r: "sched_runs (threads_to 2) sched_busy_run (sched_init False)" by (simp add: sched_busy_run_def sched_defs threads_to_def)
  have "sd_done ?s = [7]" "sd_destroyed ?s = []" by (simp_all add: sched_busy_run_def sched_defs)
  moreover have "th_private_work (sd_threads ?s t) = 0" for t by (auto simp: sched_busy_run_def sched_defs)
  then have "(\<Sum>t\<in>{..2}. th_private_work (sd_threads ?s t)) = 0" by simp
  moreover have "(\<Sum>e\<leftarrow>sched_busy_run. mset (handed e)) = {#7, 8, 9#}" "(\<Sum>e\<leftarrow>sched_busy_run. announced e) = 3"
    by (simp_all add: sched_busy_run_def)
  ultimately show ?thesis using scheduler_accounts_for_work [OF r refl] by simp
qed

section \<open>A lost wake-up\<close>

text \<open>
  Thread 1 sleeps in \<open>run\<close>. Thread 2 completes one operation in \<open>run_one\<close>, whose handler posts a continuation,
  and leaves.
\<close>

definition sched_lost_run :: "sched_event list" where
  "sched_lost_run = [Sd_work_started, Sd_enter Fn_run 1, Sd_lock 1, Sd_post None 7 False, Sd_enter Fn_run_one 2, Sd_lock 2,
     Sd_signal (Some 1), Sd_relock 1, Sd_post (Some 2) 8 True, Sd_completed 2 False]"

text \<open>
  C20: The condition of the preceding theorem is needed. When a handler in \<open>run_one\<close> posts a continuation, its
  thread moves the operation to the queue in \<open>work_cleanup\<close>, wakes no thread and leaves: the operation is in
  the queue, the only thread in the functions of the scheduler is asleep, and no signal is due.
\<close>

theorem scheduler_loses_wake_up:
  "sched_runs (\<lambda>e s. True) sched_lost_run (sched_init False) \<and>
   (let s = sched_run sched_lost_run (sched_init False)
    in sd_queue s = [Operation 8] \<and> place s 1 = Asleep \<and> {t. place s t \<noteq> Outside} = {1} \<and> sd_signals s = 0 \<and>
       \<not> sd_stopped s \<and> \<not> attended s)"
proof -
  let ?s = "sched_run sched_lost_run (sched_init False)"
  have r: "sched_runs (\<lambda>e s. True) sched_lost_run (sched_init False)" by (simp add: sched_lost_run_def sched_defs)
  have f: "sd_queue ?s = [Operation 8]" "sd_signals ?s = 0" "\<not> sd_stopped ?s" by (simp_all add: sched_lost_run_def sched_defs)
  have p: "place ?s = (\<lambda>t. if t = 1 then Asleep else Outside)" by (auto simp: sched_lost_run_def sched_defs fun_eq_iff)
  then have q: "place ?s t = (if t = 1 then Asleep else Outside)" for t by (rule fun_cong)
  have "\<not> attended ?s" using f q by (auto simp: attended_def idles_def comes_def)
  then show ?thesis using r f q by (auto simp: Let_def)
qed

end
