(* ===== verification/Asio_Signal.thy ===== *)
theory Asio_Signal
  imports Asio_Error Prelude "HOL-Library.Monad_Syntax"
begin

text \<open>
  The signal set service, \<^verbatim>\<open>asio/detail/impl/signal_set_service.ipp\<close>: sets of signals and the operations that
  wait for them, with the registrations of a signal in a linked list per service and the services in a list
  that is global to the process. \<open>sg_sigaction\<close> chooses between the branches with \<^verbatim>\<open>sigaction\<close>, where the handler
  of a signal writes to a pipe, and those of Windows with \<^verbatim>\<open>signal\<close>, where it delivers the signal itself. The
  reactor that watches the pipe, and forks, are not modelled.
\<close>

section \<open>State\<close>

text \<open>Objects are numbers. The signals of a set, linked by \<open>next_in_set_\<close>, are a list.\<close>

record sig_registration =
  rg_signal :: int
  rg_queue :: nat
  rg_undelivered :: nat
  rg_next :: "nat option"
  rg_prev :: "nat option"

record signal_set =
  ss_service :: nat
  ss_queue :: "nat list"
  ss_signals :: "nat list"

text \<open>\<open>sv_locking\<close> is the hint of the service's scheduler, \<open>sv_posted\<close> and \<open>sv_dropped\<close> are the operations given to it.\<close>

record signal_service =
  ssv_table :: "int \<Rightarrow> nat option"
  ssv_next :: "nat option"
  ssv_prev :: "nat option"
  ssv_locking :: bool
  ssv_work :: nat
  ssv_posted :: "nat list"
  ssv_dropped :: "nat list"

record signal_operation =
  so_ec :: error_code
  so_key :: "nat option"
  so_number :: int

text \<open>
  \<open>sg_handled n\<close>: signal \<open>n\<close> has asio's handler and not the default one. \<open>sg_pipe\<close> is what is in the pipe, and
  \<open>None\<close> when its descriptors are closed.
\<close>

record signal_state =
  sg_max :: int
  sg_sigaction :: bool
  sg_count :: "int \<Rightarrow> nat"
  sg_flags :: "int \<Rightarrow> int"
  sg_handled :: "int \<Rightarrow> bool"
  sg_pipe :: "int list option"
  sg_services :: "nat option"
  sg_service :: "nat \<Rightarrow> signal_service"
  sg_set :: "nat \<Rightarrow> signal_set"
  sg_reg :: "nat \<Rightarrow> sig_registration"
  sg_op :: "nat \<Rightarrow> signal_operation"

definition on_sig_service :: "nat \<Rightarrow> (signal_service \<Rightarrow> signal_service) \<Rightarrow> signal_state \<Rightarrow> signal_state" where
  "on_sig_service v f s = s\<lparr>sg_service := (sg_service s)(v := f (sg_service s v))\<rparr>"

definition on_sig_set :: "nat \<Rightarrow> (signal_set \<Rightarrow> signal_set) \<Rightarrow> signal_state \<Rightarrow> signal_state" where
  "on_sig_set i f s = s\<lparr>sg_set := (sg_set s)(i := f (sg_set s i))\<rparr>"

definition on_sig_reg :: "nat \<Rightarrow> (sig_registration \<Rightarrow> sig_registration) \<Rightarrow> signal_state \<Rightarrow> signal_state" where
  "on_sig_reg r f s = s\<lparr>sg_reg := (sg_reg s)(r := f (sg_reg s r))\<rparr>"

definition on_sig_ops :: "nat list \<Rightarrow> (signal_operation \<Rightarrow> signal_operation) \<Rightarrow> signal_state \<Rightarrow> signal_state" where
  "on_sig_ops ops f s = s\<lparr>sg_op := (\<lambda>op. if op \<in> set ops then f (sg_op s op) else sg_op s op)\<rparr>"

definition signal_op_init :: "nat option \<Rightarrow> signal_operation" where
  "signal_op_init key = \<lparr>so_ec = no_error, so_key = key, so_number = 0\<rparr>"

definition signal_state_init :: "int \<Rightarrow> bool \<Rightarrow> signal_state" where
  "signal_state_init max_number sigaction =
     \<lparr>sg_max = max_number, sg_sigaction = sigaction, sg_count = (\<lambda>_. 0), sg_flags = (\<lambda>_. 0), sg_handled = (\<lambda>_. False), sg_pipe = None,
      sg_services = None,
      sg_service = (\<lambda>_. \<lparr>ssv_table = (\<lambda>_. None), ssv_next = None, ssv_prev = None, ssv_locking = True, ssv_work = 0,
        ssv_posted = [], ssv_dropped = []\<rparr>),
      sg_set = (\<lambda>_. \<lparr>ss_service = 0, ss_queue = [], ss_signals = []\<rparr>),
      sg_reg = (\<lambda>_. \<lparr>rg_signal = 0, rg_queue = 0, rg_undelivered = 0, rg_next = None, rg_prev = None\<rparr>),
      sg_op = (\<lambda>_. signal_op_init None)\<rparr>"

text \<open>The flags \<open>none\<close> and \<open>dont_care\<close>.\<close>

definition flags_none :: int where "flags_none = 0"
definition flags_dont_care :: int where "flags_dont_care = - 1"

section \<open>The system\<close>

text \<open>A call of \<^verbatim>\<open>signal\<close> or \<^verbatim>\<open>sigaction\<close> for signal \<open>n\<close> fails with \<open>errno\<close> when \<open>sys n = Some errno\<close>.\<close>

definition signal_call_error :: "signal_state \<Rightarrow> int \<Rightarrow> error_code" where
  "signal_call_error s errno = (if sg_sigaction s then system_ec errno else make_basic invalid_argument)"

definition set_handled :: "int \<Rightarrow> bool \<Rightarrow> signal_state \<Rightarrow> signal_state" where
  "set_handled n b s = s\<lparr>sg_handled := (sg_handled s)(n := b)\<rparr>"

definition set_flags :: "int \<Rightarrow> int \<Rightarrow> signal_state \<Rightarrow> signal_state" where
  "set_flags n f s = (if sg_sigaction s then s\<lparr>sg_flags := (sg_flags s)(n := f)\<rparr> else s)"

text \<open>Before a signal is added to a set, and before it is taken out.\<close>

definition register_signal :: "(int \<Rightarrow> int option) \<Rightarrow> int \<Rightarrow> int \<Rightarrow> signal_state \<Rightarrow> error_code + signal_state" where
  "register_signal sys n f s =
     (if sg_count s n = 0
      then case sys n of Some e \<Rightarrow> Inl (signal_call_error s e) | None \<Rightarrow> Inr (set_flags n f (set_handled n True s))
      else if sg_sigaction s \<and> f \<noteq> flags_dont_care \<and> f \<noteq> sg_flags s n
      then if sg_flags s n \<noteq> flags_dont_care then Inl (make_basic invalid_argument)
           else case sys n of Some e \<Rightarrow> Inl (signal_call_error s e) | None \<Rightarrow> Inr (set_flags n f (set_handled n True s))
      else Inr s)"

definition unregister_signal :: "(int \<Rightarrow> int option) \<Rightarrow> int \<Rightarrow> signal_state \<Rightarrow> error_code + signal_state" where
  "unregister_signal sys n s =
     (if sg_count s n = 1
      then case sys n of Some e \<Rightarrow> Inl (signal_call_error s e) | None \<Rightarrow> Inr (set_flags n flags_none (set_handled n False s))
      else Inr s)"

section \<open>Adding and removing signals\<close>

text \<open>The registrations of a set before the place of signal \<open>n\<close>, and from there.\<close>

fun find_signal :: "(nat \<Rightarrow> sig_registration) \<Rightarrow> int \<Rightarrow> nat list \<Rightarrow> nat list \<times> nat list" where
  "find_signal reg n [] = ([], [])"
| "find_signal reg n (r # rs) =
     (if rg_signal (reg r) < n then let (before, after) = find_signal reg n rs in (r # before, after) else ([], r # rs))"

definition link_registration :: "nat \<Rightarrow> int \<Rightarrow> nat \<Rightarrow> signal_state \<Rightarrow> signal_state" where
  "link_registration v n r s =
     (let s1 = on_sig_reg r (\<lambda>x. x\<lparr>rg_next := ssv_table (sg_service s v) n\<rparr>) s;
          s2 = (case ssv_table (sg_service s1 v) n of None \<Rightarrow> s1 | Some h \<Rightarrow> on_sig_reg h (\<lambda>x. x\<lparr>rg_prev := Some r\<rparr>) s1);
          s3 = on_sig_service v (\<lambda>x. x\<lparr>ssv_table := (ssv_table x)(n := Some r)\<rparr>) s2
      in s3\<lparr>sg_count := (sg_count s3)(n := sg_count s3 n + 1)\<rparr>)"

definition unlink_registration :: "nat \<Rightarrow> int \<Rightarrow> nat \<Rightarrow> signal_state \<Rightarrow> signal_state" where
  "unlink_registration v n r s =
     (let s1 = (if ssv_table (sg_service s v) n = Some r
                then on_sig_service v (\<lambda>x. x\<lparr>ssv_table := (ssv_table x)(n := rg_next (sg_reg s r))\<rparr>) s else s);
          s2 = (case rg_prev (sg_reg s1 r) of None \<Rightarrow> s1
                | Some p \<Rightarrow> on_sig_reg p (\<lambda>x. x\<lparr>rg_next := rg_next (sg_reg s1 r)\<rparr>) s1);
          s3 = (case rg_next (sg_reg s2 r) of None \<Rightarrow> s2
                | Some q \<Rightarrow> on_sig_reg q (\<lambda>x. x\<lparr>rg_prev := rg_prev (sg_reg s2 r)\<rparr>) s2)
      in s3\<lparr>sg_count := (sg_count s3)(n := sg_count s3 n - 1)\<rparr>)"

text \<open>\<open>r\<close> is the new registration.\<close>

definition signal_add :: "(int \<Rightarrow> int option) \<Rightarrow> nat \<Rightarrow> int \<Rightarrow> int \<Rightarrow> nat \<Rightarrow> signal_state \<Rightarrow> error_code \<times> signal_state" where
  "signal_add sys i n f r s =
     (if n < 0 \<or> n \<ge> sg_max s then (make_basic invalid_argument, s)
      else if \<not> sg_sigaction s \<and> f \<noteq> flags_dont_care then (make_basic operation_not_supported, s)
      else let (before, after) = find_signal (sg_reg s) n (ss_signals (sg_set s i))
      in if after = [] \<or> rg_signal (sg_reg s (hd after)) \<noteq> n
         then case register_signal sys n f s of
             Inl e \<Rightarrow> (e, s)
           | Inr s1 \<Rightarrow>
               let s2 = on_sig_reg r (\<lambda>_. \<lparr>rg_signal = n, rg_queue = i, rg_undelivered = 0, rg_next = None, rg_prev = None\<rparr>) s1;
                   s3 = on_sig_set i (\<lambda>x. x\<lparr>ss_signals := before @ r # after\<rparr>) s2
               in (no_error, link_registration (ss_service (sg_set s3 i)) n r s3)
         else (no_error, s))"

definition signal_remove :: "(int \<Rightarrow> int option) \<Rightarrow> nat \<Rightarrow> int \<Rightarrow> signal_state \<Rightarrow> error_code \<times> signal_state" where
  "signal_remove sys i n s =
     (if n < 0 \<or> n \<ge> sg_max s then (make_basic invalid_argument, s)
      else let (before, after) = find_signal (sg_reg s) n (ss_signals (sg_set s i))
      in if after \<noteq> [] \<and> rg_signal (sg_reg s (hd after)) = n
         then case unregister_signal sys n s of
             Inl e \<Rightarrow> (e, s)
           | Inr s1 \<Rightarrow>
               let s2 = on_sig_set i (\<lambda>x. x\<lparr>ss_signals := before @ tl after\<rparr>) s1
               in (no_error, unlink_registration (ss_service (sg_set s2 i)) n (hd after) s2)
         else (no_error, s))"

fun signal_clear_loop :: "(int \<Rightarrow> int option) \<Rightarrow> nat \<Rightarrow> nat list \<Rightarrow> signal_state \<Rightarrow> error_code \<times> signal_state" where
  "signal_clear_loop sys i [] s = (no_error, s)"
| "signal_clear_loop sys i (r # rs) s =
     (case unregister_signal sys (rg_signal (sg_reg s r)) s of
        Inl e \<Rightarrow> (e, s)
      | Inr s1 \<Rightarrow>
          let s2 = unlink_registration (ss_service (sg_set s1 i)) (rg_signal (sg_reg s1 r)) r s1
          in signal_clear_loop sys i rs (on_sig_set i (\<lambda>x. x\<lparr>ss_signals := rs\<rparr>) s2))"

definition signal_clear :: "(int \<Rightarrow> int option) \<Rightarrow> nat \<Rightarrow> signal_state \<Rightarrow> error_code \<times> signal_state" where
  "signal_clear sys i s = signal_clear_loop sys i (ss_signals (sg_set s i)) s"

section \<open>Waiting\<close>

definition sig_post_deferred :: "nat \<Rightarrow> nat list \<Rightarrow> signal_state \<Rightarrow> signal_state" where
  "sig_post_deferred v ops s = on_sig_service v (\<lambda>x. x\<lparr>ssv_posted := ssv_posted x @ ops\<rparr>) s"

definition signal_cancel :: "nat \<Rightarrow> signal_state \<Rightarrow> signal_state" where
  "signal_cancel i s =
     (let ops = ss_queue (sg_set s i);
          s1 = on_sig_ops ops (\<lambda>x. x\<lparr>so_ec := make_basic operation_aborted\<rparr>) s;
          s2 = on_sig_set i (\<lambda>x. x\<lparr>ss_queue := []\<rparr>) s1
      in sig_post_deferred (ss_service (sg_set s2 i)) ops s2)"

definition signal_cancel_by_key :: "nat \<Rightarrow> nat option \<Rightarrow> signal_state \<Rightarrow> signal_state" where
  "signal_cancel_by_key i key s =
     (let ops = filter (\<lambda>op. so_key (sg_op s op) = key) (ss_queue (sg_set s i));
          s1 = on_sig_ops ops (\<lambda>x. x\<lparr>so_ec := make_basic operation_aborted\<rparr>) s;
          s2 = on_sig_set i (\<lambda>x. x\<lparr>ss_queue := filter (\<lambda>op. so_key (sg_op s op) \<noteq> key) (ss_queue x)\<rparr>) s1
      in sig_post_deferred (ss_service (sg_set s2 i)) ops s2)"

text \<open>\<open>start_wait_op\<close>.\<close>

definition start_signal_wait :: "nat \<Rightarrow> nat \<Rightarrow> signal_state \<Rightarrow> signal_state" where
  "start_signal_wait i op s =
     (let v = ss_service (sg_set s i);
          s1 = on_sig_service v (\<lambda>x. x\<lparr>ssv_work := ssv_work x + 1\<rparr>) s
      in case List.find (\<lambda>r. rg_undelivered (sg_reg s1 r) > 0) (ss_signals (sg_set s1 i)) of
           Some r \<Rightarrow>
             let s2 = on_sig_reg r (\<lambda>x. x\<lparr>rg_undelivered := rg_undelivered x - 1\<rparr>) s1;
                 s3 = on_sig_ops [op] (\<lambda>x. x\<lparr>so_number := rg_signal (sg_reg s2 r)\<rparr>) s2
             in sig_post_deferred v [op] s3
         | None \<Rightarrow> on_sig_set i (\<lambda>x. x\<lparr>ss_queue := ss_queue x @ [op]\<rparr>) s1)"

definition signal_async_wait :: "nat \<Rightarrow> nat \<Rightarrow> nat option \<Rightarrow> signal_state \<Rightarrow> signal_state" where
  "signal_async_wait i op key s = start_signal_wait i op (on_sig_ops [op] (\<lambda>_. signal_op_init key) s)"

section \<open>Delivery\<close>

text \<open>To one registration: it takes all the operations that wait.\<close>

definition deliver_to :: "int \<Rightarrow> nat \<Rightarrow> nat list \<times> signal_state \<Rightarrow> nat list \<times> signal_state" where
  "deliver_to n r os =
     (let (ops, s) = os; q = ss_queue (sg_set s (rg_queue (sg_reg s r)))
      in if q = [] then (ops, on_sig_reg r (\<lambda>x. x\<lparr>rg_undelivered := rg_undelivered x + 1\<rparr>) s)
         else (ops @ q, on_sig_set (rg_queue (sg_reg s r)) (\<lambda>x. x\<lparr>ss_queue := []\<rparr>)
                          (on_sig_ops q (\<lambda>x. x\<lparr>so_number := n\<rparr>) s)))"

partial_function (option) deliver_regs :: "int \<Rightarrow> nat option \<Rightarrow> nat list \<times> signal_state \<Rightarrow> (nat list \<times> signal_state) option" where
  "deliver_regs n p os =
     (case p of
        None \<Rightarrow> Some os
      | Some r \<Rightarrow> let os1 = deliver_to n r os in deliver_regs n (rg_next (sg_reg (snd os1) r)) os1)"

partial_function (option) deliver_services :: "int \<Rightarrow> nat option \<Rightarrow> signal_state \<Rightarrow> signal_state option" where
  "deliver_services n p s =
     (case p of
        None \<Rightarrow> Some s
      | Some v \<Rightarrow> do {
          (ops, s1) \<leftarrow> deliver_regs n (ssv_table (sg_service s v) n) ([], s);
          let s2 = sig_post_deferred v ops s1;
          deliver_services n (ssv_next (sg_service s2 v)) s2})"

definition deliver_signal :: "int \<Rightarrow> signal_state \<Rightarrow> signal_state option" where
  "deliver_signal n s = deliver_services n (sg_services s) s"

text \<open>
  A signal with asio's handler is raised. With \<^verbatim>\<open>sigaction\<close> the handler writes its number to the pipe, which
  \<open>written\<close> says has room. Without, the system has reset the handler, which delivers the signal and installs
  itself again.
\<close>

definition asio_signal_handler :: "bool \<Rightarrow> int \<Rightarrow> signal_state \<Rightarrow> signal_state option" where
  "asio_signal_handler written n s =
     (if sg_sigaction s
      then Some (case sg_pipe s of None \<Rightarrow> s | Some ns \<Rightarrow> if written then s\<lparr>sg_pipe := Some (ns @ [n])\<rparr> else s)
      else do {s1 \<leftarrow> deliver_signal n s; Some (set_handled n True s1)})"

text \<open>\<open>pipe_read_op::do_perform\<close>, which the reactor calls when the pipe has something to read.\<close>

fun pipe_read_loop :: "int list \<Rightarrow> signal_state \<Rightarrow> signal_state option" where
  "pipe_read_loop [] s = Some s"
| "pipe_read_loop (n # ns) s =
     (if n \<ge> 0 \<and> n < sg_max s then do {s1 \<leftarrow> deliver_signal n s; pipe_read_loop ns s1} else pipe_read_loop ns s)"

definition pipe_read_perform :: "signal_state \<Rightarrow> signal_state option" where
  "pipe_read_perform s =
     (case sg_pipe s of None \<Rightarrow> Some s | Some ns \<Rightarrow> pipe_read_loop ns (s\<lparr>sg_pipe := Some []\<rparr>))"

section \<open>Services and sets\<close>

text \<open>\<open>None\<close> is an exception. \<open>opened\<close> says that the call of \<^verbatim>\<open>pipe\<close> succeeds.\<close>

definition open_descriptors :: "bool \<Rightarrow> signal_state \<Rightarrow> signal_state option" where
  "open_descriptors opened s =
     (if \<not> sg_sigaction s then Some s else if opened then Some (s\<lparr>sg_pipe := Some []\<rparr>) else None)"

definition close_descriptors :: "signal_state \<Rightarrow> signal_state" where
  "close_descriptors s = (if sg_sigaction s then s\<lparr>sg_pipe := None\<rparr> else s)"

definition sig_add_service :: "bool \<Rightarrow> nat \<Rightarrow> signal_state \<Rightarrow> signal_state option" where
  "sig_add_service opened v s =
     (case sg_services s of
        Some h \<Rightarrow>
          if \<not> ssv_locking (sg_service s v) \<or> \<not> ssv_locking (sg_service s h) then None
          else let s1 = on_sig_service v (\<lambda>x. x\<lparr>ssv_next := Some h, ssv_prev := None\<rparr>) s;
                   s2 = on_sig_service h (\<lambda>x. x\<lparr>ssv_prev := Some v\<rparr>) s1
               in Some (s2\<lparr>sg_services := Some v\<rparr>)
      | None \<Rightarrow> do {
          s1 \<leftarrow> open_descriptors opened s;
          Some ((on_sig_service v (\<lambda>x. x\<lparr>ssv_next := None, ssv_prev := None\<rparr>) s1)\<lparr>sg_services := Some v\<rparr>)})"

definition sig_remove_service :: "nat \<Rightarrow> signal_state \<Rightarrow> signal_state" where
  "sig_remove_service v s =
     (if ssv_next (sg_service s v) \<noteq> None \<or> ssv_prev (sg_service s v) \<noteq> None \<or> sg_services s = Some v
      then let s1 = (if sg_services s = Some v then s\<lparr>sg_services := ssv_next (sg_service s v)\<rparr> else s);
               s2 = (case ssv_prev (sg_service s1 v) of None \<Rightarrow> s1
                     | Some p \<Rightarrow> on_sig_service p (\<lambda>x. x\<lparr>ssv_next := ssv_next (sg_service s1 v)\<rparr>) s1);
               s3 = (case ssv_next (sg_service s2 v) of None \<Rightarrow> s2
                     | Some q \<Rightarrow> on_sig_service q (\<lambda>x. x\<lparr>ssv_prev := ssv_prev (sg_service s2 v)\<rparr>) s2);
               s4 = on_sig_service v (\<lambda>x. x\<lparr>ssv_next := None, ssv_prev := None\<rparr>) s3
           in if sg_services s4 = None then close_descriptors s4 else s4
      else s)"

definition sig_service_construct :: "bool \<Rightarrow> nat \<Rightarrow> bool \<Rightarrow> signal_state \<Rightarrow> signal_state option" where
  "sig_service_construct opened v locking s =
     sig_add_service opened v (on_sig_service v (\<lambda>x. x\<lparr>ssv_table := (\<lambda>_. None), ssv_next := None, ssv_prev := None,
       ssv_locking := locking, ssv_work := 0, ssv_posted := [], ssv_dropped := []\<rparr>) s)"

text \<open>\<open>shutdown\<close>: the operations that wait in the sets of the registrations of each signal.\<close>

partial_function (option) shutdown_regs :: "nat option \<Rightarrow> nat list \<times> signal_state \<Rightarrow> (nat list \<times> signal_state) option" where
  "shutdown_regs p os =
     (case p of
        None \<Rightarrow> Some os
      | Some r \<Rightarrow>
          let (ops, s) = os; i = rg_queue (sg_reg s r)
          in shutdown_regs (rg_next (sg_reg s r)) (ops @ ss_queue (sg_set s i), on_sig_set i (\<lambda>x. x\<lparr>ss_queue := []\<rparr>) s))"

fun shutdown_signals :: "nat \<Rightarrow> int list \<Rightarrow> nat list \<times> signal_state \<Rightarrow> (nat list \<times> signal_state) option" where
  "shutdown_signals v [] os = Some os"
| "shutdown_signals v (n # ns) os =
     do {os1 \<leftarrow> shutdown_regs (ssv_table (sg_service (snd os) v) n) os; shutdown_signals v ns os1}"

definition sig_service_shutdown :: "nat \<Rightarrow> signal_state \<Rightarrow> signal_state option" where
  "sig_service_shutdown v s =
     (let s1 = sig_remove_service v s
      in do {(ops, s2) \<leftarrow> shutdown_signals v [0..sg_max s1 - 1] ([], s1);
             Some (on_sig_service v (\<lambda>x. x\<lparr>ssv_dropped := ssv_dropped x @ ops\<rparr>) s2)})"

definition signal_construct :: "nat \<Rightarrow> nat \<Rightarrow> signal_state \<Rightarrow> signal_state" where
  "signal_construct i v s = on_sig_set i (\<lambda>x. \<lparr>ss_service = v, ss_queue = [], ss_signals = []\<rparr>) s"

definition signal_destroy :: "(int \<Rightarrow> int option) \<Rightarrow> nat \<Rightarrow> signal_state \<Rightarrow> signal_state" where
  "signal_destroy sys i s = signal_cancel i (snd (signal_clear sys i s))"

end
