(* ===== verification/Asio_Signal_Facts.thy ===== *)
theory Asio_Signal_Facts
  imports Asio_Signal Linked_List "HOL-Library.Multiset"
begin

text \<open>
  Facts about signal sets: the invariant of their lists and counts, and an abstract specification in which a
  set has a number of undelivered signals for each of its signals and a list of waiting operations.
\<close>

section \<open>Specification\<close>

text \<open>Operations wait with their cancellation keys, and are posted with an error code and a signal number.\<close>

record signal_spec =
  sp_max :: int
  sp_sigaction :: bool
  sp_flags :: "int \<Rightarrow> int"
  sp_pipe :: "int list option"
  sp_listed :: "nat set"
  sp_owner :: "nat \<Rightarrow> nat"
  sp_pending :: "nat \<Rightarrow> int \<Rightarrow> nat option"
  sp_waiting :: "nat \<Rightarrow> (nat \<times> nat option) list"
  sp_posted :: "nat \<Rightarrow> (nat \<times> error_code \<times> int) multiset"
  sp_dropped :: "nat \<Rightarrow> nat multiset"

definition sp_sets :: "int \<Rightarrow> signal_spec \<Rightarrow> nat set" where
  "sp_sets n p = {i. sp_pending p i n \<noteq> None}"

definition sp_error :: "signal_spec \<Rightarrow> int \<Rightarrow> error_code" where
  "sp_error p errno = (if sp_sigaction p then system_ec errno else make_basic invalid_argument)"

definition sp_set_pending :: "nat \<Rightarrow> int \<Rightarrow> nat option \<Rightarrow> signal_spec \<Rightarrow> signal_spec" where
  "sp_set_pending i n k p = p\<lparr>sp_pending := (sp_pending p)(i := (sp_pending p i)(n := k))\<rparr>"

definition sp_set_flags :: "int \<Rightarrow> int \<Rightarrow> signal_spec \<Rightarrow> signal_spec" where
  "sp_set_flags n f p = (if sp_sigaction p then p\<lparr>sp_flags := (sp_flags p)(n := f)\<rparr> else p)"

text \<open>The first set that adds a signal asks the system for it; another one must agree about the flags.\<close>

definition sp_add :: "(int \<Rightarrow> int option) \<Rightarrow> nat \<Rightarrow> int \<Rightarrow> int \<Rightarrow> signal_spec \<Rightarrow> error_code \<times> signal_spec" where
  "sp_add sys i n f p =
     (if n < 0 \<or> n \<ge> sp_max p then (make_basic invalid_argument, p)
      else if \<not> sp_sigaction p \<and> f \<noteq> flags_dont_care then (make_basic operation_not_supported, p)
      else if sp_pending p i n \<noteq> None then (no_error, p)
      else let asks = sp_sets n p = {}; changes = sp_sigaction p \<and> f \<noteq> flags_dont_care \<and> f \<noteq> sp_flags p n
      in if \<not> asks \<and> changes \<and> sp_flags p n \<noteq> flags_dont_care then (make_basic invalid_argument, p)
         else if asks \<or> changes
         then case sys n of Some e \<Rightarrow> (sp_error p e, p) | None \<Rightarrow> (no_error, sp_set_pending i n (Some 0) (sp_set_flags n f p))
         else (no_error, sp_set_pending i n (Some 0) p))"

text \<open>The last one that removes a signal gives it back to the system.\<close>

definition sp_remove :: "(int \<Rightarrow> int option) \<Rightarrow> nat \<Rightarrow> int \<Rightarrow> signal_spec \<Rightarrow> error_code \<times> signal_spec" where
  "sp_remove sys i n p =
     (if n < 0 \<or> n \<ge> sp_max p then (make_basic invalid_argument, p)
      else if sp_pending p i n = None then (no_error, p)
      else if sp_sets n p = {i}
      then case sys n of Some e \<Rightarrow> (sp_error p e, p) | None \<Rightarrow> (no_error, sp_set_pending i n None (sp_set_flags n flags_none p))
      else (no_error, sp_set_pending i n None p))"

fun sp_remove_all :: "(int \<Rightarrow> int option) \<Rightarrow> nat \<Rightarrow> int list \<Rightarrow> signal_spec \<Rightarrow> error_code \<times> signal_spec" where
  "sp_remove_all sys i [] p = (no_error, p)"
| "sp_remove_all sys i (n # ns) p =
     (if sp_sets n p = {i} \<and> sys n \<noteq> None then sp_remove sys i n p
      else sp_remove_all sys i ns (snd (sp_remove sys i n p)))"

definition sp_clear :: "(int \<Rightarrow> int option) \<Rightarrow> nat \<Rightarrow> signal_spec \<Rightarrow> error_code \<times> signal_spec" where
  "sp_clear sys i p = sp_remove_all sys i (sorted_list_of_set (dom (sp_pending p i))) p"

definition sp_abort :: "nat \<Rightarrow> (nat option \<Rightarrow> bool) \<Rightarrow> signal_spec \<Rightarrow> signal_spec" where
  "sp_abort i P p =
     p\<lparr>sp_waiting := (sp_waiting p)(i := filter (\<lambda>w. \<not> P (snd w)) (sp_waiting p i)),
       sp_posted := (sp_posted p)(sp_owner p i := sp_posted p (sp_owner p i) +
         mset (map (\<lambda>w. (fst w, make_basic operation_aborted, 0)) (filter (\<lambda>w. P (snd w)) (sp_waiting p i))))\<rparr>"

definition sp_ready :: "nat \<Rightarrow> signal_spec \<Rightarrow> int set" where
  "sp_ready i p = {n. \<exists>k. sp_pending p i n = Some (Suc k)}"

text \<open>A new wait takes the smallest undelivered signal.\<close>

definition sp_wait :: "nat \<Rightarrow> nat \<Rightarrow> nat option \<Rightarrow> signal_spec \<Rightarrow> signal_spec" where
  "sp_wait i op key p =
     (if sp_ready i p = {} then p\<lparr>sp_waiting := (sp_waiting p)(i := sp_waiting p i @ [(op, key)])\<rparr>
      else let n = Min (sp_ready i p)
      in (sp_set_pending i n (Some (the (sp_pending p i n) - 1)) p)
           \<lparr>sp_posted := (sp_posted p)(sp_owner p i := sp_posted p (sp_owner p i) + {#(op, no_error, n)#})\<rparr>)"

text \<open>A signal completes all that waits in a set, or is counted there, in every set that has it.\<close>

definition sp_receivers :: "int \<Rightarrow> nat \<Rightarrow> signal_spec \<Rightarrow> nat set" where
  "sp_receivers n v p = {i. sp_owner p i = v \<and> sp_pending p i n \<noteq> None}"

definition sp_deliver :: "int \<Rightarrow> signal_spec \<Rightarrow> signal_spec" where
  "sp_deliver n p =
     p\<lparr>sp_pending := (\<lambda>i m. if m = n \<and> sp_owner p i \<in> sp_listed p \<and> sp_waiting p i = []
                           then map_option Suc (sp_pending p i n) else sp_pending p i m),
       sp_waiting := (\<lambda>i. if sp_owner p i \<in> sp_listed p \<and> sp_pending p i n \<noteq> None then [] else sp_waiting p i),
       sp_posted := (\<lambda>v. if v \<in> sp_listed p
         then sp_posted p v + (\<Sum>i\<in>sp_receivers n v p. mset (map (\<lambda>w. (fst w, no_error, n)) (sp_waiting p i)))
         else sp_posted p v)\<rparr>"

text \<open>
  With \<^verbatim>\<open>sigaction\<close>, signals go through the pipe that the services share; one that finds it full or closed is lost.
\<close>

definition sp_raise :: "bool \<Rightarrow> int \<Rightarrow> signal_spec \<Rightarrow> signal_spec" where
  "sp_raise written n p =
     (if \<not> sp_sigaction p then sp_deliver n p
      else if written then p\<lparr>sp_pipe := map_option (\<lambda>ns. ns @ [n]) (sp_pipe p)\<rparr> else p)"

definition sp_read_pipe :: "signal_spec \<Rightarrow> signal_spec" where
  "sp_read_pipe p =
     (case sp_pipe p of None \<Rightarrow> p
      | Some ns \<Rightarrow> fold sp_deliver (filter (\<lambda>n. 0 \<le> n \<and> n < sp_max p) ns) (p\<lparr>sp_pipe := Some []\<rparr>))"

definition sp_service_start :: "nat \<Rightarrow> signal_spec \<Rightarrow> signal_spec" where
  "sp_service_start v p =
     p\<lparr>sp_pipe := (if sp_sigaction p \<and> sp_listed p = {} then Some [] else sp_pipe p),
       sp_listed := insert v (sp_listed p), sp_posted := (sp_posted p)(v := {#}), sp_dropped := (sp_dropped p)(v := {#})\<rparr>"

text \<open>A service that is shut down drops what waits in the sets that have a signal.\<close>

definition sp_shut_sets :: "nat \<Rightarrow> signal_spec \<Rightarrow> nat set" where
  "sp_shut_sets v p = {i. sp_owner p i = v \<and> dom (sp_pending p i) \<noteq> {}}"

definition sp_service_stop :: "nat \<Rightarrow> signal_spec \<Rightarrow> signal_spec" where
  "sp_service_stop v p =
     p\<lparr>sp_pipe := (if sp_sigaction p \<and> sp_listed p = {v} then None else sp_pipe p), sp_listed := sp_listed p - {v},
       sp_waiting := (\<lambda>i. if i \<in> sp_shut_sets v p then [] else sp_waiting p i),
       sp_dropped := (sp_dropped p)(v := sp_dropped p v + (\<Sum>i\<in>sp_shut_sets v p. mset (map fst (sp_waiting p i))))\<rparr>"

definition sp_construct :: "nat \<Rightarrow> nat \<Rightarrow> signal_spec \<Rightarrow> signal_spec" where
  "sp_construct i v p = p\<lparr>sp_owner := (sp_owner p)(i := v)\<rparr>"

definition sp_destroy :: "(int \<Rightarrow> int option) \<Rightarrow> nat \<Rightarrow> signal_spec \<Rightarrow> signal_spec" where
  "sp_destroy sys i p = sp_abort i (\<lambda>_. True) (snd (sp_clear sys i p))"

section \<open>Abstraction\<close>

text \<open>The test of \<open>remove_service\<close>.\<close>

definition sig_listed :: "signal_state \<Rightarrow> nat \<Rightarrow> bool" where
  "sig_listed s v \<longleftrightarrow> ssv_next (sg_service s v) \<noteq> None \<or> ssv_prev (sg_service s v) \<noteq> None \<or> sg_services s = Some v"

definition pending_of :: "signal_state \<Rightarrow> nat \<Rightarrow> int \<Rightarrow> nat option" where
  "pending_of s i = map_of (map (\<lambda>r. (rg_signal (sg_reg s r), rg_undelivered (sg_reg s r))) (ss_signals (sg_set s i)))"

definition posted_entry :: "signal_state \<Rightarrow> nat \<Rightarrow> nat \<times> error_code \<times> int" where
  "posted_entry s op = (op, so_ec (sg_op s op), so_number (sg_op s op))"

definition signal_abs :: "signal_state \<Rightarrow> signal_spec" where
  "signal_abs s =
     \<lparr>sp_max = sg_max s, sp_sigaction = sg_sigaction s, sp_flags = sg_flags s, sp_pipe = sg_pipe s, sp_listed = {v. sig_listed s v},
      sp_owner = (\<lambda>i. ss_service (sg_set s i)), sp_pending = pending_of s,
      sp_waiting = (\<lambda>i. map (\<lambda>op. (op, so_key (sg_op s op))) (ss_queue (sg_set s i))),
      sp_posted = (\<lambda>v. mset (map (posted_entry s) (ssv_posted (sg_service s v)))),
      sp_dropped = (\<lambda>v. mset (ssv_dropped (sg_service s v)))\<rparr>"

section \<open>Invariant\<close>

definition signals_of :: "signal_state \<Rightarrow> nat \<Rightarrow> int list" where
  "signals_of s i = map (\<lambda>r. rg_signal (sg_reg s r)) (ss_signals (sg_set s i))"

definition sets_ok :: "signal_state \<Rightarrow> bool" where
  "sets_ok s \<longleftrightarrow> finite {i. ss_signals (sg_set s i) \<noteq> []} \<and>
     (\<forall>i. sorted_wrt (<) (signals_of s i) \<and> set (signals_of s i) \<subseteq> {0..<sg_max s} \<and>
       (\<forall>r \<in> set (ss_signals (sg_set s i)). rg_queue (sg_reg s r) = i \<and>
         (ss_queue (sg_set s i) \<noteq> [] \<longrightarrow> rg_undelivered (sg_reg s r) = 0)))"

definition regs_of :: "signal_state \<Rightarrow> nat \<Rightarrow> int \<Rightarrow> nat set" where
  "regs_of s v n = {r. \<exists>i. ss_service (sg_set s i) = v \<and> r \<in> set (ss_signals (sg_set s i)) \<and> rg_signal (sg_reg s r) = n}"

definition table_is :: "signal_state \<Rightarrow> nat \<Rightarrow> int \<Rightarrow> nat list \<Rightarrow> bool" where
  "table_is s v n rs \<longleftrightarrow>
     dll (\<lambda>r. rg_next (sg_reg s r)) (\<lambda>r. rg_prev (sg_reg s r)) (ssv_table (sg_service s v) n) rs \<and> set rs = regs_of s v n"

definition tables_ok :: "signal_state \<Rightarrow> bool" where
  "tables_ok s \<longleftrightarrow> (\<forall>v n. \<exists>rs. table_is s v n rs)"

definition services_are :: "signal_state \<Rightarrow> nat list \<Rightarrow> bool" where
  "services_are s vs \<longleftrightarrow>
     dll (\<lambda>v. ssv_next (sg_service s v)) (\<lambda>v. ssv_prev (sg_service s v)) (sg_services s) vs \<and>
     set vs = {v. sig_listed s v} \<and> (\<forall>v \<in> set vs. ssv_locking (sg_service s v)) \<and>
     (sg_pipe s \<noteq> None \<longleftrightarrow> sg_sigaction s \<and> sg_services s \<noteq> None)"

definition sets_with :: "signal_state \<Rightarrow> int \<Rightarrow> nat set" where
  "sets_with s n = {i. n \<in> set (signals_of s i)}"

definition counts_ok :: "signal_state \<Rightarrow> bool" where
  "counts_ok s \<longleftrightarrow> (\<forall>n. sg_count s n = card (sets_with s n) \<and> (sg_handled s n \<longleftrightarrow> sets_with s n \<noteq> {}))"

definition waiting_ops_ok :: "signal_state \<Rightarrow> bool" where
  "waiting_ops_ok s \<longleftrightarrow>
     (\<forall>i. distinct (ss_queue (sg_set s i))) \<and>
     (\<forall>i j. i \<noteq> j \<longrightarrow> set (ss_queue (sg_set s i)) \<inter> set (ss_queue (sg_set s j)) = {}) \<and>
     (\<forall>i v. set (ss_queue (sg_set s i)) \<inter> set (ssv_posted (sg_service s v)) = {}) \<and>
     (\<forall>i. \<forall>op \<in> set (ss_queue (sg_set s i)). so_ec (sg_op s op) = no_error \<and> so_number (sg_op s op) = 0)"

definition signal_ok :: "signal_state \<Rightarrow> bool" where
  "signal_ok s \<longleftrightarrow> sets_ok s \<and> tables_ok s \<and> (\<exists>vs. services_are s vs) \<and> counts_ok s \<and> waiting_ops_ok s"

lemmas signal_ok_defs = signal_ok_def sets_ok_def counts_ok_def waiting_ops_ok_def

section \<open>Field updates\<close>

lemma on_sig_simps [simp]:
  "sg_set (on_sig_service v f s) = sg_set s" "sg_reg (on_sig_service v f s) = sg_reg s" "sg_op (on_sig_service v f s) = sg_op s"
  "sg_services (on_sig_service v f s) = sg_services s" "sg_count (on_sig_service v f s) = sg_count s"
  "sg_flags (on_sig_service v f s) = sg_flags s" "sg_handled (on_sig_service v f s) = sg_handled s"
  "sg_max (on_sig_service v f s) = sg_max s" "sg_sigaction (on_sig_service v f s) = sg_sigaction s"
  "sg_service (on_sig_service v f s) u = (if u = v then f (sg_service s v) else sg_service s u)"
  "sg_service (on_sig_set i g s) = sg_service s" "sg_reg (on_sig_set i g s) = sg_reg s" "sg_op (on_sig_set i g s) = sg_op s"
  "sg_services (on_sig_set i g s) = sg_services s" "sg_count (on_sig_set i g s) = sg_count s"
  "sg_flags (on_sig_set i g s) = sg_flags s" "sg_handled (on_sig_set i g s) = sg_handled s"
  "sg_max (on_sig_set i g s) = sg_max s" "sg_sigaction (on_sig_set i g s) = sg_sigaction s"
  "sg_set (on_sig_set i g s) j = (if j = i then g (sg_set s i) else sg_set s j)"
  by (simp_all add: on_sig_service_def on_sig_set_def)

lemma on_sig_simps2 [simp]:
  "sg_set (on_sig_reg r h s) = sg_set s" "sg_service (on_sig_reg r h s) = sg_service s" "sg_op (on_sig_reg r h s) = sg_op s"
  "sg_services (on_sig_reg r h s) = sg_services s" "sg_count (on_sig_reg r h s) = sg_count s"
  "sg_flags (on_sig_reg r h s) = sg_flags s" "sg_handled (on_sig_reg r h s) = sg_handled s"
  "sg_max (on_sig_reg r h s) = sg_max s" "sg_sigaction (on_sig_reg r h s) = sg_sigaction s"
  "sg_reg (on_sig_reg r h s) q = (if q = r then h (sg_reg s r) else sg_reg s q)"
  "sg_set (on_sig_ops ops k s) = sg_set s" "sg_service (on_sig_ops ops k s) = sg_service s" "sg_reg (on_sig_ops ops k s) = sg_reg s"
  "sg_services (on_sig_ops ops k s) = sg_services s" "sg_count (on_sig_ops ops k s) = sg_count s"
  "sg_flags (on_sig_ops ops k s) = sg_flags s" "sg_handled (on_sig_ops ops k s) = sg_handled s"
  "sg_max (on_sig_ops ops k s) = sg_max s" "sg_sigaction (on_sig_ops ops k s) = sg_sigaction s"
  "sg_op (on_sig_ops ops k s) op = (if op \<in> set ops then k (sg_op s op) else sg_op s op)"
  by (simp_all add: on_sig_reg_def on_sig_ops_def)

lemma handled_flags_simps [simp]:
  "sg_set (set_handled n b s) = sg_set s" "sg_reg (set_handled n b s) = sg_reg s" "sg_op (set_handled n b s) = sg_op s"
  "sg_services (set_handled n b s) = sg_services s" "sg_count (set_handled n b s) = sg_count s" "sg_service (set_handled n b s) = sg_service s"
  "sg_flags (set_handled n b s) = sg_flags s" "sg_handled (set_handled n b s) = (sg_handled s)(n := b)"
  "sg_max (set_handled n b s) = sg_max s" "sg_sigaction (set_handled n b s) = sg_sigaction s"
  "sg_set (set_flags n f s) = sg_set s" "sg_reg (set_flags n f s) = sg_reg s" "sg_op (set_flags n f s) = sg_op s"
  "sg_services (set_flags n f s) = sg_services s" "sg_count (set_flags n f s) = sg_count s" "sg_service (set_flags n f s) = sg_service s"
  "sg_handled (set_flags n f s) = sg_handled s"
  "sg_max (set_flags n f s) = sg_max s" "sg_sigaction (set_flags n f s) = sg_sigaction s"
  "sg_flags (set_flags n f s) = (if sg_sigaction s then (sg_flags s)(n := f) else sg_flags s)"
  by (simp_all add: set_handled_def set_flags_def)

text \<open>Linking and unlinking in a table touch only links, the table and the count.\<close>

lemma link_simps [simp]:
  "sg_set (link_registration v n r s) = sg_set s" "sg_op (link_registration v n r s) = sg_op s"
  "sg_services (link_registration v n r s) = sg_services s" "sg_count (link_registration v n r s) = (sg_count s)(n := sg_count s n + 1)"
  "sg_flags (link_registration v n r s) = sg_flags s" "sg_handled (link_registration v n r s) = sg_handled s"
  "sg_max (link_registration v n r s) = sg_max s" "sg_sigaction (link_registration v n r s) = sg_sigaction s"
  "rg_signal (sg_reg (link_registration v n r s) q) = rg_signal (sg_reg s q)" "rg_queue (sg_reg (link_registration v n r s) q) = rg_queue (sg_reg s q)"
  "rg_undelivered (sg_reg (link_registration v n r s) q) = rg_undelivered (sg_reg s q)"
  "rg_next (sg_reg (link_registration v n r s) q) = (if q = r then ssv_table (sg_service s v) n else rg_next (sg_reg s q))"
  "rg_prev (sg_reg (link_registration v n r s) q) = (if ssv_table (sg_service s v) n = Some q then Some r else rg_prev (sg_reg s q))"
  "sg_service (link_registration v n r s) u =
     (if u = v then (sg_service s v)\<lparr>ssv_table := (ssv_table (sg_service s v))(n := Some r)\<rparr> else sg_service s u)"
  by (auto simp: link_registration_def Let_def split: option.split)

lemma unlink_simps [simp]:
  "sg_set (unlink_registration v n r s) = sg_set s" "sg_op (unlink_registration v n r s) = sg_op s"
  "sg_services (unlink_registration v n r s) = sg_services s" "sg_count (unlink_registration v n r s) = (sg_count s)(n := sg_count s n - 1)"
  "sg_flags (unlink_registration v n r s) = sg_flags s" "sg_handled (unlink_registration v n r s) = sg_handled s"
  "sg_max (unlink_registration v n r s) = sg_max s" "sg_sigaction (unlink_registration v n r s) = sg_sigaction s"
  "rg_signal (sg_reg (unlink_registration v n r s) q) = rg_signal (sg_reg s q)"
  "rg_queue (sg_reg (unlink_registration v n r s) q) = rg_queue (sg_reg s q)"
  "rg_undelivered (sg_reg (unlink_registration v n r s) q) = rg_undelivered (sg_reg s q)"
  "sg_service (unlink_registration v n r s) u =
     (if u = v \<and> ssv_table (sg_service s v) n = Some r
      then (sg_service s v)\<lparr>ssv_table := (ssv_table (sg_service s v))(n := rg_next (sg_reg s r))\<rparr> else sg_service s u)"
  by (auto simp: unlink_registration_def Let_def split: option.split)

lemma unlink_links:
  assumes "rg_prev (sg_reg s r) \<noteq> Some r" and "rg_next (sg_reg s r) \<noteq> Some r"
  shows "rg_next (sg_reg (unlink_registration v n r s) q) =
      (if rg_prev (sg_reg s r) = Some q then rg_next (sg_reg s r) else rg_next (sg_reg s q))"
    and "rg_prev (sg_reg (unlink_registration v n r s) q) =
      (if rg_next (sg_reg s r) = Some q then rg_prev (sg_reg s r) else rg_prev (sg_reg s q))"
  using assms by (auto simp: unlink_registration_def Let_def split: option.split)

lemma pipe_simps [simp]:
  "sg_pipe (on_sig_service v f s) = sg_pipe s" "sg_pipe (on_sig_set i g s) = sg_pipe s" "sg_pipe (on_sig_reg r h s) = sg_pipe s"
  "sg_pipe (on_sig_ops ops k s) = sg_pipe s" "sg_pipe (set_handled n b s) = sg_pipe s" "sg_pipe (set_flags n fl s) = sg_pipe s"
  "sg_pipe (link_registration v n r s) = sg_pipe s" "sg_pipe (unlink_registration v n r s) = sg_pipe s"
  "sg_pipe (sig_post_deferred v ops s) = sg_pipe s"
  by (simp_all add: on_sig_service_def on_sig_set_def on_sig_reg_def on_sig_ops_def set_handled_def set_flags_def
      link_registration_def unlink_registration_def sig_post_deferred_def Let_def split: option.split)

section \<open>Signals of a set\<close>

lemma signals_distinct: "sorted_wrt (<) (signals_of s i) \<Longrightarrow> distinct (signals_of s i)"
  by (simp add: strict_sorted_iff)

lemma pending_keys: "map fst (map (\<lambda>r. (rg_signal (sg_reg s r), rg_undelivered (sg_reg s r))) rs) = map (\<lambda>r. rg_signal (sg_reg s r)) rs"
  by (simp add: comp_def)

lemma pending_None: "pending_of s i n = None \<longleftrightarrow> n \<notin> set (signals_of s i)"
  unfolding pending_of_def map_of_eq_None_iff by (simp add: signals_of_def image_image)

lemma dom_pending: "dom (pending_of s i) = set (signals_of s i)"
  using pending_None by (auto simp: dom_def)

lemma pending_Some:
  assumes "sorted_wrt (<) (signals_of s i)" and "r \<in> set (ss_signals (sg_set s i))"
  shows "pending_of s i (rg_signal (sg_reg s r)) = Some (rg_undelivered (sg_reg s r))"
  unfolding pending_of_def
  by (rule map_of_is_SomeI) (use signals_distinct [OF assms(1)] assms(2) in \<open>auto simp: signals_of_def comp_def\<close>)

lemma find_signal_parts:
  "find_signal reg n rs = (b, a) \<Longrightarrow> rs = b @ a \<and> (\<forall>r \<in> set b. rg_signal (reg r) < n) \<and> (a \<noteq> [] \<longrightarrow> n \<le> rg_signal (reg (hd a)))"
  by (induction reg n rs arbitrary: b a rule: find_signal.induct) (auto split: if_splits prod.splits)

lemma find_signal_found:
  assumes "find_signal reg n rs = (b, a)" and "sorted_wrt (<) (map (\<lambda>r. rg_signal (reg r)) rs)"
  shows "a \<noteq> [] \<and> rg_signal (reg (hd a)) = n \<longleftrightarrow> n \<in> set (map (\<lambda>r. rg_signal (reg r)) rs)"
    and "n \<notin> set (map (\<lambda>r. rg_signal (reg r)) rs) \<Longrightarrow> \<forall>r \<in> set a. n < rg_signal (reg r)"
  using find_signal_parts [OF assms(1)] assms(2) by (cases a; force simp: sorted_wrt_append)+

text \<open>What depends on the signals and the counts of registrations alone.\<close>

definition same_regs :: "signal_state \<Rightarrow> signal_state \<Rightarrow> nat set \<Rightarrow> bool" where
  "same_regs s s' R \<longleftrightarrow> (\<forall>r \<in> R. rg_signal (sg_reg s' r) = rg_signal (sg_reg s r) \<and> rg_queue (sg_reg s' r) = rg_queue (sg_reg s r) \<and>
     rg_undelivered (sg_reg s' r) = rg_undelivered (sg_reg s r))"

lemma same_regs_views:
  assumes "same_regs s s' (set (ss_signals (sg_set s i)))" and "ss_signals (sg_set s' i) = ss_signals (sg_set s i)"
  shows "signals_of s' i = signals_of s i" and "pending_of s' i = pending_of s i"
proof -
  show "signals_of s' i = signals_of s i" using assms by (auto simp: signals_of_def same_regs_def)
  have "map (\<lambda>r. (rg_signal (sg_reg s' r), rg_undelivered (sg_reg s' r))) (ss_signals (sg_set s' i)) =
      map (\<lambda>r. (rg_signal (sg_reg s r), rg_undelivered (sg_reg s r))) (ss_signals (sg_set s i))"
    using assms by (auto simp: same_regs_def)
  then show "pending_of s' i = pending_of s i" by (simp add: pending_of_def)
qed

text \<open>Registrations belong to one set, and to one place in the tables.\<close>

lemma queue_of_reg: "sets_ok s \<Longrightarrow> r \<in> set (ss_signals (sg_set s i)) \<Longrightarrow> rg_queue (sg_reg s r) = i"
  by (simp add: sets_ok_def)

lemma set_of_reg: "sets_ok s \<Longrightarrow> r \<in> set (ss_signals (sg_set s i)) \<Longrightarrow> r \<in> set (ss_signals (sg_set s j)) \<Longrightarrow> i = j"
  using queue_of_reg by metis

lemma regs_of_disjoint:
  "sets_ok s \<Longrightarrow> r \<in> regs_of s v n \<Longrightarrow> r \<in> regs_of s v' n' \<Longrightarrow> v = v' \<and> n = n'"
proof -
  assume ok: "sets_ok s" and "r \<in> regs_of s v n" and "r \<in> regs_of s v' n'"
  then obtain i j where i: "ss_service (sg_set s i) = v" "r \<in> set (ss_signals (sg_set s i))" "rg_signal (sg_reg s r) = n"
    and j: "ss_service (sg_set s j) = v'" "r \<in> set (ss_signals (sg_set s j))" "rg_signal (sg_reg s r) = n'"
    by (auto simp: regs_of_def)
  have "i = j" by (rule set_of_reg [OF ok i(2) j(2)])
  then show ?thesis using i j by simp
qed

lemma table_cong:
  assumes "table_is s v n rs" and "ssv_table (sg_service s' v) n = ssv_table (sg_service s v) n" and "regs_of s' v n = regs_of s v n"
    and "\<And>r. r \<in> regs_of s v n \<Longrightarrow> rg_next (sg_reg s' r) = rg_next (sg_reg s r) \<and> rg_prev (sg_reg s' r) = rg_prev (sg_reg s r)"
  shows "table_is s' v n rs"
proof -
  have "dll (\<lambda>r. rg_next (sg_reg s' r)) (\<lambda>r. rg_prev (sg_reg s' r)) (ssv_table (sg_service s v) n) rs =
      dll (\<lambda>r. rg_next (sg_reg s r)) (\<lambda>r. rg_prev (sg_reg s r)) (ssv_table (sg_service s v) n) rs"
    using assms(1,4) by (intro dll_cong) (auto simp: table_is_def)
  then show ?thesis using assms(1-3) by (simp add: table_is_def)
qed

lemma tables_link:
  assumes "tables_ok s" and "sets_ok s" and fresh: "\<And>i. r \<notin> set (ss_signals (sg_set s i))"
    and regs: "\<And>v' n'. regs_of s' v' n' = (if v' = v \<and> n' = n then insert r (regs_of s v n) else regs_of s v' n')"
    and nx: "\<And>q. rg_next (sg_reg s' q) = (if q = r then ssv_table (sg_service s v) n else rg_next (sg_reg s q))"
    and pv: "\<And>q. rg_prev (sg_reg s' q) = (if ssv_table (sg_service s v) n = Some q then Some r else if q = r then None else rg_prev (sg_reg s q))"
    and tab: "\<And>v' n'. ssv_table (sg_service s' v') n' = (if v' = v \<and> n' = n then Some r else ssv_table (sg_service s v') n')"
  shows "tables_ok s'"
proof -
  obtain rs where t: "table_is s v n rs" using assms(1) by (auto simp: tables_ok_def)
  then have d: "dll (\<lambda>q. rg_next (sg_reg s q)) (\<lambda>q. rg_prev (sg_reg s q)) (ssv_table (sg_service s v) n) rs"
    and rs: "set rs = regs_of s v n" by (simp_all add: table_is_def)
  have r: "r \<notin> regs_of s v' n'" for v' n' using fresh by (auto simp: regs_of_def)
  have head: "q \<in> regs_of s v n" if "ssv_table (sg_service s v) n = Some q" for q using d rs that dll_head_in by metis
  have "dll (\<lambda>q. rg_next (sg_reg s' q)) (\<lambda>q. rg_prev (sg_reg s' q)) (Some r) (r # rs)"
    using d by (rule dll_insert) (use r rs head nx pv in auto)
  then have new: "table_is s' v n (r # rs)" by (simp add: table_is_def tab regs rs)
  have "\<exists>rs. table_is s' v' n' rs" for v' n'
  proof (cases "v' = v \<and> n' = n")
    case True
    then show ?thesis using new by blast
  next
    case False
    obtain rs' where t': "table_is s v' n' rs'" using assms(1) by (auto simp: tables_ok_def)
    have "q \<noteq> r \<and> ssv_table (sg_service s v) n \<noteq> Some q" if "q \<in> regs_of s v' n'" for q
      using that r [of v' n'] head [of q] regs_of_disjoint [OF assms(2) that, of v n] False by auto
    then have "rg_next (sg_reg s' q) = rg_next (sg_reg s q) \<and> rg_prev (sg_reg s' q) = rg_prev (sg_reg s q)" if "q \<in> regs_of s v' n'" for q
      using that by (simp add: nx pv)
    moreover have "ssv_table (sg_service s' v') n' = ssv_table (sg_service s v') n'" "regs_of s' v' n' = regs_of s v' n'"
      using False tab [of v' n'] regs [of v' n'] by auto
    ultimately have "table_is s' v' n' rs'" by (intro table_cong [OF t'])
    then show ?thesis by blast
  qed
  then show ?thesis by (simp add: tables_ok_def)
qed

lemma tables_unlink:
  assumes "tables_ok s" and "sets_ok s" and r: "r \<in> regs_of s v n"
    and regs: "\<And>v' n'. regs_of s' v' n' = (if v' = v \<and> n' = n then regs_of s v n - {r} else regs_of s v' n')"
    and nx: "\<And>q. rg_next (sg_reg s' q) = (if rg_prev (sg_reg s r) = Some q then rg_next (sg_reg s r) else rg_next (sg_reg s q))"
    and pv: "\<And>q. rg_prev (sg_reg s' q) = (if rg_next (sg_reg s r) = Some q then rg_prev (sg_reg s r) else rg_prev (sg_reg s q))"
    and tab: "\<And>v' n'. ssv_table (sg_service s' v') n' =
      (if v' = v \<and> n' = n \<and> ssv_table (sg_service s v) n = Some r then rg_next (sg_reg s r) else ssv_table (sg_service s v') n')"
  shows "tables_ok s'"
proof -
  obtain rs where t: "table_is s v n rs" using assms(1) by (auto simp: tables_ok_def)
  then have d: "dll (\<lambda>q. rg_next (sg_reg s q)) (\<lambda>q. rg_prev (sg_reg s q)) (ssv_table (sg_service s v) n) rs"
    and rs: "set rs = regs_of s v n" by (simp_all add: table_is_def)
  have in_rs: "r \<in> set rs" using r rs by simp
  have nb: "set_option (rg_prev (sg_reg s r)) \<union> set_option (rg_next (sg_reg s r)) \<subseteq> regs_of s v n"
    using dll_neighbours [OF d in_rs] rs by auto
  have "dll (\<lambda>q. rg_next (sg_reg s' q)) (\<lambda>q. rg_prev (sg_reg s' q)) (ssv_table (sg_service s' v) n) (remove1 r rs)"
    using d in_rs by (rule dll_remove) (auto simp: nx pv tab)
  then have new: "table_is s' v n (remove1 r rs)"
    using dll_distinct [OF d] rs by (simp add: table_is_def regs)
  have "\<exists>rs. table_is s' v' n' rs" for v' n'
  proof (cases "v' = v \<and> n' = n")
    case True
    then show ?thesis using new by blast
  next
    case False
    obtain rs' where t': "table_is s v' n' rs'" using assms(1) by (auto simp: tables_ok_def)
    have "rg_prev (sg_reg s r) \<noteq> Some q \<and> rg_next (sg_reg s r) \<noteq> Some q" if "q \<in> regs_of s v' n'" for q
      using nb regs_of_disjoint [OF assms(2) that, of v n] False by auto
    then have "rg_next (sg_reg s' q) = rg_next (sg_reg s q) \<and> rg_prev (sg_reg s' q) = rg_prev (sg_reg s q)" if "q \<in> regs_of s v' n'" for q
      using that by (simp add: nx pv)
    moreover have "ssv_table (sg_service s' v') n' = ssv_table (sg_service s v') n'" "regs_of s' v' n' = regs_of s v' n'"
      using False tab [of v' n'] regs [of v' n'] by auto
    ultimately have "table_is s' v' n' rs'" by (intro table_cong [OF t'])
    then show ?thesis by blast
  qed
  then show ?thesis by (simp add: tables_ok_def)
qed

lemma finite_sets_with: "sets_ok s \<Longrightarrow> finite (sets_with s n)"
  by (rule finite_subset [of _ "{i. ss_signals (sg_set s i) \<noteq> []}"]) (auto simp: sets_with_def signals_of_def sets_ok_def)

lemma services_cong:
  assumes "services_are s vs" and "sg_services s' = sg_services s" and "sg_pipe s' = sg_pipe s" and "sg_sigaction s' = sg_sigaction s"
    and "\<And>v. ssv_next (sg_service s' v) = ssv_next (sg_service s v) \<and> ssv_prev (sg_service s' v) = ssv_prev (sg_service s v) \<and>
      ssv_locking (sg_service s' v) = ssv_locking (sg_service s v)"
  shows "services_are s' vs"
  using assms by (simp add: services_are_def sig_listed_def)

lemma sp_sets_abs: "sp_sets n (signal_abs s) = sets_with s n"
  using pending_None by (auto simp: sp_sets_def signal_abs_def sets_with_def)

lemma signal_abs_simps [simp]:
  "sp_max (signal_abs s) = sg_max s" "sp_sigaction (signal_abs s) = sg_sigaction s" "sp_flags (signal_abs s) = sg_flags s"
  "sp_listed (signal_abs s) = {v. sig_listed s v}" "sp_owner (signal_abs s) i = ss_service (sg_set s i)"
  "sp_pending (signal_abs s) = pending_of s"
  "sp_waiting (signal_abs s) i = map (\<lambda>op. (op, so_key (sg_op s op))) (ss_queue (sg_set s i))"
  "sp_posted (signal_abs s) v = mset (map (posted_entry s) (ssv_posted (sg_service s v)))"
  "sp_dropped (signal_abs s) v = mset (ssv_dropped (sg_service s v))" "sp_pipe (signal_abs s) = sg_pipe s"
  by (simp_all add: signal_abs_def)

lemma signal_abs_same:
  assumes "sg_max s' = sg_max s" and "sg_sigaction s' = sg_sigaction s" and "sg_services s' = sg_services s" and "sg_op s' = sg_op s"
    and "sg_pipe s' = sg_pipe s"
    and "\<And>i. ss_service (sg_set s' i) = ss_service (sg_set s i)" and "\<And>i. ss_queue (sg_set s' i) = ss_queue (sg_set s i)"
    and "\<And>v. ssv_next (sg_service s' v) = ssv_next (sg_service s v)" and "\<And>v. ssv_prev (sg_service s' v) = ssv_prev (sg_service s v)"
    and "\<And>v. ssv_posted (sg_service s' v) = ssv_posted (sg_service s v)" and "\<And>v. ssv_dropped (sg_service s' v) = ssv_dropped (sg_service s v)"
  shows "signal_abs s' = (signal_abs s)\<lparr>sp_flags := sg_flags s', sp_pending := pending_of s'\<rparr>"
proof -
  have "posted_entry s' = posted_entry s" by (simp add: fun_eq_iff posted_entry_def assms)
  then show ?thesis by (simp add: signal_abs_def sig_listed_def assms)
qed

lemma map_of_middle: "k \<notin> fst ` set xs \<Longrightarrow> map_of (xs @ (k, x) # ys) = (map_of (xs @ ys))(k \<mapsto> x)"
  by (induction xs) (auto simp: fun_eq_iff)

lemma map_of_middle_drop:
  "k \<notin> fst ` set xs \<Longrightarrow> k \<notin> fst ` set ys \<Longrightarrow> map_of (xs @ ys) = (map_of (xs @ (k, x) # ys))(k := None)"
  by (induction xs) (auto simp: fun_eq_iff map_of_eq_None_iff)

section \<open>Adding a signal\<close>

definition unregistered :: "signal_state \<Rightarrow> nat \<Rightarrow> bool" where
  "unregistered s r \<longleftrightarrow> (\<forall>i. r \<notin> set (ss_signals (sg_set s i)))"

lemma insert_signal_ok:
  fixes s s' :: signal_state
  assumes ok: "signal_ok s" and r: "unregistered s r" and n: "n \<in> {0..<sg_max s}" "n \<notin> set (signals_of s i)"
    and find: "find_signal (sg_reg s) n (ss_signals (sg_set s i)) = (b, a)"
    and s1: "s1 = s\<lparr>sg_flags := F, sg_handled := (sg_handled s)(n := True)\<rparr>"
  defines "s' \<equiv> link_registration (ss_service (sg_set s i)) n r (on_sig_set i (\<lambda>x. x\<lparr>ss_signals := b @ r # a\<rparr>)
      (on_sig_reg r (\<lambda>_. \<lparr>rg_signal = n, rg_queue = i, rg_undelivered = 0, rg_next = None, rg_prev = None\<rparr>) s1))"
  shows "signal_ok s'" and "signal_abs s' = (sp_set_pending i n (Some 0) (signal_abs s))\<lparr>sp_flags := F\<rparr>"
proof -
  have so: "sets_ok s" and to: "tables_ok s" and co: "counts_ok s" and wo: "waiting_ops_ok s" using ok by (simp_all add: signal_ok_def)
  obtain vs where vs: "services_are s vs" using ok by (auto simp: signal_ok_def)
  have sorted: "sorted_wrt (<) (signals_of s j)" for j using so by (simp add: sets_ok_def)
  have fr: "r \<notin> set (ss_signals (sg_set s j))" for j using r by (simp add: unregistered_def)
  have parts: "ss_signals (sg_set s i) = b @ a" "\<And>q. q \<in> set b \<Longrightarrow> rg_signal (sg_reg s q) < n"
    using find_signal_parts [OF find] by auto
  have above: "n < rg_signal (sg_reg s q)" if "q \<in> set a" for q
    using find_signal_found(2) [OF find] sorted [of i] n(2) that by (auto simp: signals_of_def)
  have sets: "ss_signals (sg_set s' j) = (if j = i then b @ r # a else ss_signals (sg_set s j))"
    "ss_queue (sg_set s' j) = ss_queue (sg_set s j)" "ss_service (sg_set s' j) = ss_service (sg_set s j)" for j
    by (simp_all add: s'_def s1)
  have regs: "rg_signal (sg_reg s' q) = (if q = r then n else rg_signal (sg_reg s q))"
    "rg_queue (sg_reg s' q) = (if q = r then i else rg_queue (sg_reg s q))"
    "rg_undelivered (sg_reg s' q) = (if q = r then 0 else rg_undelivered (sg_reg s q))" for q
    by (simp_all add: s'_def s1)
  have br: "r \<notin> set b" "r \<notin> set a" using fr [of i] parts by auto
  have mp: "map (\<lambda>q. if q = r then c else h q) b = map h b" "map (\<lambda>q. if q = r then c else h q) a = map h a"
    for c :: int and h using br by (auto intro!: map_cong)
  have sig: "signals_of s' j = (if j = i then map (\<lambda>q. rg_signal (sg_reg s q)) b @ n # map (\<lambda>q. rg_signal (sg_reg s q)) a else signals_of s j)" for j
  proof (cases "j = i")
    case False
    then show ?thesis using fr [of j] by (auto simp: signals_of_def sets regs intro!: map_cong)
  qed (simp add: signals_of_def sets regs mp)
  have sig_set: "set (signals_of s' j) = (if j = i then insert n (set (signals_of s i)) else set (signals_of s j))" for j
    by (auto simp: sig) (auto simp: signals_of_def parts)
  have "sorted_wrt (<) (signals_of s' j)" for j
    using sorted [of j] sorted [of i] parts(2) above by (auto simp: sig) (auto simp: signals_of_def parts(1) sorted_wrt_append)
  moreover have "{j. ss_signals (sg_set s' j) \<noteq> []} \<subseteq> insert i {j. ss_signals (sg_set s j) \<noteq> []}" by (auto simp: sets)
  then have "finite {j. ss_signals (sg_set s' j) \<noteq> []}" using so by (auto simp: sets_ok_def intro: finite_subset)
  moreover have "sg_max s' = sg_max s" by (simp add: s'_def s1)
  moreover have "rg_queue (sg_reg s' q) = j \<and> (ss_queue (sg_set s' j) \<noteq> [] \<longrightarrow> rg_undelivered (sg_reg s' q) = 0)"
    if "q \<in> set (ss_signals (sg_set s' j))" for q j
  proof (cases "q = r")
    case True
    then show ?thesis using that fr [of j] by (auto simp: sets regs split: if_splits)
  next
    case False
    then have "q \<in> set (ss_signals (sg_set s j))" using that parts(1) by (auto simp: sets split: if_splits)
    then show ?thesis using so False by (simp add: sets_ok_def sets regs)
  qed
  ultimately have so': "sets_ok s'" using so n(1) by (auto simp: sets_ok_def sig_set)
  have ro: "regs_of s' v n' = (if v = ss_service (sg_set s i) \<and> n' = n then insert r (regs_of s v n') else regs_of s v n')" for v n'
  proof -
    have "q \<in> regs_of s' v n' \<longleftrightarrow> q = r \<and> v = ss_service (sg_set s i) \<and> n' = n \<or> q \<noteq> r \<and> q \<in> regs_of s v n'" for q
    proof (cases "q = r")
      case True
      have "r \<in> set (ss_signals (sg_set s' j)) \<longleftrightarrow> j = i" for j using fr [of j] by (simp add: sets)
      then show ?thesis using True by (auto simp: regs_of_def sets regs)
    next
      case False
      have "q \<in> set (ss_signals (sg_set s' j)) \<longleftrightarrow> q \<in> set (ss_signals (sg_set s j))" for j using False parts(1) by (auto simp: sets)
      then show ?thesis using False by (simp add: regs_of_def sets regs)
    qed
    moreover have "r \<notin> regs_of s v n'" using fr by (auto simp: regs_of_def)
    ultimately show ?thesis by auto
  qed
  have to': "tables_ok s'"
  proof (rule tables_link [OF to so fr])
    show "regs_of s' v' n' = (if v' = ss_service (sg_set s i) \<and> n' = n then insert r (regs_of s (ss_service (sg_set s i)) n) else regs_of s v' n')"
      for v' n' using ro [of v' n'] by auto
  qed (simp_all add: s'_def s1)
  have sw: "sets_with s' n' = (if n' = n then insert i (sets_with s n) else sets_with s n')" for n'
    by (auto simp: sets_with_def sig_set)
  have "i \<notin> sets_with s n" using n(2) by (simp add: sets_with_def)
  then have co': "counts_ok s'" using co finite_sets_with [OF so] by (auto simp: counts_ok_def sw) (auto simp: s'_def s1)
  have "services_are s' vs" using vs by (rule services_cong) (simp_all add: s'_def s1)
  moreover have "sg_op s' = sg_op s" "ssv_posted (sg_service s' v) = ssv_posted (sg_service s v)"
    "ssv_dropped (sg_service s' v) = ssv_dropped (sg_service s v)" for v by (simp_all add: s'_def s1)
  moreover from this have "waiting_ops_ok s'" using wo by (simp add: waiting_ops_ok_def sets)
  ultimately show "signal_ok s'" using so' to' co' by (auto simp: signal_ok_def)
  have "pending_of s' j = ((pending_of s)(i := (pending_of s i)(n := Some 0))) j" for j
  proof (cases "j = i")
    case True
    have "n \<notin> (\<lambda>q. rg_signal (sg_reg s q)) ` set b" using parts(2) by fastforce
    then have "map_of (map (\<lambda>q. (rg_signal (sg_reg s' q), rg_undelivered (sg_reg s' q))) (b @ r # a)) =
        (map_of (map (\<lambda>q. (rg_signal (sg_reg s' q), rg_undelivered (sg_reg s' q))) (b @ a)))(n \<mapsto> 0)"
      using map_of_middle [of n "map (\<lambda>q. (rg_signal (sg_reg s' q), rg_undelivered (sg_reg s' q))) b" 0] br
      by (auto simp: regs image_image)
    moreover have "map (\<lambda>q. (rg_signal (sg_reg s' q), rg_undelivered (sg_reg s' q))) (b @ a) =
        map (\<lambda>q. (rg_signal (sg_reg s q), rg_undelivered (sg_reg s q))) (b @ a)" using br by (auto simp: regs)
    ultimately show ?thesis using True by (simp add: pending_of_def sets parts(1) del: map_append map_of_append list.map)
  next
    case False
    then have "same_regs s s' (set (ss_signals (sg_set s j)))" using fr [of j] by (auto simp: same_regs_def regs)
    then show ?thesis using False same_regs_views(2) [of s s' j] by (simp add: sets)
  qed
  then have "pending_of s' = (pending_of s)(i := (pending_of s i)(n := Some 0))" by blast
  moreover have "signal_abs s' = (signal_abs s)\<lparr>sp_flags := sg_flags s', sp_pending := pending_of s'\<rparr>"
    by (rule signal_abs_same) (simp_all add: sets, simp_all add: s'_def s1)
  moreover have "sg_flags s' = F" by (simp add: s'_def s1)
  ultimately show "signal_abs s' = (sp_set_pending i n (Some 0) (signal_abs s))\<lparr>sp_flags := F\<rparr>"
    by (simp add: sp_set_pending_def)
qed

lemma count_zero: "signal_ok s \<Longrightarrow> sg_count s n = 0 \<longleftrightarrow> sets_with s n = {}"
  using finite_sets_with [of s n] by (simp add: signal_ok_def counts_ok_def)

lemma handled_iff: "signal_ok s \<Longrightarrow> sg_handled s n \<longleftrightarrow> sets_with s n \<noteq> {}"
  by (simp add: signal_ok_def counts_ok_def)

lemma register_signal_cases:
  fixes n f :: int
  assumes "signal_ok s"
  defines "asks \<equiv> sets_with s n = {}" and "changes \<equiv> sg_sigaction s \<and> f \<noteq> flags_dont_care \<and> f \<noteq> sg_flags s n"
  shows "register_signal sys n f s =
     (if \<not> asks \<and> changes \<and> sg_flags s n \<noteq> flags_dont_care then Inl (make_basic invalid_argument)
      else if asks \<or> changes
      then case sys n of Some e \<Rightarrow> Inl (signal_call_error s e)
           | None \<Rightarrow> Inr (s\<lparr>sg_flags := (if sg_sigaction s then (sg_flags s)(n := f) else sg_flags s), sg_handled := (sg_handled s)(n := True)\<rparr>)
      else Inr (s\<lparr>sg_flags := sg_flags s, sg_handled := (sg_handled s)(n := True)\<rparr>))"
  using count_zero [OF assms(1), of n] handled_iff [OF assms(1), of n] fun_upd_idem [of "sg_handled s" n True]
  by (auto simp: register_signal_def asks_def changes_def set_flags_def set_handled_def split: option.split)

theorem signal_add_simulates:
  assumes "signal_ok s" and "unregistered s r" and "signal_add sys i n f r s = (ec, s')"
  shows "signal_ok s' \<and> sp_add sys i n f (signal_abs s) = (ec, signal_abs s')"
proof (cases "0 \<le> n \<and> n < sg_max s \<and> (sg_sigaction s \<or> f = flags_dont_care)")
  case False
  then show ?thesis using assms(1,3) by (auto simp: signal_add_def sp_add_def not_le not_less split: if_splits)
next
  case True
  obtain b a where find: "find_signal (sg_reg s) n (ss_signals (sg_set s i)) = (b, a)" by force
  have sorted: "sorted_wrt (<) (signals_of s i)" using assms(1) by (simp add: signal_ok_def sets_ok_def)
  have found: "a \<noteq> [] \<and> rg_signal (sg_reg s (hd a)) = n \<longleftrightarrow> n \<in> set (signals_of s i)"
    using find_signal_found(1) [OF find] sorted by (simp add: signals_of_def)
  show ?thesis
  proof (cases "n \<in> set (signals_of s i)")
    case in_set: True
    then have "ec = no_error \<and> s' = s" using assms(3) True find found by (auto simp: signal_add_def)
    then show ?thesis using assms(1) True in_set pending_None [of s i n] by (auto simp: sp_add_def)
  next
    case out: False
    define ins where "ins = (\<lambda>s1. link_registration (ss_service (sg_set s i)) n r (on_sig_set i (\<lambda>x. x\<lparr>ss_signals := b @ r # a\<rparr>)
      (on_sig_reg r (\<lambda>_. \<lparr>rg_signal = n, rg_queue = i, rg_undelivered = 0, rg_next = None, rg_prev = None\<rparr>) s1)))"
    have range: "n \<in> {0..<sg_max s}" using True by simp
    have add: "(ec, s') = (case register_signal sys n f s of Inl e \<Rightarrow> (e, s) | Inr s1 \<Rightarrow> (no_error, ins s1))"
    proof -
      have "ss_service (sg_set (on_sig_set i (\<lambda>x. x\<lparr>ss_signals := b @ r # a\<rparr>) (on_sig_reg r h s1)) i) = ss_service (sg_set s i)"
        if "register_signal sys n f s = Inr s1" for s1 h
        using that by (auto simp: register_signal_def split: if_splits option.splits)
      then show ?thesis using assms(3) True find out found by (auto simp: signal_add_def Let_def ins_def split: sum.splits)
    qed
    have flags: "sp_set_pending i n (Some 0) (sp_set_flags n g (signal_abs s)) =
        (sp_set_pending i n (Some 0) (signal_abs s))\<lparr>sp_flags := (if sg_sigaction s then (sg_flags s)(n := g) else sg_flags s)\<rparr>"
      "(sp_set_pending i n (Some 0) (signal_abs s))\<lparr>sp_flags := sg_flags s\<rparr> = sp_set_pending i n (Some 0) (signal_abs s)" for g
      by (simp_all add: sp_set_pending_def sp_set_flags_def signal_abs_def)
    have e: "signal_call_error s = sp_error (signal_abs s)" by (simp add: signal_call_error_def sp_error_def fun_eq_iff)
    have "pending_of s i n = None" using out by (simp add: pending_None)
    then have sp: "sp_add sys i n f (signal_abs s) =
        (let asks = sets_with s n = {}; changes = sg_sigaction s \<and> f \<noteq> flags_dont_care \<and> f \<noteq> sg_flags s n
         in if \<not> asks \<and> changes \<and> sg_flags s n \<noteq> flags_dont_care then (make_basic invalid_argument, signal_abs s)
            else if asks \<or> changes
            then case sys n of Some e \<Rightarrow> (signal_call_error s e, signal_abs s)
                 | None \<Rightarrow> (no_error, (sp_set_pending i n (Some 0) (signal_abs s))
                     \<lparr>sp_flags := (if sg_sigaction s then (sg_flags s)(n := f) else sg_flags s)\<rparr>)
            else (no_error, (sp_set_pending i n (Some 0) (signal_abs s))\<lparr>sp_flags := sg_flags s\<rparr>))"
      using True by (auto simp: sp_add_def sp_sets_abs e flags Let_def split: option.split)
    note reg = register_signal_cases [OF assms(1), of sys n f]
    show ?thesis
    proof (cases "register_signal sys n f s")
      case (Inl x)
      then show ?thesis using add reg assms(1) by (auto simp: sp Let_def split: if_splits option.splits)
    next
      case (Inr s1)
      then have r: "ec = no_error" "s' = ins s1" using add by simp_all
      have e1: "s1 = s\<lparr>sg_flags := sg_flags s1, sg_handled := (sg_handled s)(n := True)\<rparr>"
        using Inr reg by (auto split: if_splits option.splits)
      have "sp_add sys i n f (signal_abs s) = (no_error, (sp_set_pending i n (Some 0) (signal_abs s))\<lparr>sp_flags := sg_flags s1\<rparr>)"
        using Inr reg by (auto simp: sp Let_def split: if_splits option.splits)
      then show ?thesis using insert_signal_ok [OF assms(1,2) range out find e1] by (simp add: r ins_def)
    qed
  qed
qed

section \<open>Removing a signal\<close>

lemma drop_signal_ok:
  fixes s s' :: signal_state
  assumes ok: "signal_ok s" and list: "ss_signals (sg_set s i) = b @ r # a" and n: "rg_signal (sg_reg s r) = n"
    and s1: "s1 = s\<lparr>sg_flags := F, sg_handled := (sg_handled s)(n := sets_with s n \<noteq> {i})\<rparr>"
  defines "s' \<equiv> unlink_registration (ss_service (sg_set s i)) n r (on_sig_set i (\<lambda>x. x\<lparr>ss_signals := b @ a\<rparr>) s1)"
  shows "signal_ok s'" and "signal_abs s' = (sp_set_pending i n None (signal_abs s))\<lparr>sp_flags := F\<rparr>"
proof -
  have so: "sets_ok s" and to: "tables_ok s" and co: "counts_ok s" and wo: "waiting_ops_ok s" using ok by (simp_all add: signal_ok_def)
  obtain vs where vs: "services_are s vs" using ok by (auto simp: signal_ok_def)
  have sorted: "sorted_wrt (<) (signals_of s j)" for j using so by (simp add: sets_ok_def)
  have ri: "r \<in> set (ss_signals (sg_set s i))" by (simp add: list)
  have sets: "ss_signals (sg_set s' j) = (if j = i then b @ a else ss_signals (sg_set s j))"
    "ss_queue (sg_set s' j) = ss_queue (sg_set s j)" "ss_service (sg_set s' j) = ss_service (sg_set s j)" for j
    by (simp_all add: s'_def s1)
  have regs: "rg_signal (sg_reg s' q) = rg_signal (sg_reg s q)" "rg_queue (sg_reg s' q) = rg_queue (sg_reg s q)"
    "rg_undelivered (sg_reg s' q) = rg_undelivered (sg_reg s q)" for q
    by (simp_all add: s'_def s1)
  have keys: "distinct (map (\<lambda>q. rg_signal (sg_reg s q)) (b @ r # a))"
    using signals_distinct [OF sorted [of i]] by (simp add: signals_of_def list)
  have br: "r \<notin> set b" "r \<notin> set a" "n \<notin> (\<lambda>q. rg_signal (sg_reg s q)) ` set b" "n \<notin> (\<lambda>q. rg_signal (sg_reg s q)) ` set a"
    using keys n by (auto simp: rev_image_eqI)
  have sig: "signals_of s' j = (if j = i then map (\<lambda>q. rg_signal (sg_reg s q)) (b @ a) else signals_of s j)" for j
    by (simp add: signals_of_def sets regs)
  have sig_set: "set (signals_of s' j) = (if j = i then set (signals_of s i) - {n} else set (signals_of s j))" for j
    using br n by (auto simp: sig) (auto simp: signals_of_def list)
  have "sorted_wrt (<) (signals_of s' j)" for j
    using sorted [of j] sorted [of i] by (auto simp: sig) (auto simp: signals_of_def list sorted_wrt_append)
  moreover have "{j. ss_signals (sg_set s' j) \<noteq> []} \<subseteq> insert i {j. ss_signals (sg_set s j) \<noteq> []}" by (auto simp: sets)
  then have "finite {j. ss_signals (sg_set s' j) \<noteq> []}" using so by (auto simp: sets_ok_def intro: finite_subset)
  moreover have "sg_max s' = sg_max s" by (simp add: s'_def s1)
  moreover have "set (signals_of s' j) \<subseteq> {0..<sg_max s}" for j using so unfolding sets_ok_def by (auto simp: sig_set)
  moreover have "rg_queue (sg_reg s' q) = j \<and> (ss_queue (sg_set s' j) \<noteq> [] \<longrightarrow> rg_undelivered (sg_reg s' q) = 0)"
    if "q \<in> set (ss_signals (sg_set s' j))" for q j
  proof -
    have "q \<in> set (ss_signals (sg_set s j))" using that list by (auto simp: sets split: if_splits)
    then show ?thesis using so by (simp add: sets_ok_def sets regs)
  qed
  ultimately have so': "sets_ok s'" by (simp add: sets_ok_def)
  have ro: "regs_of s' v n' = (if v = ss_service (sg_set s i) \<and> n' = n then regs_of s v n' - {r} else regs_of s v n')" for v n'
  proof -
    have "q \<in> set (ss_signals (sg_set s' j)) \<longleftrightarrow> q \<in> set (ss_signals (sg_set s j)) \<and> q \<noteq> r" for q j
    proof (cases "j = i")
      case True
      then show ?thesis using list br by (auto simp: sets)
    next
      case False
      then have "r \<notin> set (ss_signals (sg_set s j))" using set_of_reg [OF so ri, of j] by blast
      then show ?thesis using False by (auto simp: sets)
    qed
    then have "regs_of s' v n' = regs_of s v n' - {r}" by (auto simp: regs_of_def sets regs)
    moreover have "r \<notin> regs_of s v n'" if "\<not> (v = ss_service (sg_set s i) \<and> n' = n)"
      using that set_of_reg [OF so ri] n by (auto simp: regs_of_def)
    ultimately show ?thesis by auto
  qed
  have rr: "r \<in> regs_of s (ss_service (sg_set s i)) n" using ri n by (auto simp: regs_of_def)
  obtain rs where t: "table_is s (ss_service (sg_set s i)) n rs" using to by (auto simp: tables_ok_def)
  then have d: "dll (\<lambda>q. rg_next (sg_reg s q)) (\<lambda>q. rg_prev (sg_reg s q)) (ssv_table (sg_service s (ss_service (sg_set s i))) n) rs"
    and "r \<in> set rs" using rr by (simp_all add: table_is_def)
  then have nb: "rg_prev (sg_reg s r) \<noteq> Some r" "rg_next (sg_reg s r) \<noteq> Some r" using dll_neighbours [OF d] by auto
  have to': "tables_ok s'"
  proof (rule tables_unlink [OF to so rr])
    show "regs_of s' v' n' = (if v' = ss_service (sg_set s i) \<and> n' = n then regs_of s (ss_service (sg_set s i)) n - {r} else regs_of s v' n')"
      for v' n' using ro [of v' n'] by auto
  qed (use nb in \<open>auto simp: s'_def s1 unlink_links\<close>)
  have sw: "sets_with s' n' = (if n' = n then sets_with s n - {i} else sets_with s n')" for n'
    by (auto simp: sets_with_def sig_set)
  have "i \<in> sets_with s n" using ri n by (auto simp: sets_with_def signals_of_def)
  moreover from this have "sets_with s n - {i} = {} \<longleftrightarrow> sets_with s n = {i}" by auto
  ultimately have co': "counts_ok s'" using co finite_sets_with [OF so] by (auto simp: counts_ok_def sw) (auto simp: s'_def s1)
  have "services_are s' vs" using vs by (rule services_cong) (simp_all add: s'_def s1)
  moreover have "sg_op s' = sg_op s" "ssv_posted (sg_service s' v) = ssv_posted (sg_service s v)"
    "ssv_dropped (sg_service s' v) = ssv_dropped (sg_service s v)" for v by (simp_all add: s'_def s1)
  moreover from this have "waiting_ops_ok s'" using wo by (simp add: waiting_ops_ok_def sets)
  ultimately show "signal_ok s'" using so' to' co' by (auto simp: signal_ok_def)
  have "pending_of s' j = ((pending_of s)(i := (pending_of s i)(n := None))) j" for j
  proof (cases "j = i")
    case True
    have "map_of (map (\<lambda>q. (rg_signal (sg_reg s q), rg_undelivered (sg_reg s q))) (b @ a)) =
        (map_of (map (\<lambda>q. (rg_signal (sg_reg s q), rg_undelivered (sg_reg s q))) (b @ r # a)))(n := None)"
      using map_of_middle_drop [of n "map (\<lambda>q. (rg_signal (sg_reg s q), rg_undelivered (sg_reg s q))) b"
          "map (\<lambda>q. (rg_signal (sg_reg s q), rg_undelivered (sg_reg s q))) a" "rg_undelivered (sg_reg s r)"] br n
      by (simp add: image_image)
    then show ?thesis using True by (simp add: pending_of_def sets list regs del: map_append map_of_append list.map)
  next
    case False
    have "same_regs s s' (set (ss_signals (sg_set s j)))" by (auto simp: same_regs_def regs)
    then show ?thesis using False same_regs_views(2) [of s s' j] by (simp add: sets)
  qed
  then have "pending_of s' = (pending_of s)(i := (pending_of s i)(n := None))" by blast
  moreover have "signal_abs s' = (signal_abs s)\<lparr>sp_flags := sg_flags s', sp_pending := pending_of s'\<rparr>"
    by (rule signal_abs_same) (simp_all add: sets, simp_all add: s'_def s1)
  moreover have "sg_flags s' = F" by (simp add: s'_def s1)
  ultimately show "signal_abs s' = (sp_set_pending i n None (signal_abs s))\<lparr>sp_flags := F\<rparr>"
    by (simp add: sp_set_pending_def)
qed

lemma unregister_signal_cases:
  assumes "signal_ok s" and "i \<in> sets_with s n"
  shows "unregister_signal sys n s =
     (if sets_with s n = {i}
      then case sys n of Some e \<Rightarrow> Inl (signal_call_error s e)
           | None \<Rightarrow> Inr (s\<lparr>sg_flags := (if sg_sigaction s then (sg_flags s)(n := flags_none) else sg_flags s),
                           sg_handled := (sg_handled s)(n := sets_with s n \<noteq> {i})\<rparr>)
      else Inr (s\<lparr>sg_flags := sg_flags s, sg_handled := (sg_handled s)(n := sets_with s n \<noteq> {i})\<rparr>))"
proof -
  have "finite (sets_with s n)" "sg_count s n = card (sets_with s n)" "sg_handled s n"
    using finite_sets_with assms by (auto simp: signal_ok_def counts_ok_def)
  then have "sg_count s n = 1 \<longleftrightarrow> sets_with s n = {i}" using assms(2) by (auto simp: card_1_singleton_iff)
  then show ?thesis using \<open>sg_handled s n\<close> fun_upd_idem [of "sg_handled s" n True]
    by (auto simp: unregister_signal_def set_flags_def set_handled_def split: option.split)
qed

lemma drop_after_unlink:
  "on_sig_set i f (unlink_registration v n r s) = unlink_registration v n r (on_sig_set i f s)"
  by (simp add: unlink_registration_def on_sig_set_def on_sig_service_def on_sig_reg_def Let_def split: option.split)

text \<open>One registration is taken out, in \<open>remove\<close> and in the loop of \<open>clear\<close>.\<close>

lemma remove_one_simulates:
  assumes ok: "signal_ok s" and list: "ss_signals (sg_set s i) = b @ r # a" and n: "rg_signal (sg_reg s r) = n"
  shows "unregister_signal sys n s = Inl e \<Longrightarrow>
      sp_sets n (signal_abs s) = {i} \<and> sys n \<noteq> None \<and> sp_remove sys i n (signal_abs s) = (e, signal_abs s)"
    and "unregister_signal sys n s = Inr s1 \<Longrightarrow>
      \<not> (sp_sets n (signal_abs s) = {i} \<and> sys n \<noteq> None) \<and>
      signal_ok (unlink_registration (ss_service (sg_set s i)) n r (on_sig_set i (\<lambda>x. x\<lparr>ss_signals := b @ a\<rparr>) s1)) \<and>
      sp_remove sys i n (signal_abs s) =
        (no_error, signal_abs (unlink_registration (ss_service (sg_set s i)) n r (on_sig_set i (\<lambda>x. x\<lparr>ss_signals := b @ a\<rparr>) s1))) \<and>
      sg_set s1 = sg_set s \<and> sg_reg s1 = sg_reg s"
proof -
  have so: "sets_ok s" using ok by (simp add: signal_ok_def)
  have in_set: "n \<in> set (signals_of s i)" using n by (auto simp: signals_of_def list)
  then have i: "i \<in> sets_with s n" and p: "pending_of s i n \<noteq> None" using pending_None [of s i n] by (auto simp: sets_with_def)
  have "set (signals_of s i) \<subseteq> {0..<sg_max s}" using so by (simp add: sets_ok_def)
  then have range: "0 \<le> n" "n < sg_max s" using in_set by auto
  have flags: "sp_set_pending i n None (sp_set_flags n g (signal_abs s)) =
      (sp_set_pending i n None (signal_abs s))\<lparr>sp_flags := (if sg_sigaction s then (sg_flags s)(n := g) else sg_flags s)\<rparr>"
    "(sp_set_pending i n None (signal_abs s))\<lparr>sp_flags := sg_flags s\<rparr> = sp_set_pending i n None (signal_abs s)" for g
    by (simp_all add: sp_set_pending_def sp_set_flags_def signal_abs_def)
  have e: "signal_call_error s = sp_error (signal_abs s)" by (simp add: signal_call_error_def sp_error_def fun_eq_iff)
  have sp: "sp_remove sys i n (signal_abs s) =
      (if sets_with s n = {i}
       then case sys n of Some x \<Rightarrow> (signal_call_error s x, signal_abs s)
            | None \<Rightarrow> (no_error, (sp_set_pending i n None (signal_abs s))
                \<lparr>sp_flags := (if sg_sigaction s then (sg_flags s)(n := flags_none) else sg_flags s)\<rparr>)
       else (no_error, (sp_set_pending i n None (signal_abs s))\<lparr>sp_flags := sg_flags s\<rparr>))"
    using p range by (auto simp: sp_remove_def sp_sets_abs e flags split: option.split)
  note reg = unregister_signal_cases [OF ok i, of sys]
  show "unregister_signal sys n s = Inl e \<Longrightarrow>
      sp_sets n (signal_abs s) = {i} \<and> sys n \<noteq> None \<and> sp_remove sys i n (signal_abs s) = (e, signal_abs s)"
    using reg by (auto simp: sp sp_sets_abs split: if_splits option.splits)
  assume u: "unregister_signal sys n s = Inr s1"
  have e1: "s1 = s\<lparr>sg_flags := sg_flags s1, sg_handled := (sg_handled s)(n := sets_with s n \<noteq> {i})\<rparr>"
    using u reg by (auto split: if_splits option.splits)
  have "sp_remove sys i n (signal_abs s) = (no_error, (sp_set_pending i n None (signal_abs s))\<lparr>sp_flags := sg_flags s1\<rparr>)"
    "\<not> (sets_with s n = {i} \<and> sys n \<noteq> None)" "sg_set s1 = sg_set s" "sg_reg s1 = sg_reg s"
    using u reg by (auto simp: sp split: if_splits option.splits)
  then show "\<not> (sp_sets n (signal_abs s) = {i} \<and> sys n \<noteq> None) \<and>
      signal_ok (unlink_registration (ss_service (sg_set s i)) n r (on_sig_set i (\<lambda>x. x\<lparr>ss_signals := b @ a\<rparr>) s1)) \<and>
      sp_remove sys i n (signal_abs s) =
        (no_error, signal_abs (unlink_registration (ss_service (sg_set s i)) n r (on_sig_set i (\<lambda>x. x\<lparr>ss_signals := b @ a\<rparr>) s1))) \<and>
      sg_set s1 = sg_set s \<and> sg_reg s1 = sg_reg s"
    using drop_signal_ok [OF ok list n e1] by (simp add: sp_sets_abs)
qed

theorem signal_remove_simulates:
  assumes "signal_ok s" and "signal_remove sys i n s = (ec, s')"
  shows "signal_ok s' \<and> sp_remove sys i n (signal_abs s) = (ec, signal_abs s')"
proof (cases "0 \<le> n \<and> n < sg_max s")
  case False
  then show ?thesis using assms by (auto simp: signal_remove_def sp_remove_def not_le not_less split: if_splits)
next
  case True
  obtain b a where find: "find_signal (sg_reg s) n (ss_signals (sg_set s i)) = (b, a)" by force
  have sorted: "sorted_wrt (<) (signals_of s i)" using assms(1) by (simp add: signal_ok_def sets_ok_def)
  have found: "a \<noteq> [] \<and> rg_signal (sg_reg s (hd a)) = n \<longleftrightarrow> n \<in> set (signals_of s i)"
    using find_signal_found(1) [OF find] sorted by (simp add: signals_of_def)
  show ?thesis
  proof (cases "n \<in> set (signals_of s i)")
    case False
    then have "(ec, s') = (no_error, s)" using assms(2) True find found by (auto simp: signal_remove_def)
    then show ?thesis using assms(1) True False pending_None [of s i n] by (auto simp: sp_remove_def)
  next
    case in_set: True
    then obtain r a' where a: "a = r # a'" "rg_signal (sg_reg s r) = n" using found by (cases a) auto
    have list: "ss_signals (sg_set s i) = b @ r # a'" using find_signal_parts [OF find] a by simp
    note one = remove_one_simulates [OF assms(1) list a(2), of sys]
    have "(ec, s') = (case unregister_signal sys n s of Inl e \<Rightarrow> (e, s)
        | Inr s1 \<Rightarrow> (no_error, unlink_registration (ss_service (sg_set s1 i)) n r (on_sig_set i (\<lambda>x. x\<lparr>ss_signals := b @ a'\<rparr>) s1)))"
      using assms(2) True find a by (auto simp: signal_remove_def Let_def split: sum.splits)
    note res = this
    show ?thesis
    proof (cases "unregister_signal sys n s")
      case (Inl e)
      then show ?thesis using one(1) [OF Inl] assms(1) res by simp
    next
      case (Inr s1)
      then show ?thesis using one(2) [OF Inr] res by simp
    qed
  qed
qed

lemma signal_clear_loop_simulates:
  "signal_ok s \<Longrightarrow> ss_signals (sg_set s i) = rs \<Longrightarrow> signal_clear_loop sys i rs s = (ec, s') \<Longrightarrow>
   signal_ok s' \<and> sp_remove_all sys i (signals_of s i) (signal_abs s) = (ec, signal_abs s')"
proof (induction rs arbitrary: s)
  case Nil
  then show ?case by (simp add: signals_of_def)
next
  case (Cons r rs)
  let ?n = "rg_signal (sg_reg s r)"
  have list: "ss_signals (sg_set s i) = [] @ r # rs" using Cons.prems(2) by simp
  note one = remove_one_simulates [OF Cons.prems(1) list refl, of sys]
  have sig: "signals_of s i = ?n # map (\<lambda>q. rg_signal (sg_reg s q)) rs" by (simp add: signals_of_def Cons.prems(2))
  show ?case
  proof (cases "unregister_signal sys ?n s")
    case (Inl e)
    then have "ec = e" "s' = s" using Cons.prems(3) by simp_all
    then show ?thesis using one(1) [OF Inl] Cons.prems(1) by (simp add: sig [unfolded \<open>s' = s\<close>])
  next
    case (Inr s1)
    note o = one(2) [OF Inr, unfolded append_Nil]
    define s2 where "s2 = unlink_registration (ss_service (sg_set s i)) ?n r (on_sig_set i (\<lambda>x. x\<lparr>ss_signals := rs\<rparr>) s1)"
    have "signal_clear_loop sys i rs s2 = (ec, s')"
      using Cons.prems(3) Inr o by (simp add: drop_after_unlink s2_def Let_def)
    moreover have "ss_signals (sg_set s2 i) = rs" by (simp add: s2_def)
    moreover have "signal_ok s2" using o by (simp add: s2_def)
    ultimately have ih: "signal_ok s' \<and> sp_remove_all sys i (signals_of s2 i) (signal_abs s2) = (ec, signal_abs s')"
      using Cons.IH by blast
    have "signals_of s2 i = map (\<lambda>q. rg_signal (sg_reg s q)) rs" using o by (simp add: signals_of_def s2_def)
    moreover have "snd (sp_remove sys i ?n (signal_abs s)) = signal_abs s2" using o by (simp add: s2_def)
    ultimately show ?thesis using ih o by (auto simp: sig)
  qed
qed

theorem signal_clear_simulates:
  assumes "signal_ok s" and "signal_clear sys i s = (ec, s')"
  shows "signal_ok s' \<and> sp_clear sys i (signal_abs s) = (ec, signal_abs s')"
proof -
  have "sorted_wrt (<) (signals_of s i)" using assms(1) by (simp add: signal_ok_def sets_ok_def)
  then have "sorted (signals_of s i)" "distinct (signals_of s i)" by (simp_all add: strict_sorted_iff)
  then have "sorted_list_of_set (dom (pending_of s i)) = signals_of s i"
    by (simp add: dom_pending sorted_list_of_set.idem_if_sorted_distinct)
  then show ?thesis using signal_clear_loop_simulates [OF assms(1) refl assms(2) [unfolded signal_clear_def]]
    by (simp add: sp_clear_def)
qed

section \<open>Operations that leave the registrations linked as they are\<close>

definition same_links :: "signal_state \<Rightarrow> signal_state \<Rightarrow> bool" where
  "same_links s s' \<longleftrightarrow> sg_max s' = sg_max s \<and> sg_sigaction s' = sg_sigaction s \<and> sg_flags s' = sg_flags s \<and> sg_count s' = sg_count s \<and>
     sg_handled s' = sg_handled s \<and> sg_services s' = sg_services s \<and> sg_pipe s' = sg_pipe s \<and>
     (\<forall>v. ssv_table (sg_service s' v) = ssv_table (sg_service s v) \<and> ssv_next (sg_service s' v) = ssv_next (sg_service s v) \<and>
        ssv_prev (sg_service s' v) = ssv_prev (sg_service s v) \<and> ssv_locking (sg_service s' v) = ssv_locking (sg_service s v)) \<and>
     (\<forall>i. ss_signals (sg_set s' i) = ss_signals (sg_set s i) \<and> ss_service (sg_set s' i) = ss_service (sg_set s i)) \<and>
     (\<forall>r. rg_signal (sg_reg s' r) = rg_signal (sg_reg s r) \<and> rg_queue (sg_reg s' r) = rg_queue (sg_reg s r) \<and>
        rg_next (sg_reg s' r) = rg_next (sg_reg s r) \<and> rg_prev (sg_reg s' r) = rg_prev (sg_reg s r))"

lemma same_links_views:
  assumes "same_links s s'"
  shows "signals_of s' = signals_of s" and "regs_of s' = regs_of s" and "sets_with s' = sets_with s"
    and "table_is s' v n rs \<longleftrightarrow> table_is s v n rs" and "services_are s' vs \<longleftrightarrow> services_are s vs" and "sig_listed s' = sig_listed s"
proof -
  show sig: "signals_of s' = signals_of s" using assms by (simp add: fun_eq_iff signals_of_def same_links_def)
  show r: "regs_of s' = regs_of s" using assms by (simp add: fun_eq_iff regs_of_def same_links_def)
  show "sets_with s' = sets_with s" by (simp add: fun_eq_iff sets_with_def sig)
  show "table_is s' v n rs \<longleftrightarrow> table_is s v n rs" using assms by (simp add: table_is_def r) (simp add: same_links_def)
  show l: "sig_listed s' = sig_listed s" using assms by (simp add: fun_eq_iff sig_listed_def same_links_def)
  show "services_are s' vs \<longleftrightarrow> services_are s vs" using assms by (simp add: services_are_def l) (simp add: same_links_def)
qed

lemma same_links_ok:
  assumes "signal_ok s" and l: "same_links s s'" and "waiting_ops_ok s'"
    and "\<And>i r. r \<in> set (ss_signals (sg_set s i)) \<Longrightarrow> ss_queue (sg_set s' i) \<noteq> [] \<Longrightarrow> rg_undelivered (sg_reg s' r) = 0"
  shows "signal_ok s'"
proof -
  note v = same_links_views [OF l]
  have "sets_ok s'" using assms(1,4) l by (simp add: signal_ok_def sets_ok_def v) (simp add: same_links_def)
  moreover have "tables_ok s'" using assms(1) by (simp add: signal_ok_def tables_ok_def v)
  moreover have "\<exists>vs. services_are s' vs" using assms(1) by (simp add: signal_ok_def v)
  moreover have "counts_ok s'" using assms(1) l by (simp add: signal_ok_def counts_ok_def v) (simp add: same_links_def)
  ultimately show ?thesis using assms(3) by (simp add: signal_ok_def)
qed

lemma signal_abs_links:
  assumes "same_links s s'" and "sp_pending (signal_abs s') = pd" and "\<And>j. sp_waiting (signal_abs s') j = W j"
    and "\<And>v. sp_posted (signal_abs s') v = P v" and "\<And>v. sp_dropped (signal_abs s') v = D v"
  shows "signal_abs s' = (signal_abs s)\<lparr>sp_pending := pd, sp_waiting := W, sp_posted := P, sp_dropped := D\<rparr>"
proof -
  have "sp_waiting (signal_abs s') = W" "sp_posted (signal_abs s') = P" "sp_dropped (signal_abs s') = D" using assms(3-5) by blast+
  moreover have "sp_owner (signal_abs s') = sp_owner (signal_abs s)" using assms(1) by (simp add: fun_eq_iff same_links_def)
  ultimately show ?thesis using assms(1,2) same_links_views(6) [OF assms(1)]
    by (intro signal_spec.equality) (simp_all add: same_links_def del: signal_abs_simps(5,7-9))
qed

section \<open>Cancelling\<close>

definition signal_abort :: "nat \<Rightarrow> (nat option \<Rightarrow> bool) \<Rightarrow> signal_state \<Rightarrow> signal_state" where
  "signal_abort i P s =
     (let ops = filter (\<lambda>op. P (so_key (sg_op s op))) (ss_queue (sg_set s i))
      in sig_post_deferred (ss_service (sg_set s i)) ops
           (on_sig_set i (\<lambda>x. x\<lparr>ss_queue := filter (\<lambda>op. \<not> P (so_key (sg_op s op))) (ss_queue x)\<rparr>)
             (on_sig_ops ops (\<lambda>x. x\<lparr>so_ec := make_basic operation_aborted\<rparr>) s)))"

lemma cancel_is_abort: "signal_cancel i s = signal_abort i (\<lambda>_. True) s" "signal_cancel_by_key i key s = signal_abort i (\<lambda>k. k = key) s"
  by (simp_all add: signal_cancel_def signal_cancel_by_key_def signal_abort_def Let_def)

lemma post_deferred_simps [simp]:
  "sg_set (sig_post_deferred v ops s) = sg_set s" "sg_reg (sig_post_deferred v ops s) = sg_reg s" "sg_op (sig_post_deferred v ops s) = sg_op s"
  "sg_services (sig_post_deferred v ops s) = sg_services s" "sg_count (sig_post_deferred v ops s) = sg_count s"
  "sg_flags (sig_post_deferred v ops s) = sg_flags s" "sg_handled (sig_post_deferred v ops s) = sg_handled s"
  "sg_max (sig_post_deferred v ops s) = sg_max s" "sg_sigaction (sig_post_deferred v ops s) = sg_sigaction s"
  "sg_service (sig_post_deferred v ops s) u =
     (if u = v then (sg_service s v)\<lparr>ssv_posted := ssv_posted (sg_service s v) @ ops\<rparr> else sg_service s u)"
  by (simp_all add: sig_post_deferred_def)

lemma signal_abort_simulates:
  assumes "signal_ok s"
  shows "signal_ok (signal_abort i P s) \<and> signal_abs (signal_abort i P s) = sp_abort i P (signal_abs s)"
proof -
  let ?q = "ss_queue (sg_set s i)"
  let ?ops = "filter (\<lambda>op. P (so_key (sg_op s op))) ?q" and ?s = "signal_abort i P s"
  have wo: "waiting_ops_ok s" using assms by (simp add: signal_ok_def)
  have l: "same_links s ?s" by (auto simp: same_links_def signal_abort_def Let_def)
  have queues: "ss_queue (sg_set ?s j) = (if j = i then filter (\<lambda>op. \<not> P (so_key (sg_op s op))) ?q else ss_queue (sg_set s j))" for j
    by (simp add: signal_abort_def Let_def)
  have ops: "sg_op ?s op = (if op \<in> set ?ops then (sg_op s op)\<lparr>so_ec := make_basic operation_aborted\<rparr> else sg_op s op)" for op
    by (simp add: signal_abort_def Let_def)
  have posted: "ssv_posted (sg_service ?s v) = ssv_posted (sg_service s v) @ (if v = ss_service (sg_set s i) then ?ops else [])"
    "ssv_dropped (sg_service ?s v) = ssv_dropped (sg_service s v)" for v by (simp_all add: signal_abort_def Let_def)
  have disj: "set (ss_queue (sg_set s j)) \<inter> set ?q = {}" if "j \<noteq> i" for j using wo that by (simp add: waiting_ops_ok_def)
  have notp: "op \<notin> set (ssv_posted (sg_service s v))" if "op \<in> set ?q" for op v using wo that unfolding waiting_ops_ok_def by blast
  have init: "so_ec (sg_op s op) = no_error \<and> so_number (sg_op s op) = 0" if "op \<in> set (ss_queue (sg_set s j))" for op j
    using wo that by (simp add: waiting_ops_ok_def)
  have "waiting_ops_ok ?s"
  proof -
    have "distinct (ss_queue (sg_set ?s j))" for j using wo by (simp add: queues waiting_ops_ok_def)
    moreover have sub: "set (ss_queue (sg_set ?s j)) \<subseteq> set (ss_queue (sg_set s j)) - set ?ops" for j
      using disj [of j] by (auto simp: queues)
    moreover have "set (ss_queue (sg_set ?s j)) \<inter> set (ss_queue (sg_set ?s k)) = {}" if "j \<noteq> k" for j k
      using sub [of j] sub [of k] wo that unfolding waiting_ops_ok_def by blast
    moreover have "set (ss_queue (sg_set ?s j)) \<inter> set (ssv_posted (sg_service ?s v)) = {}" for j v
    proof -
      have "set (ss_queue (sg_set s j)) \<inter> set (ssv_posted (sg_service s v)) = {}" using wo unfolding waiting_ops_ok_def by blast
      moreover have "set (ssv_posted (sg_service ?s v)) \<subseteq> set (ssv_posted (sg_service s v)) \<union> set ?ops" unfolding posted(1) by auto
      ultimately show ?thesis using sub [of j] by blast
    qed
    moreover have "so_ec (sg_op ?s op) = no_error \<and> so_number (sg_op ?s op) = 0" if "op \<in> set (ss_queue (sg_set ?s j))" for j op
      using sub [of j] that init by (auto simp: ops)
    ultimately show ?thesis by (simp add: waiting_ops_ok_def)
  qed
  moreover have "rg_undelivered (sg_reg ?s r) = 0" if "r \<in> set (ss_signals (sg_set s j))" "ss_queue (sg_set ?s j) \<noteq> []" for j r
  proof -
    have "ss_queue (sg_set s j) \<noteq> []" using that(2) by (auto simp: queues split: if_splits)
    then have "rg_undelivered (sg_reg s r) = 0" using assms that(1) by (simp add: signal_ok_def sets_ok_def)
    then show ?thesis by (simp add: signal_abort_def Let_def)
  qed
  ultimately have ok: "signal_ok ?s" using same_links_ok [OF assms l] by blast
  have pend: "pending_of ?s = pending_of s"
  proof
    fix j
    have "same_regs s ?s (set (ss_signals (sg_set s j)))" by (simp add: same_regs_def signal_abort_def Let_def)
    then show "pending_of ?s j = pending_of s j" using same_regs_views(2) [of s ?s j] l by (simp add: same_links_def)
  qed
  have wait: "map (\<lambda>op. (op, so_key (sg_op ?s op))) (ss_queue (sg_set ?s j)) =
      ((sp_waiting (signal_abs s))(i := filter (\<lambda>w. \<not> P (snd w)) (sp_waiting (signal_abs s) i))) j" for j
    by (simp add: queues ops filter_map comp_def)
  have entry: "map (posted_entry ?s) (ssv_posted (sg_service s v)) = map (posted_entry s) (ssv_posted (sg_service s v))" for v
    using notp [of _ v] by (auto simp: posted_entry_def ops)
  have new: "map (posted_entry ?s) ?ops = map (\<lambda>op. (op, make_basic operation_aborted, 0)) ?ops"
    using init by (auto simp: posted_entry_def ops)
  have post: "mset (map (posted_entry ?s) (ssv_posted (sg_service ?s v))) =
      ((sp_posted (signal_abs s))(ss_service (sg_set s i) := sp_posted (signal_abs s) (ss_service (sg_set s i)) +
        mset (map (\<lambda>w. (fst w, make_basic operation_aborted, 0)) (filter (\<lambda>w. P (snd w)) (sp_waiting (signal_abs s) i))))) v" for v
    unfolding posted(1) map_append entry mset_append
    by (simp add: new del: mset_map) (simp add: filter_map comp_def del: mset_map)
  have "signal_abs ?s = (signal_abs s)\<lparr>sp_pending := sp_pending (signal_abs s), 
      sp_waiting := (sp_waiting (signal_abs s))(i := filter (\<lambda>w. \<not> P (snd w)) (sp_waiting (signal_abs s) i)),
      sp_posted := (sp_posted (signal_abs s))(ss_service (sg_set s i) := sp_posted (signal_abs s) (ss_service (sg_set s i)) +
        mset (map (\<lambda>w. (fst w, make_basic operation_aborted, 0)) (filter (\<lambda>w. P (snd w)) (sp_waiting (signal_abs s) i)))),
      sp_dropped := sp_dropped (signal_abs s)\<rparr>"
    by (rule signal_abs_links [OF l]) (use pend wait post posted(2) in \<open>simp_all only: signal_abs_simps\<close>)
  then show ?thesis using ok by (simp only: sp_abort_def signal_abs_simps) simp
qed

end
