(* ===== verification/Asio_Signal_Runs.thy ===== *)
theory Asio_Signal_Runs
  imports Asio_Signal_Facts
begin

text \<open>
  Waiting for signals, and their delivery along the lists of services and registrations, against the
  specification of \<^theory_text>\<open>Asio_Signal_Facts\<close>.
\<close>

section \<open>Pending signals\<close>

lemma option_eqI: "(\<And>k. x = Some k \<longleftrightarrow> y = Some k) \<Longrightarrow> x = y"
  by (cases x; cases y) auto

lemma pending_iff:
  assumes "signal_ok s"
  shows "pending_of s i m = Some k \<longleftrightarrow>
    (\<exists>r \<in> set (ss_signals (sg_set s i)). rg_signal (sg_reg s r) = m \<and> rg_undelivered (sg_reg s r) = k)"
proof
  assume "pending_of s i m = Some k"
  then show "\<exists>r \<in> set (ss_signals (sg_set s i)). rg_signal (sg_reg s r) = m \<and> rg_undelivered (sg_reg s r) = k"
    unfolding pending_of_def by (auto dest!: map_of_SomeD)
next
  have "sorted_wrt (<) (signals_of s i)" using assms by (simp add: signal_ok_def sets_ok_def)
  moreover assume "\<exists>r \<in> set (ss_signals (sg_set s i)). rg_signal (sg_reg s r) = m \<and> rg_undelivered (sg_reg s r) = k"
  ultimately show "pending_of s i m = Some k" using pending_Some by blast
qed

text \<open>A set has one registration for a signal.\<close>

lemma reg_of_signal:
  assumes "signal_ok s" and "r \<in> set (ss_signals (sg_set s i))" and "q \<in> set (ss_signals (sg_set s i))"
    and "rg_signal (sg_reg s r) = rg_signal (sg_reg s q)"
  shows "r = q"
proof -
  have "sorted_wrt (<) (signals_of s i)" using assms(1) by (simp add: signal_ok_def sets_ok_def)
  then have "inj_on (\<lambda>r. rg_signal (sg_reg s r)) (set (ss_signals (sg_set s i)))"
    using signals_distinct by (simp add: signals_of_def distinct_map)
  then show ?thesis using assms(2-4) by (auto dest: inj_onD)
qed

lemma find_split: "List.find P xs = Some x \<Longrightarrow> \<exists>b a. xs = b @ x # a \<and> P x \<and> (\<forall>y \<in> set b. \<not> P y)"
proof (induction xs)
  case (Cons y ys)
  show ?case
  proof (cases "P y")
    case True
    then show ?thesis using Cons.prems by (intro exI [of _ "[]"] exI [of _ ys]) auto
  next
    case False
    then obtain b a where "ys = b @ x # a" "P x" "\<forall>y \<in> set b. \<not> P y" using Cons by auto
    then show ?thesis using False by (intro exI [of _ "y # b"] exI [of _ a]) auto
  qed
qed simp

section \<open>Waiting\<close>

definition unused_op :: "signal_state \<Rightarrow> nat \<Rightarrow> bool" where
  "unused_op s op \<longleftrightarrow> (\<forall>i. op \<notin> set (ss_queue (sg_set s i))) \<and> (\<forall>v. op \<notin> set (ssv_posted (sg_service s v)))"

lemma waiting_opsD:
  assumes "signal_ok s"
  shows "distinct (ss_queue (sg_set s i))" "i \<noteq> j \<Longrightarrow> op \<in> set (ss_queue (sg_set s i)) \<Longrightarrow> op \<notin> set (ss_queue (sg_set s j))"
    "op \<in> set (ss_queue (sg_set s i)) \<Longrightarrow> op \<notin> set (ssv_posted (sg_service s v))"
    "op \<in> set (ss_queue (sg_set s i)) \<Longrightarrow> so_ec (sg_op s op) = no_error \<and> so_number (sg_op s op) = 0"
proof -
  have w: "waiting_ops_ok s" using assms by (simp add: signal_ok_def)
  show "distinct (ss_queue (sg_set s i))" using w by (simp add: waiting_ops_ok_def)
  show "i \<noteq> j \<Longrightarrow> op \<in> set (ss_queue (sg_set s i)) \<Longrightarrow> op \<notin> set (ss_queue (sg_set s j))"
    using w unfolding waiting_ops_ok_def by blast
  show "op \<in> set (ss_queue (sg_set s i)) \<Longrightarrow> op \<notin> set (ssv_posted (sg_service s v))"
    using w unfolding waiting_ops_ok_def by blast
  show "op \<in> set (ss_queue (sg_set s i)) \<Longrightarrow> so_ec (sg_op s op) = no_error \<and> so_number (sg_op s op) = 0"
    using w unfolding waiting_ops_ok_def by blast
qed

lemma ready_iff:
  assumes "signal_ok s"
  shows "m \<in> sp_ready i (signal_abs s) \<longleftrightarrow> (\<exists>r \<in> set (ss_signals (sg_set s i)). rg_signal (sg_reg s r) = m \<and> rg_undelivered (sg_reg s r) > 0)"
  using pending_iff [OF assms] by (auto simp: sp_ready_def gr0_conv_Suc)

lemma wait_blocks:
  assumes ok: "signal_ok s" and u: "unused_op s op" and ready: "sp_ready i (signal_abs s) = {}"
    and op: "\<And>q. sg_op s' q = (if q = op then signal_op_init key else sg_op s q)"
    and qu: "\<And>j. ss_queue (sg_set s' j) = (if j = i then ss_queue (sg_set s i) @ [op] else ss_queue (sg_set s j))"
    and po: "\<And>v. ssv_posted (sg_service s' v) = ssv_posted (sg_service s v)" "\<And>v. ssv_dropped (sg_service s' v) = ssv_dropped (sg_service s v)"
    and re: "sg_reg s' = sg_reg s" and l: "same_links s s'"
  shows "signal_ok s' \<and> signal_abs s' = sp_wait i op key (signal_abs s)"
proof -
  have nq: "op \<notin> set (ss_queue (sg_set s j))" "op \<notin> set (ssv_posted (sg_service s v))" for j v using u by (simp_all add: unused_op_def)
  note w = waiting_opsD [OF ok]
  have "waiting_ops_ok s'" unfolding waiting_ops_ok_def
  proof (intro conjI allI impI ballI)
    show "distinct (ss_queue (sg_set s' j))" for j using w(1) nq by (simp add: qu)
    show "set (ss_queue (sg_set s' j)) \<inter> set (ss_queue (sg_set s' k)) = {}" if "j \<noteq> k" for j k
      using w(2) [of j k] w(2) [of k j] nq that by (auto simp: qu)
    show "set (ss_queue (sg_set s' j)) \<inter> set (ssv_posted (sg_service s' v)) = {}" for j v using w(3) nq by (auto simp: qu po)
    show "so_ec (sg_op s' q) = no_error" "so_number (sg_op s' q) = 0" if "q \<in> set (ss_queue (sg_set s' j))" for j q
      using that w(4) [of q] by (auto simp: op qu signal_op_init_def split: if_splits)
  qed
  moreover have "rg_undelivered (sg_reg s' r) = 0" if "r \<in> set (ss_signals (sg_set s j))" "ss_queue (sg_set s' j) \<noteq> []" for j r
  proof (cases "j = i")
    case True
    then show ?thesis using ready ready_iff [OF ok, of "rg_signal (sg_reg s r)" i] that(1) by (auto simp: re)
  next
    case False
    then show ?thesis using ok that by (simp add: qu re signal_ok_def sets_ok_def)
  qed
  ultimately have ok': "signal_ok s'" using same_links_ok [OF ok l] by blast
  have pend: "sp_pending (signal_abs s') = sp_pending (signal_abs s)"
    using l by (simp add: fun_eq_iff pending_of_def re same_links_def)
  have wait: "sp_waiting (signal_abs s') j = ((sp_waiting (signal_abs s))(i := sp_waiting (signal_abs s) i @ [(op, key)])) j" for j
    using nq by (auto simp: qu op signal_op_init_def)
  have "map (posted_entry s') (ssv_posted (sg_service s v)) = map (posted_entry s) (ssv_posted (sg_service s v))" for v
    using nq(2) [of v] by (auto simp: posted_entry_def op)
  then have post: "sp_posted (signal_abs s') v = sp_posted (signal_abs s) v" for v by (simp only: signal_abs_simps po)
  have "signal_abs s' = (signal_abs s)\<lparr>sp_pending := sp_pending (signal_abs s),
      sp_waiting := (sp_waiting (signal_abs s))(i := sp_waiting (signal_abs s) i @ [(op, key)]),
      sp_posted := sp_posted (signal_abs s), sp_dropped := sp_dropped (signal_abs s)\<rparr>"
    by (rule signal_abs_links [OF l]) (use pend wait post po(2) in \<open>simp_all only: signal_abs_simps\<close>)
  then show ?thesis using ok' ready by (simp only: sp_wait_def) simp
qed

lemma wait_takes:
  assumes ok: "signal_ok s" and u: "unused_op s op" and r: "r \<in> set (ss_signals (sg_set s i))" "rg_undelivered (sg_reg s r) = Suc k"
    and first: "\<And>q. q \<in> set (ss_signals (sg_set s i)) \<Longrightarrow> rg_undelivered (sg_reg s q) > 0 \<Longrightarrow> rg_signal (sg_reg s r) \<le> rg_signal (sg_reg s q)"
    and op: "\<And>q. sg_op s' q = (if q = op then (signal_op_init key)\<lparr>so_number := rg_signal (sg_reg s r)\<rparr> else sg_op s q)"
    and qu: "\<And>j. ss_queue (sg_set s' j) = ss_queue (sg_set s j)"
    and po: "\<And>v. ssv_posted (sg_service s' v) = ssv_posted (sg_service s v) @ (if v = ss_service (sg_set s i) then [op] else [])"
      "\<And>v. ssv_dropped (sg_service s' v) = ssv_dropped (sg_service s v)"
    and un: "\<And>q. rg_undelivered (sg_reg s' q) = (if q = r then k else rg_undelivered (sg_reg s q))" and l: "same_links s s'"
  shows "signal_ok s' \<and> signal_abs s' = sp_wait i op key (signal_abs s)"
proof -
  have nq: "op \<notin> set (ss_queue (sg_set s j))" "op \<notin> set (ssv_posted (sg_service s v))" for j v using u by (simp_all add: unused_op_def)
  note w = waiting_opsD [OF ok]
  let ?n = "rg_signal (sg_reg s r)"
  have "waiting_ops_ok s'" unfolding waiting_ops_ok_def
  proof (intro conjI allI impI ballI)
    show "distinct (ss_queue (sg_set s' j))" for j using w(1) by (simp add: qu)
    show "set (ss_queue (sg_set s' j)) \<inter> set (ss_queue (sg_set s' h)) = {}" if "j \<noteq> h" for j h
      using w(2) [of j h] that by (auto simp: qu)
    show "set (ss_queue (sg_set s' j)) \<inter> set (ssv_posted (sg_service s' v)) = {}" for j v using w(3) nq by (auto simp: qu po)
    show "so_ec (sg_op s' q) = no_error" "so_number (sg_op s' q) = 0" if "q \<in> set (ss_queue (sg_set s' j))" for j q
      using that w(4) [of q] nq by (auto simp: op qu)
  qed
  moreover have "rg_undelivered (sg_reg s' q) = 0" if "q \<in> set (ss_signals (sg_set s j))" "ss_queue (sg_set s' j) \<noteq> []" for j q
  proof -
    have "rg_undelivered (sg_reg s q) = 0" using ok that by (simp add: qu signal_ok_def sets_ok_def)
    then show ?thesis using r(2) by (auto simp: un)
  qed
  ultimately have ok': "signal_ok s'" using same_links_ok [OF ok l] by blast
  have ready: "?n \<in> sp_ready i (signal_abs s)" using ready_iff [OF ok] r by auto
  have "sp_ready i (signal_abs s) \<subseteq> (\<lambda>q. rg_signal (sg_reg s q)) ` set (ss_signals (sg_set s i))" using ready_iff [OF ok] by auto
  then have "finite (sp_ready i (signal_abs s))" by (rule finite_subset) simp
  moreover have "?n \<le> m" if "m \<in> sp_ready i (signal_abs s)" for m using that first ready_iff [OF ok] by auto
  ultimately have min: "Min (sp_ready i (signal_abs s)) = ?n" using ready by (intro Min_eqI) auto
  have pk: "pending_of s i ?n = Some (Suc k)" using pending_iff [OF ok] r by auto
  have "pending_of s' j m = ((pending_of s)(i := (pending_of s i)(?n := Some k))) j m" for j m
  proof (rule option_eqI)
    fix x
    have s': "pending_of s' j m = Some x \<longleftrightarrow>
        (\<exists>q \<in> set (ss_signals (sg_set s j)). rg_signal (sg_reg s q) = m \<and> (if q = r then k else rg_undelivered (sg_reg s q)) = x)"
      unfolding pending_iff [OF ok'] using l by (simp add: un same_links_def)
    have "r \<in> set (ss_signals (sg_set s j)) \<Longrightarrow> j = i" using set_of_reg [OF _ r(1), of j] ok by (auto simp: signal_ok_def)
    then show "pending_of s' j m = Some x \<longleftrightarrow> ((pending_of s)(i := (pending_of s i)(?n := Some k))) j m = Some x"
    proof (cases "j = i \<and> m = ?n")
      case True
      then have "(\<exists>q \<in> set (ss_signals (sg_set s j)). rg_signal (sg_reg s q) = m \<and> (if q = r then k else rg_undelivered (sg_reg s q)) = x) \<longleftrightarrow> k = x"
        using r(1) reg_of_signal [OF ok r(1)] by (metis (full_types))
      then show ?thesis using True unfolding s' by simp
    next
      case False
      then have "q \<noteq> r" if "q \<in> set (ss_signals (sg_set s j))" "rg_signal (sg_reg s q) = m" for q
        using that \<open>r \<in> set (ss_signals (sg_set s j)) \<Longrightarrow> j = i\<close> by auto
      then have "pending_of s' j m = Some x \<longleftrightarrow> pending_of s j m = Some x" unfolding s' pending_iff [OF ok] by auto
      then show ?thesis using False by auto
    qed
  qed
  then have pend: "sp_pending (signal_abs s') = (pending_of s)(i := (pending_of s i)(?n := Some k))" by (simp add: fun_eq_iff)
  have wait: "sp_waiting (signal_abs s') j = sp_waiting (signal_abs s) j" for j
    using nq [of j] by (auto simp: qu op)
  have "map (posted_entry s') (ssv_posted (sg_service s v)) = map (posted_entry s) (ssv_posted (sg_service s v))" for v
    using nq(2) [of v] by (auto simp: posted_entry_def op)
  then have post: "sp_posted (signal_abs s') v = ((sp_posted (signal_abs s))(sp_owner (signal_abs s) i :=
      sp_posted (signal_abs s) (sp_owner (signal_abs s) i) + {#(op, no_error, ?n)#})) v" for v
    by (simp only: signal_abs_simps po map_append mset_append) (simp add: posted_entry_def op signal_op_init_def del: mset_map)
  have "signal_abs s' = (signal_abs s)\<lparr>sp_pending := (pending_of s)(i := (pending_of s i)(?n := Some k)),
      sp_waiting := sp_waiting (signal_abs s),
      sp_posted := (sp_posted (signal_abs s))(sp_owner (signal_abs s) i := sp_posted (signal_abs s) (sp_owner (signal_abs s) i) + {#(op, no_error, ?n)#}),
      sp_dropped := sp_dropped (signal_abs s)\<rparr>"
    by (rule signal_abs_links [OF l]) (use pend wait post po(2) in \<open>simp_all only: signal_abs_simps\<close>)
  moreover have "sp_wait i op key (signal_abs s) = (sp_set_pending i ?n (Some k) (signal_abs s))
      \<lparr>sp_posted := (sp_posted (signal_abs s))(sp_owner (signal_abs s) i := sp_posted (signal_abs s) (sp_owner (signal_abs s) i) + {#(op, no_error, ?n)#})\<rparr>"
    using ready min pk by (auto simp: sp_wait_def Let_def)
  ultimately show ?thesis using ok' by (simp add: sp_set_pending_def)
qed

theorem signal_wait_simulates:
  assumes "signal_ok s" and "unused_op s op"
  shows "signal_ok (signal_async_wait i op key s) \<and> signal_abs (signal_async_wait i op key s) = sp_wait i op key (signal_abs s)"
proof (cases "List.find (\<lambda>r. rg_undelivered (sg_reg s r) > 0) (ss_signals (sg_set s i))")
  case None
  then have "sp_ready i (signal_abs s) = {}" using ready_iff [OF assms(1)] by (auto simp: find_None_iff)
  then show ?thesis
    by (rule wait_blocks [OF assms]) (use None in \<open>simp_all add: signal_async_wait_def start_signal_wait_def same_links_def Let_def\<close>)
next
  case (Some r)
  obtain b a where ba: "ss_signals (sg_set s i) = b @ r # a" "rg_undelivered (sg_reg s r) > 0"
    "\<And>q. q \<in> set b \<Longrightarrow> rg_undelivered (sg_reg s q) = 0" using find_split [OF Some] by auto
  obtain k where k: "rg_undelivered (sg_reg s r) = Suc k" using ba(2) gr0_conv_Suc by auto
  have "sorted_wrt (<) (signals_of s i)" using assms(1) by (simp add: signal_ok_def sets_ok_def)
  then have "rg_signal (sg_reg s r) \<le> rg_signal (sg_reg s q)"
    if "q \<in> set (ss_signals (sg_set s i))" "rg_undelivered (sg_reg s q) > 0" for q
    using that ba(3) [of q] by (auto simp: signals_of_def ba(1) sorted_wrt_append)
  then show ?thesis
    by (rule_tac wait_takes [OF assms _ k]) (use Some k ba(1) in \<open>simp_all add: signal_async_wait_def start_signal_wait_def same_links_def Let_def\<close>)
qed

section \<open>Delivery\<close>

text \<open>The state after signal \<open>n\<close> has come to the registrations \<open>R\<close>.\<close>

definition queue_at :: "signal_state \<Rightarrow> nat \<Rightarrow> nat list" where
  "queue_at s r = ss_queue (sg_set s (rg_queue (sg_reg s r)))"

definition received :: "int \<Rightarrow> nat set \<Rightarrow> signal_state \<Rightarrow> signal_state" where
  "received n R s =
     s\<lparr>sg_reg := (\<lambda>r. if r \<in> R \<and> queue_at s r = [] then (sg_reg s r)\<lparr>rg_undelivered := rg_undelivered (sg_reg s r) + 1\<rparr> else sg_reg s r),
       sg_set := (\<lambda>i. if \<exists>r \<in> R. rg_queue (sg_reg s r) = i then (sg_set s i)\<lparr>ss_queue := []\<rparr> else sg_set s i),
       sg_op := (\<lambda>op. if \<exists>r \<in> R. op \<in> set (queue_at s r) then (sg_op s op)\<lparr>so_number := n\<rparr> else sg_op s op)\<rparr>"

lemma received_simps [simp]:
  "sg_service (received n R s) = sg_service s" "sg_services (received n R s) = sg_services s"
  "rg_next (sg_reg (received n R s) r) = rg_next (sg_reg s r)" "rg_prev (sg_reg (received n R s) r) = rg_prev (sg_reg s r)"
  "rg_queue (sg_reg (received n R s) r) = rg_queue (sg_reg s r)" "rg_signal (sg_reg (received n R s) r) = rg_signal (sg_reg s r)"
  "received n {} s = s"
  by (simp_all add: received_def)

lemma deliver_to_received: "deliver_to n r (ops, s) = (ops @ queue_at s r, received n {r} s)"
proof (cases "queue_at s r = []")
  case True
  have "(sg_set s i)\<lparr>ss_queue := []\<rparr> = sg_set s i" if "rg_queue (sg_reg s r) = i" for i
    using True that by (simp add: queue_at_def)
  then show ?thesis using True
    by (auto simp: deliver_to_def received_def queue_at_def on_sig_reg_def fun_eq_iff intro!: signal_state.equality)
next
  case False
  then have "on_sig_set (rg_queue (sg_reg s r)) (\<lambda>x. x\<lparr>ss_queue := []\<rparr>) (on_sig_ops (queue_at s r) (\<lambda>x. x\<lparr>so_number := n\<rparr>) s) = received n {r} s"
    by (intro signal_state.equality) (auto simp: received_def fun_eq_iff)
  then show ?thesis using False by (simp add: deliver_to_def queue_at_def Let_def)
qed

text \<open>Registrations of different sets do not see each other.\<close>

lemma received_queue_at: "(\<And>q. q \<in> Q \<Longrightarrow> rg_queue (sg_reg s q) \<noteq> rg_queue (sg_reg s r)) \<Longrightarrow> queue_at (received n Q s) r = queue_at s r"
  by (auto simp: queue_at_def received_def)

lemma received_twice:
  assumes "\<And>r q. r \<in> R \<Longrightarrow> q \<in> Q \<Longrightarrow> rg_queue (sg_reg s q) \<noteq> rg_queue (sg_reg s r)"
  shows "received n R (received n Q s) = received n (Q \<union> R) s"
proof -
  have q: "queue_at (received n Q s) r = queue_at s r" if "r \<in> R" for r using received_queue_at assms that by blast
  have "\<And>r. r \<in> R \<Longrightarrow> r \<notin> Q" using assms by blast
  then show ?thesis using q by (intro signal_state.equality) (auto simp: received_def fun_eq_iff)
qed

lemma deliver_regs_list:
  assumes "seg (\<lambda>r. rg_next (sg_reg s r)) (\<lambda>r. rg_prev (sg_reg s r)) a p rs b None" and "distinct (map (\<lambda>r. rg_queue (sg_reg s r)) rs)"
  shows "deliver_regs n p (ops, s) = Some (ops @ concat (map (queue_at s) rs), received n (set rs) s)"
  using assms
proof (induction rs arbitrary: s a p ops)
  case Nil
  then show ?case by (simp add: deliver_regs.simps)
next
  case (Cons r rs)
  let ?s = "received n {r} s"
  have p: "p = Some r" using Cons.prems(1) by simp
  have d: "rg_queue (sg_reg s r) \<noteq> rg_queue (sg_reg s q)" if "q \<in> set rs" for q using Cons.prems(2) that by auto
  have "deliver_regs n p (ops, s) = deliver_regs n (rg_next (sg_reg s r)) (ops @ queue_at s r, ?s)"
    by (subst deliver_regs.simps) (simp add: p deliver_to_received)
  also have "\<dots> = Some ((ops @ queue_at s r) @ concat (map (queue_at ?s) rs), received n (set rs) ?s)"
    using Cons.prems by (intro Cons.IH [where a = "Some r"]) simp_all
  also have "map (queue_at ?s) rs = map (queue_at s) rs" using d by (auto intro!: received_queue_at)
  also have "received n (set rs) ?s = received n (set (r # rs)) s" using d received_twice [of "set rs" "{r}" s n] by simp
  finally show ?case by simp
qed

text \<open>The services \<open>vs\<close>, with the registrations \<open>T v\<close> of each.\<close>

definition received_by :: "int \<Rightarrow> (nat \<Rightarrow> nat list) \<Rightarrow> nat list \<Rightarrow> signal_state \<Rightarrow> signal_state" where
  "received_by n T vs s =
     (received n (\<Union>v\<in>set vs. set (T v)) s)
       \<lparr>sg_service := (\<lambda>v. if v \<in> set vs then (sg_service s v)\<lparr>ssv_posted := ssv_posted (sg_service s v) @ concat (map (queue_at s) (T v))\<rparr>
                           else sg_service s v)\<rparr>"

definition separate :: "(nat \<Rightarrow> nat list) \<Rightarrow> nat list \<Rightarrow> signal_state \<Rightarrow> bool" where
  "separate T vs s \<longleftrightarrow> distinct vs \<and> (\<forall>v \<in> set vs. distinct (map (\<lambda>r. rg_queue (sg_reg s r)) (T v))) \<and>
     (\<forall>v \<in> set vs. \<forall>u \<in> set vs. u \<noteq> v \<longrightarrow> (\<forall>r \<in> set (T v). \<forall>q \<in> set (T u). rg_queue (sg_reg s q) \<noteq> rg_queue (sg_reg s r)))"

lemma deliver_services_list:
  assumes "seg (\<lambda>v. ssv_next (sg_service s v)) (\<lambda>v. ssv_prev (sg_service s v)) a p vs b None" and "separate T vs s"
    and "\<And>v. v \<in> set vs \<Longrightarrow> dll (\<lambda>r. rg_next (sg_reg s r)) (\<lambda>r. rg_prev (sg_reg s r)) (ssv_table (sg_service s v) n) (T v)"
  shows "deliver_services n p s = Some (received_by n T vs s)"
  using assms
proof (induction vs arbitrary: s a p)
  case Nil
  then show ?case by (simp add: deliver_services.simps received_by_def)
next
  case (Cons v vs)
  let ?r = "received n (set (T v)) s"
  let ?s = "sig_post_deferred v (concat (map (queue_at s) (T v))) ?r"
  have p: "p = Some v" using Cons.prems(1) by simp
  obtain c where "seg (\<lambda>r. rg_next (sg_reg s r)) (\<lambda>r. rg_prev (sg_reg s r)) None (ssv_table (sg_service s v) n) (T v) c None"
    using Cons.prems(3) [of v] by (auto simp: dll_def)
  then have "deliver_regs n (ssv_table (sg_service s v) n) ([], s) = Some (concat (map (queue_at s) (T v)), ?r)"
    using deliver_regs_list Cons.prems(2) by (fastforce simp: separate_def)
  then have "deliver_services n p s = deliver_services n (ssv_next (sg_service s v)) ?s"
    by (subst deliver_services.simps) (simp add: p)
  also have "\<dots> = Some (received_by n T vs ?s)"
  proof (rule Cons.IH)
    have "seg (\<lambda>u. ssv_next (sg_service s u)) (\<lambda>u. ssv_prev (sg_service s u)) (Some v) (ssv_next (sg_service s v)) vs b None"
      using Cons.prems(1) by simp
    then show "seg (\<lambda>u. ssv_next (sg_service ?s u)) (\<lambda>u. ssv_prev (sg_service ?s u)) (Some v) (ssv_next (sg_service s v)) vs b None"
      by (rule seg_transfer) simp
    show "separate T vs ?s" using Cons.prems(2) by (auto simp: separate_def)
    show "dll (\<lambda>r. rg_next (sg_reg ?s r)) (\<lambda>r. rg_prev (sg_reg ?s r)) (ssv_table (sg_service ?s u) n) (T u)" if "u \<in> set vs" for u
      using Cons.prems(3) [of u] that by auto
  qed
  also have "received_by n T vs ?s = received_by n T (v # vs) s"
  proof -
    have d: "rg_queue (sg_reg s q) \<noteq> rg_queue (sg_reg s r)" if "r \<in> set (T u)" "u \<in> set vs" "q \<in> set (T v)" for q r u
      using Cons.prems(2) that by (auto simp: separate_def)
    have "queue_at ?s = queue_at ?r" by (simp add: queue_at_def fun_eq_iff)
    then have q: "queue_at ?s r = queue_at s r" if "r \<in> set (T u)" "u \<in> set vs" for r u
      using received_queue_at [of "set (T v)" s r n] d [OF that] by simp
    have c: "map (queue_at ?s) (T u) = map (queue_at s) (T u)" if "u \<in> set vs" for u
      using q that by (intro map_cong) blast+
    have cc: "concat (map (queue_at ?s) (T u)) = concat (map (queue_at s) (T u))" if "u \<in> set vs" for u
      by (rule arg_cong [OF c [OF that]])
    have "received n R (s'\<lparr>sg_service := X\<rparr>) = (received n R s')\<lparr>sg_service := X\<rparr>" for R s' X
      by (intro signal_state.equality) (simp_all add: received_def queue_at_def cong: if_cong)
    then have e1: "received n (\<Union>u\<in>set vs. set (T u)) ?s =
        (received n (\<Union>u\<in>set vs. set (T u)) ?r)\<lparr>sg_service := sg_service ?s\<rparr>"
      by (simp add: sig_post_deferred_def on_sig_service_def)
    have e2: "received n (\<Union>u\<in>set vs. set (T u)) ?r = received n (\<Union>u\<in>set (v # vs). set (T u)) s"
      using d by (subst received_twice) auto
    have "v \<notin> set vs" using Cons.prems(2) by (simp add: separate_def)
    then have F: "(\<lambda>w. if w \<in> set vs then (sg_service ?s w)\<lparr>ssv_posted := ssv_posted (sg_service ?s w) @ concat (map (queue_at ?s) (T w))\<rparr>
          else sg_service ?s w) =
        (\<lambda>w. if w \<in> set (v # vs) then (sg_service s w)\<lparr>ssv_posted := ssv_posted (sg_service s w) @ concat (map (queue_at s) (T w))\<rparr>
          else sg_service s w)"
      using cc by (auto simp: fun_eq_iff)
    show ?thesis unfolding received_by_def e1 e2 F by simp
  qed
  finally show ?case .
qed

lemma mset_concat_sum: "distinct rs \<Longrightarrow> mset (concat (map f rs)) = (\<Sum>r\<in>set rs. mset (f r))"
  by (induction rs) simp_all

text \<open>What the lists \<open>T\<close> of registrations for signal \<open>n\<close> are in a consistent state.\<close>

lemma table_facts:
  assumes ok: "signal_ok s" and T: "\<And>v. table_is s v n (T v)"
  shows "r \<in> set (T v) \<Longrightarrow> r \<in> set (ss_signals (sg_set s (rg_queue (sg_reg s r)))) \<and>
      ss_service (sg_set s (rg_queue (sg_reg s r))) = v \<and> rg_signal (sg_reg s r) = n"
    and "inj_on (\<lambda>r. rg_queue (sg_reg s r)) (\<Union>v. set (T v))"
    and "distinct (T v)" and "(\<lambda>r. rg_queue (sg_reg s r)) ` set (T v) = sp_receivers n v (signal_abs s)"
proof -
  have so: "sets_ok s" using ok by (simp add: signal_ok_def)
  have set_T: "set (T v) = regs_of s v n" for v using T [of v] by (simp add: table_is_def)
  show place: "r \<in> set (T v) \<Longrightarrow> r \<in> set (ss_signals (sg_set s (rg_queue (sg_reg s r)))) \<and>
      ss_service (sg_set s (rg_queue (sg_reg s r))) = v \<and> rg_signal (sg_reg s r) = n" for r v
    using queue_of_reg [OF so] by (auto simp: set_T regs_of_def)
  show "inj_on (\<lambda>r. rg_queue (sg_reg s r)) (\<Union>v. set (T v))"
  proof (rule inj_onI)
    fix r q
    assume "r \<in> (\<Union>v. set (T v))" "q \<in> (\<Union>v. set (T v))" and e: "rg_queue (sg_reg s r) = rg_queue (sg_reg s q)"
    then obtain v u where "r \<in> set (T v)" "q \<in> set (T u)" by blast
    from place [OF this(1)] place [OF this(2)] show "r = q" using reg_of_signal [OF ok] e by metis
  qed
  show "distinct (T v)" using T [of v] dll_distinct by (auto simp: table_is_def)
  show "(\<lambda>r. rg_queue (sg_reg s r)) ` set (T v) = sp_receivers n v (signal_abs s)"
  proof (intro set_eqI iffI)
    fix i
    assume "i \<in> (\<lambda>r. rg_queue (sg_reg s r)) ` set (T v)"
    then obtain r where "r \<in> set (T v)" "i = rg_queue (sg_reg s r)" by blast
    then show "i \<in> sp_receivers n v (signal_abs s)"
      using place [of r v] pending_None [of s i n] by (auto simp: sp_receivers_def signals_of_def)
  next
    fix i
    assume "i \<in> sp_receivers n v (signal_abs s)"
    then obtain r where "r \<in> set (ss_signals (sg_set s i))" "rg_signal (sg_reg s r) = n" "ss_service (sg_set s i) = v"
      using pending_None [of s i n] by (auto simp: sp_receivers_def signals_of_def)
    then have "r \<in> set (T v)" "rg_queue (sg_reg s r) = i" using queue_of_reg [OF so] by (auto simp: set_T regs_of_def)
    then show "i \<in> (\<lambda>r. rg_queue (sg_reg s r)) ` set (T v)" by blast
  qed
qed

lemma deliver_signal_state:
  assumes ok: "signal_ok s" and T: "\<And>v. table_is s v n (T v)" and vs: "services_are s vs"
  shows "deliver_signal n s = Some (received_by n T vs s)"
proof -
  note f = table_facts [OF ok T]
  obtain b where seg: "seg (\<lambda>v. ssv_next (sg_service s v)) (\<lambda>v. ssv_prev (sg_service s v)) None (sg_services s) vs b None" and d: "distinct vs"
    using vs by (auto simp: services_are_def dll_def)
  have sep: "separate T vs s" unfolding separate_def
  proof (intro conjI ballI impI)
    show "distinct vs" by (rule d)
    show "distinct (map (\<lambda>r. rg_queue (sg_reg s r)) (T v))" for v
      using f(3) inj_on_subset [OF f(2), of "set (T v)"] by (auto simp: distinct_map)
    show "rg_queue (sg_reg s q) \<noteq> rg_queue (sg_reg s r)" if "u \<noteq> v" "r \<in> set (T v)" "q \<in> set (T u)" for u v q r
      using f(1) [OF that(2)] f(1) [OF that(3)] that(1) by auto
  qed
  show ?thesis unfolding deliver_signal_def by (rule deliver_services_list [OF seg sep]) (use T in \<open>simp add: table_is_def\<close>)
qed

lemma received_by_fields:
  assumes ok: "signal_ok s" and T: "\<And>v. table_is s v n (T v)" and vs: "services_are s vs"
  defines "s' \<equiv> received_by n T vs s"
  shows "same_links s s'"
    and "ss_queue (sg_set s' i) = (if sig_listed s (ss_service (sg_set s i)) \<and> pending_of s i n \<noteq> None then [] else ss_queue (sg_set s i))"
    and "r \<in> set (ss_signals (sg_set s i)) \<Longrightarrow> rg_undelivered (sg_reg s' r) = rg_undelivered (sg_reg s r) +
      (if sig_listed s (ss_service (sg_set s i)) \<and> rg_signal (sg_reg s r) = n \<and> ss_queue (sg_set s i) = [] then 1 else 0)"
    and "sg_op s' op = (if \<exists>i. sig_listed s (ss_service (sg_set s i)) \<and> pending_of s i n \<noteq> None \<and> op \<in> set (ss_queue (sg_set s i))
      then (sg_op s op)\<lparr>so_number := n\<rparr> else sg_op s op)"
    and "ssv_posted (sg_service s' v) = ssv_posted (sg_service s v) @ (if sig_listed s v then concat (map (queue_at s) (T v)) else [])"
    and "ssv_dropped (sg_service s' v) = ssv_dropped (sg_service s v)"
proof -
  note f = table_facts [OF ok T]
  have listed: "v \<in> set vs \<longleftrightarrow> sig_listed s v" for v using vs by (auto simp: services_are_def)
  let ?R = "\<Union>v\<in>set vs. set (T v)"
  have so: "sets_ok s" using ok by (simp add: signal_ok_def)
  have in_R: "(\<exists>r \<in> ?R. rg_queue (sg_reg s r) = i) \<longleftrightarrow> sig_listed s (ss_service (sg_set s i)) \<and> pending_of s i n \<noteq> None" for i
  proof -
    have "(\<exists>r \<in> ?R. rg_queue (sg_reg s r) = i) \<longleftrightarrow> (\<exists>v\<in>set vs. i \<in> (\<lambda>r. rg_queue (sg_reg s r)) ` set (T v))" by blast
    then show ?thesis unfolding f(4) by (auto simp: listed sp_receivers_def)
  qed
  have reg_R: "r \<in> ?R \<longleftrightarrow> sig_listed s (ss_service (sg_set s i)) \<and> rg_signal (sg_reg s r) = n" if "r \<in> set (ss_signals (sg_set s i))" for r i
  proof -
    have "set (T v) = regs_of s v n" for v using T [of v] by (simp add: table_is_def)
    moreover have "r \<in> regs_of s v n \<longleftrightarrow> ss_service (sg_set s i) = v \<and> rg_signal (sg_reg s r) = n" for v
    proof
      assume "r \<in> regs_of s v n"
      then obtain j where j: "ss_service (sg_set s j) = v" "r \<in> set (ss_signals (sg_set s j))" "rg_signal (sg_reg s r) = n"
        by (auto simp: regs_of_def)
      have "i = j" by (rule set_of_reg [OF so that j(2)])
      then show "ss_service (sg_set s i) = v \<and> rg_signal (sg_reg s r) = n" using j by simp
    qed (use that in \<open>auto simp: regs_of_def\<close>)
    ultimately show ?thesis by (auto simp: listed)
  qed
  show "same_links s s'" by (simp add: same_links_def s'_def received_by_def received_def)
  show "ss_queue (sg_set s' i) = (if sig_listed s (ss_service (sg_set s i)) \<and> pending_of s i n \<noteq> None then [] else ss_queue (sg_set s i))"
    using in_R [of i] by (auto simp: s'_def received_by_def received_def)
  show "rg_undelivered (sg_reg s' r) = rg_undelivered (sg_reg s r) +
      (if sig_listed s (ss_service (sg_set s i)) \<and> rg_signal (sg_reg s r) = n \<and> ss_queue (sg_set s i) = [] then 1 else 0)"
    if "r \<in> set (ss_signals (sg_set s i))"
    using reg_R [OF that] queue_of_reg [OF so that] by (simp add: s'_def received_by_def received_def queue_at_def)
  have "(\<exists>r \<in> ?R. op \<in> set (queue_at s r)) \<longleftrightarrow>
      (\<exists>i. (\<exists>r \<in> ?R. rg_queue (sg_reg s r) = i) \<and> op \<in> set (ss_queue (sg_set s i)))" by (auto simp: queue_at_def)
  then show "sg_op s' op = (if \<exists>i. sig_listed s (ss_service (sg_set s i)) \<and> pending_of s i n \<noteq> None \<and> op \<in> set (ss_queue (sg_set s i))
      then (sg_op s op)\<lparr>so_number := n\<rparr> else sg_op s op)"
    unfolding in_R by (simp add: s'_def received_by_def received_def)
  show "ssv_posted (sg_service s' v) = ssv_posted (sg_service s v) @ (if sig_listed s v then concat (map (queue_at s) (T v)) else [])"
    "ssv_dropped (sg_service s' v) = ssv_dropped (sg_service s v)"
    by (simp_all add: s'_def received_by_def listed)
qed

theorem signal_deliver_simulates:
  assumes ok: "signal_ok s"
  shows "\<exists>s'. deliver_signal n s = Some s' \<and> signal_ok s' \<and> signal_abs s' = sp_deliver n (signal_abs s) \<and> sg_handled s' = sg_handled s"
proof -
  define T where "T = (\<lambda>v. SOME rs. table_is s v n rs)"
  have T: "table_is s v n (T v)" for v
    unfolding T_def by (rule someI_ex) (use ok in \<open>simp add: signal_ok_def tables_ok_def\<close>)
  obtain vs where vs: "services_are s vs" using ok by (auto simp: signal_ok_def)
  let ?s = "received_by n T vs s"
  let ?hit = "\<lambda>i. sig_listed s (ss_service (sg_set s i)) \<and> pending_of s i n \<noteq> None"
  note f = received_by_fields [OF ok T vs] and t = table_facts [OF ok T] and w = waiting_opsD [OF ok]
  note l = f(1)
  have qu: "ss_queue (sg_set ?s i) = (if ?hit i then [] else ss_queue (sg_set s i))" for i by (rule f(2))
  have op_out: "sg_op ?s op = sg_op s op" if "op \<in> set (ss_queue (sg_set s i))" "\<not> ?hit i" for op i
    using that w(2) [of i _ op] unfolding f(4) by metis
  have new_posted: "set (ssv_posted (sg_service ?s v)) \<subseteq> set (ssv_posted (sg_service s v)) \<union> {op. \<exists>i. ?hit i \<and> op \<in> set (ss_queue (sg_set s i))}" for v
  proof -
    have "?hit (rg_queue (sg_reg s r))" if "r \<in> set (T v)" "sig_listed s v" for r
    proof -
      have "rg_queue (sg_reg s r) \<in> sp_receivers n v (signal_abs s)" using that(1) t(4) by blast
      then show ?thesis using that(2) by (auto simp: sp_receivers_def)
    qed
    then show ?thesis unfolding f(5) by (auto simp: queue_at_def) blast+
  qed
  have "waiting_ops_ok ?s" unfolding waiting_ops_ok_def
  proof (intro conjI allI impI ballI)
    show "distinct (ss_queue (sg_set ?s j))" for j using w(1) by (simp add: qu)
    show "set (ss_queue (sg_set ?s j)) \<inter> set (ss_queue (sg_set ?s h)) = {}" if "j \<noteq> h" for j h
      using w(2) [OF that] by (auto simp: qu)
    show "set (ss_queue (sg_set ?s j)) \<inter> set (ssv_posted (sg_service ?s v)) = {}" for j v
    proof -
      have "op \<notin> set (ssv_posted (sg_service ?s v))" if "op \<in> set (ss_queue (sg_set s j))" "\<not> ?hit j" for op
        using new_posted [of v] w(3) [OF that(1)] w(2) [of j _ op] that by fastforce
      then show ?thesis by (auto simp: qu)
    qed
    show "so_ec (sg_op ?s op) = no_error" "so_number (sg_op ?s op) = 0" if "op \<in> set (ss_queue (sg_set ?s j))" for j op
      using that w(4) [of op j] op_out [of op j] by (auto simp: qu split: if_splits)
  qed
  moreover have "rg_undelivered (sg_reg ?s r) = 0" if r: "r \<in> set (ss_signals (sg_set s j))" and q: "ss_queue (sg_set ?s j) \<noteq> []" for j r
  proof -
    have "ss_queue (sg_set s j) \<noteq> []" using q by (simp add: qu split: if_splits)
    moreover from this have "rg_undelivered (sg_reg s r) = 0" using ok r by (simp add: signal_ok_def sets_ok_def)
    ultimately show ?thesis unfolding f(3) [OF r] by simp
  qed
  ultimately have ok': "signal_ok ?s" using same_links_ok [OF ok l] by blast
  have pend: "sp_pending (signal_abs ?s) = (\<lambda>i m. if m = n \<and> sp_owner (signal_abs s) i \<in> sp_listed (signal_abs s) \<and> sp_waiting (signal_abs s) i = []
      then map_option Suc (sp_pending (signal_abs s) i n) else sp_pending (signal_abs s) i m)"
  proof (intro ext option_eqI)
    fix i m k
    let ?c = "m = n \<and> sig_listed s (ss_service (sg_set s i)) \<and> ss_queue (sg_set s i) = []"
    have "pending_of ?s i m = Some k \<longleftrightarrow> (\<exists>r \<in> set (ss_signals (sg_set s i)). rg_signal (sg_reg s r) = m \<and> rg_undelivered (sg_reg ?s r) = k)"
      unfolding pending_iff [OF ok'] using l by (simp add: same_links_def)
    also have "\<dots> \<longleftrightarrow> (\<exists>r \<in> set (ss_signals (sg_set s i)). rg_signal (sg_reg s r) = m \<and> rg_undelivered (sg_reg s r) + (if ?c then 1 else 0) = k)"
      using f(3) by (intro bex_cong) auto
    also have "\<dots> \<longleftrightarrow> (if ?c then \<exists>k'. pending_of s i m = Some k' \<and> k = Suc k' else pending_of s i m = Some k)"
      using pending_iff [OF ok, of i m] by auto
    finally show "sp_pending (signal_abs ?s) i m = Some k \<longleftrightarrow> (if m = n \<and> sp_owner (signal_abs s) i \<in> sp_listed (signal_abs s) \<and> sp_waiting (signal_abs s) i = []
      then map_option Suc (sp_pending (signal_abs s) i n) else sp_pending (signal_abs s) i m) = Some k" by auto
  qed
  have wait: "sp_waiting (signal_abs ?s) i = (if sp_owner (signal_abs s) i \<in> sp_listed (signal_abs s) \<and> sp_pending (signal_abs s) i n \<noteq> None
      then [] else sp_waiting (signal_abs s) i)" for i
    using op_out [of _ i] by (auto simp: qu)
  have post: "sp_posted (signal_abs ?s) v = (if v \<in> sp_listed (signal_abs s)
      then sp_posted (signal_abs s) v + (\<Sum>i\<in>sp_receivers n v (signal_abs s). mset (map (\<lambda>w. (fst w, no_error, n)) (sp_waiting (signal_abs s) i)))
      else sp_posted (signal_abs s) v)" for v
  proof -
    have "sg_op ?s op = sg_op s op" if "op \<in> set (ssv_posted (sg_service s v))" for op using that w(3) unfolding f(4) by metis
    then have old: "map (posted_entry ?s) (ssv_posted (sg_service s v)) = map (posted_entry s) (ssv_posted (sg_service s v))"
      by (auto simp: posted_entry_def)
    have "mset (map (posted_entry ?s) (concat (map (queue_at s) (T v)))) =
        (\<Sum>i\<in>sp_receivers n v (signal_abs s). mset (map (\<lambda>w. (fst w, no_error, n)) (sp_waiting (signal_abs s) i)))" if "sig_listed s v"
    proof -
      have hit: "?hit (rg_queue (sg_reg s r))" if "r \<in> set (T v)" for r
      proof -
        have "rg_queue (sg_reg s r) \<in> sp_receivers n v (signal_abs s)" using that t(4) by blast
        then show ?thesis using \<open>sig_listed s v\<close> by (auto simp: sp_receivers_def)
      qed
      have "map (posted_entry ?s) (queue_at s r) = map (\<lambda>op. (op, no_error, n)) (queue_at s r)" if r: "r \<in> set (T v)" for r
      proof (rule map_cong [OF refl])
        fix op
        assume "op \<in> set (queue_at s r)"
        then have "op \<in> set (ss_queue (sg_set s (rg_queue (sg_reg s r))))" by (simp add: queue_at_def)
        then show "posted_entry ?s op = (op, no_error, n)" using hit [OF r] w(4) unfolding posted_entry_def f(4) by auto
      qed
      then have "mset (map (posted_entry ?s) (concat (map (queue_at s) (T v)))) =
          mset (concat (map (\<lambda>r. map (\<lambda>op. (op, no_error, n)) (queue_at s r)) (T v)))"
        by (simp only: map_concat map_map comp_def cong: map_cong)
      also have "\<dots> = (\<Sum>r\<in>set (T v). mset (map (\<lambda>op. (op, no_error, n)) (queue_at s r)))" by (rule mset_concat_sum [OF t(3)])
      also have "\<dots> = (\<Sum>i\<in>(\<lambda>r. rg_queue (sg_reg s r)) ` set (T v). mset (map (\<lambda>op. (op, no_error, n)) (ss_queue (sg_set s i))))"
        using inj_on_subset [OF t(2), of "set (T v)"] by (subst sum.reindex) (auto simp: queue_at_def)
      finally show ?thesis unfolding t(4) by (simp add: comp_def image_mset.compositionality)
    qed
    then show ?thesis unfolding signal_abs_simps f(5) map_append mset_append old by simp
  qed
  have "signal_abs ?s = sp_deliver n (signal_abs s)"
    unfolding sp_deliver_def
    using signal_abs_links [OF l pend wait post, of "sp_dropped (signal_abs s)"] f(6) by simp
  moreover have "sg_handled ?s = sg_handled s" using l by (simp add: same_links_def)
  ultimately show ?thesis using deliver_signal_state [OF ok T vs] ok' by blast
qed

end
