(* ===== verification/Asio_Signal_Refinement.thy ===== *)
theory Asio_Signal_Refinement
  imports Asio_Signal_Runs
begin

text \<open>
  Services and sets that come and go, and signals that are raised, against the specification of
  \<^theory_text>\<open>Asio_Signal_Facts\<close>.
\<close>

section \<open>Services\<close>

lemma listed_iff:
  assumes "dll nx pv p xs" and "\<And>u. u \<notin> set xs \<Longrightarrow> nx u = None \<and> pv u = None"
  shows "nx u \<noteq> None \<or> pv u \<noteq> None \<or> p = Some u \<longleftrightarrow> u \<in> set xs"
proof (cases "u \<in> set xs")
  case True
  then show ?thesis using dll_no_prev [OF assms(1) True] by auto
next
  case False
  have "p \<noteq> Some u" using assms(1) False dll_head_in by metis
  then show ?thesis using assms(2) [OF False] False by simp
qed

definition unused_service :: "signal_state \<Rightarrow> nat \<Rightarrow> bool" where
  "unused_service s v \<longleftrightarrow> \<not> sig_listed s v \<and> (\<forall>i. ss_service (sg_set s i) = v \<longrightarrow> ss_signals (sg_set s i) = [])"

text \<open>Changes of the services alone.\<close>

lemma services_ok:
  assumes ok: "signal_ok s" and same: "sg_set s' = sg_set s" "sg_reg s' = sg_reg s" "sg_op s' = sg_op s" "sg_max s' = sg_max s"
      "sg_count s' = sg_count s" "sg_handled s' = sg_handled s"
    and table: "\<And>v. ssv_table (sg_service s' v) = ssv_table (sg_service s v)"
    and posted: "\<And>v. set (ssv_posted (sg_service s' v)) \<subseteq> set (ssv_posted (sg_service s v))" and vs: "services_are s' vs"
  shows "signal_ok s'" and "pending_of s' = pending_of s"
proof -
  have sig: "signals_of s' = signals_of s" by (simp add: fun_eq_iff signals_of_def same)
  have "sets_ok s'" using ok by (simp add: signal_ok_def sets_ok_def sig same)
  moreover have "table_is s' v n rs \<longleftrightarrow> table_is s v n rs" for v n rs by (simp add: table_is_def regs_of_def same table)
  then have "tables_ok s'" using ok by (simp add: signal_ok_def tables_ok_def)
  moreover have "counts_ok s'" using ok by (simp add: signal_ok_def counts_ok_def sets_with_def sig same)
  moreover have "waiting_ops_ok s'" using ok posted unfolding signal_ok_def waiting_ops_ok_def same by blast
  ultimately show "signal_ok s'" using vs by (auto simp: signal_ok_def)
  show "pending_of s' = pending_of s" by (simp add: fun_eq_iff pending_of_def same)
qed

lemma no_service_listed: "services_are s vs \<Longrightarrow> sg_services s = None \<longleftrightarrow> {v. sig_listed s v} = {}"
  using dll_head_in [of _ _ _ vs] by (cases "sg_services s"; cases vs) (auto simp: services_are_def dll_def)

theorem signal_service_simulates:
  assumes ok: "signal_ok s" and u: "unused_service s v"
  shows "\<exists>s'. sig_service_construct True v True s = Some s' \<and> signal_ok s' \<and> signal_abs s' = sp_service_start v (signal_abs s)"
proof -
  obtain vs where vs: "services_are s vs" using ok by (auto simp: signal_ok_def)
  have nl: "v \<notin> set vs" "ssv_next (sg_service s v) = None" "ssv_prev (sg_service s v) = None"
    using vs u by (auto simp: services_are_def unused_service_def sig_listed_def)
  have d: "dll (\<lambda>v. ssv_next (sg_service s v)) (\<lambda>v. ssv_prev (sg_service s v)) (sg_services s) vs" using vs by (simp add: services_are_def)
  have head: "h \<in> set vs \<and> h \<noteq> v \<and> ssv_locking (sg_service s h)" if "sg_services s = Some h" for h
    using vs nl that dll_head_in [of _ _ h vs] by (auto simp: services_are_def)
  obtain s' where s': "sig_service_construct True v True s = Some s'"
    and fields: "sg_set s' = sg_set s" "sg_reg s' = sg_reg s" "sg_op s' = sg_op s" "sg_max s' = sg_max s" "sg_flags s' = sg_flags s"
      "sg_sigaction s' = sg_sigaction s" "sg_count s' = sg_count s" "sg_handled s' = sg_handled s" "sg_services s' = Some v"
      "sg_pipe s' = (if sg_sigaction s \<and> sg_services s = None then Some [] else sg_pipe s)"
    and nx: "\<And>w. ssv_next (sg_service s' w) = (if w = v then sg_services s else ssv_next (sg_service s w))"
    and pv: "\<And>w. ssv_prev (sg_service s' w) = (if sg_services s = Some w then Some v else if w = v then None else ssv_prev (sg_service s w))"
    and rest: "\<And>w. ssv_table (sg_service s' w) = (if w = v then (\<lambda>_. None) else ssv_table (sg_service s w))"
      "\<And>w. ssv_locking (sg_service s' w) = (w = v \<or> ssv_locking (sg_service s w))"
      "\<And>w. ssv_posted (sg_service s' w) = (if w = v then [] else ssv_posted (sg_service s w))"
      "\<And>w. ssv_dropped (sg_service s' w) = (if w = v then [] else ssv_dropped (sg_service s w))"
    using head nl by (cases "sg_services s"; cases "sg_sigaction s") (auto simp: sig_service_construct_def sig_add_service_def open_descriptors_def Let_def)
  have "ssv_table (sg_service s v) n = None" for n
  proof -
    obtain rs where t: "table_is s v n rs" using ok by (auto simp: signal_ok_def tables_ok_def)
    moreover have "regs_of s v n = {}" using u by (auto simp: unused_service_def regs_of_def)
    ultimately show ?thesis by (auto simp: table_is_def)
  qed
  then have table: "ssv_table (sg_service s' w) = ssv_table (sg_service s w)" for w by (auto simp: rest)
  have d': "dll (\<lambda>w. ssv_next (sg_service s' w)) (\<lambda>w. ssv_prev (sg_service s' w)) (Some v) (v # vs)"
    using d nl(1) by (rule dll_insert) (use nl head in \<open>auto simp: nx pv\<close>)
  have listed: "sig_listed s' w \<longleftrightarrow> w \<in> set (v # vs)" for w
    unfolding sig_listed_def fields
  proof (rule listed_iff [OF d'])
    fix w
    assume "w \<notin> set (v # vs)"
    then show "ssv_next (sg_service s' w) = None \<and> ssv_prev (sg_service s' w) = None"
      using vs head by (auto simp: nx pv services_are_def sig_listed_def)
  qed
  have "services_are s' (v # vs)" using d' listed vs by (auto simp: services_are_def fields rest)
  then have k: "signal_ok s'" "pending_of s' = pending_of s"
    using services_ok [OF ok fields(1-4,7,8) table] by (simp_all add: rest)
  have entry: "posted_entry s' = posted_entry s" by (simp add: fun_eq_iff posted_entry_def fields)
  have "{w. sig_listed s' w} = insert v {w. sig_listed s w}" using listed vs by (auto simp: services_are_def)
  then have "signal_abs s' = sp_service_start v (signal_abs s)"
    by (intro signal_spec.equality) (auto simp: sp_service_start_def signal_abs_def fields k(2) entry rest fun_eq_iff no_service_listed [OF vs])
  then show ?thesis using s' k(1) by blast
qed

lemma remove_service_simulates:
  assumes ok: "signal_ok s" and l: "sig_listed s v"
  shows "signal_ok (sig_remove_service v s)"
    and "signal_abs (sig_remove_service v s) = (signal_abs s)\<lparr>sp_pipe :=
      (if sg_sigaction s \<and> sp_listed (signal_abs s) = {v} then None else sg_pipe s), sp_listed := sp_listed (signal_abs s) - {v}\<rparr>"
proof -
  let ?s = "sig_remove_service v s"
  obtain vs where vs: "services_are s vs" using ok by (auto simp: signal_ok_def)
  have d: "dll (\<lambda>v. ssv_next (sg_service s v)) (\<lambda>v. ssv_prev (sg_service s v)) (sg_services s) vs" and v: "v \<in> set vs"
    using vs l by (auto simp: services_are_def)
  have nb: "set_option (ssv_prev (sg_service s v)) \<union> set_option (ssv_next (sg_service s v)) \<subseteq> set vs - {v}"
    by (rule dll_neighbours [OF d v])
  then have nv: "ssv_prev (sg_service s v) \<noteq> Some v" "ssv_next (sg_service s v) \<noteq> Some v" by auto
  define p where "p = ssv_prev (sg_service s v)"
  define q where "q = ssv_next (sg_service s v)"
  define s1 where "s1 = (if sg_services s = Some v then s\<lparr>sg_services := q\<rparr> else s)"
  define s2 where "s2 = (case p of None \<Rightarrow> s1 | Some p' \<Rightarrow> on_sig_service p' (\<lambda>x. x\<lparr>ssv_next := q\<rparr>) s1)"
  define s3 where "s3 = (case q of None \<Rightarrow> s2 | Some q' \<Rightarrow> on_sig_service q' (\<lambda>x. x\<lparr>ssv_prev := p\<rparr>) s2)"
  have f1: "sg_service s1 = sg_service s" "sg_set s1 = sg_set s" "sg_reg s1 = sg_reg s" "sg_op s1 = sg_op s" "sg_max s1 = sg_max s"
    "sg_flags s1 = sg_flags s" "sg_sigaction s1 = sg_sigaction s" "sg_count s1 = sg_count s" "sg_handled s1 = sg_handled s"
    "sg_services s1 = (if sg_services s = Some v then q else sg_services s)"
    by (simp_all add: s1_def)
  have f2: "sg_service s2 w = (if p = Some w then (sg_service s w)\<lparr>ssv_next := q\<rparr> else sg_service s w)" for w
    by (cases p) (simp_all add: s2_def f1)
  have v2: "sg_service s2 v = sg_service s v" using nv by (simp add: f2 p_def)
  have f3: "sg_service s3 w = (if q = Some w then (sg_service s2 w)\<lparr>ssv_prev := p\<rparr> else sg_service s2 w)" for w
    by (cases q) (simp_all add: s3_def)
  define s4 where "s4 = on_sig_service v (\<lambda>x. x\<lparr>ssv_next := None, ssv_prev := None\<rparr>) s3"
  have rs: "?s = (if sg_services s4 = None then close_descriptors s4 else s4)"
  proof -
    have "?s = (let s2 = (case ssv_prev (sg_service s1 v) of None \<Rightarrow> s1
                     | Some p \<Rightarrow> on_sig_service p (\<lambda>x. x\<lparr>ssv_next := ssv_next (sg_service s1 v)\<rparr>) s1);
               s3 = (case ssv_next (sg_service s2 v) of None \<Rightarrow> s2
                     | Some q \<Rightarrow> on_sig_service q (\<lambda>x. x\<lparr>ssv_prev := ssv_prev (sg_service s2 v)\<rparr>) s2);
               s4 = on_sig_service v (\<lambda>x. x\<lparr>ssv_next := None, ssv_prev := None\<rparr>) s3
           in if sg_services s4 = None then close_descriptors s4 else s4)"
      using l unfolding sig_remove_service_def sig_listed_def s1_def q_def by (simp only: if_True Let_def)
    then show ?thesis unfolding f1 Let_def p_def [symmetric] q_def [symmetric] s2_def [symmetric] v2 s3_def [symmetric] s4_def [symmetric] .
  qed
  have cd: "sg_service (close_descriptors x) = sg_service x" "sg_set (close_descriptors x) = sg_set x" "sg_reg (close_descriptors x) = sg_reg x"
    "sg_op (close_descriptors x) = sg_op x" "sg_max (close_descriptors x) = sg_max x" "sg_flags (close_descriptors x) = sg_flags x"
    "sg_sigaction (close_descriptors x) = sg_sigaction x" "sg_count (close_descriptors x) = sg_count x"
    "sg_handled (close_descriptors x) = sg_handled x" "sg_services (close_descriptors x) = sg_services x" for x
    by (simp_all add: close_descriptors_def)
  have fields: "sg_set ?s = sg_set s" "sg_reg ?s = sg_reg s" "sg_op ?s = sg_op s" "sg_max ?s = sg_max s" "sg_flags ?s = sg_flags s"
      "sg_sigaction ?s = sg_sigaction s" "sg_count ?s = sg_count s" "sg_handled ?s = sg_handled s"
      "sg_services ?s = (if sg_services s = Some v then q else sg_services s)"
    unfolding rs s4_def s3_def s2_def by (simp_all add: f1 cd split: option.split)
  have pipe: "sg_pipe ?s = (if sg_sigaction s \<and> sg_services ?s = None then None else sg_pipe s)"
  proof -
    have "sg_pipe s4 = sg_pipe s" "sg_sigaction s4 = sg_sigaction s" unfolding s4_def s3_def s2_def s1_def by (simp_all split: option.split)
    then show ?thesis unfolding rs by (auto simp: close_descriptors_def)
  qed
  have svc: "sg_service ?s w = (let x = sg_service s w in
      if w = v then x\<lparr>ssv_next := None, ssv_prev := None\<rparr>
      else x\<lparr>ssv_next := (if p = Some w then q else ssv_next x), ssv_prev := (if q = Some w then p else ssv_prev x)\<rparr>)" for w
    using v2 nv by (simp add: rs s4_def cd f2 f3 Let_def p_def q_def)
  have nx: "ssv_next (sg_service ?s w) = (if w = v then None else if p = Some w then q else ssv_next (sg_service s w))"
    and pv: "ssv_prev (sg_service ?s w) = (if w = v then None else if q = Some w then p else ssv_prev (sg_service s w))"
    and rest: "ssv_table (sg_service ?s w) = ssv_table (sg_service s w)" "ssv_locking (sg_service ?s w) = ssv_locking (sg_service s w)"
      "ssv_posted (sg_service ?s w) = ssv_posted (sg_service s w)" "ssv_dropped (sg_service ?s w) = ssv_dropped (sg_service s w)" for w
    by (simp_all add: svc Let_def)
  have d': "dll (\<lambda>w. ssv_next (sg_service ?s w)) (\<lambda>w. ssv_prev (sg_service ?s w)) (sg_services ?s) (remove1 v vs)"
    using d v by (rule dll_remove) (simp_all add: nx pv fields p_def q_def)
  have set: "set (remove1 v vs) = set vs - {v}" using dll_distinct [OF d] by simp
  have listed: "sig_listed ?s w \<longleftrightarrow> w \<in> set (remove1 v vs)" for w
    unfolding sig_listed_def
  proof (rule listed_iff [OF d'])
    fix w
    assume "w \<notin> set (remove1 v vs)"
    then have "w = v \<or> w \<notin> set vs" unfolding set by blast
    then show "ssv_next (sg_service ?s w) = None \<and> ssv_prev (sg_service ?s w) = None"
    proof
      assume w: "w \<notin> set vs"
      then have "\<not> sig_listed s w" using vs by (simp add: services_are_def)
      moreover have "p \<noteq> Some w" "q \<noteq> Some w" using nb w unfolding p_def q_def by auto
      ultimately show ?thesis unfolding nx pv sig_listed_def by simp
    qed (simp add: nx pv)
  qed
  have "sg_services s \<noteq> None" using no_service_listed [OF vs] l by auto
  then have "services_are ?s (remove1 v vs)" using d' listed vs set by (auto simp: services_are_def rest pipe fields(6))
  then have k: "signal_ok ?s" "pending_of ?s = pending_of s" using services_ok [OF ok fields(1-4,7,8) rest(1)] by (simp_all add: rest)
  then show "signal_ok ?s" by simp
  have entry: "posted_entry ?s = posted_entry s" by (simp add: fun_eq_iff posted_entry_def fields)
  have still: "{w. sig_listed ?s w} = {w. sig_listed s w} - {v}" using listed vs set by (auto simp: services_are_def)
  have "sg_services ?s = None \<longleftrightarrow> {w. sig_listed s w} = {v}"
    using no_service_listed [OF \<open>services_are ?s (remove1 v vs)\<close>] l unfolding still by auto
  then show "signal_abs ?s = (signal_abs s)\<lparr>sp_pipe :=
      (if sg_sigaction s \<and> sp_listed (signal_abs s) = {v} then None else sg_pipe s), sp_listed := sp_listed (signal_abs s) - {v}\<rparr>"
    using still pipe
    by (intro signal_spec.equality) (simp_all add: signal_abs_def fields k(2) entry rest)
qed

section \<open>Shutdown\<close>

definition emptied :: "nat set \<Rightarrow> signal_state \<Rightarrow> signal_state" where
  "emptied I s = s\<lparr>sg_set := (\<lambda>i. if i \<in> I then (sg_set s i)\<lparr>ss_queue := []\<rparr> else sg_set s i)\<rparr>"

lemma emptied_simps [simp]:
  "sg_service (emptied I s) = sg_service s" "sg_reg (emptied I s) = sg_reg s" "sg_op (emptied I s) = sg_op s"
  "sg_services (emptied I s) = sg_services s" "sg_max (emptied I s) = sg_max s" "sg_flags (emptied I s) = sg_flags s"
  "sg_sigaction (emptied I s) = sg_sigaction s" "sg_count (emptied I s) = sg_count s" "sg_handled (emptied I s) = sg_handled s" "sg_pipe (emptied I s) = sg_pipe s"
  "ss_queue (sg_set (emptied I s) i) = (if i \<in> I then [] else ss_queue (sg_set s i))"
  "ss_signals (sg_set (emptied I s) i) = ss_signals (sg_set s i)" "ss_service (sg_set (emptied I s) i) = ss_service (sg_set s i)"
  "emptied {} s = s" "emptied I (emptied J s) = emptied (J \<union> I) s"
  by (simp_all add: emptied_def) (auto simp: fun_eq_iff intro!: signal_state.equality)

lemma empty_one: "on_sig_set i (\<lambda>x. x\<lparr>ss_queue := []\<rparr>) s = emptied {i} s"
  by (auto simp: emptied_def on_sig_set_def fun_eq_iff intro!: signal_state.equality)

lemma shutdown_regs_list:
  assumes "seg (\<lambda>r. rg_next (sg_reg s r)) (\<lambda>r. rg_prev (sg_reg s r)) a p rs b None" and "distinct (map (\<lambda>r. rg_queue (sg_reg s r)) rs)"
  shows "shutdown_regs p (ops, s) = Some (ops @ concat (map (queue_at s) rs), emptied ((\<lambda>r. rg_queue (sg_reg s r)) ` set rs) s)"
  using assms
proof (induction rs arbitrary: s a p ops)
  case Nil
  then show ?case by (simp add: shutdown_regs.simps)
next
  case (Cons r rs)
  let ?s = "emptied {rg_queue (sg_reg s r)} s"
  have p: "p = Some r" using Cons.prems(1) by simp
  have "shutdown_regs p (ops, s) = shutdown_regs (rg_next (sg_reg s r)) (ops @ queue_at s r, ?s)"
    by (subst shutdown_regs.simps) (simp add: p empty_one queue_at_def Let_def)
  also have "\<dots> = Some ((ops @ queue_at s r) @ concat (map (queue_at ?s) rs), emptied ((\<lambda>q. rg_queue (sg_reg ?s q)) ` set rs) ?s)"
    using Cons.prems by (intro Cons.IH [where a = "Some r"]) simp_all
  also have "map (queue_at ?s) rs = map (queue_at s) rs"
  proof (rule map_cong [OF refl])
    fix q
    assume "q \<in> set rs"
    then have "rg_queue (sg_reg s r) \<noteq> rg_queue (sg_reg s q)" using Cons.prems(2) by auto
    then show "queue_at ?s q = queue_at s q" by (simp add: queue_at_def)
  qed
  finally show ?case by simp
qed

text \<open>The tables of the signals \<open>ns\<close>, with their lists \<open>T\<close>.\<close>

lemma shutdown_signals_list:
  assumes "\<And>n. dll (\<lambda>r. rg_next (sg_reg s r)) (\<lambda>r. rg_prev (sg_reg s r)) (ssv_table (sg_service s v) n) (T n)"
    and "\<And>n. distinct (map (\<lambda>r. rg_queue (sg_reg s r)) (T n))"
  shows "\<exists>new. shutdown_signals v ns (ops, s) = Some (ops @ new, emptied (\<Union>n\<in>set ns. (\<lambda>r. rg_queue (sg_reg s r)) ` set (T n)) s) \<and>
    mset new = (\<Sum>i\<in>(\<Union>n\<in>set ns. (\<lambda>r. rg_queue (sg_reg s r)) ` set (T n)). mset (ss_queue (sg_set s i)))"
  using assms
proof (induction ns arbitrary: s ops)
  case Nil
  then show ?case by simp
next
  case (Cons n ns)
  let ?Q = "\<lambda>r. rg_queue (sg_reg s r)"
  let ?J = "?Q ` set (T n)" and ?A = "\<Union>n\<in>set ns. ?Q ` set (T n)"
  let ?s = "emptied ?J s" and ?first = "concat (map (queue_at s) (T n))"
  obtain b where "seg (\<lambda>r. rg_next (sg_reg s r)) (\<lambda>r. rg_prev (sg_reg s r)) None (ssv_table (sg_service s v) n) (T n) b None"
    using Cons.prems(1) [of n] by (auto simp: dll_def)
  then have one: "shutdown_regs (ssv_table (sg_service s v) n) (ops, s) = Some (ops @ ?first, ?s)"
    by (rule shutdown_regs_list) (rule Cons.prems(2))
  obtain new where new: "shutdown_signals v ns (ops @ ?first, ?s) = Some ((ops @ ?first) @ new, emptied ?A ?s)"
    "mset new = (\<Sum>i\<in>?A. mset (ss_queue (sg_set ?s i)))"
    using Cons.IH [of ?s "ops @ ?first"] Cons.prems by auto
  have inj: "inj_on ?Q (set (T n))" "distinct (T n)" using Cons.prems(2) [of n] by (simp_all add: distinct_map)
  have fin: "finite ?J" "finite ?A" by simp_all
  have "mset ?first = (\<Sum>i\<in>?J. mset (ss_queue (sg_set s i)))"
    unfolding mset_concat_sum [OF inj(2)] using inj(1) by (simp add: sum.reindex queue_at_def)
  moreover have "mset new = (\<Sum>i\<in>?A - ?J. mset (ss_queue (sg_set s i)))"
  proof -
    have "mset new = (\<Sum>i\<in>?A - ?J. mset (ss_queue (sg_set ?s i))) + (\<Sum>i\<in>?A \<inter> ?J. mset (ss_queue (sg_set ?s i)))"
      unfolding new(2) by (subst sum.Int_Diff [OF fin(2), of _ ?J]) (simp add: add.commute)
    then show ?thesis by simp
  qed
  moreover have "(\<Sum>i\<in>?J. mset (ss_queue (sg_set s i))) + (\<Sum>i\<in>?A - ?J. mset (ss_queue (sg_set s i))) =
      (\<Sum>i\<in>?J \<union> ?A. mset (ss_queue (sg_set s i)))"
    using fin by (subst sum.union_disjoint [symmetric]) auto
  moreover have "shutdown_signals v (n # ns) (ops, s) = Some (ops @ (?first @ new), emptied (?J \<union> ?A) s)"
    using one new(1) by simp
  ultimately show ?case by (intro exI [of _ "?first @ new"]) simp
qed

theorem signal_shutdown_simulates:
  assumes ok: "signal_ok s"
  shows "\<exists>s'. sig_service_shutdown v s = Some s' \<and> signal_ok s' \<and> signal_abs s' = sp_service_stop v (signal_abs s)"
proof -
  define s1 where "s1 = sig_remove_service v s"
  define pp where "pp = (if sg_sigaction s \<and> sp_listed (signal_abs s) = {v} then None else sg_pipe s)"
  have "signal_ok s1 \<and> signal_abs s1 = (signal_abs s)\<lparr>sp_pipe := pp, sp_listed := sp_listed (signal_abs s) - {v}\<rparr>"
  proof (cases "sig_listed s v")
    case True
    then show ?thesis using remove_service_simulates [OF ok] by (simp add: s1_def pp_def)
  next
    case False
    then have "s1 = s" by (auto simp: s1_def sig_remove_service_def sig_listed_def)
    moreover have "sp_listed (signal_abs s) - {v} = sp_listed (signal_abs s)" "pp = sp_pipe (signal_abs s)" using False by (auto simp: pp_def)
    ultimately show ?thesis using ok by simp
  qed
  then have ok1: "signal_ok s1" and abs1: "signal_abs s1 = (signal_abs s)\<lparr>sp_pipe := pp, sp_listed := sp_listed (signal_abs s) - {v}\<rparr>" by simp_all
  define T where "T = (\<lambda>n v. SOME rs. table_is s1 v n rs)"
  have T: "table_is s1 u n (T n u)" for u n
    unfolding T_def by (rule someI_ex) (use ok1 in \<open>simp add: signal_ok_def tables_ok_def\<close>)
  note t = table_facts [OF ok1 T]
  let ?ns = "[0..sg_max s1 - 1]"
  define I where "I = (\<Union>n\<in>set ?ns. (\<lambda>r. rg_queue (sg_reg s1 r)) ` set (T n v))"
  have "distinct (map (\<lambda>r. rg_queue (sg_reg s1 r)) (T n v))" for n
    using t(3) inj_on_subset [OF t(2) [of n], of "set (T n v)"] by (auto simp: distinct_map)
  then obtain ops where run: "shutdown_signals v ?ns ([], s1) = Some (ops, emptied I s1)"
    and ops: "mset ops = (\<Sum>i\<in>I. mset (ss_queue (sg_set s1 i)))"
    using shutdown_signals_list [of s1 v "\<lambda>n. T n v" ?ns "[]"] T by (auto simp: table_is_def I_def)
  have I: "I = sp_shut_sets v (signal_abs s)"
  proof -
    have in_range: "n \<in> set ?ns" if "pending_of s1 i n \<noteq> None" for i n
    proof -
      have "n \<in> set (signals_of s1 i)" using that pending_None [of s1 i n] by simp
      moreover have "set (signals_of s1 i) \<subseteq> {0..<sg_max s1}" using ok1 by (simp add: signal_ok_def sets_ok_def)
      ultimately show ?thesis by auto
    qed
    have "I = (\<Union>n\<in>set ?ns. sp_receivers n v (signal_abs s1))" unfolding I_def t(4) by (rule refl)
    also have "\<dots> = {i. ss_service (sg_set s1 i) = v \<and> dom (pending_of s1 i) \<noteq> {}}"
      using in_range unfolding sp_receivers_def dom_def signal_abs_simps by blast
    finally have "I = sp_shut_sets v (signal_abs s1)" by (simp add: sp_shut_sets_def)
    then show ?thesis by (simp add: abs1 sp_shut_sets_def del: signal_abs_simps)
  qed
  define s' where "s' = on_sig_service v (\<lambda>x. x\<lparr>ssv_dropped := ssv_dropped x @ ops\<rparr>) (emptied I s1)"
  have l: "same_links s1 s'" by (simp add: same_links_def s'_def)
  have "waiting_ops_ok s'" using ok1 unfolding signal_ok_def waiting_ops_ok_def s'_def by simp
  moreover have "rg_undelivered (sg_reg s' r) = 0" if "r \<in> set (ss_signals (sg_set s1 i))" "ss_queue (sg_set s' i) \<noteq> []" for i r
    using that ok1 by (auto simp: s'_def signal_ok_def sets_ok_def split: if_splits)
  ultimately have ok': "signal_ok s'" using same_links_ok [OF ok1 l] by blast
  have entry: "posted_entry s' = posted_entry s1" by (simp add: fun_eq_iff posted_entry_def s'_def)
  have pend: "pending_of s' = pending_of s1" by (simp add: fun_eq_iff pending_of_def s'_def)
  have "signal_abs s' = (signal_abs s1)\<lparr>sp_pending := sp_pending (signal_abs s1),
      sp_waiting := (\<lambda>i. if i \<in> I then [] else sp_waiting (signal_abs s1) i), sp_posted := sp_posted (signal_abs s1),
      sp_dropped := (sp_dropped (signal_abs s1))(v := sp_dropped (signal_abs s1) v + mset ops)\<rparr>"
    by (rule signal_abs_links [OF l]) (simp_all add: entry pend, simp_all add: s'_def)
  moreover have "mset ops = (\<Sum>i\<in>I. mset (map fst (sp_waiting (signal_abs s1) i)))" by (simp add: ops comp_def)
  moreover have "sp_pending (signal_abs s1) = sp_pending (signal_abs s)" "sp_waiting (signal_abs s1) = sp_waiting (signal_abs s)"
    "sp_posted (signal_abs s1) = sp_posted (signal_abs s)" "sp_dropped (signal_abs s1) = sp_dropped (signal_abs s)"
    by (simp_all add: abs1 del: signal_abs_simps)
  ultimately have "signal_abs s' = (signal_abs s1)\<lparr>sp_pending := sp_pending (signal_abs s),
      sp_waiting := (\<lambda>i. if i \<in> I then [] else sp_waiting (signal_abs s) i), sp_posted := sp_posted (signal_abs s),
      sp_dropped := (sp_dropped (signal_abs s))(v := sp_dropped (signal_abs s) v + (\<Sum>i\<in>I. mset (map fst (sp_waiting (signal_abs s) i))))\<rparr>"
    by (simp only:)
  then have "signal_abs s' = sp_service_stop v (signal_abs s)"
    unfolding abs1 sp_service_stop_def I [symmetric] by (simp add: pp_def)
  moreover have "sig_service_shutdown v s = Some s'" using run by (simp add: sig_service_shutdown_def s1_def [symmetric] s'_def Let_def)
  ultimately show ?thesis using ok' by blast
qed

section \<open>Sets\<close>

definition unused_set :: "signal_state \<Rightarrow> nat \<Rightarrow> bool" where
  "unused_set s i \<longleftrightarrow> ss_signals (sg_set s i) = [] \<and> ss_queue (sg_set s i) = []"

theorem signal_construct_simulates:
  assumes ok: "signal_ok s" and u: "unused_set s i"
  shows "signal_ok (signal_construct i v s)" and "signal_abs (signal_construct i v s) = sp_construct i v (signal_abs s)"
proof -
  let ?s = "signal_construct i v s"
  have sets: "ss_signals (sg_set ?s j) = ss_signals (sg_set s j)" "ss_queue (sg_set ?s j) = ss_queue (sg_set s j)"
    "ss_service (sg_set ?s j) = (if j = i then v else ss_service (sg_set s j))" for j
    using u by (simp_all add: signal_construct_def unused_set_def)
  have same: "sg_service ?s = sg_service s" "sg_reg ?s = sg_reg s" "sg_op ?s = sg_op s" "sg_max ?s = sg_max s" "sg_count ?s = sg_count s"
    "sg_handled ?s = sg_handled s" "sg_services ?s = sg_services s" "sg_flags ?s = sg_flags s" "sg_sigaction ?s = sg_sigaction s"
    "sg_pipe ?s = sg_pipe s" by (simp_all add: signal_construct_def)
  have sig: "signals_of ?s = signals_of s" by (simp add: fun_eq_iff signals_of_def sets same)
  have "regs_of ?s w n = regs_of s w n" for w n
  proof -
    have "r \<in> set (ss_signals (sg_set s j)) \<Longrightarrow> j \<noteq> i" for r j using u by (auto simp: unused_set_def)
    then show ?thesis by (auto simp: regs_of_def sets same)
  qed
  then have tables: "table_is ?s w n rs \<longleftrightarrow> table_is s w n rs" for w n rs by (simp add: table_is_def same)
  have listed: "sig_listed ?s = sig_listed s" by (simp add: fun_eq_iff sig_listed_def same)
  have "services_are ?s vs \<longleftrightarrow> services_are s vs" for vs by (simp add: services_are_def listed same)
  then show "signal_ok ?s" using ok tables
    by (simp add: signal_ok_def sets_ok_def tables_ok_def counts_ok_def waiting_ops_ok_def sets_with_def sig sets same)
  have entry: "posted_entry ?s = posted_entry s" by (simp add: fun_eq_iff posted_entry_def same)
  have pend: "pending_of ?s = pending_of s" by (simp add: fun_eq_iff pending_of_def sets same)
  show "signal_abs ?s = sp_construct i v (signal_abs s)"
    by (simp add: signal_abs_def sp_construct_def listed sets same entry pend fun_eq_iff)
qed

theorem signal_destroy_simulates:
  assumes ok: "signal_ok s"
  shows "signal_ok (signal_destroy sys i s) \<and> signal_abs (signal_destroy sys i s) = sp_destroy sys i (signal_abs s)"
proof -
  obtain ec s' where c: "signal_clear sys i s = (ec, s')" by force
  note clear = signal_clear_simulates [OF ok c]
  then show ?thesis using signal_abort_simulates [of s' i "\<lambda>_. True"]
    by (simp add: signal_destroy_def c cancel_is_abort sp_destroy_def)
qed

section \<open>Raised signals\<close>

lemma pipe_update:
  assumes "signal_ok s" and "sg_pipe s \<noteq> None"
  shows "signal_ok (s\<lparr>sg_pipe := Some ns\<rparr>)" and "signal_abs (s\<lparr>sg_pipe := Some ns\<rparr>) = (signal_abs s)\<lparr>sp_pipe := Some ns\<rparr>"
proof -
  let ?s = "s\<lparr>sg_pipe := Some ns\<rparr>"
  obtain vs where vs: "services_are s vs" using assms(1) by (auto simp: signal_ok_def)
  then have "services_are ?s vs" using assms(2) by (auto simp: services_are_def sig_listed_def)
  then show "signal_ok ?s"
    using services_ok(1) [OF assms(1), of ?s vs] by simp
  have "posted_entry ?s = posted_entry s" "pending_of ?s = pending_of s" by (simp_all add: fun_eq_iff posted_entry_def pending_of_def)
  then show "signal_abs ?s = (signal_abs s)\<lparr>sp_pipe := Some ns\<rparr>" by (simp add: signal_abs_def sig_listed_def)
qed

theorem signal_raise_simulates:
  assumes ok: "signal_ok s" and h: "sg_handled s n"
  shows "\<exists>s'. asio_signal_handler written n s = Some s' \<and> signal_ok s' \<and> signal_abs s' = sp_raise written n (signal_abs s)"
proof (cases "sg_sigaction s")
  case False
  obtain s' where s': "deliver_signal n s = Some s'" "signal_ok s'" "signal_abs s' = sp_deliver n (signal_abs s)" "sg_handled s' = sg_handled s"
    using signal_deliver_simulates [OF ok] by blast
  have "set_handled n True s' = s'" using s'(4) h by (simp add: set_handled_def fun_upd_idem)
  then show ?thesis using s' False by (auto simp: asio_signal_handler_def sp_raise_def)
next
  case True
  show ?thesis
  proof (cases "sg_pipe s")
    case None
    then have "signal_abs s = (signal_abs s)\<lparr>sp_pipe := None\<rparr>" by (simp add: signal_abs_def)
    then show ?thesis using ok None True by (simp add: asio_signal_handler_def sp_raise_def)
  next
    case (Some ns)
    then show ?thesis using ok True pipe_update [OF ok] by (simp add: asio_signal_handler_def sp_raise_def)
  qed
qed

lemma pipe_read_loop_simulates:
  "signal_ok s \<Longrightarrow> \<exists>s'. pipe_read_loop ns s = Some s' \<and> signal_ok s' \<and>
     signal_abs s' = fold sp_deliver (filter (\<lambda>n. 0 \<le> n \<and> n < sg_max s) ns) (signal_abs s)"
proof (induction ns arbitrary: s)
  case (Cons n ns)
  obtain s1 where s1: "deliver_signal n s = Some s1" "signal_ok s1" "signal_abs s1 = sp_deliver n (signal_abs s)"
    using signal_deliver_simulates [OF Cons.prems] by blast
  then have "sp_max (signal_abs s1) = sp_max (signal_abs s)" by (simp add: sp_deliver_def)
  then have "sg_max s1 = sg_max s" by simp
  then show ?case using Cons.IH [OF s1(2)] Cons.IH [OF Cons.prems] s1 by auto
qed simp

theorem pipe_read_simulates:
  assumes ok: "signal_ok s"
  shows "\<exists>s'. pipe_read_perform s = Some s' \<and> signal_ok s' \<and> signal_abs s' = sp_read_pipe (signal_abs s)"
proof (cases "sg_pipe s")
  case None
  then show ?thesis using ok by (simp add: pipe_read_perform_def sp_read_pipe_def)
next
  case (Some ns)
  note p = pipe_update [OF ok, of "[]"]
  show ?thesis using pipe_read_loop_simulates [OF p(1), of ns] p(2) Some
    by (simp add: pipe_read_perform_def sp_read_pipe_def)
qed

end
