(* ===== verification/Asio_Signal_Sets.thy ===== *)
theory Asio_Signal_Sets
  imports Asio_Signal_Refinement
begin

text \<open>
  Runs of all operations on signal sets and services: they do what the specification of
  \<^theory_text>\<open>Asio_Signal_Facts\<close> says, return its error codes and keep the invariant.
\<close>

section \<open>Events\<close>

text \<open>
  A call that asks the system has the answers of the system. \<open>Sg_service v\<close> is for a scheduler that locks, when a
  pipe can be opened.
\<close>

datatype signal_event =
    Sg_service nat
  | Sg_shutdown nat
  | Sg_construct nat nat
  | Sg_destroy "int \<Rightarrow> int option" nat
  | Sg_add "int \<Rightarrow> int option" nat int int nat
  | Sg_remove "int \<Rightarrow> int option" nat int
  | Sg_clear "int \<Rightarrow> int option" nat
  | Sg_cancel nat
  | Sg_cancel_key nat "nat option"
  | Sg_wait nat nat "nat option"
  | Sg_raise bool int
  | Sg_read_pipe

fun signal_step :: "signal_event \<Rightarrow> signal_state \<Rightarrow> (error_code \<times> signal_state) option" where
  "signal_step (Sg_service v) s = map_option (Pair no_error) (sig_service_construct True v True s)"
| "signal_step (Sg_shutdown v) s = map_option (Pair no_error) (sig_service_shutdown v s)"
| "signal_step (Sg_construct i v) s = Some (no_error, signal_construct i v s)"
| "signal_step (Sg_destroy sys i) s = Some (no_error, signal_destroy sys i s)"
| "signal_step (Sg_add sys i n f r) s = Some (signal_add sys i n f r s)"
| "signal_step (Sg_remove sys i n) s = Some (signal_remove sys i n s)"
| "signal_step (Sg_clear sys i) s = Some (signal_clear sys i s)"
| "signal_step (Sg_cancel i) s = Some (no_error, signal_cancel i s)"
| "signal_step (Sg_cancel_key i key) s = Some (no_error, signal_cancel_by_key i key s)"
| "signal_step (Sg_wait i op key) s = Some (no_error, signal_async_wait i op key s)"
| "signal_step (Sg_raise written n) s = map_option (Pair no_error) (asio_signal_handler written n s)"
| "signal_step Sg_read_pipe s = map_option (Pair no_error) (pipe_read_perform s)"

text \<open>Objects are new when they are constructed, and a signal reaches asio when it has asio's handler.\<close>

fun signal_possible :: "signal_event \<Rightarrow> signal_state \<Rightarrow> bool" where
  "signal_possible (Sg_service v) s \<longleftrightarrow> unused_service s v"
| "signal_possible (Sg_construct i v) s \<longleftrightarrow> unused_set s i"
| "signal_possible (Sg_add sys i n f r) s \<longleftrightarrow> unregistered s r"
| "signal_possible (Sg_wait i op key) s \<longleftrightarrow> unused_op s op"
| "signal_possible (Sg_raise written n) s \<longleftrightarrow> sg_handled s n"
| "signal_possible e s \<longleftrightarrow> True"

fun sp_step :: "signal_event \<Rightarrow> signal_spec \<Rightarrow> error_code \<times> signal_spec" where
  "sp_step (Sg_service v) p = (no_error, sp_service_start v p)"
| "sp_step (Sg_shutdown v) p = (no_error, sp_service_stop v p)"
| "sp_step (Sg_construct i v) p = (no_error, sp_construct i v p)"
| "sp_step (Sg_destroy sys i) p = (no_error, sp_destroy sys i p)"
| "sp_step (Sg_add sys i n f r) p = sp_add sys i n f p"
| "sp_step (Sg_remove sys i n) p = sp_remove sys i n p"
| "sp_step (Sg_clear sys i) p = sp_clear sys i p"
| "sp_step (Sg_cancel i) p = (no_error, sp_abort i (\<lambda>_. True) p)"
| "sp_step (Sg_cancel_key i key) p = (no_error, sp_abort i (\<lambda>k. k = key) p)"
| "sp_step (Sg_wait i op key) p = (no_error, sp_wait i op key p)"
| "sp_step (Sg_raise written n) p = (no_error, sp_raise written n p)"
| "sp_step Sg_read_pipe p = (no_error, sp_read_pipe p)"

lemma signal_step_simulates:
  assumes "signal_ok s" and "signal_possible e s"
  shows "\<exists>ec s'. signal_step e s = Some (ec, s') \<and> signal_ok s' \<and> sp_step e (signal_abs s) = (ec, signal_abs s')"
proof (cases e)
  case (Sg_service v)
  then show ?thesis using signal_service_simulates assms by fastforce
next
  case (Sg_shutdown v)
  then show ?thesis using signal_shutdown_simulates [OF assms(1), of v] by auto
next
  case (Sg_construct i v)
  then show ?thesis using signal_construct_simulates assms by simp
next
  case (Sg_destroy sys i)
  then show ?thesis using signal_destroy_simulates [OF assms(1)] by simp
next
  case (Sg_add sys i n f r)
  then show ?thesis using assms signal_add_simulates by (cases "signal_add sys i n f r s") auto
next
  case (Sg_remove sys i n)
  then show ?thesis using assms(1) signal_remove_simulates by (cases "signal_remove sys i n s") auto
next
  case (Sg_clear sys i)
  then show ?thesis using assms(1) signal_clear_simulates by (cases "signal_clear sys i s") auto
next
  case (Sg_cancel i)
  then show ?thesis using signal_abort_simulates [OF assms(1)] by (simp add: cancel_is_abort)
next
  case (Sg_cancel_key i key)
  then show ?thesis using signal_abort_simulates [OF assms(1)] by (simp add: cancel_is_abort)
next
  case (Sg_wait i op key)
  then show ?thesis using signal_wait_simulates assms by simp
next
  case (Sg_raise written n)
  then show ?thesis using signal_raise_simulates assms by fastforce
next
  case Sg_read_pipe
  then show ?thesis using pipe_read_simulates [OF assms(1)] by auto
qed

section \<open>Runs\<close>

fun signal_run :: "signal_event list \<Rightarrow> signal_state \<Rightarrow> (error_code list \<times> signal_state) option" where
  "signal_run [] s = Some ([], s)"
| "signal_run (e # es) s =
     do {(ec, s1) \<leftarrow> signal_step e s; (ecs, s2) \<leftarrow> signal_run es s1; Some (ec # ecs, s2)}"

fun signal_run_possible :: "signal_event list \<Rightarrow> signal_state \<Rightarrow> bool" where
  "signal_run_possible [] s \<longleftrightarrow> True"
| "signal_run_possible (e # es) s \<longleftrightarrow>
     signal_possible e s \<and> (case signal_step e s of None \<Rightarrow> True | Some (ec, s1) \<Rightarrow> signal_run_possible es s1)"

fun sp_run :: "signal_event list \<Rightarrow> signal_spec \<Rightarrow> error_code list \<times> signal_spec" where
  "sp_run [] p = ([], p)"
| "sp_run (e # es) p = (let (ec, p1) = sp_step e p; (ecs, p2) = sp_run es p1 in (ec # ecs, p2))"

definition signal_spec_init :: "int \<Rightarrow> bool \<Rightarrow> signal_spec" where
  "signal_spec_init max_number sigaction =
     \<lparr>sp_max = max_number, sp_sigaction = sigaction, sp_flags = (\<lambda>_. 0), sp_pipe = None, sp_listed = {}, sp_owner = (\<lambda>_. 0),
      sp_pending = (\<lambda>_. Map.empty), sp_waiting = (\<lambda>_. []), sp_posted = (\<lambda>_. {#}), sp_dropped = (\<lambda>_. {#})\<rparr>"

lemma signal_init_ok: "signal_ok (signal_state_init m b)"
proof -
  let ?s = "signal_state_init m b"
  have "services_are ?s []" by (simp add: services_are_def sig_listed_def signal_state_init_def)
  moreover have "table_is ?s v n []" for v n by (simp add: table_is_def regs_of_def signal_state_init_def)
  then have "tables_ok ?s" by (auto simp: tables_ok_def)
  ultimately show ?thesis
    by (auto simp: signal_ok_defs sets_with_def signals_of_def) (simp_all add: signal_state_init_def)
qed

lemma signal_init_abs: "signal_abs (signal_state_init m b) = signal_spec_init m b"
  by (simp add: signal_abs_def signal_spec_init_def signal_state_init_def sig_listed_def pending_of_def fun_eq_iff)

lemma signal_run_simulates:
  "signal_ok s \<Longrightarrow> signal_run_possible es s \<Longrightarrow>
   \<exists>ecs s'. signal_run es s = Some (ecs, s') \<and> signal_ok s' \<and> sp_run es (signal_abs s) = (ecs, signal_abs s')"
proof (induction es arbitrary: s)
  case (Cons e es)
  obtain ec s1 where one: "signal_step e s = Some (ec, s1)" "signal_ok s1" "sp_step e (signal_abs s) = (ec, signal_abs s1)"
    using signal_step_simulates Cons.prems by fastforce
  then obtain ecs s' where "signal_run es s1 = Some (ecs, s')" "signal_ok s'" "sp_run es (signal_abs s1) = (ecs, signal_abs s')"
    using Cons.IH [of s1] Cons.prems(2) by auto
  then show ?case using one by simp
qed simp

lemmas signal_sets_eval = sig_service_construct_def sig_add_service_def open_descriptors_def signal_state_init_def unused_service_def unused_set_def sig_listed_def
  signal_construct_def signal_add_def unregistered_def register_signal_def set_handled_def set_flags_def link_registration_def flags_dont_care_def
  signal_async_wait_def start_signal_wait_def unused_op_def signal_op_init_def on_sig_service_def on_sig_set_def on_sig_reg_def on_sig_ops_def
  asio_signal_handler_def pipe_read_perform_def deliver_signal_def deliver_services.simps deliver_regs.simps deliver_to_def sig_post_deferred_def
  signal_clear_def unregister_signal_def unlink_registration_def flags_none_def signal_call_error_def Let_def

text \<open>
  C22: What the operations on signal sets and signal services do is what the specification says, for every
  sequence of operations and every raising of signals, whatever the system answers: each call returns the error
  code of the specification, no call throws or runs forever along the linked lists, and the state reached is
  that of the specification: the undelivered signals of every set, the operations that wait in it in order, and
  the operations given to each scheduler with their error code and signal number.
\<close>

theorem signal_sets_refine_specification:
  assumes "signal_run_possible es (signal_state_init m b)"
  shows "\<exists>s. signal_run es (signal_state_init m b) = Some (fst (sp_run es (signal_spec_init m b)), s) \<and>
    signal_abs s = snd (sp_run es (signal_spec_init m b))"
  using signal_run_simulates [OF signal_init_ok assms] unfolding signal_init_abs by force

theorem signal_sets_refine_specification_witness:
  "let es = [Sg_service 0, Sg_construct 5 0, Sg_construct 6 0, Sg_add (\<lambda>_. None) 5 2 (- 1) 10, Sg_add (\<lambda>_. None) 6 2 (- 1) 11,
       Sg_add (\<lambda>_. Some 22) 6 9 (- 1) 12, Sg_wait 5 20 None, Sg_raise True 2, Sg_read_pipe, Sg_wait 6 21 None, Sg_clear (\<lambda>_. None) 5, Sg_shutdown 0]
   in \<exists>s. signal_run es (signal_state_init 32 True) = Some (fst (sp_run es (signal_spec_init 32 True)), s) \<and>
     signal_abs s = snd (sp_run es (signal_spec_init 32 True))"
  unfolding Let_def
  by (rule signal_sets_refine_specification)
    (simp add: signal_sets_eval, simp split: option.split)

section \<open>Reached states\<close>

lemma signal_run_ok:
  "signal_run_possible es (signal_state_init m b) \<Longrightarrow> signal_run es (signal_state_init m b) = Some (ecs, s) \<Longrightarrow> signal_ok s"
  using signal_run_simulates [OF signal_init_ok] by fastforce

lemma handled_in_set: "signal_ok s \<Longrightarrow> sg_handled s n \<longleftrightarrow> (\<exists>i. n \<in> set (signals_of s i))"
  by (auto simp: signal_ok_def counts_ok_def sets_with_def)

text \<open>
  In a reached state a signal has asio's handler exactly when a set has it, the count of a signal is the number
  of sets that have it, the signals of a set are in order, and a set where an operation waits has no undelivered signal.
\<close>

theorem signal_counts_are_right:
  assumes "signal_run_possible es (signal_state_init m b)" and "signal_run es (signal_state_init m b) = Some (ecs, s)"
  shows "sg_handled s n \<longleftrightarrow> (\<exists>i. n \<in> set (signals_of s i))" and "sg_count s n = card {i. n \<in> set (signals_of s i)}"
    and "sorted_wrt (<) (signals_of s i)"
    and "ss_queue (sg_set s i) \<noteq> [] \<Longrightarrow> r \<in> set (ss_signals (sg_set s i)) \<Longrightarrow> rg_undelivered (sg_reg s r) = 0"
proof -
  have ok: "signal_ok s" using signal_run_ok assms by blast
  show "sg_handled s n \<longleftrightarrow> (\<exists>i. n \<in> set (signals_of s i))" using handled_in_set [OF ok] .
  show "sg_count s n = card {i. n \<in> set (signals_of s i)}" using ok by (simp add: signal_ok_def counts_ok_def sets_with_def)
  show "sorted_wrt (<) (signals_of s i)" using ok by (simp add: signal_ok_def sets_ok_def)
  show "rg_undelivered (sg_reg s r) = 0" if "ss_queue (sg_set s i) \<noteq> []" "r \<in> set (ss_signals (sg_set s i))"
    using ok that by (simp add: signal_ok_def sets_ok_def)
qed

lemma posted_in:
  "(op, ec, k) \<in># sp_posted (signal_abs s) v \<longleftrightarrow> op \<in> set (ssv_posted (sg_service s v)) \<and> so_ec (sg_op s op) = ec \<and> so_number (sg_op s op) = k"
  by (auto simp: posted_entry_def)

lemma unused_abs:
  "unused_op s op \<longleftrightarrow> (\<forall>i. op \<notin> fst ` set (sp_waiting (signal_abs s) i)) \<and> (\<forall>v ec k. (op, ec, k) \<notin># sp_posted (signal_abs s) v)"
  unfolding unused_op_def posted_in by (auto simp: image_image)

lemma finite_receivers:
  assumes "signal_ok s"
  shows "finite (sp_receivers n v (signal_abs s))"
proof (rule finite_subset)
  show "sp_receivers n v (signal_abs s) \<subseteq> sets_with s n" unfolding sp_sets_abs [symmetric] by (auto simp: sp_receivers_def sp_sets_def)
  show "finite (sets_with s n)" using assms by (simp add: signal_ok_def finite_sets_with)
qed

lemma deliver_posted:
  assumes "signal_ok s"
  shows "x \<in># sp_posted (sp_deliver n (signal_abs s)) v \<longleftrightarrow> x \<in># sp_posted (signal_abs s) v \<or>
    sig_listed s v \<and> (\<exists>i \<in> sp_receivers n v (signal_abs s). x \<in> (\<lambda>w. (fst w, no_error, n)) ` set (sp_waiting (signal_abs s) i))"
  by (simp add: sp_deliver_def set_mset_sum [OF finite_receivers [OF assms]] del: signal_abs_simps(7,8))

lemma unused_deliver:
  assumes "signal_ok s" and "unused_op s op" and "signal_abs s' = sp_deliver n (signal_abs s)"
  shows "unused_op s' op"
  using assms(2) unfolding unused_abs assms(3) deliver_posted [OF assms(1)]
  by (force simp: sp_deliver_def simp del: signal_abs_simps)



end
