(* ===== verification/Spec2Isabelle.thy ===== *)
theory Spec2Isabelle
  imports Message TsQueue_Wait Server_Ids Client_Facts Asio_OpQueue Asio_Iocp_Facts Asio_Connect
    Delivery Server_Lifetime Asio_Socket_Ops_Facts Asio_Stream_Facts Asio_Timer_Facts
    Asio_Strand_Facts Asio_Read_Until_Facts Asio_Reactor_Runs Asio_Channel_Properties
    Asio_Scheduler_Work Asio_Signal_Sets
begin

text \<open>
  A verification library for a small TCP messaging framework in C++ (\<^verbatim>\<open>TCP_ClientServer/Common\<close>), the
  server and the client program built on it (\<^verbatim>\<open>Server/Server.cpp\<close>, \<^verbatim>\<open>Client/CLient.cpp\<close>) and the parts of
  the bundled asio 1.30.2 library that carry its messages on Windows.

  \<^bold>\<open>The program.\<close> A message is a header (a 32-bit identifier and a 32-bit size) and a vector of bytes.
  A connection owns a socket, a queue of outgoing messages and one temporary incoming message. It
  keeps one read in flight (header, then body, then the message goes to the queue of its owner) and
  at most one write (header, then body of the front of the outgoing queue). Server and client each own
  an \<open>io_context\<close> that a thread of their own runs, the queue of incoming messages, and connections; the
  application thread calls \<open>Send\<close>, \<open>Update\<close>, \<open>Connect\<close>, \<open>Disconnect\<close>, which post function objects to the
  context. The two threads meet in the thread-safe queue and in the context.

  \<^bold>\<open>Theories and code.\<close>
  \<^item> \<^theory_text>\<open>Prelude\<close>: words, the results \<open>fault + 'a\<close> of operations that C++ leaves undefined or that end the
    program, little-endian encodings, the collection of definitions unfolded by the proofs.
  \<^item> \<^theory_text>\<open>Message\<close> (\<^verbatim>\<open>message.h\<close>): \<open>messageHeader\<close>, \<open>messageBody\<close>, \<open>size\<close>, \<open><<\<close> (\<open>msg_push\<close>), \<open>>>\<close> (\<open>msg_pull\<close>)
    and the memory layout of a header. \<^theory_text>\<open>Custom_Types\<close>: \<open>CustomMsgTypes\<close>.
  \<^item> \<^theory_text>\<open>TsQueue\<close>, \<^theory_text>\<open>TsQueue_Wait\<close> (\<^verbatim>\<open>tsqueue.h\<close>): the queue as data (an instance of the locale
    \<open>fifo_queue\<close>), and its pushes and \<open>wait\<close> as steps of threads over the two mutexes and the condition
    variable.
  \<^item> \<^theory_text>\<open>Connection\<close> (\<^verbatim>\<open>connection.h\<close>): one definition per member function and per completion handler, over a
    heap of connections; \<open>exec_event\<close> runs one event of the event loop and \<open>run_events\<close> a sequence, in
    which \<open>possible\<close> allows every completion a composed transfer can have. \<^theory_text>\<open>Framing\<close>: the abstract
    wire format (\<open>frame\<close>) and its parser (\<open>decode\<close>). \<^theory_text>\<open>Connection_Writer\<close>, \<^theory_text>\<open>Connection_Reader\<close>: the invariants
    of the two state machines against it; \<^theory_text>\<open>Connection_Scope\<close>: what a step leaves alone; \<^theory_text>\<open>Delivery\<close>: the two
    sides put together.
  \<^item> \<^theory_text>\<open>Server\<close> (\<^verbatim>\<open>server.h\<close>, \<^verbatim>\<open>Server.cpp\<close>): \<open>ServerInterface\<close> with its virtual functions as the record
    \<open>server_hooks\<close>, \<open>CustomServer\<close> as one such record, server events. \<^theory_text>\<open>Server_Invariant\<close>, \<^theory_text>\<open>Server_Ids\<close>,
    \<^theory_text>\<open>Server_Lifetime\<close>: its invariant, its operations, its client identifiers, the lifetime of its
    connections.
  \<^item> \<^theory_text>\<open>Client\<close>, \<^theory_text>\<open>Client_Facts\<close> (\<^verbatim>\<open>client.h\<close>, \<^verbatim>\<open>CLient.cpp\<close>): \<open>ClientInterface\<close> and the loop of \<open>main\<close>.
  \<^item> \<^theory_text>\<open>Asio_Error\<close> (\<^verbatim>\<open>error.hpp\<close>), \<^theory_text>\<open>Asio_Buffer\<close> (\<^verbatim>\<open>buffer.hpp\<close>, \<^verbatim>\<open>completion_condition.hpp\<close>,
    \<^verbatim>\<open>consuming_buffers.hpp\<close>), \<^theory_text>\<open>Asio_Transfer\<close> (\<^verbatim>\<open>read.hpp\<close>, \<^verbatim>\<open>write.hpp\<close>, \<^verbatim>\<open>socket_ops.ipp\<close>), \<^theory_text>\<open>Asio_Connect\<close>
    (\<^verbatim>\<open>connect.hpp\<close>), \<^theory_text>\<open>Asio_OpQueue\<close> (\<^verbatim>\<open>op_queue.hpp\<close>), \<^theory_text>\<open>Asio_Iocp\<close> and \<^theory_text>\<open>Asio_Iocp_Facts\<close>
    (\<^verbatim>\<open>win_iocp_io_context\<close>, \<^verbatim>\<open>win_iocp_operation.hpp\<close>).
  \<^item> \<^theory_text>\<open>Asio_Socket_Ops\<close>, \<^theory_text>\<open>Asio_Socket_Ops_Facts\<close> (\<^verbatim>\<open>detail/impl/socket_ops.ipp\<close>): the socket functions in their
    Windows branches, one definition \<open>so_f\<close> per function \<open>f\<close>. A call of Winsock is a \<open>syscall\<close>, logged in the
    order of the calls, and takes the next \<open>reply\<close> from a list the system is free to choose.
  \<^item> \<^theory_text>\<open>Asio_Socket\<close>, \<^theory_text>\<open>Asio_Socket_Facts\<close> (\<^verbatim>\<open>win_iocp_socket_service_base.ipp\<close>, \<^verbatim>\<open>socket_holder.hpp\<close>): the socket
    service over a heap of implementations (\<open>sockets\<close>), each in the linked list of its service, whose
    context is that of \<^theory_text>\<open>Asio_Iocp\<close>. \<^theory_text>\<open>Asio_Completion\<close>, \<^theory_text>\<open>Asio_Completion_Facts\<close>
    (\<^verbatim>\<open>win_iocp_*_op.hpp\<close>, \<^verbatim>\<open>win_iocp_socket_service_base.hpp\<close>): \<open>do_complete\<close> of every operation, the
    initiating functions and the cancellation of one operation.
  \<^item> \<^theory_text>\<open>Asio_Stream\<close>, \<^theory_text>\<open>Asio_Stream_Facts\<close> (\<^verbatim>\<open>basic_stream_socket.hpp\<close>): a composed transfer on a socket, from the
    operation object of \<^theory_text>\<open>Asio_Transfer\<close> through the service and the loop and back.
  \<^item> \<^theory_text>\<open>Asio_Strand\<close>, \<^theory_text>\<open>Asio_Strand_Facts\<close> (\<^verbatim>\<open>strand_executor_service\<close>): strands as steps of threads, each with a
    stack of the calls it is in, and the list of all strands.
  \<^item> \<^theory_text>\<open>Asio_Hash_Map\<close>, \<^theory_text>\<open>Asio_Hash_Map_Facts\<close> (\<^verbatim>\<open>hash_map.hpp\<close>): the hash map, with the list of its values, its
    array of buckets and its spare nodes. \<^theory_text>\<open>Asio_Reactor\<close>, \<^theory_text>\<open>Asio_Reactor_Facts\<close> (\<^verbatim>\<open>reactor_op_queue.hpp\<close>,
    \<^verbatim>\<open>win_fd_set_adapter.hpp\<close>, \<^verbatim>\<open>select_reactor.ipp\<close>, \<^verbatim>\<open>socket_select_interrupter.ipp\<close>): the reactor in its Windows
    branches, over the context of \<^theory_text>\<open>Asio_Iocp\<close>. \<^theory_text>\<open>Asio_Reactor_Runs\<close>: its thread and its callers, interleaved.
  \<^item> \<^theory_text>\<open>Asio_Channel\<close>, \<^theory_text>\<open>Asio_Channel_Facts\<close>, \<^theory_text>\<open>Asio_Channel_Runs\<close>, \<^theory_text>\<open>Asio_Channel_Properties\<close>
    (\<^verbatim>\<open>experimental/detail/channel_service.hpp\<close>): channels, over the buffers of the locale \<open>channel_buffer\<close>, and their
    specification as bounded queues.
  \<^item> \<^theory_text>\<open>Asio_Scheduler\<close>, \<^theory_text>\<open>Asio_Scheduler_Facts\<close>, \<^theory_text>\<open>Asio_Scheduler_Runs\<close>, \<^theory_text>\<open>Asio_Scheduler_Work\<close>
    (\<^verbatim>\<open>scheduler.ipp\<close>, \<^verbatim>\<open>posix_event.hpp\<close>): the loop asio has on other systems, as steps of any number of threads,
    each with a place in the code.
  \<^item> \<^theory_text>\<open>Asio_Signal\<close>, \<^theory_text>\<open>Asio_Signal_Facts\<close>, \<^theory_text>\<open>Asio_Signal_Runs\<close>, \<^theory_text>\<open>Asio_Signal_Refinement\<close>, \<^theory_text>\<open>Asio_Signal_Sets\<close>
    (\<^verbatim>\<open>signal_set_service.ipp\<close>): sets of signals, with the lists of their registrations and of all services, and a
    specification (\<open>sp_step\<close>) that has a number of undelivered signals and a list of waiting operations per set.
  \<^item> \<^theory_text>\<open>Asio_Dynamic\<close>, \<^theory_text>\<open>Asio_Dynamic_Facts\<close> (\<^verbatim>\<open>basic_streambuf.hpp\<close>, \<^verbatim>\<open>buffer.hpp\<close>): the buffers that grow, as
    instances of the locale \<open>dynamic_buffer\<close>. \<^theory_text>\<open>Asio_Read_Until\<close>, \<^theory_text>\<open>Asio_Read_Until_Facts\<close>
    (\<^verbatim>\<open>impl/read_until.hpp\<close>): reading until a delimiter, synchronous and asynchronous, over these buffers and
    a way to look for a match, the locale \<open>scanner\<close>.
  \<^item> \<^theory_text>\<open>Asio_Timer\<close>, \<^theory_text>\<open>Asio_Timer_Facts\<close> (\<^verbatim>\<open>timer_queue.hpp\<close>, \<^verbatim>\<open>chrono_time_traits.hpp\<close>): the timer queue, its
    heap in a vector, its list of active timers, its clock arithmetic in \<open>64 word\<close>, and the functions of the
    context that use it. \<^theory_text>\<open>Linked_List\<close>: the doubly linked lists that sockets and timers share.

  \<^bold>\<open>What the lemmas show.\<close> Messages: push and pull are inverse, and pull is undefined exactly on a
  short body. Connections: the bytes sent are frames in the order of the calls, what arrives is what
  \<open>decode\<close> finds, and together well-framed messages arrive in order; a message filled with \<open><<\<close> is not
  well framed, since its size counts the header. Server: no fault on well-behaved events, the exact
  effect of broadcast, \<open>Update\<close> and accept, and where the bookkeeping of clients goes wrong. Client: the
  exact behaviour of the loop, \<open>Connect\<close> and \<open>Disconnect\<close>. Queue: first in first out, \<open>wait\<close> is safe, and
  its wake-up can be lost. asio: composed transfers meet the specification the connection model uses
  (\<open>exact_transfer\<close>), both connect algorithms agree, the operation queue is a list, the context
  neither loses nor duplicates operations and runs what was posted before a stop. Sockets: the list of
  a service is exactly its living sockets, every start of an operation leads to one completion, what
  was pending on a closed socket is reported as aborted (cancellation tokens are never shared or
  reused), an accepted socket has one owner, flags keep the type of a socket, a blocking receive
  returns the first bytes. What a composed transfer assumes
  of the completions of a stream is derived from the promises of the system, through all layers.
  Growing buffers: a stream buffer is a bounded queue, and reading until a delimiter finds the first
  occurrence however the stream cuts its bytes. Strands: one function at a time, in order, none left
  behind. Reactor: the hash map is a map, the operations of a descriptor are a queue, none is lost, and
  the thread never sleeps through one. Channels: bounded queues that keep the order of messages, but for
  what the code does with senders that wait at a close. Portable scheduler: operations and work are accounted
  for, and threads are woken for what is queued, except after \<open>run_one\<close> and its like, where a wake-up is lost.
  Signal sets: the lists and counts keep to their specification, and no raised signal is lost while its set lives.
  Timers: no wait is lost, timers fire exactly when due and in order, and the
  clock never wraps around.

  \<^bold>\<open>Bounds and fuel.\<close> \<open>run_loop\<close> takes one unit of fuel per operation run, \<open>run_connect\<close> one per activation
  of the operation, \<open>oq_destroy\<close> one per element; the properties that use them state that a given fuel
  is enough. The loops over the replies of the system (\<open>so_recv_loop\<close> and the like), \<open>shutdown_impls\<close> and
  the loops of the timer queue and along the lists of signal registrations are partial functions, whose results are proved to exist given enough
  replies or the invariant of the structure. The loops of \<open>Update\<close>, \<open>do_one\<close>, \<open>shutdown\<close>, \<open>connect\<close> and \<open>decode\<close> are total functions with
  measures. Sizes and counters have their C++ widths (\<open>u32\<close>, \<open>u64\<close>); lengths of vectors are natural
  numbers, and \<open>fits_size_t\<close> says that one fits in 64 bits where it matters.

  \<^bold>\<open>Parameters.\<close> What the operating system decides is an argument: the split of a transfer, error codes,
  the outcome of name resolution, keys, clock, whether a packet can be queued, spurious wake-ups, the
  replies to calls of Winsock. The formatting of seconds is a function argument.

  \<^bold>\<open>Not modelled.\<close> The resolver, datagram calls and address texts of \<^verbatim>\<open>socket_ops.ipp\<close>, sets of several timer
  queues in the select reactor (whose calls by the socket service are only logged there) and the timer thread of the context;
  executors, coroutines, SSL, files and the reactors of other systems, which the programs do not use; of the portable
  scheduler, the thread it may own, nested calls, the counts it returns and exceptions of the task; of signal sets, forks and the reactor that watches the pipe. In the scheduler a
  step is what a thread does from taking the lock to releasing it, changes of the atomic count next to it included.
  A handler and a call of \<open>Update\<close>, \<open>MessageClient\<close> or \<open>MessageAllClients\<close> are each one step: data races
  between the application thread and the context's thread on the container of connections are not
  modelled. A write captures the bytes of its message when it starts, which is exact because the
  front of the queue does not change while a write is in flight.
\<close>

end
